(* ===== verification/Loom_Prelude.thy ===== *)
theory Loom_Prelude
  imports Main "HOL-Library.AList"
begin

text \<open>
  Shared vocabulary of the development: the types every component uses, 64-bit
  wrap-around, the string operations of Go's \<open>strings\<close> package the sources call,
  generic lemmas on association lists and lists, and the transition-system locale
  through which every component lifts a one-step invariant to its reachable states.

  Conventions.  A Go \<open>string\<close> or \<open>[]byte\<close> is a HOL \<open>string\<close>, one \<open>char\<close> per byte.
  \<open>time.Time\<close> and \<open>time.Duration\<close> are integers counting nanoseconds.  A Go map that is
  only looked up and updated is a function into \<open>option\<close>; one that the code also
  iterates over is an association list with distinct keys, whose order stands for the
  unspecified iteration order.
\<close>

named_theorems loom_simps
named_theorems loom_inv

type_synonym time = int
type_synonym duration = int

definition second :: duration where
  "second = 1000000000"

definition minute :: duration where
  "minute = 60 * second"

text \<open>Two's complement reduction of an \<open>int64\<close> (or 64-bit \<open>int\<close>) result.\<close>

definition wrap64 :: "int \<Rightarrow> int" where
  "wrap64 x = (x + 2 ^ 63) mod 2 ^ 64 - 2 ^ 63"

lemma wrap64_id: "- (2 ^ 63) \<le> x \<Longrightarrow> x < 2 ^ 63 \<Longrightarrow> wrap64 x = x"
  by (simp add: wrap64_def)

lemma wrap64_range: "- (2 ^ 63) \<le> wrap64 x \<and> wrap64 x < 2 ^ 63"
  by (simp add: wrap64_def)

subsection \<open>Association lists with distinct keys\<close>

definition alist_ok :: "('k \<times> 'v) list \<Rightarrow> bool" where
  "alist_ok xs \<longleftrightarrow> distinct (map fst xs)"

lemma alist_ok_update [simp, intro]: "alist_ok xs \<Longrightarrow> alist_ok (AList.update k v xs)"
  by (simp add: alist_ok_def distinct_update)

lemma alist_ok_delete [simp, intro]: "alist_ok xs \<Longrightarrow> alist_ok (AList.delete k xs)"
  by (simp add: alist_ok_def distinct_delete)

lemma alist_ok_Nil [simp, intro]: "alist_ok []"
  by (simp add: alist_ok_def)

lemma alist_ok_Cons: "alist_ok (x # xs) \<longleftrightarrow> fst x \<notin> fst ` set xs \<and> alist_ok xs"
  by (auto simp: alist_ok_def)

lemma map_of_update [simp]: "map_of (AList.update k v xs) = (map_of xs)(k \<mapsto> v)"
  by (rule update_conv')

lemma map_of_delete [simp]: "map_of (AList.delete k xs) = (map_of xs)(k := None)"
  by (rule delete_conv')

lemma alist_ok_map_of: "alist_ok xs \<Longrightarrow> map_of xs k = Some v \<longleftrightarrow> (k, v) \<in> set xs"
  by (simp add: alist_ok_def)

lemma sum_list_delete:
  fixes f :: "'v \<Rightarrow> int"
  assumes "alist_ok xs" and "map_of xs k = Some v"
  shows "(\<Sum>(_, w) \<leftarrow> AList.delete k xs. f w) = (\<Sum>(_, w) \<leftarrow> xs. f w) - f v"
  using assms
proof (induction xs)
  case (Cons x xs)
  obtain a b where x: "x = (a, b)" by (cases x)
  show ?case
  proof (cases "a = k")
    case True
    with Cons.prems x have "k \<notin> fst ` set xs" by (auto simp: alist_ok_Cons)
    then have "AList.delete k xs = xs" by (simp add: delete_idem)
    with Cons.prems x True show ?thesis by simp
  next
    case False
    with Cons x show ?thesis by (simp add: alist_ok_Cons)
  qed
qed simp

lemma update_fresh: "map_of xs k = None \<Longrightarrow> AList.update k v xs = xs @ [(k, v)]"
  by (induction xs) (auto split: if_splits)

lemma sum_list_update_fresh:
  fixes f :: "'v \<Rightarrow> int"
  shows "map_of xs k = None \<Longrightarrow>
    (\<Sum>(_, w) \<leftarrow> AList.update k v xs. f w) = (\<Sum>(_, w) \<leftarrow> xs. f w) + f v"
  by (simp add: update_fresh)

lemma filter_key_single:
  "distinct (map fst xs) \<Longrightarrow> (i, k) \<in> set xs \<Longrightarrow> filter (\<lambda>(j, _). j = i) xs = [(i, k)]"
proof (induction xs)
  case (Cons x xs)
  obtain a b where x: "x = (a, b)" by (cases x)
  show ?case
  proof (cases "a = i")
    case True
    with Cons.prems x have "i \<notin> fst ` set xs" by auto
    then have "filter (\<lambda>(j, _). j = i) xs = []" and "(i, k) \<notin> set xs"
      by (force simp: filter_empty_conv)+
    with True Cons.prems x show ?thesis by simp
  next
    case False
    with Cons x show ?thesis by simp
  qed
qed simp

lemma map_snd_filter: "map snd (filter (\<lambda>(_, k). P k) xs) = filter P (map snd xs)"
  by (induction xs) auto

lemma filter_not_last:
  assumes "xs = ys @ [x]" and "distinct xs"
  shows "filter (\<lambda>y. y \<noteq> x) xs = ys"
  using assms by (auto simp: filter_id_conv)

subsection \<open>Strings\<close>

text \<open>\<open>strings.ToLower\<close>, \<open>strings.EqualFold\<close> and \<open>strings.TrimSpace\<close> on ASCII bytes.\<close>

definition lower :: "char \<Rightarrow> char" where
  "lower c =
     (let n = of_char c :: nat in if 65 \<le> n \<and> n \<le> 90 then char_of (n + 32) else c)"

definition to_lower :: "string \<Rightarrow> string" where
  "to_lower s = map lower s"

definition equal_fold :: "string \<Rightarrow> string \<Rightarrow> bool" where
  "equal_fold s t \<longleftrightarrow> to_lower s = to_lower t"

definition is_space :: "char \<Rightarrow> bool" where
  "is_space c = (let n = of_char c :: nat in n = 32 \<or> (9 \<le> n \<and> n \<le> 13))"

definition trim_space :: "string \<Rightarrow> string" where
  "trim_space s = rev (dropWhile is_space (rev (dropWhile is_space s)))"

lemma trim_space_infix: "\<exists>xs ys. s = xs @ trim_space s @ ys"
proof -
  have "t = rev (dropWhile P (rev t)) @ rev (takeWhile P (rev t))" for t :: string and P
    by (metis rev_append rev_rev_ident takeWhile_dropWhile_id)
  then show ?thesis unfolding trim_space_def by (metis takeWhile_dropWhile_id)
qed

lemma trim_space_pad:
  assumes "\<forall>c \<in> set xs. is_space c" and "\<forall>c \<in> set ys. is_space c"
  shows "trim_space (xs @ s @ ys) = trim_space s"
proof -
  have "dropWhile is_space (xs @ s @ ys) = dropWhile is_space (s @ ys)"
    using assms(1) by (simp add: dropWhile_append2)
  moreover have "dropWhile is_space (rev (dropWhile is_space (s @ ys))) =
      dropWhile is_space (rev (dropWhile is_space s))"
  proof (cases "\<forall>c \<in> set s. is_space c")
    case True
    with assms(2) have "dropWhile is_space (s @ ys) = []" "dropWhile is_space s = []"
      unfolding dropWhile_eq_Nil_conv by auto
    then show ?thesis by (simp only:)
  next
    case False
    then obtain c where "c \<in> set s" "\<not> is_space c" by blast
    then have "dropWhile is_space (s @ ys) = dropWhile is_space s @ ys" by (rule dropWhile_append1)
    moreover have "dropWhile is_space (rev ys @ t) = dropWhile is_space t" for t
      using assms(2) by (intro dropWhile_append2) simp
    ultimately show ?thesis by simp
  qed
  ultimately show ?thesis by (simp add: trim_space_def)
qed

text \<open>\<open>strings.Contains\<close> and \<open>strings.SplitN(s, sep, 2)\<close>, which cuts at the first separator.\<close>

definition has_prefix :: "string \<Rightarrow> string \<Rightarrow> bool" where
  "has_prefix s p \<longleftrightarrow> take (length p) s = p"

fun contains :: "string \<Rightarrow> string \<Rightarrow> bool" where
  "contains [] sub = (sub = [])"
| "contains (c # cs) sub = (has_prefix (c # cs) sub \<or> contains cs sub)"

fun split_first :: "string \<Rightarrow> string \<Rightarrow> (string \<times> string) option" where
  "split_first sep [] = (if sep = [] then Some ([], []) else None)"
| "split_first sep (c # cs) =
     (if has_prefix (c # cs) sep then Some ([], drop (length sep) (c # cs))
      else map_option (\<lambda>(a, b). (c # a, b)) (split_first sep cs))"

lemma has_prefix_append: "has_prefix s p \<longleftrightarrow> (\<exists>t. s = p @ t)"
  unfolding has_prefix_def by (metis append_eq_conv_conj append_take_drop_id)

lemma contains_iff: "contains s sub \<longleftrightarrow> (\<exists>a b. s = a @ sub @ b)"
proof (induction s)
  case (Cons c cs)
  have "(\<exists>a b. c # cs = a @ sub @ b) \<longleftrightarrow> (\<exists>b. c # cs = sub @ b) \<or> (\<exists>a b. cs = a @ sub @ b)"
    by (metis append_Cons append_Nil list.exhaust list.inject)
  with Cons show ?case by (simp add: has_prefix_append)
qed simp

lemma split_first_Some: "split_first sep s = Some (a, b) \<Longrightarrow> s = a @ sep @ b"
  by (induction s arbitrary: a b) (auto simp: has_prefix_append split: if_splits)

lemma split_first_None: "split_first sep s = None \<longleftrightarrow> \<not> contains s sep"
  by (induction s) (auto simp: has_prefix_def)

text \<open>The first separator is the one the string is cut at.\<close>

lemma split_first_head: "split_first sep s = Some (a, b) \<Longrightarrow> sep \<noteq> [] \<Longrightarrow> \<not> contains a sep"
proof (induction s arbitrary: a b)
  case (Cons c cs)
  show ?case
  proof (cases "has_prefix (c # cs) sep")
    case True
    with Cons.prems show ?thesis by simp
  next
    case False
    with Cons.prems(1) obtain a' where a: "a = c # a'" and r: "split_first sep cs = Some (a', b)" by auto
    from split_first_Some [OF r] have "cs = a' @ sep @ b" .
    with False a have "\<not> has_prefix a sep"
      unfolding has_prefix_append by (metis append.assoc append_Cons)
    with Cons.IH [OF r Cons.prems(2)] a show ?thesis by simp
  qed
qed simp

text \<open>\<open>%d\<close> of a non-negative number.\<close>

definition digit :: "nat \<Rightarrow> char" where
  "digit n = char_of (48 + n)"

fun dec :: "nat \<Rightarrow> string" where
  "dec n = (if n < 10 then [digit n] else dec (n div 10) @ [digit (n mod 10)])"

declare dec.simps [simp del]

definition undigit :: "char \<Rightarrow> nat" where
  "undigit c = of_char c - 48"

lemma undigit_digit: "n < 10 \<Longrightarrow> undigit (digit n) = n"
  by (simp add: undigit_def digit_def)

lemma undec_dec: "foldl (\<lambda>a c. 10 * a + undigit c) 0 (dec n) = n"
proof (induction n rule: dec.induct)
  case (1 n)
  then show ?case by (subst dec.simps) (simp add: undigit_digit)
qed

lemma dec_inject [simp]: "dec m = dec n \<longleftrightarrow> m = n"
  using undec_dec by metis

lemma dec_digits: "c \<in> set (dec n) \<Longrightarrow> 48 \<le> (of_char c :: nat) \<and> (of_char c :: nat) \<le> 57"
proof (induction n rule: dec.induct)
  case (1 n)
  show ?case
  proof (cases "n < 10")
    case True
    with "1.prems" show ?thesis by (subst (asm) dec.simps) (simp add: digit_def)
  next
    case False
    with "1.prems" have "c \<in> set (dec (n div 10)) \<or> c = digit (n mod 10)"
      by (subst (asm) dec.simps) auto
    then show ?thesis
    proof
      assume "c = digit (n mod 10)"
      moreover have "n mod 10 < 10" by simp
      ultimately show ?thesis by (simp add: digit_def)
    qed (use "1.IH" False in blast)
  qed
qed

lemma takeWhile_sep:
  "\<forall>c \<in> set xs. c \<noteq> a \<Longrightarrow> takeWhile (\<lambda>c. c \<noteq> a) (xs @ a # ys) = xs"
  by (simp add: takeWhile_tail)

text \<open>A number printed before a separator is read back, whatever follows.\<close>

lemma dec_sep_inject:
  assumes "dec m @ a # xs = dec n @ a # ys" and "(of_char a :: nat) < 48 \<or> 57 < (of_char a :: nat)"
  shows "m = n"
proof -
  have sep: "\<forall>c \<in> set (dec k). c \<noteq> a" for k
    using dec_digits assms(2) by fastforce
  have "takeWhile (\<lambda>c. c \<noteq> a) (dec m @ a # xs) = takeWhile (\<lambda>c. c \<noteq> a) (dec n @ a # ys)"
    using assms(1) by simp
  then have "dec m = dec n" by (simp add: takeWhile_sep sep)
  then show ?thesis by simp
qed

subsection \<open>Reachable states and invariants\<close>

inductive reachable :: "('s \<Rightarrow> bool) \<Rightarrow> ('s \<Rightarrow> 's \<Rightarrow> bool) \<Rightarrow> 's \<Rightarrow> bool"
  for init :: "'s \<Rightarrow> bool" and step :: "'s \<Rightarrow> 's \<Rightarrow> bool" where
  start: "init s \<Longrightarrow> reachable init step s"
| step: "reachable init step s \<Longrightarrow> step s t \<Longrightarrow> reachable init step t"

text \<open>
  The contract of every stateful component: an invariant that the initial states have
  and every step keeps.  Its one consequence, that reachable states have it, is proved
  here for all of them.
\<close>

locale inv_system =
  fixes init :: "'s \<Rightarrow> bool"
    and step :: "'s \<Rightarrow> 's \<Rightarrow> bool"
    and inv :: "'s \<Rightarrow> bool"
  assumes inv_init: "init s \<Longrightarrow> inv s"
    and inv_step: "inv s \<Longrightarrow> step s t \<Longrightarrow> inv t"
begin

lemma inv_reachable: "reachable init step s \<Longrightarrow> inv s"
  by (induction rule: reachable.induct) (auto intro: inv_init inv_step)

end

end
