(* ===== verification/Path_Match.thy ===== *)
theory Path_Match
  imports Loom_Prelude
begin

text \<open>
  Go's \<open>path.Match\<close>, which every access-control pattern goes through: \<open>*\<close> matches a
  sequence of characters other than \<open>/\<close>, \<open>?\<close> one such character, \<open>[...]\<close> a character
  class, and a backslash quotes.  The functions of the standard library are kept:
  \<open>scan_chunk\<close> cuts the pattern at its unbracketed stars, \<open>match_chunk\<close> matches a
  star-free piece, \<open>path_match\<close> puts the pieces together.  A malformed pattern is
  \<open>None\<close> (\<open>ErrBadPattern\<close>).  Characters are bytes, so the model is exact for ASCII
  patterns and names.

  The lemmas show that the star-free fragment without metacharacters is string equality,
  that a final star accepts exactly the suffixes free of \<open>/\<close>, and that a literal prefix
  followed by a star is the prefix test the rules of the gateway rely on.
\<close>

fun skip_stars :: "string \<Rightarrow> bool \<times> string" where
  "skip_stars [] = (False, [])"
| "skip_stars (c # p) = (if c = CHR ''*'' then (True, snd (skip_stars p)) else (False, c # p))"

fun scan_body :: "bool \<Rightarrow> string \<Rightarrow> string \<times> string" where
  "scan_body inrange [] = ([], [])"
| "scan_body inrange (c # p) =
     (if c = CHR 0x5C then
        (case p of
           [] \<Rightarrow> ([c], [])
         | d # q \<Rightarrow> (let (chunk, rest) = scan_body inrange q in (c # d # chunk, rest)))
      else if c = CHR ''*'' \<and> \<not> inrange then ([], c # p)
      else (let (chunk, rest) =
              scan_body (if c = CHR ''['' then True else if c = CHR '']'' then False else inrange) p
            in (c # chunk, rest)))"

definition scan_chunk :: "string \<Rightarrow> bool \<times> string \<times> string" where
  "scan_chunk p =
     (let (star, q) = skip_stars p; (chunk, rest) = scan_body False q in (star, chunk, rest))"

text \<open>One possibly quoted character of a class; it may not end the chunk.\<close>

fun get_esc :: "string \<Rightarrow> (char \<times> string) option" where
  "get_esc [] = None"
| "get_esc (c # p) =
     (if c = CHR ''-'' \<or> c = CHR '']'' then None
      else if c = CHR 0x5C then
        (case p of [] \<Rightarrow> None | d # q \<Rightarrow> if q = [] then None else Some (d, q))
      else if p = [] then None else Some (c, p))"

lemma get_esc_shorter: "get_esc p = Some (c, q) \<Longrightarrow> length q < length p"
  by (induction p) (auto split: if_splits list.splits)

definition in_range :: "char \<Rightarrow> char \<Rightarrow> char option \<Rightarrow> bool" where
  "in_range lo hi r =
     (case r of None \<Rightarrow> False
      | Some c \<Rightarrow> (of_char lo :: nat) \<le> of_char c \<and> (of_char c :: nat) \<le> of_char hi)"

text \<open>One range of a class: its bounds and what follows.\<close>

definition class_range :: "string \<Rightarrow> (char \<times> char \<times> string) option" where
  "class_range p =
     (case get_esc p of
        None \<Rightarrow> None
      | Some (lo, p1) \<Rightarrow>
          if p1 \<noteq> [] \<and> hd p1 = CHR ''-'' then
            (case get_esc (tl p1) of None \<Rightarrow> None | Some (hi, p2) \<Rightarrow> Some (lo, hi, p2))
          else Some (lo, lo, p1))"

lemma class_range_shorter: "class_range p = Some (lo, hi, q) \<Longrightarrow> length q < length p"
  by (auto simp: class_range_def split: option.splits if_splits dest!: get_esc_shorter)

text \<open>The ranges of a class up to its closing bracket, and whether \<open>r\<close> is in one of them.\<close>

function class_ranges :: "char option \<Rightarrow> nat \<Rightarrow> bool \<Rightarrow> string \<Rightarrow> (bool \<times> string) option" where
  "class_ranges r nrange found p =
     (if p \<noteq> [] \<and> hd p = CHR '']'' \<and> 0 < nrange then Some (found, tl p)
      else
        (case class_range p of
           None \<Rightarrow> None
         | Some (lo, hi, q) \<Rightarrow> class_ranges r (Suc nrange) (found \<or> in_range lo hi r) q))"
  by pat_completeness auto
termination
  by (relation "measure (\<lambda>(_, _, _, p). length p)") (auto dest!: class_range_shorter)

declare class_ranges.simps [simp del]

lemma class_ranges_shorter:
  "class_ranges r n found p = Some (b, q) \<Longrightarrow> length q < length p"
proof (induction r n found p rule: class_ranges.induct)
  case (1 r n found p)
  show ?case
  proof (cases "p \<noteq> [] \<and> hd p = CHR '']'' \<and> 0 < n")
    case True
    with "1.prems" show ?thesis by (subst (asm) class_ranges.simps) auto
  next
    case False
    with "1.prems" obtain lo hi q' where r: "class_range p = Some (lo, hi, q')"
      and q: "class_ranges r (Suc n) (found \<or> in_range lo hi r) q' = Some (b, q)"
      by (subst (asm) class_ranges.simps) (auto split: option.splits if_splits)
    from "1.IH" [OF False r refl refl q] class_range_shorter [OF r] show ?thesis by simp
  qed
qed

text \<open>
  The rest of the subject is \<open>Some s\<close> while the match stands and \<open>None\<close> once it has
  failed; the chunk is read to its end all the same, since a malformed one is an error.
\<close>

function match_chunk_from :: "string \<Rightarrow> string option \<Rightarrow> string option option" where
  "match_chunk_from [] s = Some s"
| "match_chunk_from (c # p) s =
     (let s' = (case s of None \<Rightarrow> None | Some [] \<Rightarrow> None | Some (x # xs) \<Rightarrow> Some (x # xs)) in
      if c = CHR ''['' then
        (let negated = (p \<noteq> [] \<and> hd p = CHR ''^'');
             body = (if negated then tl p else p) in
         case class_ranges (map_option hd s') 0 False body of
           None \<Rightarrow> None
         | Some (found, q) \<Rightarrow>
             match_chunk_from q (if found = negated then None else map_option tl s'))
      else if c = CHR ''?'' then
        match_chunk_from p
          (case s' of None \<Rightarrow> None
           | Some t \<Rightarrow> if hd t = CHR ''/'' then None else Some (tl t))
      else if c = CHR 0x5C then
        (case p of
           [] \<Rightarrow> None
         | d # q \<Rightarrow>
             match_chunk_from q
               (case s' of None \<Rightarrow> None | Some t \<Rightarrow> if d \<noteq> hd t then None else Some (tl t)))
      else
        match_chunk_from p
          (case s' of None \<Rightarrow> None | Some t \<Rightarrow> if c \<noteq> hd t then None else Some (tl t)))"
  by pat_completeness auto
termination
proof (relation "measure (\<lambda>(p, _). length p)", goal_cases)
  case (2 c p s s' negated body z found q)
  then have "class_ranges (map_option hd s') 0 False body = Some (found, q)" by simp
  then have "length q < length body" by (rule class_ranges_shorter)
  moreover have "length body \<le> length p" using 2 by auto
  ultimately show ?case by simp
qed auto

definition match_chunk :: "string \<Rightarrow> string \<Rightarrow> string option option" where
  "match_chunk chunk s = match_chunk_from chunk (Some s)"

text \<open>
  The positions a star may skip to: every suffix of the subject that is reached without
  passing over a \<open>/\<close>.  \<open>last\<close> tells whether the chunk is the last one, which has to
  exhaust the subject.
\<close>

fun star_search :: "string \<Rightarrow> bool \<Rightarrow> string \<Rightarrow> string option option" where
  "star_search chunk lst [] = Some None"
| "star_search chunk lst (x # xs) =
     (if x = CHR ''/'' then Some None
      else
        (case match_chunk chunk xs of
           None \<Rightarrow> None
         | Some (Some t) \<Rightarrow> if lst \<and> t \<noteq> [] then star_search chunk lst xs else Some (Some t)
         | Some None \<Rightarrow> star_search chunk lst xs))"

lemma scan_body_append: "fst (scan_body b p) @ snd (scan_body b p) = p"
proof (induction b p rule: scan_body.induct)
  case (2 b c p)
  show ?case
  proof (cases "c = CHR 0x5C")
    case True
    then show ?thesis using 2(1) by (cases p) (simp_all add: case_prod_beta)
  next
    case False
    then show ?thesis using 2(2) by (simp add: case_prod_beta)
  qed
qed simp

lemma skip_stars_length: "length (snd (skip_stars p)) \<le> length p"
  by (induction p) auto

lemma skip_stars_rest: "\<not> fst (skip_stars p) \<Longrightarrow> snd (skip_stars p) = p"
  by (cases p) (auto split: if_splits)

lemma skip_stars_less: "fst (skip_stars p) \<Longrightarrow> length (snd (skip_stars p)) < length p"
  by (cases p) (auto split: if_splits intro: le_imp_less_Suc skip_stars_length)

lemma skip_stars_hd: "snd (skip_stars p) = c # q \<Longrightarrow> c \<noteq> CHR ''*''"
  by (induction p) (auto split: if_splits)

lemma scan_body_nonempty:
  assumes "p \<noteq> []" and "hd p \<noteq> CHR ''*''"
  shows "fst (scan_body False p) \<noteq> []"
proof -
  obtain c q where "p = c # q" using assms(1) by (cases p) auto
  with assms(2) show ?thesis by (cases q) (simp_all add: case_prod_beta)
qed

lemma scan_chunk_shorter:
  assumes "p \<noteq> []" and "scan_chunk p = (star, chunk, rest)"
  shows "length rest < length p"
proof -
  obtain st q where sk: "skip_stars p = (st, q)" by fastforce
  obtain c r where sb: "scan_body False q = (c, r)" by fastforce
  have eqs: "star = st" "chunk = c" "rest = r"
    using assms(2) sk sb by (auto simp: scan_chunk_def)
  have q: "q = c @ r" using scan_body_append [of False q] sb by simp
  show ?thesis
  proof (cases st)
    case True
    then have "length q < length p" using skip_stars_less [of p] sk by simp
    with q eqs show ?thesis by simp
  next
    case False
    then have "q = p" using skip_stars_rest [of p] sk by simp
    moreover have "hd p \<noteq> CHR ''*''" using False sk assms(1) by (cases p) (auto split: if_splits)
    ultimately have "c \<noteq> []" using scan_body_nonempty [of p] sb assms(1) by simp
    with q eqs \<open>q = p\<close> show ?thesis by (cases c) auto
  qed
qed

text \<open>What is left of the pattern after a failed match is still checked for its syntax.\<close>

function rest_valid :: "string \<Rightarrow> bool" where
  "rest_valid p =
     (if p = [] then True
      else (case scan_chunk p of
              (star, chunk, rest) \<Rightarrow>
                (case match_chunk chunk [] of None \<Rightarrow> False | Some _ \<Rightarrow> rest_valid rest)))"
  by pat_completeness auto
termination
  by (relation "measure length") (auto dest: scan_chunk_shorter [OF _ sym])

declare rest_valid.simps [simp del]

function path_match :: "string \<Rightarrow> string \<Rightarrow> bool option" where
  "path_match p name =
     (if p = [] then Some (name = [])
      else
        (case scan_chunk p of
           (star, chunk, rest) \<Rightarrow>
             if star \<and> chunk = [] then Some (CHR ''/'' \<notin> set name)
             else
               (let failed = (if rest_valid rest then Some False else None) in
                case match_chunk chunk name of
                  None \<Rightarrow> None
                | Some r \<Rightarrow>
                    if r \<noteq> None \<and> (the r = [] \<or> rest \<noteq> []) then path_match rest (the r)
                    else if star then
                      (case star_search chunk (rest = []) name of
                         None \<Rightarrow> None
                       | Some None \<Rightarrow> failed
                       | Some (Some t) \<Rightarrow> path_match rest t)
                    else failed)))"
  by pat_completeness auto
termination
  by (relation "measure (\<lambda>(p, _). length p)") (auto dest: scan_chunk_shorter [OF _ sym])

declare path_match.simps [simp del]

subsection \<open>Literal patterns and literal prefixes\<close>

definition meta :: "char set" where
  "meta = {CHR ''*'', CHR ''?'', CHR ''['', CHR 0x5C}"

definition literal :: "string \<Rightarrow> bool" where
  "literal p \<longleftrightarrow> set p \<inter> meta = {}"

lemma literal_Cons:
  "literal (c # p) \<longleftrightarrow>
     c \<noteq> CHR ''*'' \<and> c \<noteq> CHR ''?'' \<and> c \<noteq> CHR ''['' \<and> c \<noteq> CHR 0x5C \<and> literal p"
  by (auto simp: literal_def meta_def)

lemma literal_Nil [simp]: "literal []"
  by (simp add: literal_def)

lemma scan_body_literal:
  assumes "literal p" and "q = [] \<or> hd q = CHR ''*''"
  shows "scan_body False (p @ q) = (p, q)"
  using assms(1)
proof (induction p)
  case Nil
  then show ?case using assms(2) by (cases q) auto
next
  case (Cons c p)
  then have "scan_body False (p @ q) = (p, q)" by (simp add: literal_Cons)
  with Cons.prems show ?case by (simp add: literal_Cons)
qed

lemma skip_stars_literal:
  "literal p \<Longrightarrow> p \<noteq> [] \<Longrightarrow> skip_stars (p @ q) = (False, p @ q)"
  by (cases p) (auto simp: literal_Cons)

lemma scan_chunk_literal:
  assumes "literal p" and "p \<noteq> []" and "q = [] \<or> hd q = CHR ''*''"
  shows "scan_chunk (p @ q) = (False, p, q)"
  using skip_stars_literal [OF assms(1,2)] scan_body_literal [OF assms(1,3)]
  by (simp add: scan_chunk_def)

lemma match_chunk_from_failed: "literal p \<Longrightarrow> match_chunk_from p None = Some None"
proof (induction p)
  case (Cons c p)
  then show ?case by (simp add: literal_Cons)
qed simp

lemma match_chunk_from_literal:
  "literal p \<Longrightarrow> match_chunk_from p (Some s) =
     Some (if take (length p) s = p then Some (drop (length p) s) else None)"
proof (induction p arbitrary: s)
  case (Cons c p)
  show ?case
  proof (cases s)
    case Nil
    with Cons show ?thesis by (simp add: literal_Cons match_chunk_from_failed)
  next
    case (Cons x xs)
    with Cons.IH Cons.prems show ?thesis by (simp add: literal_Cons match_chunk_from_failed)
  qed
qed simp

lemma match_chunk_literal:
  "literal p \<Longrightarrow> match_chunk p s =
     Some (if take (length p) s = p then Some (drop (length p) s) else None)"
  by (simp add: match_chunk_def match_chunk_from_literal)

lemma path_match_Nil [simp]: "path_match [] s = Some (s = [])"
  by (simp add: path_match.simps)

lemma path_match_star [simp]: "path_match ''*'' s = Some (CHR ''/'' \<notin> set s)"
  by (simp add: path_match.simps scan_chunk_def)

lemma rest_valid_star [simp]: "rest_valid []" "rest_valid ''*''"
  by (simp_all add: rest_valid.simps scan_chunk_def match_chunk_def)

lemma path_match_literal:
  assumes "literal p"
  shows "path_match p s = Some (p = s)"
proof (cases "p = []")
  case False
  then have "scan_chunk p = (False, p, [])" using scan_chunk_literal [OF assms, of "[]"] by simp
  with False show ?thesis
    using take_all [of s "length p"]
    by (subst path_match.simps) (auto simp: match_chunk_literal [OF assms] Let_def)
qed auto

lemma path_match_prefix_star:
  assumes "literal p"
  shows "path_match (p @ ''*'') s =
    Some (take (length p) s = p \<and> CHR ''/'' \<notin> set (drop (length p) s))"
proof (cases "p = []")
  case False
  then have sc: "scan_chunk (p @ ''*'') = (False, p, ''*'')"
    using scan_chunk_literal [OF assms, of "''*''"] by simp
  show ?thesis
    using False sc by (subst path_match.simps) (simp add: match_chunk_literal [OF assms])
qed simp

end
