(* ===== verification/Rbac.thy ===== *)
theory Rbac
  imports Path_Match "HOL-Library.List_Lexorder" "HOL-Library.Char_ord"
begin

text \<open>
  Role-based access control of the daemon (\<open>internal/daemon/rbac.go\<close>) and the lint of its
  configuration (\<open>internal/daemon/rbac_lint.go\<close>).

  The enforcer keeps the configuration and one counter per rate-limit key.  The clock
  \<open>e.now()\<close> is an argument of every operation that reads it, so a run is a list of calls
  with their times.  The \<open>Reason\<close> text is kept as a value with one constructor per format
  string; \<open>ReasonCode\<close> and \<open>MatchedRule\<close>, which other code reads, are the strings of the
  source.

  The lemmas show which calls are allowed (deny patterns win over every role), how a role
  is resolved, that a dry run changes no counter, that no key passes more calls in a
  minute than its rule says, and what a lint-clean configuration guarantees.
\<close>

subsection \<open>Configuration, decisions and the enforcer\<close>

record rbac_role =
  role_Allow :: "string list"
  role_Deny :: "string list"

record rbac_rate_limit =
  rl_AgentID :: string
  rl_AgentType :: string
  rl_Server :: string
  rl_Tool :: string
  rl_RequestsPerMinute :: int

record rbac_binding =
  bd_AgentID :: string
  bd_AgentType :: string
  bd_Role :: string

record rbac_config =
  rb_Enabled :: bool
  rb_DefaultPolicy :: string
  rb_GlobalDeny :: "string list"
  rb_RateLimits :: "rbac_rate_limit list"
  rb_Roles :: "(string \<times> rbac_role) list"
  rb_Bindings :: "rbac_binding list"

record rbac_binding_ref =
  br_AgentID :: string
  br_AgentType :: string
  br_Role :: string

datatype reason =
    DeniedByGlobalPattern string
  | NoBindingMatched string
  | RoleNotDefined string
  | DeniedByPattern string
  | AllowedByPattern string
  | NoAllowPatternMatched
  | RateLimitExceeded nat int

record access_decision =
  ad_Allowed :: bool
  ad_AgentID :: string
  ad_Server :: string
  ad_Tool :: string
  ad_Role :: string
  ad_Reason :: reason
  ad_ReasonCode :: string
  ad_DryRun :: bool
  ad_MatchedRule :: string
  ad_MatchedBinding :: "rbac_binding_ref option"

record rate_limit_counter =
  rlc_WindowStart :: time
  rlc_Count :: int

record rbac_enforcer =
  en_cfg :: rbac_config
  en_counts :: "string \<Rightarrow> rate_limit_counter option"

datatype evaluation_mode = Enforce | DryRun

definition default_rbac_config :: rbac_config where
  "default_rbac_config =
     \<lparr> rb_Enabled = False, rb_DefaultPolicy = ''allow'', rb_GlobalDeny = [], rb_RateLimits = [],
       rb_Roles = [], rb_Bindings = [] \<rparr>"

text \<open>A disabled configuration has no enforcer (a nil pointer).\<close>

definition new_rbac_enforcer :: "rbac_config \<Rightarrow> rbac_enforcer option" where
  "new_rbac_enforcer cfg =
     (if \<not> rb_Enabled cfg then None else Some \<lparr> en_cfg = cfg, en_counts = (\<lambda>_. None) \<rparr>)"

subsection \<open>Pattern and rate rules\<close>

definition matches_pattern :: "string \<Rightarrow> string \<Rightarrow> bool" where
  "matches_pattern pattern toolName =
     (case path_match pattern toolName of None \<Rightarrow> False | Some matched \<Rightarrow> matched)"

definition matches_optional_pattern :: "string \<Rightarrow> string \<Rightarrow> bool" where
  "matches_optional_pattern pattern value =
     (if pattern = '''' \<or> pattern = ''*'' then True else matches_pattern pattern value)"

definition matches_rate_rule ::
  "rbac_rate_limit \<Rightarrow> string \<Rightarrow> string \<Rightarrow> string \<Rightarrow> string \<Rightarrow> bool" where
  "matches_rate_rule rule agentID agentType server tool =
     (if rl_AgentID rule \<noteq> '''' \<and> rl_AgentID rule \<noteq> ''*'' \<and> rl_AgentID rule \<noteq> agentID then False
      else if rl_AgentType rule \<noteq> '''' \<and> rl_AgentType rule \<noteq> agentType then False
      else if \<not> matches_optional_pattern (rl_Server rule) server then False
      else if \<not> matches_optional_pattern (rl_Tool rule) tool then False
      else True)"

definition rate_limit_key ::
  "nat \<Rightarrow> string \<Rightarrow> string \<Rightarrow> string \<Rightarrow> string \<Rightarrow> string" where
  "rate_limit_key ruleIndex agentID agentType server tool =
     (let agentKey =
        (if agentID \<noteq> '''' then ''id:'' @ agentID
         else if agentType \<noteq> '''' then ''type:'' @ agentType
         else ''anonymous'')
      in dec ruleIndex @ ''|'' @ agentKey @ ''|'' @ server @ ''|'' @ tool)"

subsection \<open>Role resolution\<close>

text \<open>The loop of \<open>resolveRole\<close>, with the two candidates it has remembered so far.\<close>

fun resolve_role_loop ::
  "rbac_binding list \<Rightarrow> string \<Rightarrow> string \<Rightarrow> rbac_binding option \<Rightarrow> rbac_binding option \<Rightarrow>
    rbac_binding option" where
  "resolve_role_loop [] agentID agentType typeMatch wildcardMatch =
     (if typeMatch \<noteq> None then typeMatch else wildcardMatch)"
| "resolve_role_loop (b # bs) agentID agentType typeMatch wildcardMatch =
     (if bd_AgentID b \<noteq> '''' \<and> bd_AgentID b \<noteq> ''*'' \<and> bd_AgentID b = agentID then Some b
      else
        resolve_role_loop bs agentID agentType
          (if bd_AgentType b \<noteq> '''' \<and> bd_AgentType b = agentType \<and> typeMatch = None
           then Some b else typeMatch)
          (if bd_AgentID b = ''*'' \<and> wildcardMatch = None then Some b else wildcardMatch))"

definition resolve_role :: "rbac_config \<Rightarrow> string \<Rightarrow> string \<Rightarrow> string \<times> rbac_binding option" where
  "resolve_role cfg agentID agentType =
     (case resolve_role_loop (rb_Bindings cfg) agentID agentType None None of
        None \<Rightarrow> ('''', None)
      | Some b \<Rightarrow> (bd_Role b, Some b))"

subsection \<open>Rate limits\<close>

text \<open>The zero \<open>time.Time\<close>, which the counter of a fresh key has, in Unix nanoseconds.\<close>

definition zero_time :: time where
  "zero_time = - 62135596800 * second"

definition truncate_minute :: "time \<Rightarrow> time" where
  "truncate_minute t = t - t mod minute"

definition counter_at ::
  "(string \<Rightarrow> rate_limit_counter option) \<Rightarrow> string \<Rightarrow> time \<Rightarrow> rate_limit_counter" where
  "counter_at counts key window =
     (let counter = (case counts key of
                       None \<Rightarrow> \<lparr> rlc_WindowStart = zero_time, rlc_Count = 0 \<rparr>
                     | Some c \<Rightarrow> c)
      in if rlc_WindowStart counter \<noteq> window
         then \<lparr> rlc_WindowStart = window, rlc_Count = 0 \<rparr> else counter)"

text \<open>
  The loop of \<open>checkRateLimit\<close> from rule \<open>i\<close> on: the reason (\<open>None\<close> for the empty
  string), whether the call is limited, the matched rule, and the counters afterwards.
\<close>

fun check_rate_limit_from ::
  "nat \<Rightarrow> rbac_rate_limit list \<Rightarrow> (string \<Rightarrow> rate_limit_counter option) \<Rightarrow> time \<Rightarrow>
    string \<Rightarrow> string \<Rightarrow> string \<Rightarrow> string \<Rightarrow> bool \<Rightarrow>
    reason option \<times> bool \<times> string \<times> (string \<Rightarrow> rate_limit_counter option)" where
  "check_rate_limit_from i [] counts now agentID agentType server tool dryRun =
     (None, False, '''', counts)"
| "check_rate_limit_from i (rule # rules) counts now agentID agentType server tool dryRun =
     (if rl_RequestsPerMinute rule \<le> 0 \<or> \<not> matches_rate_rule rule agentID agentType server tool
      then check_rate_limit_from (Suc i) rules counts now agentID agentType server tool dryRun
      else
        (let key = rate_limit_key i agentID agentType server tool;
             window = truncate_minute now;
             counter = counter_at counts key window;
             name = ''rate_limits['' @ dec i @ '']'' in
         if rlc_Count counter \<ge> rl_RequestsPerMinute rule then
           (Some (RateLimitExceeded i (rl_RequestsPerMinute rule)), True, name,
            counts(key \<mapsto> counter))
         else if dryRun then (None, False, name, counts)
         else
           (None, False, name,
            counts(key \<mapsto> counter\<lparr> rlc_Count := rlc_Count counter + 1 \<rparr>))))"

definition check_rate_limit ::
  "rbac_enforcer \<Rightarrow> time \<Rightarrow> string \<Rightarrow> string \<Rightarrow> string \<Rightarrow> string \<Rightarrow> bool \<Rightarrow>
    reason option \<times> bool \<times> string \<times> rbac_enforcer" where
  "check_rate_limit e now agentID agentType server tool dryRun =
     (let (r, limited, rule, counts) =
        check_rate_limit_from 0 (rb_RateLimits (en_cfg e)) (en_counts e) now
          agentID agentType server tool dryRun
      in (r, limited, rule, e\<lparr> en_counts := counts \<rparr>))"

subsection \<open>Evaluation\<close>

definition allow_with_rate_limit ::
  "rbac_enforcer \<Rightarrow> time \<Rightarrow> string \<Rightarrow> string \<Rightarrow> string \<Rightarrow> string \<Rightarrow> string \<Rightarrow> bool \<Rightarrow>
    reason \<Rightarrow> string \<Rightarrow> string \<Rightarrow> rbac_binding_ref option \<Rightarrow> access_decision \<times> rbac_enforcer" where
  "allow_with_rate_limit e now agentID agentType server tool role dryRun
       allowReason allowReasonCode matchedRule matchedBinding =
     (case check_rate_limit e now agentID agentType server tool dryRun of
        (denyReason, limited, rule, e') \<Rightarrow>
          if limited then
            (\<lparr> ad_Allowed = False, ad_AgentID = agentID, ad_Server = server, ad_Tool = tool,
               ad_Role = role, ad_Reason = the denyReason, ad_ReasonCode = ''rate_limited'',
               ad_DryRun = dryRun, ad_MatchedRule = rule, ad_MatchedBinding = matchedBinding \<rparr>, e')
          else
            (\<lparr> ad_Allowed = True, ad_AgentID = agentID, ad_Server = server, ad_Tool = tool,
               ad_Role = role, ad_Reason = allowReason, ad_ReasonCode = allowReasonCode,
               ad_DryRun = dryRun, ad_MatchedRule = matchedRule,
               ad_MatchedBinding = matchedBinding \<rparr>, e'))"

text \<open>The first pattern of a list that matches, which the deny and allow loops return on.\<close>

definition first_match :: "string list \<Rightarrow> string \<Rightarrow> string option" where
  "first_match patterns tool = List.find (\<lambda>p. matches_pattern p tool) patterns"

definition evaluate ::
  "rbac_enforcer \<Rightarrow> time \<Rightarrow> string \<Rightarrow> string \<Rightarrow> string \<Rightarrow> string \<Rightarrow> bool \<Rightarrow>
    access_decision \<times> rbac_enforcer" where
  "evaluate e now agentID agentType server tool dryRun =
     (let cfg = en_cfg e;
          qualifiedTool = server @ ''__'' @ tool;
          deny = (\<lambda>role r code rule binding.
            (\<lparr> ad_Allowed = False, ad_AgentID = agentID, ad_Server = server, ad_Tool = tool,
               ad_Role = role, ad_Reason = r, ad_ReasonCode = code, ad_DryRun = dryRun,
               ad_MatchedRule = rule, ad_MatchedBinding = binding \<rparr>, e)) in
      case first_match (rb_GlobalDeny cfg) qualifiedTool of
        Some p \<Rightarrow> deny '''' (DeniedByGlobalPattern p) ''global_deny'' p None
      | None \<Rightarrow>
          (let (roleName, binding) = resolve_role cfg agentID agentType;
               bindingRef = map_option (\<lambda>b.
                 \<lparr> br_AgentID = bd_AgentID b, br_AgentType = bd_AgentType b,
                   br_Role = bd_Role b \<rparr>) binding in
           if roleName = '''' then
             (let defaultRule = ''default_policy='' @ rb_DefaultPolicy cfg in
              if equal_fold (rb_DefaultPolicy cfg) ''allow'' then
                allow_with_rate_limit e now agentID agentType server tool '''' dryRun
                  (NoBindingMatched (rb_DefaultPolicy cfg)) ''default_allow'' defaultRule None
              else deny '''' (NoBindingMatched (rb_DefaultPolicy cfg)) ''default_deny'' defaultRule None)
           else
             (case map_of (rb_Roles cfg) roleName of
                None \<Rightarrow> deny roleName (RoleNotDefined roleName) ''role_not_defined'' '''' bindingRef
              | Some role \<Rightarrow>
                  (case first_match (role_Deny role) qualifiedTool of
                     Some p \<Rightarrow> deny roleName (DeniedByPattern p) ''role_deny'' p bindingRef
                   | None \<Rightarrow>
                       (case first_match (role_Allow role) qualifiedTool of
                          Some p \<Rightarrow>
                            allow_with_rate_limit e now agentID agentType server tool roleName
                              dryRun (AllowedByPattern p) ''role_allow'' p bindingRef
                        | None \<Rightarrow>
                            deny roleName NoAllowPatternMatched ''no_allow_match'' '''' bindingRef)))))"

definition check_with_mode ::
  "rbac_enforcer \<Rightarrow> time \<Rightarrow> string \<Rightarrow> string \<Rightarrow> string \<Rightarrow> string \<Rightarrow> evaluation_mode \<Rightarrow>
    access_decision \<times> rbac_enforcer" where
  "check_with_mode e now agentID agentType server tool mode =
     evaluate e now agentID agentType server tool (mode = DryRun)"

definition check ::
  "rbac_enforcer \<Rightarrow> time \<Rightarrow> string \<Rightarrow> string \<Rightarrow> string \<Rightarrow> string \<Rightarrow> access_decision \<times> rbac_enforcer" where
  "check e now agentID agentType server tool =
     check_with_mode e now agentID agentType server tool Enforce"

definition simulate ::
  "rbac_enforcer \<Rightarrow> time \<Rightarrow> string \<Rightarrow> string \<Rightarrow> string \<Rightarrow> string \<Rightarrow> access_decision \<times> rbac_enforcer" where
  "simulate e now agentID agentType server tool =
     evaluate e now agentID agentType server tool True"

subsection \<open>The rate-limit rule of a call and its bucket\<close>

definition rule_applies :: "rbac_rate_limit \<Rightarrow> string \<Rightarrow> string \<Rightarrow> string \<Rightarrow> string \<Rightarrow> bool" where
  "rule_applies rule agentID agentType server tool \<longleftrightarrow>
     0 < rl_RequestsPerMinute rule \<and> matches_rate_rule rule agentID agentType server tool"

fun applicable_from ::
  "nat \<Rightarrow> rbac_rate_limit list \<Rightarrow> string \<Rightarrow> string \<Rightarrow> string \<Rightarrow> string \<Rightarrow>
    (string \<times> rbac_rate_limit) option" where
  "applicable_from i [] agentID agentType server tool = None"
| "applicable_from i (rule # rules) agentID agentType server tool =
     (if rule_applies rule agentID agentType server tool
      then Some (rate_limit_key i agentID agentType server tool, rule)
      else applicable_from (Suc i) rules agentID agentType server tool)"

text \<open>The bucket of a call: the key it is counted under and the rule that limits it.\<close>

definition bucket ::
  "rbac_config \<Rightarrow> string \<Rightarrow> string \<Rightarrow> string \<Rightarrow> string \<Rightarrow> (string \<times> rbac_rate_limit) option" where
  "bucket cfg = applicable_from 0 (rb_RateLimits cfg)"

definition over_limit :: "rbac_enforcer \<Rightarrow> time \<Rightarrow> (string \<times> rbac_rate_limit) option \<Rightarrow> bool" where
  "over_limit e now b =
     (case b of
        None \<Rightarrow> False
      | Some (key, rule) \<Rightarrow>
          rl_RequestsPerMinute rule \<le> rlc_Count (counter_at (en_counts e) key (truncate_minute now)))"

definition count_call :: "rbac_enforcer \<Rightarrow> time \<Rightarrow> (string \<times> rbac_rate_limit) option \<Rightarrow> rbac_enforcer" where
  "count_call e now b =
     (case b of
        None \<Rightarrow> e
      | Some (key, rule) \<Rightarrow>
          (let c = counter_at (en_counts e) key (truncate_minute now)
           in e\<lparr> en_counts := (en_counts e)(key \<mapsto> c\<lparr> rlc_Count := rlc_Count c + 1 \<rparr>) \<rparr>))"

lemma counter_at_present:
  "0 < rlc_Count (counter_at counts key w) \<Longrightarrow> counts key = Some (counter_at counts key w)"
  by (auto simp: counter_at_def Let_def split: option.splits if_splits)

lemma counter_at_same:
  "0 < n \<Longrightarrow> n \<le> rlc_Count (counter_at counts key w) \<Longrightarrow>
    counts(key \<mapsto> counter_at counts key w) = counts"
  using counter_at_present [of counts key w] by (simp add: fun_upd_idem)

lemma check_rate_limit_from_spec:
  "check_rate_limit_from i rules counts now a ty sv tool dry = (r, limited, name, counts') \<Longrightarrow>
    (case applicable_from i rules a ty sv tool of
       None \<Rightarrow> \<not> limited \<and> counts' = counts
     | Some (key, rule) \<Rightarrow>
         (let c = counter_at counts key (truncate_minute now) in
          limited = (rl_RequestsPerMinute rule \<le> rlc_Count c) \<and>
          counts' = (if limited \<or> dry then counts
                     else counts(key \<mapsto> c\<lparr> rlc_Count := rlc_Count c + 1 \<rparr>))))"
proof (induction i rules counts now a ty sv tool dry rule: check_rate_limit_from.induct)
  case (2 i rule rules counts now a ty sv tool dry)
  show ?case
  proof (cases "rule_applies rule a ty sv tool")
    case False
    then have "rl_RequestsPerMinute rule \<le> 0 \<or> \<not> matches_rate_rule rule a ty sv tool"
      by (auto simp: rule_applies_def)
    with 2 False show ?thesis by simp
  next
    case True
    with "2.prems" counter_at_same [of "rl_RequestsPerMinute rule" counts
        "rate_limit_key i a ty sv tool" "truncate_minute now"]
    show ?thesis by (auto simp: rule_applies_def Let_def split: if_splits)
  qed
qed simp

lemma check_rate_limit_spec:
  assumes "check_rate_limit e now a ty sv tool dry = (r, limited, name, e')"
  shows "limited = over_limit e now (bucket (en_cfg e) a ty sv tool)"
    and "e' = (if limited \<or> dry then e else count_call e now (bucket (en_cfg e) a ty sv tool))"
proof -
  obtain counts where c: "check_rate_limit_from 0 (rb_RateLimits (en_cfg e)) (en_counts e) now
      a ty sv tool dry = (r, limited, name, counts)" and e': "e' = e\<lparr> en_counts := counts \<rparr>"
    using assms by (auto simp: check_rate_limit_def split: prod.splits)
  note spec = check_rate_limit_from_spec [OF c]
  show "limited = over_limit e now (bucket (en_cfg e) a ty sv tool)"
    using spec by (auto simp: over_limit_def bucket_def Let_def split: option.splits)
  show "e' = (if limited \<or> dry then e else count_call e now (bucket (en_cfg e) a ty sv tool))"
    using spec e' by (auto simp: count_call_def bucket_def Let_def split: option.splits)
qed

lemma allow_with_rate_limit_spec:
  assumes "allow_with_rate_limit e now a ty sv tool role dry r code rule b = (d, e')"
  shows "ad_Allowed d = (\<not> over_limit e now (bucket (en_cfg e) a ty sv tool))"
    and "e' = (if over_limit e now (bucket (en_cfg e) a ty sv tool) \<or> dry then e
               else count_call e now (bucket (en_cfg e) a ty sv tool))"
    and "ad_ReasonCode d = (if ad_Allowed d then code else ''rate_limited'')"
proof -
  obtain dr lim name e1 where c: "check_rate_limit e now a ty sv tool dry = (dr, lim, name, e1)"
    by (metis prod_cases4)
  note spec = check_rate_limit_spec [OF c]
  from assms c show "ad_Allowed d = (\<not> over_limit e now (bucket (en_cfg e) a ty sv tool))"
    by (auto simp: allow_with_rate_limit_def spec(1) split: if_splits)
  from assms c have "e' = e1" by (auto simp: allow_with_rate_limit_def split: if_splits)
  with spec show "e' = (if over_limit e now (bucket (en_cfg e) a ty sv tool) \<or> dry then e
               else count_call e now (bucket (en_cfg e) a ty sv tool))" by simp
  from assms c show "ad_ReasonCode d = (if ad_Allowed d then code else ''rate_limited'')"
    by (auto simp: allow_with_rate_limit_def split: if_splits)
qed

subsection \<open>Who is allowed\<close>

definition any_match :: "string list \<Rightarrow> string \<Rightarrow> bool" where
  "any_match patterns tool \<longleftrightarrow> (\<exists>p \<in> set patterns. matches_pattern p tool)"

lemma first_match_None: "first_match ps t = None \<longleftrightarrow> \<not> any_match ps t"
  by (auto simp: first_match_def any_match_def find_None_iff)

lemma first_match_Some: "first_match ps t = Some p \<Longrightarrow> any_match ps t"
  by (auto simp: first_match_def any_match_def find_Some_iff)

text \<open>
  The promise of the policy, without rate limits: nothing that a global deny pattern
  names; for an agent with a role, what the role allows and does not deny; for one
  without, the default policy.
\<close>

definition policy_admits :: "rbac_config \<Rightarrow> string \<Rightarrow> string \<Rightarrow> string \<Rightarrow> string \<Rightarrow> bool" where
  "policy_admits cfg agentID agentType server tool \<longleftrightarrow>
     (let q = server @ ''__'' @ tool; role = fst (resolve_role cfg agentID agentType) in
      \<not> any_match (rb_GlobalDeny cfg) q \<and>
      (if role = '''' then equal_fold (rb_DefaultPolicy cfg) ''allow''
       else (case map_of (rb_Roles cfg) role of
               None \<Rightarrow> False
             | Some r \<Rightarrow> \<not> any_match (role_Deny r) q \<and> any_match (role_Allow r) q)))"

lemma evaluate_spec:
  assumes "evaluate e now a ty sv tool dry = (d, e')"
  defines "b \<equiv> bucket (en_cfg e) a ty sv tool"
  shows "ad_Allowed d = (policy_admits (en_cfg e) a ty sv tool \<and> \<not> over_limit e now b) \<and>
    e' = (if ad_Allowed d \<and> \<not> dry then count_call e now b else e)"
proof (cases "first_match (rb_GlobalDeny (en_cfg e)) (sv @ ''__'' @ tool)")
  case (Some p)
  then show ?thesis using assms(1) first_match_Some [OF Some]
    by (auto simp: evaluate_def policy_admits_def Let_def)
next
  case gd: None
  then have gd': "\<not> any_match (rb_GlobalDeny (en_cfg e)) (sv @ ''__'' @ tool)"
    by (rule iffD1 [OF first_match_None])
  obtain role binding where rr: "resolve_role (en_cfg e) a ty = (role, binding)" by fastforce
  show ?thesis
  proof (cases "role = ''''")
    case True
    show ?thesis
    proof (cases "equal_fold (rb_DefaultPolicy (en_cfg e)) ''allow''")
      case False
      with gd gd' rr True assms(1) show ?thesis
        by (auto simp: evaluate_def policy_admits_def Let_def)
    next
      case allow: True
      with gd rr True assms(1) have "allow_with_rate_limit e now a ty sv tool '''' dry
          (NoBindingMatched (rb_DefaultPolicy (en_cfg e))) ''default_allow''
          (''default_policy='' @ rb_DefaultPolicy (en_cfg e)) None = (d, e')"
        by (simp add: evaluate_def Let_def)
      note s = allow_with_rate_limit_spec [OF this]
      have "policy_admits (en_cfg e) a ty sv tool"
        using gd' rr True allow by (simp add: policy_admits_def Let_def)
      with s show ?thesis by (simp add: b_def)
    qed
  next
    case nonempty: False
    show ?thesis
    proof (cases "map_of (rb_Roles (en_cfg e)) role")
      case None
      with gd rr nonempty assms(1) show ?thesis
        by (auto simp: evaluate_def policy_admits_def Let_def)
    next
      case r: (Some r)
      show ?thesis
      proof (cases "first_match (role_Deny r) (sv @ ''__'' @ tool)")
        case (Some p)
        with gd rr nonempty r assms(1) first_match_Some [OF Some] show ?thesis
          by (auto simp: evaluate_def policy_admits_def Let_def)
      next
        case deny: None
        then have deny': "\<not> any_match (role_Deny r) (sv @ ''__'' @ tool)"
          by (rule iffD1 [OF first_match_None])
        show ?thesis
        proof (cases "first_match (role_Allow r) (sv @ ''__'' @ tool)")
          case None
          then have "\<not> any_match (role_Allow r) (sv @ ''__'' @ tool)"
            by (rule iffD1 [OF first_match_None])
          with None gd gd' rr nonempty r deny assms(1) show ?thesis
            by (auto simp: evaluate_def policy_admits_def Let_def)
        next
          case (Some p)
          have adm: "policy_admits (en_cfg e) a ty sv tool"
            using gd' rr nonempty r deny' first_match_Some [OF Some]
            by (simp add: policy_admits_def Let_def)
          obtain x y z where "allow_with_rate_limit e now a ty sv tool role dry x y z
              (map_option (\<lambda>b. \<lparr> br_AgentID = bd_AgentID b, br_AgentType = bd_AgentType b,
                 br_Role = bd_Role b \<rparr>) binding) = (d, e')"
            using gd rr nonempty r deny Some assms(1) by (simp add: evaluate_def Let_def)
          from allow_with_rate_limit_spec [OF this] adm show ?thesis by (simp add: b_def)
        qed
      qed
    qed
  qed
qed

lemma check_rate_limit_from_dry:
  "check_rate_limit_from i rules counts now a ty sv tool False = (r, limited, name, c1) \<Longrightarrow>
    \<exists>c2. check_rate_limit_from i rules counts now a ty sv tool True = (r, limited, name, c2)"
  by (induction i rules counts now a ty sv tool False rule: check_rate_limit_from.induct)
    (auto simp: Let_def split: if_splits)

lemma allow_with_rate_limit_dry:
  assumes "allow_with_rate_limit e now a ty sv tool role False r code rule b = (d, e1)"
  shows "\<exists>e2. allow_with_rate_limit e now a ty sv tool role True r code rule b =
    (d\<lparr> ad_DryRun := True \<rparr>, e2)"
proof -
  obtain dr lim name c1 where c: "check_rate_limit_from 0 (rb_RateLimits (en_cfg e)) (en_counts e)
      now a ty sv tool False = (dr, lim, name, c1)" by (metis prod_cases4)
  from check_rate_limit_from_dry [OF c] obtain c2 where
    "check_rate_limit_from 0 (rb_RateLimits (en_cfg e)) (en_counts e)
      now a ty sv tool True = (dr, lim, name, c2)" by blast
  with c assms show ?thesis
    by (auto simp: allow_with_rate_limit_def check_rate_limit_def split: if_splits)
qed

lemma evaluate_dry:
  assumes "evaluate e now a ty sv tool False = (d, e1)"
  shows "\<exists>e2. evaluate e now a ty sv tool True = (d\<lparr> ad_DryRun := True \<rparr>, e2)"
  using assms unfolding evaluate_def Let_def
  by (auto simp: case_prod_beta dest!: allow_with_rate_limit_dry split: option.splits if_splits)

subsection \<open>Which calls are allowed\<close>

definition demo_rbac :: rbac_config where
  "demo_rbac =
     \<lparr> rb_Enabled = True, rb_DefaultPolicy = ''Deny'', rb_GlobalDeny = [''*__delete_*''],
       rb_RateLimits =
         [\<lparr> rl_AgentID = '''', rl_AgentType = '''', rl_Server = ''git*'', rl_Tool = '''',
            rl_RequestsPerMinute = 1 \<rparr>],
       rb_Roles =
         [(''dev'', \<lparr> role_Allow = [''git*__*''], role_Deny = [''git__push''] \<rparr>),
          (''admin'', \<lparr> role_Allow = [''*''], role_Deny = [] \<rparr>)],
       rb_Bindings =
         [\<lparr> bd_AgentID = ''*'', bd_AgentType = '''', bd_Role = ''dev'' \<rparr>,
          \<lparr> bd_AgentID = '''', bd_AgentType = ''claude-code'', bd_Role = ''dev'' \<rparr>,
          \<lparr> bd_AgentID = ''root'', bd_AgentType = '''', bd_Role = ''admin'' \<rparr>] \<rparr>"

definition demo_enforcer :: rbac_enforcer where
  "demo_enforcer = \<lparr> en_cfg = demo_rbac, en_counts = (\<lambda>_. None) \<rparr>"

text \<open>
  C14. A call is allowed exactly when no global deny pattern matches its qualified tool
  name, the agent's role allows it and does not deny it (or, without a role, the default
  policy is allow), and the first rate-limit rule that applies to it has room left in the
  current minute.  The call is counted under that rule if and only if it is allowed and
  not a dry run; no other counter changes, and the configuration never does.
\<close>

theorem rbac_allowed_iff:
  assumes "evaluate e now agentID agentType server tool dryRun = (d, e')"
  shows "(ad_Allowed d \<longleftrightarrow>
            policy_admits (en_cfg e) agentID agentType server tool \<and>
            \<not> over_limit e now (bucket (en_cfg e) agentID agentType server tool)) \<and>
         e' = (if ad_Allowed d \<and> \<not> dryRun
               then count_call e now (bucket (en_cfg e) agentID agentType server tool) else e)"
  using evaluate_spec [OF assms] by blast

lemma rbac_allowed_iff_witness:
  "\<exists>d e'. evaluate demo_enforcer 0 ''bob'' '''' ''git'' ''log'' False = (d, e') \<and> ad_Allowed d \<and>
    rlc_Count (the (en_counts e' ''0|id:bob|git|log'')) = 1"
proof -
  obtain d e' where e: "evaluate demo_enforcer 0 ''bob'' '''' ''git'' ''log'' False = (d, e')"
    by fastforce
  have "policy_admits (en_cfg demo_enforcer) ''bob'' '''' ''git'' ''log''" by code_simp
  moreover have "\<not> over_limit demo_enforcer 0 (bucket (en_cfg demo_enforcer) ''bob'' '''' ''git'' ''log'')"
    by code_simp
  ultimately have "ad_Allowed d \<and> e' =
      count_call demo_enforcer 0 (bucket (en_cfg demo_enforcer) ''bob'' '''' ''git'' ''log'')"
    using rbac_allowed_iff [OF e] by simp
  moreover have "rlc_Count (the (en_counts (count_call demo_enforcer 0
      (bucket (en_cfg demo_enforcer) ''bob'' '''' ''git'' ''log'')) ''0|id:bob|git|log'')) = 1"
    by code_simp
  ultimately show ?thesis using e by blast
qed

text \<open>
  A simulation leaves every rate-limit counter as it was, and predicts the enforced
  decision: role, reason, matched rule and binding are those the real check returns, only
  the dry-run mark differs.
\<close>

theorem simulate_predicts_check:
  "simulate e now agentID agentType server tool =
     ((fst (check e now agentID agentType server tool))\<lparr> ad_DryRun := True \<rparr>, e)"
proof -
  obtain d e1 where c: "evaluate e now agentID agentType server tool False = (d, e1)" by fastforce
  from evaluate_dry [OF c] obtain e2 where
    s: "evaluate e now agentID agentType server tool True = (d\<lparr> ad_DryRun := True \<rparr>, e2)" by blast
  from evaluate_spec [OF s] have "e2 = e" by simp
  with c s show ?thesis by (simp add: simulate_def check_def check_with_mode_def)
qed

subsection \<open>Role priority\<close>

definition exact_binding :: "string \<Rightarrow> rbac_binding \<Rightarrow> bool" where
  "exact_binding agentID b \<longleftrightarrow> bd_AgentID b \<noteq> '''' \<and> bd_AgentID b \<noteq> ''*'' \<and> bd_AgentID b = agentID"

definition type_binding :: "string \<Rightarrow> rbac_binding \<Rightarrow> bool" where
  "type_binding agentType b \<longleftrightarrow> bd_AgentType b \<noteq> '''' \<and> bd_AgentType b = agentType"

definition or_else :: "'a option \<Rightarrow> 'a option \<Rightarrow> 'a option" where
  "or_else x y = (if x = None then y else x)"

lemma or_else_simps [simp]: "or_else None p = p" "or_else (Some a) p = Some a" "or_else p None = p"
  "or_else (or_else p q) r = or_else p (or_else q r)"
  by (auto simp: or_else_def)

lemma resolve_role_loop_spec:
  "resolve_role_loop bs agentID agentType t w =
     or_else (List.find (exact_binding agentID) bs)
       (or_else (or_else t (List.find (type_binding agentType) bs))
         (or_else w (List.find (\<lambda>b. bd_AgentID b = ''*'') bs)))"
proof (induction bs arbitrary: t w)
  case Nil
  then show ?case by (simp add: or_else_def)
next
  case (Cons b bs)
  show ?case
  proof (cases "exact_binding agentID b")
    case True
    then show ?thesis using True [unfolded exact_binding_def] by auto
  next
    case False
    have "resolve_role_loop (b # bs) agentID agentType t w =
        resolve_role_loop bs agentID agentType
          (or_else t (if type_binding agentType b then Some b else None))
          (or_else w (if bd_AgentID b = ''*'' then Some b else None))"
      using False by (auto simp: exact_binding_def type_binding_def or_else_def)
    with False show ?thesis by (simp add: Cons.IH)
  qed
qed

text \<open>
  The binding that decides an agent's role is the first one naming its identifier; if
  there is none, the first one naming its type; if there is none either, the first
  wildcard binding.  Later bindings of a class never override earlier ones.
\<close>

theorem resolve_role_priority:
  "snd (resolve_role cfg agentID agentType) =
     or_else (List.find (exact_binding agentID) (rb_Bindings cfg))
       (or_else (List.find (type_binding agentType) (rb_Bindings cfg))
         (List.find (\<lambda>b. bd_AgentID b = ''*'') (rb_Bindings cfg)))"
  unfolding resolve_role_def resolve_role_loop_spec by (simp split: option.split)

subsection \<open>The rate bound\<close>

type_synonym rbac_call = "time \<times> string \<times> string \<times> string \<times> string"

fun run_checks :: "rbac_enforcer \<Rightarrow> rbac_call list \<Rightarrow> access_decision list \<times> rbac_enforcer" where
  "run_checks e [] = ([], e)"
| "run_checks e ((now, agentID, agentType, server, tool) # cs) =
     (let (d, e1) = check e now agentID agentType server tool;
          (ds, e2) = run_checks e1 cs
      in (d # ds, e2))"

definition call_bucket :: "rbac_config \<Rightarrow> rbac_call \<Rightarrow> (string \<times> rbac_rate_limit) option" where
  "call_bucket cfg c = (case c of (now, agentID, agentType, server, tool) \<Rightarrow>
     bucket cfg agentID agentType server tool)"

text \<open>How many of the calls were let through under a key in the minute that starts at \<open>w\<close>.\<close>

definition passed ::
  "rbac_config \<Rightarrow> string \<Rightarrow> time \<Rightarrow> rbac_call list \<Rightarrow> access_decision list \<Rightarrow> nat" where
  "passed cfg key w cs ds =
     length (filter (\<lambda>(c, d). map_option fst (call_bucket cfg c) = Some key \<and>
       truncate_minute (fst c) = w \<and> ad_Allowed d) (zip cs ds))"

lemma passed_Nil [simp]: "passed cfg key w [] ds = 0"
  by (simp add: passed_def)

lemma passed_Cons:
  "passed cfg key w (c # cs) (d # ds) =
     (if map_option fst (call_bucket cfg c) = Some key \<and> truncate_minute (fst c) = w \<and> ad_Allowed d
      then 1 else 0) + passed cfg key w cs ds"
  by (simp add: passed_def)

lemma applicable_from_Some:
  "applicable_from i rules a ty sv tool = Some (key, rule) \<Longrightarrow>
    \<exists>j < length rules. rule = rules ! j \<and> key = rate_limit_key (i + j) a ty sv tool \<and>
      0 < rl_RequestsPerMinute rule"
proof (induction i rules a ty sv tool rule: applicable_from.induct)
  case (2 i r rules a ty sv tool)
  show ?case
  proof (cases "rule_applies r a ty sv tool")
    case True
    with 2 show ?thesis by (auto simp: rule_applies_def intro!: exI [of _ 0])
  next
    case False
    with 2 obtain j where "j < length rules" "rule = rules ! j"
      "key = rate_limit_key (Suc i + j) a ty sv tool" "0 < rl_RequestsPerMinute rule" by auto
    then show ?thesis by (auto intro!: exI [of _ "Suc j"])
  qed
qed simp

lemma rate_limit_key_index:
  "rate_limit_key i a ty sv tool = rate_limit_key j a' ty' sv' tool' \<Longrightarrow> i = j"
  unfolding rate_limit_key_def Let_def append_Cons append_Nil
  by (erule dec_sep_inject) simp

text \<open>A key belongs to one rule: the rule's index is printed at its start.\<close>

lemma call_bucket_rule:
  assumes "call_bucket cfg c = Some (key, rule)" and "call_bucket cfg c' = Some (key, rule')"
  shows "rule = rule'"
proof -
  obtain now a ty sv tool where c: "c = (now, a, ty, sv, tool)" by (cases c)
  obtain now' a' ty' sv' tool' where c': "c' = (now', a', ty', sv', tool')" by (cases c')
  from assms(1) c obtain i where "rule = rb_RateLimits cfg ! i" "key = rate_limit_key i a ty sv tool"
    using applicable_from_Some [of 0] by (fastforce simp: call_bucket_def bucket_def)
  moreover from assms(2) c' obtain j where "rule' = rb_RateLimits cfg ! j"
      "key = rate_limit_key j a' ty' sv' tool'"
    using applicable_from_Some [of 0] by (fastforce simp: call_bucket_def bucket_def)
  ultimately show ?thesis using rate_limit_key_index by metis
qed

lemma truncate_minute_mono: "s \<le> t \<Longrightarrow> truncate_minute s \<le> truncate_minute t"
proof -
  assume "s \<le> t"
  have "truncate_minute x = minute * (x div minute)" for x
    by (simp add: truncate_minute_def minus_mod_eq_mult_div)
  moreover have "s div minute \<le> t div minute"
    using \<open>s \<le> t\<close> by (simp add: zdiv_mono1 minute_def second_def)
  ultimately show ?thesis by (simp add: minute_def second_def)
qed

lemma passed_later:
  "(\<And>c. c \<in> set cs \<Longrightarrow> truncate_minute (fst c) \<noteq> w) \<Longrightarrow> passed cfg key w cs ds = 0"
  unfolding passed_def filter_empty_conv length_0_conv using set_zip_leftD by fastforce

text \<open>What a rule still lets through in the minute \<open>w\<close>.\<close>

definition used :: "rbac_enforcer \<Rightarrow> string \<Rightarrow> time \<Rightarrow> int" where
  "used e key w = (case en_counts e key of
     None \<Rightarrow> 0 | Some c \<Rightarrow> if rlc_WindowStart c = w then rlc_Count c else 0)"

lemma counter_at_used:
  "rlc_Count (counter_at (en_counts e) key w) = used e key w"
  "rlc_WindowStart (counter_at (en_counts e) key w) = w"
  by (auto simp: counter_at_def used_def Let_def split: option.splits)

lemma used_count_call:
  "used (count_call e now (Some (k, rule))) key w =
     (if k = key then (if truncate_minute now = w then used e key w + 1 else 0) else used e key w)"
proof -
  have "rlc_Count (counter_at (en_counts e) k (truncate_minute now)) = used e k (truncate_minute now)"
    "rlc_WindowStart (counter_at (en_counts e) k (truncate_minute now)) = truncate_minute now"
    by (rule counter_at_used)+
  then show ?thesis
    by (subst (1) used_def) (auto simp: count_call_def Let_def used_def split: option.splits)
qed

lemma used_count_call_None [simp]: "used (count_call e now None) = used e"
  by (simp add: count_call_def)

lemma en_cfg_count_call [simp]: "en_cfg (count_call e now b) = en_cfg e"
  by (simp add: count_call_def Let_def split: option.split)

lemma rate_bound_gen:
  assumes "run_checks e cs = (ds, e')"
    and "sorted (map fst cs)"
    and "call_bucket (en_cfg e) c0 = Some (key, rule)"
    and "0 \<le> used e key w"
    and "used e key w \<noteq> 0 \<Longrightarrow> \<forall>c \<in> set cs. w \<le> truncate_minute (fst c)"
  shows "int (passed (en_cfg e) key w cs ds) \<le> max 0 (rl_RequestsPerMinute rule - used e key w)"
  using assms
proof (induction cs arbitrary: e ds)
  case (Cons c cs)
  obtain now a ty sv tool where c: "c = (now, a, ty, sv, tool)" by (cases c)
  obtain d e1 where d: "evaluate e now a ty sv tool False = (d, e1)" by fastforce
  obtain ds' where r: "run_checks e1 cs = (ds', e')" and ds: "ds = d # ds'"
    using Cons.prems(1) c d by (auto simp: check_def check_with_mode_def split: prod.splits)
  define b where "b = bucket (en_cfg e) a ty sv tool"
  have cb: "call_bucket (en_cfg e) c = b" by (simp add: call_bucket_def c b_def)
  note spec = evaluate_spec [OF d, folded b_def]
  have e1: "e1 = (if ad_Allowed d then count_call e now b else e)" using spec by simp
  have cfg: "en_cfg e1 = en_cfg e" by (simp add: e1)
  have srt: "sorted (map fst cs)" using Cons.prems(2) by simp
  have later: "\<forall>c \<in> set cs. truncate_minute now \<le> truncate_minute (fst c)"
    using Cons.prems(2) c by (auto intro: truncate_minute_mono)
  have IH: "0 \<le> used e1 key w \<Longrightarrow>
      (used e1 key w \<noteq> 0 \<Longrightarrow> \<forall>c \<in> set cs. w \<le> truncate_minute (fst c)) \<Longrightarrow> int (passed (en_cfg e) key w cs ds') \<le>
      max 0 (rl_RequestsPerMinute rule - used e1 key w)"
    using Cons.IH [OF r srt] Cons.prems(3) cfg by simp
  show ?case
  proof (cases "ad_Allowed d \<and> map_option fst b = Some key")
    case False
    then have "used e1 key w = used e key w"
      by (cases b) (auto simp: e1 used_count_call)
    moreover have "passed (en_cfg e) key w (c # cs) ds = passed (en_cfg e) key w cs ds'"
      using False by (auto simp: ds passed_Cons cb)
    ultimately show ?thesis using IH Cons.prems(4,5) by simp
  next
    case True
    then obtain rule' where b: "b = Some (key, rule')" by (cases b) auto
    have rule': "rule' = rule"
      using call_bucket_rule [OF Cons.prems(3)] cb b by metis
    have room: "used e key (truncate_minute now) < rl_RequestsPerMinute rule"
      using spec True by (simp add: b rule' over_limit_def counter_at_used)
    show ?thesis
    proof (cases "truncate_minute now = w")
      case same: True
      then have "used e1 key w = used e key w + 1" using True by (simp add: e1 b used_count_call)
      moreover have "passed (en_cfg e) key w (c # cs) ds = 1 + passed (en_cfg e) key w cs ds'"
        using True same b c cb by (simp add: ds passed_Cons)
      ultimately show ?thesis using IH Cons.prems(4) room same later by simp
    next
      case other: False
      have p: "passed (en_cfg e) key w (c # cs) ds = passed (en_cfg e) key w cs ds'"
        using other c by (simp add: ds passed_Cons)
      have u: "used e1 key w = 0" using True other by (simp add: e1 b used_count_call)
      show ?thesis
      proof (cases "used e key w = 0")
        case True
        with p u IH show ?thesis by simp
      next
        case False
        then have "w < truncate_minute now" using Cons.prems(5) other c by force
        then have "passed (en_cfg e) key w cs ds' = 0"
          using later by (intro passed_later) force
        with p show ?thesis by simp
      qed
    qed
  qed
qed simp

text \<open>
  C32. Whatever calls agents make, in the order of their clock readings, an enforcer that
  starts with no counters lets at most \<open>requests_per_minute\<close> of them through under one
  rate-limit key in one minute: over-limit calls, denied calls and the minutes before and
  after do not change that.
\<close>

theorem rate_limit_bound:
  assumes "new_rbac_enforcer cfg = Some e"
    and "run_checks e cs = (ds, e')"
    and "sorted (map fst cs)"
    and "call_bucket cfg c = Some (key, rule)"
  shows "int (passed cfg key w cs ds) \<le> rl_RequestsPerMinute rule"
proof -
  have e: "en_cfg e = cfg" "used e key w = 0"
    using assms(1) by (auto simp: new_rbac_enforcer_def used_def split: if_splits)
  obtain now a ty sv tool where "c = (now, a, ty, sv, tool)" by (cases c)
  with assms(4) have "0 < rl_RequestsPerMinute rule"
    using applicable_from_Some [of 0] by (fastforce simp: call_bucket_def bucket_def)
  with rate_bound_gen [OF assms(2,3), of c key rule w] e assms(4) show ?thesis by simp
qed

definition demo_calls :: "rbac_call list" where
  "demo_calls =
     [(0, ''bob'', '''', ''git'', ''log''), (second, ''bob'', ''codex'', ''git'', ''log''),
      (minute, ''bob'', '''', ''git'', ''log'')]"

lemma rate_limit_bound_witness:
  "passed demo_rbac ''0|id:bob|git|log'' 0 demo_calls (fst (run_checks demo_enforcer demo_calls)) = 1 \<and>
    int (passed demo_rbac ''0|id:bob|git|log'' 0 demo_calls
      (fst (run_checks demo_enforcer demo_calls))) \<le> 1"
proof
  show "passed demo_rbac ''0|id:bob|git|log'' 0 demo_calls
      (fst (run_checks demo_enforcer demo_calls)) = 1" by code_simp
next
  have n: "new_rbac_enforcer demo_rbac = Some demo_enforcer"
    by (simp add: new_rbac_enforcer_def demo_enforcer_def) (simp add: demo_rbac_def)
  obtain ds e' where r: "run_checks demo_enforcer demo_calls = (ds, e')" by fastforce
  have srt: "sorted (map fst demo_calls)"
    by (simp add: demo_calls_def second_def minute_def)
  have b: "call_bucket demo_rbac (hd demo_calls) =
      Some (''0|id:bob|git|log'', hd (rb_RateLimits demo_rbac))" by code_simp
  have l: "rl_RequestsPerMinute (hd (rb_RateLimits demo_rbac)) = 1" by (simp add: demo_rbac_def)
  from rate_limit_bound [OF n r srt b, of 0] r l
  show "int (passed demo_rbac ''0|id:bob|git|log'' 0 demo_calls
      (fst (run_checks demo_enforcer demo_calls))) \<le> 1" by simp
qed

subsection \<open>The configuration lint\<close>

datatype lint_severity = LintError | LintWarning

record lint_issue =
  li_Code :: string
  li_Severity :: lint_severity
  li_Path :: string

text \<open>
  The binding loop: the first index of each exact identifier, of each type and of the
  wildcard seen so far (\<open>firstExact\<close>, \<open>firstType\<close>, \<open>firstWildcard\<close>).
\<close>

definition lint_error :: "string \<Rightarrow> string \<Rightarrow> lint_issue" where
  "lint_error code p = \<lparr> li_Code = code, li_Severity = LintError, li_Path = p \<rparr>"

definition binding_path :: "nat \<Rightarrow> string \<Rightarrow> string" where
  "binding_path i field = ''rbac.bindings['' @ dec i @ ''].'' @ field"

fun lint_bindings ::
  "(string \<times> rbac_role) list \<Rightarrow> nat \<Rightarrow> (string \<Rightarrow> nat option) \<Rightarrow> (string \<Rightarrow> nat option) \<Rightarrow>
    nat option \<Rightarrow> rbac_binding list \<Rightarrow> lint_issue list" where
  "lint_bindings roles i firstExact firstType firstWildcard [] = []"
| "lint_bindings roles i firstExact firstType firstWildcard (b # bs) =
     (let undefined_role =
            (if map_of roles (bd_Role b) = None
             then [lint_error ''rbac.undefined_role'' (binding_path i ''role'')] else []);
          isExact = bd_AgentID b \<noteq> '''' \<and> bd_AgentID b \<noteq> ''*'';
          exact =
            (if isExact \<and> firstExact (bd_AgentID b) \<noteq> None
             then [lint_error ''rbac.duplicate_exact_binding'' (binding_path i ''agent_id'')] else []);
          firstExact' =
            (if isExact \<and> firstExact (bd_AgentID b) = None
             then firstExact(bd_AgentID b \<mapsto> i) else firstExact);
          isType = bd_AgentType b \<noteq> '''';
          type_dup =
            (if isType \<and> firstType (bd_AgentType b) \<noteq> None
             then [lint_error ''rbac.duplicate_type_binding'' (binding_path i ''agent_type'')] else []);
          firstType' =
            (if isType \<and> firstType (bd_AgentType b) = None
             then firstType(bd_AgentType b \<mapsto> i) else firstType);
          isWild = bd_AgentID b = ''*'';
          wild =
            (if isWild \<and> firstWildcard \<noteq> None
             then [lint_error ''rbac.duplicate_wildcard_binding'' (binding_path i ''agent_id'')] else []);
          firstWildcard' = (if isWild \<and> firstWildcard = None then Some i else firstWildcard)
      in undefined_role @ exact @ type_dup @ wild @
         lint_bindings roles (Suc i) firstExact' firstType' firstWildcard' bs)"

definition lint_roles :: "(string \<times> rbac_role) list \<Rightarrow> lint_issue list" where
  "lint_roles roles =
     concat (map (\<lambda>roleName.
       (let role = the (map_of roles roleName) in
        map (\<lambda>_. lint_error ''rbac.allow_deny_overlap'' (''rbac.roles.'' @ roleName))
          (filter (\<lambda>pattern. List.member (role_Deny role) pattern) (role_Allow role))))
       (sort (map fst roles)))"

definition lint_rbac_config :: "rbac_config \<Rightarrow> lint_issue list" where
  "lint_rbac_config cfg =
     (if \<not> rb_Enabled cfg then []
      else
        (let defaultPolicy = to_lower (trim_space (rb_DefaultPolicy cfg)) in
         (if defaultPolicy \<noteq> ''allow'' \<and> defaultPolicy \<noteq> ''deny''
          then [lint_error ''rbac.invalid_default_policy'' ''rbac.default_policy''] else []) @
         lint_bindings (rb_Roles cfg) 0 (\<lambda>_. None) (\<lambda>_. None) None (rb_Bindings cfg) @
         lint_roles (rb_Roles cfg)))"

definition has_rbac_lint_errors :: "lint_issue list \<Rightarrow> bool" where
  "has_rbac_lint_errors issues = list_ex (\<lambda>i. li_Severity i = LintError) issues"

definition validate_rbac_config :: "rbac_config \<Rightarrow> lint_issue list option" where
  "validate_rbac_config cfg =
     (let issues = lint_rbac_config cfg in if issues = [] then None else Some issues)"

lemma lint_bindings_step:
  assumes "lint_bindings roles i fe ft fw (b # bs) = []"
  shows "map_of roles (bd_Role b) \<noteq> None"
    and "bd_AgentID b \<noteq> '''' \<Longrightarrow> bd_AgentID b \<noteq> ''*'' \<Longrightarrow> fe (bd_AgentID b) = None"
    and "lint_bindings roles (Suc i)
      (if bd_AgentID b \<noteq> '''' \<and> bd_AgentID b \<noteq> ''*'' then fe(bd_AgentID b \<mapsto> i) else fe)
      (if bd_AgentType b \<noteq> '''' \<and> ft (bd_AgentType b) = None then ft(bd_AgentType b \<mapsto> i) else ft)
      (if bd_AgentID b = ''*'' \<and> fw = None then Some i else fw) bs = []"
  using assms by (simp_all only: lint_bindings.simps Let_def append_is_Nil_conv split: if_splits)
    (auto split: if_splits)

lemma lint_bindings_roles:
  "lint_bindings roles i fe ft fw bs = [] \<Longrightarrow> b \<in> set bs \<Longrightarrow> map_of roles (bd_Role b) \<noteq> None"
proof (induction bs arbitrary: i fe ft fw)
  case (Cons b' bs)
  note step = lint_bindings_step [OF Cons.prems(1)]
  from Cons.prems(2) consider "b = b'" | "b \<in> set bs" by auto
  then show ?case
  proof cases
    case 1
    with step(1) show ?thesis by simp
  next
    case 2
    from Cons.IH [OF step(3) 2] show ?thesis .
  qed
qed simp

lemma resolve_role_binding:
  assumes "resolve_role cfg a ty = (role, b)" and "role \<noteq> ''''"
  shows "\<exists>bd \<in> set (rb_Bindings cfg). b = Some bd \<and> role = bd_Role bd"
proof -
  have "\<exists>bd. b = Some bd \<and> role = bd_Role bd"
  proof (cases "resolve_role_loop (rb_Bindings cfg) a ty None None")
    case None
    with assms show ?thesis by (simp add: resolve_role_def)
  next
    case (Some bd)
    with assms have "Some bd = b \<and> bd_Role bd = role" by (simp add: resolve_role_def)
    then show ?thesis by blast
  qed
  then obtain bd where b: "b = Some bd" "role = bd_Role bd" by blast
  have "snd (resolve_role cfg a ty) = Some bd" using assms b by simp
  then have "bd \<in> set (rb_Bindings cfg)"
    unfolding resolve_role_def resolve_role_loop_spec
    by (auto simp: or_else_def find_Some_iff split: option.splits if_splits)
  with b show ?thesis by blast
qed

lemma evaluate_role_defined:
  assumes "evaluate e now a ty sv tool dry = (d, e')"
    and "\<And>bd. bd \<in> set (rb_Bindings (en_cfg e)) \<Longrightarrow> map_of (rb_Roles (en_cfg e)) (bd_Role bd) \<noteq> None"
  shows "ad_ReasonCode d \<noteq> ''role_not_defined''"
proof -
  obtain role b where rr: "resolve_role (en_cfg e) a ty = (role, b)" by fastforce
  have def: "role \<noteq> '''' \<Longrightarrow> map_of (rb_Roles (en_cfg e)) role \<noteq> None"
    using resolve_role_binding [OF rr] assms(2) by blast
  have al: "ad_ReasonCode d = code \<or> ad_ReasonCode d = ''rate_limited''"
    if "allow_with_rate_limit e now a ty sv tool role dry r code rule mb = (d, e')" for role r code rule mb
    using allow_with_rate_limit_spec(3) [OF that] by (simp split: if_splits)
  show ?thesis
    using assms(1) def rr unfolding evaluate_def Let_def
    by (auto split: option.splits if_splits dest!: al)
qed

text \<open>
  A configuration the lint finds no fault in never denies a call because the role of a
  binding is missing: the reason code \<open>role_not_defined\<close> cannot occur.
\<close>

theorem lint_clean_roles_defined:
  assumes "rb_Enabled (en_cfg e)"
    and "lint_rbac_config (en_cfg e) = []"
  shows "ad_ReasonCode (fst (evaluate e now agentID agentType server tool dryRun))
    \<noteq> ''role_not_defined''"
proof -
  obtain d e' where ev: "evaluate e now agentID agentType server tool dryRun = (d, e')" by fastforce
  have "lint_bindings (rb_Roles (en_cfg e)) 0 (\<lambda>_. None) (\<lambda>_. None) None (rb_Bindings (en_cfg e)) = []"
    using assms by (simp add: lint_rbac_config_def Let_def split: if_splits)
  from evaluate_role_defined [OF ev lint_bindings_roles [OF this]] ev show ?thesis by simp
qed

lemma lint_clean_roles_defined_witness:
  "ad_ReasonCode (fst (evaluate demo_enforcer 0 ''bob'' '''' ''git'' ''log'' False))
    \<noteq> ''role_not_defined''"
proof (rule lint_clean_roles_defined)
  show "rb_Enabled (en_cfg demo_enforcer)" by (simp add: demo_enforcer_def demo_rbac_def)
  show "lint_rbac_config (en_cfg demo_enforcer) = []" by code_simp
qed

text \<open>
  The lint and the enforcer read the default policy differently.  A configuration
  whose \<open>default_policy\<close> is \<open>allow\<close> with white space around it and that has no bindings
  passes the lint, which trims the value, yet every call is denied, because the enforcer
  compares the value as it stands.
\<close>

theorem lint_padded_default_denies:
  assumes "trim_space policy = ''allow''" and "policy \<noteq> ''allow''"
    and "cfg = default_rbac_config\<lparr> rb_Enabled := True, rb_DefaultPolicy := policy \<rparr>"
    and "new_rbac_enforcer cfg = Some e"
  shows "lint_rbac_config cfg = [] \<and>
    \<not> ad_Allowed (fst (check e now agentID agentType server tool))"
proof
  have low: "to_lower ''allow'' = ''allow''" by (simp add: to_lower_def lower_def)
  show "lint_rbac_config cfg = []"
    by (simp add: assms(1,3) lint_rbac_config_def default_rbac_config_def low lint_roles_def)
  have "\<not> equal_fold policy ''allow''"
  proof
    assume "equal_fold policy ''allow''"
    then have "length (to_lower policy) = length (to_lower ''allow'')" by (simp add: equal_fold_def)
    moreover obtain xs ys where "policy = xs @ ''allow'' @ ys"
      using trim_space_infix [of policy] assms(1) by metis
    ultimately show False using assms(2) by (simp add: to_lower_def)
  qed
  moreover have "en_cfg e = cfg" using assms(4) by (auto simp: new_rbac_enforcer_def split: if_splits)
  moreover have "fst (resolve_role cfg agentID agentType) = ''''"
    by (simp add: assms(3) resolve_role_def default_rbac_config_def)
  ultimately have "\<not> policy_admits (en_cfg e) agentID agentType server tool"
    using assms(3) by (simp add: policy_admits_def Let_def)
  moreover obtain d e' where ev: "evaluate e now agentID agentType server tool False = (d, e')"
    by fastforce
  ultimately have "\<not> ad_Allowed d" using evaluate_spec [OF ev] by blast
  with ev show "\<not> ad_Allowed (fst (check e now agentID agentType server tool))"
    by (simp add: check_def check_with_mode_def)
qed

lemma lint_padded_default_denies_witness:
  defines "cfg \<equiv> default_rbac_config\<lparr> rb_Enabled := True, rb_DefaultPolicy := ''allow '' \<rparr>"
  shows "lint_rbac_config cfg = [] \<and>
    \<not> ad_Allowed (fst (check \<lparr> en_cfg = cfg, en_counts = (\<lambda>_. None) \<rparr> 0 ''bob'' '''' ''git'' ''log''))"
  by (rule lint_padded_default_denies [of "''allow ''"])
    (simp_all add: cfg_def new_rbac_enforcer_def default_rbac_config_def trim_space_def is_space_def)

end
