(* ===== verification/Gateway_Policy.thy ===== *)
theory Gateway_Policy
  imports Rbac
begin

text \<open>
  JSON payloads and the gateway request policy (\<open>internal/daemon/policy.go\<close>), with the
  call parameters of \<open>internal/daemon/daemon_call.go\<close> it reads.

  A \<open>json.RawMessage\<close> is its text together with the value \<open>json.Unmarshal\<close> gives for it:
  raw messages reach this code out of an enclosing document that has been decoded, so they
  are well formed.  An absent (zero-length) raw message is \<open>None\<close>.  Numbers keep their
  literal.

  The lemmas show when a rule denies, that the first denying rule decides, and that the
  rules read their arguments from one field while the request that is forwarded comes from
  another.
\<close>

subsection \<open>JSON\<close>

datatype json =
    JNull
  | JBool bool
  | JNum string
  | JStr string
  | JArr "json list"
  | JObj "(string \<times> json) list"

record raw_message =
  raw_text :: string
  raw_value :: json

text \<open>\<open>json.Unmarshal\<close> into a \<open>map[string]any\<close>: \<open>null\<close> leaves the nil map, without error.\<close>

definition unmarshal_object :: "json \<Rightarrow> (string \<times> json) list option" where
  "unmarshal_object v = (case v of JObj o' \<Rightarrow> Some o' | JNull \<Rightarrow> Some [] | _ \<Rightarrow> None)"

definition has_key :: "(string \<times> json) list \<Rightarrow> string \<Rightarrow> bool" where
  "has_key args k = (map_of args k \<noteq> None)"

subsection \<open>Call parameters\<close>

record call_params =
  cp_Server :: string
  cp_Tool :: string
  cp_Name :: string
  cp_Method :: string
  cp_Params :: "raw_message option"
  cp_Arguments :: "raw_message option"
  cp_AgentID :: string
  cp_AgentType :: string
  cp_SessionID :: string
  cp_Timeout :: string

subsection \<open>Rules and decisions\<close>

record gateway_rule =
  gr_ID :: string
  gr_Server :: string
  gr_Tool :: string
  gr_RequiredArguments :: "string list"
  gr_ForbiddenArguments :: "string list"
  gr_ContainsAny :: "string list"
  gr_ReasonCode :: string

record gateway_config =
  gc_Enabled :: bool
  gc_Request :: "gateway_rule list"

datatype policy_reason =
    NoReason
  | MissingArguments "string list"
  | ForbiddenArguments "string list"
  | BlockedPattern string

record policy_decision =
  pd_Allowed :: bool
  pd_Stage :: string
  pd_Action :: string
  pd_RuleID :: string
  pd_ReasonCode :: string
  pd_Reason :: policy_reason

definition default_gateway_config :: gateway_config where
  "default_gateway_config = \<lparr> gc_Enabled = False, gc_Request = [] \<rparr>"

text \<open>The enforcer holds nothing but its configuration; a disabled one is nil.\<close>

definition new_gateway_enforcer :: "gateway_config \<Rightarrow> gateway_config option" where
  "new_gateway_enforcer cfg = (if \<not> gc_Enabled cfg then None else Some cfg)"

definition normalize_rule_id :: "string \<Rightarrow> nat \<Rightarrow> string" where
  "normalize_rule_id i idx =
     (let trimmed = trim_space i in
      if trimmed \<noteq> '''' then trimmed else ''request-rule-'' @ dec (idx + 1))"

definition normalize_reason_code :: "string \<Rightarrow> string" where
  "normalize_reason_code reasonCode =
     (let trimmed = trim_space reasonCode in
      if trimmed \<noteq> '''' then trimmed else ''GATEWAY_POLICY_REQUEST_DENY'')"

text \<open>The body of \<open>extractGatewayRequestArguments\<close> once \<open>Arguments\<close> gave no map.\<close>

definition arguments_of_params :: "raw_message option \<Rightarrow> (string \<times> json) list" where
  "arguments_of_params p =
     (case p of
        None \<Rightarrow> []
      | Some raw \<Rightarrow>
          (case unmarshal_object (raw_value raw) of
             None \<Rightarrow> []
           | Some payload \<Rightarrow>
               (case map_of payload ''arguments'' of
                  Some (JObj nested) \<Rightarrow> nested
                | _ \<Rightarrow> payload)))"

definition extract_request_arguments :: "call_params \<Rightarrow> (string \<times> json) list" where
  "extract_request_arguments params =
     (case cp_Arguments params of
        None \<Rightarrow> arguments_of_params (cp_Params params)
      | Some raw \<Rightarrow>
          (case unmarshal_object (raw_value raw) of
             Some args \<Rightarrow> args
           | None \<Rightarrow> arguments_of_params (cp_Params params)))"

definition find_missing_keys :: "(string \<times> json) list \<Rightarrow> string list \<Rightarrow> string list" where
  "find_missing_keys args required =
     sort (filter (\<lambda>key. key \<noteq> '''' \<and> \<not> has_key args key) (map trim_space required))"

definition find_present_keys :: "(string \<times> json) list \<Rightarrow> string list \<Rightarrow> string list" where
  "find_present_keys args forbidden =
     sort (filter (\<lambda>key. key \<noteq> '''' \<and> has_key args key) (map trim_space forbidden))"

definition request_payload :: "call_params \<Rightarrow> string" where
  "request_payload params =
     (case cp_Params params of
        Some raw \<Rightarrow> raw_text raw
      | None \<Rightarrow> (case cp_Arguments params of Some raw \<Rightarrow> raw_text raw | None \<Rightarrow> ''''))"

definition payload_contains_any :: "string \<Rightarrow> string list \<Rightarrow> string option" where
  "payload_contains_any payload patterns =
     (if payload = '''' \<or> patterns = [] then None
      else
        (let payloadLower = to_lower payload in
         List.find (\<lambda>p. p \<noteq> '''' \<and> contains payloadLower (to_lower p)) (map trim_space patterns)))"

definition evaluate_request_rule ::
  "gateway_rule \<Rightarrow> nat \<Rightarrow> call_params \<Rightarrow> policy_decision \<times> bool" where
  "evaluate_request_rule rule idx params =
     (let deny = (\<lambda>r. (\<lparr> pd_Allowed = False, pd_Stage = ''request'', pd_Action = ''deny'',
                         pd_RuleID = normalize_rule_id (gr_ID rule) idx,
                         pd_ReasonCode = normalize_reason_code (gr_ReasonCode rule),
                         pd_Reason = r \<rparr>, True));
          args = extract_request_arguments params;
          missing = find_missing_keys args (gr_RequiredArguments rule);
          present = find_present_keys args (gr_ForbiddenArguments rule) in
      if gr_RequiredArguments rule \<noteq> [] \<and> missing \<noteq> [] then deny (MissingArguments missing)
      else if gr_ForbiddenArguments rule \<noteq> [] \<and> present \<noteq> [] then deny (ForbiddenArguments present)
      else
        (case payload_contains_any (request_payload params) (gr_ContainsAny rule) of
           Some pattern \<Rightarrow> deny (BlockedPattern pattern)
         | None \<Rightarrow>
             (\<lparr> pd_Allowed = True, pd_Stage = ''request'', pd_Action = ''deny'', pd_RuleID = '''',
                pd_ReasonCode = '''', pd_Reason = NoReason \<rparr>, False)))"

fun check_request_from ::
  "nat \<Rightarrow> gateway_rule list \<Rightarrow> string \<Rightarrow> string \<Rightarrow> call_params \<Rightarrow> policy_decision" where
  "check_request_from i [] server tool params =
     \<lparr> pd_Allowed = True, pd_Stage = ''request'', pd_Action = ''deny'', pd_RuleID = '''',
       pd_ReasonCode = '''', pd_Reason = NoReason \<rparr>"
| "check_request_from i (rule # rules) server tool params =
     (if \<not> matches_optional_pattern (gr_Server rule) server
      then check_request_from (Suc i) rules server tool params
      else if \<not> matches_optional_pattern (gr_Tool rule) tool
      then check_request_from (Suc i) rules server tool params
      else
        (let (decision, denied) = evaluate_request_rule rule i params in
         if denied then decision else check_request_from (Suc i) rules server tool params))"

definition check_request :: "gateway_config \<Rightarrow> string \<Rightarrow> string \<Rightarrow> call_params \<Rightarrow> policy_decision" where
  "check_request cfg server tool params = check_request_from 0 (gc_Request cfg) server tool params"

subsection \<open>What a rule denies\<close>

definition rule_in_scope :: "gateway_rule \<Rightarrow> string \<Rightarrow> string \<Rightarrow> bool" where
  "rule_in_scope rule server tool \<longleftrightarrow>
     matches_optional_pattern (gr_Server rule) server \<and> matches_optional_pattern (gr_Tool rule) tool"

definition rule_denies :: "gateway_rule \<Rightarrow> call_params \<Rightarrow> bool" where
  "rule_denies rule params \<longleftrightarrow>
     (\<exists>k \<in> set (gr_RequiredArguments rule). trim_space k \<noteq> '''' \<and>
        \<not> has_key (extract_request_arguments params) (trim_space k)) \<or>
     (\<exists>k \<in> set (gr_ForbiddenArguments rule). trim_space k \<noteq> '''' \<and>
        has_key (extract_request_arguments params) (trim_space k)) \<or>
     (\<exists>p \<in> set (gr_ContainsAny rule). trim_space p \<noteq> '''' \<and> request_payload params \<noteq> '''' \<and>
        contains (to_lower (request_payload params)) (to_lower (trim_space p)))"

lemma find_missing_keys_empty:
  "find_missing_keys args ks \<noteq> [] \<longleftrightarrow>
     (\<exists>k \<in> set ks. trim_space k \<noteq> '''' \<and> \<not> has_key args (trim_space k))"
proof -
  have "find_missing_keys args ks \<noteq> [] \<longleftrightarrow> set (find_missing_keys args ks) \<noteq> {}" by simp
  also have "\<dots> \<longleftrightarrow> (\<exists>k \<in> set ks. trim_space k \<noteq> '''' \<and> \<not> has_key args (trim_space k))"
    unfolding find_missing_keys_def by auto
  finally show ?thesis .
qed

lemma find_present_keys_empty:
  "find_present_keys args ks \<noteq> [] \<longleftrightarrow>
     (\<exists>k \<in> set ks. trim_space k \<noteq> '''' \<and> has_key args (trim_space k))"
proof -
  have "find_present_keys args ks \<noteq> [] \<longleftrightarrow> set (find_present_keys args ks) \<noteq> {}" by simp
  also have "\<dots> \<longleftrightarrow> (\<exists>k \<in> set ks. trim_space k \<noteq> '''' \<and> has_key args (trim_space k))"
    unfolding find_present_keys_def by auto
  finally show ?thesis .
qed

lemma payload_contains_any_None:
  "payload_contains_any payload ps = None \<longleftrightarrow>
     \<not> (\<exists>p \<in> set ps. trim_space p \<noteq> '''' \<and> payload \<noteq> '''' \<and>
          contains (to_lower payload) (to_lower (trim_space p)))"
  by (auto simp: payload_contains_any_def Let_def find_None_iff)

lemma evaluate_request_rule_spec:
  "snd (evaluate_request_rule rule idx params) = rule_denies rule params"
  "pd_Allowed (fst (evaluate_request_rule rule idx params)) = (\<not> rule_denies rule params)"
proof -
  let ?d = "evaluate_request_rule rule idx params"
  have "snd ?d = rule_denies rule params \<and> pd_Allowed (fst ?d) = (\<not> rule_denies rule params)"
  proof (cases "find_missing_keys (extract_request_arguments params) (gr_RequiredArguments rule) \<noteq> []")
    case True
    then show ?thesis
      using find_missing_keys_empty [of "extract_request_arguments params" "gr_RequiredArguments rule"]
      by (auto simp: evaluate_request_rule_def rule_denies_def Let_def)
  next
    case missing: False
    show ?thesis
    proof (cases "find_present_keys (extract_request_arguments params) (gr_ForbiddenArguments rule) \<noteq> []")
      case True
      then show ?thesis using missing
          find_present_keys_empty [of "extract_request_arguments params" "gr_ForbiddenArguments rule"]
        by (auto simp: evaluate_request_rule_def rule_denies_def Let_def)
    next
      case False
      have "rule_denies rule params \<longleftrightarrow>
          payload_contains_any (request_payload params) (gr_ContainsAny rule) \<noteq> None"
        using missing False unfolding rule_denies_def payload_contains_any_None
        by (simp add: find_missing_keys_empty find_present_keys_empty) blast
      with missing False show ?thesis
        by (auto simp: evaluate_request_rule_def Let_def split: option.splits)
    qed
  qed
  then show "snd ?d = rule_denies rule params" "pd_Allowed (fst ?d) = (\<not> rule_denies rule params)"
    by blast+
qed

lemma check_request_from_spec:
  "pd_Allowed (check_request_from i rules server tool params) \<longleftrightarrow>
     (\<forall>rule \<in> set rules. rule_in_scope rule server tool \<longrightarrow> \<not> rule_denies rule params)"
proof (induction i rules server tool params rule: check_request_from.induct)
  case (2 i rule rules server tool params)
  show ?case
  proof (cases "rule_in_scope rule server tool \<and> rule_denies rule params")
    case True
    then show ?thesis
      using evaluate_request_rule_spec [of rule i params]
      by (auto simp: rule_in_scope_def case_prod_beta)
  next
    case False
    have "check_request_from i (rule # rules) server tool params =
        check_request_from (Suc i) rules server tool params"
      using False evaluate_request_rule_spec [of rule i params]
      by (auto simp: rule_in_scope_def case_prod_beta)
    moreover have "pd_Allowed (check_request_from (Suc i) rules server tool params) \<longleftrightarrow>
        (\<forall>rule \<in> set rules. rule_in_scope rule server tool \<longrightarrow> \<not> rule_denies rule params)"
      using 2 evaluate_request_rule_spec [of rule i params] False
      by (cases "rule_in_scope rule server tool") (auto simp: rule_in_scope_def prod_eq_iff)
    ultimately show ?thesis using False by auto
  qed
qed simp

text \<open>
  C39. The gateway policy allows a request exactly when no rule whose server and tool
  patterns cover it denies it, that is, when none of those rules misses a required
  argument, finds a forbidden one, or finds a blocked substring in the payload.
\<close>

theorem check_request_allows_iff:
  "pd_Allowed (check_request cfg server tool params) \<longleftrightarrow>
     \<not> (\<exists>rule. rule \<in> set (gc_Request cfg) \<and> rule_in_scope rule server tool \<and>
          rule_denies rule params)"
  unfolding check_request_def check_request_from_spec by blast

text \<open>
  Required and forbidden arguments are looked for where the caller may keep them apart
  from the request: when \<open>arguments\<close> is an object, no rule without blocked substrings
  depends on \<open>params\<close>, which is what \<open>buildForwardRequest\<close> forwards when it is there.
  Whatever the forwarded parameters contain, the decision is the one for the other field.
\<close>

theorem argument_rules_ignore_forwarded_params:
  assumes "cp_Arguments params = Some raw" and "raw_value raw = JObj args"
    and "list_all (\<lambda>rule. gr_ContainsAny rule = []) (gc_Request cfg)"
  shows "pd_Allowed (check_request cfg server tool (params\<lparr> cp_Params := forwarded \<rparr>)) =
    pd_Allowed (check_request cfg server tool params)"
proof -
  have "extract_request_arguments (params\<lparr> cp_Params := forwarded \<rparr>) = extract_request_arguments params"
    using assms(1,2) by (simp add: extract_request_arguments_def unmarshal_object_def)
  then have "rule_denies rule (params\<lparr> cp_Params := forwarded \<rparr>) = rule_denies rule params"
    if "rule \<in> set (gc_Request cfg)" for rule
    using assms(3) that by (simp add: rule_denies_def list_all_iff)
  then show ?thesis unfolding check_request_def check_request_from_spec by blast
qed

definition demo_gateway :: gateway_config where
  "demo_gateway = \<lparr> gc_Enabled = True, gc_Request =
     [\<lparr> gr_ID = '''', gr_Server = ''k8s'', gr_Tool = ''apply'', gr_RequiredArguments = [''namespace''],
        gr_ForbiddenArguments = [''force''], gr_ContainsAny = [], gr_ReasonCode = '''' \<rparr>] \<rparr>"

definition demo_gateway_params :: call_params where
  "demo_gateway_params = \<lparr> cp_Server = ''k8s'', cp_Tool = ''apply'', cp_Name = '''', cp_Method = '''',
     cp_Params = None,
     cp_Arguments = Some \<lparr> raw_text = ''{}'', raw_value = JObj [(''namespace'', JStr ''dev'')] \<rparr>,
     cp_AgentID = ''bob'', cp_AgentType = '''', cp_SessionID = '''', cp_Timeout = '''' \<rparr>"

definition forced_params :: "raw_message option" where
  "forced_params = Some \<lparr> raw_text = ''{}'', raw_value =
     JObj [(''name'', JStr ''apply''), (''arguments'', JObj [(''force'', JBool True)])] \<rparr>"

lemma argument_rules_ignore_forwarded_params_witness:
  "pd_Allowed (check_request demo_gateway ''k8s'' ''apply'' (demo_gateway_params\<lparr> cp_Params := forced_params \<rparr>)) \<and>
   \<not> pd_Allowed (check_request demo_gateway ''k8s'' ''apply''
      (demo_gateway_params\<lparr> cp_Params := forced_params, cp_Arguments := None \<rparr>))"
proof
  have 1: "cp_Arguments demo_gateway_params =
      Some \<lparr> raw_text = ''{}'', raw_value = JObj [(''namespace'', JStr ''dev'')] \<rparr>"
    by (simp add: demo_gateway_params_def)
  have 2: "raw_value \<lparr> raw_text = ''{}'', raw_value = JObj [(''namespace'', JStr ''dev'')] \<rparr> =
      JObj [(''namespace'', JStr ''dev'')]" by simp
  have 3: "list_all (\<lambda>rule. gr_ContainsAny rule = []) (gc_Request demo_gateway)"
    by (simp add: demo_gateway_def)
  have "pd_Allowed (check_request demo_gateway ''k8s'' ''apply'' demo_gateway_params)" by code_simp
  then show "pd_Allowed (check_request demo_gateway ''k8s'' ''apply''
      (demo_gateway_params\<lparr> cp_Params := forced_params \<rparr>))"
    using argument_rules_ignore_forwarded_params [OF 1 2 3] by simp
  show "\<not> pd_Allowed (check_request demo_gateway ''k8s'' ''apply''
      (demo_gateway_params\<lparr> cp_Params := forced_params, cp_Arguments := None \<rparr>))" by code_simp
qed

end
