(* ===== verification/Routing.thy ===== *)
theory Routing
  imports Loom_Prelude
begin

text \<open>
  Per-server routing of the daemon: preferences and the prefer-hub backoff
  (\<open>internal/daemon/routing.go\<close>), hub delegation (\<open>hub_delegate.go\<close>), the recv-timeout
  breaker (\<open>callpipeline_recv_breaker.go\<close>) and the lookup of the server that provides a
  tool (\<open>cache_revision.go\<close>).  The health-based decision itself comes from the router of
  the kit library and is an argument.

  The lemmas give the target of every preference, the backoff schedule and its cap, and
  the number of consecutive timeouts that trip the breaker.
\<close>

datatype target = TargetLocal | TargetHub | TargetUnavailable

datatype routing_preference =
  HealthBased | LocalOnly | HubOnly | PreferLocal | PreferHub

definition parse_routing_preference :: "string \<Rightarrow> routing_preference option" where
  "parse_routing_preference s =
     (let t = to_lower (trim_space s) in
      if t \<in> set [''health-based'', ''healthbased'', ''''] then Some HealthBased
      else if t \<in> set [''local-only'', ''localonly'', ''local''] then Some LocalOnly
      else if t \<in> set [''hub-only'', ''hubonly'', ''hub''] then Some HubOnly
      else if t \<in> set [''prefer-local'', ''preferlocal''] then Some PreferLocal
      else if t \<in> set [''prefer-hub'', ''preferhub''] then Some PreferHub
      else None)"

fun preference_string :: "routing_preference \<Rightarrow> string" where
  "preference_string LocalOnly = ''local-only''"
| "preference_string HubOnly = ''hub-only''"
| "preference_string PreferLocal = ''prefer-local''"
| "preference_string PreferHub = ''prefer-hub''"
| "preference_string HealthBased = ''health-based''"

text \<open>\<open>True\<close> when the map of configured preferences is accepted.\<close>

definition validate_routing_preferences :: "(string \<times> string) list \<Rightarrow> bool" where
  "validate_routing_preferences prefs =
     list_all (\<lambda>(server, pref). server \<noteq> '''' \<and> parse_routing_preference pref \<noteq> None) prefs"

definition off_lan_upgradable :: "routing_preference \<Rightarrow> bool" where
  "off_lan_upgradable pref = (pref = LocalOnly \<or> pref = PreferLocal)"

text \<open>The routing state of the daemon; the maps are \<open>sync.Map\<close>s or immutable after start.\<close>

record routing_state =
  rs_preferences :: "string \<Rightarrow> routing_preference option"
  rs_offLAN :: bool
  rs_offLANHubCapable :: "string \<Rightarrow> bool"
  rs_backoff :: "string \<Rightarrow> time option"
  rs_backoffStreak :: "string \<Rightarrow> int option"
  rs_recvTimeoutStreak :: "string \<Rightarrow> int option"

definition effective_routing_preference ::
  "routing_state \<Rightarrow> string \<Rightarrow> routing_preference \<times> bool" where
  "effective_routing_preference d serverName =
     (case rs_preferences d serverName of
        None \<Rightarrow> (HealthBased, False)
      | Some pref \<Rightarrow>
          if off_lan_upgradable pref \<and> rs_offLAN d \<and> rs_offLANHubCapable d serverName
          then (PreferHub, True) else (pref, False))"

fun apply_routing_preference_with_options ::
  "routing_preference \<Rightarrow> target \<Rightarrow> bool \<Rightarrow> bool \<Rightarrow> target \<times> bool" where
  "apply_routing_preference_with_options LocalOnly original hasHub allowPreferHub =
     (if original \<noteq> TargetLocal then (TargetLocal, True) else (original, False))"
| "apply_routing_preference_with_options HubOnly original hasHub allowPreferHub =
     (if \<not> hasHub then (TargetUnavailable, True)
      else if original \<noteq> TargetHub then (TargetHub, True) else (original, False))"
| "apply_routing_preference_with_options PreferHub original hasHub allowPreferHub =
     (if \<not> allowPreferHub then (original, False)
      else if hasHub \<and> original \<noteq> TargetHub then (TargetHub, True) else (original, False))"
| "apply_routing_preference_with_options PreferLocal original hasHub allowPreferHub =
     (if original \<noteq> TargetLocal then (TargetLocal, True) else (original, False))"
| "apply_routing_preference_with_options HealthBased original hasHub allowPreferHub =
     (original, False)"

definition apply_routing_preference ::
  "routing_preference \<Rightarrow> target \<Rightarrow> bool \<Rightarrow> target \<times> bool" where
  "apply_routing_preference pref original hasHub =
     apply_routing_preference_with_options pref original hasHub True"

subsection \<open>Prefer-hub backoff\<close>

definition prefer_hub_backoff_base :: duration where
  "prefer_hub_backoff_base = 30 * second"

definition prefer_hub_backoff_max :: duration where
  "prefer_hub_backoff_max = 5 * minute"

text \<open>The doubling loop, for the \<open>n\<close> iterations that the streak leaves.\<close>

fun backoff_loop :: "nat \<Rightarrow> duration \<Rightarrow> duration" where
  "backoff_loop 0 dur = dur"
| "backoff_loop (Suc n) dur =
     (if dur < prefer_hub_backoff_max then backoff_loop n (dur * 2) else dur)"

definition next_prefer_hub_backoff :: "routing_state \<Rightarrow> string \<Rightarrow> duration \<times> routing_state" where
  "next_prefer_hub_backoff d serverName =
     (let streak = (case rs_backoffStreak d serverName of
                      Some n \<Rightarrow> if n > 0 then n + 1 else 1
                    | None \<Rightarrow> 1);
          dur = backoff_loop (nat (streak - 1)) prefer_hub_backoff_base
      in (if dur > prefer_hub_backoff_max then prefer_hub_backoff_max else dur,
          d\<lparr> rs_backoffStreak := (rs_backoffStreak d)(serverName \<mapsto> streak) \<rparr>))"

definition set_prefer_hub_backoff ::
  "time \<Rightarrow> routing_state \<Rightarrow> string \<Rightarrow> duration \<Rightarrow> time option \<times> routing_state" where
  "set_prefer_hub_backoff now d serverName dur =
     (if trim_space serverName = '''' then (None, d)
      else
        (let (dur', d1) = (if dur \<le> 0 then next_prefer_hub_backoff d serverName else (dur, d));
             until = now + dur'
         in (Some until, d1\<lparr> rs_backoff := (rs_backoff d1)(serverName \<mapsto> until) \<rparr>)))"

definition clear_prefer_hub_backoff :: "routing_state \<Rightarrow> string \<Rightarrow> routing_state" where
  "clear_prefer_hub_backoff d serverName =
     (if trim_space serverName = '''' then d
      else d\<lparr> rs_backoff := (rs_backoff d)(serverName := None),
               rs_backoffStreak := (rs_backoffStreak d)(serverName := None) \<rparr>)"

definition prefer_hub_backoff_active ::
  "time \<Rightarrow> routing_state \<Rightarrow> string \<Rightarrow> time option \<times> routing_state" where
  "prefer_hub_backoff_active now d serverName =
     (if trim_space serverName = '''' then (None, d)
      else
        (case rs_backoff d serverName of
           None \<Rightarrow> (None, d)
         | Some until \<Rightarrow>
             if now < until then (Some until, d)
             else (None, d\<lparr> rs_backoff := (rs_backoff d)(serverName := None) \<rparr>)))"

subsection \<open>The recv-timeout breaker\<close>

text \<open>\<open>n\<close> is the environment's \<open>LOOM_LOCAL_RECV_TIMEOUT_BREAKER\<close>, 3 when it is not set.\<close>

definition recv_timeout_threshold :: "int \<Rightarrow> int" where
  "recv_timeout_threshold n = (if n < 1 then 3 else n)"

definition record_local_recv_timeout :: "routing_state \<Rightarrow> string \<Rightarrow> int \<times> routing_state" where
  "record_local_recv_timeout d serverName =
     (let v = (case rs_recvTimeoutStreak d serverName of None \<Rightarrow> 0 | Some n \<Rightarrow> n) + 1
      in (v, d\<lparr> rs_recvTimeoutStreak := (rs_recvTimeoutStreak d)(serverName \<mapsto> v) \<rparr>))"

definition reset_local_recv_timeout :: "routing_state \<Rightarrow> string \<Rightarrow> routing_state" where
  "reset_local_recv_timeout d serverName =
     (case rs_recvTimeoutStreak d serverName of
        None \<Rightarrow> d
      | Some _ \<Rightarrow> d\<lparr> rs_recvTimeoutStreak := (rs_recvTimeoutStreak d)(serverName \<mapsto> 0) \<rparr>)"

subsection \<open>Hub delegation\<close>

record hub_config =
  hc_hubPool :: bool
  hc_hubClient :: bool
  hc_hubAuthDisabled :: bool
  hc_warmOnStart :: "string list"
  hc_delegateServers :: "string list"

definition default_hub_delegate_servers :: "string list" where
  "default_hub_delegate_servers = [''agent_context'', ''devbox'']"

definition hub_delegate_eligible :: "hub_config \<Rightarrow> string \<Rightarrow> bool" where
  "hub_delegate_eligible d serverName =
     (if \<not> hc_hubPool d \<or> \<not> hc_hubClient d then False
      else if hc_hubAuthDisabled d then False
      else if List.member (hc_warmOnStart d) serverName then False
      else if hc_delegateServers d = [] then False
      else List.member (hc_delegateServers d) serverName)"

subsection \<open>The server of a tool\<close>

text \<open>
  The live-discovery index keeps the distinct candidates of each tool in order.
  \<open>resolve\<close> is the kit router's \<open>ResolveServer\<close>: an error, or a server name that is empty
  when no rule or static route applies.
\<close>

definition build_route_index :: "(string \<times> string list) list \<Rightarrow> (string \<times> string list) list" where
  "build_route_index routes =
     (let dedup = (\<lambda>candidates. rev (fold (\<lambda>s acc. if s \<in> set acc then acc else s # acc) candidates []))
      in filter (\<lambda>(_, ss). ss \<noteq> []) (map (\<lambda>(toolName, candidates). (toolName, dedup candidates)) routes))"

datatype resolve_error = RouterError string | AmbiguousTool string "string list"

definition resolve_tool_server ::
  "(string \<Rightarrow> string + string) option \<Rightarrow> (string \<times> string list) list option \<Rightarrow> string \<Rightarrow>
    resolve_error + string" where
  "resolve_tool_server router index toolName =
     (case router of
        None \<Rightarrow> Inr ''''
      | Some resolve \<Rightarrow>
          (case resolve toolName of
             Inl err \<Rightarrow> Inl (RouterError err)
           | Inr resolved \<Rightarrow>
               if resolved \<noteq> '''' then Inr resolved
               else
                 (case index of
                    None \<Rightarrow> Inr ''''
                  | Some idx \<Rightarrow>
                      (case map_of idx toolName of
                         None \<Rightarrow> Inr ''''
                       | Some [] \<Rightarrow> Inr ''''
                       | Some [s] \<Rightarrow> Inr s
                       | Some servers \<Rightarrow> Inl (AmbiguousTool toolName servers)))))"

subsection \<open>The backoff schedule\<close>

definition streak_of :: "routing_state \<Rightarrow> string \<Rightarrow> nat" where
  "streak_of d serverName =
     (case rs_backoffStreak d serverName of None \<Rightarrow> 0 | Some n \<Rightarrow> nat n)"

text \<open>The promised schedule: 30s, 60s, 120s, ... capped at five minutes.\<close>

definition backoff_schedule :: "nat \<Rightarrow> duration" where
  "backoff_schedule n = min (prefer_hub_backoff_base * 2 ^ n) prefer_hub_backoff_max"

lemma backoff_loop_min:
  "0 < dur \<Longrightarrow> min (backoff_loop n dur) prefer_hub_backoff_max = min (dur * 2 ^ n) prefer_hub_backoff_max"
proof (induction n dur rule: backoff_loop.induct)
  case (2 n dur)
  show ?case
  proof (cases "dur < prefer_hub_backoff_max")
    case True
    with 2 show ?thesis by (simp add: mult.assoc)
  next
    case False
    have "(1 :: int) \<le> 2 ^ Suc n" by (rule one_le_power) simp
    then have "dur * 1 \<le> dur * 2 ^ Suc n" using 2(2) by (intro mult_left_mono) simp_all
    with False show ?thesis by simp
  qed
qed simp

lemma next_prefer_hub_backoff_schedule:
  "next_prefer_hub_backoff d s =
     (backoff_schedule (streak_of d s),
      d\<lparr> rs_backoffStreak := (rs_backoffStreak d)(s \<mapsto> int (streak_of d s) + 1) \<rparr>)"
proof -
  define streak where "streak = (case rs_backoffStreak d s of
      Some n \<Rightarrow> if n > 0 then n + 1 else 1 | None \<Rightarrow> 1)"
  have st: "streak = int (streak_of d s) + 1"
    by (auto simp: streak_def streak_of_def split: option.splits)
  have "min (backoff_loop (nat (streak - 1)) prefer_hub_backoff_base) prefer_hub_backoff_max =
      backoff_schedule (streak_of d s)"
    using backoff_loop_min [of prefer_hub_backoff_base "streak_of d s"]
    by (simp add: st backoff_schedule_def prefer_hub_backoff_base_def second_def)
  then show ?thesis
    unfolding next_prefer_hub_backoff_def Let_def streak_def [symmetric]
    by (auto simp: st min_def split: if_splits)
qed

text \<open>A run of hub failures at the given times, as the call pipeline reports them.\<close>

fun hub_failures :: "routing_state \<Rightarrow> string \<Rightarrow> time list \<Rightarrow> routing_state" where
  "hub_failures d s [] = d"
| "hub_failures d s (t # ts) = hub_failures (snd (set_prefer_hub_backoff t d s 0)) s ts"

lemma set_prefer_hub_backoff_zero:
  "trim_space s \<noteq> '''' \<Longrightarrow>
    set_prefer_hub_backoff t d s 0 =
      (Some (t + backoff_schedule (streak_of d s)),
       d\<lparr> rs_backoffStreak := (rs_backoffStreak d)(s \<mapsto> int (streak_of d s) + 1),
          rs_backoff := (rs_backoff d)(s \<mapsto> t + backoff_schedule (streak_of d s)) \<rparr>)"
  by (simp add: set_prefer_hub_backoff_def next_prefer_hub_backoff_schedule Let_def)

lemma streak_of_set:
  "trim_space s \<noteq> '''' \<Longrightarrow>
    streak_of (snd (set_prefer_hub_backoff t d s 0)) s = Suc (streak_of d s)"
  by (simp add: set_prefer_hub_backoff_zero) (simp add: streak_of_def nat_add_distrib)

lemma streak_of_failures:
  "trim_space s \<noteq> '''' \<Longrightarrow> streak_of (hub_failures d s ts) s = streak_of d s + length ts"
  by (induction ts arbitrary: d) (simp_all add: streak_of_set)

lemma streak_of_clear: "trim_space s \<noteq> '''' \<Longrightarrow> streak_of (clear_prefer_hub_backoff d s) s = 0"
  by (simp add: clear_prefer_hub_backoff_def streak_of_def)

text \<open>
  The \<open>n+1\<close>-st hub failure since the last successful hub call suppresses the hub for
  exactly \<open>min (30s * 2^n) 5m\<close>: the server is in backoff at every instant before the end of
  that window and at no later one, however the earlier failures were spread in time.
\<close>

theorem backoff_window:
  assumes "trim_space server \<noteq> ''''"
  shows "fst (prefer_hub_backoff_active t
            (hub_failures (clear_prefer_hub_backoff d server) server (ts @ [t0])) server) =
         (if t < t0 + backoff_schedule (length ts) then Some (t0 + backoff_schedule (length ts))
          else None)"
proof -
  let ?d = "clear_prefer_hub_backoff d server"
  have app: "hub_failures e s (xs @ [x]) = snd (set_prefer_hub_backoff x (hub_failures e s xs) s 0)"
    for e s xs x by (induction xs arbitrary: e) simp_all
  have "streak_of (hub_failures ?d server ts) server = length ts"
    using streak_of_failures [OF assms, of ?d ts] streak_of_clear [OF assms] by simp
  then have "rs_backoff (hub_failures ?d server (ts @ [t0])) server =
      Some (t0 + backoff_schedule (length ts))"
    by (simp add: app set_prefer_hub_backoff_zero [OF assms])
  with assms show ?thesis by (simp add: prefer_hub_backoff_active_def)
qed

definition demo_routing :: routing_state where
  "demo_routing = \<lparr> rs_preferences = (\<lambda>_. Some PreferHub), rs_offLAN = False,
     rs_offLANHubCapable = (\<lambda>_. True), rs_backoff = (\<lambda>_. None), rs_backoffStreak = (\<lambda>_. None),
     rs_recvTimeoutStreak = (\<lambda>_. None) \<rparr>"

lemma backoff_window_witness:
  "fst (prefer_hub_backoff_active (99 * second)
     (hub_failures (clear_prefer_hub_backoff demo_routing ''devbox'') ''devbox'' ([0] @ [40 * second]))
     ''devbox'') = Some (100 * second)"
proof -
  have ne: "trim_space ''devbox'' \<noteq> ''''" by (simp add: trim_space_def is_space_def)
  have sch: "backoff_schedule (Suc 0) = 60 * second"
    by (simp add: backoff_schedule_def prefer_hub_backoff_base_def prefer_hub_backoff_max_def
        minute_def second_def)
  show ?thesis
    using backoff_window [OF ne, of "99 * second" demo_routing "[0]" "40 * second"]
    by (simp add: sch second_def)
qed

text \<open>
  The documented difference between the two local preferences does not exist.
  \<open>prefer-local\<close> is described as falling back to the hub when the local server is
  unhealthy; for every server, network state and health-based decision it picks the same
  target as \<open>local-only\<close>, so an unhealthy local server is never replaced by the hub.
\<close>

theorem prefer_local_is_local_only:
  "let d1 = d\<lparr> rs_preferences := (rs_preferences d)(server \<mapsto> PreferLocal) \<rparr>;
       d2 = d\<lparr> rs_preferences := (rs_preferences d)(server \<mapsto> LocalOnly) \<rparr>;
       (p1, up1) = effective_routing_preference d1 server;
       (p2, up2) = effective_routing_preference d2 server
   in up1 = up2 \<and>
      apply_routing_preference_with_options p1 original hasHub allowPreferHub =
      apply_routing_preference_with_options p2 original hasHub allowPreferHub \<and>
      (up1 \<or> fst (apply_routing_preference_with_options p1 original hasHub allowPreferHub) = TargetLocal)"
  by (auto simp: effective_routing_preference_def off_lan_upgradable_def Let_def)

text \<open>
  Parsing the canonical text of a preference reads the preference back, whatever
  blanks surround it.
\<close>

theorem preference_roundtrip:
  "parse_routing_preference (replicate m CHR '' '' @ preference_string p @ replicate n CHR '' '') = Some p"
proof -
  have pad: "trim_space (replicate m CHR '' '' @ s @ replicate n CHR '' '') = trim_space s" for s
    by (rule trim_space_pad) (simp_all add: is_space_def)
  have "parse_routing_preference (preference_string p) = Some p"
  proof (cases p)
    case HealthBased
    then show ?thesis by (simp only:) code_simp
  next
    case LocalOnly
    then show ?thesis by (simp only:) code_simp
  next
    case HubOnly
    then show ?thesis by (simp only:) code_simp
  next
    case PreferLocal
    then show ?thesis by (simp only:) code_simp
  next
    case PreferHub
    then show ?thesis by (simp only:) code_simp
  qed
  then show ?thesis by (simp add: parse_routing_preference_def pad)
qed

end
