(* ===== verification/Cache_Interface.thy ===== *)
theory Cache_Interface
  imports Loom_Prelude
begin

text \<open>
  What the callers of a TTL cache rely on, whether it is the daemon's bounded
  \<open>ResponseCache\<close> or the \<open>MemoryStore\<close> of \<^verbatim>\<open>internal/cache\<close>.  \<open>view t s k\<close> is the value a
  lookup of \<open>k\<close> at time \<open>t\<close> would return.  A cache may forget (expiry, eviction), so the
  laws bound what is visible from above: a lookup makes nothing new visible, and a store
  makes only its own pair visible.
\<close>

locale ttl_cache =
  fixes inv :: "'s \<Rightarrow> bool"
    and view :: "time \<Rightarrow> 's \<Rightarrow> string \<Rightarrow> 'v option"
    and get :: "time \<Rightarrow> string \<Rightarrow> 's \<Rightarrow> 'v option \<times> 's"
    and put :: "time \<Rightarrow> string \<Rightarrow> 'v \<Rightarrow> 'x \<Rightarrow> 's \<Rightarrow> 's option"
  assumes get_result: "inv s \<Longrightarrow> fst (get now k s) = view now s k"
    and get_inv: "inv s \<Longrightarrow> inv (snd (get now k s))"
    and get_view: "inv s \<Longrightarrow> view t (snd (get now k s)) k' = Some v \<Longrightarrow> view t s k' = Some v"
    and put_total: "inv s \<Longrightarrow> \<exists>s'. put now k v x s = Some s'"
    and put_inv: "inv s \<Longrightarrow> put now k v x s = Some s' \<Longrightarrow> inv s'"
    and put_view: "inv s \<Longrightarrow> put now k v x s = Some s' \<Longrightarrow> view t s' k' = Some w \<Longrightarrow>
       (if k' = k then w = v else view t s k' = Some w)"
begin

text \<open>
  Provenance.  \<open>R k v\<close> says that \<open>v\<close> is a legitimate answer for \<open>k\<close>; a cache is sourced
  when everything it could ever return is one.
\<close>

definition sourced :: "(string \<Rightarrow> 'v \<Rightarrow> bool) \<Rightarrow> 's \<Rightarrow> bool" where
  "sourced R s \<longleftrightarrow> (\<forall>t k v. view t s k = Some v \<longrightarrow> R k v)"

lemma hit_sourced: "inv s \<Longrightarrow> sourced R s \<Longrightarrow> get now k s = (Some v, s') \<Longrightarrow> R k v"
  using get_result [of s now k] by (simp add: sourced_def)

lemma get_sourced: "inv s \<Longrightarrow> sourced R s \<Longrightarrow> sourced R (snd (get now k s))"
  unfolding sourced_def by (blast dest: get_view)

lemma put_sourced: "inv s \<Longrightarrow> sourced R s \<Longrightarrow> R k v \<Longrightarrow> put now k v x s = Some s' \<Longrightarrow> sourced R s'"
  unfolding sourced_def by (metis put_view)

end

end
