(* ===== verification/Response_Cache.thy ===== *)
theory Response_Cache
  imports Cache_Interface
begin

text \<open>
  The daemon's response cache, \<^verbatim>\<open>internal/daemon/cache.go\<close>: a TTL cache of tool
  responses with a byte budget, LRU eviction and a reverse index by server.  The
  doubly linked list \<open>order\<close> is a list of elements, front first; an element is a
  number (its address) and the key it carries, and \<open>orderMap\<close> maps a key to the
  address of its element, as the code's \<open>map[string]*list.Element\<close> does.  \<open>time.Now\<close>
  is an argument of each operation.
\<close>

section \<open>State\<close>

record cache_entry =
  ce_Key :: string
  ce_Response :: string
  ce_Size :: int
  ce_Server :: string
  ce_Tool :: string
  ce_CreatedAt :: time
  ce_ExpiresAt :: time
  ce_Hits :: int

record response_cache =
  rc_entries :: "(string \<times> cache_entry) list"
  rc_order :: "(nat \<times> string) list"
  rc_orderMap :: "string \<Rightarrow> nat option"
  rc_serverIndex :: "string \<Rightarrow> string list option"
  rc_maxSize :: int
  rc_curSize :: int
  rc_defaultTTL :: duration
  rc_toolTTLs :: "string \<Rightarrow> duration option"
  rc_cacheable :: "string \<Rightarrow> bool"
  rc_nextElem :: nat

record cache_config =
  cfg_Enabled :: bool
  cfg_DefaultTTLSeconds :: int
  cfg_MaxSizeMB :: int
  cfg_ToolTTLs :: "(string \<times> int) list"

record cache_stats =
  st_Entries :: nat
  st_SizeBytes :: int
  st_MaxBytes :: int
  st_TotalHits :: int

section \<open>Configuration\<close>

definition default_tool_ttls :: "(string \<times> int) list" where
  "default_tool_ttls =
    [(''prometheus__list_labels'', 60),
     (''prometheus__label_values'', 60),
     (''prometheus__list_targets'', 60),
     (''prometheus__list_alerts'', 30),
     (''prometheus__list_rules'', 60),
     (''prometheus__runtime_info'', 300),
     (''github__list_repos'', 300),
     (''github__get_repo'', 300),
     (''github__list_issues'', 60),
     (''github__get_issue'', 60),
     (''github__list_prs'', 60),
     (''github__get_pr'', 60),
     (''github__list_commits'', 60),
     (''github__get_file_contents'', 300),
     (''github__search_repos'', 60),
     (''github__search_code'', 60),
     (''loki__query'', 30),
     (''loki__query_range'', 30),
     (''loki__labels'', 60),
     (''loki__label_values'', 60),
     (''loki__series'', 30),
     (''loki__stats'', 60),
     (''loki__index_stats'', 60),
     (''loki__detected_fields'', 30),
     (''loki__ready'', 60),
     (''docker__version'', 300),
     (''docker__info'', 60),
     (''docker__ps'', 15),
     (''docker__images'', 60),
     (''docker__inspect'', 30),
     (''grafana__search'', 60),
     (''grafana__get_dashboard'', 60),
     (''grafana__list_datasources'', 300),
     (''grafana__get_datasource'', 300),
     (''grafana__list_alerts'', 30),
     (''grafana__list_folders'', 300)]"

definition default_cache_config :: cache_config where
  "default_cache_config =
    \<lparr>cfg_Enabled = False, cfg_DefaultTTLSeconds = 60, cfg_MaxSizeMB = 100,
     cfg_ToolTTLs = default_tool_ttls\<rparr>"

definition cacheable_tools :: "string \<Rightarrow> bool" where
  "cacheable_tools tool \<longleftrightarrow> map_of default_tool_ttls tool \<noteq> None"

text \<open>The table of TTLs: the configured ones first, a default only where none is set.\<close>

definition tool_ttl_table :: "(string \<times> int) list \<Rightarrow> string \<Rightarrow> duration option" where
  "tool_ttl_table configured tool =
     (case map_of configured tool of
        Some seconds \<Rightarrow> Some (wrap64 (seconds * second))
      | None \<Rightarrow>
          (case map_of default_tool_ttls tool of
             Some seconds \<Rightarrow> Some (wrap64 (seconds * second))
           | None \<Rightarrow> None))"

definition new_response_cache :: "cache_config \<Rightarrow> response_cache option" where
  "new_response_cache cfg =
     (if \<not> cfg_Enabled cfg then None
      else
        let ttl0 = wrap64 (cfg_DefaultTTLSeconds cfg * second);
            ttl = (if ttl0 \<le> 0 then 60 * second else ttl0);
            max0 = wrap64 (wrap64 (cfg_MaxSizeMB cfg * 1024) * 1024);
            maxs = (if max0 \<le> 0 then 100 * 1024 * 1024 else max0)
        in Some \<lparr>rc_entries = [], rc_order = [], rc_orderMap = (\<lambda>_. None),
             rc_serverIndex = (\<lambda>_. None), rc_maxSize = maxs, rc_curSize = 0,
             rc_defaultTTL = ttl, rc_toolTTLs = tool_ttl_table (cfg_ToolTTLs cfg),
             rc_cacheable = cacheable_tools, rc_nextElem = 0\<rparr>)"

section \<open>Operations\<close>

definition is_cacheable :: "string \<Rightarrow> string \<Rightarrow> response_cache \<Rightarrow> bool" where
  "is_cacheable server tool c = rc_cacheable c (server @ ''__'' @ tool)"

text \<open>\<open>hex_sha256\<close> stands for the hex encoding of the SHA-256 digest of the bytes written.\<close>

definition cache_key :: "(string \<Rightarrow> string) \<Rightarrow> string \<Rightarrow> string \<Rightarrow> string \<Rightarrow> string" where
  "cache_key hex_sha256 server tool params =
     hex_sha256 (server @ ''__'' @ tool @ ''__'' @ params)"

definition index_remove :: "string \<Rightarrow> string \<Rightarrow> (string \<Rightarrow> string list option) \<Rightarrow> (string \<Rightarrow> string list option)" where
  "index_remove server key idx =
     (if server \<noteq> '''' then
        (case idx server of
           None \<Rightarrow> idx
         | Some keys \<Rightarrow>
             (let keys' = removeAll key keys
              in if keys' = [] then idx(server := None) else idx(server \<mapsto> keys')))
      else idx)"

definition index_add :: "string \<Rightarrow> string \<Rightarrow> (string \<Rightarrow> string list option) \<Rightarrow> (string \<Rightarrow> string list option)" where
  "index_add server key idx =
     (if server \<noteq> '''' then
        (case idx server of
           None \<Rightarrow> idx(server \<mapsto> [key])
         | Some keys \<Rightarrow> idx(server \<mapsto> List.insert key keys))
      else idx)"

definition remove_entry_locked :: "string \<Rightarrow> response_cache \<Rightarrow> response_cache" where
  "remove_entry_locked key c =
     (case map_of (rc_entries c) key of
        None \<Rightarrow> c
      | Some entry \<Rightarrow>
          (let c1 = c\<lparr>rc_entries := AList.delete key (rc_entries c),
                      rc_curSize := rc_curSize c - ce_Size entry\<rparr>;
               c2 = (case rc_orderMap c1 key of
                       None \<Rightarrow> c1
                     | Some elem \<Rightarrow>
                         c1\<lparr>rc_order := filter (\<lambda>(i, _). i \<noteq> elem) (rc_order c1),
                            rc_orderMap := (rc_orderMap c1)(key := None)\<rparr>)
           in c2\<lparr>rc_serverIndex := index_remove (ce_Server entry) key (rc_serverIndex c2)\<rparr>))"

definition evict_oldest_locked :: "response_cache \<Rightarrow> response_cache" where
  "evict_oldest_locked c =
     (if rc_order c = [] then c else remove_entry_locked (snd (last (rc_order c))) c)"

text \<open>
  The eviction loop of \<open>Set\<close>.  It stops because every round shortens \<open>order\<close>, which
  holds only when the key at the back is in \<open>entries\<close>; otherwise the round changes
  nothing.  So the loop is a partial function, and its termination is a theorem about
  the reachable caches.
\<close>

partial_function (option) evict_until :: "int \<Rightarrow> response_cache \<Rightarrow> response_cache option" where
  "evict_until sz c =
     (if rc_curSize c + sz > rc_maxSize c \<and> rc_order c \<noteq> []
      then evict_until sz (evict_oldest_locked c)
      else Some c)"

declare evict_until.simps [code]

definition ttl_for :: "string \<Rightarrow> string \<Rightarrow> response_cache \<Rightarrow> duration" where
  "ttl_for server tool c =
     (case rc_toolTTLs c (server @ ''__'' @ tool) of Some t \<Rightarrow> t | None \<Rightarrow> rc_defaultTTL c)"

definition new_entry :: "time \<Rightarrow> string \<Rightarrow> string \<Rightarrow> string \<Rightarrow> string \<Rightarrow> response_cache \<Rightarrow> cache_entry" where
  "new_entry now key response server tool c =
     \<lparr>ce_Key = key, ce_Response = response, ce_Size = int (length response),
      ce_Server = server, ce_Tool = tool, ce_CreatedAt = now,
      ce_ExpiresAt = now + ttl_for server tool c, ce_Hits = 0\<rparr>"

definition add_entry :: "cache_entry \<Rightarrow> response_cache \<Rightarrow> response_cache" where
  "add_entry entry c =
     c\<lparr>rc_entries := AList.update (ce_Key entry) entry (rc_entries c),
       rc_curSize := rc_curSize c + ce_Size entry,
       rc_order := (rc_nextElem c, ce_Key entry) # rc_order c,
       rc_orderMap := (rc_orderMap c)(ce_Key entry \<mapsto> rc_nextElem c),
       rc_serverIndex := index_add (ce_Server entry) (ce_Key entry) (rc_serverIndex c),
       rc_nextElem := Suc (rc_nextElem c)\<rparr>"

definition cache_set :: "time \<Rightarrow> string \<Rightarrow> string \<Rightarrow> string \<Rightarrow> string \<Rightarrow> response_cache \<Rightarrow> response_cache option" where
  "cache_set now key response server tool c =
     (let entry = new_entry now key response server tool c;
          c1 = (case map_of (rc_entries c) key of
                  None \<Rightarrow> c | Some _ \<Rightarrow> remove_entry_locked key c)
      in case evict_until (ce_Size entry) c1 of
           None \<Rightarrow> None
         | Some c2 \<Rightarrow> Some (add_entry entry c2))"

definition move_to_front :: "nat \<Rightarrow> (nat \<times> string) list \<Rightarrow> (nat \<times> string) list" where
  "move_to_front elem xs =
     filter (\<lambda>(i, _). i = elem) xs @ filter (\<lambda>(i, _). i \<noteq> elem) xs"

definition cache_get :: "time \<Rightarrow> string \<Rightarrow> response_cache \<Rightarrow> string option \<times> response_cache" where
  "cache_get now key c =
     (case map_of (rc_entries c) key of
        None \<Rightarrow> (None, c)
      | Some entry \<Rightarrow>
          if now > ce_ExpiresAt entry then (None, remove_entry_locked key c)
          else
            (let c1 = (case rc_orderMap c key of
                         None \<Rightarrow> c
                       | Some elem \<Rightarrow> c\<lparr>rc_order := move_to_front elem (rc_order c)\<rparr>)
             in (Some (ce_Response entry),
                 c1\<lparr>rc_entries := AList.update key (entry\<lparr>ce_Hits := ce_Hits entry + 1\<rparr>)
                                    (rc_entries c1)\<rparr>)))"

definition cache_clear :: "response_cache \<Rightarrow> response_cache" where
  "cache_clear c =
     c\<lparr>rc_entries := [], rc_order := [], rc_orderMap := (\<lambda>_. None),
       rc_serverIndex := (\<lambda>_. None), rc_curSize := 0\<rparr>"

definition clear_server :: "string \<Rightarrow> response_cache \<Rightarrow> response_cache" where
  "clear_server server c =
     (case rc_serverIndex c server of
        None \<Rightarrow> c
      | Some keys \<Rightarrow>
          (let c1 = fold remove_entry_locked keys c
           in c1\<lparr>rc_serverIndex := (rc_serverIndex c1)(server := None)\<rparr>))"

definition get_stats :: "response_cache \<Rightarrow> cache_stats" where
  "get_stats c =
     \<lparr>st_Entries = length (rc_entries c), st_SizeBytes = rc_curSize c,
      st_MaxBytes = rc_maxSize c,
      st_TotalHits = (\<Sum>(_, e) \<leftarrow> rc_entries c. ce_Hits e)\<rparr>"

definition prune_visit :: "time \<Rightarrow> string \<times> cache_entry \<Rightarrow> response_cache \<times> nat \<Rightarrow> response_cache \<times> nat" where
  "prune_visit now ke acc =
     (case (ke, acc) of
        ((key, entry), (c, pruned)) \<Rightarrow>
          if now > ce_ExpiresAt entry then (remove_entry_locked key c, Suc pruned)
          else (c, pruned))"

definition cache_prune :: "time \<Rightarrow> response_cache \<Rightarrow> response_cache \<times> nat" where
  "cache_prune now c = fold (prune_visit now) (rc_entries c) (c, 0)"

section \<open>Representation invariant\<close>

text \<open>
  The three structures agree: an element of \<open>order\<close> for every entry and no other, the
  reverse index holds exactly the keys of each named server, and \<open>curSize\<close> is the sum
  of the sizes.
\<close>

definition index_ok :: "(string \<rightharpoonup> cache_entry) \<Rightarrow> (string \<Rightarrow> string list option) \<Rightarrow> bool" where
  "index_ok m idx \<longleftrightarrow>
     (\<forall>s ks. idx s = Some ks \<longrightarrow> s \<noteq> '''' \<and> ks \<noteq> [] \<and> distinct ks) \<and>
     (\<forall>s k. s \<noteq> '''' \<longrightarrow>
        (\<exists>ks. idx s = Some ks \<and> k \<in> set ks) \<longleftrightarrow> (\<exists>e. m k = Some e \<and> ce_Server e = s))"

definition order_ok :: "(string \<rightharpoonup> cache_entry) \<Rightarrow> (nat \<times> string) list \<Rightarrow> (string \<Rightarrow> nat option) \<Rightarrow> nat \<Rightarrow> bool" where
  "order_ok m ord omap next_id \<longleftrightarrow>
     distinct (map fst ord) \<and>
     (\<forall>(i, k) \<in> set ord. i < next_id) \<and>
     (\<forall>k i. omap k = Some i \<longleftrightarrow> (i, k) \<in> set ord) \<and>
     (\<forall>k. m k = None \<longleftrightarrow> omap k = None)"

definition cache_inv :: "response_cache \<Rightarrow> bool" where
  "cache_inv c \<longleftrightarrow>
     alist_ok (rc_entries c) \<and>
     (\<forall>k e. map_of (rc_entries c) k = Some e \<longrightarrow>
        ce_Key e = k \<and> ce_Size e = int (length (ce_Response e))) \<and>
     rc_curSize c = (\<Sum>(_, e) \<leftarrow> rc_entries c. ce_Size e) \<and>
     order_ok (map_of (rc_entries c)) (rc_order c) (rc_orderMap c) (rc_nextElem c) \<and>
     index_ok (map_of (rc_entries c)) (rc_serverIndex c) \<and>
     0 < rc_maxSize c"

section \<open>The invariant is kept\<close>

subsection \<open>Reverse index and order list\<close>

lemma index_ok_empty [simp]: "index_ok (\<lambda>_. None) (\<lambda>_. None)"
  by (simp add: index_ok_def)

lemma index_ok_remove:
  assumes "index_ok m idx" and "m k = Some e"
  shows "index_ok (m(k := None)) (index_remove (ce_Server e) k idx)"
proof (cases "ce_Server e = ''''")
  case True
  with assms show ?thesis by (auto simp: index_ok_def index_remove_def)
next
  case False
  with assms obtain ks where ks: "idx (ce_Server e) = Some ks" "k \<in> set ks"
    unfolding index_ok_def by blast
  have others: "(\<exists>e'. (m(k := None)) k' = Some e' \<and> ce_Server e' = s) \<longleftrightarrow>
      k' \<noteq> k \<and> (\<exists>e'. m k' = Some e' \<and> ce_Server e' = s)" for k' s
    by auto
  have idx': "index_remove (ce_Server e) k idx s =
     (if s = ce_Server e then (if removeAll k ks = [] then None else Some (removeAll k ks)) else idx s)" for s
    using False ks by (simp add: index_remove_def Let_def)
  have key: "(\<exists>ks'. index_remove (ce_Server e) k idx s = Some ks' \<and> k' \<in> set ks') \<longleftrightarrow>
      k' \<noteq> k \<and> (\<exists>ks'. idx s = Some ks' \<and> k' \<in> set ks')" if "s \<noteq> ''''" for s :: string and k'
  proof (cases "s = ce_Server e")
    case True
    have "set (removeAll k ks) = set ks - {k}" by simp
    then show ?thesis using ks True unfolding idx'
      by (cases "removeAll k ks = []") auto
  next
    case s: False
    have "\<not> (\<exists>ks'. idx s = Some ks' \<and> k \<in> set ks')"
      using assms that s unfolding index_ok_def by auto
    then show ?thesis using s by (auto simp: idx')
  qed
  show ?thesis
    unfolding index_ok_def
  proof (intro conjI allI impI)
    fix s :: string and ks' assume "index_remove (ce_Server e) k idx s = Some ks'"
    then have "s \<noteq> '''' \<and> ks' \<noteq> [] \<and> distinct ks'"
      using assms ks False unfolding index_ok_def idx'
      by (cases "s = ce_Server e") (auto simp: distinct_removeAll split: if_splits)
    then show "s \<noteq> ''''" "ks' \<noteq> []" "distinct ks'" by auto
  next
    fix s :: string and k' assume s: "s \<noteq> ''''"
    show "(\<exists>ks'. index_remove (ce_Server e) k idx s = Some ks' \<and> k' \<in> set ks') \<longleftrightarrow>
        (\<exists>e'. (m(k := None)) k' = Some e' \<and> ce_Server e' = s)"
      unfolding key [OF s] others using assms(1) s unfolding index_ok_def by simp
  qed
qed

lemma index_ok_add:
  assumes "index_ok m idx" and "m k = None"
  shows "index_ok (m(k \<mapsto> e)) (index_add (ce_Server e) k idx)"
proof (cases "ce_Server e = ''''")
  case True
  with assms show ?thesis by (auto simp: index_ok_def index_add_def)
next
  case False
  have idx': "index_add (ce_Server e) k idx s =
     (if s = ce_Server e then Some (List.insert k (case idx s of None \<Rightarrow> [] | Some ks \<Rightarrow> ks)) else idx s)" for s
    using False by (auto simp: index_add_def split: option.splits)
  have new: "(\<exists>e'. (m(k \<mapsto> e)) k' = Some e' \<and> ce_Server e' = s) \<longleftrightarrow>
      k' = k \<and> s = ce_Server e \<or> (\<exists>e'. m k' = Some e' \<and> ce_Server e' = s)" for k' s
    using assms(2) by auto
  show ?thesis
    unfolding index_ok_def
  proof (intro conjI allI impI)
    fix s :: string and ks' assume *: "index_add (ce_Server e) k idx s = Some ks'"
    then show "s \<noteq> ''''" "ks' \<noteq> []" "distinct ks'"
      using assms(1) False unfolding index_ok_def
      by (auto simp: idx' List.insert_def split: if_splits option.splits)
  next
    fix s :: string and k' assume s: "s \<noteq> ''''"
    have "(\<exists>ks'. index_add (ce_Server e) k idx s = Some ks' \<and> k' \<in> set ks') \<longleftrightarrow>
        k' = k \<and> s = ce_Server e \<or> (\<exists>ks'. idx s = Some ks' \<and> k' \<in> set ks')"
      by (auto simp: idx' split: option.splits)
    also have "\<dots> \<longleftrightarrow> k' = k \<and> s = ce_Server e \<or> (\<exists>e'. m k' = Some e' \<and> ce_Server e' = s)"
      using assms(1) s unfolding index_ok_def by simp
    finally show "(\<exists>ks'. index_add (ce_Server e) k idx s = Some ks' \<and> k' \<in> set ks') \<longleftrightarrow>
        (\<exists>e'. (m(k \<mapsto> e)) k' = Some e' \<and> ce_Server e' = s)"
      unfolding new .
  qed
qed

lemma index_ok_same:
  assumes "m k = Some e" and "ce_Server e' = ce_Server e"
  shows "index_ok (m(k \<mapsto> e')) idx \<longleftrightarrow> index_ok m idx"
proof -
  have "(\<exists>d. (m(k \<mapsto> e')) k' = Some d \<and> ce_Server d = s) \<longleftrightarrow> (\<exists>d. m k' = Some d \<and> ce_Server d = s)" for k' s
    using assms by auto
  then show ?thesis unfolding index_ok_def by simp
qed

lemma order_ok_empty [simp]: "order_ok (\<lambda>_. None) [] (\<lambda>_. None) n"
  by (simp add: order_ok_def)

lemma order_ok_remove:
  assumes "order_ok m ord omap n" and "omap k = Some i"
  shows "order_ok (m(k := None)) (filter (\<lambda>(j, _). j \<noteq> i) ord) (omap(k := None)) n"
    and "filter (\<lambda>(j, _). j \<noteq> i) ord = filter (\<lambda>(_, k'). k' \<noteq> k) ord"
proof -
  from assms have dist: "distinct (map fst ord)" and om: "\<And>k i. omap k = Some i \<longleftrightarrow> (i, k) \<in> set ord"
    and below: "\<forall>(j, k) \<in> set ord. j < n" and dom: "\<And>k. m k = None \<longleftrightarrow> omap k = None"
    by (auto simp: order_ok_def)
  have eq: "j = i \<longleftrightarrow> k' = k" if "(j, k') \<in> set ord" for j k'
    using that om [of k j] om [of k i] assms(2) dist by (metis eq_key_imp_eq_value option.inject)
  then show filt: "filter (\<lambda>(j, _). j \<noteq> i) ord = filter (\<lambda>(_, k'). k' \<noteq> k) ord"
    by (intro filter_cong) auto
  have "distinct (map fst (filter (\<lambda>(_, k'). k' \<noteq> k) ord))"
    using dist by (rule distinct_map_filter)
  moreover have "(if k' = k then None else omap k') = Some j \<longleftrightarrow>
      (j, k') \<in> set ord \<and> k' \<noteq> k" for j k'
    using om by auto
  ultimately show "order_ok (m(k := None)) (filter (\<lambda>(j, _). j \<noteq> i) ord) (omap(k := None)) n"
    unfolding filt order_ok_def using below dom by auto
qed

lemma order_ok_add:
  assumes "order_ok m ord omap n" and "m k = None"
  shows "order_ok (m(k \<mapsto> e)) ((n, k) # ord) (omap(k \<mapsto> n)) (Suc n)"
proof -
  from assms have om: "\<And>k i. omap k = Some i \<longleftrightarrow> (i, k) \<in> set ord"
    and below: "\<And>j k. (j, k) \<in> set ord \<Longrightarrow> j < n"
    and none: "omap k = None"
    by (auto simp: order_ok_def)
  have "n \<notin> fst ` set ord" using below by fastforce
  moreover have "(n, k') \<notin> set ord" "(j, k) \<notin> set ord" for k' j
    using below om [of k j] none by auto
  ultimately show ?thesis
    using assms unfolding order_ok_def by (auto simp: less_Suc_eq)
qed

lemma order_ok_permute:
  assumes "order_ok m ord omap n" and "set ord' = set ord" and "distinct (map fst ord')"
  shows "order_ok m ord' omap n"
  using assms by (simp add: order_ok_def)

subsection \<open>Removing and evicting entries\<close>

abbreviation rc_lookup :: "response_cache \<Rightarrow> string \<Rightarrow> cache_entry option" where
  "rc_lookup c \<equiv> map_of (rc_entries c)"

definition order_keys :: "response_cache \<Rightarrow> string list" where
  "order_keys c = map snd (rc_order c)"

lemma cache_inv_order: "cache_inv c \<Longrightarrow> order_ok (rc_lookup c) (rc_order c) (rc_orderMap c) (rc_nextElem c)"
  and cache_inv_index: "cache_inv c \<Longrightarrow> index_ok (rc_lookup c) (rc_serverIndex c)"
  and cache_inv_alist: "cache_inv c \<Longrightarrow> alist_ok (rc_entries c)"
  and cache_inv_size: "cache_inv c \<Longrightarrow> rc_curSize c = (\<Sum>(_, e) \<leftarrow> rc_entries c. ce_Size e)"
  and cache_inv_entry: "cache_inv c \<Longrightarrow> rc_lookup c k = Some e \<Longrightarrow> ce_Key e = k \<and> ce_Size e = int (length (ce_Response e))"
  and cache_inv_max: "cache_inv c \<Longrightarrow> 0 < rc_maxSize c"
  unfolding cache_inv_def by blast+

lemma cache_inv_lookup_order: "cache_inv c \<Longrightarrow> rc_lookup c k = None \<longleftrightarrow> k \<notin> set (order_keys c)"
proof -
  assume "cache_inv c"
  then have om: "\<And>k i. rc_orderMap c k = Some i \<longleftrightarrow> (i, k) \<in> set (rc_order c)"
    and dom: "\<And>k. rc_lookup c k = None \<longleftrightarrow> rc_orderMap c k = None"
    using cache_inv_order unfolding order_ok_def by blast+
  have "(k \<in> set (order_keys c)) \<longleftrightarrow> (\<exists>i. (i, k) \<in> set (rc_order c))"
    by (force simp: order_keys_def)
  with om dom show ?thesis by (metis not_None_eq)
qed

lemma cache_inv_elem: "cache_inv c \<Longrightarrow> rc_lookup c k = Some e \<Longrightarrow> \<exists>i. rc_orderMap c k = Some i"
  using cache_inv_order unfolding order_ok_def by (metis not_None_eq)

lemma order_keys_distinct: "cache_inv c \<Longrightarrow> distinct (order_keys c)"
proof -
  assume "cache_inv c"
  then have dist: "distinct (map fst (rc_order c))"
    and om: "\<And>k i. rc_orderMap c k = Some i \<longleftrightarrow> (i, k) \<in> set (rc_order c)"
    using cache_inv_order unfolding order_ok_def by blast+
  have "inj_on snd (set (rc_order c))"
    by (rule inj_onI) (metis om option.inject prod.collapse)
  moreover have "distinct (rc_order c)" using dist by (simp add: distinct_map)
  ultimately show ?thesis by (simp add: order_keys_def distinct_map)
qed

lemma remove_entry_absent [simp]: "rc_lookup c k = None \<Longrightarrow> remove_entry_locked k c = c"
  by (simp add: remove_entry_locked_def)

lemma remove_entry_frame [simp]:
  "rc_maxSize (remove_entry_locked k c) = rc_maxSize c"
  "rc_toolTTLs (remove_entry_locked k c) = rc_toolTTLs c"
  "rc_defaultTTL (remove_entry_locked k c) = rc_defaultTTL c"
  "rc_cacheable (remove_entry_locked k c) = rc_cacheable c"
  "rc_nextElem (remove_entry_locked k c) = rc_nextElem c"
  "rc_entries (remove_entry_locked k c) = AList.delete k (rc_entries c)"
  by (auto simp: remove_entry_locked_def Let_def delete_idem map_of_eq_None_iff split: option.splits)

lemma remove_entry_present:
  assumes "cache_inv c" and "rc_lookup c k = Some e"
  shows "cache_inv (remove_entry_locked k c)"
    and "rc_order (remove_entry_locked k c) = filter (\<lambda>(_, k'). k' \<noteq> k) (rc_order c)"
    and "rc_curSize (remove_entry_locked k c) = rc_curSize c - ce_Size e"
proof -
  obtain i where i: "rc_orderMap c k = Some i" using cache_inv_elem [OF assms] by blast
  note ord = order_ok_remove [OF cache_inv_order [OF assms(1)] i]
  have remove: "remove_entry_locked k c =
     c\<lparr>rc_entries := AList.delete k (rc_entries c), rc_curSize := rc_curSize c - ce_Size e,
       rc_order := filter (\<lambda>(j, _). j \<noteq> i) (rc_order c), rc_orderMap := (rc_orderMap c)(k := None),
       rc_serverIndex := index_remove (ce_Server e) k (rc_serverIndex c)\<rparr>"
    using assms(2) i by (simp add: remove_entry_locked_def Let_def)
  then show "rc_order (remove_entry_locked k c) = filter (\<lambda>(_, k'). k' \<noteq> k) (rc_order c)"
    using ord(2) by simp
  from remove show "rc_curSize (remove_entry_locked k c) = rc_curSize c - ce_Size e" by simp
  have "order_ok ((rc_lookup c)(k := None)) (filter (\<lambda>(j, _). j \<noteq> i) (rc_order c))
      ((rc_orderMap c)(k := None)) (rc_nextElem c)" by (rule ord(1))
  moreover have "index_ok ((rc_lookup c)(k := None)) (index_remove (ce_Server e) k (rc_serverIndex c))"
    using cache_inv_index [OF assms(1)] assms(2) by (rule index_ok_remove)
  ultimately show "cache_inv (remove_entry_locked k c)"
    unfolding remove cache_inv_def
    using assms sum_list_delete [OF cache_inv_alist [OF assms(1)] assms(2), of ce_Size]
    by (simp add: cache_inv_def)
qed

lemma remove_entry_inv [loom_inv]: "cache_inv c \<Longrightarrow> cache_inv (remove_entry_locked k c)"
  by (cases "rc_lookup c k") (auto simp: remove_entry_present)

lemma remove_entry_order_keys:
  "cache_inv c \<Longrightarrow> order_keys (remove_entry_locked k c) = filter (\<lambda>k'. k' \<noteq> k) (order_keys c)"
proof (cases "rc_lookup c k")
  case None
  moreover assume "cache_inv c"
  ultimately have "k \<notin> set (order_keys c)" by (simp add: cache_inv_lookup_order)
  then show ?thesis using None by (auto intro: filter_True [symmetric])
next
  case (Some e)
  moreover assume "cache_inv c"
  ultimately show ?thesis
    by (simp add: order_keys_def remove_entry_present(2) map_snd_filter)
qed

lemma evict_oldest_step:
  assumes "cache_inv c" and "rc_order c \<noteq> []"
  shows "cache_inv (evict_oldest_locked c)"
    and "order_keys (evict_oldest_locked c) = butlast (order_keys c)"
    and "rc_lookup (evict_oldest_locked c) = (rc_lookup c)(last (order_keys c) := None)"
proof -
  have last: "snd (last (rc_order c)) = last (order_keys c)"
    using assms(2) by (simp add: order_keys_def last_map)
  have ne: "order_keys c \<noteq> []" using assms(2) by (simp add: order_keys_def)
  have "order_keys c = butlast (order_keys c) @ [last (order_keys c)]" using ne by simp
  then have "filter (\<lambda>k'. k' \<noteq> last (order_keys c)) (order_keys c) = butlast (order_keys c)"
    using order_keys_distinct [OF assms(1)] by (metis filter_not_last)
  then show "order_keys (evict_oldest_locked c) = butlast (order_keys c)"
    using assms by (simp add: evict_oldest_locked_def last remove_entry_order_keys)
  show "cache_inv (evict_oldest_locked c)"
    using assms by (simp add: evict_oldest_locked_def remove_entry_inv)
  show "rc_lookup (evict_oldest_locked c) = (rc_lookup c)(last (order_keys c) := None)"
    using assms by (simp add: evict_oldest_locked_def last)
qed

lemma evict_oldest_frame [simp]:
  "rc_maxSize (evict_oldest_locked c) = rc_maxSize c"
  "rc_toolTTLs (evict_oldest_locked c) = rc_toolTTLs c"
  "rc_defaultTTL (evict_oldest_locked c) = rc_defaultTTL c"
  "rc_cacheable (evict_oldest_locked c) = rc_cacheable c"
  by (simp_all add: evict_oldest_locked_def)

lemma no_order_no_entries:
  assumes "cache_inv c" and "rc_order c = []"
  shows "rc_entries c = []"
proof (rule ccontr)
  assume "rc_entries c \<noteq> []"
  then obtain k e es where "rc_entries c = (k, e) # es" by (metis neq_Nil_conv prod.collapse)
  then have "rc_lookup c k \<noteq> None" by simp
  then show False using cache_inv_lookup_order [OF assms(1), of k] assms(2) by (simp add: order_keys_def)
qed

subsection \<open>The eviction loop\<close>

definition stored_bytes :: "response_cache \<Rightarrow> string list \<Rightarrow> int" where
  "stored_bytes c ks = (\<Sum>k \<leftarrow> ks. ce_Size (the (rc_lookup c k)))"

lemma cur_size_is_stored:
  assumes "cache_inv c"
  shows "rc_curSize c = stored_bytes c (order_keys c)"
proof -
  have keys: "set (order_keys c) = fst ` set (rc_entries c)"
    using cache_inv_lookup_order [OF assms] by (metis map_of_eq_None_iff set_eqI)
  have dist: "distinct (map fst (rc_entries c))"
    using cache_inv_alist [OF assms] by (simp add: alist_ok_def)
  have "(\<Sum>(_, e) \<leftarrow> rc_entries c. ce_Size e)
      = (\<Sum>k \<leftarrow> map fst (rc_entries c). ce_Size (the (rc_lookup c k)))"
    unfolding map_map comp_def
    by (intro arg_cong [where f = sum_list] map_cong) (auto simp: dist)
  also have "\<dots> = (\<Sum>k \<in> fst ` set (rc_entries c). ce_Size (the (rc_lookup c k)))"
    using dist by (simp only: sum_list_distinct_conv_sum_set set_map)
  also have "\<dots> = stored_bytes c (order_keys c)"
    using order_keys_distinct [OF assms]
    by (simp add: stored_bytes_def sum_list_distinct_conv_sum_set keys)
  finally show ?thesis using cache_inv_size [OF assms] by simp
qed

lemma ce_Size_nonneg: "cache_inv c \<Longrightarrow> rc_lookup c k = Some e \<Longrightarrow> 0 \<le> ce_Size e"
  using cache_inv_entry by force

lemma cur_size_nonneg: "cache_inv c \<Longrightarrow> 0 \<le> rc_curSize c"
proof -
  assume inv: "cache_inv c"
  have "0 \<le> ce_Size (the (rc_lookup c k))" if "k \<in> set (order_keys c)" for k
    using that cache_inv_lookup_order [OF inv, of k] ce_Size_nonneg [OF inv, of k] by auto
  then show ?thesis
    unfolding cur_size_is_stored [OF inv] stored_bytes_def by (intro sum_list_nonneg) auto
qed

text \<open>
  What the loop does to a cache that satisfies the invariant: it returns, and it keeps
  the longest prefix of the LRU order that leaves room for \<open>sz\<close> bytes.
\<close>

definition evicted_to :: "int \<Rightarrow> nat \<Rightarrow> response_cache \<Rightarrow> response_cache \<Rightarrow> bool" where
  "evicted_to sz n c c' \<longleftrightarrow>
     cache_inv c' \<and> n \<le> length (order_keys c) \<and> order_keys c' = take n (order_keys c) \<and>
     (\<forall>k. rc_lookup c' k = (if k \<in> set (take n (order_keys c)) then rc_lookup c k else None)) \<and>
     rc_maxSize c' = rc_maxSize c \<and> rc_toolTTLs c' = rc_toolTTLs c \<and>
     rc_defaultTTL c' = rc_defaultTTL c \<and> rc_cacheable c' = rc_cacheable c \<and>
     (n = 0 \<or> stored_bytes c (take n (order_keys c)) + sz \<le> rc_maxSize c) \<and>
     (\<forall>m. n < m \<and> m \<le> length (order_keys c) \<longrightarrow>
        rc_maxSize c < stored_bytes c (take m (order_keys c)) + sz)"

lemma evicted_to_refl:
  assumes "cache_inv c" and "rc_curSize c + sz \<le> rc_maxSize c \<or> rc_order c = []"
  shows "evicted_to sz (length (order_keys c)) c c"
  using assms cache_inv_lookup_order [OF assms(1)] cur_size_is_stored [OF assms(1)]
  by (auto simp: evicted_to_def order_keys_def)

lemma stored_bytes_cong:
  "(\<And>k. k \<in> set ks \<Longrightarrow> rc_lookup c k = rc_lookup d k) \<Longrightarrow> stored_bytes c ks = stored_bytes d ks"
  unfolding stored_bytes_def by (intro arg_cong [where f = sum_list] map_cong) auto

lemma evicted_to_step:
  assumes inv: "cache_inv c" and ne: "rc_order c \<noteq> []" and big: "rc_maxSize c < rc_curSize c + sz"
    and ev: "evicted_to sz n (evict_oldest_locked c) c'"
  shows "evicted_to sz n c c'"
proof -
  let ?d = "evict_oldest_locked c" and ?ks = "order_keys c"
  note step = evict_oldest_step [OF inv ne]
  have ksne: "?ks \<noteq> []" using ne by (simp add: order_keys_def)
  have take: "take m (butlast ?ks) = take m ?ks" if "m \<le> length ?ks - 1" for m
    using that by (simp add: butlast_conv_take min_def)
  have n: "n \<le> length ?ks - 1" using ev by (simp add: evicted_to_def step)
  have last: "last ?ks \<notin> set (take m ?ks)" if "m \<le> length ?ks - 1" for m
  proof -
    have "set (take m ?ks) \<subseteq> set (butlast ?ks)"
      using take [OF that] by (metis set_take_subset)
    moreover have "last ?ks \<notin> set (butlast ?ks)"
      using order_keys_distinct [OF inv] ksne by (metis append_butlast_last_id distinct_append disjoint_iff list.set_intros(1))
    ultimately show ?thesis by blast
  qed
  have bytes: "stored_bytes ?d (take m ?ks) = stored_bytes c (take m ?ks)" if "m \<le> length ?ks - 1" for m
    using last [OF that] by (intro stored_bytes_cong) (auto simp: step(3))
  have all: "rc_maxSize c < stored_bytes c (take m ?ks) + sz" if "n < m" "m \<le> length ?ks" for m
  proof (cases "m = length ?ks")
    case True
    then show ?thesis using big cur_size_is_stored [OF inv] by simp
  next
    case False
    with that ev take [of m] bytes [of m] show ?thesis
      by (auto simp: evicted_to_def step)
  qed
  show ?thesis
    using ev take [OF n] bytes [OF n] last [OF n] n all ksne
    by (auto simp: evicted_to_def step)
qed

lemma evict_until_spec:
  assumes "cache_inv c"
  shows "\<exists>c' n. evict_until sz c = Some c' \<and> evicted_to sz n c c'"
  using assms
proof (induction "length (rc_order c)" arbitrary: c rule: less_induct)
  case less
  show ?case
  proof (cases "rc_maxSize c < rc_curSize c + sz \<and> rc_order c \<noteq> []")
    case False
    then have "evict_until sz c = Some c" by (subst evict_until.simps) auto
    moreover have "evicted_to sz (length (order_keys c)) c c"
      using less.prems False by (intro evicted_to_refl) auto
    ultimately show ?thesis by blast
  next
    case True
    note step = evict_oldest_step [OF less.prems, OF True [THEN conjunct2]]
    have "length (rc_order (evict_oldest_locked c)) < length (rc_order c)"
      using step(2) True by (metis order_keys_def length_butlast length_map diff_less length_greater_0_conv zero_less_one)
    from less.hyps [OF this step(1)] obtain c' n where
      ev: "evict_until sz (evict_oldest_locked c) = Some c'" "evicted_to sz n (evict_oldest_locked c) c'"
      by blast
    have "evict_until sz c = evict_until sz (evict_oldest_locked c)"
      by (subst evict_until.simps) (simp add: True)
    then have "evict_until sz c = Some c'" using ev(1) by (rule trans)
    moreover have "evicted_to sz n c c'"
      using less.prems True [THEN conjunct2] True [THEN conjunct1] ev(2) by (rule evicted_to_step)
    ultimately show ?thesis by blast
  qed
qed

subsection \<open>Every operation keeps the invariant\<close>

lemma add_entry_inv:
  assumes "cache_inv c" and "rc_lookup c (ce_Key e) = None"
    and "ce_Size e = int (length (ce_Response e))"
  shows "cache_inv (add_entry e c)"
proof -
  have "order_ok ((rc_lookup c)(ce_Key e \<mapsto> e)) ((rc_nextElem c, ce_Key e) # rc_order c)
      ((rc_orderMap c)(ce_Key e \<mapsto> rc_nextElem c)) (Suc (rc_nextElem c))"
    using cache_inv_order [OF assms(1)] assms(2) by (rule order_ok_add)
  moreover have "index_ok ((rc_lookup c)(ce_Key e \<mapsto> e)) (index_add (ce_Server e) (ce_Key e) (rc_serverIndex c))"
    using cache_inv_index [OF assms(1)] assms(2) by (rule index_ok_add)
  ultimately show ?thesis
    using assms by (auto simp: cache_inv_def add_entry_def sum_list_update_fresh)
qed

definition set_base :: "string \<Rightarrow> response_cache \<Rightarrow> response_cache" where
  "set_base key c = (case rc_lookup c key of None \<Rightarrow> c | Some _ \<Rightarrow> remove_entry_locked key c)"

lemma set_base_eq: "set_base key c = remove_entry_locked key c"
  by (simp add: set_base_def split: option.splits)

lemma cache_set_spec:
  assumes "cache_inv c"
  shows "\<exists>c2 n. evicted_to (int (length response)) n (remove_entry_locked key c) c2 \<and>
     cache_set now key response server tool c = Some (add_entry (new_entry now key response server tool c) c2) \<and>
     cache_inv (add_entry (new_entry now key response server tool c) c2)"
proof -
  have inv: "cache_inv (remove_entry_locked key c)" using assms by (rule remove_entry_inv)
  obtain c2 n where ev: "evict_until (int (length response)) (remove_entry_locked key c) = Some c2"
    "evicted_to (int (length response)) n (remove_entry_locked key c) c2"
    using evict_until_spec [OF inv] by blast
  have "cache_set now key response server tool c = Some (add_entry (new_entry now key response server tool c) c2)"
    using ev(1) set_base_eq [of key c] by (simp add: cache_set_def set_base_def new_entry_def)
  moreover have "cache_inv (add_entry (new_entry now key response server tool c) c2)"
    using ev(2) by (intro add_entry_inv) (auto simp: evicted_to_def new_entry_def)
  ultimately show ?thesis using ev(2) by blast
qed

lemma cache_set_inv [loom_inv]:
  "cache_inv c \<Longrightarrow> cache_set now key response server tool c = Some c' \<Longrightarrow> cache_inv c'"
  using cache_set_spec [of c response key now server tool] by auto

lemma move_to_front_set [simp]: "set (move_to_front i xs) = set xs"
  by (auto simp: move_to_front_def)

lemma move_to_front_distinct: "distinct (map fst xs) \<Longrightarrow> distinct (map fst (move_to_front i xs))"
  by (auto simp: move_to_front_def distinct_map_filter)

lemma update_same_size:
  assumes "alist_ok xs" and "map_of xs k = Some e" and "f e' = f e"
  shows "(\<Sum>(_, w) \<leftarrow> AList.update k e' xs. f w) = (\<Sum>(_, w) \<leftarrow> xs. (f w :: int))"
  using assms by (induction xs) (auto simp: alist_ok_Cons split: if_splits)

lemma hit_inv:
  assumes inv: "cache_inv c" and look: "rc_lookup c key = Some e" and elem: "rc_orderMap c key = Some i"
  shows "cache_inv (c\<lparr>rc_order := move_to_front i (rc_order c),
     rc_entries := AList.update key (e\<lparr>ce_Hits := h\<rparr>) (rc_entries c)\<rparr>)"
proof -
  let ?e = "e\<lparr>ce_Hits := h\<rparr>"
  have "distinct (map fst (rc_order c))"
    using cache_inv_order [OF inv] unfolding order_ok_def by blast
  then have "order_ok (rc_lookup c) (move_to_front i (rc_order c)) (rc_orderMap c) (rc_nextElem c)"
    by (intro order_ok_permute [OF cache_inv_order [OF inv]] move_to_front_set move_to_front_distinct)
  then have "order_ok ((rc_lookup c)(key \<mapsto> ?e)) (move_to_front i (rc_order c)) (rc_orderMap c) (rc_nextElem c)"
    using elem unfolding order_ok_def by (simp, blast)
  moreover have "index_ok ((rc_lookup c)(key \<mapsto> ?e)) (rc_serverIndex c)"
    using cache_inv_index [OF inv] index_ok_same [of "rc_lookup c" key e ?e] look by simp
  moreover have "(\<Sum>(_, w) \<leftarrow> AList.update key ?e (rc_entries c). ce_Size w) = rc_curSize c"
    using update_same_size [OF cache_inv_alist [OF inv] look, of ce_Size ?e] cache_inv_size [OF inv] by simp
  ultimately show ?thesis
    using inv look by (auto simp: cache_inv_def)
qed

lemma cache_get_inv [loom_inv]: "cache_inv c \<Longrightarrow> cache_inv (snd (cache_get now key c))"
  using cache_inv_elem [of c key] hit_inv [of c key]
  by (fastforce simp: cache_get_def remove_entry_inv split: option.splits)

lemma cache_clear_inv [loom_inv]: "cache_inv c \<Longrightarrow> cache_inv (cache_clear c)"
  by (simp add: cache_inv_def cache_clear_def)

lemma fold_remove_inv: "cache_inv c \<Longrightarrow> cache_inv (fold remove_entry_locked ks c)"
  by (induction ks arbitrary: c) (simp_all add: remove_entry_inv)

lemma fold_remove_lookup:
  "rc_lookup (fold remove_entry_locked ks c) k = (if k \<in> set ks then None else rc_lookup c k)"
  by (induction ks arbitrary: c) auto

lemma index_none_of_no_entry:
  assumes "cache_inv c" and "\<And>k e. rc_lookup c k = Some e \<Longrightarrow> ce_Server e \<noteq> s"
  shows "rc_serverIndex c s = None"
proof (rule ccontr)
  assume "rc_serverIndex c s \<noteq> None"
  then obtain ks where ks: "rc_serverIndex c s = Some ks" by auto
  then have "s \<noteq> ''''" "ks \<noteq> []" using cache_inv_index [OF assms(1)] unfolding index_ok_def by blast+
  then obtain k where "k \<in> set ks" by (cases ks) auto
  then show False
    using ks \<open>s \<noteq> ''''\<close> assms(2) cache_inv_index [OF assms(1)] unfolding index_ok_def by blast
qed

lemma indexed_keys:
  assumes "cache_inv c" and "rc_serverIndex c server = Some ks"
  shows "set ks = {k. \<exists>e. rc_lookup c k = Some e \<and> ce_Server e = server}"
proof -
  have "server \<noteq> ''''" using assms cache_inv_index unfolding index_ok_def by blast
  then have "k \<in> set ks \<longleftrightarrow> (\<exists>e. rc_lookup c k = Some e \<and> ce_Server e = server)" for k
    using cache_inv_index [OF assms(1)] assms(2) unfolding index_ok_def by (metis option.inject)
  then show ?thesis by blast
qed

lemma clear_server_eq:
  assumes "cache_inv c" and "rc_serverIndex c server = Some ks"
  shows "clear_server server c = fold remove_entry_locked ks c"
proof -
  have "rc_serverIndex (fold remove_entry_locked ks c) server = None"
    using indexed_keys [OF assms] fold_remove_inv [OF assms(1)]
    by (intro index_none_of_no_entry) (auto simp: fold_remove_lookup split: if_splits)
  then have "(rc_serverIndex (fold remove_entry_locked ks c))(server := None)
      = rc_serverIndex (fold remove_entry_locked ks c)" by (rule fun_upd_idem)
  then show ?thesis using assms(2) by (simp add: clear_server_def Let_def)
qed

lemma clear_server_inv [loom_inv]: "cache_inv c \<Longrightarrow> cache_inv (clear_server server c)"
  by (cases "rc_serverIndex c server")
     (auto simp: clear_server_eq fold_remove_inv, simp add: clear_server_def)

lemma prune_fold:
  "fold (prune_visit now) xs (c, n) =
     (fold remove_entry_locked (map fst (filter (\<lambda>(_, e). now > ce_ExpiresAt e) xs)) c,
      n + length (filter (\<lambda>(_, e). now > ce_ExpiresAt e) xs))"
  by (induction xs arbitrary: c n) (auto simp: prune_visit_def)

lemma cache_prune_inv [loom_inv]: "cache_inv c \<Longrightarrow> cache_inv (fst (cache_prune now c))"
  by (simp add: cache_prune_def prune_fold fold_remove_inv)

lemma new_response_cache_inv: "new_response_cache cfg = Some c \<Longrightarrow> cache_inv c"
  by (auto simp: new_response_cache_def Let_def cache_inv_def split: if_splits)

section \<open>What the cache promises\<close>

definition cache_view :: "time \<Rightarrow> response_cache \<Rightarrow> string \<Rightarrow> string option" where
  "cache_view now c k =
     (case rc_lookup c k of
        None \<Rightarrow> None
      | Some e \<Rightarrow> if now > ce_ExpiresAt e then None else Some (ce_Response e))"

lemma cache_get_result: "fst (cache_get now k c) = cache_view now c k"
  by (simp add: cache_get_def cache_view_def split: option.splits)

lemma cache_get_lookup:
  "rc_lookup (snd (cache_get now k c)) k' = Some e' \<Longrightarrow>
     \<exists>e. rc_lookup c k' = Some e \<and> ce_Response e = ce_Response e' \<and> ce_ExpiresAt e = ce_ExpiresAt e'"
  by (auto simp: cache_get_def Let_def split: option.splits if_splits)

lemma cache_get_view: "cache_view t (snd (cache_get now k c)) k' = Some v \<Longrightarrow> cache_view t c k' = Some v"
proof -
  assume "cache_view t (snd (cache_get now k c)) k' = Some v"
  then obtain e' where "rc_lookup (snd (cache_get now k c)) k' = Some e'"
    and e': "\<not> t > ce_ExpiresAt e'" "v = ce_Response e'"
    by (auto simp: cache_view_def split: option.splits if_splits)
  then obtain e where "rc_lookup c k' = Some e" "ce_Response e = ce_Response e'" "ce_ExpiresAt e = ce_ExpiresAt e'"
    using cache_get_lookup by blast
  with e' show ?thesis by (simp add: cache_view_def)
qed

lemma cache_set_lookup:
  assumes "cache_inv c" and "cache_set now key response server tool c = Some c'"
  shows "rc_lookup c' key = Some (new_entry now key response server tool c)"
    and "k \<noteq> key \<Longrightarrow> rc_lookup c' k = Some e \<Longrightarrow> rc_lookup c k = Some e"
  using cache_set_spec [OF assms(1), of response key now server tool] assms(2)
  by (auto simp: add_entry_def new_entry_def evicted_to_def split: if_splits)

lemma cache_set_view:
  assumes "cache_inv c" and "cache_set now key response server tool c = Some c'"
  shows "cache_view t c' key = (if t > now + ttl_for server tool c then None else Some response)"
    and "k \<noteq> key \<Longrightarrow> cache_view t c' k = Some w \<Longrightarrow> cache_view t c k = Some w"
  using cache_set_lookup(1) [OF assms] cache_set_lookup(2) [OF assms, of k]
  by (auto simp: cache_view_def new_entry_def split: option.splits if_splits)

text \<open>The cache as a provider of the interface: a store names the server and the tool.\<close>

definition cache_put :: "time \<Rightarrow> string \<Rightarrow> string \<Rightarrow> string \<times> string \<Rightarrow> response_cache \<Rightarrow> response_cache option" where
  "cache_put now k v st c = cache_set now k v (fst st) (snd st) c"

interpretation resp: ttl_cache cache_inv cache_view cache_get cache_put
proof
  fix s now k v x s' t k' w
  show "fst (cache_get now k s) = cache_view now s k" by (rule cache_get_result)
  show "cache_inv s \<Longrightarrow> cache_inv (snd (cache_get now k s))" by (rule cache_get_inv)
  show "cache_view t (snd (cache_get now k s)) k' = Some v \<Longrightarrow> cache_view t s k' = Some v"
    by (rule cache_get_view)
  show "cache_inv s \<Longrightarrow> \<exists>s'. cache_put now k v x s = Some s'"
    using cache_set_spec [of s v k now "fst x" "snd x"] by (auto simp: cache_put_def)
  show "cache_inv s \<Longrightarrow> cache_put now k v x s = Some s' \<Longrightarrow> cache_inv s'"
    by (simp add: cache_put_def cache_set_inv)
  show "cache_inv s \<Longrightarrow> cache_put now k v x s = Some s' \<Longrightarrow> cache_view t s' k' = Some w \<Longrightarrow>
      (if k' = k then w = v else cache_view t s k' = Some w)"
    using cache_set_view(1) [of s now k v "fst x" "snd x" s' t]
      cache_set_view(2) [of s now k v "fst x" "snd x" s' k' t w]
    by (cases "k' = k") (simp_all add: cache_put_def split: if_splits)
qed

subsection \<open>Reachable caches\<close>

definition cache_init :: "response_cache \<Rightarrow> bool" where
  "cache_init c \<longleftrightarrow> (\<exists>cfg. new_response_cache cfg = Some c)"

inductive cache_step :: "response_cache \<Rightarrow> response_cache \<Rightarrow> bool" where
  step_get: "cache_step c (snd (cache_get now key c))"
| step_set: "cache_set now key response server tool c = Some c' \<Longrightarrow> cache_step c c'"
| step_clear: "cache_step c (cache_clear c)"
| step_clear_server: "cache_step c (clear_server server c)"
| step_prune: "cache_step c (fst (cache_prune now c))"

text \<open>
  The byte budget.  \<open>Set\<close> evicts until the new response fits or nothing is left, and then
  stores it in any case; so the budget holds except when the cache consists of one
  response that is larger than the whole budget.
\<close>

definition within_budget :: "response_cache \<Rightarrow> bool" where
  "within_budget c \<longleftrightarrow>
     rc_curSize c \<le> rc_maxSize c \<or>
     (\<exists>k e. rc_entries c = [(k, e)] \<and> rc_maxSize c < ce_Size e)"

lemma remove_entry_budget:
  assumes "cache_inv c" and "within_budget c"
  shows "within_budget (remove_entry_locked k c)"
proof (cases "rc_lookup c k")
  case (Some e)
  note present = remove_entry_present(3) [OF assms(1) Some]
  show ?thesis
  proof (cases "rc_curSize c \<le> rc_maxSize c")
    case True
    then show ?thesis using ce_Size_nonneg [OF assms(1) Some] present by (simp add: within_budget_def)
  next
    case False
    with assms obtain k' e' where "rc_entries c = [(k', e')]" by (auto simp: within_budget_def)
    then show ?thesis
      using Some present cache_inv_max [OF assms(1)] cache_inv_size [OF assms(1)]
      by (auto simp: within_budget_def split: if_splits)
  qed
qed (simp add: assms)

lemma fold_remove_budget:
  "cache_inv c \<Longrightarrow> within_budget c \<Longrightarrow> within_budget (fold remove_entry_locked ks c)"
  by (induction ks arbitrary: c) (simp_all add: remove_entry_inv remove_entry_budget)

lemma cache_set_budget:
  assumes "cache_inv c" and "cache_set now key response server tool c = Some c'"
  shows "within_budget c'"
proof -
  let ?e = "new_entry now key response server tool c"
  obtain c2 n where ev: "evicted_to (int (length response)) n (remove_entry_locked key c) c2"
    and c': "c' = add_entry ?e c2"
    using cache_set_spec [OF assms(1), of response key now server tool] assms(2) by auto
  have inv2: "cache_inv c2" using ev by (simp add: evicted_to_def)
  have size: "rc_curSize c' = rc_curSize c2 + int (length response)" "rc_maxSize c' = rc_maxSize c2"
    by (simp_all add: c' add_entry_def new_entry_def)
  show ?thesis
  proof (cases "n = 0")
    case True
    with ev have "order_keys c2 = []" by (simp add: evicted_to_def)
    then have "rc_entries c2 = []"
      using no_order_no_entries [OF inv2] by (simp add: order_keys_def)
    then show ?thesis
      using cache_inv_size [OF inv2] size by (auto simp: within_budget_def c' add_entry_def new_entry_def)
  next
    case False
    let ?d = "remove_entry_locked key c"
    have fits: "n = 0 \<or> stored_bytes ?d (take n (order_keys ?d)) + int (length response) \<le> rc_maxSize c2"
      and keys: "order_keys c2 = take n (order_keys ?d)"
      and look: "\<And>k. rc_lookup c2 k = (if k \<in> set (take n (order_keys ?d)) then rc_lookup ?d k else None)"
      using ev unfolding evicted_to_def by auto
    have "stored_bytes ?d (take n (order_keys ?d)) = stored_bytes c2 (order_keys c2)"
      unfolding keys by (rule stored_bytes_cong) (simp add: look)
    then have "rc_curSize c2 + int (length response) \<le> rc_maxSize c2"
      using fits False cur_size_is_stored [OF inv2] by simp
    then show ?thesis using size by (simp add: within_budget_def)
  qed
qed

lemma cache_get_budget:
  assumes "cache_inv c" and "within_budget c"
  shows "within_budget (snd (cache_get now key c))"
proof -
  have "within_budget (c\<lparr>rc_order := ord, rc_entries := AList.update key (e\<lparr>ce_Hits := h\<rparr>) (rc_entries c)\<rparr>)"
    if "rc_lookup c key = Some e" for ord e h
    using assms(2) that by (auto simp: within_budget_def split: if_splits)
  then show ?thesis
    using assms cache_inv_elem [OF assms(1), of key]
    by (fastforce simp: cache_get_def remove_entry_budget split: option.splits)
qed

lemma cache_step_inv:
  assumes "cache_step c c'" and "cache_inv c \<and> within_budget c"
  shows "cache_inv c' \<and> within_budget c'"
  using assms
proof (induction rule: cache_step.induct)
  case (step_clear c)
  then show ?case using cache_inv_max [of c] by (simp add: cache_clear_inv) (simp add: within_budget_def cache_clear_def)
next
  case (step_clear_server c server)
  then show ?case
    by (cases "rc_serverIndex c server")
       (auto simp: clear_server_eq fold_remove_inv fold_remove_budget, auto simp: clear_server_def)
next
  case (step_prune c now)
  then show ?case by (simp add: cache_prune_def prune_fold fold_remove_inv fold_remove_budget)
qed (auto intro: cache_get_inv cache_set_inv cache_get_budget cache_set_budget)

lemma new_response_cache_budget: "new_response_cache cfg = Some c \<Longrightarrow> within_budget c"
  using new_response_cache_inv [of cfg c] cache_inv_max [of c]
  by (auto simp: new_response_cache_def Let_def within_budget_def split: if_splits)

interpretation cache_sys: inv_system cache_init cache_step "\<lambda>c. cache_inv c \<and> within_budget c"
  by unfold_locales
     (auto simp: cache_init_def new_response_cache_inv new_response_cache_budget dest: cache_step_inv)

section \<open>Properties\<close>

lemma move_to_front_keys:
  assumes "cache_inv c" and "rc_orderMap c key = Some i"
  shows "map snd (move_to_front i (rc_order c)) = key # filter (\<lambda>k. k \<noteq> key) (order_keys c)"
proof -
  note ord = cache_inv_order [OF assms(1)]
  from ord have dist: "distinct (map fst (rc_order c))" and mem: "(i, key) \<in> set (rc_order c)"
    using assms(2) unfolding order_ok_def by blast+
  have "filter (\<lambda>(j, _). j = i) (rc_order c) = [(i, key)]"
    using dist mem by (rule filter_key_single)
  moreover have "map snd (filter (\<lambda>(j, _). j \<noteq> i) (rc_order c)) = filter (\<lambda>k. k \<noteq> key) (order_keys c)"
    unfolding order_ok_remove(2) [OF ord assms(2)]
    by (simp add: order_keys_def map_snd_filter)
  ultimately show ?thesis by (simp add: move_to_front_def)
qed

definition demo_cache :: response_cache where
  "demo_cache =
     \<lparr>rc_entries = [], rc_order = [], rc_orderMap = (\<lambda>_. None), rc_serverIndex = (\<lambda>_. None),
      rc_maxSize = 8, rc_curSize = 0, rc_defaultTTL = 60, rc_toolTTLs = (\<lambda>_. None),
      rc_cacheable = (\<lambda>_. True), rc_nextElem = 0\<rparr>"

lemma demo_cache_inv: "cache_inv demo_cache"
  by (simp add: cache_inv_def demo_cache_def)

lemma evict_fits [simp]: "rc_curSize c + sz \<le> rc_maxSize c \<Longrightarrow> evict_until sz c = Some c"
  by (subst evict_until.simps) simp

definition demo_entry :: "string \<Rightarrow> string \<Rightarrow> string \<Rightarrow> cache_entry" where
  "demo_entry key server response =
     \<lparr>ce_Key = key, ce_Response = response, ce_Size = int (length response), ce_Server = server,
      ce_Tool = ''t'', ce_CreatedAt = 0, ce_ExpiresAt = 60, ce_Hits = 0\<rparr>"

definition demo_cache2 :: response_cache where
  "demo_cache2 =
     add_entry (demo_entry ''b'' ''s2'' ''yyy'') (add_entry (demo_entry ''a'' ''s1'' ''xxx'') demo_cache)"

lemma demo_cache2_inv: "cache_inv demo_cache2"
  unfolding demo_cache2_def
  by (intro add_entry_inv demo_cache_inv) (simp_all add: demo_entry_def demo_cache_def add_entry_def)



text \<open>
  C34. \<open>Set\<close> terminates on every well-formed cache, and its eviction is exactly LRU: the
  new key goes to the front, the survivors are the longest most-recently-used prefix of
  the other keys that fits beside the response, they keep their entries, and everything
  after that prefix is gone.
\<close>

theorem cache_set_lru:
  assumes "cache_inv c"
  shows "\<exists>c' n. cache_set now key response server tool c = Some c' \<and>
     (let others = filter (\<lambda>k. k \<noteq> key) (order_keys c); sz = int (length response)
      in n \<le> length others \<and> order_keys c' = key # take n others \<and>
         (\<forall>k. k \<noteq> key \<longrightarrow> rc_lookup c' k = (if k \<in> set (take n others) then rc_lookup c k else None)) \<and>
         (n = 0 \<or> stored_bytes c (take n others) + sz \<le> rc_maxSize c) \<and>
         (\<forall>m. n < m \<and> m \<le> length others \<longrightarrow> rc_maxSize c < stored_bytes c (take m others) + sz))"
proof -
  let ?d = "remove_entry_locked key c" and ?others = "filter (\<lambda>k. k \<noteq> key) (order_keys c)"
    and ?sz = "int (length response)"
  obtain c2 n where ev: "evicted_to ?sz n ?d c2"
    and set: "cache_set now key response server tool c = Some (add_entry (new_entry now key response server tool c) c2)"
    using cache_set_spec [OF assms] by blast
  have others: "order_keys ?d = ?others" using assms by (rule remove_entry_order_keys)
  have look: "rc_lookup ?d k = rc_lookup c k" if "k \<noteq> key" for k using that by simp
  have bytes: "stored_bytes ?d (take m ?others) = stored_bytes c (take m ?others)" for m
    by (rule stored_bytes_cong) (use look in \<open>auto dest: in_set_takeD\<close>)
  note ev' = ev [unfolded evicted_to_def others bytes]
  have "order_keys (add_entry (new_entry now key response server tool c) c2) = key # take n ?others"
    using ev' by (simp add: order_keys_def add_entry_def new_entry_def)
  moreover have "rc_lookup (add_entry (new_entry now key response server tool c) c2) k =
      (if k \<in> set (take n ?others) then rc_lookup c k else None)" if "k \<noteq> key" for k
    using ev' look that by (simp add: add_entry_def new_entry_def)
  moreover have "n \<le> length ?others" "n = 0 \<or> stored_bytes c (take n ?others) + ?sz \<le> rc_maxSize c"
    using ev' by simp_all
  moreover have "\<forall>m. n < m \<and> m \<le> length ?others \<longrightarrow> rc_maxSize c < stored_bytes c (take m ?others) + ?sz"
    using ev' by simp
  ultimately show ?thesis
    unfolding Let_def set by (intro exI [of _ n] exI conjI refl allI impI) blast+
qed

lemma cache_set_lru_witness:
  "cache_inv demo_cache2 \<and>
   (\<exists>c' n. cache_set 5 ''c'' ''zzzz'' ''s1'' ''t'' demo_cache2 = Some c' \<and> order_keys c' = ''c'' # take n [''b'', ''a''])"
proof -
  have "order_keys demo_cache2 = [''b'', ''a'']"
    by (simp add: demo_cache2_def demo_cache_def order_keys_def add_entry_def demo_entry_def)
  then show ?thesis
    using cache_set_lru [OF demo_cache2_inv, of 5 "''c''" "''zzzz''" "''s1''" "''t''"] demo_cache2_inv
    by (auto simp: Let_def)
qed

text \<open>
  A lookup after a \<open>Set\<close>: the stored key answers with the stored response until its TTL
  (the tool's, or the default) has passed and misses after it; for every other key, what
  is returned after the \<open>Set\<close> would have been returned before it.
\<close>

theorem cache_get_after_set:
  assumes "cache_inv c" and "cache_set now key response server tool c = Some c'"
  shows "fst (cache_get t key c') = (if t > now + ttl_for server tool c then None else Some response) \<and>
     (k \<noteq> key \<longrightarrow> fst (cache_get t k c') = Some w \<longrightarrow> fst (cache_get t k c) = Some w)"
  unfolding cache_get_result
  using cache_set_view(1) [OF assms, of t] cache_set_view(2) [OF assms, of k t w] by blast

lemma cache_get_after_set_witness:
  "\<exists>c'. cache_set 5 ''k'' ''xyz'' ''s'' ''t'' demo_cache = Some c' \<and>
     fst (cache_get 65 ''k'' c') = Some ''xyz'' \<and> fst (cache_get 66 ''k'' c') = None"
proof -
  have set: "cache_set 5 ''k'' ''xyz'' ''s'' ''t'' demo_cache
      = Some (add_entry (new_entry 5 ''k'' ''xyz'' ''s'' ''t'' demo_cache) demo_cache)"
    by (simp add: cache_set_def new_entry_def demo_cache_def)
  have "ttl_for ''s'' ''t'' demo_cache = 60" by (simp add: ttl_for_def demo_cache_def)
  with cache_get_after_set [OF demo_cache_inv set, of 65] cache_get_after_set [OF demo_cache_inv set, of 66] set
  show ?thesis by simp
qed

text \<open>
  A hit moves its key to the front of the LRU order and keeps every entry's response
  and expiry; an expired entry is removed by the lookup that finds it; a miss on an absent
  key changes nothing.
\<close>

theorem cache_get_effect:
  assumes "cache_inv c" and "cache_get now key c = (r, c')"
  shows "case r of
      Some v \<Rightarrow> order_keys c' = key # filter (\<lambda>k. k \<noteq> key) (order_keys c) \<and>
                (\<forall>t k. cache_view t c' k = cache_view t c k)
    | None \<Rightarrow> order_keys c' = filter (\<lambda>k. k \<noteq> key) (order_keys c) \<and>
               rc_lookup c' = (rc_lookup c)(key := None)"
proof (cases "rc_lookup c key")
  case None
  then have "filter (\<lambda>k. k \<noteq> key) (order_keys c) = order_keys c"
    using cache_inv_lookup_order [OF assms(1), of key] by (auto intro!: filter_True)
  with None assms(2) show ?thesis by (auto simp: cache_get_def)
next
  case (Some e)
  show ?thesis
  proof (cases "now > ce_ExpiresAt e")
    case True
    with Some assms show ?thesis by (auto simp: cache_get_def remove_entry_order_keys)
  next
    case False
    obtain i where i: "rc_orderMap c key = Some i" using cache_inv_elem [OF assms(1) Some] by blast
    have c': "r = Some (ce_Response e)" "c' = c\<lparr>rc_order := move_to_front i (rc_order c),
        rc_entries := AList.update key (e\<lparr>ce_Hits := ce_Hits e + 1\<rparr>) (rc_entries c)\<rparr>"
      using assms(2) Some False i by (auto simp: cache_get_def)
    have "order_keys c' = key # filter (\<lambda>k. k \<noteq> key) (order_keys c)"
      using move_to_front_keys [OF assms(1) i] by (simp add: c' order_keys_def)
    moreover have "cache_view t c' k = cache_view t c k" for t k
      using Some by (simp add: c' cache_view_def)
    ultimately show ?thesis by (simp add: c'(1))
  qed
qed

lemma cache_get_effect_witness:
  "cache_get 7 ''a'' demo_cache2 = (Some ''xxx'', snd (cache_get 7 ''a'' demo_cache2)) \<and>
   order_keys (snd (cache_get 7 ''a'' demo_cache2)) = [''a'', ''b'']"
proof -
  have hit: "cache_get 7 ''a'' demo_cache2 = (Some ''xxx'', snd (cache_get 7 ''a'' demo_cache2))"
    by (simp add: cache_get_def demo_cache2_def demo_cache_def add_entry_def demo_entry_def)
  have "order_keys demo_cache2 = [''b'', ''a'']"
    by (simp add: demo_cache2_def demo_cache_def order_keys_def add_entry_def demo_entry_def)
  with cache_get_effect [OF demo_cache2_inv hit] hit show ?thesis by simp
qed

text \<open>
  \<open>ClearServer\<close> removes exactly the entries of the named server, through the reverse
  index alone; entries stored without a server name are never cleared by it.
\<close>

theorem clear_server_exact:
  assumes "cache_inv c"
  shows "rc_lookup (clear_server server c) k =
     (case rc_lookup c k of
        None \<Rightarrow> None
      | Some e \<Rightarrow> if server \<noteq> '''' \<and> ce_Server e = server then None else Some e)"
proof (cases "rc_serverIndex c server")
  case None
  then have "server = '''' \<or> (\<forall>k e. rc_lookup c k = Some e \<longrightarrow> ce_Server e \<noteq> server)"
    using cache_inv_index [OF assms] unfolding index_ok_def by (metis option.distinct(1))
  with None show ?thesis by (auto simp: clear_server_def split: option.splits)
next
  case (Some ks)
  then have "server \<noteq> ''''" using cache_inv_index [OF assms] unfolding index_ok_def by blast
  then show ?thesis
    using Some indexed_keys [OF assms Some]
    by (auto simp: clear_server_eq [OF assms Some] fold_remove_lookup split: option.splits)
qed

lemma clear_server_exact_witness:
  "rc_lookup (clear_server ''s1'' demo_cache2) ''a'' = None \<and>
   rc_lookup (clear_server ''s1'' demo_cache2) ''b'' = Some (demo_entry ''b'' ''s2'' ''yyy'')"
  using clear_server_exact [OF demo_cache2_inv, of "''s1''" "''a''"]
    clear_server_exact [OF demo_cache2_inv, of "''s1''" "''b''"]
  by (simp add: demo_cache2_def demo_cache_def add_entry_def demo_entry_def)

text \<open>
  \<open>Prune\<close> removes exactly the expired entries and returns how many they were.
\<close>

theorem cache_prune_exact:
  assumes "cache_inv c"
  shows "rc_lookup (fst (cache_prune now c)) k =
       (case rc_lookup c k of None \<Rightarrow> None | Some e \<Rightarrow> if now > ce_ExpiresAt e then None else Some e) \<and>
     snd (cache_prune now c) = length (filter (\<lambda>(_, e). now > ce_ExpiresAt e) (rc_entries c))"
proof -
  have "(k \<in> fst ` {ke \<in> set (rc_entries c). now > ce_ExpiresAt (snd ke)}) \<longleftrightarrow>
      (\<exists>e. rc_lookup c k = Some e \<and> now > ce_ExpiresAt e)"
    using cache_inv_alist [OF assms] by (force simp: alist_ok_map_of)
  then show ?thesis
    by (auto simp: cache_prune_def prune_fold fold_remove_lookup case_prod_beta split: option.splits)
qed

lemma cache_prune_exact_witness:
  "rc_lookup (fst (cache_prune 61 demo_cache2)) ''a'' = None \<and> snd (cache_prune 61 demo_cache2) = 2"
  using cache_prune_exact [OF demo_cache2_inv, of 61 "''a''"]
  by (simp add: demo_cache2_def demo_cache_def add_entry_def demo_entry_def)

text \<open>
  The budget can be exceeded: a response longer than \<open>maxSize\<close> first evicts every other
  entry and is then stored all the same, so the cache holds more bytes than its maximum.
\<close>

theorem cache_set_oversize:
  assumes "cache_inv c" and "rc_maxSize c < int (length response)"
  shows "\<exists>c'. cache_set now key response server tool c = Some c' \<and> order_keys c' = [key] \<and>
     rc_maxSize c' < rc_curSize c'"
proof -
  let ?d = "remove_entry_locked key c"
  obtain c2 n where ev: "evicted_to (int (length response)) n ?d c2"
    and set: "cache_set now key response server tool c = Some (add_entry (new_entry now key response server tool c) c2)"
    using cache_set_spec [OF assms(1)] by blast
  from ev have inv2: "cache_inv c2" and mx: "rc_maxSize c2 = rc_maxSize c"
    and keys: "order_keys c2 = take n (order_keys ?d)"
    and fits: "n = 0 \<or> stored_bytes ?d (take n (order_keys ?d)) + int (length response) \<le> rc_maxSize c"
    and look: "\<And>k. rc_lookup c2 k = (if k \<in> set (take n (order_keys ?d)) then rc_lookup ?d k else None)"
    unfolding evicted_to_def by auto
  have "stored_bytes ?d (take n (order_keys ?d)) = rc_curSize c2"
    unfolding cur_size_is_stored [OF inv2] keys by (rule stored_bytes_cong) (simp add: look)
  then have "n = 0" using fits assms(2) cur_size_nonneg [OF inv2] by auto
  then have "order_keys c2 = []" using keys by simp
  then show ?thesis
    using set mx assms(2) cur_size_nonneg [OF inv2] by (auto simp: order_keys_def add_entry_def new_entry_def)
qed

lemma cache_set_oversize_witness:
  "\<exists>c'. cache_set 5 ''c'' ''0123456789'' ''s1'' ''t'' demo_cache2 = Some c' \<and> order_keys c' = [''c''] \<and>
     rc_maxSize c' < rc_curSize c'"
  using cache_set_oversize [OF demo_cache2_inv, of "''0123456789''"]
  by (simp add: demo_cache2_def demo_cache_def add_entry_def)

end
