(* ===== verification/Call_Errors.thy ===== *)
theory Call_Errors
  imports Gateway_Policy Routing Response_Cache
begin

text \<open>
  The vocabulary of the call pipeline: Go errors and their classification
  (\<open>internal/daemon/callpipeline_timeout.go\<close>), JSON-RPC messages, the error data that
  clients see (\<open>pipeline_error.go\<close>), and the state the stages of a call share
  (\<open>callpipeline.go\<close>).

  An \<open>error\<close> is its text and what \<open>errors.Is\<close> and \<open>errors.As\<close> find in its chain; \<open>%w\<close>
  keeps the chain, \<open>%v\<close> drops it.
\<close>

subsection \<open>Errors\<close>

record go_error =
  er_Text :: string
  er_Timeout :: bool       \<comment> \<open>a deadline error or a \<open>net.Error\<close> timeout is in the chain\<close>
  er_Transport :: bool     \<comment> \<open>EOF, a closed or broken connection or a \<open>net.OpError\<close> is\<close>
  er_DuplicateID :: bool   \<comment> \<open>\<open>muxstdio.ErrDuplicateID\<close> is\<close>

definition plain_error :: "string \<Rightarrow> go_error" where
  "plain_error t = \<lparr> er_Text = t, er_Timeout = False, er_Transport = False, er_DuplicateID = False \<rparr>"

definition is_rpc_timeout :: "go_error \<Rightarrow> bool" where
  "is_rpc_timeout err = (er_Timeout err \<or> contains (to_lower (er_Text err)) ''i/o timeout'')"

definition should_reset_transport :: "go_error \<Rightarrow> bool" where
  "should_reset_transport err =
     (if is_rpc_timeout err \<or> er_Transport err then True
      else
        (let low = to_lower (er_Text err) in
         list_ex (contains low)
           [''broken pipe'', ''connection reset'', ''use of closed network connection'',
            ''unexpected eof'', ''websocket: close 1012'', ''transport closed'']))"

definition should_retry_local_dial :: "go_error \<Rightarrow> bool" where
  "should_retry_local_dial err =
     (let low = to_lower (er_Text err) in
      list_ex (contains low)
        [''transport closed'', ''broken pipe'', ''connection reset'',
         ''use of closed network connection'', ''unexpected eof''])"

text \<open>\<open>timeoutText\<close> is the printed call timeout.\<close>

definition rpc_phase_error :: "string \<Rightarrow> string \<Rightarrow> string \<Rightarrow> go_error \<Rightarrow> go_error" where
  "rpc_phase_error operation phase timeoutText err =
     (let trimmed = trim_space operation;
          op = (if trimmed = '''' then ''daemon call'' else trimmed) in
      if is_rpc_timeout err then
        err\<lparr> er_Text := op @ '' timeout during '' @ phase @ '' after '' @ timeoutText @
          '' (recoverable: daemon will reconnect upstream transport and retry on the next request): ''
          @ er_Text err \<rparr>
      else err\<lparr> er_Text := op @ '' failed during '' @ phase @ '': '' @ er_Text err \<rparr>)"

definition clamp_timeout :: "duration \<Rightarrow> duration \<Rightarrow> duration \<Rightarrow> duration" where
  "clamp_timeout d lo hi = (if d < lo then lo else if d > hi then hi else d)"

definition normalize_positive_duration :: "duration \<Rightarrow> duration \<Rightarrow> duration" where
  "normalize_positive_duration value fallback = (if value \<le> 0 then fallback else value)"

text \<open>\<open>toolEnv\<close> and \<open>controlEnv\<close> are the two environment overrides, or their defaults.\<close>

definition rpc_timeout_for_method :: "duration \<Rightarrow> duration \<Rightarrow> string \<Rightarrow> duration" where
  "rpc_timeout_for_method toolEnv controlEnv method =
     (if trim_space method = ''tools/call'' then normalize_positive_duration toolEnv (60 * second)
      else normalize_positive_duration controlEnv (30 * second))"

subsection \<open>Messages\<close>

record pipeline_error_data =
  pe_Code :: string
  pe_Server :: string
  pe_Tool :: string
  pe_Stage :: string
  pe_Retryable :: bool
  pe_RetryAfter :: string

record rpc_error =
  re_Code :: int
  re_Message :: string
  re_Data :: "pipeline_error_data option"

record message =
  ms_ID :: "string option"
  ms_Method :: string
  ms_Params :: "raw_message option"
  ms_Result :: "string option"
  ms_Error :: "rpc_error option"

definition invalid_request :: int where "invalid_request = - 32600"
definition invalid_params :: int where "invalid_params = - 32602"
definition internal_error_code :: int where "internal_error_code = - 32603"

definition new_error_response ::
  "string option \<Rightarrow> int \<Rightarrow> string \<Rightarrow> pipeline_error_data option \<Rightarrow> message" where
  "new_error_response i code text data =
     \<lparr> ms_ID = i, ms_Method = '''', ms_Params = None, ms_Result = None,
       ms_Error = Some \<lparr> re_Code = code, re_Message = text, re_Data = data \<rparr> \<rparr>"

definition new_response :: "string option \<Rightarrow> string \<Rightarrow> message" where
  "new_response i result =
     \<lparr> ms_ID = i, ms_Method = '''', ms_Params = None, ms_Result = Some result, ms_Error = None \<rparr>"

definition new_request :: "string option \<Rightarrow> string \<Rightarrow> raw_message \<Rightarrow> message" where
  "new_request i method params =
     \<lparr> ms_ID = i, ms_Method = method, ms_Params = Some params, ms_Result = None, ms_Error = None \<rparr>"

definition new_pipeline_error ::
  "string \<Rightarrow> string \<Rightarrow> string \<Rightarrow> string \<Rightarrow> bool \<Rightarrow> pipeline_error_data" where
  "new_pipeline_error code server tool stage retryable =
     \<lparr> pe_Code = code, pe_Server = server, pe_Tool = tool, pe_Stage = stage,
       pe_Retryable = retryable, pe_RetryAfter = '''' \<rparr>"

definition new_invalid_input_error ::
  "string \<Rightarrow> string \<Rightarrow> string \<Rightarrow> string \<Rightarrow> pipeline_error_data" where
  "new_invalid_input_error server tool stage text =
     new_pipeline_error
       (if contains text ''could not resolve server for tool'' then ''TOOL_NOT_FOUND''
        else if contains text ''missing server'' then ''SERVER_NOT_FOUND''
        else ''INVALID_INPUT'')
       server tool stage False"

definition classify_internal_error :: "go_error \<Rightarrow> string \<Rightarrow> string \<times> bool" where
  "classify_internal_error err stage =
     (let low = to_lower (er_Text err) in
      if is_rpc_timeout err then (''TIMEOUT'', True)
      else if contains low ''response id mismatch'' \<or> contains low ''transport corruption''
      then (''TRANSPORT_CORRUPTION'', True)
      else if should_reset_transport err then (''TRANSPORT_FAILURE'', True)
      else if stage = ''route'' then
        (if contains low ''server unavailable'' then (''SERVER_UNAVAILABLE'', False)
         else if contains low ''lock'' then (''LOCK_TIMEOUT'', True)
         else (''CONNECTION_ERROR'', True))
      else if stage = ''execute'' then (''TRANSPORT_FAILURE'', True)
      else (''SERVER_ERROR'', False))"

definition new_internal_error :: "string \<Rightarrow> string \<Rightarrow> string \<Rightarrow> go_error \<Rightarrow> pipeline_error_data" where
  "new_internal_error server tool stage err =
     (let (code, retryable) = classify_internal_error err stage
      in new_pipeline_error code server tool stage retryable)"

definition new_gate_error :: "string \<Rightarrow> pipeline_error_data" where
  "new_gate_error code = new_pipeline_error code '''' '''' ''gate'' True"

definition new_draining_error :: pipeline_error_data where
  "new_draining_error = (new_gate_error ''DAEMON_DRAINING'')\<lparr> pe_RetryAfter := ''2s'' \<rparr>"

definition new_rbac_denied_error :: "string \<Rightarrow> string \<Rightarrow> access_decision \<Rightarrow> pipeline_error_data" where
  "new_rbac_denied_error server tool decision =
     (if ad_ReasonCode decision = ''rate_limited''
      then (new_pipeline_error ''RATE_LIMITED'' server tool ''authorize'' True)\<lparr> pe_RetryAfter := ''60s'' \<rparr>
      else new_pipeline_error ''RBAC_DENIED'' server tool ''authorize'' False)"

definition new_policy_denied_error :: "string \<Rightarrow> string \<Rightarrow> policy_decision \<Rightarrow> pipeline_error_data" where
  "new_policy_denied_error server tool decision =
     new_pipeline_error ''POLICY_DENIED'' server tool ''policy'' False"

subsection \<open>Daemon and call state\<close>

datatype scan_mode = ScanUnset | ScanOff | ScanWarn | ScanRedact | ScanOther

datatype schema_mode = SchemaUnset | SchemaOff | SchemaWarn | SchemaStrict | SchemaOther

record input_schema =
  is_Type :: string
  is_Properties :: "(string \<times> json) list"
  is_Required :: "string list"

text \<open>
  The part of the daemon that a call reads or changes.  \<open>dm_visible\<close> are the tools in
  \<open>visibleTools(toolCache.tools)\<close> with their schemas, by their compound names.
\<close>

record daemon =
  dm_draining :: bool
  dm_router :: "(string \<Rightarrow> string + string) option"
  dm_routes :: "(string \<times> string list) list option"
  dm_rbac :: "rbac_enforcer option"
  dm_policy :: "gateway_config option"
  dm_respCache :: "response_cache option"
  dm_routing :: routing_state
  dm_hub :: hub_config
  dm_pool :: bool
  dm_muxStdio :: bool
  dm_weaver :: bool
  dm_visible :: "(string \<times> input_schema) list"
  dm_bulkEligible :: "string \<Rightarrow> bool"
  dm_schemaMode :: schema_mode
  dm_scanMode :: scan_mode
  dm_recvThreshold :: int

text \<open>
  What a call does to the world around it, oldest first: requests written to a transport,
  checkouts and returns of pooled connections, call-lock operations, health reports,
  retired generations, audit entries.
\<close>

datatype effect =
    Sent target message
  | ConnTaken target
  | ConnReturned target bool
  | LockTaken
  | LockReleased
  | RecordedFailure target
  | RecordedSuccess target
  | GenerationRetired
  | ToolRefresh
  | Audited string string
  | AccessDenied access_decision

record call_state =
  cs_daemon :: daemon
  cs_ID :: "string option"
  cs_params :: call_params
  cs_serverName :: string
  cs_toolName :: string
  cs_method :: string
  cs_cacheKey :: string
  cs_stage :: string
  cs_conn :: "bool option"           \<comment> \<open>\<open>p.conn\<close>: nil, or its \<open>Healthy\<close> flag\<close>
  cs_target :: target
  cs_lockHeld :: bool
  cs_localCheckout :: bool           \<comment> \<open>\<open>p.localCheckout\<close> is not nil\<close>
  cs_localGeneration :: nat
  cs_preferHubRetryEligible :: bool
  cs_hubDelegateActive :: bool
  cs_localRetryUsed :: bool
  cs_localTransportRetryUsed :: bool
  cs_hubTransportRetryUsed :: bool
  cs_callTimeoutExtended :: bool
  cs_clock :: nat                    \<comment> \<open>interactions with the environment so far\<close>
  cs_effects :: "effect list"

text \<open>
  The environment: everything outside the repository that a call asks, as functions of the
  number of interactions so far, so that it may answer differently every time.  The two
  synthetic handlers answer bulk and weaver calls.
\<close>

record environment =
  ev_now :: "nat \<Rightarrow> time"
  ev_ctxDone :: "nat \<Rightarrow> bool"
  ev_route :: "nat \<Rightarrow> go_error + target"
  ev_lock :: "nat \<Rightarrow> go_error option"
  ev_checkoutLocal :: "nat \<Rightarrow> go_error + nat"
  ev_getHub :: "nat \<Rightarrow> go_error option"
  ev_send :: "nat \<Rightarrow> go_error option"
  ev_recv :: "nat \<Rightarrow> go_error + message"
  ev_retire :: "nat \<Rightarrow> bool"
  ev_sha256 :: "string \<Rightarrow> string"
  ev_timeoutText :: string
  ev_callTimeout :: "call_params \<Rightarrow> string \<Rightarrow> duration"
  ev_toolTimeout :: duration
  ev_controlTimeout :: duration
  ev_effectiveAgent :: "call_params \<Rightarrow> string"
  ev_findings :: "string \<Rightarrow> string list"
  ev_redact :: "string \<Rightarrow> string option"
  ev_marshal :: "json \<Rightarrow> string"
  ev_bulk :: "call_state \<Rightarrow> message \<times> call_state"
  ev_weaver :: "call_state \<Rightarrow> message \<times> call_state"

definition tick :: "call_state \<Rightarrow> call_state" where
  "tick p = p\<lparr> cs_clock := Suc (cs_clock p) \<rparr>"

definition emit :: "effect \<Rightarrow> call_state \<Rightarrow> call_state" where
  "emit e p = p\<lparr> cs_effects := cs_effects p @ [e] \<rparr>"

definition on_routing :: "(routing_state \<Rightarrow> routing_state) \<Rightarrow> call_state \<Rightarrow> call_state" where
  "on_routing f p = p\<lparr> cs_daemon := (cs_daemon p)\<lparr> dm_routing := f (dm_routing (cs_daemon p)) \<rparr> \<rparr>"

definition target_string :: "target \<Rightarrow> string" where
  "target_string t =
     (case t of TargetLocal \<Rightarrow> ''local'' | TargetHub \<Rightarrow> ''hub'' | TargetUnavailable \<Rightarrow> ''unavailable'')"

subsection \<open>Error responses of a call\<close>

definition invalid_params_error :: "call_state \<Rightarrow> string \<Rightarrow> message" where
  "invalid_params_error p text =
     new_error_response (cs_ID p) invalid_params text
       (Some (new_invalid_input_error (cs_serverName p) (cs_toolName p) (cs_stage p) text))"

definition internal_error :: "call_state \<Rightarrow> go_error \<Rightarrow> message" where
  "internal_error p err =
     new_error_response (cs_ID p) internal_error_code (er_Text err)
       (Some (new_internal_error (cs_serverName p) (cs_toolName p) (cs_stage p) err))"

definition internal_error_with_audit :: "call_state \<Rightarrow> go_error \<Rightarrow> message \<times> call_state" where
  "internal_error_with_audit p err =
     (let p1 = emit (Audited ''error'' (er_Text err)) p in (internal_error p1 err, p1))"

definition rbac_denied_error :: "call_state \<Rightarrow> access_decision \<Rightarrow> message" where
  "rbac_denied_error p decision =
     new_error_response (cs_ID p) invalid_request
       (''access denied: '' @ ad_Server decision @ ''__'' @ ad_Tool decision)
       (Some (new_rbac_denied_error (cs_serverName p) (cs_toolName p) decision))"

definition policy_denied_error :: "call_state \<Rightarrow> policy_decision \<Rightarrow> message" where
  "policy_denied_error p decision =
     new_error_response (cs_ID p) invalid_request
       (''policy denied: '' @ pd_ReasonCode decision)
       (Some (new_policy_denied_error (cs_serverName p) (cs_toolName p) decision))"

end
