(* ===== verification/Call_Pipeline.thy ===== *)
theory Call_Pipeline
  imports Call_Errors
begin

text \<open>
  The stages of a tool call up to the request it forwards
  (\<open>internal/daemon/callpipeline_stages.go\<close>, \<open>schema_validate.go\<close>, \<open>output_scan.go\<close>).
  A stage returns the response that ends the call, or \<open>None\<close> to go on, and the call state.
\<close>

subsection \<open>Parse and resolve\<close>

text \<open>
  \<open>decoded\<close> is what \<open>json.Unmarshal\<close> makes of the message's parameters: an error text or
  the call parameters.
\<close>

definition split_tool_name :: "string \<Rightarrow> string \<Rightarrow> string \<times> string" where
  "split_tool_name serverName toolName =
     (if serverName = '''' \<and> contains toolName ''__'' then
        (case split_first ''__'' toolName of
           Some (a, b) \<Rightarrow> (a, b)
         | None \<Rightarrow> (serverName, toolName))
      else (serverName, toolName))"

definition parse_names :: "call_params \<Rightarrow> string \<times> string \<times> string" where
  "parse_names params =
     (let tool0 = (if cp_Tool params = '''' \<and> cp_Name params \<noteq> '''' then cp_Name params
                   else cp_Tool params);
          (server, tool) = split_tool_name (cp_Server params) tool0;
          callMethod = (if cp_Method params = '''' then ''tools/call'' else cp_Method params)
      in (server, tool, callMethod))"

definition resolve_error_text :: "resolve_error \<Rightarrow> string" where
  "resolve_error_text e =
     (case e of RouterError t \<Rightarrow> t | AmbiguousTool t servers \<Rightarrow> ''ambiguous tool '' @ t)"

definition parse_and_resolve ::
  "string + call_params \<Rightarrow> call_state \<Rightarrow> message option \<times> call_state" where
  "parse_and_resolve decoded p0 =
     (let p = p0\<lparr> cs_stage := ''parse'' \<rparr> in
      case decoded of
        Inl err \<Rightarrow> (Some (invalid_params_error p err), p)
      | Inr params \<Rightarrow>
          (let (server, tool, callMethod) = parse_names params;
               p1 = p\<lparr> cs_params := params, cs_serverName := server, cs_toolName := tool,
                       cs_method := callMethod \<rparr> in
           if server = '''' \<and> tool \<noteq> '''' then
             (if dm_router (cs_daemon p1) = None
              then (Some (internal_error p1 (plain_error ''daemon is starting'')), p1)
              else
                (case resolve_tool_server (dm_router (cs_daemon p1)) (dm_routes (cs_daemon p1)) tool of
                   Inl err \<Rightarrow> (Some (internal_error p1 (plain_error (resolve_error_text err))), p1)
                 | Inr resolved \<Rightarrow>
                     if resolved = '''' then
                       (Some (invalid_params_error p1
                          (''could not resolve server for tool: '' @ tool)), p1)
                     else (None, p1\<lparr> cs_serverName := resolved \<rparr>)))
           else if server = '''' then
             (Some (invalid_params_error p1 ''missing server or tool for call''), p1)
           else (None, p1)))"

subsection \<open>Input schema\<close>

definition check_property_type :: "json \<Rightarrow> json option \<Rightarrow> bool" where
  "check_property_type val propSchema =
     (case propSchema of
        Some (JObj schema) \<Rightarrow>
          (case map_of schema ''type'' of
             Some (JStr t) \<Rightarrow>
               if t = ''string'' then (case val of JStr _ \<Rightarrow> True | _ \<Rightarrow> False)
               else if t = ''number'' \<or> t = ''integer'' then (case val of JNum _ \<Rightarrow> True | _ \<Rightarrow> False)
               else if t = ''boolean'' then (case val of JBool _ \<Rightarrow> True | _ \<Rightarrow> False)
               else if t = ''array'' then (case val of JArr _ \<Rightarrow> True | _ \<Rightarrow> False)
               else if t = ''object'' then (case val of JObj _ \<Rightarrow> True | _ \<Rightarrow> False)
               else True
           | _ \<Rightarrow> True)
      | _ \<Rightarrow> True)"

definition bulk_schema :: input_schema where
  "bulk_schema =
     \<lparr> is_Type = ''object'',
       is_Properties =
         [(''file'', JObj [(''type'', JStr ''string'')]),
          (''dry_run'', JObj [(''type'', JStr ''boolean'')]),
          (''stop_on_error'', JObj [(''type'', JStr ''boolean'')]),
          (''result_limit'', JObj [(''type'', JStr ''integer'')]),
          (''operation_limit'', JObj [(''type'', JStr ''integer'')])],
       is_Required = [''file''] \<rparr>"

definition find_tool_in_cache :: "daemon \<Rightarrow> string \<Rightarrow> string \<Rightarrow> input_schema option" where
  "find_tool_in_cache d serverName toolName =
     (if toolName = ''bulk'' \<and> dm_bulkEligible d serverName then Some bulk_schema
      else
        map_option snd
          (List.find (\<lambda>(name, _). name = serverName @ ''__'' @ toolName \<or> name = toolName)
             (dm_visible d)))"

definition schema_violations :: "input_schema \<Rightarrow> (string \<times> json) list \<Rightarrow> string list" where
  "schema_violations schema argMap =
     map (\<lambda>req. ''missing required field: '' @ req)
       (filter (\<lambda>req. \<not> has_key argMap req) (is_Required schema)) @
     concat (map (\<lambda>(key, val).
       (case map_of (is_Properties schema) key of
          None \<Rightarrow> if is_Properties schema \<noteq> [] then [''unknown field: '' @ key] else []
        | Some s \<Rightarrow> if check_property_type val (Some s) then [] else [''field '' @ key])) argMap)"

definition handle_schema_failure :: "string \<Rightarrow> call_state \<Rightarrow> message option" where
  "handle_schema_failure detail p =
     (case dm_schemaMode (cs_daemon p) of
        SchemaStrict \<Rightarrow>
          Some (invalid_params_error p
            (''schema validation failed for '' @ cs_serverName p @ ''/'' @ cs_toolName p @ '': '' @ detail))
      | _ \<Rightarrow> None)"

definition validate_input_schema :: "call_state \<Rightarrow> message option \<times> call_state" where
  "validate_input_schema p0 =
     (let mode = dm_schemaMode (cs_daemon p0) in
      if mode = SchemaUnset \<or> mode = SchemaOff then (None, p0)
      else
        (let p = p0\<lparr> cs_stage := ''validate'' \<rparr> in
         case find_tool_in_cache (cs_daemon p) (cs_serverName p) (cs_toolName p) of
           None \<Rightarrow> (None, p)
         | Some schema \<Rightarrow>
             if is_Type schema = '''' \<and> is_Properties schema = [] then (None, p)
             else
               (let args = (if cp_Arguments (cs_params p) = None then cp_Params (cs_params p)
                            else cp_Arguments (cs_params p)) in
                case (case args of None \<Rightarrow> Some [] | Some raw \<Rightarrow> unmarshal_object (raw_value raw)) of
                  None \<Rightarrow> (handle_schema_failure ''arguments are not valid JSON'' p, p)
                | Some argMap \<Rightarrow>
                    (let violations = schema_violations schema argMap in
                     if violations = [] then (None, p)
                     else (handle_schema_failure (concat violations) p, p)))))"

subsection \<open>Access control and policy\<close>

definition authorize :: "environment \<Rightarrow> call_state \<Rightarrow> message option \<times> call_state" where
  "authorize E p0 =
     (let p = p0\<lparr> cs_stage := ''authorize'' \<rparr> in
      case dm_rbac (cs_daemon p) of
        None \<Rightarrow> (None, p)
      | Some rbac \<Rightarrow>
          (let (decision, rbac') = check rbac (ev_now E (cs_clock p)) (cp_AgentID (cs_params p))
                 (cp_AgentType (cs_params p)) (cs_serverName p) (cs_toolName p);
               p1 = tick (p\<lparr> cs_daemon := (cs_daemon p)\<lparr> dm_rbac := Some rbac' \<rparr> \<rparr>) in
           if ad_Allowed decision then (None, p1)
           else
             (let p2 = emit (Audited ''denied'' '''') (emit (AccessDenied decision) p1)
              in (Some (rbac_denied_error p2 decision), p2))))"

definition enforce_request_policy :: "call_state \<Rightarrow> message option \<times> call_state" where
  "enforce_request_policy p0 =
     (let p = p0\<lparr> cs_stage := ''policy'' \<rparr> in
      case dm_policy (cs_daemon p) of
        None \<Rightarrow> (None, p)
      | Some policy \<Rightarrow>
          (let decision = check_request policy (cs_serverName p) (cs_toolName p) (cs_params p) in
           if pd_Allowed decision then (None, p)
           else
             (let p1 = emit (Audited ''denied'' '''') p in (Some (policy_denied_error p1 decision), p1))))"

subsection \<open>Synthetic tools\<close>

definition is_synthetic_bulk_tool :: "call_state \<Rightarrow> bool" where
  "is_synthetic_bulk_tool p = (cs_toolName p = ''bulk'')"

definition weaver_tool_names :: "string list" where
  "weaver_tool_names =
     [''weaver__query'', ''weaver__gather'', ''weaver__cluster_status'', ''weaver__ci_status'',
      ''weaver__fleet_status'', ''weaver__system_health'', ''weaver__deploy_status'',
      ''weaver__incident_triage'', ''weaver__codebase_overview'']"

definition is_weaver_tool :: "call_state \<Rightarrow> bool" where
  "is_weaver_tool p = (dm_weaver (cs_daemon p) \<and> List.member weaver_tool_names (cs_toolName p))"

text \<open>Which handler a weaver call is dispatched to, by its full name.\<close>

datatype weaver_handler = WeaverQuery | WeaverGather | WeaverCompound string

definition execute_weaver_tool :: "call_state \<Rightarrow> weaver_handler" where
  "execute_weaver_tool p =
     (let toolName = (if cs_serverName p \<noteq> '''' then cs_serverName p @ ''__'' @ cs_toolName p
                      else cs_toolName p) in
      if toolName = ''weaver__query'' then WeaverQuery
      else if toolName = ''weaver__gather'' then WeaverGather
      else WeaverCompound toolName)"

subsection \<open>The response cache\<close>

definition raw_bytes :: "raw_message option \<Rightarrow> string" where
  "raw_bytes r = (case r of None \<Rightarrow> '''' | Some raw \<Rightarrow> raw_text raw)"

definition call_cache_key :: "environment \<Rightarrow> call_state \<Rightarrow> string" where
  "call_cache_key E p =
     (let cacheParams = (if cp_Params (cs_params p) = None then cp_Arguments (cs_params p)
                         else cp_Params (cs_params p))
      in cache_key (ev_sha256 E) (cs_serverName p) (cs_toolName p) (raw_bytes cacheParams))"

definition try_cached_response :: "environment \<Rightarrow> call_state \<Rightarrow> message option \<times> call_state" where
  "try_cached_response E p0 =
     (let p = p0\<lparr> cs_stage := ''cache'' \<rparr> in
      case dm_respCache (cs_daemon p) of
        None \<Rightarrow> (None, p)
      | Some c \<Rightarrow>
          if \<not> is_cacheable (cs_serverName p) (cs_toolName p) c then (None, p)
          else
            (let key = call_cache_key E p;
                 (cached, c') = cache_get (ev_now E (cs_clock p)) key c;
                 p1 = tick (p\<lparr> cs_cacheKey := key,
                               cs_daemon := (cs_daemon p)\<lparr> dm_respCache := Some c' \<rparr> \<rparr>) in
             case cached of
               Some response \<Rightarrow>
                 (Some (new_response (cs_ID p1) response), emit (Audited ''success'' '''') p1)
             | None \<Rightarrow> (None, p1)))"

definition cache_success_response :: "environment \<Rightarrow> message \<Rightarrow> call_state \<Rightarrow> call_state" where
  "cache_success_response E resp p =
     (if cs_cacheKey p = '''' \<or> ms_Error resp \<noteq> None then p
      else
        (case (ms_Result resp, dm_respCache (cs_daemon p)) of
           (Some result, Some c) \<Rightarrow>
             (case cache_set (ev_now E (cs_clock p)) (cs_cacheKey p) result (cs_serverName p)
                     (cs_toolName p) c of
                Some c' \<Rightarrow> tick (p\<lparr> cs_daemon := (cs_daemon p)\<lparr> dm_respCache := Some c' \<rparr> \<rparr>)
              | None \<Rightarrow> p)
         | _ \<Rightarrow> p))"

subsection \<open>The forwarded request\<close>

text \<open>\<open>obj[k] = v\<close> on a decoded JSON object.\<close>

definition set_key :: "string \<Rightarrow> json \<Rightarrow> (string \<times> json) list \<Rightarrow> (string \<times> json) list" where
  "set_key k v obj = AList.update k v obj"

definition inject_forward_identity :: "environment \<Rightarrow> raw_message \<Rightarrow> call_state \<Rightarrow> raw_message" where
  "inject_forward_identity E params p =
     (let agentID = ev_effectiveAgent E (cs_params p);
          sessionID = cp_SessionID (cs_params p);
          agentType = cp_AgentType (cs_params p) in
      if agentID = '''' \<and> sessionID = '''' then params
      else
        (case raw_value params of
           JObj obj \<Rightarrow>
             (let o1 = (if agentID \<noteq> '''' then set_key ''agent_id'' (JStr agentID) obj else obj);
                  o2 = (if sessionID \<noteq> '''' then set_key ''session_id'' (JStr sessionID) o1 else o1);
                  o3 = (if agentType \<noteq> '''' then set_key ''agent_type'' (JStr agentType) o2 else o2)
              in \<lparr> raw_text = ev_marshal E (JObj o3), raw_value = JObj o3 \<rparr>)
         | _ \<Rightarrow> params))"

definition build_forward_request ::
  "environment \<Rightarrow> call_state \<Rightarrow> (message + message) \<times> call_state" where
  "build_forward_request E p0 =
     (let p = p0\<lparr> cs_stage := ''build'' \<rparr>;
          forward = (\<lambda>raw.
            (let raw' = (if cs_target p = TargetHub then inject_forward_identity E raw p else raw)
             in (Inr (new_request (cs_ID p) (cs_method p) raw'), p)));
          named = (\<lambda>args.
            (let v = JObj [(''arguments'', args), (''name'', JStr (cs_toolName p))]
             in \<lparr> raw_text = ev_marshal E v, raw_value = v \<rparr>)) in
      case cp_Params (cs_params p) of
        Some raw \<Rightarrow> forward raw
      | None \<Rightarrow>
          (case cp_Arguments (cs_params p) of
             None \<Rightarrow> forward (named (JObj []))
           | Some raw \<Rightarrow>
               (case unmarshal_object (raw_value raw) of
                  Some args \<Rightarrow> forward (named (raw_value raw))
                | None \<Rightarrow>
                    (let (m, p1) = internal_error_with_audit p
                           (plain_error ''decode forward request arguments'')
                     in (Inl m, p1)))))"

subsection \<open>Output scanning\<close>

text \<open>
  \<open>ev_findings\<close> are the names of the secret patterns found in a result, \<open>ev_redact\<close> the
  result that \<open>redactResponse\<close> builds from it (\<open>None\<close> when nothing changes): the regular
  expressions are the environment's.
\<close>

definition handle_scan_findings :: "environment \<Rightarrow> message \<Rightarrow> scan_mode \<Rightarrow> message option" where
  "handle_scan_findings E resp mode =
     (case mode of
        ScanRedact \<Rightarrow>
          (case ms_Result resp of
             None \<Rightarrow> None
           | Some result \<Rightarrow>
               map_option (\<lambda>r. new_response (ms_ID resp) r) (ev_redact E result))
      | _ \<Rightarrow> None)"

definition scan_output :: "environment \<Rightarrow> message \<Rightarrow> call_state \<Rightarrow> message option \<times> call_state" where
  "scan_output E resp p =
     (let mode = dm_scanMode (cs_daemon p) in
      if mode = ScanUnset \<or> mode = ScanOff then (None, p)
      else
        (let p1 = p\<lparr> cs_stage := ''output_scan'' \<rparr> in
         case ms_Result resp of
           None \<Rightarrow> (None, p1)
         | Some result \<Rightarrow>
             if result = '''' then (None, p1)
             else if ev_findings E result = [] then (None, p1)
             else (handle_scan_findings E resp mode, p1)))"

end
