(* ===== verification/Call_Execution.thy ===== *)
theory Call_Execution
  imports Call_Pipeline
begin

text \<open>
  Connecting, sending, receiving and retrying
  (\<open>internal/daemon/callpipeline_routing.go\<close>, \<open>callpipeline_errors.go\<close>, the second half
  of \<open>callpipeline_stages.go\<close>) and the whole call (\<open>daemon_call.go\<close>).

  One pass of \<open>execute\<close> either ends the call or has reconnected and starts over; the three
  retry flags are set before a pass is repeated, which is why the recursion ends.
\<close>

subsection \<open>Connections\<close>

definition ctx_done :: "environment \<Rightarrow> call_state \<Rightarrow> bool" where
  "ctx_done E p = ev_ctxDone E (cs_clock p)"

text \<open>\<open>localPoolCheckout.close\<close> and the returns to the hub pool.\<close>

definition return_conn :: "bool \<Rightarrow> target \<Rightarrow> call_state \<Rightarrow> call_state" where
  "return_conn healthy t p = emit (ConnReturned t healthy) p"

definition release_connection :: "environment \<Rightarrow> call_state \<Rightarrow> call_state" where
  "release_connection E p0 =
     (let cancelled = ctx_done E p0;
          p = tick p0;
          p1 = (case cs_conn p of
                  None \<Rightarrow>
                    if cs_localCheckout p then return_conn (\<not> cancelled) TargetLocal p else p
                | Some healthy \<Rightarrow>
                    (return_conn (healthy \<and> \<not> cancelled)
                      (if cs_localCheckout p then TargetLocal else cs_target p) p)
                    \<lparr> cs_conn := None, cs_localCheckout := False \<rparr>);
          p2 = p1\<lparr> cs_localCheckout := False, cs_localGeneration := 0 \<rparr>
      in if cs_lockHeld p2 then (emit LockReleased p2)\<lparr> cs_lockHeld := False \<rparr> else p2)"

definition retire_observed_local_generation :: "environment \<Rightarrow> call_state \<Rightarrow> bool \<times> call_state" where
  "retire_observed_local_generation E p =
     (let retired = ev_retire E (cs_clock p); p1 = tick p
      in (retired, if retired then emit GenerationRetired p1 else p1))"

definition acquire_call_lock :: "environment \<Rightarrow> call_state \<Rightarrow> go_error option \<times> call_state" where
  "acquire_call_lock E p =
     (case ev_lock E (cs_clock p) of
        Some err \<Rightarrow> (Some err, tick p)
      | None \<Rightarrow> (None, emit LockTaken (tick p)))"

text \<open>The brief lock before the pool checkout, without the mux.\<close>

definition touch_process_activity :: "environment \<Rightarrow> target \<Rightarrow> call_state \<Rightarrow> go_error option \<times> call_state" where
  "touch_process_activity E t p =
     (if t = TargetLocal \<and> \<not> dm_muxStdio (cs_daemon p) then
        (case acquire_call_lock E p of
           (Some err, p1) \<Rightarrow> (Some err, emit (RecordedFailure t) p1)
         | (None, p1) \<Rightarrow> (None, emit LockReleased p1))
      else (None, p))"

definition checkout :: "environment \<Rightarrow> target \<Rightarrow> call_state \<Rightarrow> go_error option \<times> call_state" where
  "checkout E t p =
     (case t of
        TargetLocal \<Rightarrow>
          (if \<not> dm_pool (cs_daemon p) then (Some (plain_error ''local pool not configured''), p)
           else
             (case ev_checkoutLocal E (cs_clock p) of
                Inl err \<Rightarrow> (Some err, tick p)
              | Inr g \<Rightarrow>
                  (None, (emit (ConnTaken TargetLocal) (tick p))
                    \<lparr> cs_conn := Some True, cs_localCheckout := True, cs_localGeneration := g \<rparr>)))
      | _ \<Rightarrow>
          (if \<not> hc_hubPool (dm_hub (cs_daemon p))
           then (Some (plain_error ''hub fallback not configured''), p)
           else
             (case ev_getHub E (cs_clock p) of
                Some err \<Rightarrow> (Some err, tick p)
              | None \<Rightarrow> (None, (emit (ConnTaken TargetHub) (tick p))\<lparr> cs_conn := Some True \<rparr>))))"

definition connect_target :: "environment \<Rightarrow> target \<Rightarrow> string \<Rightarrow> call_state \<Rightarrow> go_error option \<times> call_state" where
  "connect_target E t reason0 p0 =
     (let p = p0\<lparr> cs_target := t, cs_conn := None \<rparr> in
      if t = TargetUnavailable then (Some (plain_error (''server unavailable: '' @ reason0)), p)
      else
        (case touch_process_activity E t p of
           (Some err, p1) \<Rightarrow> (Some err, p1)
         | (None, p1) \<Rightarrow>
             (case checkout E t p1 of
                (Some err, p2) \<Rightarrow> (Some err, emit (RecordedFailure t) p2)
              | (None, p2) \<Rightarrow>
                  if t = TargetLocal \<and> \<not> dm_muxStdio (cs_daemon p2) then
                    (case acquire_call_lock E p2 of
                       (Some err, p3) \<Rightarrow>
                         (Some err,
                          emit (RecordedFailure t)
                            ((return_conn (\<not> ctx_done E p3) TargetLocal (tick p3))
                              \<lparr> cs_localCheckout := False, cs_conn := None, cs_localGeneration := 0 \<rparr>))
                     | (None, p3) \<Rightarrow> (None, p3\<lparr> cs_lockHeld := True \<rparr>))
                  else (None, p2))))"

definition connect_target_with_transport_retry ::
  "environment \<Rightarrow> target \<Rightarrow> string \<Rightarrow> call_state \<Rightarrow> go_error option \<times> call_state" where
  "connect_target_with_transport_retry E t reason0 p =
     (case connect_target E t reason0 p of
        (None, p1) \<Rightarrow> (None, p1)
      | (Some err, p1) \<Rightarrow>
          if t \<noteq> TargetLocal \<or> \<not> should_retry_local_dial err then (Some err, p1)
          else
            (let (retired, p2) = retire_observed_local_generation E p1;
                 p3 = release_connection E p2 in
             case connect_target E t (reason0 @ '' after closed transport'') p3 of
               (None, p4) \<Rightarrow> (None, p4)
             | (Some retryErr, p4) \<Rightarrow>
                 (Some (err\<lparr> er_Text := er_Text err @ ''; retry after closed transport failed: ''
                    @ er_Text retryErr \<rparr>), p4)))"

subsection \<open>Routing\<close>

definition set_backoff :: "environment \<Rightarrow> call_state \<Rightarrow> call_state" where
  "set_backoff E p =
     tick (on_routing (\<lambda>r. snd (set_prefer_hub_backoff (ev_now E (cs_clock p)) r (cs_serverName p) 0)) p)"

text \<open>The target after hub delegation and the routing preference of the server.\<close>

definition choose_target :: "environment \<Rightarrow> target \<Rightarrow> call_state \<Rightarrow> target \<times> call_state" where
  "choose_target E routed p0 =
     (let p = p0\<lparr> cs_preferHubRetryEligible := False, cs_hubDelegateActive := False \<rparr>;
          d = cs_daemon p;
          delegate = hub_delegate_eligible (dm_hub d) (cs_serverName p);
          p1 = p\<lparr> cs_hubDelegateActive := delegate \<rparr>;
          originalTarget = (if delegate then TargetHub else routed);
          (pref, pinUpgraded) = effective_routing_preference (dm_routing d) (cs_serverName p) in
      if pref = HealthBased then (originalTarget, p1)
      else
        (let (active, p2) =
               (if pref = PreferHub then
                  (let (until, r) = prefer_hub_backoff_active (ev_now E (cs_clock p1)) (dm_routing d)
                         (cs_serverName p)
                   in (until \<noteq> None, tick (on_routing (\<lambda>_. r) p1)))
                else (False, p1));
             allowPreferHub = (\<not> active);
             (newTarget, overridden) =
               apply_routing_preference_with_options pref originalTarget (hc_hubPool (dm_hub d))
                 allowPreferHub;
             eligible = (pref = PreferHub \<and> allowPreferHub \<and> originalTarget = TargetLocal \<and>
                         newTarget = TargetHub)
         in (newTarget, p2\<lparr> cs_preferHubRetryEligible := eligible \<rparr>)))"

definition route_and_connect :: "environment \<Rightarrow> call_state \<Rightarrow> message option \<times> call_state" where
  "route_and_connect E p0 =
     (let p = p0\<lparr> cs_stage := ''route'' \<rparr> in
      if dm_router (cs_daemon p) = None
      then (Some (internal_error p (plain_error ''daemon is starting'')), p)
      else
        (case ev_route E (cs_clock p) of
           Inl err \<Rightarrow> (let (m, p1) = internal_error_with_audit (tick p) err in (Some m, p1))
         | Inr routed \<Rightarrow>
             (let (t, p1) = choose_target E routed (tick p) in
              case connect_target_with_transport_retry E t ''routed'' p1 of
                (None, p2) \<Rightarrow> (None, p2)
              | (Some err, p2) \<Rightarrow>
                  if \<not> cs_hubDelegateActive p2 \<and> cs_preferHubRetryEligible p2 \<and>
                     \<not> cs_localRetryUsed p2 \<and> t = TargetHub \<and> dm_pool (cs_daemon p2) then
                    (let p3 = set_backoff E (p2\<lparr> cs_localRetryUsed := True \<rparr>) in
                     case connect_target_with_transport_retry E TargetLocal
                            ''prefer-hub fallback after hub connect failure'' p3 of
                       (None, p4) \<Rightarrow> (None, p4)
                     | (Some localErr, p4) \<Rightarrow>
                         (let (m, p5) = internal_error_with_audit p4
                                (localErr\<lparr> er_Text := ''hub connect failed: '' @ er_Text err @
                                   ''; local retry failed: '' @ er_Text localErr \<rparr>)
                          in (Some m, p5)))
                  else
                    (let (m, p3) = internal_error_with_audit p2 err in (Some m, p3)))))"

subsection \<open>Failures\<close>

definition mark_unhealthy :: "call_state \<Rightarrow> call_state" where
  "mark_unhealthy p = p\<lparr> cs_conn := map_option (\<lambda>_. False) (cs_conn p) \<rparr>"

definition local_mux_caller_context_done :: "environment \<Rightarrow> call_state \<Rightarrow> bool" where
  "local_mux_caller_context_done E p =
     (cs_target p = TargetLocal \<and> dm_muxStdio (cs_daemon p) \<and> ctx_done E p)"

definition transport_failure ::
  "environment \<Rightarrow> string \<Rightarrow> go_error \<Rightarrow> call_state \<Rightarrow> message \<times> call_state" where
  "transport_failure E stage err p0 =
     (let p = mark_unhealthy p0 in
      if local_mux_caller_context_done E p then
        (let p1 = tick (emit (Audited ''error'' (er_Text err)) p) in (internal_error p1 err, p1))
      else
        (let p1 = emit (Audited ''error'' (er_Text err)) (emit (RecordedFailure (cs_target p)) (tick p));
             recvTimeout = (cs_target p1 = TargetLocal \<and> dm_muxStdio (cs_daemon p1) \<and>
                            stage \<noteq> ''send'' \<and> is_rpc_timeout err) in
         if recvTimeout \<and> cs_callTimeoutExtended p1 then (internal_error p1 err, p1)
         else
           (let (streak, r) = record_local_recv_timeout (dm_routing (cs_daemon p1)) (cs_serverName p1);
                p2 = (if recvTimeout then on_routing (\<lambda>_. r) p1 else p1) in
            if recvTimeout \<and> streak < recv_timeout_threshold (dm_recvThreshold (cs_daemon p2))
            then (internal_error p2 err, p2)
            else
              (let p3 = (if recvTimeout
                         then on_routing (\<lambda>r. reset_local_recv_timeout r (cs_serverName p2)) p2
                         else p2) in
               if cs_target p3 = TargetLocal \<and> er_DuplicateID err then (internal_error p3 err, p3)
               else if cs_target p3 = TargetLocal then
                 (let (retired, p4) = retire_observed_local_generation E p3;
                      p5 = (if retired then emit ToolRefresh p4 else p4)
                  in (internal_error p5 err, p5))
               else if cs_target p3 = TargetHub \<and> hc_hubPool (dm_hub (cs_daemon p3)) then
                 (let p4 = emit ToolRefresh p3 in (internal_error p4 err, p4))
               else (internal_error p3 err, p3)))))"

text \<open>
  A retry handler does not apply, or answers the call, or has reconnected so that
  \<open>execute\<close> runs again.
\<close>

datatype retry_result = NoRetry call_state | Answer message call_state | Again call_state

definition retry_local_after_local_send_failure ::
  "environment \<Rightarrow> go_error \<Rightarrow> call_state \<Rightarrow> retry_result" where
  "retry_local_after_local_send_failure E err p =
     (if cs_localTransportRetryUsed p \<or> cs_target p \<noteq> TargetLocal \<or> \<not> dm_pool (cs_daemon p)
      then NoRetry p
      else if local_mux_caller_context_done E p then NoRetry (tick p)
      else if \<not> should_reset_transport err then NoRetry p
      else
        (let p1 = emit (RecordedFailure (cs_target p))
                    (mark_unhealthy (p\<lparr> cs_localTransportRetryUsed := True \<rparr>));
             (retired, p2) = retire_observed_local_generation E p1;
             p3 = release_connection E p2 in
         case connect_target_with_transport_retry E TargetLocal ''local transport send retry'' p3 of
           (None, p4) \<Rightarrow> Again p4
         | (Some connectErr, p4) \<Rightarrow>
             (let (m, p5) = internal_error_with_audit p4
                    (connectErr\<lparr> er_Text := ''local send failed: '' @ er_Text err @
                       ''; local retry failed: '' @ er_Text connectErr \<rparr>)
              in Answer m p5)))"

definition retry_hub_after_hub_failure ::
  "environment \<Rightarrow> string \<Rightarrow> go_error \<Rightarrow> call_state \<Rightarrow> retry_result" where
  "retry_hub_after_hub_failure E stage err p =
     (if cs_hubTransportRetryUsed p \<or> cs_target p \<noteq> TargetHub \<or> \<not> hc_hubPool (dm_hub (cs_daemon p))
      then NoRetry p
      else if \<not> should_reset_transport err then NoRetry p
      else
        (let p1 = emit (RecordedFailure (cs_target p))
                    (mark_unhealthy (p\<lparr> cs_hubTransportRetryUsed := True \<rparr>));
             p2 = release_connection E p1 in
         case connect_target E TargetHub (''hub transport retry after '' @ stage) p2 of
           (None, p3) \<Rightarrow> Again p3
         | (Some connectErr, p3) \<Rightarrow> NoRetry p3))"

definition should_retry_local_after_hub_failure :: "call_state \<Rightarrow> bool" where
  "should_retry_local_after_hub_failure p =
     (cs_preferHubRetryEligible p \<and> \<not> cs_hubDelegateActive p \<and> \<not> cs_localRetryUsed p \<and>
      cs_target p = TargetHub \<and> dm_pool (cs_daemon p))"

definition retry_local_after_hub_failure ::
  "environment \<Rightarrow> string \<Rightarrow> go_error \<Rightarrow> call_state \<Rightarrow> retry_result" where
  "retry_local_after_hub_failure E stage err p =
     (if \<not> should_retry_local_after_hub_failure p then NoRetry p
      else
        (let p1 = emit (RecordedFailure (cs_target p))
                    (mark_unhealthy (p\<lparr> cs_localRetryUsed := True \<rparr>));
             p2 = release_connection E (set_backoff E p1) in
         case connect_target_with_transport_retry E TargetLocal
                ''prefer-hub fallback after hub transport failure'' p2 of
           (None, p3) \<Rightarrow> Again p3
         | (Some connectErr, p3) \<Rightarrow>
             (let (m, p4) = internal_error_with_audit p3
                    (connectErr\<lparr> er_Text := ''hub '' @ stage @ '' failed: '' @ er_Text err @
                       ''; local retry failed: '' @ er_Text connectErr \<rparr>)
              in Answer m p4)))"

definition or_retry :: "retry_result \<Rightarrow> (call_state \<Rightarrow> retry_result) \<Rightarrow> retry_result" where
  "or_retry r f = (case r of NoRetry p \<Rightarrow> f p | _ \<Rightarrow> r)"

definition record_success :: "call_state \<Rightarrow> call_state" where
  "record_success p =
     (let p1 = emit (RecordedSuccess (cs_target p)) p;
          p2 = (if cs_target p1 = TargetHub
                then on_routing (\<lambda>r. clear_prefer_hub_backoff r (cs_serverName p1)) p1 else p1)
      in if cs_target p2 = TargetLocal
         then on_routing (\<lambda>r. reset_local_recv_timeout r (cs_serverName p2)) p2 else p2)"

subsection \<open>Execution\<close>

definition resolve_call_timeout :: "environment \<Rightarrow> call_state \<Rightarrow> call_state" where
  "resolve_call_timeout E p =
     p\<lparr> cs_callTimeoutExtended :=
          (ev_callTimeout E (cs_params p) (cs_serverName p)
             > rpc_timeout_for_method (ev_toolTimeout E) (ev_controlTimeout E) (cs_method p)) \<rparr>"

definition fail_send :: "environment \<Rightarrow> go_error \<Rightarrow> call_state \<Rightarrow> retry_result" where
  "fail_send E sendErr p =
     (let err = rpc_phase_error (cs_method p) ''send'' (ev_timeoutText E) sendErr in
      or_retry
        (or_retry
          (or_retry (retry_hub_after_hub_failure E ''send'' err p)
            (retry_local_after_local_send_failure E err))
          (retry_local_after_hub_failure E ''send'' err))
        (\<lambda>p'. case transport_failure E ''send'' err p' of (m, p1) \<Rightarrow> Answer m p1))"

definition fail_recv :: "environment \<Rightarrow> go_error \<Rightarrow> call_state \<Rightarrow> retry_result" where
  "fail_recv E err p =
     or_retry
       (or_retry (retry_hub_after_hub_failure E ''recv'' err p)
         (retry_local_after_hub_failure E ''recv'' err))
       (\<lambda>p'. case transport_failure E ''recv'' err p' of (m, p1) \<Rightarrow> Answer m p1)"

definition execute_once :: "environment \<Rightarrow> message \<Rightarrow> call_state \<Rightarrow> retry_result" where
  "execute_once E req p0 =
     (let p = resolve_call_timeout E (p0\<lparr> cs_stage := ''execute'' \<rparr>);
          p1 = emit (Sent (cs_target p) req) (tick p) in
      case ev_send E (cs_clock p) of
        Some sendErr \<Rightarrow> fail_send E sendErr p1
      | None \<Rightarrow>
          (case ev_recv E (cs_clock p1) of
             Inl recvErr \<Rightarrow>
               fail_recv E (rpc_phase_error (cs_method p1) ''recv'' (ev_timeoutText E) recvErr) (tick p1)
           | Inr resp \<Rightarrow>
               (let p2 = tick p1 in
                if ms_ID resp \<noteq> None \<and> ms_ID req \<noteq> None \<and> ms_ID resp \<noteq> ms_ID req then
                  fail_recv E (plain_error (''response ID mismatch: sent '' @ the (ms_ID req) @
                    '', got '' @ the (ms_ID resp) @ '' (possible transport corruption)'')) p2
                else
                  (let p3 = cache_success_response E resp (record_success p2);
                       p4 = emit (if ms_Error resp \<noteq> None
                                  then Audited ''error'' (re_Message (the (ms_Error resp)))
                                  else Audited ''success'' '''') p3
                   in Answer resp p4))))"

text \<open>How many retries the call has left; every repeated pass has used one up.\<close>

definition retries_left :: "call_state \<Rightarrow> nat" where
  "retries_left p =
     of_bool (\<not> cs_localRetryUsed p) + of_bool (\<not> cs_localTransportRetryUsed p) +
     of_bool (\<not> cs_hubTransportRetryUsed p)"

subsection \<open>What the connection code leaves alone\<close>

text \<open>
  A view \<open>Q\<close> of a call that neither the connection fields nor any effect but a send
  touches.  Everything between two sends preserves such a view; it is proved here once and
  used for the retry flags, for the identity of the call and for the requests sent.
\<close>

locale call_frame =
  fixes Q :: "call_state \<Rightarrow> 'a"
  assumes frame_tick: "Q (tick p) = Q p"
    and frame_emit: "(\<And>t m. e \<noteq> Sent t m) \<Longrightarrow> Q (emit e p) = Q p"
    and frame_routing: "Q (on_routing f p) = Q p"
    and frame_conn: "Q (p\<lparr> cs_conn := c \<rparr>) = Q p"
    and frame_checkout_flag: "Q (p\<lparr> cs_localCheckout := b \<rparr>) = Q p"
    and frame_generation: "Q (p\<lparr> cs_localGeneration := g \<rparr>) = Q p"
    and frame_lock_flag: "Q (p\<lparr> cs_lockHeld := b \<rparr>) = Q p"
    and frame_target: "Q (p\<lparr> cs_target := t \<rparr>) = Q p"
begin

lemmas frame = frame_tick frame_emit frame_routing frame_conn frame_checkout_flag frame_generation
  frame_lock_flag frame_target

lemma frame_return: "Q (return_conn h t p) = Q p"
  by (simp add: return_conn_def frame)

lemma frame_unhealthy: "Q (mark_unhealthy p) = Q p"
  by (simp add: mark_unhealthy_def frame)

lemma frame_set_backoff: "Q (set_backoff E p) = Q p"
  by (simp add: set_backoff_def frame)

lemma frame_release: "Q (release_connection E p) = Q p"
  by (simp add: release_connection_def Let_def frame frame_return split: option.split)

lemma frame_retire: "Q (snd (retire_observed_local_generation E p)) = Q p"
  by (simp add: retire_observed_local_generation_def Let_def frame)

lemma frame_lock: "Q (snd (acquire_call_lock E p)) = Q p"
  by (simp add: acquire_call_lock_def frame split: option.split)

lemma frame_touch: "Q (snd (touch_process_activity E t p)) = Q p"
  by (simp add: touch_process_activity_def case_prod_beta frame frame_lock split: option.split)

lemma frame_checkout: "Q (snd (checkout E t p)) = Q p"
  by (simp add: checkout_def frame split: target.split option.split sum.split)

lemma frame_connect: "Q (snd (connect_target E t r p)) = Q p"
  by (simp add: connect_target_def Let_def case_prod_beta frame frame_touch frame_checkout frame_lock
      frame_return split: option.split)

lemma frame_connect_retry: "Q (snd (connect_target_with_transport_retry E t r p)) = Q p"
  by (simp add: connect_target_with_transport_retry_def Let_def case_prod_beta frame frame_connect
      frame_retire frame_release split: option.split)

lemma frame_audit: "Q (snd (internal_error_with_audit p err)) = Q p"
  by (simp add: internal_error_with_audit_def Let_def frame)

lemma frame_transport_failure: "Q (snd (transport_failure E st err p)) = Q p"
  unfolding transport_failure_def Let_def case_prod_beta
  by (simp add: frame frame_unhealthy frame_retire)

lemma frame_record_success: "Q (record_success p) = Q p"
  by (simp add: record_success_def Let_def frame)

end

definition flags :: "call_state \<Rightarrow> bool \<times> bool \<times> bool" where
  "flags p = (cs_localRetryUsed p, cs_localTransportRetryUsed p, cs_hubTransportRetryUsed p)"

interpretation flags: call_frame flags
  by unfold_locales (simp_all add: flags_def tick_def emit_def on_routing_def)

text \<open>The call as its stages see it: who calls what, with which parameters, under which rules.\<close>

definition identity :: "call_state \<Rightarrow> string option \<times> call_params \<times> string \<times> string \<times> string \<times> string" where
  "identity p = (cs_ID p, cs_params p, cs_serverName p, cs_toolName p, cs_method p, cs_cacheKey p)"

interpretation identity: call_frame identity
  by unfold_locales (simp_all add: identity_def tick_def emit_def on_routing_def)

text \<open>The requests sent so far, in order.\<close>

fun sent_of :: "effect list \<Rightarrow> (target \<times> message) list" where
  "sent_of [] = []"
| "sent_of (Sent t m # es) = (t, m) # sent_of es"
| "sent_of (_ # es) = sent_of es"

definition sends :: "call_state \<Rightarrow> (target \<times> message) list" where
  "sends p = sent_of (cs_effects p)"

lemma sent_of_append [simp]: "sent_of (xs @ ys) = sent_of xs @ sent_of ys"
  by (induction xs rule: sent_of.induct) simp_all

lemma sent_of_other: "(\<And>t m. e \<noteq> Sent t m) \<Longrightarrow> sent_of [e] = []"
  by (cases e) auto

interpretation sends: call_frame sends
  by unfold_locales (simp_all add: sends_def tick_def emit_def on_routing_def sent_of_other)

lemma sends_sent [simp]: "sends (emit (Sent t m) p) = sends p @ [(t, m)]"
  by (simp add: sends_def emit_def)

definition retries_of :: "bool \<times> bool \<times> bool \<Rightarrow> nat" where
  "retries_of f = (case f of (a, b, c) \<Rightarrow> of_bool (\<not> a) + of_bool (\<not> b) + of_bool (\<not> c))"

lemma retries_left_flags: "retries_left p = retries_of (flags p)"
  by (simp add: retries_left_def flags_def retries_of_def)

subsection \<open>Termination of the retries\<close>

fun result_state :: "retry_result \<Rightarrow> call_state" where
  "result_state (NoRetry p) = p"
| "result_state (Answer m p) = p"
| "result_state (Again p) = p"

lemma retry_hub_flags:
  "flags (result_state (retry_hub_after_hub_failure E st err p)) = flags p \<and>
     (\<exists>q. retry_hub_after_hub_failure E st err p = NoRetry q) \<or>
   flags (result_state (retry_hub_after_hub_failure E st err p)) =
     flags (p\<lparr> cs_hubTransportRetryUsed := True \<rparr>) \<and> \<not> cs_hubTransportRetryUsed p"
  by (simp add: retry_hub_after_hub_failure_def Let_def case_prod_beta flags.frame
      flags.frame_unhealthy flags.frame_release flags.frame_connect split: option.split)

lemma retry_local_send_flags:
  "flags (result_state (retry_local_after_local_send_failure E err p)) = flags p \<and>
     (\<exists>q. retry_local_after_local_send_failure E err p = NoRetry q) \<or>
   flags (result_state (retry_local_after_local_send_failure E err p)) =
     flags (p\<lparr> cs_localTransportRetryUsed := True \<rparr>) \<and> \<not> cs_localTransportRetryUsed p"
  by (simp add: retry_local_after_local_send_failure_def Let_def case_prod_beta flags.frame
      flags.frame_unhealthy flags.frame_release flags.frame_retire flags.frame_connect_retry
      flags.frame_audit split: option.split)

lemma retry_local_hub_flags:
  "flags (result_state (retry_local_after_hub_failure E st err p)) = flags p \<and>
     (\<exists>q. retry_local_after_hub_failure E st err p = NoRetry q) \<or>
   flags (result_state (retry_local_after_hub_failure E st err p)) =
     flags (p\<lparr> cs_localRetryUsed := True \<rparr>) \<and> \<not> cs_localRetryUsed p"
  by (simp add: retry_local_after_hub_failure_def should_retry_local_after_hub_failure_def Let_def
      case_prod_beta flags.frame flags.frame_unhealthy flags.frame_release flags.frame_set_backoff
      flags.frame_connect_retry flags.frame_audit split: option.split)

lemma retries_set:
  "\<not> cs_hubTransportRetryUsed p \<Longrightarrow>
    retries_of (flags (p\<lparr> cs_hubTransportRetryUsed := True \<rparr>)) < retries_of (flags p)"
  "\<not> cs_localTransportRetryUsed p \<Longrightarrow>
    retries_of (flags (p\<lparr> cs_localTransportRetryUsed := True \<rparr>)) < retries_of (flags p)"
  "\<not> cs_localRetryUsed p \<Longrightarrow>
    retries_of (flags (p\<lparr> cs_localRetryUsed := True \<rparr>)) < retries_of (flags p)"
  by (simp_all add: flags_def retries_of_def)

text \<open>A handler that reconnects has used up a retry; one that does not apply has at most.\<close>

definition uses_retry :: "call_state \<Rightarrow> retry_result \<Rightarrow> bool" where
  "uses_retry p r \<longleftrightarrow>
     (case r of
        Again q \<Rightarrow> retries_of (flags q) < retries_of (flags p)
      | NoRetry q \<Rightarrow> retries_of (flags q) \<le> retries_of (flags p)
      | Answer m q \<Rightarrow> retries_of (flags q) \<le> retries_of (flags p))"

lemma uses_retryI:
  assumes "flags (result_state r) = flags p \<and> (\<exists>q. r = NoRetry q) \<or>
      flags (result_state r) = f \<and> unused"
    and "unused \<Longrightarrow> retries_of f < retries_of (flags p)"
  shows "uses_retry p r"
proof (cases r)
  case (NoRetry q)
  then show ?thesis using assms by (cases unused) (auto simp: uses_retry_def)
next
  case (Answer m q)
  then show ?thesis using assms by (auto simp: uses_retry_def)
next
  case (Again q)
  then show ?thesis using assms by (auto simp: uses_retry_def)
qed

lemma uses_retry_handlers:
  "uses_retry p (retry_hub_after_hub_failure E st err p)"
  "uses_retry p (retry_local_after_local_send_failure E err p)"
  "uses_retry p (retry_local_after_hub_failure E st err p)"
  by (rule uses_retryI [OF retry_hub_flags retries_set(1)],
      assumption, rule uses_retryI [OF retry_local_send_flags retries_set(2)],
      assumption, rule uses_retryI [OF retry_local_hub_flags retries_set(3)], assumption)

lemma uses_retry_or:
  assumes "uses_retry p r" and "\<And>q. uses_retry q (f q)"
  shows "uses_retry p (or_retry r f)"
proof (cases r)
  case (NoRetry q)
  with assms(1) have "retries_of (flags q) \<le> retries_of (flags p)" by (simp add: uses_retry_def)
  with assms(2) [of q] NoRetry show ?thesis
    by (auto simp: or_retry_def uses_retry_def split: retry_result.splits)
qed (use assms(1) in \<open>simp_all add: or_retry_def\<close>)

lemma uses_retry_failure:
  "uses_retry q (case transport_failure E st err q of (m, p1) \<Rightarrow> Answer m p1)"
  by (simp add: uses_retry_def case_prod_beta flags.frame_transport_failure)

lemma uses_retry_fail_send: "uses_retry p (fail_send E err p)"
  unfolding fail_send_def Let_def
  by (intro uses_retry_or uses_retry_handlers uses_retry_failure)

lemma uses_retry_fail_recv: "uses_retry p (fail_recv E err p)"
  unfolding fail_recv_def Let_def
  by (intro uses_retry_or uses_retry_handlers uses_retry_failure)

lemma flags_stage [simp]:
  "flags (p\<lparr> cs_stage := st \<rparr>) = flags p" "flags (p\<lparr> cs_callTimeoutExtended := b \<rparr>) = flags p"
  "flags (emit (Sent t m) p) = flags p" "flags (p\<lparr> cs_daemon := d \<rparr>) = flags p"
  by (simp_all add: flags_def emit_def)

lemma flags_cache_success: "flags (cache_success_response E resp p) = flags p"
  by (simp add: cache_success_response_def flags.frame split: option.split)

lemma uses_retry_mono:
  "uses_retry q r \<Longrightarrow> flags q = flags p \<Longrightarrow> uses_retry p r"
  by (cases r) (simp_all add: uses_retry_def)

lemma execute_once_uses_retry: "uses_retry p (execute_once E req p)"
proof -
  let ?p1 = "emit (Sent (cs_target p) req) (tick (resolve_call_timeout E (p\<lparr> cs_stage := ''execute'' \<rparr>)))"
  have f1: "flags ?p1 = flags p" by (simp add: resolve_call_timeout_def flags.frame)
  have "uses_retry p (fail_send E e ?p1)" for e
    using uses_retry_mono [OF uses_retry_fail_send f1] .
  moreover have "uses_retry p (fail_recv E e (tick ?p1))" for e
    using uses_retry_mono [OF uses_retry_fail_recv] f1 flags.frame_tick by metis
  ultimately show ?thesis
    using f1
    by (auto simp: execute_once_def Let_def resolve_call_timeout_def uses_retry_def flags.frame
        flags_cache_success flags.frame_record_success split: option.split sum.split)
qed

text \<open>\<open>execute\<close>: passes are repeated until one ends the call.\<close>

function execute :: "environment \<Rightarrow> message \<Rightarrow> call_state \<Rightarrow> message \<times> call_state" where
  "execute E req p =
     (case execute_once E req p of
        Again p' \<Rightarrow> execute E req p'
      | Answer m p' \<Rightarrow> (m, p')
      | NoRetry p' \<Rightarrow> (internal_error p' (plain_error ''''), p'))"
  by pat_completeness auto
termination
proof (relation "measure (\<lambda>(_, _, p). retries_left p)")
  fix E req p p'
  assume "execute_once E req p = Again p'"
  with execute_once_uses_retry [of p E req]
  show "((E, req, p'), (E, req, p)) \<in> measure (\<lambda>(_, _, p). retries_left p)"
    by (simp add: uses_retry_def retries_left_flags)
qed simp

declare execute.simps [simp del]

text \<open>The same recursion in a form that evaluation unfolds only as far as it is needed.\<close>

primrec run_result :: "(call_state \<Rightarrow> message \<times> call_state) \<Rightarrow> retry_result \<Rightarrow> message \<times> call_state" where
  "run_result k (Again p) = k p"
| "run_result k (Answer m p) = (m, p)"
| "run_result k (NoRetry p) = (internal_error p (plain_error ''''), p)"

lemma execute_code [code]: "execute E req p = run_result (execute E req) (execute_once E req p)"
  by (subst execute.simps) (simp split: retry_result.split)

end
