(* ===== verification/Call_Handle.thy ===== *)
theory Call_Handle
  imports Call_Execution
begin

text \<open>
  A tool call from beginning to end (\<open>handleCallWithOptions\<close> in
  \<open>internal/daemon/daemon_call.go\<close>) and what it guarantees: nothing is sent or answered
  without authorisation, at most four requests are sent, and every connection and lock is
  given back.  Two ways around the guarantees are proved as well: a call that carries raw
  parameters is forwarded under a tool name nobody checked, and a response that is redacted
  the first time is served unredacted from the cache the second time.
\<close>

definition initial_call :: "string option \<Rightarrow> daemon \<Rightarrow> call_state" where
  "initial_call i d =
     \<lparr> cs_daemon = d, cs_ID = i,
       cs_params = \<lparr> cp_Server = '''', cp_Tool = '''', cp_Name = '''', cp_Method = '''',
         cp_Params = None, cp_Arguments = None, cp_AgentID = '''', cp_AgentType = '''',
         cp_SessionID = '''', cp_Timeout = '''' \<rparr>,
       cs_serverName = '''', cs_toolName = '''', cs_method = '''', cs_cacheKey = '''',
       cs_stage = '''', cs_conn = None, cs_target = TargetLocal, cs_lockHeld = False,
       cs_localCheckout = False, cs_localGeneration = 0, cs_preferHubRetryEligible = False,
       cs_hubDelegateActive = False, cs_localRetryUsed = False,
       cs_localTransportRetryUsed = False, cs_hubTransportRetryUsed = False,
       cs_callTimeoutExtended = False, cs_clock = 0, cs_effects = [] \<rparr>"

definition finish :: "environment \<Rightarrow> message \<times> call_state \<Rightarrow> message \<times> call_state" where
  "finish E r =
     (case r of (m, p) \<Rightarrow>
        (case scan_output E m p of (Some m', p') \<Rightarrow> (m', p') | (None, p') \<Rightarrow> (m, p')))"

definition forward_call :: "environment \<Rightarrow> call_state \<Rightarrow> message \<times> call_state" where
  "forward_call E p =
     (case build_forward_request E p of
        (Inl m, p1) \<Rightarrow> (m, release_connection E p1)
      | (Inr req, p1) \<Rightarrow>
          (let (m, p2) = finish E (execute E req p1) in (m, release_connection E p2)))"

definition dispatch_call :: "environment \<Rightarrow> call_state \<Rightarrow> message \<times> call_state" where
  "dispatch_call E p =
     (if is_synthetic_bulk_tool p then finish E (ev_bulk E (p\<lparr> cs_stage := ''execute'' \<rparr>))
      else if is_weaver_tool p then finish E (ev_weaver E (p\<lparr> cs_stage := ''execute'' \<rparr>))
      else
        (case try_cached_response E p of
           (Some m, p1) \<Rightarrow> (m, p1)
         | (None, p1) \<Rightarrow>
             (case route_and_connect E p1 of
                (Some m, p2) \<Rightarrow> (m, p2)
              | (None, p2) \<Rightarrow> forward_call E p2)))"

definition handle_call ::
  "environment \<Rightarrow> bool \<Rightarrow> string option \<Rightarrow> string + call_params \<Rightarrow> daemon \<Rightarrow> message \<times> call_state" where
  "handle_call E acquired i decoded d =
     (let p = initial_call i d in
      if dm_draining d then
        (new_error_response i internal_error_code ''daemon is draining, retry after backoff''
           (Some new_draining_error), p)
      else if \<not> acquired then
        (new_error_response i internal_error_code ''call concurrency limit reached''
           (Some (new_gate_error ''CONCURRENCY_LIMIT'')), p)
      else
        (case parse_and_resolve decoded p of
           (Some m, p1) \<Rightarrow> (m, p1)
         | (None, p1) \<Rightarrow>
             (case validate_input_schema p1 of
                (Some m, p2) \<Rightarrow> (m, p2)
              | (None, p2) \<Rightarrow>
                  (case authorize E p2 of
                     (Some m, p3) \<Rightarrow> (m, p3)
                   | (None, p3) \<Rightarrow>
                       (case enforce_request_policy p3 of
                          (Some m, p4) \<Rightarrow> (m, p4)
                        | (None, p4) \<Rightarrow> dispatch_call E p4)))))"

text \<open>Code equations that evaluate one stage before they look at the next.\<close>

lemma forward_call_code [code]:
  "forward_call E p =
     (let r = build_forward_request E p in
      case fst r of
        Inl m \<Rightarrow> (m, release_connection E (snd r))
      | Inr req \<Rightarrow>
          (let x = finish E (execute E req (snd r)) in (fst x, release_connection E (snd x))))"
  unfolding forward_call_def case_prod_beta Let_def by (rule refl)

lemma dispatch_call_code [code]:
  "dispatch_call E p =
     (if is_synthetic_bulk_tool p then finish E (ev_bulk E (p\<lparr> cs_stage := ''execute'' \<rparr>))
      else if is_weaver_tool p then finish E (ev_weaver E (p\<lparr> cs_stage := ''execute'' \<rparr>))
      else
        (let r1 = try_cached_response E p in
         case fst r1 of
           Some m \<Rightarrow> (m, snd r1)
         | None \<Rightarrow>
             (let r2 = route_and_connect E (snd r1) in
              case fst r2 of Some m \<Rightarrow> (m, snd r2) | None \<Rightarrow> forward_call E (snd r2))))"
  unfolding dispatch_call_def case_prod_beta Let_def by (rule refl)

lemma handle_call_code [code]:
  "handle_call E acquired i decoded d =
     (let p = initial_call i d in
      if dm_draining d then
        (new_error_response i internal_error_code ''daemon is draining, retry after backoff''
           (Some new_draining_error), p)
      else if \<not> acquired then
        (new_error_response i internal_error_code ''call concurrency limit reached''
           (Some (new_gate_error ''CONCURRENCY_LIMIT'')), p)
      else
        (let r1 = parse_and_resolve decoded p in
         case fst r1 of Some m \<Rightarrow> (m, snd r1) | None \<Rightarrow>
         (let r2 = validate_input_schema (snd r1) in
          case fst r2 of Some m \<Rightarrow> (m, snd r2) | None \<Rightarrow>
          (let r3 = authorize E (snd r2) in
           case fst r3 of Some m \<Rightarrow> (m, snd r3) | None \<Rightarrow>
           (let r4 = enforce_request_policy (snd r3) in
            case fst r4 of Some m \<Rightarrow> (m, snd r4) | None \<Rightarrow> dispatch_call E (snd r4))))))"
  unfolding handle_call_def case_prod_beta Let_def by (rule refl)

text \<open>The same chain of stages as a combinator: an answer ends the call.\<close>

definition stage_then ::
  "message option \<times> call_state \<Rightarrow> (call_state \<Rightarrow> message \<times> call_state) \<Rightarrow> message \<times> call_state" where
  "stage_then r k = (case r of (Some m, p) \<Rightarrow> (m, p) | (None, p) \<Rightarrow> k p)"

subsection \<open>Sends are bounded and repeat one request\<close>

lemma sends_flag_updates [simp]:
  "sends (p\<lparr> cs_hubTransportRetryUsed := b \<rparr>) = sends p"
  "sends (p\<lparr> cs_localTransportRetryUsed := b \<rparr>) = sends p"
  "sends (p\<lparr> cs_localRetryUsed := b \<rparr>) = sends p"
  "sends (p\<lparr> cs_stage := st \<rparr>) = sends p" "sends (p\<lparr> cs_callTimeoutExtended := b \<rparr>) = sends p"
  "sends (p\<lparr> cs_daemon := d \<rparr>) = sends p" "sends (p\<lparr> cs_cacheKey := k \<rparr>) = sends p"
  "sends (p\<lparr> cs_preferHubRetryEligible := b \<rparr>) = sends p"
  "sends (p\<lparr> cs_hubDelegateActive := b \<rparr>) = sends p"
  "sends (p\<lparr> cs_params := ps, cs_serverName := s1, cs_toolName := s2, cs_method := s3 \<rparr>) = sends p"
  "sends (p\<lparr> cs_serverName := s1 \<rparr>) = sends p"
  by (simp_all add: sends_def)

text \<open>
  A view that the stages, the retries and the routing leave alone as well: the request
  goes out again, to another target perhaps, but it is the same call.
\<close>

locale call_view = call_frame Q for Q :: "call_state \<Rightarrow> 'a" +
  assumes view_stage: "Q (p\<lparr> cs_stage := st \<rparr>) = Q p"
    and view_extended: "Q (p\<lparr> cs_callTimeoutExtended := b \<rparr>) = Q p"
    and view_local_retry: "Q (p\<lparr> cs_localRetryUsed := b \<rparr>) = Q p"
    and view_local_transport: "Q (p\<lparr> cs_localTransportRetryUsed := b \<rparr>) = Q p"
    and view_hub_transport: "Q (p\<lparr> cs_hubTransportRetryUsed := b \<rparr>) = Q p"
    and view_eligible: "Q (p\<lparr> cs_preferHubRetryEligible := b \<rparr>) = Q p"
    and view_delegate: "Q (p\<lparr> cs_hubDelegateActive := b \<rparr>) = Q p"
begin

lemmas view = view_stage view_extended view_local_retry view_local_transport view_hub_transport
  view_eligible view_delegate

lemma view_choose: "Q (snd (choose_target E t p)) = Q p"
  by (simp add: choose_target_def Let_def case_prod_beta frame view)

lemma view_route: "Q (snd (route_and_connect E p)) = Q p"
  by (simp add: route_and_connect_def Let_def case_prod_beta frame view view_choose
      frame_connect_retry frame_set_backoff frame_audit split: option.split sum.split)

lemma view_retry:
  "Q (result_state (retry_hub_after_hub_failure E st err p)) = Q p"
  "Q (result_state (retry_local_after_local_send_failure E err p)) = Q p"
  "Q (result_state (retry_local_after_hub_failure E st err p)) = Q p"
    apply (simp add: retry_hub_after_hub_failure_def Let_def case_prod_beta frame view
      frame_unhealthy frame_release frame_connect split: option.split)
   apply (simp add: retry_local_after_local_send_failure_def Let_def case_prod_beta frame view
      frame_unhealthy frame_release frame_retire frame_connect_retry frame_audit split: option.split)
  apply (simp add: retry_local_after_hub_failure_def Let_def case_prod_beta frame view
      frame_unhealthy frame_release frame_set_backoff frame_connect_retry frame_audit
      split: option.split)
  done

lemma view_or_retry:
  "Q (result_state r) = x \<Longrightarrow> (\<And>q. Q (result_state (f q)) = Q q) \<Longrightarrow>
    Q (result_state (or_retry r f)) = x"
  by (cases r) (simp_all add: or_retry_def)

lemma view_failure:
  "Q (result_state (case transport_failure E st err q of (m, p1) \<Rightarrow> Answer m p1)) = Q q"
  by (simp add: case_prod_beta frame_transport_failure)

lemma view_fail:
  "Q (result_state (fail_send E err p)) = Q p"
  "Q (result_state (fail_recv E err p)) = Q p"
  unfolding fail_send_def fail_recv_def Let_def
  by (intro view_or_retry view_retry view_failure)+

end

interpretation sends_view: call_view sends
  by unfold_locales simp_all

interpretation identity_view: call_view identity
  by unfold_locales (simp_all add: identity_def)

lemma sends_cache_success: "sends (cache_success_response E resp p) = sends p"
  by (simp add: cache_success_response_def sends.frame split: option.split)

lemma sends_execute_once:
  "\<exists>t. sends (result_state (execute_once E req p)) = sends p @ [(t, req)]"
proof -
  let ?p = "resolve_call_timeout E (p\<lparr> cs_stage := ''execute'' \<rparr>)"
  have "sends (result_state (execute_once E req p)) = sends p @ [(cs_target ?p, req)]"
    by (simp add: execute_once_def Let_def sends_view.view_fail sends.frame sends.frame_record_success
        sends_cache_success resolve_call_timeout_def split: option.split sum.split)
  then show ?thesis by blast
qed

lemma execute_once_not_NoRetry: "execute_once E req p \<noteq> NoRetry q"
proof -
  have f: "or_retry r (\<lambda>p'. case transport_failure E st err p' of (m, p1) \<Rightarrow> Answer m p1) \<noteq> NoRetry q"
    for r st err by (cases r) (simp_all add: or_retry_def case_prod_beta)
  then show ?thesis
    by (simp add: execute_once_def fail_send_def fail_recv_def Let_def split: option.split sum.split)
qed

lemma execute_sends:
  "\<exists>ts. sends (snd (execute E req p)) = sends p @ map (\<lambda>t. (t, req)) ts \<and>
     1 \<le> length ts \<and> length ts \<le> retries_left p + 1"
proof (induction E req p rule: execute.induct)
  case (1 E req p)
  obtain t where s: "sends (result_state (execute_once E req p)) = sends p @ [(t, req)]"
    using sends_execute_once by blast
  show ?case
  proof (cases "execute_once E req p")
    case (NoRetry q)
    then show ?thesis using execute_once_not_NoRetry by blast
  next
    case (Answer m q)
    with s show ?thesis by (intro exI [of _ "[t]"]) (simp add: execute.simps [of E req p])
  next
    case (Again q)
    with "1.IH" obtain ts where ts: "sends (snd (execute E req q)) = sends q @ map (\<lambda>t. (t, req)) ts"
      "length ts \<le> retries_left q + 1" by blast
    moreover have "retries_left q < retries_left p"
      using execute_once_uses_retry [of p E req] Again by (simp add: uses_retry_def retries_left_flags)
    ultimately show ?thesis using s Again
      by (intro exI [of _ "t # ts"]) (simp add: execute.simps [of E req p])
  qed
qed

text \<open>The part of a call that its authorisation depends on, which sending does not change.\<close>

definition enforced :: "call_state \<Rightarrow> rbac_enforcer option \<times> gateway_config option" where
  "enforced p = (dm_rbac (cs_daemon p), dm_policy (cs_daemon p))"

interpretation enforced_view: call_view enforced
  by unfold_locales (simp_all add: enforced_def tick_def emit_def on_routing_def)

lemma identity_cache_success: "identity (cache_success_response E resp p) = identity p"
  by (simp add: cache_success_response_def identity_def tick_def split: option.split)

lemma identity_emit: "identity (emit e p) = identity p"
  by (simp add: identity_def emit_def)

lemma identity_execute_once: "identity (result_state (execute_once E req p)) = identity p"
  by (simp add: execute_once_def Let_def identity_view.view_fail identity.frame identity_view.view
      identity.frame_record_success identity_cache_success resolve_call_timeout_def
      identity_emit split: option.split sum.split)

lemma identity_execute: "identity (snd (execute E req p)) = identity p"
proof (induction E req p rule: execute.induct)
  case (1 E req p)
  have "identity (result_state (execute_once E req p)) = identity p" by (rule identity_execute_once)
  with 1 show ?case
    by (cases "execute_once E req p") (simp_all add: execute.simps [of E req p])
qed

lemma identity_scan: "identity (snd (finish E r)) = identity (snd r)"
  by (simp add: finish_def scan_output_def Let_def case_prod_beta identity_view.view
      split: option.split)

lemma sends_scan: "sends (snd (finish E r)) = sends (snd r)"
  by (simp add: finish_def scan_output_def Let_def case_prod_beta split: option.split)

lemma build_forward_frame:
  "identity (snd (build_forward_request E p)) = identity p"
  "sends (snd (build_forward_request E p)) = sends p"
  "retries_left (snd (build_forward_request E p)) = retries_left p"
  by (simp_all add: build_forward_request_def Let_def case_prod_beta identity_view.view
      identity.frame_audit sends.frame_audit retries_left_flags flags.frame_audit
      split: option.split)

text \<open>What forwarding sends: copies of one request, at most one more than the retries left.\<close>

lemma forward_call_sends:
  "\<exists>ts. sends (snd (forward_call E p)) =
      sends p @ (case fst (build_forward_request E p) of Inl _ \<Rightarrow> []
        | Inr req \<Rightarrow> map (\<lambda>t. (t, req)) ts) \<and>
    length ts \<le> retries_left p + 1"
proof (cases "fst (build_forward_request E p)")
  case (Inl m)
  then show ?thesis
    by (intro exI [of _ "[]"]) (simp add: forward_call_def case_prod_beta sends.frame_release
        build_forward_frame)
next
  case (Inr req)
  obtain ts where "sends (snd (execute E req (snd (build_forward_request E p)))) =
      sends p @ map (\<lambda>t. (t, req)) ts" "length ts \<le> retries_left p + 1"
    using execute_sends [of E req "snd (build_forward_request E p)"]
    by (auto simp: build_forward_frame)
  with Inr show ?thesis
    by (intro exI [of _ ts]) (simp add: forward_call_def case_prod_beta Let_def sends.frame_release
        sends_scan)
qed

lemma forward_call_identity: "identity (snd (forward_call E p)) = identity p"
  by (simp add: forward_call_def case_prod_beta Let_def identity.frame_release identity_scan
      identity_execute build_forward_frame split: sum.split)

lemma cached_frame:
  "sends (snd (try_cached_response E p)) = sends p"
  "retries_left (snd (try_cached_response E p)) = retries_left p"
  "cs_params (snd (try_cached_response E p)) = cs_params p"
  "cs_serverName (snd (try_cached_response E p)) = cs_serverName p"
  "cs_toolName (snd (try_cached_response E p)) = cs_toolName p"
  "cs_ID (snd (try_cached_response E p)) = cs_ID p"
  "cs_method (snd (try_cached_response E p)) = cs_method p"
  by (simp_all add: try_cached_response_def Let_def case_prod_beta sends.frame retries_left_def
      sends_def sent_of_other tick_def emit_def split: option.split)

text \<open>Everything of a call but its names and its stage.\<close>

definition core :: "call_state \<Rightarrow>
    daemon \<times> (bool \<times> bool \<times> bool) \<times> effect list \<times> bool option \<times> bool \<times> bool \<times> nat" where
  "core p = (cs_daemon p, flags p, cs_effects p, cs_conn p, cs_localCheckout p, cs_lockHeld p, cs_clock p)"

lemma core_initial: "core (initial_call i d) = (d, (False, False, False), [], None, False, False, 0)"
  by (simp add: core_def initial_call_def flags_def)

lemma core_update [simp]:
  "core (p\<lparr> cs_stage := st \<rparr>) = core p"
  "core (p\<lparr> cs_params := ps, cs_serverName := s1, cs_toolName := s2, cs_method := s3 \<rparr>) = core p"
  "core (p\<lparr> cs_serverName := s1 \<rparr>) = core p"
  by (simp_all add: core_def flags_def)

lemma parse_core: "core (snd (parse_and_resolve decoded p)) = core p"
  by (simp add: parse_and_resolve_def Let_def case_prod_beta core_def flags_def
      split: sum.split option.split)

lemma validate_core: "core (snd (validate_input_schema p)) = core p"
  "identity (snd (validate_input_schema p)) = identity p"
  by (simp_all add: validate_input_schema_def Let_def identity_view.view split: option.split)

lemma policy_core:
  "enforce_request_policy p = (None, p') \<Longrightarrow> core p' = core p \<and> identity p' = identity p"
  by (auto simp: enforce_request_policy_def Let_def identity_view.view split: option.splits if_splits)

lemma early_errors:
  "parse_and_resolve decoded p = (Some m, p') \<Longrightarrow> ms_Error m \<noteq> None"
  "validate_input_schema p = (Some m, p') \<Longrightarrow> ms_Error m \<noteq> None"
  "authorize E p = (Some m, p') \<Longrightarrow> ms_Error m \<noteq> None"
  "enforce_request_policy p = (Some m, p') \<Longrightarrow> ms_Error m \<noteq> None"
  subgoal
    by (auto simp: parse_and_resolve_def Let_def case_prod_beta invalid_params_error_def
        internal_error_def new_error_response_def split: sum.splits option.splits if_splits)
  subgoal
    by (auto simp: validate_input_schema_def Let_def handle_schema_failure_def
        invalid_params_error_def new_error_response_def
        split: option.splits if_splits schema_mode.splits)
  subgoal
    by (auto simp: authorize_def Let_def case_prod_beta rbac_denied_error_def
        new_error_response_def split: option.splits if_splits)
  subgoal
    by (auto simp: enforce_request_policy_def Let_def policy_denied_error_def
        new_error_response_def split: option.splits if_splits)
  done

text \<open>A call that has sent, taken and locked nothing: it has at most been audited.\<close>

definition quiet :: "call_state \<Rightarrow> bool" where
  "quiet p \<longleftrightarrow>
     (\<forall>e \<in> set (cs_effects p). (\<exists>a b. e = Audited a b) \<or> (\<exists>x. e = AccessDenied x)) \<and>
     cs_conn p = None \<and> \<not> cs_localCheckout p \<and> \<not> cs_lockHeld p"

lemma quiet_core: "core p = core q \<Longrightarrow> quiet p = quiet q"
  by (auto simp: core_def quiet_def)

lemma quiet_initial: "quiet (initial_call i d)"
  by (simp add: quiet_def initial_call_def)

lemma quiet_sends: "quiet p \<Longrightarrow> sends p = []"
proof -
  have "(\<forall>e \<in> set es. (\<exists>a b. e = Audited a b) \<or> (\<exists>x. e = AccessDenied x)) \<Longrightarrow> sent_of es = []" for es
    by (induction es) auto
  then show "quiet p \<Longrightarrow> sends p = []" by (simp add: quiet_def sends_def)
qed

lemma early_quiet:
  "quiet p \<Longrightarrow> quiet (snd (parse_and_resolve decoded p))"
  "quiet p \<Longrightarrow> quiet (snd (validate_input_schema p))"
  "quiet p \<Longrightarrow> quiet (snd (authorize E p))"
  "quiet p \<Longrightarrow> quiet (snd (enforce_request_policy p))"
  subgoal using quiet_core [OF parse_core] by simp
  subgoal using quiet_core [OF validate_core(1)] by simp
  subgoal
    by (auto simp: authorize_def Let_def case_prod_beta tick_def emit_def quiet_def split: option.split)
  subgoal
    by (auto simp: enforce_request_policy_def Let_def emit_def quiet_def split: option.split)
  done

subsection \<open>No effect without authorisation\<close>

text \<open>
  The two enforcers, asked with the names the parser resolved.  The clock of the daemon is
  read for the first time by the access check.
\<close>

definition authorised :: "environment \<Rightarrow> daemon \<Rightarrow> call_state \<Rightarrow> bool" where
  "authorised E d p \<longleftrightarrow>
     (case dm_rbac d of
        None \<Rightarrow> True
      | Some e \<Rightarrow>
          ad_Allowed (fst (check e (ev_now E 0) (cp_AgentID (cs_params p))
            (cp_AgentType (cs_params p)) (cs_serverName p) (cs_toolName p)))) \<and>
     (case dm_policy d of
        None \<Rightarrow> True
      | Some g \<Rightarrow> pd_Allowed (check_request g (cs_serverName p) (cs_toolName p) (cs_params p)))"

lemma authorize_None:
  "authorize E p = (None, p') \<Longrightarrow>
    (case dm_rbac (cs_daemon p) of
       None \<Rightarrow> True
     | Some e \<Rightarrow>
         ad_Allowed (fst (check e (ev_now E (cs_clock p)) (cp_AgentID (cs_params p))
           (cp_AgentType (cs_params p)) (cs_serverName p) (cs_toolName p)))) \<and>
    identity p' = identity p \<and> dm_policy (cs_daemon p') = dm_policy (cs_daemon p) \<and>
    flags p' = flags p \<and> cs_conn p' = cs_conn p \<and> cs_localCheckout p' = cs_localCheckout p \<and>
    cs_lockHeld p' = cs_lockHeld p \<and> cs_effects p' = cs_effects p \<and>
    (\<exists>x. cs_daemon p' = (cs_daemon p)\<lparr> dm_rbac := x \<rparr>)"
  by (auto simp: authorize_def Let_def case_prod_beta identity_def tick_def flags_def
      split: option.splits if_splits intro: exI [of _ None])

lemma policy_None:
  "enforce_request_policy p = (None, p') \<Longrightarrow>
    (case dm_policy (cs_daemon p) of
       None \<Rightarrow> True
     | Some g \<Rightarrow> pd_Allowed (check_request g (cs_serverName p) (cs_toolName p) (cs_params p)))"
  by (auto simp: enforce_request_policy_def Let_def split: option.splits if_splits)

text \<open>The stages before dispatch: they end the call with an error, or dispatch it authorised.\<close>

lemma handle_call_cases:
  assumes "handle_call E acquired i decoded d = (m, p')"
  defines "p1 \<equiv> snd (parse_and_resolve decoded (initial_call i d))"
  obtains (refused) "ms_Error m \<noteq> None" "quiet p'"
  | (dispatched) p4 where "authorised E d p1" "dispatch_call E p4 = (m, p')"
      "identity p4 = identity p1" "flags p4 = (False, False, False)" "cs_conn p4 = None"
      "cs_localCheckout p4 = False" "cs_lockHeld p4 = False" "cs_effects p4 = []"
      "\<exists>x. cs_daemon p4 = d\<lparr> dm_rbac := x \<rparr>"
      "fst (parse_and_resolve decoded (initial_call i d)) = None"
proof (cases "dm_draining d \<or> \<not> acquired")
  case True
  with assms(1) have "ms_Error m \<noteq> None \<and> quiet p'"
    by (auto simp: handle_call_def Let_def new_error_response_def quiet_initial split: if_splits)
  then show ?thesis using refused by blast
next
  case False
  let ?p0 = "initial_call i d"
  obtain r1 where parse: "parse_and_resolve decoded ?p0 = (r1, p1)" unfolding p1_def by (metis prod.collapse)
  obtain r2 p2 where valid: "validate_input_schema p1 = (r2, p2)" by fastforce
  obtain r3 p3 where auth: "authorize E p2 = (r3, p3)" by fastforce
  obtain r4 p4 where pol: "enforce_request_policy p3 = (r4, p4)" by fastforce
  have s: "quiet p1" "quiet p2" "quiet p3" "quiet p4"
    using quiet_initial [of i d] early_quiet(1) [of ?p0 decoded] early_quiet(2) [of p1]
      early_quiet(3) [of p2 E] early_quiet(4) [of p3] parse valid auth pol by simp_all
  have run: "(m, p') = stage_then (r1, p1) (\<lambda>p1. stage_then (validate_input_schema p1)
      (\<lambda>p2. stage_then (authorize E p2)
        (\<lambda>p3. stage_then (enforce_request_policy p3) (dispatch_call E))))"
    using assms(1) False parse by (simp add: handle_call_def stage_then_def)
  show ?thesis
  proof (cases r1)
    case (Some x)
    with run parse early_errors(1) [of decoded ?p0] s have "ms_Error m \<noteq> None \<and> quiet p'"
      by (simp add: stage_then_def)
    then show ?thesis using refused by blast
  next
    case r1: None
    show ?thesis
    proof (cases r2)
      case (Some x)
      with run r1 valid early_errors(2) [of p1] s have "ms_Error m \<noteq> None \<and> quiet p'"
        by (simp add: stage_then_def)
      then show ?thesis using refused by blast
    next
      case r2: None
      show ?thesis
      proof (cases r3)
        case (Some x)
        with run r1 r2 valid auth early_errors(3) [of E p2] s
        have "ms_Error m \<noteq> None \<and> quiet p'" by (simp add: stage_then_def)
        then show ?thesis using refused by blast
      next
        case r3: None
        show ?thesis
        proof (cases r4)
          case (Some x)
          with run r1 r2 r3 valid auth pol early_errors(4) [of p3] s
          have "ms_Error m \<noteq> None \<and> quiet p'" by (simp add: stage_then_def)
          then show ?thesis using refused by blast
        next
          case r4: None
          have "core p2 = (d, (False, False, False), [], None, False, False, 0)"
            using parse_core [of decoded ?p0] validate_core(1) [of p1] parse valid
            by (simp add: core_initial)
          then have c2: "cs_daemon p2 = d" "flags p2 = (False, False, False)" "cs_effects p2 = []"
            "cs_conn p2 = None" "cs_localCheckout p2 = False" "cs_lockHeld p2 = False"
            "cs_clock p2 = 0" by (simp_all add: core_def)
          have id2: "identity p2 = identity p1" using validate_core(2) [of p1] valid by simp
          note a3 = authorize_None [OF auth [unfolded r3]]
          note c4 = policy_core [OF pol [unfolded r4]]
          have id3: "identity p3 = identity p1" using a3 id2 by simp
          then have "authorised E d p1"
            using a3 policy_None [OF pol [unfolded r4]] id2 c2
            by (auto simp: authorised_def identity_def split: option.splits)
          moreover have "dispatch_call E p4 = (m, p')"
            using run r1 r2 r3 r4 valid auth pol by (simp add: stage_then_def)
          moreover have "identity p4 = identity p1" using c4 id3 by simp
          ultimately show ?thesis
            using dispatched [of p4] c4 a3 c2 r1 parse by (simp add: core_def)
        qed
      qed
    qed
  qed
qed

subsection \<open>A call to evaluate\<close>

text \<open>Calls that the bulk and weaver handlers answer are not forwarded by this code.\<close>

definition synthetic :: "daemon \<Rightarrow> call_state \<Rightarrow> bool" where
  "synthetic d p \<longleftrightarrow>
     cs_toolName p = ''bulk'' \<or> dm_weaver d \<and> List.member weaver_tool_names (cs_toolName p)"

definition demo_call_daemon :: daemon where
  "demo_call_daemon =
     \<lparr> dm_draining = False, dm_router = Some (\<lambda>_. Inr ''''), dm_routes = None,
       dm_rbac = Some demo_enforcer, dm_policy = None, dm_respCache = None,
       dm_routing = demo_routing\<lparr> rs_preferences := (\<lambda>_. None) \<rparr>,
       dm_hub = \<lparr> hc_hubPool = True, hc_hubClient = True, hc_hubAuthDisabled = False,
         hc_warmOnStart = [], hc_delegateServers = [] \<rparr>,
       dm_pool = True, dm_muxStdio = True, dm_weaver = False, dm_visible = [],
       dm_bulkEligible = (\<lambda>_. False), dm_schemaMode = SchemaUnset, dm_scanMode = ScanUnset,
       dm_recvThreshold = 3 \<rparr>"

definition demo_env :: environment where
  "demo_env =
     \<lparr> ev_now = (\<lambda>n. 0), ev_ctxDone = (\<lambda>_. False), ev_route = (\<lambda>_. Inr TargetLocal),
       ev_lock = (\<lambda>_. None), ev_checkoutLocal = (\<lambda>_. Inr 1), ev_getHub = (\<lambda>_. None),
       ev_send = (\<lambda>_. None),
       ev_recv = (\<lambda>_. Inr (new_response (Some ''1'') ''token=hunter2'')),
       ev_retire = (\<lambda>_. True), ev_sha256 = (\<lambda>s. s), ev_timeoutText = ''1m0s'',
       ev_callTimeout = (\<lambda>_ _. minute), ev_toolTimeout = 0, ev_controlTimeout = 0,
       ev_effectiveAgent = cp_AgentID, ev_findings = (\<lambda>t. if contains t ''token='' then [''generic_secret''] else []),
       ev_redact = (\<lambda>_. Some ''[REDACTED:secret]''), ev_marshal = (\<lambda>_. ''{}''),
       ev_bulk = (\<lambda>p. (new_response None '''', p)), ev_weaver = (\<lambda>p. (new_response None '''', p)) \<rparr>"

definition demo_params :: call_params where
  "demo_params = \<lparr> cp_Server = ''git'', cp_Tool = ''log'', cp_Name = '''', cp_Method = '''',
     cp_Params = None, cp_Arguments = None, cp_AgentID = ''bob'', cp_AgentType = '''',
     cp_SessionID = '''', cp_Timeout = '''' \<rparr>"

abbreviation demo_run :: "call_params \<Rightarrow> daemon \<Rightarrow> message \<times> call_state" where
  "demo_run params d \<equiv> handle_call demo_env True (Some ''1'') (Inr params) d"

abbreviation demo_parsed :: "call_params \<Rightarrow> daemon \<Rightarrow> call_state" where
  "demo_parsed params d \<equiv> snd (parse_and_resolve (Inr params) (initial_call (Some ''1'') d))"

lemma demo_sends: "length (sends (snd (demo_run demo_params demo_call_daemon))) = 1"
  by code_simp

lemma demo_not_synthetic: "\<not> synthetic demo_call_daemon (demo_parsed demo_params demo_call_daemon)"
  by code_simp

text \<open>
  C6. A call whose caller the access rules or the gateway policy do not admit has no
  effect: if a request went out to any transport, or the call was answered with anything
  but an error (from the cache or from upstream), then both enforcers allowed it under the
  server and tool name the parser resolved.
\<close>

theorem call_needs_authorisation:
  assumes "handle_call E acquired i decoded d = (m, p')"
    and "sends p' \<noteq> [] \<or> ms_Error m = None"
  shows "authorised E d (snd (parse_and_resolve decoded (initial_call i d)))"
  using assms by (elim handle_call_cases) (simp_all add: quiet_sends)

lemma call_needs_authorisation_witness:
  "authorised demo_env demo_call_daemon (demo_parsed demo_params demo_call_daemon)"
proof -
  obtain m p' where h: "demo_run demo_params demo_call_daemon = (m, p')" by fastforce
  then have "sends p' \<noteq> [] \<or> ms_Error m = None" using demo_sends by auto
  then show ?thesis by (rule call_needs_authorisation [OF h])
qed

subsection \<open>What is forwarded\<close>

lemma dispatch_call_cases:
  assumes "dispatch_call E p4 = (m, p')" and "\<not> synthetic (cs_daemon p4) p4"
  obtains (ended) "sends p' = sends p4" "identity p' = identity (snd (try_cached_response E p4))"
      "try_cached_response E p4 = (Some m, p')"
  | (unrouted) p5 where "try_cached_response E p4 = (None, p5)"
      "route_and_connect E p5 = (Some m, p')"
  | (forwarded) p5 p6 where "try_cached_response E p4 = (None, p5)"
      "route_and_connect E p5 = (None, p6)" "forward_call E p6 = (m, p')"
proof -
  have ns: "\<not> is_synthetic_bulk_tool p4" "\<not> is_weaver_tool p4"
    using assms(2) by (auto simp: synthetic_def is_synthetic_bulk_tool_def is_weaver_tool_def)
  obtain r5 p5 where c: "try_cached_response E p4 = (r5, p5)" by fastforce
  obtain r6 p6 where r: "route_and_connect E p5 = (r6, p6)" by fastforce
  from assms(1) ns c r have "(m, p') = stage_then (r5, p5) (\<lambda>p1. stage_then (route_and_connect E p1) (forward_call E))"
    by (simp add: dispatch_call_def stage_then_def)
  with c r cached_frame(1) [of E p4] show ?thesis
    using ended unrouted [of p5] forwarded [of p5 p6]
    by (cases r5; cases r6) (auto simp: stage_then_def)
qed

lemma retries_left_initial: "flags p = (False, False, False) \<Longrightarrow> retries_left p = 3"
  by (simp add: retries_left_flags retries_of_def)

lemma route_retries: "retries_left (snd (route_and_connect E p)) \<le> retries_left p"
proof -
  have fe: "flags (p\<lparr> cs_preferHubRetryEligible := b \<rparr>) = flags p" for b p by (simp add: flags_def)
  have fd: "flags (p\<lparr> cs_hubDelegateActive := b \<rparr>) = flags p" for b p by (simp add: flags_def)
  have ch: "flags (snd (choose_target E t p)) = flags p" for t p
    by (simp add: choose_target_def Let_def case_prod_beta flags.frame fe fd)
  have le: "retries_of (flags (p\<lparr> cs_localRetryUsed := True \<rparr>)) \<le> retries_of (flags p)" for p
    by (simp add: flags_def retries_of_def)
  have le': "flags q = flags p \<Longrightarrow>
      retries_of (flags (q\<lparr> cs_localRetryUsed := True \<rparr>)) \<le> retries_of (flags p)" for p q
    using le [of q] by simp
  show ?thesis
    by (simp add: route_and_connect_def Let_def case_prod_beta retries_left_flags flags.frame
        flags.frame_connect_retry flags.frame_set_backoff flags.frame_audit ch le'
        split: option.split sum.split)
qed

lemma dispatch_sends:
  assumes "dispatch_call E p4 = (m, p')" and "\<not> synthetic (cs_daemon p4) p4"
    and "cs_effects p4 = []" and "flags p4 = (False, False, False)"
  shows "\<exists>ts. length ts \<le> 4 \<and> (sends p' = [] \<or> (\<exists>p6 req. sends p' = map (\<lambda>t. (t, req)) ts \<and>
    fst (build_forward_request E p6) = Inr req \<and> cs_params p6 = cs_params p4 \<and>
    cs_toolName p6 = cs_toolName p4))"
  using assms(1,2)
proof (cases rule: dispatch_call_cases)
  case ended
  with assms(3) show ?thesis by (intro exI [of _ "[]"]) (simp add: sends_def)
next
  case (unrouted p5)
  then have "sends p' = sends p4"
    using sends_view.view_route [of E p5] cached_frame(1) [of E p4] by simp
  with assms(3) show ?thesis by (intro exI [of _ "[]"]) (simp add: sends_def)
next
  case (forwarded p5 p6)
  have s6: "sends p6 = []"
    using forwarded sends_view.view_route [of E p5] cached_frame(1) [of E p4] assms(3)
    by (simp add: sends_def)
  have r6: "retries_left p6 \<le> 3"
    using forwarded route_retries [of E p5] cached_frame(2) [of E p4]
      retries_left_initial [OF assms(4)] by simp
  have i6: "cs_params p6 = cs_params p4" "cs_toolName p6 = cs_toolName p4"
    using forwarded identity_view.view_route [of E p5] cached_frame [of E p4]
    by (simp_all add: identity_def)
  obtain ts where "sends p' = (case fst (build_forward_request E p6) of Inl _ \<Rightarrow> []
        | Inr req \<Rightarrow> map (\<lambda>t. (t, req)) ts)" "length ts \<le> 4"
    using forward_call_sends [of E p6] forwarded(3) s6 r6 by (auto simp: le_Suc_eq)
  with i6 show ?thesis by (cases "fst (build_forward_request E p6)") auto
qed

lemma handle_call_sends:
  assumes "handle_call E acquired i decoded d = (m, p')"
    and "\<not> synthetic d (snd (parse_and_resolve decoded (initial_call i d)))"
  defines "p1 \<equiv> snd (parse_and_resolve decoded (initial_call i d))"
  shows "\<exists>ts. length ts \<le> 4 \<and> (sends p' = [] \<or> (\<exists>p6 req. sends p' = map (\<lambda>t. (t, req)) ts \<and>
    fst (build_forward_request E p6) = Inr req \<and> cs_params p6 = cs_params p1 \<and>
    cs_toolName p6 = cs_toolName p1))"
  using assms(1)
proof (cases rule: handle_call_cases)
  case refused
  then show ?thesis by (intro exI [of _ "[]"]) (simp add: quiet_sends)
next
  case (dispatched p4)
  then have "cs_toolName p4 = cs_toolName p1" "cs_params p4 = cs_params p1"
    by (simp_all add: identity_def p1_def)
  moreover from this have "\<not> synthetic (cs_daemon p4) p4"
    using assms(2) dispatched by (auto simp: synthetic_def p1_def)
  ultimately show ?thesis
    using dispatch_sends [OF dispatched(2)] dispatched by simp
qed

text \<open>
  However the transports fail, one call writes at most four requests, all of them the
  same: the original one, one retry on the hub, one fallback from the hub to the local
  server and one retry on the local transport.
\<close>

theorem call_sends_at_most_four:
  assumes "handle_call E acquired i decoded d = (m, p')"
    and "\<not> synthetic d (snd (parse_and_resolve decoded (initial_call i d)))"
  shows "length (sends p') \<le> 4 \<and> card (set (map snd (sends p'))) \<le> 1"
proof -
  have rd: "card (set xs) \<le> 1" if "set xs \<subseteq> {req}" for req :: message and xs
    using card_mono [OF _ that] by simp
  from handle_call_sends [OF assms] obtain ts where "length ts \<le> 4"
    "sends p' = [] \<or> (\<exists>req. sends p' = map (\<lambda>t. (t, req)) ts)" by blast
  moreover have "set (map snd (map (\<lambda>t. (t, req)) ts)) \<subseteq> {req}" for req :: message by auto
  ultimately show ?thesis using rd [of "map snd (sends p')"] by fastforce
qed

lemma call_sends_at_most_four_witness:
  "length (sends (snd (demo_run demo_params demo_call_daemon))) \<le> 4"
proof -
  obtain m p' where h: "demo_run demo_params demo_call_daemon = (m, p')" by fastforce
  from call_sends_at_most_four [OF h demo_not_synthetic] h show ?thesis by simp
qed

text \<open>The tool a request names, as the server that receives it reads it.\<close>

definition requested_tool :: "message \<Rightarrow> json option" where
  "requested_tool req =
     (case ms_Params req of
        None \<Rightarrow> None
      | Some raw \<Rightarrow> (case raw_value raw of JObj obj \<Rightarrow> map_of obj ''name'' | _ \<Rightarrow> None))"

lemma inject_keeps_name:
  "requested_tool (new_request i mt (inject_forward_identity E raw p)) =
     requested_tool (new_request i mt raw)"
  by (auto simp: requested_tool_def new_request_def inject_forward_identity_def set_key_def Let_def
      split: json.split)

lemma build_forward_name:
  assumes "fst (build_forward_request E p) = Inr req"
  shows "cp_Params (cs_params p) = None \<Longrightarrow> requested_tool req = Some (JStr (cs_toolName p))"
    and "cp_Params (cs_params p) = Some raw \<Longrightarrow>
      requested_tool req = requested_tool (new_request None '''' raw)"
proof -
  have name: "requested_tool (new_request i mt r) = requested_tool (new_request None '''' r)" for i mt r
    by (simp add: requested_tool_def new_request_def)
  have named: "requested_tool (new_request i mt (if b then inject_forward_identity E r q else r)) =
      Some (JStr n)" if "raw_value r = JObj [(''arguments'', a), (''name'', JStr n)]" for i mt b r q a n
    using that inject_keeps_name [of i mt E r q] by (simp add: requested_tool_def new_request_def)
  show "requested_tool req = Some (JStr (cs_toolName p))" if none: "cp_Params (cs_params p) = None"
  proof -
    let ?raw = "\<lambda>v. \<lparr> raw_text = ev_marshal E (JObj [(''arguments'', v), (''name'', JStr (cs_toolName p))]),
        raw_value = JObj [(''arguments'', v), (''name'', JStr (cs_toolName p))] \<rparr>"
    let ?req = "\<lambda>v. new_request (cs_ID p) (cs_method p)
        (if cs_target p = TargetHub
         then inject_forward_identity E (?raw v) (p\<lparr> cs_stage := ''build'' \<rparr>) else ?raw v)"
    have "\<exists>v. req = ?req v"
    proof (cases "cp_Arguments (cs_params p)")
      case None
      then have "req = ?req (JObj [])"
        using assms none by (simp add: build_forward_request_def Let_def cong: if_cong)
      then show ?thesis by blast
    next
      case (Some r)
      then have "req = ?req (raw_value r)"
        using assms none
        by (auto simp: build_forward_request_def Let_def case_prod_beta cong: if_cong split: option.splits split del: if_split)
      then show ?thesis by blast
    qed
    then obtain v where "req = ?req v" by blast
    then show ?thesis using named [of "?raw v"] by simp
  qed
  show "requested_tool req = requested_tool (new_request None '''' raw)"
    if "cp_Params (cs_params p) = Some raw"
  proof -
    have "req = new_request (cs_ID p) (cs_method p)
        (if cs_target p = TargetHub
         then inject_forward_identity E raw (p\<lparr> cs_stage := ''build'' \<rparr>) else raw)"
      using assms that
      by (auto simp: build_forward_request_def Let_def cong: if_cong split del: if_split)
    then have "requested_tool req = requested_tool (new_request (cs_ID p) (cs_method p) raw)"
      by (simp add: inject_keeps_name)
    then show ?thesis using name by metis
  qed
qed

text \<open>
  A call without raw parameters reaches its server under the very tool name that the
  access rules and the policy were asked about.
\<close>

theorem forwarded_tool_is_checked_tool:
  assumes "handle_call E acquired i decoded d = (m, p')"
    and "\<not> synthetic d (snd (parse_and_resolve decoded (initial_call i d)))"
    and "cp_Params (cs_params (snd (parse_and_resolve decoded (initial_call i d)))) = None"
    and "(t, req) \<in> set (sends p')"
  shows "requested_tool req =
    Some (JStr (cs_toolName (snd (parse_and_resolve decoded (initial_call i d)))))"
  using handle_call_sends [OF assms(1,2)] assms(3,4) build_forward_name(1) by fastforce

lemma forwarded_tool_is_checked_tool_witness:
  "\<exists>t req. sends (snd (demo_run demo_params demo_call_daemon)) = [(t, req)] \<and>
    requested_tool req = Some (JStr ''log'')"
proof -
  obtain m p' where h: "demo_run demo_params demo_call_daemon = (m, p')" by fastforce
  with demo_sends obtain t req where s: "sends p' = [(t, req)]"
    by (cases "sends p'") (auto simp: prod_eq_iff)
  have "cp_Params (cs_params (demo_parsed demo_params demo_call_daemon)) = None" by code_simp
  from forwarded_tool_is_checked_tool [OF h demo_not_synthetic this, of t req] s
  have "requested_tool req = Some (JStr (cs_toolName (demo_parsed demo_params demo_call_daemon)))" by simp
  moreover have "cs_toolName (demo_parsed demo_params demo_call_daemon) = ''log''" by code_simp
  ultimately show ?thesis using h s by simp
qed

text \<open>
  A call with raw parameters is forwarded under the tool name inside them, whatever the
  tool name is that was authorised: an agent that may call one tool of a server reaches
  every other tool of it, the denied ones included.
\<close>

theorem raw_params_choose_the_tool:
  assumes "handle_call E acquired i decoded d = (m, p')"
    and "\<not> synthetic d (snd (parse_and_resolve decoded (initial_call i d)))"
    and "cp_Params (cs_params (snd (parse_and_resolve decoded (initial_call i d)))) = Some raw"
    and "(t, req) \<in> set (sends p')"
  shows "requested_tool req = requested_tool (new_request None '''' raw)"
  using handle_call_sends [OF assms(1,2)] assms(3,4) build_forward_name(2) by fastforce

definition push_params :: call_params where
  "push_params = demo_params\<lparr> cp_Params :=
     Some \<lparr> raw_text = ''{}'', raw_value = JObj [(''name'', JStr ''push'')] \<rparr> \<rparr>"

lemma raw_params_choose_the_tool_witness:
  "(\<exists>t req. sends (snd (demo_run push_params demo_call_daemon)) = [(t, req)] \<and>
     requested_tool req = Some (JStr ''push'')) \<and>
   ad_Allowed (fst (check demo_enforcer 0 ''bob'' '''' ''git'' ''log'')) \<and>
   \<not> ad_Allowed (fst (check demo_enforcer 0 ''bob'' '''' ''git'' ''push''))"
proof (intro conjI)
  obtain m p' where h: "demo_run push_params demo_call_daemon = (m, p')" by fastforce
  have "length (sends (snd (demo_run push_params demo_call_daemon))) = 1" by code_simp
  with h obtain t req where s: "sends p' = [(t, req)]"
    by (cases "sends p'") (auto simp: prod_eq_iff)
  have ns: "\<not> synthetic demo_call_daemon (demo_parsed push_params demo_call_daemon)" by code_simp
  have "cp_Params (cs_params (demo_parsed push_params demo_call_daemon)) =
      Some \<lparr> raw_text = ''{}'', raw_value = JObj [(''name'', JStr ''push'')] \<rparr>" by code_simp
  from raw_params_choose_the_tool [OF h ns this, of t req] s
  have "requested_tool req = Some (JStr ''push'')" by (simp add: requested_tool_def new_request_def)
  with h s show "\<exists>t req. sends (snd (demo_run push_params demo_call_daemon)) = [(t, req)] \<and>
     requested_tool req = Some (JStr ''push'')" by simp
  show "ad_Allowed (fst (check demo_enforcer 0 ''bob'' '''' ''git'' ''log''))" by code_simp
  show "\<not> ad_Allowed (fst (check demo_enforcer 0 ''bob'' '''' ''git'' ''push''))" by code_simp
qed

subsection \<open>Redacted once, then served from the cache as it was\<close>

definition caching_daemon :: daemon where
  "caching_daemon = demo_call_daemon\<lparr> dm_rbac := None, dm_scanMode := ScanRedact,
     dm_respCache := map_option (\<lambda>c. c\<lparr> rc_cacheable := (\<lambda>_. True) \<rparr>)
       (new_response_cache (default_cache_config\<lparr> cfg_Enabled := True \<rparr>)) \<rparr>"

text \<open>
  Output redaction is lost on a cache hit.  With redaction on, a tool response that
  contains a secret is returned redacted, but \<open>execute\<close> has cached it before the scan, and
  \<open>tryCachedResponse\<close> answers without one: the same call made again returns the secret, to
  whoever makes it.
\<close>

theorem redaction_lost_on_cache_hit:
  "let (m1, p1) = demo_run demo_params caching_daemon;
       (m2, p2) = demo_run demo_params (cs_daemon p1)
   in ms_Result m1 = Some ''[REDACTED:secret]'' \<and>
      ms_Result m2 = Some ''token=hunter2'' \<and> sends p2 = []"
proof -
  have 1: "ms_Result (fst (demo_run demo_params caching_daemon)) = Some ''[REDACTED:secret]''"
    by code_simp
  have 2: "ms_Result (fst (demo_run demo_params
      (cs_daemon (snd (demo_run demo_params caching_daemon))))) = Some ''token=hunter2''"
    by code_simp
  have 3: "sends (snd (demo_run demo_params
      (cs_daemon (snd (demo_run demo_params caching_daemon))))) = []"
    by code_simp
  from 1 2 3 show ?thesis by (simp add: case_prod_beta Let_def)
qed

subsection \<open>Weaver tools\<close>

lemma parse_server_nonempty:
  "parse_and_resolve decoded p = (None, p1) \<Longrightarrow> cs_serverName p1 \<noteq> ''''"
  by (auto simp: parse_and_resolve_def Let_def split: sum.splits option.splits prod.splits if_splits)

lemma weaver_names_start:
  "w \<in> set weaver_tool_names \<Longrightarrow> has_prefix w ''weaver'' \<and> \<not> contains (drop 1 w) ''weaver''"
  unfolding weaver_tool_names_def by (auto simp: has_prefix_def)

text \<open>
  The weaver tools cannot be called through the pipeline: whenever a parsed call is
  taken for a weaver call, the dispatcher's name for it, the server prefix included, is
  none of the weaver tools, so the query and gather handlers are never reached and the
  compound handler is given a name it does not know.
\<close>

theorem weaver_tools_unreachable:
  assumes "parse_and_resolve decoded p = (None, p1)" and "is_weaver_tool p1"
  shows "\<exists>n. execute_weaver_tool p1 = WeaverCompound n \<and> n \<notin> set weaver_tool_names"
proof -
  let ?n = "cs_serverName p1 @ ''__'' @ cs_toolName p1"
  have s: "cs_serverName p1 \<noteq> ''''" using parse_server_nonempty [OF assms(1)] .
  have t: "cs_toolName p1 \<in> set weaver_tool_names" using assms(2) by (simp add: is_weaver_tool_def)
  then obtain u where u: "cs_toolName p1 = ''weaver'' @ u"
    using weaver_names_start by (auto simp: has_prefix_append)
  from s obtain c cs where "cs_serverName p1 = c # cs" by (cases "cs_serverName p1") auto
  then have "drop 1 ?n = (cs @ ''__'') @ ''weaver'' @ u" using u by simp
  then have "contains (drop 1 ?n) ''weaver''" unfolding contains_iff by metis
  then have no: "?n \<notin> set weaver_tool_names" using weaver_names_start by blast
  then have "?n \<noteq> ''weaver__query'' \<and> ?n \<noteq> ''weaver__gather''"
    by (auto simp: weaver_tool_names_def)
  with no s show ?thesis by (simp add: execute_weaver_tool_def)
qed

lemma weaver_tools_unreachable_witness:
  defines "d \<equiv> demo_call_daemon\<lparr> dm_weaver := True \<rparr>"
  defines "ps \<equiv> demo_params\<lparr> cp_Server := '''', cp_Tool := ''weaver__weaver__query'' \<rparr>"
  shows "\<exists>n. execute_weaver_tool (demo_parsed ps d) = WeaverCompound n \<and> n \<notin> set weaver_tool_names"
proof (rule weaver_tools_unreachable [of "Inr ps" "initial_call (Some ''1'') d"])
  have "fst (parse_and_resolve (Inr ps) (initial_call (Some ''1'') d)) = None"
    unfolding ps_def d_def by code_simp
  then show "parse_and_resolve (Inr ps) (initial_call (Some ''1'') d) = (None, demo_parsed ps d)"
    by (simp add: prod_eq_iff)
  show "is_weaver_tool (demo_parsed ps d)" unfolding ps_def d_def by code_simp
qed

end
