(* ===== verification/Call_Resources.thy ===== *)
theory Call_Resources
  imports Call_Handle
begin

text \<open>
  What a call holds while it runs, and how it gives it back: pooled connections
  (\<open>ConnTaken\<close>, \<open>ConnReturned\<close>) and the per-server call lock (\<open>LockTaken\<close>,
  \<open>LockReleased\<close>).  The invariant \<open>holds\<close> relates the effects so far to the fields of the
  call; connecting starts from an idle call, releasing ends in one.  The last section
  characterises when a transport failure retires the local server process.
\<close>

fun conn_delta :: "effect \<Rightarrow> int" where
  "conn_delta (ConnTaken t) = 1"
| "conn_delta (ConnReturned t h) = - 1"
| "conn_delta _ = 0"

fun lock_delta :: "effect \<Rightarrow> int" where
  "lock_delta LockTaken = 1"
| "lock_delta LockReleased = - 1"
| "lock_delta _ = 0"

definition open_conns :: "call_state \<Rightarrow> int" where
  "open_conns p = (\<Sum>e \<leftarrow> cs_effects p. conn_delta e)"

definition open_locks :: "call_state \<Rightarrow> int" where
  "open_locks p = (\<Sum>e \<leftarrow> cs_effects p. lock_delta e)"

definition holds :: "call_state \<Rightarrow> bool" where
  "holds p \<longleftrightarrow>
     open_conns p = of_bool (cs_conn p \<noteq> None) \<and>
     (cs_localCheckout p \<longrightarrow> cs_conn p \<noteq> None) \<and>
     open_locks p = of_bool (cs_lockHeld p)"

definition idle :: "call_state \<Rightarrow> bool" where
  "idle p \<longleftrightarrow> holds p \<and> cs_conn p = None \<and> \<not> cs_localCheckout p \<and> \<not> cs_lockHeld p"

lemma idle_holds: "idle p \<Longrightarrow> holds p"
  by (simp add: idle_def)

text \<open>Updates that touch neither what is held nor the record of it.\<close>

definition resources :: "call_state \<Rightarrow> int \<times> int \<times> bool \<times> bool \<times> bool" where
  "resources p = (open_conns p, open_locks p, cs_conn p \<noteq> None, cs_localCheckout p, cs_lockHeld p)"

lemma holds_resources: "resources p = resources q \<Longrightarrow> holds p = holds q"
  by (simp add: resources_def holds_def)

lemma idle_resources: "resources p = resources q \<Longrightarrow> idle p = idle q"
  by (auto simp: resources_def holds_def idle_def)

lemma open_emit [simp]:
  "open_conns (emit e p) = open_conns p + conn_delta e"
  "open_locks (emit e p) = open_locks p + lock_delta e"
  by (simp_all add: open_conns_def open_locks_def emit_def)

lemma open_frame [simp]:
  "open_conns (tick p) = open_conns p" "open_locks (tick p) = open_locks p"
  "open_conns (on_routing f p) = open_conns p" "open_locks (on_routing f p) = open_locks p"
  "open_conns (p\<lparr> cs_conn := c \<rparr>) = open_conns p" "open_locks (p\<lparr> cs_conn := c \<rparr>) = open_locks p"
  "open_conns (p\<lparr> cs_localCheckout := b \<rparr>) = open_conns p"
  "open_locks (p\<lparr> cs_localCheckout := b \<rparr>) = open_locks p"
  "open_conns (p\<lparr> cs_localGeneration := g \<rparr>) = open_conns p"
  "open_locks (p\<lparr> cs_localGeneration := g \<rparr>) = open_locks p"
  "open_conns (p\<lparr> cs_lockHeld := b \<rparr>) = open_conns p"
  "open_locks (p\<lparr> cs_lockHeld := b \<rparr>) = open_locks p"
  "open_conns (p\<lparr> cs_target := t \<rparr>) = open_conns p"
  "open_locks (p\<lparr> cs_target := t \<rparr>) = open_locks p"
  "open_conns (p\<lparr> cs_stage := st \<rparr>) = open_conns p"
  "open_locks (p\<lparr> cs_stage := st \<rparr>) = open_locks p"
  "open_conns (p\<lparr> cs_daemon := d \<rparr>) = open_conns p"
  "open_locks (p\<lparr> cs_daemon := d \<rparr>) = open_locks p"
  "open_conns (p\<lparr> cs_localRetryUsed := b \<rparr>) = open_conns p"
  "open_locks (p\<lparr> cs_localRetryUsed := b \<rparr>) = open_locks p"
  "open_conns (p\<lparr> cs_localTransportRetryUsed := b \<rparr>) = open_conns p"
  "open_locks (p\<lparr> cs_localTransportRetryUsed := b \<rparr>) = open_locks p"
  "open_conns (p\<lparr> cs_hubTransportRetryUsed := b \<rparr>) = open_conns p"
  "open_locks (p\<lparr> cs_hubTransportRetryUsed := b \<rparr>) = open_locks p"
  "open_conns (p\<lparr> cs_callTimeoutExtended := b \<rparr>) = open_conns p"
  "open_locks (p\<lparr> cs_callTimeoutExtended := b \<rparr>) = open_locks p"
  "open_conns (p\<lparr> cs_preferHubRetryEligible := b \<rparr>) = open_conns p"
  "open_locks (p\<lparr> cs_preferHubRetryEligible := b \<rparr>) = open_locks p"
  "open_conns (p\<lparr> cs_hubDelegateActive := b \<rparr>) = open_conns p"
  "open_locks (p\<lparr> cs_hubDelegateActive := b \<rparr>) = open_locks p"
  by (simp_all add: open_conns_def open_locks_def tick_def on_routing_def)

lemma conn_fields [simp]:
  "cs_conn (tick p) = cs_conn p" "cs_conn (emit e p) = cs_conn p" "cs_conn (on_routing f p) = cs_conn p"
  "cs_localCheckout (tick p) = cs_localCheckout p" "cs_localCheckout (emit e p) = cs_localCheckout p"
  "cs_localCheckout (on_routing f p) = cs_localCheckout p"
  "cs_lockHeld (tick p) = cs_lockHeld p" "cs_lockHeld (emit e p) = cs_lockHeld p"
  "cs_lockHeld (on_routing f p) = cs_lockHeld p"
  by (simp_all add: tick_def emit_def on_routing_def)

lemma sum_list_zero: "(\<And>x. x \<in> set xs \<Longrightarrow> f x = (0 :: int)) \<Longrightarrow> sum_list (map f xs) = 0"
  by (induction xs) auto

lemma release_idle: "holds p \<Longrightarrow> idle (release_connection E p)"
  by (auto simp: release_connection_def Let_def holds_def idle_def return_conn_def split: option.splits)

lemma acquire_call_lock_open:
  "open_conns (snd (acquire_call_lock E p)) = open_conns p"
  "open_locks (snd (acquire_call_lock E p)) =
     open_locks p + of_bool (fst (acquire_call_lock E p) = None)"
  "cs_conn (snd (acquire_call_lock E p)) = cs_conn p"
  "cs_localCheckout (snd (acquire_call_lock E p)) = cs_localCheckout p"
  "cs_lockHeld (snd (acquire_call_lock E p)) = cs_lockHeld p"
  by (simp_all add: acquire_call_lock_def split: option.split)

lemma touch_resources: "resources (snd (touch_process_activity E t p)) = resources p"
  by (simp add: touch_process_activity_def case_prod_beta resources_def acquire_call_lock_open
      split: option.split)

lemma checkout_holds:
  assumes "idle p"
  shows "case checkout E t p of (None, p') \<Rightarrow> holds p' \<and> \<not> cs_lockHeld p'
    | (Some err, p') \<Rightarrow> idle p'"
  using assms
  by (auto simp: checkout_def idle_def holds_def split: target.split option.split sum.split)

lemma connect_holds:
  assumes "idle p"
  shows "case connect_target E t r p of (None, p') \<Rightarrow> holds p' | (Some err, p') \<Rightarrow> idle p'"
proof -
  let ?p = "p\<lparr> cs_target := t, cs_conn := None \<rparr>"
  have i0: "idle ?p" using assms by (simp add: idle_def holds_def)
  obtain e1 p1 where t: "touch_process_activity E t ?p = (e1, p1)" by fastforce
  have i1: "idle p1" using i0 idle_resources [OF touch_resources [of E t ?p]] t by simp
  obtain e2 p2 where c: "checkout E t p1 = (e2, p2)" by fastforce
  note h2 = checkout_holds [OF i1, of E t, unfolded c]
  obtain e3 p3 where l: "acquire_call_lock E p2 = (e3, p3)" by fastforce
  show ?thesis
  proof (cases e2)
    case (Some err)
    with h2 have "idle p2" by simp
    then have "idle (emit (RecordedFailure t) p2)" by (simp add: idle_def holds_def)
    with i0 i1 Some show ?thesis by (auto simp: connect_target_def Let_def t c split: option.split)
  next
    case None
    with h2 have h: "holds p2" "\<not> cs_lockHeld p2" by simp_all
    have "holds p3 \<or> e3 = None" "\<not> cs_lockHeld p3"
      using h acquire_call_lock_open [of E p2] l by (auto simp: holds_def)
    moreover have "idle (emit (RecordedFailure t) (return_conn b TargetLocal (tick p3)
        \<lparr> cs_localCheckout := False, cs_conn := None, cs_localGeneration := 0 \<rparr>))"
      if "e3 \<noteq> None" "t = TargetLocal" for b
    proof -
      have "cs_conn p2 \<noteq> None" using c None that(2) by (auto simp: checkout_def split: if_splits sum.splits)
      then show ?thesis using h that acquire_call_lock_open [of E p2] l
        by (simp add: idle_def holds_def return_conn_def)
    qed
    moreover have "holds (p3\<lparr> cs_lockHeld := True \<rparr>)" if "e3 = None"
      using h that acquire_call_lock_open [of E p2] l by (simp add: holds_def)
    ultimately show ?thesis
      using i0 i1 h None by (auto simp: connect_target_def Let_def t c l split: option.split)
  qed
qed

lemma retire_resources: "resources (snd (retire_observed_local_generation E p)) = resources p"
  by (simp add: retire_observed_local_generation_def Let_def resources_def)

lemma connect_retry_holds:
  assumes "idle p"
  shows "case connect_target_with_transport_retry E t r p of
    (None, p') \<Rightarrow> holds p' | (Some err, p') \<Rightarrow> idle p'"
proof -
  obtain e1 p1 where c: "connect_target E t r p = (e1, p1)" by fastforce
  note h1 = connect_holds [OF assms, of E t r, unfolded c]
  show ?thesis
  proof (cases e1)
    case None
    with h1 show ?thesis by (simp add: connect_target_with_transport_retry_def c)
  next
    case (Some err)
    with h1 have i1: "idle p1" by simp
    obtain b p2 where re: "retire_observed_local_generation E p1 = (b, p2)" by fastforce
    have "holds p2" using idle_holds [OF i1] holds_resources [OF retire_resources [of E p1]] re by simp
    then have i3: "idle (release_connection E p2)" by (rule release_idle)
    obtain e4 p4 where c': "connect_target E t (r @ '' after closed transport'')
        (release_connection E p2) = (e4, p4)" by fastforce
    note h4 = connect_holds [OF i3, of E t "r @ '' after closed transport''", unfolded c']
    show ?thesis
    proof (cases "t \<noteq> TargetLocal \<or> \<not> should_retry_local_dial err")
      case True
      with Some i1 show ?thesis by (auto simp: connect_target_with_transport_retry_def c)
    next
      case False
      then have tl: "t = TargetLocal" by simp
      from Some False h4 show ?thesis
        by (cases e4)
          (simp_all add: connect_target_with_transport_retry_def c [unfolded tl] re c' [unfolded tl] tl Let_def)
    qed
  qed
qed

lemma resources_frame:
  "resources (mark_unhealthy p) = resources p"
  "resources (set_backoff E p) = resources p"
  "resources (snd (internal_error_with_audit p err)) = resources p"
  "resources (p\<lparr> cs_localRetryUsed := b \<rparr>) = resources p"
  "resources (p\<lparr> cs_localTransportRetryUsed := b \<rparr>) = resources p"
  "resources (p\<lparr> cs_hubTransportRetryUsed := b \<rparr>) = resources p"
  "resources (emit (RecordedFailure t) p) = resources p"
  "resources (tick p) = resources p"
  by (simp_all add: resources_def mark_unhealthy_def set_backoff_def internal_error_with_audit_def Let_def)

lemma transport_failure_resources: "resources (snd (transport_failure E st err p)) = resources p"
proof -
  have m: "resources (mark_unhealthy p) = resources p" by (rule resources_frame)
  show ?thesis
    unfolding transport_failure_def Let_def case_prod_beta m [symmetric]
    by (simp add: resources_def retire_observed_local_generation_def Let_def)
qed

lemma choose_target_resources: "resources (snd (choose_target E t p)) = resources p"
  by (simp add: choose_target_def Let_def case_prod_beta resources_def)

text \<open>A call that has failed to connect holds nothing; one that goes on may.\<close>

definition settled :: "retry_result \<Rightarrow> bool" where
  "settled r \<longleftrightarrow> holds (result_state r)"

lemma settled_connect:
  assumes "idle p"
  shows "settled (case connect_target E t r p of (None, p') \<Rightarrow> Again p' | (Some e, p') \<Rightarrow> NoRetry p')"
  using connect_holds [OF assms, of E t r]
  by (cases "connect_target E t r p") (auto simp: settled_def idle_holds split: option.splits)

lemma settled_connect_retry:
  assumes "idle p"
  shows "settled (case connect_target_with_transport_retry E t r p of (None, p') \<Rightarrow> Again p'
    | (Some e, p') \<Rightarrow> (let (m, p5) = internal_error_with_audit p' (f e) in Answer m p5))"
proof -
  obtain e p' where c: "connect_target_with_transport_retry E t r p = (e, p')" by fastforce
  note h = connect_retry_holds [OF assms, of E t r, unfolded c]
  have "holds (snd (internal_error_with_audit p' x))" if "idle p'" for x
    using idle_holds [OF that] holds_resources [OF resources_frame(3) [of p' x]] by simp
  with h show ?thesis by (cases e) (simp_all add: c settled_def case_prod_beta Let_def)
qed

lemma settled_handlers:
  assumes "holds p"
  shows "settled (retry_hub_after_hub_failure E st err p)"
    and "settled (retry_local_after_local_send_failure E err p)"
    and "settled (retry_local_after_hub_failure E st err p)"
proof -
  have h: "holds q" if "resources q = resources p" for q using assms holds_resources [OF that] by simp
  have s: "settled (NoRetry p)" "settled (NoRetry (tick p))"
    using assms h [of "tick p"] by (simp_all add: settled_def resources_frame)
  show "settled (retry_hub_after_hub_failure E st err p)"
    unfolding retry_hub_after_hub_failure_def Let_def
    using s by (auto intro!: settled_connect release_idle h simp: resources_frame)
  show "settled (retry_local_after_local_send_failure E err p)"
    unfolding retry_local_after_local_send_failure_def Let_def case_prod_beta [of _ "retire_observed_local_generation _ _"]
    using s by (auto intro!: settled_connect_retry [unfolded Let_def] release_idle h
        simp: resources_frame retire_resources)
  show "settled (retry_local_after_hub_failure E st err p)"
    unfolding retry_local_after_hub_failure_def Let_def
    using s by (auto intro!: settled_connect_retry [unfolded Let_def] release_idle h
        simp: resources_frame)
qed

lemma settled_or_retry:
  "settled r \<Longrightarrow> (\<And>q. holds q \<Longrightarrow> settled (f q)) \<Longrightarrow> settled (or_retry r f)"
  by (cases r) (simp_all add: or_retry_def settled_def)

lemma settled_failure:
  "holds q \<Longrightarrow> settled (case transport_failure E st err q of (m, p1) \<Rightarrow> Answer m p1)"
  using holds_resources [OF transport_failure_resources [of E st err q]]
  by (simp add: settled_def case_prod_beta)

lemma settled_fail:
  assumes "holds p"
  shows "settled (fail_send E err p)" and "settled (fail_recv E err p)"
  unfolding fail_send_def fail_recv_def Let_def
  by (intro settled_or_retry settled_handlers settled_failure assms; assumption)+

lemma answer_resources:
  "resources (cache_success_response E resp q) = resources q"
  "resources (record_success q) = resources q"
  "resources (emit (Audited a b) q) = resources q"
  by (simp_all add: resources_def cache_success_response_def record_success_def Let_def
      split: option.split)

lemma settled_execute_once:
  assumes "holds p"
  shows "settled (execute_once E req p)"
proof -
  have h: "holds q" if "resources q = resources p" for q using assms holds_resources [OF that] by simp
  let ?p1 = "emit (Sent (cs_target p) req) (tick (resolve_call_timeout E (p\<lparr> cs_stage := ''execute'' \<rparr>)))"
  have t: "cs_target (resolve_call_timeout E (p\<lparr> cs_stage := st \<rparr>)) = cs_target p" for st
    by (simp add: resolve_call_timeout_def)
  have r1: "resources ?p1 = resources p"
    by (simp add: resources_def resolve_call_timeout_def)
  have r2: "resources (emit (Audited a b) (cache_success_response E resp (record_success (tick ?p1)))) = resources p"
    for a b resp
    by (simp only: answer_resources resources_frame r1)
  show ?thesis
  proof (cases "ev_send E (cs_clock (resolve_call_timeout E (p\<lparr> cs_stage := ''execute'' \<rparr>)))")
    case (Some e)
    then have "execute_once E req p = fail_send E e ?p1" by (simp add: execute_once_def Let_def t)
    with settled_fail(1) [OF h [OF r1]] show ?thesis by simp
  next
    case None
    have ht: "holds (tick ?p1)" using h r1 resources_frame(8) [of ?p1] by simp
    show ?thesis
    proof (cases "ev_recv E (cs_clock ?p1)")
      case (Inl e)
      with None settled_fail(2) [OF ht] show ?thesis by (simp add: execute_once_def Let_def t)
    next
      case (Inr resp)
      show ?thesis
      proof (cases "ms_ID resp \<noteq> None \<and> ms_ID req \<noteq> None \<and> ms_ID resp \<noteq> ms_ID req")
        case True
        with None Inr settled_fail(2) [OF ht] show ?thesis
          by (simp add: execute_once_def Let_def t del: not_None_eq)
      next
        case False
        have "settled (Answer resp (emit (Audited a b)
            (cache_success_response E resp (record_success (tick ?p1)))))" for a b
          using h [OF r2] by (simp add: settled_def)
        with False None Inr show ?thesis
          unfolding execute_once_def Let_def t by (auto simp del: not_None_eq)
      qed
    qed
  qed
qed

lemma execute_holds: "holds p \<Longrightarrow> holds (snd (execute E req p))"
proof (induction E req p rule: execute.induct)
  case (1 E req p)
  from settled_execute_once [OF "1.prems", of E req] 1 show ?case
    by (cases "execute_once E req p") (simp_all add: execute.simps [of E req p] settled_def)
qed

lemma route_holds:
  assumes "idle p"
  shows "case route_and_connect E p of (None, p') \<Rightarrow> holds p' | (Some m, p') \<Rightarrow> idle p'"
proof -
  let ?p = "p\<lparr> cs_stage := ''route'' \<rparr>"
  have i0: "idle ?p" using assms by (simp add: idle_def holds_def)
  have ia: "idle (snd (internal_error_with_audit q err))" if "idle q" for q err
    using that idle_resources [OF resources_frame(3)] by simp
  show ?thesis
  proof (cases "dm_router (cs_daemon ?p) = None")
    case True
    with i0 show ?thesis by (simp add: route_and_connect_def Let_def)
  next
    case rt: False
    show ?thesis
    proof (cases "ev_route E (cs_clock ?p)")
      case (Inl err)
      have "idle (tick ?p)" using i0 idle_resources [OF resources_frame(8)] by simp
      from ia [OF this, of err] rt Inl show ?thesis
        by (auto simp: route_and_connect_def Let_def case_prod_beta)
    next
      case (Inr routed)
      obtain t p1 where ch: "choose_target E routed (tick ?p) = (t, p1)" by fastforce
      have i1: "idle p1"
        using i0 idle_resources [OF resources_frame(8)] ch
          idle_resources [OF choose_target_resources [of E routed "tick ?p"]] by simp
      obtain e2 p2 where co: "connect_target_with_transport_retry E t ''routed'' p1 = (e2, p2)" by fastforce
      note h2 = connect_retry_holds [OF i1, of E t "''routed''", unfolded co]
      let ?fb = "''prefer-hub fallback after hub connect failure''"
      let ?p3 = "set_backoff E (p2\<lparr> cs_localRetryUsed := True \<rparr>)"
      obtain e4 p4 where co4: "connect_target_with_transport_retry E TargetLocal ?fb ?p3 = (e4, p4)"
        by fastforce
      show ?thesis
      proof (cases e2)
        case None
        with h2 rt Inr ch co show ?thesis by (auto simp: route_and_connect_def Let_def)
      next
        case (Some err)
        with h2 have i2: "idle p2" by simp
        have i3: "idle ?p3"
          using i2 idle_resources [OF resources_frame(2)] idle_resources [OF resources_frame(4)] by simp
        note h4 = connect_retry_holds [OF i3, of E TargetLocal ?fb, unfolded co4]
        show ?thesis
        proof (cases "\<not> cs_hubDelegateActive p2 \<and> cs_preferHubRetryEligible p2 \<and>
            \<not> cs_localRetryUsed p2 \<and> t = TargetHub \<and> dm_pool (cs_daemon p2)")
          case True
          with Some rt Inr ch co co4 h4 ia show ?thesis
            by (cases e4) (auto simp: route_and_connect_def Let_def case_prod_beta)
        next
          case False
          then have "route_and_connect E p = (let (m, p3) = internal_error_with_audit p2 err in (Some m, p3))"
            using Some rt Inr ch co by (auto simp: route_and_connect_def Let_def)
          with ia [OF i2, of err] show ?thesis by (simp add: Let_def case_prod_beta)
        qed
      qed
    qed
  qed
qed

lemma scan_resources: "resources (snd (finish E r)) = resources (snd r)"
  by (simp add: finish_def scan_output_def Let_def case_prod_beta resources_def split: option.split)

lemma build_resources: "resources (snd (build_forward_request E p)) = resources p"
  by (simp add: build_forward_request_def Let_def case_prod_beta resources_def
      internal_error_with_audit_def split: option.split)

lemma forward_idle:
  assumes "holds p"
  shows "idle (snd (forward_call E p))"
proof -
  have b: "holds (snd (build_forward_request E p))"
    using assms holds_resources [OF build_resources [of E p]] by simp
  have "holds (snd (finish E (execute E req (snd (build_forward_request E p)))))" for req
    using execute_holds [OF b] holds_resources [OF scan_resources] by simp
  with b release_idle show ?thesis
    by (simp add: forward_call_def case_prod_beta Let_def split: sum.split)
qed

lemma cached_resources: "resources (snd (try_cached_response E p)) = resources p"
  by (simp add: try_cached_response_def Let_def case_prod_beta resources_def tick_def
      open_conns_def open_locks_def emit_def split: option.split)



subsection \<open>When a transport failure retires the local server\<close>

definition retirements :: "call_state \<Rightarrow> nat" where
  "retirements p = length (filter (\<lambda>e. e = GenerationRetired) (cs_effects p))"

definition recv_streak :: "call_state \<Rightarrow> int" where
  "recv_streak p =
     (case rs_recvTimeoutStreak (dm_routing (cs_daemon p)) (cs_serverName p) of
        None \<Rightarrow> 0 | Some n \<Rightarrow> n)"

text \<open>A receive that timed out on the shared local transport.\<close>

definition local_recv_timeout :: "string \<Rightarrow> go_error \<Rightarrow> call_state \<Rightarrow> bool" where
  "local_recv_timeout st err p \<longleftrightarrow>
     cs_target p = TargetLocal \<and> dm_muxStdio (cs_daemon p) \<and> st \<noteq> ''send'' \<and> is_rpc_timeout err"

text \<open>
  What the code promises of a failure that is not the caller's own: a receive timeout on
  the shared transport is tolerated on calls with an extended budget and below the
  threshold of consecutive ones, a duplicate request id always; any other local failure
  retires the process.
\<close>

definition tolerated :: "string \<Rightarrow> go_error \<Rightarrow> call_state \<Rightarrow> bool" where
  "tolerated st err p \<longleftrightarrow>
     local_recv_timeout st err p \<and>
       (cs_callTimeoutExtended p \<or>
        recv_streak p + 1 < recv_timeout_threshold (dm_recvThreshold (cs_daemon p))) \<or>
     er_DuplicateID err"

lemma mark_unhealthy_fields [simp]:
  "cs_target (mark_unhealthy p) = cs_target p" "cs_daemon (mark_unhealthy p) = cs_daemon p"
  "cs_serverName (mark_unhealthy p) = cs_serverName p" "cs_clock (mark_unhealthy p) = cs_clock p"
  "cs_callTimeoutExtended (mark_unhealthy p) = cs_callTimeoutExtended p"
  "cs_effects (mark_unhealthy p) = cs_effects p"
  by (simp_all add: mark_unhealthy_def)

lemma emit_fields [simp]:
  "cs_target (emit e p) = cs_target p" "cs_daemon (emit e p) = cs_daemon p"
  "cs_serverName (emit e p) = cs_serverName p" "cs_clock (emit e p) = cs_clock p"
  "cs_callTimeoutExtended (emit e p) = cs_callTimeoutExtended p"
  "cs_effects (emit e p) = cs_effects p @ [e]"
  "cs_target (tick p) = cs_target p" "cs_daemon (tick p) = cs_daemon p"
  "cs_serverName (tick p) = cs_serverName p" "cs_clock (tick p) = Suc (cs_clock p)"
  "cs_callTimeoutExtended (tick p) = cs_callTimeoutExtended p"
  "cs_effects (tick p) = cs_effects p"
  "cs_target (on_routing f p) = cs_target p"
  "dm_muxStdio (cs_daemon (on_routing f p)) = dm_muxStdio (cs_daemon p)"
  "dm_recvThreshold (cs_daemon (on_routing f p)) = dm_recvThreshold (cs_daemon p)"
  "dm_hub (cs_daemon (on_routing f p)) = dm_hub (cs_daemon p)"
  "dm_routing (cs_daemon (on_routing f p)) = f (dm_routing (cs_daemon p))"
  "cs_serverName (on_routing f p) = cs_serverName p" "cs_clock (on_routing f p) = cs_clock p"
  "cs_callTimeoutExtended (on_routing f p) = cs_callTimeoutExtended p"
  "cs_effects (on_routing f p) = cs_effects p"
  by (simp_all add: emit_def tick_def on_routing_def)

lemma streak_after_record:
  "rs_recvTimeoutStreak (snd (record_local_recv_timeout r s)) s =
     Some ((case rs_recvTimeoutStreak r s of None \<Rightarrow> 0 | Some n \<Rightarrow> n) + 1)"
  "fst (record_local_recv_timeout r s) = (case rs_recvTimeoutStreak r s of None \<Rightarrow> 0 | Some n \<Rightarrow> n) + 1"
  by (simp_all add: record_local_recv_timeout_def Let_def)

text \<open>
  A failure on a local transport asks for the process to be retired exactly when it is
  not tolerated and the caller has not gone away; the consecutive-timeout count goes up by
  one while timeouts are tolerated for their number, and starts again from zero when it
  trips the breaker.  A caller that has gone away changes neither.
\<close>

theorem local_failure_retires_iff:
  assumes "transport_failure E st err p = (m, p')"
    and "cs_target p = TargetLocal"
    and "\<And>n. ev_retire E n"
  shows "retirements p' =
      retirements p + of_bool (\<not> local_mux_caller_context_done E p \<and> \<not> tolerated st err p) \<and>
    recv_streak p' =
      (if local_mux_caller_context_done E p \<or> \<not> local_recv_timeout st err p \<or>
          cs_callTimeoutExtended p then recv_streak p
       else if recv_streak p + 1 < recv_timeout_threshold (dm_recvThreshold (cs_daemon p))
       then recv_streak p + 1 else 0)"
proof (cases "local_mux_caller_context_done E p")
  case True
  then have "p' = tick (emit (Audited ''error'' (er_Text err)) (mark_unhealthy p))"
    using assms(1) by (auto simp: transport_failure_def local_mux_caller_context_done_def ctx_done_def Let_def)
  with True show ?thesis by (simp add: retirements_def recv_streak_def)
next
  case False
  define p1 where "p1 = emit (Audited ''error'' (er_Text err)) (emit (RecordedFailure (cs_target p)) (tick (mark_unhealthy p)))"
  have nd: "\<not> local_mux_caller_context_done E (mark_unhealthy p)"
    using False by (simp add: local_mux_caller_context_done_def ctx_done_def)
  have p1: "cs_target p1 = TargetLocal" "cs_daemon p1 = cs_daemon p" "cs_serverName p1 = cs_serverName p"
    "cs_callTimeoutExtended p1 = cs_callTimeoutExtended p" "retirements p1 = retirements p"
    by (simp_all add: p1_def assms(2) retirements_def)
  show ?thesis
  proof (cases "local_recv_timeout st err p")
    case True
    then have rt: "dm_muxStdio (cs_daemon p)" "st \<noteq> ''send''" "is_rpc_timeout err"
      by (simp_all add: local_recv_timeout_def)
    then show ?thesis
      using assms nd False True
      unfolding transport_failure_def Let_def case_prod_beta
      by (auto simp: p1_def [symmetric] p1 tolerated_def recv_streak_def retirements_def
          streak_after_record reset_local_recv_timeout_def retire_observed_local_generation_def
          Let_def split: if_splits)
  next
    case nrt: False
    then have "\<not> (dm_muxStdio (cs_daemon p) \<and> st \<noteq> ''send'' \<and> is_rpc_timeout err)"
      using assms(2) by (simp add: local_recv_timeout_def)
    then show ?thesis
      using assms nd False nrt
      unfolding transport_failure_def Let_def case_prod_beta
      by (auto simp: p1_def [symmetric] p1 tolerated_def recv_streak_def retirements_def
          retire_observed_local_generation_def Let_def split: if_splits)
  qed
qed

definition demo_timeout :: go_error where
  "demo_timeout = (plain_error ''read: i/o timeout'')\<lparr> er_Timeout := True \<rparr>"

definition demo_local :: call_state where
  "demo_local = (initial_call (Some ''1'') demo_call_daemon)\<lparr> cs_serverName := ''git'' \<rparr>"

lemma local_failure_retires_iff_witness:
  "retirements (snd (transport_failure demo_env ''recv'' demo_timeout demo_local)) = 0 \<and>
   recv_streak (snd (transport_failure demo_env ''recv'' demo_timeout demo_local)) = 1"
proof -
  obtain m p' where h: "transport_failure demo_env ''recv'' demo_timeout demo_local = (m, p')"
    by fastforce
  have t: "cs_target demo_local = TargetLocal" by (simp add: demo_local_def initial_call_def)
  have r: "ev_retire demo_env n" for n by (simp add: demo_env_def)
  have f: "\<not> local_mux_caller_context_done demo_env demo_local" "tolerated ''recv'' demo_timeout demo_local"
    "local_recv_timeout ''recv'' demo_timeout demo_local" "\<not> cs_callTimeoutExtended demo_local"
    "recv_streak demo_local = 0" "retirements demo_local = 0"
    "recv_timeout_threshold (dm_recvThreshold (cs_daemon demo_local)) = 3"
    by code_simp+
  from local_failure_retires_iff [OF h t r] f h show ?thesis by simp
qed

end
