(* ===== verification/Memory_Store.thy ===== *)
theory Memory_Store
  imports Cache_Interface
begin

text \<open>
  \<^verbatim>\<open>internal/cache/memory.go\<close>: the unbounded TTL store behind the MCP servers' read caches.
  A \<open>sync.Map\<close> from keys to \<open>*memoryEntry\<close> becomes a map; the zero \<open>time.Time\<close> of an entry
  that never expires is \<open>None\<close>.  Each method is a single atomic map operation, except
  \<open>Get\<close>, whose lazy delete follows its load (the window between them is not modelled).
  The store provides the same contract, \<^const>\<open>ttl_cache\<close>, as the daemon's response cache.
\<close>

record 'v memory_entry =
  data :: 'v
  expires_at :: "time option"

type_synonym 'v memory_store = "string \<rightharpoonup> 'v memory_entry"

definition new_memory_store :: "'v memory_store" where
  "new_memory_store = (\<lambda>_. None)"

definition expired :: "time \<Rightarrow> 'v memory_entry \<Rightarrow> bool" where
  "expired now e = (case expires_at e of None \<Rightarrow> False | Some t \<Rightarrow> t < now)"

definition memory_get :: "time \<Rightarrow> string \<Rightarrow> 'v memory_store \<Rightarrow> 'v option \<times> 'v memory_store" where
  "memory_get now k m =
     (case m k of
        None \<Rightarrow> (None, m)
      | Some e \<Rightarrow> if expired now e then (None, m(k := None)) else (Some (data e), m))"

definition memory_set :: "time \<Rightarrow> string \<Rightarrow> 'v \<Rightarrow> duration \<Rightarrow> 'v memory_store \<Rightarrow> 'v memory_store" where
  "memory_set now k v ttl m =
     m(k \<mapsto> \<lparr>data = v, expires_at = (if 0 < ttl then Some (now + ttl) else None)\<rparr>)"

definition invalidate :: "string \<Rightarrow> 'v memory_store \<Rightarrow> 'v memory_store" where
  "invalidate k m = m(k := None)"

text \<open>\<open>InvalidateAll\<close> and \<open>Len\<close> range over the keys present, in any order.\<close>

definition invalidate_all :: "string list \<Rightarrow> 'v memory_store \<Rightarrow> 'v memory_store" where
  "invalidate_all ks m = fold invalidate ks m"

definition memory_len :: "string list \<Rightarrow> 'v memory_store \<Rightarrow> nat" where
  "memory_len ks m = fold (\<lambda>k n. if m k = None then n else n + 1) ks 0"

definition visible :: "time \<Rightarrow> 'v memory_store \<Rightarrow> string \<Rightarrow> 'v option" where
  "visible t m k = fst (memory_get t k m)"

lemma visible_alt:
  "visible t m k = (case m k of None \<Rightarrow> None | Some e \<Rightarrow> if expired t e then None else Some (data e))"
  by (simp add: visible_def memory_get_def split: option.split)

lemma expired_later: "expired t e \<Longrightarrow> \<not> expired u e \<Longrightarrow> u < t"
  by (auto simp: expired_def split: option.splits)

lemma invalidate_all_apply: "invalidate_all ks m k = (if k \<in> set ks then None else m k)"
  unfolding invalidate_all_def by (induction ks arbitrary: m) (auto simp: invalidate_def)

lemma invalidate_all_empty: "dom m \<subseteq> set ks \<Longrightarrow> invalidate_all ks m = new_memory_store"
  by (auto simp: fun_eq_iff invalidate_all_apply new_memory_store_def)

lemma memory_len_card:
  assumes "distinct ks" and "set ks = dom m"
  shows "memory_len ks m = card (dom m)"
proof -
  have "fold (\<lambda>k n. if m k = None then n else n + 1) xs a = a + length (filter (\<lambda>k. m k \<noteq> None) xs)"
    for xs and a :: nat
    by (induction xs arbitrary: a) auto
  moreover have "filter (\<lambda>k. m k \<noteq> None) ks = ks"
    using assms(2) by (auto simp: filter_id_conv)
  ultimately show ?thesis
    using assms by (simp add: memory_len_def flip: distinct_card)
qed

text \<open>
  The lazy delete of one key is invisible at later times only: a lookup at an earlier
  time would still have seen the entry, which the contract allows (a cache may forget).
\<close>

interpretation mem: ttl_cache "\<lambda>_. True" visible memory_get "\<lambda>now k v ttl m. Some (memory_set now k v ttl m)"
  by unfold_locales
    (auto simp: visible_alt memory_get_def memory_set_def split: option.splits if_splits)

text \<open>
  Unlike the daemon's cache, the memory store keeps every value for its whole TTL:
  after \<open>Set\<close> under a positive TTL a lookup of that key returns the value at every time up
  to the deadline and nothing after it, under a TTL that is zero or negative it returns
  it forever; every other key answers as before; and no lookup in between, of this key or
  another and at a time not after the deadline, changes that.
\<close>

theorem memory_set_get:
  "(\<forall>t. visible t (memory_set now k v ttl m) k =
      (if ttl \<le> 0 \<or> t \<le> now + ttl then Some v else None)) \<and>
   (\<forall>t k'. k' = k \<or> visible t (memory_set now k v ttl m) k' = visible t m k') \<and>
   (\<forall>t u k'. u < t \<or> visible u (snd (memory_get t k' m)) k = visible u m k)"
proof (intro conjI allI)
  show "visible t (memory_set now k v ttl m) k = (if ttl \<le> 0 \<or> t \<le> now + ttl then Some v else None)" for t
    by (simp add: visible_alt memory_set_def expired_def)
  show "k' = k \<or> visible t (memory_set now k v ttl m) k' = visible t m k'" for t k'
    by (simp add: visible_alt memory_set_def)
  show "u < t \<or> visible u (snd (memory_get t k' m)) k = visible u m k" for t u k'
    by (auto simp: visible_alt memory_get_def intro: expired_later split: option.split)
qed

end
