(* ===== verification/Concurrency_Limiter.thy ===== *)
theory Concurrency_Limiter
  imports Loom_Prelude
begin

text \<open>
  \<^verbatim>\<open>internal/loomconcurrency\<close> (\<open>limit.go\<close>, \<open>concurrency.go\<close>): the admission limiter of every
  MCP server.  A limiter is the record of its \<open>limit\<close> and \<open>inUse\<close>; the channel \<open>changed\<close> is
  represented by its generation number, which closing and replacing it increments, and a
  caller parked in \<open>Acquire\<close> by the generation it is selecting on, so that it is runnable
  exactly when its channel has been closed.  The critical sections under \<open>mu\<close> are the
  steps of the transition system at the end.
\<close>

definition default_limit :: int where "default_limit = 8"
definition min_limit :: int where "min_limit = 1"
definition max_limit :: int where "max_limit = 256"

definition clamp :: "int \<Rightarrow> int" where
  "clamp n = (if n < min_limit then min_limit else if n > max_limit then max_limit else n)"

text \<open>The one error of \<open>Validate\<close> carries the two bounds.\<close>

datatype limit_error = Limit_Out_Of_Range int int

definition validate :: "int \<Rightarrow> limit_error option" where
  "validate limit =
     (if limit < min_limit \<or> limit > max_limit then Some (Limit_Out_Of_Range min_limit max_limit)
      else None)"

definition resolve_policy_limit :: "int option \<Rightarrow> limit_error + int" where
  "resolve_policy_limit configured =
     (case configured of
        None \<Rightarrow> Inr default_limit
      | Some n \<Rightarrow> (case validate n of Some e \<Rightarrow> Inl e | None \<Rightarrow> Inr n))"

section \<open>The environment setting\<close>

text \<open>
  \<open>strconv.Atoi\<close>: an optional sign and at least one decimal digit, within the range of a
  64-bit \<open>int\<close>; everything else is an error.
\<close>

definition is_digit :: "char \<Rightarrow> bool" where
  "is_digit c = (48 \<le> (of_char c :: nat) \<and> (of_char c :: nat) \<le> 57)"

definition digits_value :: "string \<Rightarrow> int" where
  "digits_value s = foldl (\<lambda>a c. 10 * a + int (undigit c)) 0 s"

definition atoi :: "string \<Rightarrow> int option" where
  "atoi s =
     (let neg = s \<noteq> [] \<and> hd s = CHR ''-'';
          body = (if s \<noteq> [] \<and> (hd s = CHR ''-'' \<or> hd s = CHR ''+'') then tl s else s);
          n = (if neg then - digits_value body else digits_value body)
      in if body = [] \<or> \<not> list_all is_digit body then None
         else if n < - (2 ^ 63) \<or> 2 ^ 63 \<le> n then None
         else Some n)"

definition default :: "string \<Rightarrow> int" where
  "default env =
     (let raw = trim_space env in
      if raw = [] then default_limit
      else case atoi raw of None \<Rightarrow> default_limit | Some n \<Rightarrow> clamp n)"

text \<open>
  \<open>Apply\<close>, \<open>ApplyValue\<close> and \<open>ApplyValidated\<close> hand the value to a server's
  \<open>SetConcurrencyLimit\<close>; the result is the call they make, \<open>None\<close> when they make none.
\<close>

definition apply_limit :: "string \<Rightarrow> bool \<Rightarrow> int option" where
  "apply_limit env nil = (if nil then None else Some (default env))"

definition apply_value :: "bool \<Rightarrow> int \<Rightarrow> int option" where
  "apply_value nil limit = (if nil then None else Some (clamp limit))"

definition apply_validated :: "bool \<Rightarrow> int \<Rightarrow> limit_error option \<times> int option" where
  "apply_validated nil limit =
     (case validate limit of
        Some e \<Rightarrow> (Some e, None)
      | None \<Rightarrow> (None, if nil then None else Some limit))"

section \<open>The limiter\<close>

record concurrency =
  limit :: int
  in_use :: int
  changed :: nat

definition new_concurrency :: "int \<Rightarrow> concurrency" where
  "new_concurrency n = \<lparr>limit = clamp n, in_use = 0, changed = 0\<rparr>"

text \<open>A nil limiter reports the least limit.\<close>

definition get_limit :: "concurrency option \<Rightarrow> int" where
  "get_limit c = (case c of None \<Rightarrow> min_limit | Some c \<Rightarrow> limit c)"

definition notify_locked :: "concurrency \<Rightarrow> concurrency" where
  "notify_locked c = c\<lparr>changed := changed c + 1\<rparr>"

text \<open>
  One turn of the loop in \<open>Acquire\<close>: the slot, or the channel generation to wait on.
\<close>

definition try_acquire :: "concurrency \<Rightarrow> nat option \<times> concurrency" where
  "try_acquire c =
     (if in_use c < limit c then (None, c\<lparr>in_use := in_use c + 1\<rparr>)
      else (Some (changed c), c))"

definition release :: "concurrency \<Rightarrow> concurrency" where
  "release c = (if 0 < in_use c then notify_locked (c\<lparr>in_use := in_use c - 1\<rparr>) else c)"

definition set_limit :: "int \<Rightarrow> concurrency \<Rightarrow> limit_error option \<times> concurrency" where
  "set_limit n c =
     (case validate n of
        Some e \<Rightarrow> (Some e, c)
      | None \<Rightarrow> (None, if limit c \<noteq> n then notify_locked (c\<lparr>limit := n\<rparr>) else c))"

section \<open>Callers\<close>

text \<open>
  A process of callers: those that hold a slot, and those parked in \<open>select\<close> with the
  generation of the channel they read under the lock.  A parked caller takes its next turn
  once its channel is closed (its generation is older than the current one), or leaves
  with its context's error at any time.
\<close>

record 'c admission =
  limiter :: concurrency
  holders :: "'c list"
  parked :: "('c \<times> nat) list"

definition take_turn :: "'c \<Rightarrow> 'c admission \<Rightarrow> 'c admission" where
  "take_turn i s =
     (case try_acquire (limiter s) of
        (None, c) \<Rightarrow> s\<lparr>limiter := c, holders := i # holders s\<rparr>
      | (Some g, c) \<Rightarrow> s\<lparr>limiter := c, parked := parked s @ [(i, g)]\<rparr>)"

definition unpark :: "'c \<Rightarrow> 'c admission \<Rightarrow> 'c admission" where
  "unpark i s = s\<lparr>parked := filter (\<lambda>(j, _). j \<noteq> i) (parked s)\<rparr>"

definition outside :: "'c \<Rightarrow> 'c admission \<Rightarrow> bool" where
  "outside i s \<longleftrightarrow> i \<notin> set (holders s) \<and> i \<notin> fst ` set (parked s)"

inductive admission_step :: "'c admission \<Rightarrow> 'c admission \<Rightarrow> bool" where
  acquire: "outside i s \<Longrightarrow> admission_step s (take_turn i s)"
| wake: "(i, g) \<in> set (parked s) \<Longrightarrow> g < changed (limiter s) \<Longrightarrow>
    admission_step s (take_turn i (unpark i s))"
| cancel: "(i, g) \<in> set (parked s) \<Longrightarrow> admission_step s (unpark i s)"
| finish: "i \<in> set (holders s) \<Longrightarrow>
    admission_step s (s\<lparr>limiter := release (limiter s), holders := remove1 i (holders s)\<rparr>)"
| adjust: "admission_step s (s\<lparr>limiter := snd (set_limit n (limiter s))\<rparr>)"

inductive_cases admission_stepE: "admission_step s t"

definition admission_init :: "'c admission \<Rightarrow> bool" where
  "admission_init s \<longleftrightarrow> (\<exists>n. s = \<lparr>limiter = new_concurrency n, holders = [], parked = []\<rparr>)"

section \<open>Invariant\<close>

text \<open>
  The last conjunct is that no wake-up is lost: a caller whose channel is still the current
  one is parked because there is no room.
\<close>

definition admission_inv :: "'c admission \<Rightarrow> bool" where
  "admission_inv s \<longleftrightarrow>
     min_limit \<le> limit (limiter s) \<and> limit (limiter s) \<le> max_limit \<and>
     in_use (limiter s) = int (length (holders s)) \<and> length (holders s) \<le> 256 \<and>
     distinct (holders s) \<and> distinct (map fst (parked s)) \<and>
     set (holders s) \<inter> fst ` set (parked s) = {} \<and>
     (\<forall>(i, g) \<in> set (parked s).
        g \<le> changed (limiter s) \<and>
        (g = changed (limiter s) \<longrightarrow> limit (limiter s) \<le> in_use (limiter s)))"

lemma clamp_range: "min_limit \<le> clamp n \<and> clamp n \<le> max_limit"
  by (simp add: clamp_def min_limit_def max_limit_def)

lemma validate_None: "validate n = None \<longleftrightarrow> min_limit \<le> n \<and> n \<le> max_limit"
  by (auto simp: validate_def)

lemma admission_inv_init: "admission_init s \<Longrightarrow> admission_inv s"
  using clamp_range by (auto simp: admission_init_def admission_inv_def new_concurrency_def)

lemma take_turn_inv:
  assumes "admission_inv s" and "outside i s"
  shows "admission_inv (take_turn i s)"
  using assms
  by (auto simp: admission_inv_def take_turn_def try_acquire_def outside_def max_limit_def)

lemma unpark_inv: "admission_inv s \<Longrightarrow> admission_inv (unpark i s)"
  by (auto simp: admission_inv_def unpark_def distinct_map filter_id_conv
      intro: distinct_filter inj_on_subset)

lemma unpark_outside: "admission_inv s \<Longrightarrow> (i, g) \<in> set (parked s) \<Longrightarrow> outside i (unpark i s)"
  by (force simp: admission_inv_def unpark_def outside_def)

definition finish_holder :: "'c \<Rightarrow> 'c admission \<Rightarrow> 'c admission" where
  "finish_holder i s = s\<lparr>limiter := release (limiter s), holders := remove1 i (holders s)\<rparr>"

lemma finish_release:
  assumes "admission_inv s" and "i \<in> set (holders s)"
  shows "limit (limiter (finish_holder i s)) = limit (limiter s) \<and>
    in_use (limiter (finish_holder i s)) = in_use (limiter s) - 1 \<and>
    changed (limiter (finish_holder i s)) = changed (limiter s) + 1 \<and>
    holders (finish_holder i s) = remove1 i (holders s) \<and> parked (finish_holder i s) = parked s"
proof -
  from assms(2) have "0 < length (holders s)" by (cases "holders s") auto
  with assms(1) show ?thesis
    by (simp add: finish_holder_def release_def notify_locked_def admission_inv_def)
qed

lemma finish_inv:
  assumes inv: "admission_inv s" and i: "i \<in> set (holders s)"
  shows "admission_inv (finish_holder i s)"
proof -
  note r = finish_release [OF inv i]
  have len: "int (length (remove1 i (holders s))) = int (length (holders s)) - 1"
    unfolding length_remove1 if_P [OF i] using length_pos_if_in_set [OF i] by linarith
  have disj: "set (remove1 i (holders s)) \<inter> fst ` set (parked s) = {}"
    using inv set_remove1_subset [of i "holders s"] by (auto simp: admission_inv_def)
  have gen: "\<forall>(j, g) \<in> set (parked s). g < changed (limiter s) + 1"
    using inv by (auto simp: admission_inv_def)
  show ?thesis
    unfolding admission_inv_def
  proof (intro conjI)
    show "\<forall>(j, g) \<in> set (parked (finish_holder i s)). g \<le> changed (limiter (finish_holder i s)) \<and>
        (g = changed (limiter (finish_holder i s)) \<longrightarrow>
          limit (limiter (finish_holder i s)) \<le> in_use (limiter (finish_holder i s)))"
      using gen r by (auto 4 3)
  qed (use inv r len disj in \<open>simp_all add: admission_inv_def\<close>)
qed

lemma adjust_inv: "admission_inv s \<Longrightarrow> admission_inv (s\<lparr>limiter := snd (set_limit n (limiter s))\<rparr>)"
  by (fastforce simp: admission_inv_def set_limit_def notify_locked_def validate_None
      split: option.split)

lemma admission_inv_step: "admission_inv s \<Longrightarrow> admission_step s t \<Longrightarrow> admission_inv t"
  by (erule admission_stepE)
     (auto intro: take_turn_inv unpark_inv unpark_outside adjust_inv finish_inv [unfolded finish_holder_def])

interpretation admission: inv_system admission_init admission_step admission_inv
  by unfold_locales (auto intro: admission_inv_init admission_inv_step)

section \<open>Properties\<close>

text \<open>
  C40. Admissions are bounded.  Whatever limits are set and whichever callers come, finish
  or give up, the limiter's count is the number of callers that hold a slot, the limit
  stays between 1 and 256, at most 256 callers hold a slot at once, and a step that admits
  a caller leaves no more holders than the limit then in force, so a lowered limit only
  drains.
\<close>

theorem limiter_bounds:
  assumes "reachable admission_init admission_step s"
  shows "in_use (limiter s) = int (length (holders s)) \<and> length (holders s) \<le> 256 \<and>
    1 \<le> get_limit (Some (limiter s)) \<and> get_limit (Some (limiter s)) \<le> 256 \<and>
    \<not> (\<exists>t. admission_step s t \<and> length (holders s) < length (holders t) \<and>
      limit (limiter t) < int (length (holders t)))"
proof -
  have inv: "admission_inv s" using assms by (rule admission.inv_reachable)
  have "int (length (holders t)) \<le> limit (limiter t)"
    if "admission_step s t" and "length (holders s) < length (holders t)" for t
    using that(1)
  proof (cases rule: admission_step.cases)
    case (acquire i)
    with that(2) inv show ?thesis
      by (auto simp: take_turn_def try_acquire_def admission_inv_def split: if_splits)
  next
    case (wake i g)
    with that(2) inv show ?thesis
      by (auto simp: take_turn_def try_acquire_def admission_inv_def unpark_def split: if_splits)
  qed (use that(2) in \<open>auto simp: unpark_def length_remove1 split: if_splits\<close>)
  with inv show ?thesis
    by (force simp: admission_inv_def get_limit_def min_limit_def max_limit_def)
qed

lemma finish_step: "i \<in> set (holders s) \<Longrightarrow> admission_step s (finish_holder i s)"
  unfolding finish_holder_def by (rule admission_step.finish)

lemma finish_all:
  "admission_inv s \<Longrightarrow> distinct hs \<Longrightarrow> set hs \<subseteq> set (holders s) \<Longrightarrow>
   (let t = fold finish_holder hs s in
     admission_inv t \<and> admission_step\<^sup>*\<^sup>* s t \<and> limit (limiter t) = limit (limiter s) \<and>
     in_use (limiter t) = in_use (limiter s) - int (length hs) \<and>
     changed (limiter t) = changed (limiter s) + length hs \<and> parked t = parked s)"
proof (induction hs arbitrary: s)
  case (Cons i hs)
  from Cons.prems have i: "i \<in> set (holders s)" by simp
  note r = finish_release [OF Cons.prems(1) i]
  have "distinct (holders s)" using Cons.prems(1) by (simp add: admission_inv_def)
  with Cons.prems r have "set hs \<subseteq> set (holders (finish_holder i s))" by auto
  from Cons.IH [OF finish_inv [OF Cons.prems(1) i] _ this] Cons.prems(2) r
    converse_rtranclp_into_rtranclp [of admission_step s "finish_holder i s", OF finish_step [OF i]]
  show ?case by (auto simp: Let_def)
qed (simp add: Let_def)

text \<open>
  C25. No wake-up is lost and no caller waits for ever on a limiter that drains.  In every
  reachable state a parked caller is there because the limiter is full or its channel is
  closed already; and once any set of holders large enough to fall below the limit has
  finished (such a set always exists), the caller's channel is closed and its next turn is
  an enabled step that gives it a slot.
\<close>

theorem limiter_progress:
  assumes "reachable admission_init admission_step s" and "(i, g) \<in> set (parked s)"
  shows "(limit (limiter s) \<le> in_use (limiter s) \<or> g < changed (limiter s)) \<and>
    (\<exists>hs. distinct hs \<and> set hs \<subseteq> set (holders s) \<and>
      in_use (limiter s) - limit (limiter s) < int (length hs)) \<and>
    \<not> (\<exists>hs. distinct hs \<and> set hs \<subseteq> set (holders s) \<and>
      in_use (limiter s) - limit (limiter s) < int (length hs) \<and>
      (let t = fold finish_holder hs s; u = take_turn i (unpark i t) in
        \<not> (admission_step\<^sup>*\<^sup>* s t \<and> admission_step t u \<and> i \<in> set (holders u))))"
proof (intro conjI)
  have inv: "admission_inv s" using assms(1) by (rule admission.inv_reachable)
  with assms(2) show full: "limit (limiter s) \<le> in_use (limiter s) \<or> g < changed (limiter s)"
    unfolding admission_inv_def by (smt (verit, best) case_prodD order.order_iff_strict)
  show "\<exists>hs. distinct hs \<and> set hs \<subseteq> set (holders s) \<and>
      in_use (limiter s) - limit (limiter s) < int (length hs)"
    using inv by (intro exI [of _ "holders s"]) (simp add: admission_inv_def min_limit_def)
  have "admission_step\<^sup>*\<^sup>* s t \<and> admission_step t (take_turn i (unpark i t)) \<and>
      i \<in> set (holders (take_turn i (unpark i t)))"
    if hs: "distinct hs" "set hs \<subseteq> set (holders s)"
      "in_use (limiter s) - limit (limiter s) < int (length hs)" and t: "t = fold finish_holder hs s" for hs t
  proof -
    note f = finish_all [OF inv hs(1,2), folded t, unfolded Let_def]
    have "g < changed (limiter t)"
      using f full hs(3) assms(2) inv by (cases hs) (auto simp: admission_inv_def)
    then have "admission_step t (take_turn i (unpark i t))"
      using f assms(2) by (intro admission_step.wake [of i g]) auto
    moreover have "i \<in> set (holders (take_turn i (unpark i t)))"
      using f hs(3) by (simp add: take_turn_def try_acquire_def unpark_def)
    ultimately show ?thesis using f by blast
  qed
  then show "\<not> (\<exists>hs. distinct hs \<and> set hs \<subseteq> set (holders s) \<and>
      in_use (limiter s) - limit (limiter s) < int (length hs) \<and>
      (let t = fold finish_holder hs s; u = take_turn i (unpark i t) in
        \<not> (admission_step\<^sup>*\<^sup>* s t \<and> admission_step t u \<and> i \<in> set (holders u))))"
    by (auto simp: Let_def)
qed

text \<open>A full limiter of one slot with a second caller parked on it.\<close>

definition demo_admission :: "string admission" where
  "demo_admission = take_turn ''b'' (take_turn ''a'' \<lparr>limiter = new_concurrency 0, holders = [], parked = []\<rparr>)"

lemma demo_admission_reachable: "reachable admission_init admission_step demo_admission"
  unfolding demo_admission_def
  by (rule reachable.step, rule reachable.step, rule reachable.start, unfold admission_init_def,
      rule exI, rule refl, rule admission_step.acquire, simp add: outside_def, rule admission_step.acquire)
     (auto simp: outside_def take_turn_def try_acquire_def new_concurrency_def
       clamp_def min_limit_def max_limit_def)

lemma demo_admission_eval:
  "demo_admission = \<lparr>limiter = \<lparr>limit = 1, in_use = 1, changed = 0\<rparr>, holders = [''a''], parked = [(''b'', 0)]\<rparr>"
  by code_simp

theorem limiter_bounds_witness:
  "in_use (limiter demo_admission) = int (length (holders demo_admission)) \<and>
   length (holders demo_admission) \<le> 256"
  using limiter_bounds [OF demo_admission_reachable] by blast

theorem limiter_progress_witness:
  "let t = fold finish_holder [''a''] demo_admission in
     ''b'' \<in> set (holders (take_turn ''b'' (unpark ''b'' t)))"
proof -
  have "(''b'', 0) \<in> set (parked demo_admission)" by (simp add: demo_admission_eval)
  from limiter_progress [OF demo_admission_reachable this]
  have "\<not> (distinct [''a''] \<and> set [''a''] \<subseteq> set (holders demo_admission) \<and>
      in_use (limiter demo_admission) - limit (limiter demo_admission) < int (length [''a'']) \<and>
      (let t = fold finish_holder [''a''] demo_admission; u = take_turn ''b'' (unpark ''b'' t) in
        \<not> (admission_step\<^sup>*\<^sup>* demo_admission t \<and> admission_step t u \<and> ''b'' \<in> set (holders u))))"
    by blast
  then show ?thesis unfolding Let_def by (simp add: demo_admission_eval)
qed

end
