(* ===== verification/Settled_Table.thy ===== *)
theory Settled_Table
  imports Loom_Prelude
begin

text \<open>
  The contract the Mills store's append-then-settle tables share (merge_queue,
  mr_head_transitions): every write keeps the table's invariant, and a row that is settled
  is never rewritten or removed.  What a client derives from it, that both hold along any
  sequence of writes, is proved here once.
\<close>

locale settled_table =
  fixes inv :: "'s \<Rightarrow> bool"
    and rows_of :: "'s \<Rightarrow> 'r list"
    and is_open :: "'r \<Rightarrow> bool"
    and step :: "'op \<Rightarrow> 's \<Rightarrow> 's"
  assumes step_inv: "inv s \<Longrightarrow> inv (step op s)"
    and step_settled: "r \<in> set (rows_of s) \<Longrightarrow> \<not> is_open r \<Longrightarrow> r \<in> set (rows_of (step op s))"
begin

lemma writes_inv: "inv s \<Longrightarrow> inv (fold step ops s)"
  by (induction ops arbitrary: s) (simp_all add: step_inv)

lemma writes_settled:
  "r \<in> set (rows_of s) \<Longrightarrow> \<not> is_open r \<Longrightarrow> r \<in> set (rows_of (fold step ops s))"
  by (induction ops arbitrary: s) (simp_all add: step_settled)

text \<open>Every row present at some time stays, or was open then and has been written since.\<close>

lemma writes_history:
  assumes "inv s"
  shows "{r \<in> set (rows_of s). \<not> is_open r} \<subseteq> {r \<in> set (rows_of (fold step ops s)). \<not> is_open r}"
  using writes_settled by blast

end

end
