(* ===== verification/Merge_Queue.thy ===== *)
theory Merge_Queue
  imports Settled_Table
begin

text \<open>
  The merge_queue table of the Mills store and its DAO, \<^verbatim>\<open>pkg/mills/store/dao_merge_queue.go\<close>,
  over the schema of \<^verbatim>\<open>migrations/031_merge_queue_reenqueue.sql\<close>.  The table is the list of its
  rows by increasing rowid together with the AUTOINCREMENT counter; every DAO method is
  one SQL transaction and therefore one function here.  A nullable TEXT column that the
  code reads as \<open>""\<close> is a string, the nullable \<open>settled_at\<close> an option; timestamps are
  stored at a fixed width (\<open>timeLayout\<close>), so that SQL's textual order is the order of time.
  The failures of the database itself, and the foreign key to pipeline_runs (whose row the
  callers have written before), are outside the model; the partial unique index on active
  rows is inside.
\<close>

datatype merge_queue_state = Queued | Rebasing | AwaitingPipeline | Merging | Merged | Evicted

fun is_terminal :: "merge_queue_state \<Rightarrow> bool" where
  "is_terminal Merged = True"
| "is_terminal Evicted = True"
| "is_terminal _ = False"

text \<open>
  The values the queue's code puts into a row's JSON detail bundle; \<open>DTime\<close> is the RFC 3339
  text of a time, to the second.
\<close>

datatype detail_value =
    DString string
  | DTime time
  | DInt int
  | DBool bool
  | DMap "(string \<times> detail_value) list"

type_synonym detail = "string \<rightharpoonup> detail_value"

record merge_queue_entry =
  entry_id :: int
  pipeline_run_id :: string
  backlog_id :: string
  project :: string
  mr_iid :: int
  source_branch :: string
  target_branch :: string
  enqueued_sha :: string
  current_sha :: string
  state :: merge_queue_state
  eviction_reason :: string
  detail_of :: detail
  attempts :: int
  merged_sha :: string
  enqueued_at :: "time option"
  updated_at :: time
  settled_at :: "time option"

record merge_queue =
  rows :: "merge_queue_entry list"
  next_id :: int

definition empty_queue :: merge_queue where
  "empty_queue = \<lparr>rows = [], next_id = 1\<rparr>"

datatype queue_error =
    Field_Required string
  | MRIID_Not_Positive
  | Queue_Full int int
  | Active_Run_Exists
  | ID_Not_Positive
  | Terminal_Transition
  | Reason_Required
  | Project_And_MR_Required
  | Conflict
  | Not_Found

section \<open>Operations\<close>

definition active :: "merge_queue_entry \<Rightarrow> bool" where
  "active r \<longleftrightarrow> settled_at r = None"

definition in_lane :: "string \<Rightarrow> string \<Rightarrow> merge_queue_entry \<Rightarrow> bool" where
  "in_lane p b r \<longleftrightarrow> project r = p \<and> target_branch r = b"

text \<open>\<open>ORDER BY id DESC LIMIT 1\<close> on the rows of one run.\<close>

definition newest_of_run :: "string \<Rightarrow> merge_queue \<Rightarrow> merge_queue_entry option" where
  "newest_of_run run q = find (\<lambda>r. pipeline_run_id r = run) (rev (rows q))"

definition get_entry :: "string \<Rightarrow> merge_queue \<Rightarrow> queue_error + merge_queue_entry" where
  "get_entry run q = (case newest_of_run run q of None \<Rightarrow> Inl Not_Found | Some r \<Rightarrow> Inr r)"

definition required_fields :: "merge_queue_entry \<Rightarrow> (string \<times> string) list" where
  "required_fields e =
     [(''PipelineRunID'', pipeline_run_id e), (''Project'', project e),
      (''SourceBranch'', source_branch e), (''TargetBranch'', target_branch e),
      (''EnqueuedSHA'', enqueued_sha e)]"

definition missing_field :: "merge_queue_entry \<Rightarrow> string option" where
  "missing_field e = map_option fst (find (\<lambda>(_, v). v = []) (required_fields e))"

definition lane_depth :: "string \<Rightarrow> string \<Rightarrow> merge_queue \<Rightarrow> int" where
  "lane_depth p b q = int (length (filter (\<lambda>r. in_lane p b r \<and> active r) (rows q)))"

text \<open>
  The row \<open>Enqueue\<close> returns is the caller's entry with the assigned columns; the INSERT
  writes NULL or 0 into the columns that belong to the later life of the row.
\<close>

definition returned_row :: "time \<Rightarrow> merge_queue_entry \<Rightarrow> merge_queue \<Rightarrow> merge_queue_entry" where
  "returned_row now e q =
     e\<lparr>entry_id := next_id q,
       enqueued_at := (case enqueued_at e of None \<Rightarrow> Some now | Some t \<Rightarrow> Some t),
       updated_at := now,
       state := Queued,
       current_sha := (if current_sha e = [] then enqueued_sha e else current_sha e)\<rparr>"

definition inserted_row :: "merge_queue_entry \<Rightarrow> merge_queue_entry" where
  "inserted_row r = r\<lparr>eviction_reason := [], attempts := 0, merged_sha := [], settled_at := None\<rparr>"

text \<open>The re-find: the newest row of the run, when it is unsettled or merged.\<close>

definition refound :: "string \<Rightarrow> merge_queue \<Rightarrow> merge_queue_entry option" where
  "refound run q =
     (case newest_of_run run q of
        None \<Rightarrow> None
      | Some x \<Rightarrow> if active x \<or> state x = Merged then Some x else None)"

definition enqueue ::
  "time \<Rightarrow> merge_queue_entry \<Rightarrow> int \<Rightarrow> merge_queue \<Rightarrow>
   (queue_error + merge_queue_entry \<times> bool) \<times> merge_queue" where
  "enqueue now e max_depth q =
     (case missing_field e of
        Some f \<Rightarrow> (Inl (Field_Required f), q)
      | None \<Rightarrow>
          if mr_iid e \<le> 0 then (Inl MRIID_Not_Positive, q)
          else
            (case refound (pipeline_run_id e) q of
               Some x \<Rightarrow> (Inr (x, False), q)
             | None \<Rightarrow>
                 let depth = lane_depth (project e) (target_branch e) q in
                 if 0 < max_depth \<and> max_depth \<le> depth then (Inl (Queue_Full depth max_depth), q)
                 else if list_ex (\<lambda>r. pipeline_run_id r = pipeline_run_id e \<and> active r) (rows q)
                 then (Inl Active_Run_Exists, q)
                 else
                   let r = returned_row now e q in
                   (Inr (r, True),
                    q\<lparr>rows := rows q @ [inserted_row r], next_id := next_id q + 1\<rparr>)))"

text \<open>\<open>Heads\<close>: the active rows whose id is the least active one of their lane.\<close>

definition lane :: "string \<Rightarrow> string \<Rightarrow> merge_queue \<Rightarrow> merge_queue_entry list" where
  "lane p b q = filter (\<lambda>r. in_lane p b r \<and> active r) (rows q)"

definition heads :: "merge_queue \<Rightarrow> merge_queue_entry list" where
  "heads q =
     filter (\<lambda>r. active r \<and>
       entry_id r = Min (set (map entry_id (lane (project r) (target_branch r) q)))) (rows q)"

definition list_active :: "merge_queue \<Rightarrow> merge_queue_entry list" where
  "list_active q = filter active (rows q)"

text \<open>Newest settlement first, the larger id first among equal times.\<close>

definition settled_desc :: "merge_queue_entry list \<Rightarrow> merge_queue_entry list" where
  "settled_desc rs = rev (sort_key (\<lambda>r. the (settled_at r)) rs)"

definition list_settled :: "time option \<Rightarrow> int \<Rightarrow> merge_queue \<Rightarrow> merge_queue_entry list" where
  "list_settled since limit q =
     (let limit = (if limit \<le> 0 then 20 else limit);
          limit = (if limit > 100 then 100 else limit) in
      take (nat limit)
        (settled_desc (filter (\<lambda>r. \<not> active r \<and> is_terminal (state r) \<and>
           (case since of None \<Rightarrow> True | Some t \<Rightarrow> t \<le> the (settled_at r))) (rows q))))"

definition latest_settled_by_mr ::
  "string \<Rightarrow> int \<Rightarrow> merge_queue \<Rightarrow> queue_error + merge_queue_entry" where
  "latest_settled_by_mr p iid q =
     (if p = [] \<or> iid \<le> 0 then Inl Project_And_MR_Required
      else case settled_desc (filter (\<lambda>r. project r = p \<and> mr_iid r = iid \<and> \<not> active r) (rows q)) of
             [] \<Rightarrow> Inl Not_Found
           | r # _ \<Rightarrow> Inr r)"

definition queue_position :: "string \<Rightarrow> merge_queue \<Rightarrow> int" where
  "queue_position run q =
     (case find (\<lambda>r. pipeline_run_id r = run \<and> active r) (rows q) of
        None \<Rightarrow> 0
      | Some me \<Rightarrow>
          int (length (filter (\<lambda>r. in_lane (project me) (target_branch me) r \<and> active r \<and>
            entry_id r \<le> entry_id me) (rows q))))"

subsection \<open>Compare and swap\<close>

definition update_where ::
  "(merge_queue_entry \<Rightarrow> bool) \<Rightarrow> (merge_queue_entry \<Rightarrow> merge_queue_entry) \<Rightarrow> merge_queue \<Rightarrow> merge_queue" where
  "update_where p f q = q\<lparr>rows := map (\<lambda>r. if p r then f r else r) (rows q)\<rparr>"

type_synonym cas_result = "merge_queue_entry option \<times> queue_error option"

definition after_cas :: "bool \<Rightarrow> int \<Rightarrow> merge_queue \<Rightarrow> cas_result" where
  "after_cas affected i q =
     (case find (\<lambda>r. entry_id r = i) (rows q) of
        None \<Rightarrow> (None, Some Not_Found)
      | Some r \<Rightarrow> (Some r, if affected then None else Some Conflict))"

definition cas ::
  "(merge_queue_entry \<Rightarrow> bool) \<Rightarrow> (merge_queue_entry \<Rightarrow> merge_queue_entry) \<Rightarrow> int \<Rightarrow> merge_queue \<Rightarrow>
   cas_result \<times> merge_queue" where
  "cas p f i q =
     (let p' = (\<lambda>r. entry_id r = i \<and> p r \<and> active r); q' = update_where p' f q in
      (after_cas (list_ex p' (rows q)) i q', q'))"

record transition_request =
  tr_id :: int
  tr_from :: merge_queue_state
  tr_to :: merge_queue_state
  tr_current_sha :: string
  tr_detail :: "detail option"
  tr_bump :: bool

definition apply_transition ::
  "time \<Rightarrow> transition_request \<Rightarrow> merge_queue_entry \<Rightarrow> merge_queue_entry" where
  "apply_transition now t r =
     r\<lparr>state := tr_to t, updated_at := now,
       current_sha := (if tr_current_sha t \<noteq> [] then tr_current_sha t else current_sha r),
       detail_of := (case tr_detail t of None \<Rightarrow> detail_of r | Some d \<Rightarrow> d),
       attempts := (if tr_bump t then attempts r + 1 else attempts r)\<rparr>"

definition transition :: "time \<Rightarrow> transition_request \<Rightarrow> merge_queue \<Rightarrow> cas_result \<times> merge_queue" where
  "transition now t q =
     (if tr_id t \<le> 0 then ((None, Some ID_Not_Positive), q)
      else if is_terminal (tr_from t) \<or> is_terminal (tr_to t) then ((None, Some Terminal_Transition), q)
      else cas (\<lambda>r. state r = tr_from t) (apply_transition now t) (tr_id t) q)"

definition merged_row :: "time \<Rightarrow> string \<Rightarrow> merge_queue_entry \<Rightarrow> merge_queue_entry" where
  "merged_row now sha r =
     r\<lparr>state := Merged, merged_sha := sha, updated_at := now, settled_at := Some now\<rparr>"

definition evicted_row ::
  "time \<Rightarrow> string \<Rightarrow> detail option \<Rightarrow> merge_queue_entry \<Rightarrow> merge_queue_entry" where
  "evicted_row now reason d r =
     r\<lparr>state := Evicted, eviction_reason := reason, updated_at := now, settled_at := Some now,
       detail_of := (case d of None \<Rightarrow> detail_of r | Some d \<Rightarrow> d)\<rparr>"

definition mark_merged ::
  "time \<Rightarrow> int \<Rightarrow> merge_queue_state \<Rightarrow> string \<Rightarrow> merge_queue \<Rightarrow> cas_result \<times> merge_queue" where
  "mark_merged now i from sha q =
     cas (\<lambda>r. state r = from) (merged_row now sha) i q"

definition mark_evicted ::
  "time \<Rightarrow> int \<Rightarrow> string \<Rightarrow> detail option \<Rightarrow> merge_queue \<Rightarrow> cas_result \<times> merge_queue" where
  "mark_evicted now i reason d q =
     (if reason = [] then ((None, Some Reason_Required), q)
      else cas (\<lambda>_. True) (evicted_row now reason d) i q)"

text \<open>The writes, as one type of command: what any client may do to the table.\<close>

datatype queue_op =
    Op_Enqueue time merge_queue_entry int
  | Op_Transition time transition_request
  | Op_Merged time int merge_queue_state string
  | Op_Evicted time int string "detail option"

fun run_op :: "queue_op \<Rightarrow> merge_queue \<Rightarrow> merge_queue" where
  "run_op (Op_Enqueue now e d) q = snd (enqueue now e d q)"
| "run_op (Op_Transition now t) q = snd (transition now t q)"
| "run_op (Op_Merged now i from sha) q = snd (mark_merged now i from sha q)"
| "run_op (Op_Evicted now i reason d) q = snd (mark_evicted now i reason d q)"

definition run_ops :: "queue_op list \<Rightarrow> merge_queue \<Rightarrow> merge_queue" where
  "run_ops ops q = fold run_op ops q"

section \<open>Invariant\<close>

definition row_ok :: "int \<Rightarrow> merge_queue_entry \<Rightarrow> bool" where
  "row_ok n r \<longleftrightarrow>
     0 < entry_id r \<and> entry_id r < n \<and>
     (active r \<longleftrightarrow> \<not> is_terminal (state r)) \<and> (state r = Evicted \<longleftrightarrow> eviction_reason r \<noteq> [])"

text \<open>The rows of one run, all but the newest, are evicted attempts.\<close>

definition superseded :: "merge_queue_entry \<Rightarrow> merge_queue_entry \<Rightarrow> bool" where
  "superseded r r' \<longleftrightarrow> pipeline_run_id r = pipeline_run_id r' \<longrightarrow> state r = Evicted"

definition queue_ok :: "merge_queue \<Rightarrow> bool" where
  "queue_ok q \<longleftrightarrow>
     0 < next_id q \<and> (\<forall>r \<in> set (rows q). row_ok (next_id q) r) \<and>
     sorted_wrt (\<lambda>r r'. entry_id r < entry_id r') (rows q) \<and> sorted_wrt superseded (rows q)"

lemma queue_ok_empty: "queue_ok empty_queue"
  by (simp add: queue_ok_def empty_queue_def)

lemma is_terminal_iff: "is_terminal s \<longleftrightarrow> s = Merged \<or> s = Evicted"
  by (cases s) auto

lemma row_ok_active: "row_ok n r \<Longrightarrow> active r \<longleftrightarrow> state r \<noteq> Merged \<and> state r \<noteq> Evicted"
  by (simp add: row_ok_def is_terminal_iff)

lemma sorted_wrt_trans_pair:
  "sorted_wrt R xs \<Longrightarrow> x \<in> set xs \<Longrightarrow> y \<in> set xs \<Longrightarrow> x = y \<or> R x y \<or> R y x"
  by (induction xs) auto

lemma entry_id_inject:
  "queue_ok q \<Longrightarrow> r \<in> set (rows q) \<Longrightarrow> r' \<in> set (rows q) \<Longrightarrow> entry_id r = entry_id r' \<Longrightarrow> r = r'"
  unfolding queue_ok_def by (metis less_irrefl sorted_wrt_trans_pair)

lemma active_run_unique:
  "queue_ok q \<Longrightarrow> r \<in> set (rows q) \<Longrightarrow> r' \<in> set (rows q) \<Longrightarrow> active r \<Longrightarrow> active r' \<Longrightarrow>
   pipeline_run_id r = pipeline_run_id r' \<Longrightarrow> r = r'"
  using sorted_wrt_trans_pair [of superseded "rows q" r r']
  by (auto simp: queue_ok_def superseded_def row_ok_active)

lemma find_rev_Some:
  "find P (rev xs) = Some x \<Longrightarrow> \<exists>a b. xs = a @ x # b \<and> P x \<and> (\<forall>y \<in> set b. \<not> P y)"
proof (induction xs rule: rev_induct)
  case (snoc z zs)
  show ?case
  proof (cases "P z")
    case False
    with snoc obtain a b where "zs = a @ x # b" "P x" "\<forall>y \<in> set b. \<not> P y" by auto
    with False show ?thesis by (intro exI [of _ a] exI [of _ "b @ [z]"]) auto
  next
    case True
    with snoc.prems show ?thesis by (intro exI [of _ zs] exI [of _ "[]"]) auto
  qed
qed simp

lemma newest_of_run_Some:
  assumes "newest_of_run run q = Some x"
  shows "x \<in> set (rows q) \<and> pipeline_run_id x = run"
  using find_rev_Some [OF assms [unfolded newest_of_run_def]] by auto

lemma newest_of_run_None:
  "newest_of_run run q = None \<longleftrightarrow> (\<forall>r \<in> set (rows q). pipeline_run_id r \<noteq> run)"
  by (auto simp: newest_of_run_def find_None_iff)

lemma newest_of_run_older:
  assumes "queue_ok q" and "newest_of_run run q = Some x"
    and "r \<in> set (rows q)" and "pipeline_run_id r = run"
  shows "r = x \<or> state r = Evicted"
  using find_rev_Some [OF assms(2) [unfolded newest_of_run_def]] assms(1,3,4)
  by (auto simp: queue_ok_def sorted_wrt_append superseded_def)

text \<open>A row of the run that is not evicted is the newest one.\<close>

lemma newest_of_run_live:
  assumes "queue_ok q" and "r \<in> set (rows q)" and "state r \<noteq> Evicted"
  shows "newest_of_run (pipeline_run_id r) q = Some r"
  using assms newest_of_run_older [of q "pipeline_run_id r" _ r] newest_of_run_None [of "pipeline_run_id r" q]
  by (cases "newest_of_run (pipeline_run_id r) q") auto

subsection \<open>Enqueue\<close>

lemma refound_None:
  assumes "queue_ok q" and "refound run q = None" and "r \<in> set (rows q)" and "pipeline_run_id r = run"
  shows "state r = Evicted"
proof (rule ccontr)
  assume "state r \<noteq> Evicted"
  with newest_of_run_live [OF assms(1,3)] assms have "\<not> active r \<and> state r \<noteq> Merged"
    by (simp add: refound_def split: if_splits)
  moreover have "row_ok (next_id q) r" using assms by (simp add: queue_ok_def)
  ultimately show False using \<open>state r \<noteq> Evicted\<close> by (simp add: row_ok_active)
qed

text \<open>Every outcome of \<open>Enqueue\<close>.\<close>

lemma enqueue_cases:
  obtains (refused) e' where "enqueue now e d q = (Inl e', q)"
  | (refound) x where "refound (pipeline_run_id e) q = Some x" "enqueue now e d q = (Inr (x, False), q)"
  | (created) "refound (pipeline_run_id e) q = None" "missing_field e = None" "0 < mr_iid e"
      "d \<le> 0 \<or> lane_depth (project e) (target_branch e) q < d"
      "enqueue now e d q = (Inr (returned_row now e q, True),
         q\<lparr>rows := rows q @ [inserted_row (returned_row now e q)], next_id := next_id q + 1\<rparr>)"
proof (cases "missing_field e = None \<and> 0 < mr_iid e")
  case False
  then show ?thesis using refused by (cases "missing_field e") (auto simp: enqueue_def)
next
  case fields: True
  show ?thesis
  proof (cases "refound (pipeline_run_id e) q")
    case (Some x)
    with fields refound show ?thesis by (simp add: enqueue_def)
  next
    case None
    show ?thesis
    proof (cases "0 < d \<and> d \<le> lane_depth (project e) (target_branch e) q \<or>
        list_ex (\<lambda>r. pipeline_run_id r = pipeline_run_id e \<and> active r) (rows q)")
      case True
      with fields None refused show ?thesis
        by (cases "0 < d \<and> d \<le> lane_depth (project e) (target_branch e) q")
          (auto simp: enqueue_def Let_def)
    next
      case False
      then show ?thesis using fields None by (intro created) (auto simp: enqueue_def Let_def)
    qed
  qed
qed

lemma inserted_row_ok: "0 < n \<Longrightarrow> next_id q = n \<Longrightarrow> row_ok (n + 1) (inserted_row (returned_row now e q))"
  by (simp add: row_ok_def inserted_row_def returned_row_def active_def)

lemma inserted_row_run [simp]:
  "pipeline_run_id (inserted_row (returned_row now e q)) = pipeline_run_id e"
  "entry_id (inserted_row (returned_row now e q)) = next_id q"
  "project (inserted_row (returned_row now e q)) = project e"
  "target_branch (inserted_row (returned_row now e q)) = target_branch e"
  "active (inserted_row (returned_row now e q))"
  "state (inserted_row (returned_row now e q)) = Queued"
  by (simp_all add: inserted_row_def returned_row_def active_def)

lemma returned_row_fields [simp]:
  "entry_id (returned_row now e q) = next_id q"
  "pipeline_run_id (returned_row now e q) = pipeline_run_id e"
  "project (returned_row now e q) = project e"
  "target_branch (returned_row now e q) = target_branch e"
  by (simp_all add: returned_row_def)

lemma enqueue_ok:
  assumes ok: "queue_ok q"
  shows "queue_ok (snd (enqueue now e d q))"
proof (cases rule: enqueue_cases [of now e d q])
  case created
  from ok have "\<forall>r \<in> set (rows q). row_ok (next_id q + 1) r" and "0 < next_id q"
    by (auto simp: queue_ok_def row_ok_def)
  moreover have "\<forall>r \<in> set (rows q). superseded r (inserted_row (returned_row now e q))"
    using refound_None [OF ok created(1)] by (simp add: superseded_def)
  moreover have "\<forall>r \<in> set (rows q). entry_id r < next_id q"
    using ok by (auto simp: queue_ok_def row_ok_def)
  ultimately show ?thesis
    using ok created(5) inserted_row_ok [OF \<open>0 < next_id q\<close> refl]
    by (auto simp: queue_ok_def sorted_wrt_append)
qed (use ok in auto)

subsection \<open>Compare and swap\<close>

text \<open>What a compare-and-swap may do to a row: it keeps the row's identity and well-formedness.\<close>

definition keeps_row :: "(merge_queue_entry \<Rightarrow> merge_queue_entry) \<Rightarrow> bool" where
  "keeps_row f \<longleftrightarrow> (\<forall>r. entry_id (f r) = entry_id r \<and> pipeline_run_id (f r) = pipeline_run_id r \<and>
     project (f r) = project r \<and> target_branch (f r) = target_branch r)"

lemma update_where_ok:
  assumes ok: "queue_ok q" and f: "keeps_row f"
    and p: "\<And>r. r \<in> set (rows q) \<Longrightarrow> p r \<Longrightarrow> active r \<and> row_ok (next_id q) (f r)"
  shows "queue_ok (update_where p f q)"
proof -
  let ?g = "\<lambda>r. if p r then f r else r"
  have id: "entry_id (?g r) = entry_id r" "pipeline_run_id (?g r) = pipeline_run_id r" for r
    using f by (auto simp: keeps_row_def)
  have "sorted_wrt (\<lambda>r r'. superseded (?g r) (?g r')) (rows q)"
  proof (rule sorted_wrt_mono_rel)
    show "sorted_wrt superseded (rows q)" using ok by (simp add: queue_ok_def)
    fix x y assume "x \<in> set (rows q)" "y \<in> set (rows q)" "superseded x y"
    with ok p [of x] show "superseded (?g x) (?g y)"
      unfolding superseded_def id by (auto simp: queue_ok_def row_ok_active)
  qed
  with ok p id show ?thesis
    by (auto simp: queue_ok_def update_where_def sorted_wrt_map)
qed

lemma cas_ok:
  assumes "queue_ok q" and "keeps_row f"
    and "\<And>r. r \<in> set (rows q) \<Longrightarrow> p r \<Longrightarrow> active r \<Longrightarrow> row_ok (next_id q) r \<Longrightarrow> row_ok (next_id q) (f r)"
  shows "queue_ok (snd (cas p f i q))"
  using assms unfolding cas_def Let_def snd_conv
  by (intro update_where_ok) (auto simp: queue_ok_def)

lemma keeps_row_transition: "keeps_row (apply_transition now t)"
  by (simp add: keeps_row_def apply_transition_def)

lemma transition_ok: "queue_ok q \<Longrightarrow> queue_ok (snd (transition now t q))"
  unfolding transition_def
  by (auto intro!: cas_ok simp: keeps_row_transition)
     (auto simp: row_ok_def apply_transition_def active_def is_terminal_iff)

lemma keeps_row_settle: "keeps_row (merged_row now sha)" "keeps_row (evicted_row now reason d)"
  by (simp_all add: keeps_row_def merged_row_def evicted_row_def)

lemma settled_row [simp]: "\<not> active (merged_row now sha r)" "\<not> active (evicted_row now reason d r)"
  by (simp_all add: merged_row_def evicted_row_def active_def)

lemma mark_merged_ok: "queue_ok q \<Longrightarrow> queue_ok (snd (mark_merged now i from sha q))"
  unfolding mark_merged_def
  by (rule cas_ok) (auto simp: keeps_row_settle row_ok_def merged_row_def active_def)

lemma mark_evicted_ok: "queue_ok q \<Longrightarrow> queue_ok (snd (mark_evicted now i reason d q))"
  unfolding mark_evicted_def
  by (auto intro!: cas_ok simp: keeps_row_settle) (auto simp: row_ok_def evicted_row_def active_def)

lemma run_op_ok: "queue_ok q \<Longrightarrow> queue_ok (run_op op q)"
  by (cases op) (simp_all add: enqueue_ok transition_ok mark_merged_ok mark_evicted_ok)

definition queue_step :: "merge_queue \<Rightarrow> merge_queue \<Rightarrow> bool" where
  "queue_step q q' \<longleftrightarrow> (\<exists>op. q' = run_op op q)"

interpretation queue_sys: inv_system "\<lambda>q. q = empty_queue" queue_step queue_ok
  by unfold_locales (auto simp: queue_ok_empty queue_step_def run_op_ok)

section \<open>Lanes\<close>

text \<open>The abstract view of a lane is the FIFO list of the ids of its active rows.\<close>

definition lane_ids :: "string \<Rightarrow> string \<Rightarrow> merge_queue \<Rightarrow> int list" where
  "lane_ids p b q = map entry_id (lane p b q)"

lemma lane_sorted: "queue_ok q \<Longrightarrow> sorted_wrt (<) (lane_ids p b q)"
  by (simp add: queue_ok_def lane_ids_def lane_def sorted_wrt_map sorted_wrt_filter)

lemma lane_distinct: "queue_ok q \<Longrightarrow> distinct (lane_ids p b q)"
  using lane_sorted strict_sorted_iff by blast

lemma cas_lane:
  assumes f: "keeps_row f" and act: "\<And>r. active (f r) \<longleftrightarrow> act"
  shows "lane_ids p b (snd (cas c f i q)) =
    map entry_id (filter (\<lambda>r. in_lane p b r \<and> active r \<and> (act \<or> \<not> (entry_id r = i \<and> c r))) (rows q))"
proof -
  let ?p = "\<lambda>r. entry_id r = i \<and> c r \<and> active r"
  have "map entry_id (filter (\<lambda>r. in_lane p b r \<and> active r) (map (\<lambda>r. if ?p r then f r else r) rs)) =
    map entry_id (filter (\<lambda>r. in_lane p b r \<and> active r \<and> (act \<or> \<not> (entry_id r = i \<and> c r))) rs)" for rs
    using f act by (induction rs) (auto simp: keeps_row_def in_lane_def)
  then show ?thesis by (simp add: lane_ids_def lane_def cas_def Let_def update_where_def)
qed

lemma find_id:
  assumes "queue_ok q" and "r \<in> set (rows q)"
  shows "find (\<lambda>r'. entry_id r' = entry_id r) (rows q) = Some r"
proof (cases "find (\<lambda>r'. entry_id r' = entry_id r) (rows q)")
  case (Some x)
  then have "x \<in> set (rows q)" "entry_id x = entry_id r" by (auto simp: find_Some_iff)
  with entry_id_inject [OF assms(1) _ assms(2)] Some show ?thesis by simp
qed (use assms(2) in \<open>auto simp: find_None_iff\<close>)

text \<open>The result of a compare-and-swap: it succeeds exactly on an active row the predicate accepts.\<close>

lemma cas_result:
  assumes ok: "queue_ok q" and f: "keeps_row f" and r: "r \<in> set (rows q)"
  shows "fst (cas c f (entry_id r) q) =
    (if c r \<and> active r then (Some (f r), None) else (Some r, Some Conflict))"
proof -
  let ?p = "\<lambda>x. entry_id x = entry_id r \<and> c x \<and> active x"
  have eq: "find (\<lambda>x. entry_id x = i) (map (\<lambda>x. if ?p x then f x else x) rs) =
      map_option (\<lambda>x. if ?p x then f x else x) (find (\<lambda>x. entry_id x = i) rs)" for i rs
    using f by (induction rs) (auto simp: keeps_row_def)
  have "list_ex ?p (rows q) \<longleftrightarrow> c r \<and> active r"
    using r entry_id_inject [OF ok _ r] by (auto simp: list_ex_iff)
  then show ?thesis
    by (auto simp: cas_def after_cas_def Let_def update_where_def eq find_id [OF ok r])
qed

lemma cas_missing:
  assumes "keeps_row f" and "i \<notin> entry_id ` set (rows q)"
  shows "cas c f i q = ((None, Some Not_Found), q)"
proof -
  have "map (\<lambda>r. if entry_id r = i \<and> c r \<and> active r then f r else r) rs = rs"
    if "i \<notin> entry_id ` set rs" for rs
    using that by (induction rs) auto
  moreover have "find (\<lambda>r. entry_id r = i) (rows q) = None"
    using assms(2) by (force simp: find_None_iff)
  ultimately show ?thesis
    using assms(2) by (simp add: cas_def after_cas_def Let_def update_where_def)
qed

lemma cas_other:
  assumes "r \<in> set (rows q)" and "entry_id r \<noteq> i \<or> \<not> c r \<or> \<not> active r"
  shows "r \<in> set (rows (snd (cas c f i q)))"
  using assms by (force simp: cas_def Let_def update_where_def)

text \<open>Settling row \<open>i\<close> takes its id out of its lane; a failed attempt changes no lane.\<close>

lemma cas_lane_settle:
  assumes ok: "queue_ok q" and f: "keeps_row f" and act: "\<And>r. \<not> active (f r)"
  shows "lane_ids p b (snd (cas c f i q)) =
    (if snd (fst (cas c f i q)) = None then filter (\<lambda>j. j \<noteq> i) (lane_ids p b q) else lane_ids p b q)"
proof -
  have lane: "lane_ids p b (snd (cas c f i q)) =
    map entry_id (filter (\<lambda>r. in_lane p b r \<and> active r \<and> \<not> (entry_id r = i \<and> c r)) (rows q))"
    using cas_lane [OF f, of False p b c i q] act by simp
  show ?thesis
  proof (cases "i \<in> entry_id ` set (rows q)")
    case True
    then obtain r where r: "r \<in> set (rows q)" and i: "i = entry_id r" by auto
    have one: "entry_id x = i \<longleftrightarrow> x = r" if "x \<in> set (rows q)" for x
      using entry_id_inject [OF ok that r] i by auto
    have res: "snd (fst (cas c f i q)) = None \<longleftrightarrow> c r \<and> active r"
      using cas_result [OF ok f r, of c] i by simp
    show ?thesis
    proof (cases "c r \<and> active r")
      case True
      then have "filter (\<lambda>x. in_lane p b x \<and> active x \<and> \<not> (entry_id x = i \<and> c x)) (rows q) =
          filter (\<lambda>x. (in_lane p b x \<and> active x) \<and> entry_id x \<noteq> i) (rows q)"
        using one by (intro filter_cong) auto
      with True res show ?thesis
        unfolding lane by (simp add: lane_ids_def lane_def filter_map o_def conj_ac)
    next
      case False
      then have "filter (\<lambda>x. in_lane p b x \<and> active x \<and> \<not> (entry_id x = i \<and> c x)) (rows q) =
          filter (\<lambda>x. in_lane p b x \<and> active x) (rows q)"
        using one by (intro filter_cong) auto
      with False res show ?thesis unfolding lane by (auto simp: lane_ids_def lane_def)
    qed
  next
    case False
    with cas_missing [OF f] show ?thesis by simp
  qed
qed

lemma enqueue_lane:
  "lane_ids p b (snd (enqueue now e d q)) =
   (case fst (enqueue now e d q) of
      Inr (r, True) \<Rightarrow> (if in_lane p b r then lane_ids p b q @ [entry_id r] else lane_ids p b q)
    | _ \<Rightarrow> lane_ids p b q)"
proof (cases rule: enqueue_cases [of now e d q])
  case created
  then show ?thesis
    by (simp add: lane_ids_def lane_def in_lane_def)
qed simp_all

lemma transition_lane: "queue_ok q \<Longrightarrow> lane_ids p b (snd (transition now t q)) = lane_ids p b q"
proof -
  assume ok: "queue_ok q"
  have "map entry_id (lane p b (update_where P (apply_transition now t) q)) = map entry_id (lane p b q)" for P
  proof -
    have "map entry_id (filter (\<lambda>r. in_lane p b r \<and> active r)
        (map (\<lambda>r. if P r then apply_transition now t r else r) rs)) =
      map entry_id (filter (\<lambda>r. in_lane p b r \<and> active r) rs)" for rs
      by (induction rs) (auto simp: apply_transition_def in_lane_def active_def)
    then show ?thesis by (simp add: lane_def update_where_def)
  qed
  then show ?thesis by (simp add: transition_def cas_def Let_def lane_ids_def)
qed

text \<open>The head of a lane, and the position of a run in its lane.\<close>

lemma mem_lane: "r \<in> set (lane p b q) \<longleftrightarrow> r \<in> set (rows q) \<and> in_lane p b r \<and> active r"
  by (auto simp: lane_def)

lemma lane_hd_min:
  assumes "queue_ok q" and "lane p b q \<noteq> []"
  shows "Min (set (lane_ids p b q)) = entry_id (hd (lane p b q))"
proof -
  obtain x xs where x: "lane p b q = x # xs" using assms(2) by (cases "lane p b q") auto
  with lane_sorted [OF assms(1), of p b] show ?thesis
    by (intro Min_eqI) (auto simp: lane_ids_def)
qed

lemma set_heads:
  assumes ok: "queue_ok q"
  shows "set (heads q) = {r. r \<in> set (rows q) \<and> active r \<and> hd (lane (project r) (target_branch r) q) = r}"
proof -
  have "entry_id r = Min (set (lane_ids (project r) (target_branch r) q)) \<longleftrightarrow>
      hd (lane (project r) (target_branch r) q) = r"
    if r: "r \<in> set (rows q)" "active r" for r
  proof -
    let ?l = "lane (project r) (target_branch r) q"
    have "r \<in> set ?l" using r by (simp add: mem_lane in_lane_def)
    then have ne: "?l \<noteq> []" by auto
    then have "hd ?l \<in> set (rows q)" using hd_in_set [OF ne] mem_lane by blast
    from entry_id_inject [OF ok r(1) this] show ?thesis
      unfolding lane_hd_min [OF ok ne] by metis
  qed
  then show ?thesis
    unfolding heads_def set_filter lane_ids_def [symmetric] by blast
qed

lemma queue_position_nth:
  assumes ok: "queue_ok q" and r: "lane p b q ! n = r" and n: "n < length (lane p b q)"
  shows "queue_position (pipeline_run_id r) q = int n + 1"
proof -
  let ?l = "lane p b q"
  have mem: "r \<in> set (rows q)" "in_lane p b r" "active r"
    using n mem_lane [of r p b q] r [symmetric] by auto
  have "find (\<lambda>x. pipeline_run_id x = pipeline_run_id r \<and> active x) (rows q) = Some r"
  proof (cases "find (\<lambda>x. pipeline_run_id x = pipeline_run_id r \<and> active x) (rows q)")
    case None
    with mem show ?thesis by (auto simp: find_None_iff)
  next
    case (Some x)
    then have "x \<in> set (rows q)" "pipeline_run_id x = pipeline_run_id r" "active x"
      by (auto simp: find_Some_iff)
    with active_run_unique [OF ok _ mem(1)] mem Some show ?thesis by simp
  qed
  moreover have "filter (\<lambda>x. in_lane (project r) (target_branch r) x \<and> active x \<and> entry_id x \<le> entry_id r) (rows q)
      = filter (\<lambda>x. entry_id x \<le> entry_id r) ?l"
    using mem by (auto simp: lane_def in_lane_def intro: filter_cong)
  moreover have "filter (\<lambda>x. entry_id x \<le> entry_id r) ?l = take (Suc n) ?l"
  proof -
    have s: "sorted_wrt (\<lambda>x y. entry_id x < entry_id y) (take (Suc n) ?l @ drop (Suc n) ?l)"
      using ok by (simp add: queue_ok_def lane_def sorted_wrt_filter)
    have t: "take (Suc n) ?l = take n ?l @ [r]" using n r by (simp add: take_Suc_conv_app_nth)
    have "\<forall>x \<in> set (take (Suc n) ?l). entry_id x \<le> entry_id r"
      using s unfolding t sorted_wrt_append by fastforce
    moreover have "\<forall>x \<in> set (drop (Suc n) ?l). \<not> entry_id x \<le> entry_id r"
      using s unfolding t sorted_wrt_append by fastforce
    ultimately have "filter (\<lambda>x. entry_id x \<le> entry_id r) (take (Suc n) ?l @ drop (Suc n) ?l) = take (Suc n) ?l"
      unfolding filter_append by (simp add: filter_id_conv filter_empty_conv)
    then show ?thesis by simp
  qed
  ultimately show ?thesis using n by (simp add: queue_position_def)
qed

subsection \<open>Settled rows\<close>

lemma run_op_settled:
  assumes "r \<in> set (rows q)" and "\<not> active r"
  shows "r \<in> set (rows (run_op op q))"
proof (cases op)
  case (Op_Enqueue now e d)
  then show ?thesis using assms by (cases rule: enqueue_cases [of now e d q]) auto
qed (use assms cas_other [of r q] in \<open>simp_all add: transition_def mark_merged_def mark_evicted_def\<close>)

interpretation mq: settled_table queue_ok rows active run_op
  by unfold_locales (simp_all add: run_op_ok run_op_settled)

lemmas run_ops_ok = mq.writes_inv [folded run_ops_def]
lemmas run_ops_settled = mq.writes_settled [folded run_ops_def]

lemma refound_merged:
  assumes ok: "queue_ok q" and r: "r \<in> set (rows q)" "state r = Merged"
  shows "refound (pipeline_run_id r) q = Some r"
  using newest_of_run_live [OF ok r(1)] r(2) by (simp add: refound_def)

subsection \<open>Depth\<close>

lemma lane_depth_ids: "lane_depth p b q = int (length (lane_ids p b q))"
  by (simp add: lane_depth_def lane_ids_def lane_def)

definition bounded_by :: "int \<Rightarrow> queue_op \<Rightarrow> bool" where
  "bounded_by n op = (case op of Op_Enqueue _ _ d \<Rightarrow> 0 < d \<and> d \<le> n | _ \<Rightarrow> True)"

lemma run_op_depth:
  assumes ok: "queue_ok q" and op: "bounded_by n op" and d: "lane_depth p b q \<le> n"
  shows "lane_depth p b (run_op op q) \<le> n"
proof (cases op)
  case (Op_Enqueue now e d')
  then show ?thesis
    using op d
    by (cases rule: enqueue_cases [of now e d' q])
       (auto simp: lane_depth_ids bounded_by_def lane_ids_def lane_def in_lane_def)
next
  case (Op_Transition now t)
  then show ?thesis using d transition_lane [OF ok] by (simp add: lane_depth_ids)
next
  case (Op_Merged now i st sha)
  then show ?thesis
    using d order_trans [OF _ d] of_nat_mono [OF length_filter_le]
    by (auto simp: lane_depth_ids mark_merged_def cas_lane_settle [OF ok keeps_row_settle(1) settled_row(1)])
next
  case (Op_Evicted now i reason de)
  then show ?thesis
    using d order_trans [OF _ d] of_nat_mono [OF length_filter_le]
    by (auto simp: lane_depth_ids mark_evicted_def cas_lane_settle [OF ok keeps_row_settle(2) settled_row(2)])
qed

section \<open>Properties\<close>

text \<open>
  C9. Settled verdicts are final and a run has one live candidate.  In every reachable
  table no two unsettled rows belong to the same run, a row is settled exactly when its
  state is merged or evicted, and whatever writes follow, by any number of clients in any
  order, a settled row stays in the table unchanged.  A merged row answers every later
  lookup of its run, and every later valid enqueue of that run is answered with it and
  changes nothing.
\<close>

theorem settled_verdict_final:
  assumes "reachable (\<lambda>q. q = empty_queue) queue_step q" and "r \<in> set (rows q)"
  shows "(active r \<longleftrightarrow> \<not> is_terminal (state r)) \<and>
    \<not> (\<exists>r' \<in> set (rows q). r' \<noteq> r \<and> pipeline_run_id r' = pipeline_run_id r \<and> active r \<and> active r') \<and>
    (active r \<or> (\<forall>ops. r \<in> set (rows (run_ops ops q)))) \<and>
    (state r \<noteq> Merged \<or> (\<forall>ops now e d.
       get_entry (pipeline_run_id r) (run_ops ops q) = Inr r \<and>
       (missing_field e \<noteq> None \<or> mr_iid e \<le> 0 \<or> pipeline_run_id e \<noteq> pipeline_run_id r \<or>
        enqueue now e d (run_ops ops q) = (Inr (r, False), run_ops ops q))))"
proof (intro conjI)
  have ok: "queue_ok q" using assms(1) by (rule queue_sys.inv_reachable)
  with assms(2) show "active r \<longleftrightarrow> \<not> is_terminal (state r)" by (simp add: queue_ok_def row_ok_def)
  show "\<not> (\<exists>r' \<in> set (rows q). r' \<noteq> r \<and> pipeline_run_id r' = pipeline_run_id r \<and> active r \<and> active r')"
    using active_run_unique [OF ok _ assms(2)] by blast
  show stays: "active r \<or> (\<forall>ops. r \<in> set (rows (run_ops ops q)))"
    using run_ops_settled [OF assms(2)] by blast
  have "get_entry (pipeline_run_id r) (run_ops ops q) = Inr r \<and>
      (missing_field e \<noteq> None \<or> mr_iid e \<le> 0 \<or> pipeline_run_id e \<noteq> pipeline_run_id r \<or>
        enqueue now e d (run_ops ops q) = (Inr (r, False), run_ops ops q))"
    if "state r = Merged" for ops now e d
  proof -
    have "\<not> active r" using ok assms(2) that by (simp add: queue_ok_def row_ok_def)
    with stays have mem: "r \<in> set (rows (run_ops ops q))" by blast
    note ok' = run_ops_ok [OF ok, of ops]
    from newest_of_run_live [OF ok' mem] refound_merged [OF ok' mem] that show ?thesis
      by (cases "missing_field e"; cases "pipeline_run_id e = pipeline_run_id r")
        (simp_all add: get_entry_def enqueue_def)
  qed
  then show "state r \<noteq> Merged \<or> (\<forall>ops now e d.
       get_entry (pipeline_run_id r) (run_ops ops q) = Inr r \<and>
       (missing_field e \<noteq> None \<or> mr_iid e \<le> 0 \<or> pipeline_run_id e \<noteq> pipeline_run_id r \<or>
        enqueue now e d (run_ops ops q) = (Inr (r, False), run_ops ops q)))" by blast
qed

text \<open>
  No lane overfills.  As long as every enqueue carries a positive bound of at most
  \<open>n\<close>, no lane ever holds more than \<open>n\<close> unsettled rows, through any sequence of writes to a
  well-formed table whose lane starts within the bound.
\<close>

theorem lane_depth_bounded:
  assumes "queue_ok q" and "list_all (bounded_by n) ops" and "lane_depth p b q \<le> n"
  shows "lane_depth p b (run_ops ops q) \<le> n"
  using assms unfolding run_ops_def
  by (induction ops arbitrary: q) (simp_all add: run_op_ok run_op_depth)

text \<open>
  C23. Each lane is a FIFO queue.  Seen as the list of the ids of its unsettled rows, in
  order, a lane changes by the operations of a queue only: a created row joins the back of
  its own lane, a settlement that succeeds removes its row, every other write, and every
  write that fails, leaves the lane as it is.  The heads are the first rows of the lanes,
  and the position reported to a run is its place in its lane.
\<close>

theorem lane_is_fifo:
  assumes "queue_ok q"
  shows "lane_ids p b (snd (enqueue now e d q)) =
      (case fst (enqueue now e d q) of
         Inr (r, True) \<Rightarrow> lane_ids p b q @ (if in_lane p b r then [entry_id r] else [])
       | _ \<Rightarrow> lane_ids p b q) \<and>
    lane_ids p b (snd (transition now t q)) = lane_ids p b q \<and>
    lane_ids p b (snd (mark_merged now i st sha q)) =
      (if snd (fst (mark_merged now i st sha q)) = None
       then filter (\<lambda>j. j \<noteq> i) (lane_ids p b q) else lane_ids p b q) \<and>
    lane_ids p b (snd (mark_evicted now i reason de q)) =
      (if snd (fst (mark_evicted now i reason de q)) = None
       then filter (\<lambda>j. j \<noteq> i) (lane_ids p b q) else lane_ids p b q) \<and>
    distinct (lane_ids p b q) \<and>
    set (heads q) = {r \<in> set (rows q). active r \<and> hd (lane (project r) (target_branch r) q) = r} \<and>
    (\<forall>n < length (lane p b q). queue_position (pipeline_run_id (lane p b q ! n)) q = int n + 1)"
proof (intro conjI)
  show "lane_ids p b (snd (enqueue now e d q)) =
      (case fst (enqueue now e d q) of
         Inr (r, True) \<Rightarrow> lane_ids p b q @ (if in_lane p b r then [entry_id r] else [])
       | _ \<Rightarrow> lane_ids p b q)"
    unfolding enqueue_lane by (auto split: sum.split bool.split)
  show "lane_ids p b (snd (transition now t q)) = lane_ids p b q" by (rule transition_lane [OF assms])
  show "lane_ids p b (snd (mark_merged now i st sha q)) =
      (if snd (fst (mark_merged now i st sha q)) = None
       then filter (\<lambda>j. j \<noteq> i) (lane_ids p b q) else lane_ids p b q)"
    unfolding mark_merged_def by (rule cas_lane_settle [OF assms keeps_row_settle(1) settled_row(1)])
  show "lane_ids p b (snd (mark_evicted now i reason de q)) =
      (if snd (fst (mark_evicted now i reason de q)) = None
       then filter (\<lambda>j. j \<noteq> i) (lane_ids p b q) else lane_ids p b q)"
    unfolding mark_evicted_def
    using cas_lane_settle [OF assms keeps_row_settle(2) settled_row(2)] by simp
  show "distinct (lane_ids p b q)" by (rule lane_distinct [OF assms])
  show "set (heads q) = {r \<in> set (rows q). active r \<and> hd (lane (project r) (target_branch r) q) = r}"
    by (rule set_heads [OF assms])
  show "\<forall>n < length (lane p b q). queue_position (pipeline_run_id (lane p b q ! n)) q = int n + 1"
    using queue_position_nth [OF assms refl] by blast
qed

subsection \<open>Witnesses\<close>

definition demo_candidate :: "string \<Rightarrow> merge_queue_entry" where
  "demo_candidate run =
     \<lparr>entry_id = 0, pipeline_run_id = run, backlog_id = ''b'', project = ''core'', mr_iid = 7,
      source_branch = ''feat'', target_branch = ''main'', enqueued_sha = ''s1'', current_sha = [],
      state = Queued, eviction_reason = [], detail_of = (\<lambda>_. None), attempts = 0, merged_sha = [],
      enqueued_at = None, updated_at = 0, settled_at = None\<rparr>"

text \<open>Run \<open>a\<close> merged, run \<open>b\<close> evicted once and waiting again behind run \<open>c\<close>.\<close>

definition demo_ops :: "queue_op list" where
  "demo_ops =
     [Op_Enqueue 1 (demo_candidate ''a'') 3, Op_Enqueue 2 (demo_candidate ''b'') 3,
      Op_Enqueue 3 (demo_candidate ''c'') 3, Op_Merged 4 1 Queued ''m'',
      Op_Evicted 5 2 ''head_moved'' None, Op_Enqueue 6 (demo_candidate ''b'') 3]"

definition demo_queue :: merge_queue where
  "demo_queue = run_ops demo_ops empty_queue"

lemma run_ops_reachable:
  "reachable (\<lambda>q. q = empty_queue) queue_step q \<Longrightarrow>
   reachable (\<lambda>q. q = empty_queue) queue_step (run_ops ops q)"
  unfolding run_ops_def
proof (induction ops arbitrary: q)
  case (Cons op ops)
  have "queue_step q (run_op op q)" by (auto simp: queue_step_def)
  from Cons.IH [OF reachable.step [OF Cons.prems this]] show ?case by simp
qed simp

lemma demo_queue_reachable: "reachable (\<lambda>q. q = empty_queue) queue_step demo_queue"
  unfolding demo_queue_def by (intro run_ops_reachable reachable.start refl)

lemma demo_queue_summary:
  "map (\<lambda>r. (entry_id r, pipeline_run_id r, state r, settled_at r)) (rows demo_queue) =
     [(1, ''a'', Merged, Some 4), (2, ''b'', Evicted, Some 5), (3, ''c'', Queued, None),
      (4, ''b'', Queued, None)]"
  by code_simp

lemma demo_queue_first: "\<exists>r. r \<in> set (rows demo_queue) \<and> state r = Merged \<and> pipeline_run_id r = ''a''"
  using demo_queue_summary by (cases "rows demo_queue") auto

theorem settled_verdict_final_witness:
  "\<exists>r. state r = Merged \<and> get_entry ''a'' (run_ops demo_ops demo_queue) = Inr r"
  using demo_queue_first settled_verdict_final [OF demo_queue_reachable] by metis

lemma demo_queue_ok: "queue_ok demo_queue"
  using demo_queue_reachable by (rule queue_sys.inv_reachable)

theorem lane_depth_bounded_witness: "lane_depth ''core'' ''main'' (run_ops demo_ops demo_queue) \<le> 3"
  by (rule lane_depth_bounded [OF demo_queue_ok]) code_simp+

theorem lane_is_fifo_witness:
  "lane_ids ''core'' ''main'' demo_queue = [3, 4] \<and>
   lane_ids ''core'' ''main'' (snd (mark_evicted 9 3 ''ci_red'' None demo_queue)) = [4]"
proof -
  have "lane_ids ''core'' ''main'' demo_queue = [3, 4]" by code_simp
  moreover have "snd (fst (mark_evicted 9 3 ''ci_red'' None demo_queue)) = None" by code_simp
  ultimately show ?thesis
    using lane_is_fifo [OF demo_queue_ok, where p = "''core''" and b = "''main''" and now = 9
        and i = 3 and reason = "''ci_red''" and de = None]
    by simp
qed

end
