(* ===== verification/Head_Ledger.thy ===== *)
theory Head_Ledger
  imports Settled_Table
begin

text \<open>
  The mr_head_transitions ledger, \<^verbatim>\<open>pkg/mills/store/dao_mr_transitions.go\<close>: one row per
  movement of a merge request's head, opened once and settled once.  The table is the list
  of its rows in insertion order; \<open>UNIQUE(pipeline_run_id, seq)\<close> is the schema's constraint.
  The provenance bundle is evidence for humans and is carried as an abstract string.
\<close>

datatype head_trigger = Rebase_Request | External_Movement

datatype head_state =
    Requested | In_Progress | Observed | Attributed | Ambiguous | Failed_Move | Noop

fun is_settled :: "head_state \<Rightarrow> bool" where
  "is_settled Attributed = True"
| "is_settled Ambiguous = True"
| "is_settled Failed_Move = True"
| "is_settled Noop = True"
| "is_settled _ = False"

definition is_movement :: "head_state \<Rightarrow> bool" where
  "is_movement s \<longleftrightarrow> is_settled s \<and> s \<noteq> Noop"

record head_transition =
  ht_id :: int
  ht_run :: string
  ht_seq :: int
  ht_project :: string
  ht_mr_iid :: int
  ht_source_branch :: string
  ht_target_branch :: string
  ht_reviewed_sha :: string
  ht_target_head_sha :: string
  ht_successor_sha :: string
  ht_trigger :: head_trigger
  ht_state :: head_state
  ht_provenance :: string
  ht_requested_at :: "time option"
  ht_observed_at :: "time option"
  ht_settled_at :: "time option"

record head_ledger =
  ht_rows :: "head_transition list"
  ht_next_id :: int

definition empty_ledger :: head_ledger where
  "empty_ledger = \<lparr>ht_rows = [], ht_next_id = 1\<rparr>"

datatype ledger_error =
    Run_Required
  | Reviewed_SHA_Required
  | External_Cannot_Be_Attributed
  | Transition_Open
  | Insert_Refused
  | Run_And_Seq_Required
  | Not_Terminal head_state
  | Already_Settled
  | No_Such_Row

definition unsettled :: "head_transition \<Rightarrow> bool" where
  "unsettled r \<longleftrightarrow> ht_settled_at r = None"

definition max_seq :: "string \<Rightarrow> (head_transition \<Rightarrow> bool) \<Rightarrow> head_ledger \<Rightarrow> int" where
  "max_seq run p l =
     (case map ht_seq (filter (\<lambda>r. ht_run r = run \<and> p r) (ht_rows l)) of
        [] \<Rightarrow> 0
      | s # ss \<Rightarrow> fold max ss s)"

definition opened_row :: "time \<Rightarrow> head_transition \<Rightarrow> head_ledger \<Rightarrow> head_transition" where
  "opened_row now t l =
     (let requested = (case ht_requested_at t of None \<Rightarrow> now | Some x \<Rightarrow> x) in
      t\<lparr>ht_id := ht_next_id l, ht_seq := max_seq (ht_run t) (\<lambda>_. True) l + 1,
        ht_requested_at := Some requested,
        ht_settled_at :=
          (if is_settled (ht_state t) \<and> ht_settled_at t = None then Some requested
           else ht_settled_at t)\<rparr>)"

definition open_transition ::
  "time \<Rightarrow> head_transition \<Rightarrow> head_ledger \<Rightarrow> (ledger_error + head_transition) \<times> head_ledger" where
  "open_transition now t l =
     (if ht_run t = [] then (Inl Run_Required, l)
      else if ht_reviewed_sha t = [] then (Inl Reviewed_SHA_Required, l)
      else if ht_trigger t = External_Movement \<and> ht_state t = Attributed
      then (Inl External_Cannot_Be_Attributed, l)
      else if list_ex (\<lambda>r. ht_run r = ht_run t \<and> unsettled r) (ht_rows l) then (Inl Transition_Open, l)
      else
        let row = opened_row now t l in
        if list_ex (\<lambda>r. ht_run r = ht_run t \<and> ht_seq r = ht_seq row) (ht_rows l)
        then (Inl Insert_Refused, l)
        else (Inr row, l\<lparr>ht_rows := ht_rows l @ [row], ht_next_id := ht_next_id l + 1\<rparr>))"

definition get_transition :: "string \<Rightarrow> int \<Rightarrow> head_ledger \<Rightarrow> head_transition option" where
  "get_transition run seq l = find (\<lambda>r. ht_run r = run \<and> ht_seq r = seq) (ht_rows l)"

record settle_request =
  sr_run :: string
  sr_seq :: int
  sr_state :: head_state
  sr_successor :: string
  sr_provenance :: string
  sr_observed_at :: "time option"
  sr_settled_at :: "time option"

definition settled_row :: "time \<Rightarrow> settle_request \<Rightarrow> head_transition \<Rightarrow> head_transition" where
  "settled_row now req r =
     (let settled = (case sr_settled_at req of None \<Rightarrow> now | Some t \<Rightarrow> t);
          observed = (case sr_observed_at req of
                        None \<Rightarrow> if sr_state req \<noteq> Failed_Move then Some settled else None
                      | Some t \<Rightarrow> Some t) in
      r\<lparr>ht_state := sr_state req, ht_successor_sha := sr_successor req,
        ht_provenance := sr_provenance req, ht_observed_at := observed, ht_settled_at := Some settled\<rparr>)"

definition settle_transition ::
  "time \<Rightarrow> settle_request \<Rightarrow> head_ledger \<Rightarrow>
   (head_transition option \<times> ledger_error option) \<times> head_ledger" where
  "settle_transition now req l =
     (if sr_run req = [] \<or> sr_seq req \<le> 0 then ((None, Some Run_And_Seq_Required), l)
      else if \<not> is_settled (sr_state req) then ((None, Some (Not_Terminal (sr_state req))), l)
      else
        let p = (\<lambda>r. ht_run r = sr_run req \<and> ht_seq r = sr_seq req \<and> unsettled r);
            l' = l\<lparr>ht_rows := map (\<lambda>r. if p r then settled_row now req r else r) (ht_rows l)\<rparr> in
        case get_transition (sr_run req) (sr_seq req) l' of
          None \<Rightarrow> ((None, Some No_Such_Row), l')
        | Some got \<Rightarrow>
            ((Some got, if list_ex p (ht_rows l) then None else Some Already_Settled), l'))"

text \<open>\<open>ORDER BY seq DESC\<close>, and the single unsettled row of a run.\<close>

definition list_by_run :: "string \<Rightarrow> head_ledger \<Rightarrow> head_transition list" where
  "list_by_run run l = rev (sort_key ht_seq (filter (\<lambda>r. ht_run r = run) (ht_rows l)))"

definition unsettled_transition :: "string \<Rightarrow> head_ledger \<Rightarrow> head_transition option" where
  "unsettled_transition run l =
     (case sort_key ht_seq (filter (\<lambda>r. ht_run r = run \<and> unsettled r) (ht_rows l)) of
        [] \<Rightarrow> None
      | r # _ \<Rightarrow> Some r)"

definition moved :: "head_transition \<Rightarrow> bool" where
  "moved r \<longleftrightarrow> \<not> unsettled r \<and> ht_state r \<noteq> Noop"

definition max_settled_seq :: "string \<Rightarrow> head_ledger \<Rightarrow> int" where
  "max_settled_seq run l = max_seq run moved l"

definition count_settled :: "string \<Rightarrow> head_ledger \<Rightarrow> int" where
  "count_settled run l = int (length (filter (\<lambda>r. ht_run r = run \<and> moved r) (ht_rows l)))"

section \<open>Invariant\<close>

text \<open>The sequence numbers of a run are 1, 2, ... in order; only its last row can be unsettled.\<close>

definition run_rows :: "string \<Rightarrow> head_ledger \<Rightarrow> head_transition list" where
  "run_rows run l = filter (\<lambda>r. ht_run r = run) (ht_rows l)"

definition ledger_ok :: "head_ledger \<Rightarrow> bool" where
  "ledger_ok l \<longleftrightarrow>
     (\<forall>run. map ht_seq (run_rows run l) = map int [1..<length (run_rows run l) + 1] \<and>
        (\<forall>r \<in> set (butlast (run_rows run l)). \<not> unsettled r)) \<and>
     (\<forall>r \<in> set (ht_rows l). is_settled (ht_state r) \<longrightarrow> \<not> unsettled r)"

lemma ledger_ok_empty: "ledger_ok empty_ledger"
  by (simp add: ledger_ok_def empty_ledger_def run_rows_def)

lemma fold_max_upt: "fold max (map int [2..<n + 2]) 1 = int n + 1"
  by (induction n) auto

lemma max_seq_length:
  assumes "ledger_ok l"
  shows "max_seq run (\<lambda>_. True) l = int (length (run_rows run l))"
proof (cases "length (run_rows run l)")
  case 0
  then show ?thesis by (simp add: max_seq_def run_rows_def)
next
  case (Suc n)
  have "map ht_seq (run_rows run l) = map int [1..<length (run_rows run l) + 1]"
    using assms by (simp add: ledger_ok_def)
  also have "\<dots> = 1 # map int [2..<n + 2]" by (simp add: Suc upt_conv_Cons numeral_2_eq_2)
  finally show ?thesis using Suc fold_max_upt [of n] by (simp add: max_seq_def run_rows_def)
qed

text \<open>So the insert never meets the uniqueness constraint.\<close>

lemma opened_seq_fresh:
  assumes "ledger_ok l" and "r \<in> set (ht_rows l)" and "ht_run r = ht_run t"
  shows "ht_seq r < ht_seq (opened_row now t l)"
proof -
  have "ht_seq r \<in> set (map ht_seq (run_rows (ht_run t) l))"
    using assms(2,3) by (simp add: run_rows_def)
  then have "ht_seq r < int (length (run_rows (ht_run t) l) + 1)"
    using assms(1) unfolding ledger_ok_def by auto
  then show ?thesis using max_seq_length [OF assms(1)] by (simp add: opened_row_def Let_def)
qed

lemma open_transition_cases:
  assumes "ledger_ok l"
  obtains (refused) e where "open_transition now t l = (Inl e, l)"
  | (opened) "\<forall>r \<in> set (run_rows (ht_run t) l). \<not> unsettled r"
      "open_transition now t l = (Inr (opened_row now t l),
         l\<lparr>ht_rows := ht_rows l @ [opened_row now t l], ht_next_id := ht_next_id l + 1\<rparr>)"
proof -
  have fresh: "\<not> list_ex (\<lambda>r. ht_run r = ht_run t \<and> ht_seq r = ht_seq (opened_row now t l)) (ht_rows l)"
    using opened_seq_fresh [OF assms] by (fastforce simp: list_ex_iff)
  show ?thesis
  proof (cases "ht_run t = [] \<or> ht_reviewed_sha t = [] \<or>
      (ht_trigger t = External_Movement \<and> ht_state t = Attributed) \<or>
      list_ex (\<lambda>r. ht_run r = ht_run t \<and> unsettled r) (ht_rows l)")
    case True
    then have "\<exists>e. open_transition now t l = (Inl e, l)"
      unfolding open_transition_def by auto
    with refused show ?thesis by blast
  next
    case False
    then have "\<forall>r \<in> set (run_rows (ht_run t) l). \<not> unsettled r"
      by (auto simp: list_ex_iff run_rows_def)
    moreover have "open_transition now t l = (Inr (opened_row now t l),
         l\<lparr>ht_rows := ht_rows l @ [opened_row now t l], ht_next_id := ht_next_id l + 1\<rparr>)"
      using False fresh by (simp add: open_transition_def Let_def)
    ultimately show ?thesis by (rule opened)
  qed
qed

lemma opened_row_fields [simp]:
  "ht_run (opened_row now t l) = ht_run t"
  "ht_seq (opened_row now t l) = max_seq (ht_run t) (\<lambda>_. True) l + 1"
  "ht_state (opened_row now t l) = ht_state t"
  by (simp_all add: opened_row_def Let_def)

lemma opened_row_settled: "is_settled (ht_state t) \<Longrightarrow> \<not> unsettled (opened_row now t l)"
  by (auto simp: opened_row_def unsettled_def Let_def)

lemma run_rows_append [simp]:
  "run_rows run (l\<lparr>ht_rows := ht_rows l @ [r], ht_next_id := n\<rparr>) =
   (if ht_run r = run then run_rows run l @ [r] else run_rows run l)"
  by (simp add: run_rows_def)

lemma open_transition_ok:
  assumes ok: "ledger_ok l"
  shows "ledger_ok (snd (open_transition now t l))"
  using ok
proof (cases rule: open_transition_cases [of l now t])
  case opened
  have "map ht_seq (run_rows (ht_run t) l @ [opened_row now t l]) =
      map int [1..<length (run_rows (ht_run t) l) + 2]"
    using ok by (simp add: ledger_ok_def max_seq_length [OF ok])
  with ok opened(1) show ?thesis
    unfolding opened(2) snd_conv
    by (auto simp: ledger_ok_def dest: opened_row_settled simp del: upt_Suc)
qed (use ok in auto)

lemma settled_row_fields [simp]:
  "ht_run (settled_row now req r) = ht_run r"
  "ht_seq (settled_row now req r) = ht_seq r"
  "ht_state (settled_row now req r) = sr_state req"
  "\<not> unsettled (settled_row now req r)"
  by (simp_all add: settled_row_def unsettled_def Let_def)

text \<open>The table after a settlement, whatever its outcome.\<close>

lemma settle_transition_rows:
  "\<exists>p. (\<forall>r. p r \<longrightarrow> unsettled r \<and> is_settled (sr_state req)) \<and> snd (settle_transition now req l) =
     l\<lparr>ht_rows := map (\<lambda>r. if p r then settled_row now req r else r) (ht_rows l)\<rparr>"
proof (cases "sr_run req = [] \<or> sr_seq req \<le> 0 \<or> \<not> is_settled (sr_state req)")
  case True
  then have "snd (settle_transition now req l) = l" by (auto simp: settle_transition_def)
  then show ?thesis by (intro exI [of _ "\<lambda>_. False"]) simp
next
  case False
  then show ?thesis
    by (intro exI [of _ "\<lambda>r. ht_run r = sr_run req \<and> ht_seq r = sr_seq req \<and> unsettled r"])
       (auto simp: settle_transition_def Let_def split: option.split)
qed

lemma settle_transition_ok:
  assumes ok: "ledger_ok l"
  shows "ledger_ok (snd (settle_transition now req l))"
proof -
  obtain p where p: "\<forall>r. p r \<longrightarrow> unsettled r \<and> is_settled (sr_state req)"
    and l': "snd (settle_transition now req l) =
      l\<lparr>ht_rows := map (\<lambda>r. if p r then settled_row now req r else r) (ht_rows l)\<rparr>"
    using settle_transition_rows by blast
  let ?g = "\<lambda>r. if p r then settled_row now req r else r"
  have rows: "run_rows run (snd (settle_transition now req l)) = map ?g (run_rows run l)" for run
  proof -
    have "filter (\<lambda>r. ht_run r = run) (map ?g rs) = map ?g (filter (\<lambda>r. ht_run r = run) rs)" for rs
      by (induction rs) auto
    then show ?thesis by (simp add: l' run_rows_def)
  qed
  have seq: "map ht_seq (map ?g rs) = map ht_seq rs" for rs by (induction rs) auto
  have "\<not> unsettled (?g r)" if "\<not> unsettled r" for r using that by simp
  with ok show ?thesis
    unfolding ledger_ok_def rows seq by (auto simp: l' map_butlast [symmetric])
qed

datatype ledger_op = Op_Open time head_transition | Op_Settle time settle_request

fun run_ledger_op :: "ledger_op \<Rightarrow> head_ledger \<Rightarrow> head_ledger" where
  "run_ledger_op (Op_Open now t) l = snd (open_transition now t l)"
| "run_ledger_op (Op_Settle now req) l = snd (settle_transition now req l)"

lemma run_ledger_op_settled:
  assumes "r \<in> set (ht_rows l)" and "\<not> unsettled r"
  shows "r \<in> set (ht_rows (run_ledger_op op l))"
proof (cases op)
  case (Op_Open now t)
  then show ?thesis using assms(1) by (auto simp: open_transition_def Let_def)
next
  case (Op_Settle now req)
  then show ?thesis
    using settle_transition_rows [of req now l] assms by force
qed

interpretation ledger: settled_table ledger_ok ht_rows unsettled run_ledger_op
proof
  fix l op
  assume "ledger_ok l"
  then show "ledger_ok (run_ledger_op op l)"
    by (cases op) (simp_all add: open_transition_ok settle_transition_ok)
qed (rule run_ledger_op_settled)

section \<open>Reading the ledger\<close>

text \<open>The restart read finds the unsettled row of a run whenever there is one.\<close>

lemma butlast_last: "x \<in> set xs \<Longrightarrow> x \<notin> set (butlast xs) \<Longrightarrow> x = last xs"
  by (induction xs) (auto split: if_splits)

lemma unsettled_transition_unique:
  assumes "ledger_ok l" and "r \<in> set (ht_rows l)" and "unsettled r"
  shows "unsettled_transition (ht_run r) l = Some r"
proof -
  let ?rs = "run_rows (ht_run r) l"
  have r: "r \<in> set ?rs" "r \<notin> set (butlast ?rs)"
    using assms by (auto simp: run_rows_def ledger_ok_def)
  then have "?rs = butlast ?rs @ [r]" by (metis append_butlast_last_id butlast_last empty_iff empty_set)
  then have "filter unsettled ?rs = filter unsettled (butlast ?rs) @ [r]"
    using assms(3) by (metis filter.simps filter_append)
  moreover have "filter unsettled (butlast ?rs) = []"
    using assms(1) by (simp add: ledger_ok_def filter_empty_conv)
  ultimately show ?thesis
    by (simp add: unsettled_transition_def run_rows_def conj_commute)
qed

text \<open>
  The re-authorization fence never falls: a settled movement stays in the ledger, so the
  highest sequence number among them can only grow.
\<close>

lemma max_seq_Max:
  "max_seq run p l =
   (let ss = map ht_seq (filter (\<lambda>r. ht_run r = run \<and> p r) (ht_rows l)) in
    if ss = [] then 0 else Max (set ss))"
proof (cases "map ht_seq (filter (\<lambda>r. ht_run r = run \<and> p r) (ht_rows l))")
  case (Cons s ss)
  then have "max_seq run p l = Max (set (s # ss))"
    unfolding max_seq_def Cons by (simp only: list.case Max.set_eq_fold)
  then show ?thesis unfolding Let_def Cons [symmetric] using Cons by (simp only: if_False list.distinct)
qed (simp add: max_seq_def)

lemma max_seq_ge:
  assumes "r \<in> set (ht_rows l)" and "ht_run r = run" and "p r"
  shows "ht_seq r \<le> max_seq run p l"
proof -
  let ?ss = "map ht_seq (filter (\<lambda>r. ht_run r = run \<and> p r) (ht_rows l))"
  have "ht_seq r \<in> set ?ss" using assms by auto
  then show ?thesis unfolding max_seq_Max Let_def by (auto simp del: set_map set_filter intro: Max_ge)
qed

lemma max_seq_mem:
  "max_seq run p l = 0 \<or> (\<exists>r \<in> set (ht_rows l). ht_run r = run \<and> p r \<and> ht_seq r = max_seq run p l)"
proof (cases "map ht_seq (filter (\<lambda>r. ht_run r = run \<and> p r) (ht_rows l)) = []")
  case False
  then have "max_seq run p l \<in> set (map ht_seq (filter (\<lambda>r. ht_run r = run \<and> p r) (ht_rows l)))"
    unfolding max_seq_Max Let_def if_not_P [OF False] using False by (intro Max_in) (auto simp only: set_empty finite_set)
  then show ?thesis by auto
qed (simp add: max_seq_Max)

lemma ledger_seq_pos: "ledger_ok l \<Longrightarrow> r \<in> set (ht_rows l) \<Longrightarrow> 1 \<le> ht_seq r"
proof -
  assume "ledger_ok l" "r \<in> set (ht_rows l)"
  then have "ht_seq r \<in> set (map ht_seq (run_rows (ht_run r) l))" by (simp add: run_rows_def)
  with \<open>ledger_ok l\<close> show ?thesis unfolding ledger_ok_def by auto
qed

lemma max_settled_seq_mono:
  assumes ok: "ledger_ok l"
  shows "max_settled_seq run l \<le> max_settled_seq run (fold run_ledger_op ops l)" (is "_ \<le> ?m'")
  using max_seq_mem [of run moved l]
proof
  have "0 \<le> ?m'"
    using max_seq_mem [of run moved "fold run_ledger_op ops l"]
      ledger_seq_pos [OF ledger.writes_inv [OF ok, of ops]] unfolding max_settled_seq_def by fastforce
  then show "max_seq run moved l = 0 \<Longrightarrow> ?thesis" by (simp add: max_settled_seq_def)
next
  assume "\<exists>r \<in> set (ht_rows l). ht_run r = run \<and> moved r \<and> ht_seq r = max_seq run moved l"
  then obtain r where r: "r \<in> set (ht_rows l)" "ht_run r = run" "moved r" "ht_seq r = max_seq run moved l"
    by blast
  from ledger.writes_settled [OF r(1)] r(3) have "r \<in> set (ht_rows (fold run_ledger_op ops l))"
    by (simp add: moved_def)
  from max_seq_ge [where p = moved, OF this r(2,3)] r(4) show ?thesis
    by (simp add: max_settled_seq_def)
qed

end
