(* ===== verification/Main_Red_Hold.thy ===== *)
theory Main_Red_Hold
  imports Loom_Prelude
begin

text \<open>
  The main-red external hold: \<^verbatim>\<open>pkg/mills/store/main_red_hold.go\<close> (observations of default
  branch pipelines, the hold they activate and its one escalation) and the controller of
  \<^verbatim>\<open>pkg/mills/mergequeue/mergequeue.go\<close> that the merge queue asks before it touches a lane.
  Pipeline ids are the decimal numbers GitLab assigns, so that the SQL order by length and
  then text is the order of the numbers; timestamps are stored at a fixed width.
\<close>

record observation =
  ob_project :: string
  ob_branch :: string
  ob_pipeline :: nat
  ob_class :: string
  ob_at :: time

record main_red_hold =
  hold_project :: string
  hold_branch :: string
  activated_at :: time
  expires_at :: time
  escalation_sent_at :: "time option"
  cleared_at :: "time option"

text \<open>Observations keyed by (project, branch, pipeline), holds by (project, branch).\<close>

record hold_store =
  observations :: "observation list"
  holds :: "string \<times> string \<rightharpoonup> main_red_hold"
  escalations :: "(string \<times> string \<times> time) list"

definition empty_holds :: hold_store where
  "empty_holds = \<lparr>observations = [], holds = (\<lambda>_. None), escalations = []\<rparr>"

definition external_dependency_incident :: string where
  "external_dependency_incident = ''external_dependency_incident''"

definition hold_active :: "time \<Rightarrow> main_red_hold \<Rightarrow> bool" where
  "hold_active now h \<longleftrightarrow> cleared_at h = None \<and> now < expires_at h"

definition get_hold :: "string \<Rightarrow> string \<Rightarrow> hold_store \<Rightarrow> main_red_hold option" where
  "get_hold p b s = holds s (p, b)"

definition same_pipeline :: "observation \<Rightarrow> observation \<Rightarrow> bool" where
  "same_pipeline o1 o2 \<longleftrightarrow>
     ob_project o1 = ob_project o2 \<and> ob_branch o1 = ob_branch o2 \<and> ob_pipeline o1 = ob_pipeline o2"

text \<open>The upsert of an observation keeps the time of the first one.\<close>

definition observe :: "observation \<Rightarrow> observation list \<Rightarrow> observation list" where
  "observe ob obs =
     (if list_ex (same_pipeline ob) obs
      then map (\<lambda>x. if same_pipeline ob x then x\<lparr>ob_class := ob_class ob\<rparr> else x) obs
      else obs @ [ob])"

definition newest_classes :: "string \<Rightarrow> string \<Rightarrow> observation list \<Rightarrow> string list" where
  "newest_classes p b obs =
     map ob_class (take 2 (rev (sort_key ob_at (sort_key ob_pipeline
       (filter (\<lambda>x. ob_project x = p \<and> ob_branch x = b) obs)))))"

definition upsert_hold :: "string \<Rightarrow> string \<Rightarrow> time \<Rightarrow> time \<Rightarrow> main_red_hold option \<Rightarrow> main_red_hold" where
  "upsert_hold p b at expires prior =
     (let fresh = \<lparr>hold_project = p, hold_branch = b, activated_at = at, expires_at = expires,
                   escalation_sent_at = None, cleared_at = None\<rparr> in
      case prior of
        None \<Rightarrow> fresh
      | Some h \<Rightarrow> if cleared_at h = None then h else fresh)"

datatype hold_error = Lane_Required | Observation_Time_And_Duration_Required

definition record_pipeline ::
  "string \<Rightarrow> string \<Rightarrow> nat option \<Rightarrow> string \<Rightarrow> time option \<Rightarrow> duration \<Rightarrow> hold_store \<Rightarrow>
   (hold_error + main_red_hold option) \<times> hold_store" where
  "record_pipeline project branch pipeline class observed_at hold_for s =
     (let p = trim_space project; b = trim_space branch in
      case (pipeline, observed_at) of
        (Some pid, Some at) \<Rightarrow>
          if p = [] \<or> b = [] then (Inl Lane_Required, s)
          else if hold_for \<le> 0 then (Inl Observation_Time_And_Duration_Required, s)
          else
            let obs = observe \<lparr>ob_project = p, ob_branch = b, ob_pipeline = pid,
                               ob_class = trim_space class, ob_at = at\<rparr> (observations s);
                hs = holds s;
                hs' = (if newest_classes p b obs =
                           [external_dependency_incident, external_dependency_incident]
                       then hs((p, b) \<mapsto> upsert_hold p b at (at + hold_for) (hs (p, b)))
                       else case hs (p, b) of
                              Some h \<Rightarrow> if cleared_at h = None
                                        then hs((p, b) \<mapsto> h\<lparr>cleared_at := Some at\<rparr>) else hs
                            | None \<Rightarrow> hs) in
            (Inr (hs' (p, b)), s\<lparr>observations := obs, holds := hs'\<rparr>)
      | (None, _) \<Rightarrow> (Inl Lane_Required, s)
      | (_, None) \<Rightarrow>
          (Inl (if p = [] \<or> b = [] then Lane_Required else Observation_Time_And_Duration_Required), s))"

text \<open>The claim marks the hold and appends the durable event in one transaction.\<close>

definition claim_escalation :: "string \<Rightarrow> string \<Rightarrow> time \<Rightarrow> hold_store \<Rightarrow> bool \<times> hold_store" where
  "claim_escalation p b now s =
     (case holds s (p, b) of
        Some h \<Rightarrow>
          if cleared_at h = None \<and> escalation_sent_at h = None \<and> expires_at h \<le> now
          then (True, s\<lparr>holds := (holds s)((p, b) \<mapsto> h\<lparr>escalation_sent_at := Some now\<rparr>),
                         escalations := escalations s @ [(p, b, activated_at h)]\<rparr>)
          else (False, s)
      | None \<Rightarrow> (False, s))"

definition main_red_external_reason :: string where
  "main_red_external_reason = ''main_red_external''"

text \<open>
  \<open>Reconcile\<close>.  The optional \<open>Escalate\<close> hook is a parameter: what it answers when it is
  called with the hold, \<open>None\<close> when no hook is set.
\<close>

definition reconcile ::
  "(main_red_hold \<Rightarrow> string option) option \<Rightarrow> time \<Rightarrow> string \<Rightarrow> string \<Rightarrow> hold_store \<Rightarrow>
   (string + string) \<times> hold_store" where
  "reconcile escalate now p b s =
     (case get_hold p b s of
        None \<Rightarrow> (Inr [], s)
      | Some h \<Rightarrow>
          if cleared_at h \<noteq> None then (Inr [], s)
          else if now < expires_at h then (Inr main_red_external_reason, s)
          else
            (case claim_escalation p b now s of
               (False, s') \<Rightarrow> (Inr [], s')
             | (True, s') \<Rightarrow>
                 (case escalate of
                    None \<Rightarrow> (Inr [], s')
                  | Some f \<Rightarrow>
                      (case f (h\<lparr>escalation_sent_at := Some now\<rparr>) of
                         Some e \<Rightarrow> (Inl e, s')
                       | None \<Rightarrow> (Inr [], s')))))"

section \<open>One escalation per hold\<close>

text \<open>
  Two consecutive newest observations are what activates a hold, and an activated hold keeps
  its deadline however many incident pipelines follow.
\<close>

lemma upsert_hold_keeps: "cleared_at h = None \<Longrightarrow> upsert_hold p b at ex (Some h) = h"
  by (simp add: upsert_hold_def Let_def)

lemma reconcile_holds:
  "reconcile esc now p b s = (Inr r, s') \<Longrightarrow>
   (r = main_red_external_reason \<longleftrightarrow> (\<exists>h. get_hold p b s = Some h \<and> hold_active now h))"
  by (auto simp: reconcile_def hold_active_def main_red_external_reason_def
      split: option.splits if_splits prod.splits bool.splits)

text \<open>The hook runs at most once per episode: after a claim the next ones lose.\<close>

lemma claim_once:
  "fst (claim_escalation p b now s) \<Longrightarrow> \<not> fst (claim_escalation p b now' (snd (claim_escalation p b now s)))"
  by (auto simp: claim_escalation_def split: option.splits if_splits)

text \<open>
  While a hold stands uncleared its escalation mark stays; recovery clears the hold, and only
  a hold activated afresh can be escalated again.
\<close>

lemma record_pipeline_mark:
  assumes "record_pipeline project branch pl c at d s = (Inr res, s')"
    and "holds s k = Some h" and "escalation_sent_at h \<noteq> None"
    and "holds s' k = Some h'" and "escalation_sent_at h' = None"
  shows "cleared_at h \<noteq> None"
  using assms
  by (cases k) (auto simp: record_pipeline_def Let_def upsert_hold_def split: option.splits if_splits)

lemma claim_mark:
  "holds s k = Some h \<Longrightarrow> escalation_sent_at h \<noteq> None \<Longrightarrow>
   holds (snd (claim_escalation p b now s)) k = Some h"
  by (auto simp: claim_escalation_def split: option.splits)

text \<open>A lane is held only if its two newest classified pipelines were external incidents.\<close>

lemma record_pipeline_activates:
  assumes "record_pipeline project branch pl c at d s = (Inr res, s')"
    and "holds s' (p, b) = Some h" and "cleared_at h = None"
    and "holds s (p, b) = None \<or> (\<exists>h0. holds s (p, b) = Some h0 \<and> cleared_at h0 \<noteq> None)"
  shows "newest_classes p b (observations s') =
    [external_dependency_incident, external_dependency_incident]"
  using assms
  by (auto simp: record_pipeline_def Let_def upsert_hold_def split: option.splits if_splits)

end
