(* ===== verification/Merge_External.thy ===== *)
theory Merge_External
  imports Merge_Queue Head_Ledger Main_Red_Hold
begin

text \<open>
  Admission to the merge queue: the external enqueuer of \<^verbatim>\<open>pkg/mills/mergequeue/external.go\<close>,
  through which fleet producers submit a candidate, and the merge stage's gateway of
  \<^verbatim>\<open>gateway.go\<close>.  Also here are the processor state both write to and the keys of the
  detail bundle.  GitLab's answers (the permission lookup) and SHA-256 are parameters.
\<close>

section \<open>State\<close>

record external_candidate =
  ec_producer :: string
  ec_key :: string
  ec_project :: string
  ec_source_branch :: string
  ec_target_branch :: string
  ec_observed_sha :: string
  ec_mr_iid :: int

record recovery_pipeline =
  rp_pipeline :: int
  rp_sha :: string
  rp_url :: string
  rp_minter :: "(int \<times> int) option"

text \<open>
  Events of the audit log that the queue appends, and the calls it makes that change
  something on the forge, in order.
\<close>

datatype queue_event =
    Ev_Merged string string
  | Ev_Evicted string string
  | Ev_Requeued string string string string

datatype forge_call =
    Call_Rebase int
  | Call_Create_Pipeline string int
  | Call_Merge int string
  | Call_Prepare int string
  | Call_Cancel int
  | Call_Delete_Ref string

text \<open>
  What the queue's code shares: the table, the head ledger, the hold, the terminal
  provenance rows an external candidate gets in the backlog and run tables, the in-memory
  map of recovery pipelines, and the two logs.
\<close>

record mq_state =
  table :: merge_queue
  head_table :: head_ledger
  hold_table :: hold_store
  provenance :: "(string \<times> external_candidate) list"
  recovery :: "string \<times> string \<times> string \<rightharpoonup> recovery_pipeline"
  event_log :: "queue_event list"
  forge_log :: "forge_call list"

definition empty_state :: mq_state where
  "empty_state =
     \<lparr>table = empty_queue, head_table = empty_ledger, hold_table = empty_holds, provenance = [],
      recovery = (\<lambda>_. None), event_log = [], forge_log = []\<rparr>"

definition on_table :: "merge_queue \<Rightarrow> mq_state \<Rightarrow> mq_state" where
  "on_table q s = s\<lparr>table := q\<rparr>"

definition append_event :: "queue_event \<Rightarrow> mq_state \<Rightarrow> mq_state" where
  "append_event ev s = s\<lparr>event_log := event_log s @ [ev]\<rparr>"

definition call_forge :: "forge_call \<Rightarrow> mq_state \<Rightarrow> mq_state" where
  "call_forge c s = s\<lparr>forge_log := forge_log s @ [c]\<rparr>"

subsection \<open>Detail bundles\<close>

definition key_producer :: string where "key_producer = ''producer''"
definition key_idempotency :: string where "key_idempotency = ''idempotency_key''"
definition key_detail :: string where "key_detail = ''detail''"
definition key_observed_sha :: string where "key_observed_sha = ''observed_sha''"
definition key_proof :: string where "key_proof = ''proof''"

definition detail_string :: "detail \<Rightarrow> string \<Rightarrow> string" where
  "detail_string d k = (case d k of Some (DString v) \<Rightarrow> v | _ \<Rightarrow> [])"

definition detail_int64 :: "detail \<Rightarrow> string \<Rightarrow> int" where
  "detail_int64 d k = (case d k of Some (DInt n) \<Rightarrow> n | _ \<Rightarrow> 0)"

definition detail_bool :: "detail \<Rightarrow> string \<Rightarrow> bool" where
  "detail_bool d k = (case d k of Some (DBool b) \<Rightarrow> b | _ \<Rightarrow> False)"

definition detail_time :: "detail \<Rightarrow> string \<Rightarrow> time \<Rightarrow> time" where
  "detail_time d k fallback = (case d k of Some (DTime t) \<Rightarrow> t | _ \<Rightarrow> fallback)"

definition is_external_candidate :: "merge_queue_entry \<Rightarrow> bool" where
  "is_external_candidate e \<longleftrightarrow> detail_string (detail_of e) key_producer \<noteq> []"

section \<open>The external enqueuer\<close>

text \<open>
  The enqueuer's hooks as their answers at the time of the call: the policy fence (\<open>None\<close>
  when no hook is set), the lane depth bound, the permission lookup (\<open>Inl\<close> its error), and
  the hexadecimal digest of producer and key.
\<close>

record external_config =
  x_enabled :: "bool option"
  x_max_depth :: "int option"
  x_permission :: "(string \<Rightarrow> int \<Rightarrow> string + bool) option"
  x_digest :: "string \<Rightarrow> string"

datatype external_error =
    Blank_Field string
  | MR_Not_Positive
  | Permission_Unavailable
  | Permission_Denied
  | Enqueue_Refused queue_error
  | Key_Reused

datatype outcome = Disabled | Conflicted | Active_Elsewhere | Full | Duplicate | Enqueued

record external_result =
  xr_outcome :: outcome
  xr_position :: int
  xr_entry :: "merge_queue_entry option"

definition external_fields :: "external_candidate \<Rightarrow> (string \<times> string) list" where
  "external_fields c =
     [(''producer'', ec_producer c), (''idempotency_key'', ec_key c), (''project'', ec_project c),
      (''source_branch'', ec_source_branch c), (''target_branch'', ec_target_branch c),
      (''observed_sha'', ec_observed_sha c)]"

definition conflicted_at_head :: "external_candidate \<Rightarrow> merge_queue \<Rightarrow> merge_queue_entry option" where
  "conflicted_at_head c q =
     (case latest_settled_by_mr (ec_project c) (ec_mr_iid c) q of
        Inl _ \<Rightarrow> None
      | Inr prior \<Rightarrow>
          if state prior \<noteq> Evicted \<or> eviction_reason prior \<noteq> ''rebase_conflict'' then None
          else if enqueued_sha prior \<noteq> ec_observed_sha c \<and> current_sha prior \<noteq> ec_observed_sha c
          then None
          else Some prior)"

definition active_for_mr :: "external_candidate \<Rightarrow> merge_queue \<Rightarrow> merge_queue_entry option" where
  "active_for_mr c q = find (\<lambda>r. project r = ec_project c \<and> mr_iid r = ec_mr_iid c) (list_active q)"

definition external_run_id :: "external_config \<Rightarrow> external_candidate \<Rightarrow> string" where
  "external_run_id cfg c = ''external-mq-'' @ x_digest cfg (ec_producer c @ [CHR 0x00] @ ec_key c)"

definition external_entry :: "string \<Rightarrow> external_candidate \<Rightarrow> merge_queue_entry" where
  "external_entry run c =
     \<lparr>entry_id = 0, pipeline_run_id = run, backlog_id = run, project = ec_project c,
      mr_iid = ec_mr_iid c, source_branch = ec_source_branch c, target_branch = ec_target_branch c,
      enqueued_sha = ec_observed_sha c, current_sha = [], state = Queued, eviction_reason = [],
      detail_of = [key_producer \<mapsto> DString (ec_producer c), key_idempotency \<mapsto> DString (ec_key c)],
      attempts = 0, merged_sha = [], enqueued_at = None, updated_at = 0, settled_at = None\<rparr>"

definition same_candidate :: "merge_queue_entry \<Rightarrow> external_candidate \<Rightarrow> bool" where
  "same_candidate e c \<longleftrightarrow>
     project e = ec_project c \<and> mr_iid e = ec_mr_iid c \<and> source_branch e = ec_source_branch c \<and>
     target_branch e = ec_target_branch c \<and> enqueued_sha e = ec_observed_sha c"

text \<open>
  The checks before anything is written: \<open>None\<close> when the candidate is admitted.  The blank
  field reported is the first in the map's iteration order; here, of the list.
\<close>

definition external_gate ::
  "external_config \<Rightarrow> external_candidate \<Rightarrow> merge_queue \<Rightarrow> (external_error + external_result) option" where
  "external_gate cfg c q =
     (case find (\<lambda>(_, v). trim_space v = []) (external_fields c) of
        Some (f, _) \<Rightarrow> Some (Inl (Blank_Field f))
      | None \<Rightarrow>
     if ec_mr_iid c \<le> 0 then Some (Inl MR_Not_Positive)
     else if x_enabled cfg = Some False
     then Some (Inr \<lparr>xr_outcome = Disabled, xr_position = 0, xr_entry = None\<rparr>)
     else
       (case x_permission cfg of
          None \<Rightarrow> Some (Inl Permission_Unavailable)
        | Some check \<Rightarrow>
       (case check (ec_project c) (ec_mr_iid c) of
          Inl _ \<Rightarrow> Some (Inl Permission_Unavailable)
        | Inr allowed \<Rightarrow>
       if \<not> allowed then Some (Inl Permission_Denied)
       else
         (case conflicted_at_head c q of
            Some prior \<Rightarrow> Some (Inr \<lparr>xr_outcome = Conflicted, xr_position = 0, xr_entry = Some prior\<rparr>)
          | None \<Rightarrow>
         if newest_of_run (external_run_id cfg c) q \<noteq> None then None
         else
           map_option (\<lambda>live. Inr \<lparr>xr_outcome = Active_Elsewhere, xr_position = 0, xr_entry = Some live\<rparr>)
             (active_for_mr c q)))))"

text \<open>What is reported for the outcome of the insert.\<close>

definition external_answer ::
  "external_candidate \<Rightarrow> int \<Rightarrow> queue_error + merge_queue_entry \<times> bool \<Rightarrow>
   external_error + external_result" where
  "external_answer c pos res =
     (case res of
        Inl (Queue_Full _ _) \<Rightarrow> Inr \<lparr>xr_outcome = Full, xr_position = 0, xr_entry = None\<rparr>
      | Inl err \<Rightarrow> Inl (Enqueue_Refused err)
      | Inr (entry, created) \<Rightarrow>
          if \<not> created \<and> \<not> same_candidate entry c then Inl Key_Reused
          else Inr \<lparr>xr_outcome = (if created then Enqueued else Duplicate),
                    xr_position = pos, xr_entry = Some entry\<rparr>)"

definition external_enqueue ::
  "external_config \<Rightarrow> time \<Rightarrow> external_candidate \<Rightarrow> mq_state \<Rightarrow>
   (external_error + external_result) \<times> mq_state" where
  "external_enqueue cfg now c s =
     (case external_gate cfg c (table s) of
        Some answer \<Rightarrow> (answer, s)
      | None \<Rightarrow>
          let run = external_run_id cfg c;
              depth = (case x_max_depth cfg of None \<Rightarrow> 0 | Some d \<Rightarrow> d);
              (res, q) = enqueue now (external_entry run c) depth (table s) in
          (external_answer c (queue_position run q) res,
           s\<lparr>provenance := provenance s @ [(run, c)], table := q\<rparr>))"

section \<open>The merge stage's gateway\<close>

record stage_candidate =
  sc_run :: string
  sc_backlog :: string
  sc_project :: string
  sc_mr_iid :: int
  sc_source_branch :: string
  sc_target_branch :: string
  sc_sha :: string

definition gateway_entry :: "stage_candidate \<Rightarrow> merge_queue_entry" where
  "gateway_entry c =
     \<lparr>entry_id = 0, pipeline_run_id = sc_run c, backlog_id = sc_backlog c, project = sc_project c,
      mr_iid = sc_mr_iid c, source_branch = sc_source_branch c, target_branch = sc_target_branch c,
      enqueued_sha = sc_sha c, current_sha = [], state = Queued, eviction_reason = [],
      detail_of = (\<lambda>_. None), attempts = 0, merged_sha = [], enqueued_at = None, updated_at = 0,
      settled_at = None\<rparr>"

definition gateway_enqueue ::
  "time \<Rightarrow> int option \<Rightarrow> stage_candidate \<Rightarrow> mq_state \<Rightarrow> queue_error option \<times> mq_state" where
  "gateway_enqueue now max_depth c s =
     (let depth = (case max_depth of None \<Rightarrow> 0 | Some d \<Rightarrow> d);
          (res, q) = enqueue now (gateway_entry c) depth (table s) in
      ((case res of Inl e \<Rightarrow> Some e | Inr _ \<Rightarrow> None), s\<lparr>table := q\<rparr>))"

record merge_queue_status =
  st_state :: merge_queue_state
  st_terminal :: bool
  st_merged :: bool
  st_merged_sha :: string
  st_eviction_reason :: string
  st_detail :: string
  st_position :: int
  st_project :: string
  st_source_branch :: string
  st_target_branch :: string
  st_authorized_sha :: string
  st_observed_sha :: string

text \<open>\<open>None\<close> is \<open>ErrMergeQueueUnknownRun\<close>, the one error left without database failures.\<close>

definition gateway_status :: "string \<Rightarrow> merge_queue \<Rightarrow> merge_queue_status option" where
  "gateway_status run q =
     (case get_entry run q of
        Inl _ \<Rightarrow> None
      | Inr e \<Rightarrow>
          Some \<lparr>st_state = state e,
                st_terminal = is_terminal (state e),
                st_merged = (state e = Merged),
                st_merged_sha = merged_sha e,
                st_eviction_reason = eviction_reason e,
                st_detail = detail_string (detail_of e) key_detail,
                st_position = (if is_terminal (state e) then 0 else queue_position run q),
                st_project = project e,
                st_source_branch = source_branch e,
                st_target_branch = target_branch e,
                st_authorized_sha = current_sha e,
                st_observed_sha = detail_string (detail_of e) key_observed_sha\<rparr>)"

end
