(* ===== verification/Merge_Processor.thy ===== *)
theory Merge_Processor
  imports Merge_External
begin

text \<open>
  The serial merge queue's processor, \<^verbatim>\<open>pkg/mills/mergequeue/processor.go\<close>.  Every handler
  is a function from the entry it drives and the shared state to an error and the new
  state.  GitLab is the record \<open>forge\<close> of what it answers during the step; calls that
  change something there are also logged in \<open>forge_log\<close>.  The correction of escalated
  run verdicts and the adoption of backlog items after a merge (which write other tables)
  are the parameter \<open>correct_verdicts\<close>, metrics and log lines are dropped.
\<close>

section \<open>The forge and the configuration\<close>

record mr_snapshot =
  sn_sha :: string
  sn_state :: string
  sn_base_sha :: string
  sn_merged_sha :: string

record pipeline_status =
  ps_found :: bool
  ps_id :: int
  ps_sha :: string
  ps_status :: string
  ps_url :: string

record pipeline_proof = pipeline_status +
  pf_tree :: string
  pf_source :: string

datatype rebase_reply = Rebase_Accepted | Rebase_In_Progress | Rebase_Refused string

datatype head_verdict = Verdict_Noop | Verdict_Attributed | Verdict_Ambiguous | Verdict_Failed

definition verdict_state :: "head_verdict \<Rightarrow> head_state" where
  "verdict_state v =
     (case v of
        Verdict_Noop \<Rightarrow> Noop
      | Verdict_Attributed \<Rightarrow> Attributed
      | Verdict_Failed \<Rightarrow> Failed_Move
      | Verdict_Ambiguous \<Rightarrow> Ambiguous)"

record head_observation =
  ob_verdict :: head_verdict
  ob_reason :: string
  ob_successor :: string
  ob_merge_error :: string

datatype merge_reply =
    Merge_Done string
  | Merge_Interrupted
  | Merge_SHA_Mismatch string string
  | Merge_Refused string

record speculative_head =
  sp_ref :: string
  sp_sha :: string
  sp_pipeline :: int
  sp_adopted :: bool

record speculative_forge =
  prepare_speculative_head :: "int \<Rightarrow> string \<Rightarrow> string \<Rightarrow> string + speculative_head"
  cancel_queue_pipeline :: "int \<Rightarrow> string option"
  delete_queue_ref :: "string \<Rightarrow> string option"

record forge =
  mr_snapshot_of :: "int \<Rightarrow> string + mr_snapshot"
  branch_tip :: "string \<Rightarrow> string + string"
  request_rebase :: "int \<Rightarrow> rebase_reply"
  read_head_cursors :: "int \<Rightarrow> string + int \<times> int"
  observe_head :: "int \<Rightarrow> string \<Rightarrow> int \<Rightarrow> int \<Rightarrow> string + head_observation"
  branch_pipeline_status :: "string \<Rightarrow> string \<Rightarrow> string + pipeline_status"
  mr_pipeline_status :: "int \<Rightarrow> string \<Rightarrow> string + pipeline_status"
  find_active_pipeline :: "string \<Rightarrow> string \<Rightarrow> string + pipeline_status"
  pipeline_proof_of :: "string \<Rightarrow> string + pipeline_proof"
  create_queue_pipeline :: "string \<Rightarrow> int \<Rightarrow> string + pipeline_status"
  merge_request :: "int \<Rightarrow> string \<Rightarrow> merge_reply"
  speculative :: "speculative_forge option"

text \<open>The processor's fields and hooks, as their values during the step.\<close>

record processor_config =
  pc_now :: time
  pc_for_project :: "string \<Rightarrow> forge option"
  pc_enabled :: bool
  pc_await_pipeline :: duration
  pc_await_pipeline_fn :: "duration option"
  pc_speculation_depth :: int
  pc_has_ledger :: bool
  pc_external :: "external_config option"
  pc_requeue_evictions :: bool
  pc_escalate :: "(main_red_hold \<Rightarrow> string option) option"
  correct_verdicts :: "merge_queue_entry \<Rightarrow> string \<Rightarrow> string option"
  show_duration :: "duration \<Rightarrow> string"

datatype drive_error =
    Forge_Failed string string
  | No_Forge string
  | Proof_Missing int
  | Queue_Failed queue_error
  | Ledger_Failed
  | Hold_Failed string
  | Verdicts_Failed string
  | Interrupted

definition default_await_pipeline :: duration where "default_await_pipeline = 45 * minute"
definition pipeline_appear_grace :: duration where "pipeline_appear_grace = 5 * minute"
definition max_head_drive_attempts :: int where "max_head_drive_attempts = 3"

section \<open>Keys and texts\<close>

definition key_ledger_seq :: string where "key_ledger_seq = ''ledger_seq''"
definition key_versions_cursor :: string where "key_versions_cursor = ''versions_cursor''"
definition key_events_cursor :: string where "key_events_cursor = ''events_cursor''"
definition key_wait_since :: string where "key_wait_since = ''pipeline_wait_since''"
definition key_created :: string where "key_created = ''pipeline_create_attempted''"
definition key_url :: string where "key_url = ''pipeline_url''"
definition key_pipeline_id :: string where "key_pipeline_id = ''pipeline_id''"
definition key_lane :: string where "key_lane = ''pipeline_lane''"
definition key_proof_source :: string where "key_proof_source = ''proof_source''"
definition key_spec_ref :: string where "key_spec_ref = ''speculative_ref''"
definition key_spec_sha :: string where "key_spec_sha = ''speculative_sha''"
definition key_spec_pipeline :: string where "key_spec_pipeline = ''speculative_pipeline_id''"
definition key_spec_predecessor :: string where "key_spec_predecessor = ''speculative_predecessor_id''"
definition key_spec_failed_onto :: string where "key_spec_failed_onto = ''speculative_failed_onto''"
definition key_defer_reason :: string where "key_defer_reason = ''defer_reason''"
definition key_status :: string where "key_status = ''pipeline_status''"
definition key_merge_error :: string where "key_merge_error = ''merge_error''"

text \<open>The bundle keys a drive writes besides the producer and the proof.\<close>

lemmas key_defs = key_ledger_seq_def key_versions_cursor_def key_events_cursor_def key_wait_since_def
  key_created_def key_url_def key_pipeline_id_def key_lane_def key_proof_source_def key_spec_ref_def
  key_spec_sha_def key_spec_pipeline_def key_spec_predecessor_def key_spec_failed_onto_def
  key_defer_reason_def key_proof_def key_producer_def

definition short_sha :: "string \<Rightarrow> string" where
  "short_sha sha = (if length sha > 8 then take 8 sha else sha)"

definition dec_int :: "int \<Rightarrow> string" where
  "dec_int n = (if n < 0 then CHR ''-'' # dec (nat (- n)) else dec (nat n))"

definition text_closed :: string where
  "text_closed = ''merge request was closed while queued''"

definition text_moved_queued :: "string \<Rightarrow> string \<Rightarrow> string" where
  "text_moved_queued authorized observed =
     ''head moved externally while queued: authorized '' @ short_sha authorized @ '', observed '' @
     short_sha observed"

definition text_still_behind :: "string \<Rightarrow> int \<Rightarrow> string" where
  "text_still_behind branch n =
     ''head still behind '' @ branch @ '' after '' @ dec_int n @ '' rebase attempts''"

definition text_refused :: "string \<Rightarrow> string" where
  "text_refused err = ''rebase request refused: '' @ err"

definition text_rebase_failed :: "string \<Rightarrow> string" where
  "text_rebase_failed reason = ''rebase failed: '' @ reason"

definition text_ambiguous :: "string \<Rightarrow> string" where
  "text_ambiguous reason = ''head movement ambiguous: '' @ reason"

definition text_proof_red :: "int \<Rightarrow> string \<Rightarrow> string \<Rightarrow> string" where
  "text_proof_red i tree status =
     ''pipeline '' @ dec_int i @ '' proving tree '' @ short_sha tree @ '': '' @ status"

definition text_pipeline_red :: "int \<Rightarrow> string \<Rightarrow> string \<Rightarrow> string" where
  "text_pipeline_red i sha status =
     ''pipeline '' @ dec_int i @ '' on rebased head '' @ short_sha sha @ '': '' @ status"

definition text_still_running :: "string \<Rightarrow> int \<Rightarrow> string \<Rightarrow> string \<Rightarrow> string" where
  "text_still_running what i status bound =
     what @ dec_int i @ '' still '' @ status @ '' after '' @ bound"

definition text_no_pipeline :: "string \<Rightarrow> string \<Rightarrow> string" where
  "text_no_pipeline sha bound =
     ''no terminal pipeline for rebased head '' @ short_sha sha @ '' within '' @ bound"

definition text_recovery_moved :: "string \<Rightarrow> string \<Rightarrow> string" where
  "text_recovery_moved built current =
     ''recovery pipeline built '' @ short_sha built @ '', queue head is '' @ short_sha current"

definition text_moved_merge :: "string \<Rightarrow> string \<Rightarrow> string" where
  "text_moved_merge authorized observed =
     ''head moved before merge: authorized '' @ short_sha authorized @ '', observed '' @
     short_sha observed"

text \<open>A time as the bundle keeps it: its RFC 3339 text, to the second.\<close>

definition stamp :: "time \<Rightarrow> detail_value" where
  "stamp t = DTime (t div second * second)"

definition pipeline_progressing :: "string \<Rightarrow> bool" where
  "pipeline_progressing status \<longleftrightarrow>
     status \<notin> {''success'', ''failed'', ''canceled'', ''skipped'', ''manual''}"

definition await_pipeline_max :: "processor_config \<Rightarrow> duration" where
  "await_pipeline_max cfg =
     (case pc_await_pipeline_fn cfg of
        Some d \<Rightarrow> if 0 < d then d
                  else if 0 < pc_await_pipeline cfg then pc_await_pipeline cfg
                  else default_await_pipeline
      | None \<Rightarrow> if 0 < pc_await_pipeline cfg then pc_await_pipeline cfg else default_await_pipeline)"

section \<open>Shared steps\<close>

text \<open>The error of a write whose conflict is swallowed (\<open>ignoreConflict\<close>).\<close>

definition ignore_conflict :: "cas_result \<Rightarrow> drive_error option" where
  "ignore_conflict res =
     (case snd res of None \<Rightarrow> None | Some Conflict \<Rightarrow> None | Some e \<Rightarrow> Some (Queue_Failed e))"

definition advance ::
  "processor_config \<Rightarrow> transition_request \<Rightarrow> mq_state \<Rightarrow> drive_error option \<times> mq_state" where
  "advance cfg t s =
     (let (res, q) = transition (pc_now cfg) t (table s) in
      (ignore_conflict res, on_table q s))"

text \<open>A detail refresh: the same state again, its error ignored.\<close>

definition refresh :: "processor_config \<Rightarrow> merge_queue_entry \<Rightarrow> detail \<Rightarrow> mq_state \<Rightarrow> mq_state" where
  "refresh cfg e d s =
     on_table (snd (transition (pc_now cfg)
       \<lparr>tr_id = entry_id e, tr_from = state e, tr_to = state e, tr_current_sha = [],
        tr_detail = Some d, tr_bump = False\<rparr> (table s))) s"

definition cleanup_entry ::
  "processor_config \<Rightarrow> int \<Rightarrow> bool \<Rightarrow> merge_queue_entry \<Rightarrow> mq_state \<Rightarrow> mq_state" where
  "cleanup_entry cfg predecessor cancel e s =
     (if detail_int64 (detail_of e) key_spec_predecessor \<noteq> predecessor then s
      else
        (case Option.bind (pc_for_project cfg (project e)) speculative of
           None \<Rightarrow> s
         | Some f \<Rightarrow>
             let i = detail_int64 (detail_of e) key_spec_pipeline;
                 s1 = (if cancel then call_forge (Call_Cancel i) s else s) in
             if cancel \<and> cancel_queue_pipeline f i \<noteq> None then s1
             else
               let ref = detail_string (detail_of e) key_spec_ref;
                   s2 = (if ref \<noteq> [] then call_forge (Call_Delete_Ref ref) s1 else s1) in
               if ref \<noteq> [] \<and> delete_queue_ref f ref \<noteq> None then s2
               else
                 let d = (detail_of e)(key_spec_ref := None, key_spec_predecessor := None);
                     d' = (if cancel then d(key_spec_sha := None, key_spec_pipeline := None) else d) in
                 refresh cfg e d' s2))"

definition cleanup_speculation ::
  "processor_config \<Rightarrow> merge_queue_entry \<Rightarrow> bool \<Rightarrow> mq_state \<Rightarrow> mq_state" where
  "cleanup_speculation cfg predecessor cancel s =
     fold (cleanup_entry cfg (entry_id predecessor) cancel) (list_active (table s)) s"

definition eviction_requeue_producer :: string where
  "eviction_requeue_producer = ''mergequeue_evictor''"

definition requeue_candidate :: "merge_queue_entry \<Rightarrow> string \<Rightarrow> external_candidate" where
  "requeue_candidate e sha =
     \<lparr>ec_producer = eviction_requeue_producer,
      ec_key = project e @ '':'' @ dec_int (mr_iid e) @ '':'' @ sha,
      ec_project = project e, ec_source_branch = source_branch e,
      ec_target_branch = target_branch e, ec_observed_sha = sha, ec_mr_iid = mr_iid e\<rparr>"

definition outcome_text :: "outcome \<Rightarrow> string" where
  "outcome_text oc =
     (case oc of
        Disabled \<Rightarrow> ''disabled'' | Conflicted \<Rightarrow> ''conflicted'' | Active_Elsewhere \<Rightarrow> ''active''
      | Full \<Rightarrow> ''full'' | Duplicate \<Rightarrow> ''duplicate'' | Enqueued \<Rightarrow> ''enqueued'')"

definition requeue_sha :: "merge_queue_entry \<Rightarrow> string \<Rightarrow> detail \<Rightarrow> string" where
  "requeue_sha e reason extra =
     (if reason = ''head_moved'' then
        (let observed = detail_string extra key_observed_sha in
         if observed \<noteq> [] then observed else current_sha e)
      else if reason = ''ci_timeout'' then current_sha e
      else [])"

definition maybe_requeue_eviction ::
  "processor_config \<Rightarrow> merge_queue_entry \<Rightarrow> string \<Rightarrow> detail \<Rightarrow> mq_state \<Rightarrow> mq_state" where
  "maybe_requeue_eviction cfg e reason extra s =
     (case pc_external cfg of
        None \<Rightarrow> s
      | Some x \<Rightarrow>
          if \<not> pc_requeue_evictions cfg then s
          else if detail_string (detail_of e) key_producer = eviction_requeue_producer then s
          else
            let sha = requeue_sha e reason extra in
            if sha = [] then s
            else
              (case external_enqueue x (pc_now cfg) (requeue_candidate e sha) s of
                 (Inl _, s') \<Rightarrow> s'
               | (Inr r, s') \<Rightarrow>
                   append_event (Ev_Requeued (pipeline_run_id e) reason sha (outcome_text (xr_outcome r))) s'))"

definition evict ::
  "processor_config \<Rightarrow> merge_queue_entry \<Rightarrow> string \<Rightarrow> string \<Rightarrow> detail \<Rightarrow> mq_state \<Rightarrow>
   drive_error option \<times> mq_state" where
  "evict cfg e reason text extra s =
     (let d = [key_detail \<mapsto> DString text] ++ extra;
          (res, q) = mark_evicted (pc_now cfg) (entry_id e) reason (Some d) (table s);
          s1 = on_table q s in
      if ignore_conflict res \<noteq> None then (ignore_conflict res, s1)
      else
        let s2 = cleanup_speculation cfg e True s1;
            s3 = append_event (Ev_Evicted (pipeline_run_id e) reason) s2 in
        (None, maybe_requeue_eviction cfg e reason extra s3))"

definition settle_merged ::
  "processor_config \<Rightarrow> merge_queue_entry \<Rightarrow> merge_queue_state \<Rightarrow> string \<Rightarrow> mq_state \<Rightarrow>
   drive_error option \<times> mq_state" where
  "settle_merged cfg e st sha s =
     (let (res, q) = mark_merged (pc_now cfg) (entry_id e) st sha (table s);
          s1 = on_table q s in
      if ignore_conflict res \<noteq> None then (ignore_conflict res, s1)
      else
        let s2 = cleanup_speculation cfg e False s1;
            s3 = append_event (Ev_Merged (pipeline_run_id e) sha) s2 in
        (map_option Verdicts_Failed (correct_verdicts cfg e sha), s3))"

subsection \<open>The head ledger\<close>

definition ledger_request :: "merge_queue_entry \<Rightarrow> string \<Rightarrow> head_transition" where
  "ledger_request e tip =
     \<lparr>ht_id = 0, ht_run = pipeline_run_id e, ht_seq = 0, ht_project = project e,
      ht_mr_iid = mr_iid e, ht_source_branch = source_branch e, ht_target_branch = target_branch e,
      ht_reviewed_sha = current_sha e, ht_target_head_sha = tip, ht_successor_sha = [],
      ht_trigger = Rebase_Request, ht_state = Requested, ht_provenance = ''mergequeue'',
      ht_requested_at = None, ht_observed_at = None, ht_settled_at = None\<rparr>"

definition open_ledger_row ::
  "processor_config \<Rightarrow> merge_queue_entry \<Rightarrow> string \<Rightarrow> mq_state \<Rightarrow> int option \<times> mq_state" where
  "open_ledger_row cfg e tip s =
     (if \<not> pc_has_ledger cfg then (Some 0, s)
      else
        (case open_transition (pc_now cfg) (ledger_request e tip) (head_table s) of
           (Inr row, l) \<Rightarrow> (Some (ht_seq row), s\<lparr>head_table := l\<rparr>)
         | (Inl Transition_Open, l) \<Rightarrow>
             (map_option ht_seq (unsettled_transition (pipeline_run_id e) l), s\<lparr>head_table := l\<rparr>)
         | (Inl _, l) \<Rightarrow> (None, s\<lparr>head_table := l\<rparr>)))"

definition settle_ledger_row ::
  "processor_config \<Rightarrow> merge_queue_entry \<Rightarrow> int \<Rightarrow> head_state \<Rightarrow> string \<Rightarrow> string \<Rightarrow> mq_state \<Rightarrow> mq_state" where
  "settle_ledger_row cfg e seq st successor evidence s =
     (if \<not> pc_has_ledger cfg \<or> seq \<le> 0 then s
      else
        s\<lparr>head_table := snd (settle_transition (pc_now cfg)
            \<lparr>sr_run = pipeline_run_id e, sr_seq = seq, sr_state = st, sr_successor = successor,
             sr_provenance = evidence, sr_observed_at = None, sr_settled_at = None\<rparr>
            (head_table s))\<rparr>)"

section \<open>Driving a head\<close>

definition no_extra :: detail where
  "no_extra = (\<lambda>_. None)"

definition plain_transition :: "merge_queue_entry \<Rightarrow> merge_queue_state \<Rightarrow> merge_queue_state \<Rightarrow> transition_request" where
  "plain_transition e st st' =
     \<lparr>tr_id = entry_id e, tr_from = st, tr_to = st', tr_current_sha = [], tr_detail = None, tr_bump = False\<rparr>"

definition drive_rebase ::
  "processor_config \<Rightarrow> forge \<Rightarrow> merge_queue_entry \<Rightarrow> string \<Rightarrow> mq_state \<Rightarrow> drive_error option \<times> mq_state" where
  "drive_rebase cfg f e tip s =
     (case read_head_cursors f (mr_iid e) of
        Inl err \<Rightarrow> (Some (Forge_Failed ''read cursors'' err), s)
      | Inr (versions, events) \<Rightarrow>
          (case open_ledger_row cfg e tip s of
             (None, s1) \<Rightarrow> (Some Ledger_Failed, s1)
           | (Some seq, s1) \<Rightarrow>
               let s2 = call_forge (Call_Rebase (entry_id e)) s1 in
               (case request_rebase f (mr_iid e) of
                  Rebase_Refused err \<Rightarrow>
                    evict cfg e ''rebase_conflict'' (text_refused err) no_extra
                      (settle_ledger_row cfg e seq Failed_Move [] err s2)
                | _ \<Rightarrow>
                    advance cfg
                      ((plain_transition e Queued Rebasing)
                         \<lparr>tr_detail := Some ((detail_of e)(key_ledger_seq \<mapsto> DInt seq,
                            key_versions_cursor \<mapsto> DInt versions, key_events_cursor \<mapsto> DInt events)),
                          tr_bump := True\<rparr>) s2)))"

definition drive_queued ::
  "processor_config \<Rightarrow> forge \<Rightarrow> merge_queue_entry \<Rightarrow> mq_state \<Rightarrow> drive_error option \<times> mq_state" where
  "drive_queued cfg f e s =
     (case mr_snapshot_of f (mr_iid e) of
        Inl err \<Rightarrow> (Some (Forge_Failed ''mr snapshot'' err), s)
      | Inr snap \<Rightarrow>
          if sn_state snap = ''merged'' then settle_merged cfg e Queued (sn_merged_sha snap) s
          else if sn_state snap = ''closed'' then evict cfg e ''mr_closed'' text_closed no_extra s
          else if sn_sha snap \<noteq> current_sha e
          then evict cfg e ''head_moved'' (text_moved_queued (current_sha e) (sn_sha snap))
                 [key_observed_sha \<mapsto> DString (sn_sha snap)] s
          else
            (case branch_tip f (target_branch e) of
               Inl err \<Rightarrow> (Some (Forge_Failed ''target tip'' err), s)
             | Inr tip \<Rightarrow>
                 if sn_base_sha snap = tip then
                   (if is_external_candidate e
                    then advance cfg ((plain_transition e Queued AwaitingPipeline)
                           \<lparr>tr_detail := Some ((detail_of e)(key_wait_since \<mapsto> stamp (pc_now cfg)))\<rparr>) s
                    else advance cfg (plain_transition e Queued Merging) s)
                 else if max_head_drive_attempts \<le> attempts e
                 then evict cfg e ''rebase_ambiguous'' (text_still_behind (target_branch e) (attempts e))
                        no_extra s
                 else drive_rebase cfg f e tip s))"

definition drive_rebasing ::
  "processor_config \<Rightarrow> forge \<Rightarrow> merge_queue_entry \<Rightarrow> mq_state \<Rightarrow> drive_error option \<times> mq_state" where
  "drive_rebasing cfg f e s =
     (case observe_head f (mr_iid e) (current_sha e) (detail_int64 (detail_of e) key_versions_cursor)
             (detail_int64 (detail_of e) key_events_cursor) of
        Inl err \<Rightarrow> (Some (Forge_Failed ''observe head'' err), s)
      | Inr obs \<Rightarrow>
          let s1 = settle_ledger_row cfg e (detail_int64 (detail_of e) key_ledger_seq)
                     (verdict_state (ob_verdict obs)) (ob_successor obs) (ob_reason obs) s in
          (case ob_verdict obs of
             Verdict_Attributed \<Rightarrow>
               advance cfg ((plain_transition e Rebasing AwaitingPipeline)
                 \<lparr>tr_current_sha := ob_successor obs,
                  tr_detail := Some ((detail_of e)(key_wait_since \<mapsto> stamp (pc_now cfg),
                                                   key_created := None))\<rparr>) s1
           | Verdict_Noop \<Rightarrow> advance cfg (plain_transition e Rebasing Queued) s1
           | Verdict_Failed \<Rightarrow>
               evict cfg e ''rebase_conflict'' (text_rebase_failed (ob_reason obs))
                 [key_merge_error \<mapsto> DString (ob_merge_error obs)] s1
           | Verdict_Ambiguous \<Rightarrow>
               evict cfg e ''rebase_ambiguous'' (text_ambiguous (ob_reason obs)) no_extra s1))"

definition promote_with_proof ::
  "processor_config \<Rightarrow> merge_queue_entry \<Rightarrow> pipeline_proof \<Rightarrow> mq_state \<Rightarrow> drive_error option \<times> mq_state" where
  "promote_with_proof cfg e pf s =
     advance cfg ((plain_transition e AwaitingPipeline Merging)
       \<lparr>tr_detail := Some ((detail_of e)(key_url \<mapsto> DString (ps_url pf),
          key_proof_source \<mapsto> DString (pf_source pf),
          key_proof \<mapsto> DMap [(''pipeline_id'', DInt (ps_id pf)), (''sha'', DString (ps_sha pf)),
                             (''tree'', DString (pf_tree pf))]))\<rparr>) s"

definition minter_of :: "merge_queue_entry \<Rightarrow> int \<times> int" where
  "minter_of e = (entry_id e, mr_iid e)"

definition recovery_of :: "pipeline_status \<Rightarrow> (int \<times> int) option \<Rightarrow> recovery_pipeline" where
  "recovery_of ps m = \<lparr>rp_pipeline = ps_id ps, rp_sha = ps_sha ps, rp_url = ps_url ps, rp_minter = m\<rparr>"

definition adopt_or_create ::
  "forge \<Rightarrow> merge_queue_entry \<Rightarrow> mq_state \<Rightarrow>
   (drive_error + recovery_pipeline \<times> bool) \<times> mq_state" where
  "adopt_or_create f e s =
     (let key = (project e, source_branch e, current_sha e) in
      case recovery s key of
        Some cached \<Rightarrow> (Inr (cached, rp_minter cached \<noteq> Some (minter_of e)), s)
      | None \<Rightarrow>
          (case find_active_pipeline f (source_branch e) (current_sha e) of
             Inl err \<Rightarrow> (Inl (Forge_Failed ''find active recovery pipeline'' err), s)
           | Inr ps \<Rightarrow>
               if ps_found ps
               then (Inr (recovery_of ps None, True), s\<lparr>recovery := (recovery s)(key \<mapsto> recovery_of ps None)\<rparr>)
               else
                 let s1 = call_forge (Call_Create_Pipeline (source_branch e) (mr_iid e)) s in
                 (case create_queue_pipeline f (source_branch e) (mr_iid e) of
                    Inl err \<Rightarrow> (Inl (Forge_Failed ''create recovery pipeline'' err), s1)
                  | Inr ps' \<Rightarrow>
                      let rp = recovery_of ps' (Some (minter_of e)) in
                      (Inr (rp, False), s1\<lparr>recovery := (recovery s1)(key \<mapsto> rp)\<rparr>))))"

text \<open>The end of the wait: out of time, or (once) a recovery pipeline.\<close>

definition recover_or_wait ::
  "processor_config \<Rightarrow> forge \<Rightarrow> merge_queue_entry \<Rightarrow> mq_state \<Rightarrow> drive_error option \<times> mq_state" where
  "recover_or_wait cfg f e s =
     (let waited = pc_now cfg - detail_time (detail_of e) key_wait_since (pc_now cfg) in
      if waited > await_pipeline_max cfg
      then evict cfg e ''ci_timeout''
             (text_no_pipeline (current_sha e) (show_duration cfg (await_pipeline_max cfg))) no_extra s
      else if \<not> detail_bool (detail_of e) key_created \<and> waited > pipeline_appear_grace then
        (case adopt_or_create f e s of
           (Inl err, s1) \<Rightarrow> (Some err, s1)
         | (Inr (rp, adopted), s1) \<Rightarrow>
             if rp_sha rp \<noteq> [] \<and> rp_sha rp \<noteq> current_sha e
             then evict cfg e ''head_moved'' (text_recovery_moved (rp_sha rp) (current_sha e))
                    [key_observed_sha \<mapsto> DString (rp_sha rp)] s1
             else
               advance cfg ((plain_transition e AwaitingPipeline AwaitingPipeline)
                 \<lparr>tr_detail := Some ((detail_of e)(key_created \<mapsto> DBool True,
                    key_pipeline_id \<mapsto> DInt (rp_pipeline rp), key_url \<mapsto> DString (rp_url rp),
                    key_lane \<mapsto> DString (if adopted then ''adopted'' else ''queue'')))\<rparr>) s1)
      else (None, s))"

text \<open>A live pipeline holds the wait open inside the bound.\<close>

definition wait_for ::
  "processor_config \<Rightarrow> merge_queue_entry \<Rightarrow> string \<Rightarrow> pipeline_status \<Rightarrow> mq_state \<Rightarrow>
   drive_error option \<times> mq_state" where
  "wait_for cfg e what ps s =
     (let waited = pc_now cfg - detail_time (detail_of e) key_wait_since (pc_now cfg) in
      if waited > await_pipeline_max cfg
      then evict cfg e ''ci_timeout''
             (text_still_running what (ps_id ps) (ps_status ps) (show_duration cfg (await_pipeline_max cfg)))
             [key_url \<mapsto> DString (ps_url ps)] s
      else (None, s))"

text \<open>Branch and merge request pipelines, when no proof decides.\<close>

definition await_pipelines ::
  "processor_config \<Rightarrow> forge \<Rightarrow> merge_queue_entry \<Rightarrow> pipeline_status \<Rightarrow> pipeline_status \<Rightarrow> mq_state \<Rightarrow>
   drive_error option \<times> mq_state" where
  "await_pipelines cfg f e ps mrps s =
     (if ps_found ps \<and> (ps_status ps = ''failed'' \<or> ps_status ps = ''canceled'')
      then evict cfg e ''ci_red'' (text_pipeline_red (ps_id ps) (current_sha e) (ps_status ps))
             [key_url \<mapsto> DString (ps_url ps), key_status \<mapsto> DString (ps_status ps)] s
      else if ps_found ps \<and> ps_status ps \<noteq> ''skipped'' \<and> ps_status ps \<noteq> ''manual''
      then wait_for cfg e ''pipeline '' ps s
      else if ps_found mrps \<and> pipeline_progressing (ps_status mrps)
      then wait_for cfg e ''merge request pipeline '' mrps s
      else recover_or_wait cfg f e s)"

definition no_pipeline :: pipeline_status where
  "no_pipeline = \<lparr>ps_found = False, ps_id = 0, ps_sha = [], ps_status = [], ps_url = []\<rparr>"

definition drive_awaiting_pipeline ::
  "processor_config \<Rightarrow> forge \<Rightarrow> merge_queue_entry \<Rightarrow> mq_state \<Rightarrow> drive_error option \<times> mq_state" where
  "drive_awaiting_pipeline cfg f e s =
     (case branch_pipeline_status f (current_sha e) (source_branch e) of
        Inl err \<Rightarrow> (Some (Forge_Failed ''pipeline status'' err), s)
      | Inr ps \<Rightarrow>
     (case (if is_external_candidate e then mr_pipeline_status f (mr_iid e) (current_sha e)
            else Inr no_pipeline) of
        Inl err \<Rightarrow> (Some (Forge_Failed ''mr pipeline status'' err), s)
      | Inr mrps \<Rightarrow>
     if ps_found ps \<and> ps_status ps = ''success'' then
       (case pipeline_proof_of f (current_sha e) of
          Inl err \<Rightarrow> (Some (Forge_Failed ''exact pipeline proof'' err), s)
        | Inr pf \<Rightarrow>
            if \<not> ps_found pf \<or> ps_sha pf \<noteq> current_sha e then (Some (Proof_Missing (ps_id ps)), s)
            else promote_with_proof cfg e pf s)
     else if ps_found mrps \<and> ps_status mrps = ''success'' then
       (case pipeline_proof_of f (current_sha e) of
          Inl err \<Rightarrow> (Some (Forge_Failed ''exact mr pipeline proof'' err), s)
        | Inr pf \<Rightarrow>
            if \<not> ps_found pf \<or> ps_sha pf \<noteq> current_sha e \<or> ps_status pf \<noteq> ''success''
            then (Some (Proof_Missing (ps_id mrps)), s)
            else promote_with_proof cfg e pf s)
     else
       (case pipeline_proof_of f (current_sha e) of
          Inl err \<Rightarrow> (Some (Forge_Failed ''pipeline proof'' err), s)
        | Inr pf \<Rightarrow>
            if ps_found pf \<and> ps_status pf = ''success'' then promote_with_proof cfg e pf s
            else if ps_found pf \<and> (ps_status pf = ''failed'' \<or> ps_status pf = ''canceled'')
            then evict cfg e ''ci_red'' (text_proof_red (ps_id pf) (pf_tree pf) (ps_status pf))
                   [key_url \<mapsto> DString (ps_url pf), key_status \<mapsto> DString (ps_status pf),
                    key_proof_source \<mapsto> DString (pf_source pf)] s
            else if ps_found pf \<and> pipeline_progressing (ps_status pf) then (None, s)
            else await_pipelines cfg f e ps mrps s)))"

definition drive_merging ::
  "processor_config \<Rightarrow> forge \<Rightarrow> merge_queue_entry \<Rightarrow> mq_state \<Rightarrow> drive_error option \<times> mq_state" where
  "drive_merging cfg f e s =
     (let s1 = call_forge (Call_Merge (entry_id e) (current_sha e)) s in
      case merge_request f (mr_iid e) (current_sha e) of
        Merge_Done sha \<Rightarrow> settle_merged cfg e Merging sha s1
      | Merge_Interrupted \<Rightarrow> (Some Interrupted, s1)
      | Merge_SHA_Mismatch reviewed observed \<Rightarrow>
          evict cfg e ''head_moved'' (text_moved_merge reviewed observed)
            [key_observed_sha \<mapsto> DString observed] s1
      | Merge_Refused err \<Rightarrow> evict cfg e ''merge_failed'' err no_extra s1)"

text \<open>The hold, enforced before anything else; it rewrites the entry's own bundle.\<close>

definition defer_main_red ::
  "processor_config \<Rightarrow> merge_queue_entry \<Rightarrow> mq_state \<Rightarrow>
   (drive_error option \<times> bool \<times> merge_queue_entry) \<times> mq_state" where
  "defer_main_red cfg e s =
     (case reconcile (pc_escalate cfg) (pc_now cfg) (project e) (target_branch e) (hold_table s) of
        (Inl err, h) \<Rightarrow> ((Some (Hold_Failed err), False, e), s\<lparr>hold_table := h\<rparr>)
      | (Inr reason, h) \<Rightarrow>
          let s1 = s\<lparr>hold_table := h\<rparr> in
          if detail_string (detail_of e) key_defer_reason = reason then ((None, reason \<noteq> [], e), s1)
          else
            let d = (detail_of e)(key_defer_reason := (if reason = [] then None else Some (DString reason)));
                (res, q) = transition (pc_now cfg)
                  ((plain_transition e (state e) (state e))\<lparr>tr_detail := Some d\<rparr>) (table s1) in
            ((map_option Queue_Failed (snd res), reason \<noteq> [], e\<lparr>detail_of := d\<rparr>), on_table q s1))"

definition drive_state ::
  "processor_config \<Rightarrow> merge_queue_entry \<Rightarrow> mq_state \<Rightarrow> drive_error option \<times> mq_state" where
  "drive_state cfg e s =
     (case pc_for_project cfg (project e) of
        None \<Rightarrow> (Some (No_Forge (project e)), s)
      | Some f \<Rightarrow>
          (case state e of
             Queued \<Rightarrow> drive_queued cfg f e s
           | Rebasing \<Rightarrow> drive_rebasing cfg f e s
           | AwaitingPipeline \<Rightarrow> drive_awaiting_pipeline cfg f e s
           | Merging \<Rightarrow> drive_merging cfg f e s
           | _ \<Rightarrow> (None, s)))"

definition drive_head ::
  "processor_config \<Rightarrow> merge_queue_entry \<Rightarrow> mq_state \<Rightarrow> drive_error option \<times> mq_state" where
  "drive_head cfg e s =
     (case defer_main_red cfg e s of
        ((Some err, _, _), s1) \<Rightarrow> (Some err, s1)
      | ((None, held, e'), s1) \<Rightarrow> if held then (None, s1) else drive_state cfg e' s1)"

section \<open>Speculation and the tick\<close>

definition spec_ref :: "merge_queue_entry \<Rightarrow> string \<Rightarrow> string" where
  "spec_ref e onto = ''mills-mq/spec-'' @ dec_int (mr_iid e) @ ''-'' @ short_sha onto"

text \<open>
  One entry behind a head awaiting its pipeline: the base for the next one, \<open>None\<close> when the
  loop breaks off.
\<close>

definition stack_entry ::
  "processor_config \<Rightarrow> merge_queue_entry \<Rightarrow> merge_queue_entry \<Rightarrow> string \<Rightarrow> mq_state \<Rightarrow>
   string option \<times> mq_state" where
  "stack_entry cfg e0 e onto s =
     (if detail_string (detail_of e) key_spec_sha \<noteq> []
      then (Some (detail_string (detail_of e) key_spec_sha), s)
      else if detail_string (detail_of e) key_spec_failed_onto = onto then (None, s)
      else
        (case Option.bind (pc_for_project cfg (project e)) speculative of
           None \<Rightarrow> (None, s)
         | Some f \<Rightarrow>
             let s1 = call_forge (Call_Prepare (entry_id e) (spec_ref e onto)) s in
             (case prepare_speculative_head f (mr_iid e) onto (spec_ref e onto) of
                Inl _ \<Rightarrow> (None, refresh cfg e ((detail_of e)(key_spec_failed_onto \<mapsto> DString onto)) s1)
              | Inr sp \<Rightarrow>
                  let d = (detail_of e)(key_spec_ref \<mapsto> DString (sp_ref sp), key_spec_sha \<mapsto> DString (sp_sha sp),
                            key_spec_pipeline \<mapsto> DInt (sp_pipeline sp),
                            key_spec_predecessor \<mapsto> DInt (entry_id e0),
                            key_lane \<mapsto> DString (if sp_adopted sp then ''adopted'' else ''queue''));
                      (res, q) = transition (pc_now cfg)
                        ((plain_transition e (state e) (state e))\<lparr>tr_detail := Some d\<rparr>) (table s1);
                      s2 = on_table q s1 in
                  if snd res \<noteq> None
                  then (None,
                    call_forge (Call_Delete_Ref (sp_ref sp)) (call_forge (Call_Cancel (sp_pipeline sp)) s2))
                  else (Some (sp_sha sp), s2))))"

fun stack_entries ::
  "processor_config \<Rightarrow> merge_queue_entry \<Rightarrow> merge_queue_entry list \<Rightarrow> string \<Rightarrow> int list \<Rightarrow> int \<Rightarrow>
   mq_state \<Rightarrow> mq_state" where
  "stack_entries cfg e0 [] onto chain prepared s = s"
| "stack_entries cfg e0 (e # es) onto chain prepared s =
     (if prepared \<ge> pc_speculation_depth cfg then s
      else if project e \<noteq> project e0 \<or> target_branch e \<noteq> target_branch e0 \<or> mr_iid e \<in> set chain
      then stack_entries cfg e0 es onto chain prepared s
      else
        (case stack_entry cfg e0 e onto s of
           (None, s') \<Rightarrow> s'
         | (Some onto', s') \<Rightarrow>
             stack_entries cfg e0 es onto' (mr_iid e # chain) (prepared + 1) s'))"

fun speculate_from :: "processor_config \<Rightarrow> merge_queue_entry list \<Rightarrow> mq_state \<Rightarrow> mq_state" where
  "speculate_from cfg [] s = s"
| "speculate_from cfg (e # es) s =
     (if state e \<noteq> AwaitingPipeline \<or> current_sha e = [] then speculate_from cfg es s
      else
        (case defer_main_red cfg e s of
           ((err, held, _), s1) \<Rightarrow>
             if err \<noteq> None \<or> held then speculate_from cfg es s1
             else speculate_from cfg es (stack_entries cfg e es (current_sha e) [mr_iid e] 0 s1)))"

definition prepare_speculation :: "processor_config \<Rightarrow> mq_state \<Rightarrow> mq_state" where
  "prepare_speculation cfg s =
     (if pc_speculation_depth cfg \<le> 0 then s else speculate_from cfg (list_active (table s)) s)"

text \<open>The sweep over recently settled rows; the adoption itself is \<open>correct_verdicts\<close>.\<close>

definition settle_recent :: "processor_config \<Rightarrow> mq_state \<Rightarrow> mq_state" where
  "settle_recent cfg s =
     fold (\<lambda>e. cleanup_speculation cfg e (state e = Evicted)) (list_settled None 100 (table s)) s"

definition tick :: "processor_config \<Rightarrow> mq_state \<Rightarrow> mq_state" where
  "tick cfg s =
     (if \<not> pc_enabled cfg then s
      else
        let s1 = settle_recent cfg (prepare_speculation cfg s) in
        fold (\<lambda>e s. snd (drive_head cfg e s)) (heads (table s1)) s1)"

end
