(* ===== verification/Merge_Protocol.thy ===== *)
theory Merge_Protocol
  imports Merge_Processor
begin

text \<open>
  What the processor does to the merge queue.  Every handler is shown to act on the table
  by legal steps only, a relation on tables that says which row may change how; the
  properties of the queue then follow from the steps and not from the handlers.
\<close>

section \<open>Legal steps\<close>

definition producer :: "merge_queue_entry \<Rightarrow> string" where
  "producer r = detail_string (detail_of r) key_producer"

definition has_proof :: "merge_queue_entry \<Rightarrow> bool" where
  "has_proof r \<longleftrightarrow> detail_of r key_proof \<noteq> None"

lemma external_producer: "is_external_candidate r \<longleftrightarrow> producer r \<noteq> []"
  by (simp add: is_external_candidate_def producer_def)

text \<open>The edges of the protocol; a row may also be rewritten in place.\<close>

fun edge :: "merge_queue_state \<Rightarrow> merge_queue_state \<Rightarrow> bool" where
  "edge Queued st = (st \<in> {Rebasing, AwaitingPipeline, Merging})"
| "edge Rebasing st = (st \<in> {Queued, AwaitingPipeline})"
| "edge AwaitingPipeline st = (st = Merging)"
| "edge _ _ = False"

definition legal_change :: "merge_queue_entry \<Rightarrow> merge_queue_entry \<Rightarrow> bool" where
  "legal_change r r' \<longleftrightarrow>
     producer r' = producer r \<and> (has_proof r \<longrightarrow> has_proof r') \<and>
     (state r' = state r \<and> attempts r' = attempts r \<and> current_sha r' = current_sha r \<or>
      edge (state r) (state r') \<and>
      (state r' = Merging \<and> is_external_candidate r \<longrightarrow> has_proof r') \<and>
      (if state r' = Rebasing then attempts r < max_head_drive_attempts \<and> attempts r' = attempts r + 1
       else attempts r' = attempts r))"

definition legal_op :: "merge_queue \<Rightarrow> queue_op \<Rightarrow> bool" where
  "legal_op q op \<longleftrightarrow>
     (case op of
        Op_Transition now t \<Rightarrow>
          (\<forall>r \<in> set (rows q). entry_id r = tr_id t \<and> active r \<and> state r = tr_from t \<longrightarrow>
             legal_change r (apply_transition now t r))
      | Op_Merged _ _ st _ \<Rightarrow> st = Queued \<or> st = Merging
      | _ \<Rightarrow> True)"

definition legal_step :: "merge_queue \<Rightarrow> merge_queue \<Rightarrow> bool" where
  "legal_step q q' \<longleftrightarrow> (\<exists>op. legal_op q op \<and> q' = run_op op q)"

abbreviation legal_steps :: "merge_queue \<Rightarrow> merge_queue \<Rightarrow> bool" where
  "legal_steps \<equiv> legal_step\<^sup>*\<^sup>*"

lemma legal_step_ok: "legal_step q q' \<Longrightarrow> queue_ok q \<Longrightarrow> queue_ok q'"
  by (auto simp: legal_step_def run_op_ok)

lemma legal_steps_ok: "legal_steps q q' \<Longrightarrow> queue_ok q \<Longrightarrow> queue_ok q'"
  by (induction rule: rtranclp_induct) (auto intro: legal_step_ok)

text \<open>What a legal step makes of the table: each row of the new table is new, or changed legally, or settled.\<close>

lemma cas_rows:
  assumes "r' \<in> set (rows (snd (cas c f i q)))"
  shows "r' \<in> set (rows q) \<or> (\<exists>r \<in> set (rows q). entry_id r = i \<and> c r \<and> active r \<and> r' = f r)"
  using assms by (auto simp: cas_def Let_def update_where_def split: if_splits)

lemma transition_rows:
  assumes "r' \<in> set (rows (snd (transition now t q)))"
  shows "r' \<in> set (rows q) \<or>
    (\<exists>r \<in> set (rows q). entry_id r = tr_id t \<and> state r = tr_from t \<and> active r \<and>
       r' = apply_transition now t r)"
  using assms cas_rows [of r' "\<lambda>r. state r = tr_from t" "apply_transition now t" "tr_id t" q]
  by (auto simp: transition_def split: if_splits)

lemma apply_transition_id [simp]:
  "entry_id (apply_transition now t r) = entry_id r"
  "active (apply_transition now t r) = active r"
  "state (apply_transition now t r) = tr_to t"
  by (simp_all add: apply_transition_def active_def)

lemma enqueue_rows:
  assumes "r' \<in> set (rows (snd (enqueue now e d q)))"
  shows "r' \<in> set (rows q) \<or> (entry_id r' = next_id q \<and> state r' = Queued \<and> attempts r' = 0)"
  using assms
  by (cases rule: enqueue_cases [of now e d q]) (auto simp: inserted_row_def returned_row_def)

lemma legal_step_rows:
  assumes "legal_step q q'" and "r' \<in> set (rows q')"
  shows "r' \<in> set (rows q) \<or> (entry_id r' = next_id q \<and> state r' = Queued \<and> attempts r' = 0) \<or>
    (\<exists>r \<in> set (rows q). entry_id r = entry_id r' \<and> active r \<and>
       (legal_change r r' \<and> active r' \<or> \<not> active r' \<and> attempts r' = attempts r))"
proof -
  obtain op where op: "legal_op q op" "q' = run_op op q" using assms(1) by (auto simp: legal_step_def)
  show ?thesis
  proof (cases op)
    case (Op_Enqueue now e d)
    with op assms(2) enqueue_rows show ?thesis by fastforce
  next
    case (Op_Transition now t)
    with op assms(2) transition_rows [of r' now t q] show ?thesis by (fastforce simp: legal_op_def)
  next
    case (Op_Merged now i st sha)
    with op assms(2) cas_rows [of r' _ "merged_row now sha" i q] show ?thesis
      by (fastforce simp: mark_merged_def merged_row_def active_def)
  next
    case (Op_Evicted now i reason d)
    with op assms(2) cas_rows [of r' _ "evicted_row now reason d" i q] show ?thesis
      by (fastforce simp: mark_evicted_def evicted_row_def active_def split: if_splits)
  qed
qed

lemma next_id_mono: "next_id q \<le> next_id (run_op op q)"
proof (cases op)
  case (Op_Enqueue now e d)
  then show ?thesis by (cases rule: enqueue_cases [of now e d q]) auto
qed (auto simp: transition_def mark_merged_def mark_evicted_def cas_def update_where_def Let_def)

section \<open>In-memory entries\<close>

text \<open>
  A handler works from an entry it has read.  The entry is current when it agrees with its
  row, as long as that row is unsettled, in the fields the handlers decide on.
\<close>

definition agrees :: "merge_queue_entry \<Rightarrow> merge_queue_entry \<Rightarrow> bool" where
  "agrees e r \<longleftrightarrow>
     state r = state e \<and> attempts r = attempts e \<and> current_sha r = current_sha e \<and>
     producer r = producer e \<and> has_proof r = has_proof e"

definition current_entry :: "merge_queue_entry \<Rightarrow> merge_queue \<Rightarrow> bool" where
  "current_entry e q \<longleftrightarrow>
     (\<forall>r \<in> set (rows q). entry_id r = entry_id e \<longrightarrow> active r \<longrightarrow> agrees e r)"

lemma current_row: "queue_ok q \<Longrightarrow> e \<in> set (rows q) \<Longrightarrow> current_entry e q"
  unfolding current_entry_def agrees_def using entry_id_inject by blast

text \<open>A refresh replaces the bundle by one with the same producer and proof.\<close>

definition same_marks :: "detail \<Rightarrow> detail \<Rightarrow> bool" where
  "same_marks d d' \<longleftrightarrow> d' key_producer = d key_producer \<and> d' key_proof = d key_proof"

lemma marks_upd [simp]:
  "k \<noteq> key_producer \<Longrightarrow> k \<noteq> key_proof \<Longrightarrow> same_marks d (d'(k := v)) = same_marks d d'"
  "same_marks d d"
  by (auto simp: same_marks_def)

lemma keys_distinct [simp]:
  "key_ledger_seq \<noteq> key_producer" "key_versions_cursor \<noteq> key_producer" "key_events_cursor \<noteq> key_producer"
  "key_wait_since \<noteq> key_producer" "key_created \<noteq> key_producer" "key_url \<noteq> key_producer"
  "key_pipeline_id \<noteq> key_producer" "key_lane \<noteq> key_producer" "key_proof_source \<noteq> key_producer"
  "key_spec_ref \<noteq> key_producer" "key_spec_sha \<noteq> key_producer" "key_spec_pipeline \<noteq> key_producer"
  "key_spec_predecessor \<noteq> key_producer" "key_spec_failed_onto \<noteq> key_producer"
  "key_defer_reason \<noteq> key_producer" "key_proof \<noteq> key_producer"
  "key_ledger_seq \<noteq> key_proof" "key_versions_cursor \<noteq> key_proof" "key_events_cursor \<noteq> key_proof"
  "key_wait_since \<noteq> key_proof" "key_created \<noteq> key_proof" "key_url \<noteq> key_proof"
  "key_pipeline_id \<noteq> key_proof" "key_lane \<noteq> key_proof" "key_proof_source \<noteq> key_proof"
  "key_spec_ref \<noteq> key_proof" "key_spec_sha \<noteq> key_proof" "key_spec_pipeline \<noteq> key_proof"
  "key_spec_predecessor \<noteq> key_proof" "key_spec_failed_onto \<noteq> key_proof"
  "key_defer_reason \<noteq> key_proof"
  by (simp_all add: key_defs)

lemmas keys_distinct' [simp] = keys_distinct [symmetric]

definition refresh_request :: "merge_queue_entry \<Rightarrow> detail \<Rightarrow> transition_request" where
  "refresh_request e d = (plain_transition e (state e) (state e))\<lparr>tr_detail := Some d\<rparr>"

lemma refresh_alt:
  "refresh cfg e d s = on_table (snd (transition (pc_now cfg) (refresh_request e d) (table s))) s"
  by (simp add: refresh_def refresh_request_def plain_transition_def)

text \<open>Soft steps: refreshes of current entries.\<close>

definition soft_step :: "merge_queue \<Rightarrow> merge_queue \<Rightarrow> bool" where
  "soft_step q q' \<longleftrightarrow> (\<exists>now e d. current_entry e q \<and> same_marks (detail_of e) d \<and>
     q' = snd (transition now (refresh_request e d) q))"

abbreviation soft_steps :: "merge_queue \<Rightarrow> merge_queue \<Rightarrow> bool" where
  "soft_steps \<equiv> soft_step\<^sup>*\<^sup>*"

lemma refreshed_agrees:
  assumes "agrees e r" and "same_marks (detail_of e) d"
  shows "agrees r (apply_transition now (refresh_request e d) r)"
  using assms
  by (auto simp: agrees_def apply_transition_def refresh_request_def plain_transition_def producer_def
      has_proof_def same_marks_def detail_string_def)

lemma agrees_legal: "agrees r r' \<Longrightarrow> legal_change r r'"
  by (auto simp: agrees_def legal_change_def)

lemma soft_step_legal: "soft_step q q' \<Longrightarrow> legal_step q q'"
proof -
  assume "soft_step q q'"
  then obtain now e d where e: "current_entry e q" "same_marks (detail_of e) d"
    and q': "q' = run_op (Op_Transition now (refresh_request e d)) q"
    by (auto simp: soft_step_def)
  have "legal_op q (Op_Transition now (refresh_request e d))"
    using e refreshed_agrees agrees_legal
    by (auto simp: legal_op_def current_entry_def refresh_request_def plain_transition_def)
  with q' show ?thesis unfolding legal_step_def by blast
qed

lemma soft_step_current:
  assumes "soft_step q q'" and "current_entry x q"
  shows "current_entry x q'"
proof -
  obtain now e d where e: "current_entry e q" "same_marks (detail_of e) d"
    and q': "q' = snd (transition now (refresh_request e d) q)"
    using assms(1) by (auto simp: soft_step_def)
  have "agrees x r'" if "r' \<in> set (rows q')" "entry_id r' = entry_id x" "active r'" for r'
  proof -
    from transition_rows [OF that(1) [unfolded q']] consider
      "r' \<in> set (rows q)" |
      r where "r \<in> set (rows q)" "entry_id r = entry_id e" "active r"
        "r' = apply_transition now (refresh_request e d) r"
      by (auto simp: refresh_request_def plain_transition_def)
    then show ?thesis
    proof cases
      case 2
      with e have "agrees r r'" by (auto simp: current_entry_def intro: refreshed_agrees)
      moreover have "agrees x r" using assms(2) 2 that by (auto simp: current_entry_def)
      ultimately show ?thesis by (simp add: agrees_def)
    qed (use assms(2) that in \<open>auto simp: current_entry_def\<close>)
  qed
  then show ?thesis by (simp add: current_entry_def)
qed

lemma soft_steps_legal: "soft_steps q q' \<Longrightarrow> legal_steps q q'"
  by (induction rule: rtranclp_induct) (auto intro: rtranclp.rtrancl_into_rtrancl soft_step_legal)

lemma soft_steps_current: "soft_steps q q' \<Longrightarrow> current_entry x q \<Longrightarrow> current_entry x q'"
  by (induction rule: rtranclp_induct) (auto intro: soft_step_current)

lemma refresh_soft:
  "current_entry e (table s) \<Longrightarrow> same_marks (detail_of e) d \<Longrightarrow>
   soft_step (table s) (table (refresh cfg e d s))"
  unfolding refresh_alt soft_step_def on_table_def by auto

section \<open>The handlers act by legal steps\<close>

lemma table_logs [simp]:
  "table (call_forge c s) = table s" "table (append_event ev s) = table s" "table (on_table q s) = q"
  "table (settle_ledger_row cfg e sq st su evd s) = table s"
  by (simp_all add: call_forge_def append_event_def on_table_def settle_ledger_row_def)

lemma open_ledger_row_table [simp]: "table (snd (open_ledger_row cfg e tip s)) = table s"
  by (auto simp: open_ledger_row_def split: prod.split sum.split ledger_error.split)

subsection \<open>Soft handlers\<close>

lemma cleanup_entry_soft:
  assumes "current_entry e (table s)"
  shows "soft_steps (table s) (table (cleanup_entry cfg i cancel e s))"
proof -
  have r: "soft_steps (table s) (table (refresh cfg e d s'))"
    if "table s' = table s" "same_marks (detail_of e) d" for d s'
    using refresh_soft [of e s' d cfg] that assms by (auto intro: r_into_rtranclp)
  show ?thesis
    unfolding cleanup_entry_def Let_def by (auto intro!: r split: option.split)
qed

lemma fold_soft:
  assumes "\<And>e s. current_entry e (table s) \<Longrightarrow> soft_steps (table s) (table (f e s))"
    and "\<forall>e \<in> set es. current_entry e (table s)"
  shows "soft_steps (table s) (table (fold f es s))"
  using assms(2)
proof (induction es arbitrary: s)
  case (Cons e es)
  have e: "soft_steps (table s) (table (f e s))" using assms(1) Cons.prems by simp
  then have "\<forall>x \<in> set es. current_entry x (table (f e s))"
    using soft_steps_current Cons.prems by auto
  from Cons.IH [OF this] e show ?case by simp
qed simp

lemma list_active_current: "queue_ok q \<Longrightarrow> \<forall>e \<in> set (list_active q). current_entry e q"
  by (auto simp: list_active_def intro: current_row)

lemma cleanup_soft:
  "queue_ok (table s) \<Longrightarrow> soft_steps (table s) (table (cleanup_speculation cfg e cancel s))"
  unfolding cleanup_speculation_def
  by (intro fold_soft cleanup_entry_soft list_active_current)

lemma refresh_soft':
  "current_entry e q \<Longrightarrow> same_marks (detail_of e) d \<Longrightarrow>
   soft_step q (snd (transition now ((plain_transition e (state e) (state e))\<lparr>tr_detail := Some d\<rparr>) q))"
  unfolding soft_step_def refresh_request_def by blast

lemma refreshed_current:
  assumes "current_entry e q" and "same_marks (detail_of e) d"
  shows "current_entry (e\<lparr>detail_of := d\<rparr>) q \<and> agrees e (e\<lparr>detail_of := d\<rparr>)"
  using assms
  by (auto simp: current_entry_def agrees_def producer_def has_proof_def same_marks_def detail_string_def)

lemma agrees_refl [simp]: "agrees e e"
  by (simp add: agrees_def)

text \<open>The hold rewrites the driven entry's bundle, in the table and in memory.\<close>

lemma defer_soft:
  assumes e: "current_entry e (table s)"
  shows "soft_steps (table s) (table (snd (defer_main_red cfg e s)))"
    and "current_entry (snd (snd (fst (defer_main_red cfg e s)))) (table (snd (defer_main_red cfg e s)))"
    and "entry_id (snd (snd (fst (defer_main_red cfg e s)))) = entry_id e"
    and "agrees e (snd (snd (fst (defer_main_red cfg e s))))"
proof -
  obtain r h where rh: "reconcile (pc_escalate cfg) (pc_now cfg) (project e) (target_branch e) (hold_table s) = (r, h)"
    by (cases "reconcile (pc_escalate cfg) (pc_now cfg) (project e) (target_branch e) (hold_table s)")
  define d where "d reason = (detail_of e)(key_defer_reason := (if reason = [] then None else Some (DString reason)))"
    for reason
  have d: "same_marks (detail_of e) (d reason)" for reason by (simp add: d_def)
  note step = refresh_soft' [OF e d, of "pc_now cfg"]
  note cur = refreshed_current [OF soft_step_current [OF step e] d]
  note def = defer_main_red_def rh prod.case Let_def d_def [symmetric]
  show "soft_steps (table s) (table (snd (defer_main_red cfg e s)))"
    using r_into_rtranclp [of soft_step, OF step] by (cases r) (simp_all add: def case_prod_beta)
  show "current_entry (snd (snd (fst (defer_main_red cfg e s)))) (table (snd (defer_main_red cfg e s)))"
    using e cur by (cases r) (simp_all add: def case_prod_beta)
  show "entry_id (snd (snd (fst (defer_main_red cfg e s)))) = entry_id e"
    by (cases r) (simp_all add: def case_prod_beta)
  show "agrees e (snd (snd (fst (defer_main_red cfg e s))))"
    using cur by (cases r) (simp_all add: def case_prod_beta)
qed

lemma stack_entry_soft:
  assumes e: "current_entry e (table s)"
  shows "soft_steps (table s) (table (snd (stack_entry cfg e0 e onto s)))"
proof -
  let ?s1 = "call_forge (Call_Prepare (entry_id e) (spec_ref e onto)) s"
  have r: "soft_steps (table s) (table (refresh cfg e d ?s1))" if "same_marks (detail_of e) d" for d
    using refresh_soft [of e ?s1 d cfg] that e by (auto intro: r_into_rtranclp)
  have t: "soft_steps (table s) (snd (transition now
      ((plain_transition e (state e) (state e))\<lparr>tr_detail := Some d\<rparr>) (table s)))"
    if "same_marks (detail_of e) d" for d now
    using refresh_soft' [OF e that] by (rule r_into_rtranclp)
  show ?thesis
    unfolding stack_entry_def Let_def case_prod_beta
    by (auto split: option.split sum.split intro!: r t)
qed

lemma stack_entries_soft:
  "\<forall>e \<in> set es. current_entry e (table s) \<Longrightarrow>
   soft_steps (table s) (table (stack_entries cfg e0 es onto chain prepared s))"
proof (induction es arbitrary: onto chain prepared s)
  case (Cons e es)
  obtain n s' where n: "stack_entry cfg e0 e onto s = (n, s')" by (cases "stack_entry cfg e0 e onto s")
  with stack_entry_soft [of e s cfg e0 onto] Cons.prems have s': "soft_steps (table s) (table s')" by simp
  then have "\<forall>x \<in> set es. current_entry x (table s')"
    using Cons.prems soft_steps_current by auto
  from Cons.IH [OF this] Cons.IH [of s] Cons.prems s' show ?case
    by (auto simp: n split: option.split intro: rtranclp_trans)
qed simp

lemma speculate_from_soft:
  "\<forall>e \<in> set es. current_entry e (table s) \<Longrightarrow> soft_steps (table s) (table (speculate_from cfg es s))"
proof (induction es arbitrary: s)
  case (Cons e es)
  obtain err held e' s1 where d: "defer_main_red cfg e s = ((err, held, e'), s1)"
    by (metis prod.exhaust)
  from defer_soft(1) [of e s cfg] Cons.prems have s1: "soft_steps (table s) (table s1)" by (simp add: d)
  have c1: "\<forall>x \<in> set es. current_entry x (table s1)"
    using s1 Cons.prems soft_steps_current by auto
  let ?s2 = "stack_entries cfg e es (current_sha e) [mr_iid e] 0 s1"
  have s2: "soft_steps (table s) (table ?s2)"
    using s1 stack_entries_soft [OF c1] by (rule rtranclp_trans)
  then have "\<forall>x \<in> set es. current_entry x (table ?s2)"
    using Cons.prems soft_steps_current by auto
  from rtranclp_trans [OF s2 Cons.IH [OF this]] rtranclp_trans [OF s1 Cons.IH [OF c1]]
    Cons.IH [of s] Cons.prems show ?case
    by (simp add: d)
qed simp

lemma prepare_speculation_soft:
  "queue_ok (table s) \<Longrightarrow> soft_steps (table s) (table (prepare_speculation cfg s))"
  using speculate_from_soft [OF list_active_current, of s cfg] by (simp add: prepare_speculation_def)

lemma settle_recent_soft:
  assumes "queue_ok (table s)"
  shows "soft_steps (table s) (table (settle_recent cfg s))"
proof -
  have "queue_ok (table s) \<Longrightarrow> soft_steps (table s)
    (table (fold (\<lambda>e. cleanup_speculation cfg e (state e = Evicted)) es s))" for es s
  proof (induction es arbitrary: s)
    case (Cons e es)
    have c: "soft_steps (table s) (table (cleanup_speculation cfg e (state e = Evicted) s))"
      using cleanup_soft Cons.prems .
    with Cons.IH [OF legal_steps_ok [OF soft_steps_legal Cons.prems]] show ?case
      by (auto intro: rtranclp_trans)
  qed simp
  with assms show ?thesis by (simp add: settle_recent_def)
qed

subsection \<open>Legal handlers\<close>

lemma legal_stepI: "legal_op q op \<Longrightarrow> legal_steps q (run_op op q)"
  by (rule r_into_rtranclp) (auto simp: legal_step_def)

lemma external_enqueue_table:
  "table (snd (external_enqueue x now c s)) = table s \<or>
   (\<exists>e d. table (snd (external_enqueue x now c s)) = run_op (Op_Enqueue now e d) (table s))"
  by (auto simp: external_enqueue_def Let_def case_prod_beta split: option.split)

lemma external_enqueue_legal: "legal_steps (table s) (table (snd (external_enqueue x now c s)))"
  using external_enqueue_table [of x now c s]
proof
  assume "\<exists>e d. table (snd (external_enqueue x now c s)) = run_op (Op_Enqueue now e d) (table s)"
  then obtain e d where "table (snd (external_enqueue x now c s)) = run_op (Op_Enqueue now e d) (table s)"
    by blast
  moreover have "legal_op (table s) (Op_Enqueue now e d)" by (simp add: legal_op_def)
  ultimately show ?thesis using legal_stepI by metis
qed simp

lemma external_enqueue_logs [simp]:
  "forge_log (snd (external_enqueue x now c s)) = forge_log s"
  "event_log (snd (external_enqueue x now c s)) = event_log s"
  by (simp_all add: external_enqueue_def Let_def case_prod_beta split: option.split)

lemma requeue_cases:
  obtains (none) "maybe_requeue_eviction cfg e reason extra s = s"
  | (requeued) x c where "pc_external cfg = Some x"
      "producer e \<noteq> eviction_requeue_producer"
      "table (maybe_requeue_eviction cfg e reason extra s) = table (snd (external_enqueue x (pc_now cfg) c s))"
      "forge_log (maybe_requeue_eviction cfg e reason extra s) = forge_log s"
proof (cases "pc_external cfg")
  case None
  then show ?thesis by (intro none) (simp add: maybe_requeue_eviction_def)
next
  case (Some x)
  let ?sha = "requeue_sha e reason extra"
  show ?thesis
  proof (cases "\<not> pc_requeue_evictions cfg \<or> producer e = eviction_requeue_producer \<or> ?sha = []")
    case True
    then show ?thesis using Some
      by (intro none) (auto simp: maybe_requeue_eviction_def producer_def Let_def)
  next
    case False
    let ?r = "external_enqueue x (pc_now cfg) (requeue_candidate e ?sha) s"
    have "maybe_requeue_eviction cfg e reason extra s = snd ?r \<or>
        (\<exists>ev. maybe_requeue_eviction cfg e reason extra s = append_event ev (snd ?r))"
      using False Some by (cases ?r; cases "fst ?r") (auto simp: maybe_requeue_eviction_def producer_def Let_def)
    then show ?thesis
      using False Some by (intro requeued) (auto simp: append_event_def)
  qed
qed

lemma requeue_legal: "legal_steps (table s) (table (maybe_requeue_eviction cfg e reason extra s))"
  by (cases rule: requeue_cases [of cfg e reason extra s]) (simp_all add: external_enqueue_legal)

definition after_eviction ::
  "processor_config \<Rightarrow> merge_queue_entry \<Rightarrow> string \<Rightarrow> string \<Rightarrow> detail \<Rightarrow> mq_state \<Rightarrow> mq_state" where
  "after_eviction cfg e reason msg extra s =
     on_table (run_op (Op_Evicted (pc_now cfg) (entry_id e) reason (Some ([key_detail \<mapsto> DString msg] ++ extra)))
       (table s)) s"

lemma evict_cases:
  obtains (failed) err where "evict cfg e reason msg extra s = (Some err, after_eviction cfg e reason msg extra s)"
      "ignore_conflict (fst (mark_evicted (pc_now cfg) (entry_id e) reason
         (Some ([key_detail \<mapsto> DString msg] ++ extra)) (table s))) = Some err"
  | (evicted) "evict cfg e reason msg extra s =
      (None, maybe_requeue_eviction cfg e reason extra
        (append_event (Ev_Evicted (pipeline_run_id e) reason)
          (cleanup_speculation cfg e True (after_eviction cfg e reason msg extra s))))"
  using that unfolding evict_def after_eviction_def Let_def case_prod_beta run_op.simps
  by (cases "ignore_conflict (fst (mark_evicted (pc_now cfg) (entry_id e) reason
    (Some ([key_detail \<mapsto> DString msg] ++ extra)) (table s)))") simp_all

lemma after_eviction_legal: "legal_steps (table s) (table (after_eviction cfg e reason msg extra s))"
proof -
  have "legal_op (table s) (Op_Evicted (pc_now cfg) (entry_id e) reason
      (Some ([key_detail \<mapsto> DString msg] ++ extra)))"
    by (simp add: legal_op_def)
  from legal_stepI [OF this] show ?thesis by (simp add: after_eviction_def)
qed

lemma evict_legal:
  assumes "queue_ok (table s)"
  shows "legal_steps (table s) (table (snd (evict cfg e reason msg extra s)))"
proof (cases rule: evict_cases [of cfg e reason msg extra s])
  case (failed err)
  then show ?thesis by (simp add: after_eviction_legal)
next
  case evicted
  note a = after_eviction_legal [of s cfg e reason msg extra]
  from cleanup_soft [OF legal_steps_ok [OF a assms], THEN soft_steps_legal]
  have "legal_steps (table s) (table (cleanup_speculation cfg e True (after_eviction cfg e reason msg extra s)))"
    using a by (rule rtranclp_trans [rotated])
  with requeue_legal [of "append_event (Ev_Evicted (pipeline_run_id e) reason)
      (cleanup_speculation cfg e True (after_eviction cfg e reason msg extra s))" cfg e reason extra]
  show ?thesis unfolding evicted by (simp add: rtranclp_trans)
qed

lemma settle_merged_legal:
  assumes "queue_ok (table s)" and "st = Queued \<or> st = Merging"
  shows "legal_steps (table s) (table (snd (settle_merged cfg e st sha s)))"
proof -
  define s1 where "s1 = on_table (run_op (Op_Merged (pc_now cfg) (entry_id e) st sha) (table s)) s"
  have "legal_op (table s) (Op_Merged (pc_now cfg) (entry_id e) st sha)"
    using assms(2) by (simp add: legal_op_def)
  from legal_stepI [OF this] have a: "legal_steps (table s) (table s1)" by (simp add: s1_def)
  from rtranclp_trans [OF a soft_steps_legal, OF cleanup_soft [OF legal_steps_ok [OF a assms(1)]]]
  have "legal_steps (table s) (table (cleanup_speculation cfg e False s1))" .
  with a show ?thesis
    by (simp add: settle_merged_def s1_def Let_def case_prod_beta)
qed

lemma advance_legal:
  assumes "legal_op (table s) (Op_Transition (pc_now cfg) t)"
  shows "legal_steps (table s) (table (snd (advance cfg t s)))"
  using legal_stepI [OF assms] by (simp add: advance_def case_prod_beta Let_def)

text \<open>The transitions the handlers make from a current entry.\<close>

definition fits :: "merge_queue_entry \<Rightarrow> transition_request \<Rightarrow> bool" where
  "fits e t \<longleftrightarrow>
     tr_id t = entry_id e \<and>
     (let d = (case tr_detail t of None \<Rightarrow> detail_of e | Some d \<Rightarrow> d) in
      d key_producer = detail_of e key_producer \<and>
      (detail_of e key_proof = None \<or> d key_proof \<noteq> None) \<and>
      (tr_to t = tr_from t \<and> \<not> tr_bump t \<and> tr_current_sha t = [] \<or>
       edge (tr_from t) (tr_to t) \<and>
       (tr_to t = Merging \<and> is_external_candidate e \<longrightarrow> d key_proof \<noteq> None) \<and>
       (if tr_to t = Rebasing then attempts e < max_head_drive_attempts \<and> tr_bump t else \<not> tr_bump t)))"

lemma fits_legal:
  assumes e: "current_entry e q" and t: "fits e t"
  shows "legal_op q (Op_Transition now t)"
proof -
  have "legal_change r (apply_transition now t r)"
    if r: "agrees e r" "state r = tr_from t" for r
  proof -
    have p: "detail_string (detail_of (apply_transition now t r)) key_producer =
        detail_string (detail_of r) key_producer"
      using r t by (cases "tr_detail t")
        (auto simp: fits_def agrees_def producer_def apply_transition_def detail_string_def Let_def)
    have q: "has_proof (apply_transition now t r) \<longleftrightarrow>
        (case tr_detail t of None \<Rightarrow> has_proof e | Some d \<Rightarrow> d key_proof \<noteq> None)"
      using r by (cases "tr_detail t") (auto simp: has_proof_def apply_transition_def agrees_def)
    show ?thesis
      using r t p q
      by (cases "tr_detail t")
        (auto simp: legal_change_def fits_def agrees_def producer_def has_proof_def
          apply_transition_def external_producer Let_def split: if_splits)
  qed
  with e t show ?thesis by (auto simp: legal_op_def current_entry_def fits_def Let_def)
qed

lemma advance_fits:
  "current_entry e (table s) \<Longrightarrow> fits e t \<Longrightarrow> legal_steps (table s) (table (snd (advance cfg t s)))"
  by (intro advance_legal fits_legal)

lemmas fits_simps = fits_def plain_transition_def Let_def

lemma fits_in_place:
  "same_marks (detail_of e) d \<Longrightarrow>
   fits e ((plain_transition e st st)\<lparr>tr_detail := Some d\<rparr>)"
  by (auto simp: fits_simps same_marks_def)

lemma fits_edge:
  assumes "same_marks (detail_of e) d" and "edge st st'" and "st' \<noteq> Merging" and "st' \<noteq> Rebasing"
  shows "fits e ((plain_transition e st st')\<lparr>tr_detail := Some d, tr_current_sha := sha\<rparr>)"
  using assms by (auto simp: fits_simps same_marks_def)

lemma drive_rebase_legal:
  assumes e: "current_entry e (table s)" and ok: "queue_ok (table s)"
    and n: "attempts e < max_head_drive_attempts"
  shows "legal_steps (table s) (table (snd (drive_rebase cfg f e tip s)))"
proof -
  have t: "fits e ((plain_transition e Queued Rebasing)\<lparr>tr_detail := Some ((detail_of e)(key_ledger_seq \<mapsto> DInt seq,
      key_versions_cursor \<mapsto> DInt v, key_events_cursor \<mapsto> DInt ev)), tr_bump := True\<rparr>)" for seq v ev
    using n by (auto simp: fits_simps)
  let ?s1 = "snd (open_ledger_row cfg e tip s)"
  have "table ?s1 = table s" by simp
  with evict_legal [of "settle_ledger_row cfg e seq st su evd (call_forge c ?s1)" for seq st su evd c]
    advance_fits [OF _ t, of "call_forge c ?s1" for c] e ok
  show ?thesis
    unfolding drive_rebase_def Let_def
    by (cases "open_ledger_row cfg e tip s")
       (auto split: sum.split prod.split option.split rebase_reply.split)
qed

lemma drive_queued_legal:
  assumes e: "current_entry e (table s)" and ok: "queue_ok (table s)"
  shows "legal_steps (table s) (table (snd (drive_queued cfg f e s)))"
proof -
  have ext: "fits e ((plain_transition e Queued AwaitingPipeline)
      \<lparr>tr_detail := Some ((detail_of e)(key_wait_since \<mapsto> stamp t))\<rparr>)" for t
    by (auto simp: fits_simps)
  have int: "\<not> is_external_candidate e \<Longrightarrow> fits e (plain_transition e Queued Merging)"
    by (auto simp: fits_simps)
  show ?thesis
    unfolding drive_queued_def
    using e ok evict_legal settle_merged_legal drive_rebase_legal [OF e ok] advance_fits [OF e ext]
      advance_fits [OF e int]
    by (auto split: sum.split)
qed

lemma drive_rebasing_legal:
  assumes e: "current_entry e (table s)" and ok: "queue_ok (table s)"
  shows "legal_steps (table s) (table (snd (drive_rebasing cfg f e s)))"
proof -
  have moved: "fits e ((plain_transition e Rebasing AwaitingPipeline)\<lparr>tr_current_sha := sha,
      tr_detail := Some ((detail_of e)(key_wait_since \<mapsto> stamp t, key_created := None))\<rparr>)" for sha t
    by (auto simp: fits_simps)
  have noop: "fits e (plain_transition e Rebasing Queued)" by (auto simp: fits_simps)
  have l: "legal_steps (table s) (table (snd (evict cfg e r m x (settle_ledger_row cfg e a b c d s))))"
    "legal_steps (table s) (table (snd (advance cfg (plain_transition e Rebasing Queued)
        (settle_ledger_row cfg e a b c d s))))"
    for r m x a b c d
    using evict_legal [of "settle_ledger_row cfg e a b c d s"] ok
      advance_fits [OF _ noop, of "settle_ledger_row cfg e a b c d s"] e by simp_all
  have l': "legal_steps (table s) (table (snd (advance cfg ((plain_transition e Rebasing AwaitingPipeline)
      \<lparr>tr_current_sha := sha, tr_detail := Some ((detail_of e)(key_wait_since \<mapsto> stamp t, key_created := None))\<rparr>)
        (settle_ledger_row cfg e a b c d s))))" for sha t a b c d
    using advance_fits [OF _ moved, of "settle_ledger_row cfg e a b c d s"] e by simp
  show ?thesis
    unfolding drive_rebasing_def Let_def
    using l l' by (auto split: sum.split head_verdict.split)
qed

lemma promote_legal:
  assumes "current_entry e (table s)"
  shows "legal_steps (table s) (table (snd (promote_with_proof cfg e pf s)))"
  unfolding promote_with_proof_def
  by (rule advance_fits [OF assms]) (auto simp: fits_simps)

lemma adopt_or_create_table [simp]: "table (snd (adopt_or_create f e s)) = table s"
  by (auto simp: adopt_or_create_def Let_def split: option.split sum.split)

lemma wait_for_legal: "queue_ok (table s) \<Longrightarrow> legal_steps (table s) (table (snd (wait_for cfg e w ps s)))"
  by (simp add: wait_for_def Let_def evict_legal)

lemma recover_legal:
  assumes e: "current_entry e (table s)" and ok: "queue_ok (table s)"
  shows "legal_steps (table s) (table (snd (recover_or_wait cfg f e s)))"
proof -
  let ?s1 = "snd (adopt_or_create f e s)"
  have t: "fits e ((plain_transition e AwaitingPipeline AwaitingPipeline)\<lparr>tr_detail := Some ((detail_of e)
      (key_created \<mapsto> DBool True, key_pipeline_id \<mapsto> DInt i, key_url \<mapsto> DString u, key_lane \<mapsto> DString l))\<rparr>)"
    for i u l by (rule fits_in_place) simp
  have "legal_steps (table s) (table (snd (evict cfg e r m x ?s1)))" for r m x
    using evict_legal [of ?s1] ok by simp
  moreover have "legal_steps (table s) (table (snd (advance cfg ((plain_transition e AwaitingPipeline AwaitingPipeline)
      \<lparr>tr_detail := Some ((detail_of e)(key_created \<mapsto> DBool True, key_pipeline_id \<mapsto> DInt i,
        key_url \<mapsto> DString u, key_lane \<mapsto> DString l))\<rparr>) ?s1)))" for i u l
    using advance_fits [OF _ t, of ?s1] e by simp
  ultimately show ?thesis
    using evict_legal [OF ok] adopt_or_create_table [of f e s]
    unfolding recover_or_wait_def Let_def
    by (cases "adopt_or_create f e s") (auto split: sum.split)
qed

lemma drive_awaiting_legal:
  assumes e: "current_entry e (table s)" and ok: "queue_ok (table s)"
  shows "legal_steps (table s) (table (snd (drive_awaiting_pipeline cfg f e s)))"
proof -
  have "legal_steps (table s) (table (snd (await_pipelines cfg f e ps mrps s)))" for ps mrps
    unfolding await_pipelines_def
    using evict_legal [OF ok] wait_for_legal [OF ok] recover_legal [OF e ok] by auto
  then show ?thesis
    unfolding drive_awaiting_pipeline_def
    using evict_legal [OF ok] promote_legal [OF e] by (auto split: sum.split)
qed

lemma drive_merging_legal:
  assumes ok: "queue_ok (table s)"
  shows "legal_steps (table s) (table (snd (drive_merging cfg f e s)))"
  using evict_legal [of "call_forge (Call_Merge (entry_id e) (current_sha e)) s"]
    settle_merged_legal [of "call_forge (Call_Merge (entry_id e) (current_sha e)) s"] ok
  by (auto simp: drive_merging_def Let_def split: merge_reply.split)

lemma drive_state_legal:
  assumes e: "current_entry e (table s)" and ok: "queue_ok (table s)"
  shows "legal_steps (table s) (table (snd (drive_state cfg e s)))"
  using drive_queued_legal [OF e ok] drive_rebasing_legal [OF e ok] drive_awaiting_legal [OF e ok]
    drive_merging_legal [OF ok]
  by (auto simp: drive_state_def split: option.split merge_queue_state.split)

lemma drive_head_legal:
  assumes e: "current_entry e (table s)" and ok: "queue_ok (table s)"
  shows "legal_steps (table s) (table (snd (drive_head cfg e s)))"
proof -
  note d = defer_soft [OF e, of cfg]
  have l: "legal_steps (table s) (table (snd (defer_main_red cfg e s)))"
    using d(1) by (rule soft_steps_legal)
  from rtranclp_trans [OF l drive_state_legal [OF d(2) legal_steps_ok [OF l ok]]] l
  show ?thesis
    by (cases "defer_main_red cfg e s"; cases "fst (fst (defer_main_red cfg e s))")
       (auto simp: drive_head_def)
qed

end
