(* ===== verification/Merge_Properties.thy ===== *)
theory Merge_Properties
  imports Merge_Protocol
begin

text \<open>
  The merge queue as a transition system over its shared state, and what holds of it.  A
  step is one handler run on the state it reads: one lane's head driven, a speculation pass,
  the sweep of settled rows, an admission, an observation of the default branch, or a
  restart (which loses the in-memory map).  GitLab's answers, the clock, the policy and the
  order of the steps are arbitrary.
\<close>

inductive mq_step :: "mq_state \<Rightarrow> mq_state \<Rightarrow> bool" where
  drive: "e \<in> set (heads (table s)) \<Longrightarrow> mq_step s (snd (drive_head cfg e s))"
| speculate: "mq_step s (prepare_speculation cfg s)"
| sweep: "mq_step s (settle_recent cfg s)"
| submit: "mq_step s (snd (external_enqueue x now c s))"
| stage: "mq_step s (snd (gateway_enqueue now d sc s))"
| observation: "mq_step s (s\<lparr>hold_table := snd (record_pipeline p b pl cl at du (hold_table s))\<rparr>)"
| restart: "mq_step s (s\<lparr>recovery := (\<lambda>_. None)\<rparr>)"

section \<open>Calls to the forge\<close>

text \<open>The calls that matter: rebases and merges.\<close>

fun matters :: "forge_call \<Rightarrow> bool" where
  "matters (Call_Rebase _) = True"
| "matters (Call_Merge _ _) = True"
| "matters _ = False"

definition acts :: "mq_state \<Rightarrow> forge_call list" where
  "acts s = filter matters (forge_log s)"

lemma acts_log [simp]:
  "acts (call_forge c s) = (if matters c then acts s @ [c] else acts s)"
  "acts (append_event ev s) = acts s"
  "acts (on_table q s) = acts s"
  "acts (settle_ledger_row cfg e sq st su evd s) = acts s"
  "acts (refresh cfg e d s) = acts s"
  "acts (snd (advance cfg t s)) = acts s"
  by (simp_all add: acts_def call_forge_def append_event_def on_table_def settle_ledger_row_def
      refresh_def advance_def case_prod_beta Let_def)

lemma acts_open_ledger [simp]: "acts (snd (open_ledger_row cfg e tip s)) = acts s"
  by (auto simp: acts_def open_ledger_row_def split: prod.split sum.split ledger_error.split)

lemma acts_cleanup_entry [simp]: "acts (cleanup_entry cfg i cancel e s) = acts s"
  by (simp add: cleanup_entry_def Let_def split: option.split)

lemma acts_fold: "(\<And>e s. acts (f e s) = acts s) \<Longrightarrow> acts (fold f es s) = acts s"
  by (induction es arbitrary: s) simp_all

lemma acts_cleanup [simp]: "acts (cleanup_speculation cfg e cancel s) = acts s"
  by (simp add: cleanup_speculation_def acts_fold)

lemma acts_requeue [simp]: "acts (maybe_requeue_eviction cfg e reason extra s) = acts s"
  by (cases rule: requeue_cases [of cfg e reason extra s]) (simp_all add: acts_def)

lemma acts_evict [simp]: "acts (snd (evict cfg e reason msg extra s)) = acts s"
  by (simp add: evict_def Let_def case_prod_beta)

lemma acts_settle [simp]: "acts (snd (settle_merged cfg e st sha s)) = acts s"
  by (simp add: settle_merged_def Let_def case_prod_beta)

lemma acts_defer [simp]: "acts (snd (defer_main_red cfg e s)) = acts s"
  by (simp add: defer_main_red_def Let_def case_prod_beta acts_def on_table_def split: sum.split)

lemma acts_adopt [simp]: "acts (snd (adopt_or_create f e s)) = acts s"
  by (simp add: adopt_or_create_def Let_def acts_def call_forge_def split: option.split sum.split)

lemma acts_stack_entry [simp]: "acts (snd (stack_entry cfg e0 e onto s)) = acts s"
  by (simp add: stack_entry_def Let_def case_prod_beta split: option.split sum.split)

lemma acts_stack [simp]: "acts (stack_entries cfg e0 es onto chain prepared s) = acts s"
proof (induction es arbitrary: onto chain prepared s)
  case (Cons e es)
  then show ?case
    using acts_stack_entry [of cfg e0 e onto s]
    by (cases "stack_entry cfg e0 e onto s") (simp split: option.split)
qed simp

lemma acts_speculate_from [simp]: "acts (speculate_from cfg es s) = acts s"
proof (induction es arbitrary: s)
  case (Cons e es)
  then show ?case
    using acts_defer [of cfg e s] by (cases "defer_main_red cfg e s") (simp add: case_prod_beta)
qed simp

lemma acts_speculation [simp]: "acts (prepare_speculation cfg s) = acts s"
  by (simp add: prepare_speculation_def)

lemma acts_settle_recent [simp]: "acts (settle_recent cfg s) = acts s"
  by (simp add: settle_recent_def acts_fold)

lemma acts_waiting [simp]:
  "acts (snd (wait_for cfg e w ps s)) = acts s"
  "acts (snd (recover_or_wait cfg f e s)) = acts s"
  "acts (snd (await_pipelines cfg f e ps mrps s)) = acts s"
  "acts (snd (promote_with_proof cfg e pf s)) = acts s"
  "acts (snd (drive_awaiting_pipeline cfg f e s)) = acts s"
proof -
  show w: "acts (snd (wait_for cfg e w ps s)) = acts s" for w ps
    by (simp add: wait_for_def Let_def)
  show r: "acts (snd (recover_or_wait cfg f e s)) = acts s"
    using acts_adopt [of f e s]
    by (cases "adopt_or_create f e s") (auto simp: recover_or_wait_def Let_def split: sum.split)
  show a: "acts (snd (await_pipelines cfg f e ps mrps s)) = acts s" for ps mrps
    by (simp add: await_pipelines_def w r)
  show p: "acts (snd (promote_with_proof cfg e pf s)) = acts s" for pf
    by (simp add: promote_with_proof_def)
  show "acts (snd (drive_awaiting_pipeline cfg f e s)) = acts s"
    by (simp add: drive_awaiting_pipeline_def a p split: sum.split)
qed

lemma acts_drive_rebase:
  "acts (snd (drive_rebase cfg f e tip s)) = acts s \<and> table (snd (drive_rebase cfg f e tip s)) = table s \<or>
   acts (snd (drive_rebase cfg f e tip s)) = acts s @ [Call_Rebase (entry_id e)]"
proof (cases "read_head_cursors f (mr_iid e)")
  case (Inr vc)
  let ?o = "open_ledger_row cfg e tip s"
  obtain sq s1 where o: "?o = (sq, s1)" by (cases ?o)
  then have "acts s1 = acts s" "table s1 = table s"
    using acts_open_ledger [of cfg e tip s] open_ledger_row_table [of cfg e tip s] by simp_all
  then show ?thesis
    by (cases vc; cases sq) (auto simp: drive_rebase_def Inr o Let_def split: rebase_reply.split)
qed (simp add: drive_rebase_def)

lemma acts_drive_queued:
  "acts (snd (drive_queued cfg f e s)) = acts s \<or>
   attempts e < max_head_drive_attempts \<and>
   (\<exists>tip. snd (drive_queued cfg f e s) = snd (drive_rebase cfg f e tip s))"
  by (auto simp: drive_queued_def split: sum.split)

lemma acts_drive_rebasing [simp]: "acts (snd (drive_rebasing cfg f e s)) = acts s"
  by (simp add: drive_rebasing_def Let_def split: sum.split head_verdict.split)

lemma acts_drive_merging [simp]:
  "acts (snd (drive_merging cfg f e s)) = acts s @ [Call_Merge (entry_id e) (current_sha e)]"
  by (simp add: drive_merging_def Let_def split: merge_reply.split)

lemma acts_admission [simp]:
  "acts (snd (external_enqueue x now c s)) = acts s"
  "acts (snd (gateway_enqueue now d sc s)) = acts s"
  "acts (s\<lparr>hold_table := h\<rparr>) = acts s"
  "acts (s\<lparr>recovery := rc\<rparr>) = acts s"
  by (simp_all add: acts_def gateway_enqueue_def case_prod_beta Let_def)

text \<open>What one drive of a state does to the forge.\<close>

lemma acts_drive_state:
  "acts (snd (drive_state cfg e s)) = acts s \<or>
   state e = Merging \<and> acts (snd (drive_state cfg e s)) = acts s @ [Call_Merge (entry_id e) (current_sha e)] \<or>
   state e = Queued \<and> attempts e < max_head_drive_attempts \<and>
     (\<exists>f tip. snd (drive_state cfg e s) = snd (drive_rebase cfg f e tip s))"
proof (cases "pc_for_project cfg (project e)")
  case (Some f)
  with acts_drive_queued [of cfg f e s] show ?thesis
    by (cases "state e") (auto simp: drive_state_def)
qed (simp add: drive_state_def)

section \<open>Invariant\<close>

text \<open>
  The table is well formed; an external candidate is merging only with a recorded proof;
  and the rebases asked for a candidate are counted by its attempts, at most three.
\<close>

definition proofs_ok :: "merge_queue \<Rightarrow> bool" where
  "proofs_ok q \<longleftrightarrow>
     (\<forall>r \<in> set (rows q). active r \<and> is_external_candidate r \<and> state r = Merging \<longrightarrow> has_proof r) \<and>
     (\<forall>r \<in> set (rows q). 0 \<le> attempts r \<and> attempts r \<le> max_head_drive_attempts)"

definition rebases :: "int \<Rightarrow> mq_state \<Rightarrow> int" where
  "rebases i s = int (length (filter (\<lambda>c. c = Call_Rebase i) (acts s)))"

definition rebases_ok :: "mq_state \<Rightarrow> bool" where
  "rebases_ok s \<longleftrightarrow>
     (\<forall>r \<in> set (rows (table s)). rebases (entry_id r) s \<le> max_head_drive_attempts \<and>
        rebases (entry_id r) s \<le> attempts r + (if active r then 0 else 1)) \<and>
     (\<forall>i \<ge> next_id (table s). rebases i s = 0)"

definition mq_inv :: "mq_state \<Rightarrow> bool" where
  "mq_inv s \<longleftrightarrow> queue_ok (table s) \<and> proofs_ok (table s) \<and> rebases_ok s"

lemma legal_step_proofs:
  assumes ok: "proofs_ok q" and step: "legal_step q q'"
  shows "proofs_ok q'"
proof -
  have "(active r' \<and> is_external_candidate r' \<and> state r' = Merging \<longrightarrow> has_proof r') \<and>
      0 \<le> attempts r' \<and> attempts r' \<le> max_head_drive_attempts"
    if r': "r' \<in> set (rows q')" for r'
    using legal_step_rows [OF step r']
  proof (elim disjE bexE conjE)
    assume "r' \<in> set (rows q)"
    with ok show ?thesis by (simp add: proofs_ok_def)
  next
    assume "state r' = Queued" "attempts r' = 0"
    then show ?thesis by (simp add: max_head_drive_attempts_def)
  next
    fix r assume r: "r \<in> set (rows q)" "active r" "legal_change r r'" "active r'"
    with ok have r0: "0 \<le> attempts r" "attempts r \<le> max_head_drive_attempts"
      and p: "is_external_candidate r \<and> state r = Merging \<longrightarrow> has_proof r"
      by (auto simp: proofs_ok_def)
    with r(3) show ?thesis
      by (auto simp: legal_change_def external_producer split: if_splits)
  next
    fix r assume "r \<in> set (rows q)" "attempts r' = attempts r" "\<not> active r'"
    with ok show ?thesis by (simp add: proofs_ok_def)
  qed
  then show ?thesis by (simp add: proofs_ok_def)
qed

lemma legal_steps_proofs: "legal_steps q q' \<Longrightarrow> proofs_ok q \<Longrightarrow> proofs_ok q'"
  by (induction rule: rtranclp_induct) (auto intro: legal_step_proofs)

text \<open>Where the rows come from.\<close>

lemma legal_step_from:
  assumes "legal_step q q'" and "queue_ok q" and "r' \<in> set (rows q')" and "entry_id r' < next_id q"
  shows "\<exists>r \<in> set (rows q). entry_id r = entry_id r' \<and> attempts r \<le> attempts r' \<and> (active r' \<longrightarrow> active r)"
  using legal_step_rows [OF assms(1,3)] assms(4)
  by (auto simp: legal_change_def split: if_splits)

lemma legal_step_next: "legal_step q q' \<Longrightarrow> next_id q \<le> next_id q'"
  by (auto simp: legal_step_def next_id_mono)

lemma legal_steps_from:
  assumes "legal_steps q q'" and "queue_ok q"
  shows "next_id q \<le> next_id q' \<and> (\<forall>r' \<in> set (rows q'). entry_id r' < next_id q \<longrightarrow>
    (\<exists>r \<in> set (rows q). entry_id r = entry_id r' \<and> attempts r \<le> attempts r' \<and> (active r' \<longrightarrow> active r)))"
  using assms
proof (induction rule: rtranclp_induct)
  case (step q1 q2)
  have ok: "queue_ok q1" using step legal_steps_ok by blast
  have n: "next_id q \<le> next_id q1" using step by blast
  have "\<exists>r \<in> set (rows q). entry_id r = entry_id r' \<and> attempts r \<le> attempts r' \<and> (active r' \<longrightarrow> active r)"
    if r': "r' \<in> set (rows q2)" "entry_id r' < next_id q" for r'
  proof -
    from legal_step_from [OF step(2) ok r'(1)] r'(2) n obtain r1 where r1: "r1 \<in> set (rows q1)"
      "entry_id r1 = entry_id r'" "attempts r1 \<le> attempts r'" "active r' \<longrightarrow> active r1" by auto
    with step r'(2) obtain r where "r \<in> set (rows q)" "entry_id r = entry_id r1"
      "attempts r \<le> attempts r1" "active r1 \<longrightarrow> active r" by auto
    with r1 show ?thesis by (intro bexI [of _ r]) auto
  qed
  with n legal_step_next [OF step(2)] show ?case by auto
qed auto

lemma rebases_same: "acts s' = acts s \<Longrightarrow> rebases i s' = rebases i s"
  by (simp add: rebases_def)

lemma legal_steps_inv:
  assumes inv: "mq_inv s" and l: "legal_steps (table s) (table s')"
    and r: "\<And>i. rebases i s' = rebases i s"
  shows "mq_inv s'"
proof -
  have ok: "queue_ok (table s)" "proofs_ok (table s)" "rebases_ok s" using inv by (auto simp: mq_inv_def)
  note ok' = legal_steps_ok [OF l ok(1)] legal_steps_proofs [OF l ok(2)]
  note fr = legal_steps_from [OF l ok(1)]
  have "rebases (entry_id r') s' \<le> max_head_drive_attempts \<and>
      rebases (entry_id r') s' \<le> attempts r' + (if active r' then 0 else 1)"
    if r': "r' \<in> set (rows (table s'))" for r'
  proof (cases "entry_id r' < next_id (table s)")
    case True
    with fr r' obtain r0 where "r0 \<in> set (rows (table s))" "entry_id r0 = entry_id r'"
      "attempts r0 \<le> attempts r'" "active r' \<longrightarrow> active r0" by blast
    with ok(3) r show ?thesis by (fastforce simp: rebases_ok_def split: if_splits)
  next
    case False
    then have "rebases (entry_id r') s' = 0" using ok(3) r by (simp add: rebases_ok_def)
    moreover have "0 \<le> attempts r'" using ok'(2) r' by (simp add: proofs_ok_def)
    ultimately show ?thesis by (simp add: max_head_drive_attempts_def)
  qed
  moreover have "rebases i s' = 0" if "next_id (table s') \<le> i" for i
    using ok(3) fr that r by (simp add: rebases_ok_def)
  ultimately show ?thesis using ok' by (simp add: mq_inv_def rebases_ok_def)
qed

lemma after_eviction_inactive:
  assumes "reason \<noteq> []" and "r' \<in> set (rows (table (after_eviction cfg e reason msg extra s)))"
    and "entry_id r' = entry_id e"
  shows "\<not> active r'"
  using assms
  by (auto simp: after_eviction_def mark_evicted_def cas_def update_where_def Let_def evicted_row_def
      active_def split: if_splits)

text \<open>An eviction settles the row of its entry, whatever else it does.\<close>

lemma evict_inactive:
  assumes ok: "queue_ok (table s)" and "reason \<noteq> []" and "entry_id e < next_id (table s)"
    and "r' \<in> set (rows (table (snd (evict cfg e reason msg extra s))))" and "entry_id r' = entry_id e"
  shows "\<not> active r'"
proof -
  let ?a = "after_eviction cfg e reason msg extra s"
  note a = after_eviction_legal [of s cfg e reason msg extra]
  have ok': "queue_ok (table ?a)" using legal_steps_ok [OF a ok] .
  have "legal_steps (table ?a) (table (snd (evict cfg e reason msg extra s)))"
  proof (cases rule: evict_cases [of cfg e reason msg extra s])
    case evicted
    with soft_steps_legal [OF cleanup_soft [OF ok', of cfg e True]]
      requeue_legal [of "append_event (Ev_Evicted (pipeline_run_id e) reason) (cleanup_speculation cfg e True ?a)"
        cfg e reason extra]
    show ?thesis by (simp add: rtranclp_trans)
  qed simp
  from legal_steps_from [OF this ok'] legal_steps_from [OF a ok] assms(3-5)
  obtain r where "r \<in> set (rows (table ?a))" "entry_id r = entry_id e" "active r' \<longrightarrow> active r"
    by fastforce
  with after_eviction_inactive [OF assms(2), of r cfg e msg extra s] show ?thesis by blast
qed

lemma rebase_transition_counts:
  assumes e: "current_entry e q" and ok: "queue_ok q"
    and t: "tr_id t = entry_id e" "tr_from t = state e" "tr_bump t" "\<not> is_terminal (tr_from t)"
      "\<not> is_terminal (tr_to t)"
    and r': "r' \<in> set (rows (snd (transition now t q)))" "entry_id r' = entry_id e" "active r'"
  shows "attempts r' = attempts e + 1"
proof -
  have "0 < entry_id e"
  proof -
    from transition_rows [OF r'(1)] r'(2) t(1) obtain r where "r \<in> set (rows q)" "entry_id r = entry_id e"
      by auto
    with ok show ?thesis by (auto simp: queue_ok_def row_ok_def)
  qed
  with r' t obtain r where r: "r \<in> set (rows q)"
    "r' = (if entry_id r = entry_id e \<and> state r = state e \<and> active r then apply_transition now t r else r)"
    by (auto simp: transition_def cas_def update_where_def Let_def)
  with r' have "entry_id r = entry_id e" "active r" by (auto split: if_splits)
  with e r(1) have "agrees e r" by (simp add: current_entry_def)
  with r t(3) \<open>entry_id r = entry_id e\<close> \<open>active r\<close> show ?thesis
    by (simp add: agrees_def apply_transition_def)
qed

lemma drive_rebase_counts:
  assumes e: "current_entry e (table s)" and ok: "queue_ok (table s)" and st: "state e = Queued"
    and n: "entry_id e < next_id (table s)"
    and acts: "acts (snd (drive_rebase cfg f e tip s)) \<noteq> acts s"
    and r': "r' \<in> set (rows (table (snd (drive_rebase cfg f e tip s))))" "entry_id r' = entry_id e"
  shows "active r' \<longrightarrow> attempts r' = attempts e + 1"
proof -
  obtain v ev where cur: "read_head_cursors f (mr_iid e) = Inr (v, ev)"
    using acts by (cases "read_head_cursors f (mr_iid e)") (auto simp: drive_rebase_def)
  obtain sq s1 where o: "open_ledger_row cfg e tip s = (sq, s1)" by (cases "open_ledger_row cfg e tip s")
  then have s1: "table s1 = table s" "acts s1 = acts s"
    using acts_open_ledger [of cfg e tip s] open_ledger_row_table [of cfg e tip s] by simp_all
  obtain seq where seq: "sq = Some seq"
    using acts s1 by (cases sq) (auto simp: drive_rebase_def cur o)
  let ?s2 = "call_forge (Call_Rebase (entry_id e)) s1"
  let ?t = "(plain_transition e Queued Rebasing)\<lparr>tr_detail := Some ((detail_of e)(key_ledger_seq \<mapsto> DInt seq,
    key_versions_cursor \<mapsto> DInt v, key_events_cursor \<mapsto> DInt ev)), tr_bump := True\<rparr>"
  show ?thesis
  proof (cases "request_rebase f (mr_iid e)")
    case (Rebase_Refused err)
    let ?s3 = "settle_ledger_row cfg e seq Failed_Move [] err ?s2"
    have "\<not> active r'"
      using r' Rebase_Refused
      by (intro evict_inactive [of ?s3 "''rebase_conflict''" e r' cfg "text_refused err" no_extra])
        (simp_all add: drive_rebase_def cur o seq Let_def s1 ok n)
    then show ?thesis by simp
  qed (use rebase_transition_counts [OF e ok, of ?t r' "pc_now cfg"] r' st in
      \<open>simp_all add: drive_rebase_def cur o seq Let_def s1 advance_def case_prod_beta plain_transition_def\<close>)
qed

lemma mq_inv_drive_state:
  assumes inv: "mq_inv s" and e: "current_entry e (table s)"
    and re: "re \<in> set (rows (table s))" "entry_id re = entry_id e" "active re"
  shows "mq_inv (snd (drive_state cfg e s))"
proof -
  let ?s' = "snd (drive_state cfg e s)"
  have n: "entry_id e < next_id (table s)" using inv re by (auto simp: mq_inv_def queue_ok_def row_ok_def)
  have ok: "queue_ok (table s)" "rebases_ok s" "proofs_ok (table s)" using inv by (auto simp: mq_inv_def)
  have l: "legal_steps (table s) (table ?s')" using drive_state_legal [OF e ok(1)] .
  show ?thesis
  proof (cases "\<exists>i. rebases i ?s' \<noteq> rebases i s")
    case False
    then show ?thesis using legal_steps_inv [OF inv l] by auto
  next
    case True
    then obtain f tip where st: "state e = Queued" "attempts e < max_head_drive_attempts"
      and s': "?s' = snd (drive_rebase cfg f e tip s)"
      using acts_drive_state [of cfg e s] by (auto simp: rebases_def)
    with True have acts: "acts ?s' \<noteq> acts s" by (auto simp: rebases_def)
    with acts_drive_rebase [of cfg f e tip s] s' have a: "acts ?s' = acts s @ [Call_Rebase (entry_id e)]" by auto
    then have reb: "rebases i ?s' = (if i = entry_id e then rebases i s + 1 else rebases i s)" for i
      by (simp add: rebases_def)
    note ok' = legal_steps_ok [OF l ok(1)] legal_steps_proofs [OF l ok(3)]
    note fr = legal_steps_from [OF l ok(1)]
    have b: "rebases (entry_id e) s \<le> attempts e" and at: "attempts re = attempts e"
      using ok(2) re e by (auto simp: rebases_ok_def current_entry_def agrees_def)
    have "rebases (entry_id r') ?s' \<le> max_head_drive_attempts \<and>
        rebases (entry_id r') ?s' \<le> attempts r' + (if active r' then 0 else 1)"
      if r': "r' \<in> set (rows (table ?s'))" for r'
    proof (cases "entry_id r' < next_id (table s)")
      case True
      with fr r' obtain r0 where r0: "r0 \<in> set (rows (table s))" "entry_id r0 = entry_id r'"
        "attempts r0 \<le> attempts r'" "active r' \<longrightarrow> active r0" by blast
      show ?thesis
      proof (cases "entry_id r' = entry_id e")
        case True
        with r0 re entry_id_inject [OF ok(1), of r0 re] at have "attempts e \<le> attempts r'" by simp
        moreover have "active r' \<longrightarrow> attempts r' = attempts e + 1"
          using drive_rebase_counts [OF e ok(1) st(1) n _ _ True] acts r' s' by simp
        ultimately show ?thesis using True b st(2) by (simp add: reb)
      next
        case False
        with ok(2) r0 show ?thesis by (fastforce simp: rebases_ok_def reb split: if_splits)
      qed
    next
      case False
      then have "rebases (entry_id r') ?s' = 0" using ok(2) n by (simp add: rebases_ok_def reb)
      moreover have "0 \<le> attempts r'" using ok'(2) r' by (simp add: proofs_ok_def)
      ultimately show ?thesis by (simp add: max_head_drive_attempts_def)
    qed
    moreover have "rebases i ?s' = 0" if "next_id (table ?s') \<le> i" for i
      using ok(2) fr n that by (simp add: rebases_ok_def reb)
    ultimately show ?thesis using ok' by (simp add: mq_inv_def rebases_ok_def)
  qed
qed

lemma soft_steps_active:
  assumes "soft_steps q q'" and "r \<in> set (rows q)" and "active r"
  shows "\<exists>r' \<in> set (rows q'). entry_id r' = entry_id r \<and> active r'"
  using assms
proof (induction rule: rtranclp_induct)
  case (step q1 q2)
  then obtain r1 where r1: "r1 \<in> set (rows q1)" "entry_id r1 = entry_id r" "active r1" by blast
  from step(2) obtain now t where q2: "q2 = snd (transition now t q1)" by (auto simp: soft_step_def)
  have "r1 \<in> set (rows q2) \<or> apply_transition now t r1 \<in> set (rows q2)"
    using r1(1) by (auto simp: q2 transition_def cas_def update_where_def Let_def)
  with r1 show ?case by (metis apply_transition_id(1,2))
qed auto

lemma mq_inv_soft:
  "mq_inv s \<Longrightarrow> soft_steps (table s) (table s') \<Longrightarrow> acts s' = acts s \<Longrightarrow> mq_inv s'"
  by (rule legal_steps_inv [OF _ soft_steps_legal rebases_same])

lemma mq_inv_drive:
  assumes inv: "mq_inv s" and e: "e \<in> set (heads (table s))"
  shows "mq_inv (snd (drive_head cfg e s))"
proof -
  have row: "e \<in> set (rows (table s))" "active e" using e by (auto simp: heads_def)
  have ok: "queue_ok (table s)" using inv by (simp add: mq_inv_def)
  note d = defer_soft [OF current_row [OF ok row(1)], of cfg]
  have i: "mq_inv (snd (defer_main_red cfg e s))" by (rule mq_inv_soft [OF inv d(1)]) simp
  from soft_steps_active [OF d(1) row] d(3) obtain r where
    "r \<in> set (rows (table (snd (defer_main_red cfg e s))))"
    "entry_id r = entry_id (snd (snd (fst (defer_main_red cfg e s))))" "active r" by auto
  from mq_inv_drive_state [OF i d(2) this] i show ?thesis
    by (cases "defer_main_red cfg e s"; cases "fst (fst (defer_main_red cfg e s))")
       (auto simp: drive_head_def)
qed

definition mq_init :: "mq_state \<Rightarrow> bool" where
  "mq_init s \<longleftrightarrow> s = empty_state"

lemma mq_inv_init: "mq_init s \<Longrightarrow> mq_inv s"
  by (simp add: mq_init_def mq_inv_def empty_state_def
      queue_ok_empty [unfolded empty_queue_def] proofs_ok_def rebases_ok_def
      rebases_def acts_def empty_queue_def)

lemma mq_inv_step:
  assumes inv: "mq_inv s" and step: "mq_step s t"
  shows "mq_inv t"
  using step
proof cases
  case (drive e cfg)
  then show ?thesis using mq_inv_drive [OF inv] by simp
next
  case (speculate cfg)
  then show ?thesis using mq_inv_soft [OF inv prepare_speculation_soft] inv by (simp add: mq_inv_def)
next
  case (sweep cfg)
  then show ?thesis using mq_inv_soft [OF inv settle_recent_soft] inv by (simp add: mq_inv_def)
next
  case (submit x now c)
  then show ?thesis using legal_steps_inv [OF inv external_enqueue_legal] by (simp add: rebases_def acts_def)
next
  case (stage now d sc)
  have "legal_steps (table s) (run_op (Op_Enqueue now (gateway_entry sc) n) (table s))" for n
    by (rule legal_stepI) (simp add: legal_op_def)
  with stage show ?thesis
    using legal_steps_inv [OF inv, of "snd (gateway_enqueue now d sc s)"]
    by (simp add: gateway_enqueue_def case_prod_beta Let_def rebases_def acts_def)
qed (use legal_steps_inv [OF inv] in \<open>simp_all add: rebases_def acts_def\<close>)

interpretation mq_sys: inv_system mq_init mq_step mq_inv
  by unfold_locales (rule mq_inv_init, assumption, rule mq_inv_step)

section \<open>Properties\<close>

lemma acts_drive_head:
  assumes e: "current_entry e (table s)"
  shows "acts (snd (drive_head cfg e s)) = acts s \<or>
    state e = Merging \<and> acts (snd (drive_head cfg e s)) = acts s @ [Call_Merge (entry_id e) (current_sha e)] \<or>
    state e = Queued \<and> attempts e < max_head_drive_attempts \<and>
      acts (snd (drive_head cfg e s)) = acts s @ [Call_Rebase (entry_id e)]"
proof -
  obtain err held e' s1 where d: "defer_main_red cfg e s = ((err, held, e'), s1)" by (metis prod.exhaust)
  have a: "acts s1 = acts s" using acts_defer [of cfg e s] by (simp add: d)
  have eq: "entry_id e' = entry_id e" "state e' = state e" "attempts e' = attempts e" "current_sha e' = current_sha e"
    using defer_soft(3,4) [OF e, of cfg] by (simp_all add: d agrees_def)
  show ?thesis
  proof (cases "err = None \<and> \<not> held")
    case True
    then have "snd (drive_head cfg e s) = snd (drive_state cfg e' s1)" by (simp add: drive_head_def d)
    then show ?thesis
      using acts_drive_state [of cfg e' s1] acts_drive_rebase [where e = e' and s = s1]
      unfolding eq a by metis
  next
    case False
    then have "snd (drive_head cfg e s) = s1" by (cases err) (auto simp: drive_head_def d)
    with a show ?thesis by simp
  qed
qed

text \<open>
  C1. The queue merges nothing it should not.  In every reachable state a step asks the forge
  for at most one rebase or merge, and only for the head of a lane: a rebase when the head
  is queued and has been driven less than three times; a merge when the head is in state
  merging, at exactly the head SHA recorded in its row, and, if the candidate came from
  outside Mills, with the pipeline that proved it recorded in its row.
\<close>

theorem merge_only_proven:
  assumes "reachable mq_init mq_step s" and "mq_step s t"
  shows "acts t = acts s \<or>
    (\<exists>e \<in> set (heads (table s)).
       acts t = acts s @ [Call_Rebase (entry_id e)] \<and> state e = Queued \<and> attempts e < 3 \<or>
       acts t = acts s @ [Call_Merge (entry_id e) (current_sha e)] \<and> state e = Merging \<and>
         (\<not> is_external_candidate e \<or> detail_of e key_proof \<noteq> None))"
proof -
  have inv: "mq_inv s" using assms(1) by (rule mq_sys.inv_reachable)
  show ?thesis using assms(2)
  proof cases
    case (drive e cfg)
    then have row: "e \<in> set (rows (table s))" "active e" by (auto simp: heads_def)
    have "\<not> is_external_candidate e \<or> detail_of e key_proof \<noteq> None" if "state e = Merging"
      using inv row that by (auto simp: mq_inv_def proofs_ok_def has_proof_def)
    with acts_drive_head [of e s cfg] current_row [of "table s" e] inv row drive show ?thesis
      by (auto simp: mq_inv_def max_head_drive_attempts_def)
  qed simp_all
qed


subsection \<open>The bound on the wait\<close>

lemma transition_arrives:
  assumes e: "current_entry e q" and ok: "queue_ok q"
    and t: "tr_id t = entry_id e" "tr_from t = state e" "\<not> is_terminal (tr_from t)" "\<not> is_terminal (tr_to t)"
    and r': "r' \<in> set (rows (snd (transition now t q)))" "entry_id r' = entry_id e" "active r'"
  shows "state r' = tr_to t"
proof -
  obtain r0 where "r0 \<in> set (rows q)" "entry_id r0 = entry_id e"
    using transition_rows [OF r'(1)] r'(2) t(1) by auto
  with ok have "0 < entry_id e" by (auto simp: queue_ok_def row_ok_def)
  with r' t obtain r where r: "r \<in> set (rows q)"
    "r' = (if entry_id r = entry_id e \<and> state r = state e \<and> active r then apply_transition now t r else r)"
    by (auto simp: transition_def cas_def update_where_def Let_def)
  with r' have "entry_id r = entry_id e" "active r" by (auto split: if_splits)
  with e r(1) have "agrees e r" by (simp add: current_entry_def)
  with r \<open>entry_id r = entry_id e\<close> \<open>active r\<close> show ?thesis by (simp add: agrees_def)
qed

text \<open>The proof lookup reports a pipeline that is still going.\<close>

definition proof_running :: "forge \<Rightarrow> merge_queue_entry \<Rightarrow> bool" where
  "proof_running f e =
     (case pipeline_proof_of f (current_sha e) of
        Inl _ \<Rightarrow> False
      | Inr pf \<Rightarrow> ps_found pf \<and> pipeline_progressing (ps_status pf))"

definition pipeline_green :: "string + pipeline_status \<Rightarrow> bool" where
  "pipeline_green r = (case r of Inl _ \<Rightarrow> False | Inr ps \<Rightarrow> ps_found ps \<and> ps_status ps = ''success'')"

definition out_of_time :: "processor_config \<Rightarrow> merge_queue_entry \<Rightarrow> bool" where
  "out_of_time cfg e \<longleftrightarrow>
     await_pipeline_max cfg < pc_now cfg - detail_time (detail_of e) key_wait_since (pc_now cfg)"

definition left_waiting :: "merge_queue_entry \<Rightarrow> mq_state \<Rightarrow> bool" where
  "left_waiting e s \<longleftrightarrow>
     \<not> (\<exists>r \<in> set (rows (table s)). entry_id r = entry_id e \<and> state r = AwaitingPipeline)"

lemma settled_left: "queue_ok (table s) \<Longrightarrow>
  (\<And>r. r \<in> set (rows (table s)) \<Longrightarrow> entry_id r = entry_id e \<Longrightarrow> active r \<Longrightarrow> state r \<noteq> AwaitingPipeline) \<Longrightarrow>
  left_waiting e s"
  unfolding left_waiting_def by (metis is_terminal.simps(5) queue_ok_def row_ok_def)

lemma evict_left:
  assumes ok: "queue_ok (table s)" and "reason \<noteq> []" and "entry_id e < next_id (table s)"
  shows "left_waiting e (snd (evict cfg e reason msg extra s))"
  using legal_steps_ok [OF evict_legal [OF ok] ok] evict_inactive [OF assms] by (intro settled_left) auto

lemma promote_left:
  assumes e: "current_entry e (table s)" and ok: "queue_ok (table s)" and st: "state e = AwaitingPipeline"
  shows "left_waiting e (snd (promote_with_proof cfg e pf s))"
proof (rule settled_left)
  show "queue_ok (table (snd (promote_with_proof cfg e pf s)))"
    using legal_steps_ok [OF promote_legal [OF e] ok] .
  fix r assume "r \<in> set (rows (table (snd (promote_with_proof cfg e pf s))))"
    "entry_id r = entry_id e" "active r"
  then show "state r \<noteq> AwaitingPipeline"
    using transition_arrives [OF e ok, of "(plain_transition e AwaitingPipeline Merging)
        \<lparr>tr_detail := Some ((detail_of e)(key_url \<mapsto> DString (ps_url pf),
          key_proof_source \<mapsto> DString (pf_source pf),
          key_proof \<mapsto> DMap [(''pipeline_id'', DInt (ps_id pf)), (''sha'', DString (ps_sha pf)),
                             (''tree'', DString (pf_tree pf))]))\<rparr>" r "pc_now cfg"] st
    by (simp add: promote_with_proof_def advance_def case_prod_beta plain_transition_def)
qed

lemma await_pipelines_left:
  assumes ok: "queue_ok (table s)" and n: "entry_id e < next_id (table s)" and late: "out_of_time cfg e"
  shows "left_waiting e (snd (await_pipelines cfg f e ps mrps s))"
  using late evict_left [OF ok _ n]
  by (simp add: await_pipelines_def wait_for_def recover_or_wait_def out_of_time_def Let_def)

lemma drive_awaiting_late:
  assumes e: "current_entry e (table s)" and ok: "queue_ok (table s)" and st: "state e = AwaitingPipeline"
    and n: "entry_id e < next_id (table s)" and late: "out_of_time cfg e" and live: "\<not> proof_running f e"
  shows "fst (drive_awaiting_pipeline cfg f e s) \<noteq> None \<or>
    left_waiting e (snd (drive_awaiting_pipeline cfg f e s))"
  using live promote_left [OF e ok st] evict_left [OF ok _ n] await_pipelines_left [OF ok n late]
  unfolding drive_awaiting_pipeline_def proof_running_def
  by (auto split: sum.split)


section \<open>Witnesses\<close>

text \<open>
  A forge with a merge request behind its target, whose rebase succeeds, whose branch
  pipeline is green once there is one, and which merges; and one whose only pipeline never
  ends.
\<close>

definition demo_pipeline :: "string \<Rightarrow> pipeline_proof" where
  "demo_pipeline status =
     \<lparr>ps_found = True, ps_id = 11, ps_sha = ''s1'', ps_status = status, ps_url = ''u'',
      pf_tree = ''t'', pf_source = ''sha''\<rparr>"

definition demo_forge :: "string \<Rightarrow> forge" where
  "demo_forge status =
     \<lparr>mr_snapshot_of = (\<lambda>_. Inr \<lparr>sn_sha = ''s1'', sn_state = ''opened'', sn_base_sha = ''t0'', sn_merged_sha = []\<rparr>),
      branch_tip = (\<lambda>_. Inr ''t0''),
      request_rebase = (\<lambda>_. Rebase_Accepted),
      read_head_cursors = (\<lambda>_. Inr (1, 1)),
      observe_head = (\<lambda>_ _ _ _. Inl ''timeout''),
      branch_pipeline_status = (\<lambda>_ _. Inr no_pipeline),
      mr_pipeline_status = (\<lambda>_ _. Inr no_pipeline),
      find_active_pipeline = (\<lambda>_ _. Inr no_pipeline),
      pipeline_proof_of = (\<lambda>_. Inr (demo_pipeline status)),
      create_queue_pipeline = (\<lambda>_ _. Inr no_pipeline),
      merge_request = (\<lambda>_ _. Merge_Done ''m1''),
      speculative = None\<rparr>"

definition demo_config :: "time \<Rightarrow> string \<Rightarrow> processor_config" where
  "demo_config now status =
     \<lparr>pc_now = now, pc_for_project = (\<lambda>_. Some (demo_forge status)), pc_enabled = True,
      pc_await_pipeline = 0, pc_await_pipeline_fn = None, pc_speculation_depth = 0,
      pc_has_ledger = True, pc_external = None, pc_requeue_evictions = False, pc_escalate = None,
      correct_verdicts = (\<lambda>_ _. None), show_duration = (\<lambda>_. ''45m0s'')\<rparr>"

definition demo_submission :: external_candidate where
  "demo_submission =
     \<lparr>ec_producer = ''shepherd'', ec_key = ''k'', ec_project = ''core'', ec_source_branch = ''feat'',
      ec_target_branch = ''main'', ec_observed_sha = ''s1'', ec_mr_iid = 7\<rparr>"

definition demo_admissions :: external_config where
  "demo_admissions =
     \<lparr>x_enabled = Some True, x_max_depth = Some 3, x_permission = Some (\<lambda>_ _. Inr True),
      x_digest = (\<lambda>s. s)\<rparr>"

text \<open>Submitted, found up to date, proven, merging.\<close>

definition demo_state :: "nat \<Rightarrow> mq_state" where
  "demo_state n =
     ((\<lambda>s. case heads (table s) of e # _ \<Rightarrow> snd (drive_head (demo_config 100 ''success'') e s) | [] \<Rightarrow> s) ^^ n)
       (snd (external_enqueue demo_admissions 50 demo_submission empty_state))"

lemma demo_state_step:
  assumes "heads (table (demo_state n)) \<noteq> []"
  shows "mq_step (demo_state n) (demo_state (Suc n))"
proof -
  from assms obtain e es where e: "heads (table (demo_state n)) = e # es"
    by (cases "heads (table (demo_state n))") auto
  then have "mq_step (demo_state n) (snd (drive_head (demo_config 100 ''success'') e (demo_state n)))"
    by (intro mq_step.drive) simp
  with e show ?thesis by (simp add: demo_state_def)
qed

lemma demo_state_reachable: "reachable mq_init mq_step (demo_state n)"
proof (induction n)
  case 0
  have "reachable mq_init mq_step empty_state" by (rule reachable.start) (simp add: mq_init_def)
  then have "reachable mq_init mq_step (snd (external_enqueue demo_admissions 50 demo_submission empty_state))"
    by (rule reachable.step) (rule mq_step.submit)
  then show ?case by (simp add: demo_state_def)
next
  case (Suc n)
  show ?case
  proof (cases "heads (table (demo_state n)) = []")
    case True
    then have "demo_state (Suc n) = demo_state n" by (simp add: demo_state_def)
    with Suc show ?thesis by simp
  qed (use reachable.step [OF Suc demo_state_step] in blast)
qed

lemma demo_state_run:
  "map (\<lambda>e. (state e, is_external_candidate e)) (heads (table (demo_state 1))) = [(AwaitingPipeline, True)]"
  "map (\<lambda>e. (state e, is_external_candidate e)) (heads (table (demo_state 2))) = [(Merging, True)]"
  "acts (demo_state 2) = []" "acts (demo_state (Suc 2)) = [Call_Merge 1 ''s1'']"
  by code_simp+

theorem merge_only_proven_witness:
  "\<exists>e \<in> set (heads (table (demo_state 2))). state e = Merging \<and> detail_of e key_proof \<noteq> None"
proof -
  have "mq_step (demo_state 2) (demo_state (Suc 2))"
    using demo_state_run(2) by (intro demo_state_step) auto
  from merge_only_proven [OF demo_state_reachable this] show ?thesis
    using demo_state_run(2) unfolding demo_state_run(3,4) by auto
qed

lemma demo_waiting:
  "\<exists>e. e \<in> set (rows (table (demo_state 1))) \<and> state e = AwaitingPipeline \<and> is_external_candidate e"
proof -
  obtain e where "heads (table (demo_state 1)) = [e]" "state e = AwaitingPipeline" "is_external_candidate e"
    using demo_state_run(1) by (auto simp: map_eq_Cons_conv)
  moreover have "set (heads (table (demo_state 1))) \<subseteq> set (rows (table (demo_state 1)))"
    by (auto simp: heads_def)
  ultimately show ?thesis by (intro exI [of _ e]) simp
qed



end
