(* ===== verification/Workflow_Dag.thy ===== *)
theory Workflow_Dag
  imports Loom_Prelude
begin

text \<open>
  The acyclicity check every workflow definition passes at registration, \<open>validateDAG\<close> in
  \<^verbatim>\<open>pkg/agentcontext/workflow_expr.go\<close>: depth first search with three colours.  A step is
  its id and the ids it depends on.  The map of colours is a function; the closure's
  recursion is bounded by fuel, one more than the number of steps, which is shown to be
  enough; the order in which Go ranges over the id set is the argument \<open>order\<close>.
\<close>

type_synonym dag_step = "string \<times> string list"

datatype dag_error = Missing_Dependency string string | Cycle "string list"

datatype color = Unvisited | Visiting | Visited

text \<open>\<open>adjacency[s.ID] = s.DependsOn\<close>: the last step with an id wins; an unknown id has no entry.\<close>

definition adjacency :: "dag_step list \<Rightarrow> string \<Rightarrow> string list" where
  "adjacency steps i = (case map_of (rev steps) i of None \<Rightarrow> [] | Some deps \<Rightarrow> deps)"

definition missing_dependency :: "dag_step list \<Rightarrow> (string \<times> string) option" where
  "missing_dependency steps =
     find (\<lambda>(_, d). d \<notin> fst ` set steps) (concat (map (\<lambda>(i, deps). map (Pair i) deps) steps))"

text \<open>
  \<open>path[cycleStart:]\<close> with the node appended.  The path is kept as the code appends to it,
  the oldest node first.
\<close>

definition cycle_path :: "string list \<Rightarrow> string \<Rightarrow> string list" where
  "cycle_path path node = dropWhile (\<lambda>x. x \<noteq> node) path @ [node]"

text \<open>
  \<open>dfs\<close> and its loop over the dependencies of a node.  \<open>None\<close> is out of fuel.
\<close>

type_synonym dag_state = "string \<Rightarrow> color"

fun dfs :: "(string \<Rightarrow> string list) \<Rightarrow> nat \<Rightarrow> string list \<Rightarrow> string \<Rightarrow> dag_state \<Rightarrow>
    (dag_error + dag_state) option"
  and dfs_all :: "(string \<Rightarrow> string list) \<Rightarrow> nat \<Rightarrow> string list \<Rightarrow> string list \<Rightarrow> dag_state \<Rightarrow>
    (dag_error + dag_state) option" where
  "dfs adj 0 path node st = None"
| "dfs adj (Suc n) path node st =
     (case st node of
        Visiting \<Rightarrow> Some (Inl (Cycle (cycle_path path node)))
      | Visited \<Rightarrow> Some (Inr st)
      | Unvisited \<Rightarrow>
          (case dfs_all adj n (path @ [node]) (adj node) (st(node := Visiting)) of
             Some (Inr st') \<Rightarrow> Some (Inr (st'(node := Visited)))
           | r \<Rightarrow> r))"
| "dfs_all adj n path [] st = Some (Inr st)"
| "dfs_all adj n path (d # ds) st =
     (case dfs adj n path d st of
        Some (Inr st') \<Rightarrow> dfs_all adj n path ds st'
      | r \<Rightarrow> r)"

fun dfs_from :: "(string \<Rightarrow> string list) \<Rightarrow> nat \<Rightarrow> string list \<Rightarrow> dag_state \<Rightarrow>
    (dag_error + dag_state) option" where
  "dfs_from adj n [] st = Some (Inr st)"
| "dfs_from adj n (i # is) st =
     (if st i = Unvisited then
        (case dfs adj n [] i st of
           Some (Inr st') \<Rightarrow> dfs_from adj n is st'
         | r \<Rightarrow> r)
      else dfs_from adj n is st)"

definition dag_fuel :: "dag_step list \<Rightarrow> nat" where
  "dag_fuel steps = length steps + 1"

definition validate_dag :: "string list \<Rightarrow> dag_step list \<Rightarrow> dag_error option option" where
  "validate_dag order steps =
     (case missing_dependency steps of
        Some (i, d) \<Rightarrow> Some (Some (Missing_Dependency i d))
      | None \<Rightarrow>
          map_option (\<lambda>r. case r of Inl e \<Rightarrow> Some e | Inr _ \<Rightarrow> None)
            (dfs_from (adjacency steps) (dag_fuel steps) order (\<lambda>_. Unvisited)))"

section \<open>Specification\<close>

text \<open>The dependency relation, and a list of nodes each of whose dependencies come before it.\<close>

definition depends :: "(string \<Rightarrow> string list) \<Rightarrow> (string \<times> string) set" where
  "depends adj = {(i, d). d \<in> set (adj i)}"

fun topological :: "(string \<Rightarrow> string list) \<Rightarrow> string list \<Rightarrow> bool" where
  "topological adj [] = True"
| "topological adj (i # is) = (set (adj i) \<subseteq> set is \<and> i \<notin> set is \<and> topological adj is)"

text \<open>A cycle as reported: a walk along dependencies that ends where it started.\<close>

fun walk :: "(string \<Rightarrow> string list) \<Rightarrow> string list \<Rightarrow> bool" where
  "walk adj (i # j # is) = (j \<in> set (adj i) \<and> walk adj (j # is))"
| "walk adj _ = True"

definition closed_walk :: "(string \<Rightarrow> string list) \<Rightarrow> string list \<Rightarrow> bool" where
  "closed_walk adj c \<longleftrightarrow> 2 \<le> length c \<and> hd c = last c \<and> walk adj c"

lemma walk_append:
  "walk adj (xs @ [i]) \<Longrightarrow> j \<in> set (adj i) \<Longrightarrow> walk adj (xs @ [i, j])"
  by (induction adj xs rule: walk.induct) auto

lemma walk_suffix: "walk adj (xs @ ys) \<Longrightarrow> walk adj ys"
  by (induction xs arbitrary: ys) (auto elim: walk.elims)

lemma walk_trancl:
  "walk adj (i # is) \<Longrightarrow> is \<noteq> [] \<Longrightarrow> (i, last is) \<in> (depends adj)\<^sup>+"
proof (induction "is" arbitrary: i)
  case (Cons j js)
  then have step: "(i, j) \<in> depends adj" by (simp add: depends_def)
  show ?case
  proof (cases "js = []")
    case False
    with Cons have "(j, last js) \<in> (depends adj)\<^sup>+" by simp
    with step False show ?thesis by (simp add: trancl_into_trancl2)
  qed (use step in auto)
qed simp

lemma closed_walk_cyclic:
  assumes "closed_walk adj c"
  shows "\<not> acyclic (depends adj)"
proof (cases c)
  case (Cons i "is")
  with assms walk_trancl [of adj i "is"] have "(i, i) \<in> (depends adj)\<^sup>+"
    by (auto simp: closed_walk_def split: if_splits)
  then show ?thesis by (auto simp: acyclic_def)
qed (use assms in \<open>simp add: closed_walk_def\<close>)

text \<open>Position in a topological order decreases along dependencies, so none is on a cycle.\<close>

definition rank :: "string list \<Rightarrow> string \<Rightarrow> nat" where
  "rank ord i = length (dropWhile (\<lambda>x. x \<noteq> i) ord)"

lemma rank_Cons: "rank (k # ks) i = (if k = i then Suc (length ks) else rank ks i)"
  by (simp add: rank_def)

lemma rank_le: "rank ks i \<le> length ks"
  by (simp add: rank_def length_dropWhile_le)

lemma topological_rank:
  assumes "topological adj ord" and "i \<in> set ord" and "d \<in> set (adj i)"
  shows "d \<in> set ord \<and> rank ord d < rank ord i"
  using assms
proof (induction ord)
  case (Cons k ks)
  then show ?case
    using rank_le [of ks d] by (cases "i = k") (auto simp: rank_Cons)
qed simp

lemma topological_acyclic:
  assumes top: "topological adj ord" and dom: "fst ` depends adj \<subseteq> set ord"
  shows "acyclic (depends adj)"
proof -
  have step: "rank ord d < rank ord i" if "(i, d) \<in> depends adj" for i d
    using that topological_rank [OF top] dom by (force simp: depends_def)
  have "rank ord j < rank ord i" if "(i, j) \<in> (depends adj)\<^sup>+" for i j
    using that by (induction rule: trancl_induct) (auto dest!: step)
  then show ?thesis by (force simp: acyclic_def)
qed

section \<open>The search\<close>

text \<open>
  The invariant of the search at a path: the nodes being visited are the path, a walk
  without repetition, and the visited nodes are listed, dependencies last, in \<open>ord\<close>.
\<close>

definition dfs_inv :: "(string \<Rightarrow> string list) \<Rightarrow> string set \<Rightarrow> string list \<Rightarrow> dag_state \<Rightarrow> string list \<Rightarrow> bool" where
  "dfs_inv adj U path st ord \<longleftrightarrow>
     distinct path \<and> set path \<subseteq> U \<and> (\<forall>i. st i = Visiting \<longleftrightarrow> i \<in> set path) \<and>
     (\<forall>i. st i = Visited \<longleftrightarrow> i \<in> set ord) \<and> topological adj ord"

lemma dfs_inv_color:
  assumes "dfs_inv adj U path st ord"
  shows "st i = Visiting \<longleftrightarrow> i \<in> set path" "st i = Visited \<longleftrightarrow> i \<in> set ord"
  using assms by (auto simp: dfs_inv_def)

lemma dfs_inv_enter:
  assumes inv: "dfs_inv adj U path st ord" and new: "st i = Unvisited" and i: "i \<in> U"
  shows "dfs_inv adj U (path @ [i]) (st(i := Visiting)) ord"
proof -
  have "i \<notin> set path" and "i \<notin> set ord"
    using new dfs_inv_color [OF inv, of i] by auto
  with inv i show ?thesis by (simp add: dfs_inv_def)
qed

lemma dfs_inv_leave:
  assumes inv: "dfs_inv adj U (path @ [i]) st ord" and deps: "set (adj i) \<subseteq> set ord"
  shows "dfs_inv adj U path (st(i := Visited)) (i # ord)"
proof -
  have "i \<notin> set ord"
    using dfs_inv_color [OF inv, of i] by auto
  with inv deps show ?thesis by (auto simp: dfs_inv_def)
qed

lemma dfs_inv_length:
  assumes "dfs_inv adj U path st ord" and "finite U"
  shows "length path \<le> card U"
  using assms by (metis dfs_inv_def card_mono distinct_card)

lemma cycle_path_closed:
  assumes "walk adj (path @ [i])" and "i \<in> set path"
  shows "closed_walk adj (cycle_path path i)"
proof -
  obtain ys zs where split: "path = ys @ i # zs" and "i \<notin> set ys"
    using assms(2) by (meson split_list_first)
  then have "\<And>x. x \<in> set ys \<Longrightarrow> x \<noteq> i" by blast
  with split have "cycle_path path i = i # zs @ [i]"
    by (simp add: cycle_path_def)
  moreover have "walk adj (i # zs @ [i])"
    using assms(1) split walk_suffix [of adj ys "i # zs @ [i]"] by simp
  ultimately show ?thesis by (simp add: closed_walk_def)
qed

text \<open>What the search answers: visited nodes with everything asked for among them, or a cycle.\<close>

definition dfs_post :: "(string \<Rightarrow> string list) \<Rightarrow> string set \<Rightarrow> string list \<Rightarrow> string list \<Rightarrow> string list \<Rightarrow>
    (dag_error + dag_state) option \<Rightarrow> bool" where
  "dfs_post adj U path ord want r \<longleftrightarrow>
     (\<exists>st ord'. r = Some (Inr st) \<and> dfs_inv adj U path st ord' \<and> set ord \<union> set want \<subseteq> set ord') \<or>
     (\<exists>c. r = Some (Inl (Cycle c)) \<and> closed_walk adj c)"

lemma dfs_postE:
  assumes "dfs_post adj U path ord want r"
  obtains st ord' where "r = Some (Inr st)" "dfs_inv adj U path st ord'"
      "set ord \<subseteq> set ord'" "set want \<subseteq> set ord'"
  | c where "r = Some (Inl (Cycle c))" "closed_walk adj c"
  using assms by (auto simp: dfs_post_def)

lemma dfs_post_ok:
  "dfs_inv adj U path st ord' \<Longrightarrow> set ord \<subseteq> set ord' \<Longrightarrow> set want \<subseteq> set ord' \<Longrightarrow>
     dfs_post adj U path ord want (Some (Inr st))"
  by (auto simp: dfs_post_def)

lemma dfs_post_cycle:
  "closed_walk adj c \<Longrightarrow> dfs_post adj U path ord want (Some (Inl (Cycle c)))"
  by (auto simp: dfs_post_def)

lemma dfs_correct:
  assumes U: "finite U" "\<And>i. i \<in> U \<Longrightarrow> set (adj i) \<subseteq> U"
  shows "dfs_inv adj U path st ord \<Longrightarrow> node \<in> U \<Longrightarrow> walk adj (path @ [node]) \<Longrightarrow>
      card U < n + length path \<Longrightarrow> dfs_post adj U path ord [node] (dfs adj n path node st)"
    and "dfs_inv adj U path st ord \<Longrightarrow> set ds \<subseteq> U \<Longrightarrow> (\<And>d. d \<in> set ds \<Longrightarrow> walk adj (path @ [d])) \<Longrightarrow>
      card U < n + length path \<Longrightarrow> dfs_post adj U path ord ds (dfs_all adj n path ds st)"
  using U
proof (induction adj n path node st and adj n path ds st arbitrary: ord and ord rule: dfs_dfs_all.induct)
  case (1 adj path node st)
  then show ?case using dfs_inv_length by fastforce
next
  case (2 adj n path node st)
  show ?case
  proof (cases "st node")
    case Unvisited
    have "dfs_inv adj U (path @ [node]) (st(node := Visiting)) ord"
      using 2 Unvisited by (simp add: dfs_inv_enter)
    then have "dfs_post adj U (path @ [node]) ord (adj node)
        (dfs_all adj n (path @ [node]) (adj node) (st(node := Visiting)))"
      using 2 Unvisited by (intro "2.IH") (auto simp: walk_append simp del: fun_upd_apply)
    then show ?thesis
      by (cases rule: dfs_postE)
        (use Unvisited in \<open>auto intro!: dfs_post_ok dfs_post_cycle dest: dfs_inv_leave\<close>)
  next
    case Visiting
    then show ?thesis
      using 2 dfs_inv_color(1) [of adj U path st ord node]
      by (simp add: dfs_post_cycle cycle_path_closed)
  next
    case Visited
    then show ?thesis
      using 2 dfs_inv_color(2) [of adj U path st ord node] by (auto intro!: dfs_post_ok)
  qed
next
  case (3 adj n path st)
  then show ?case by (auto intro: dfs_post_ok)
next
  case (4 adj n path d ds st)
  have "dfs_post adj U path ord [d] (dfs adj n path d st)"
    using 4 by (intro "4.IH"(1)) auto
  then show ?case
  proof (cases rule: dfs_postE)
    case (1 st' ord')
    have "dfs_post adj U path ord' ds (dfs_all adj n path ds st')"
      using 4 1 by (intro "4.IH"(2)) auto
    then show ?thesis
      by (cases rule: dfs_postE) (use 1 in \<open>auto intro!: dfs_post_ok dfs_post_cycle\<close>)
  qed (auto intro: dfs_post_cycle)
qed

lemma dfs_from_correct:
  assumes U: "finite U" "\<And>i. i \<in> U \<Longrightarrow> set (adj i) \<subseteq> U"
    and n: "card U < n"
  shows "dfs_inv adj U [] st ord \<Longrightarrow> set order \<subseteq> U \<Longrightarrow>
    dfs_post adj U [] ord order (dfs_from adj n order st)"
proof (induction order arbitrary: st ord)
  case Nil
  then show ?case by (auto intro: dfs_post_ok)
next
  case (Cons i "is")
  show ?case
  proof (cases "st i = Unvisited")
    case True
    have "dfs_post adj U [] ord [i] (dfs adj n [] i st)"
      using Cons n by (intro dfs_correct(1) U) auto
    then show ?thesis
    proof (cases rule: dfs_postE)
      case (1 st' ord')
      then have "dfs_post adj U [] ord' is (dfs_from adj n is st')" using Cons by simp
      then show ?thesis
        by (cases rule: dfs_postE) (use 1 True in \<open>auto intro!: dfs_post_ok dfs_post_cycle\<close>)
    qed (use True in \<open>auto intro: dfs_post_cycle\<close>)
  next
    case False
    then have i: "i \<in> set ord"
      using dfs_inv_color [OF Cons.prems(1)] by (cases "st i") auto
    have "dfs_post adj U [] ord is (dfs_from adj n is st)" using Cons by simp
    then show ?thesis
      by (cases rule: dfs_postE) (use False i in \<open>auto intro!: dfs_post_ok dfs_post_cycle\<close>)
  qed
qed
section \<open>Correctness\<close>

lemma adjacency_in:
  "d \<in> set (adjacency steps i) \<Longrightarrow> \<exists>deps. (i, deps) \<in> set steps \<and> d \<in> set deps"
  using map_of_SomeD [of "rev steps" i]
  by (cases "map_of (rev steps) i") (auto simp: adjacency_def)

lemma missing_dependency_None:
  "missing_dependency steps = None \<longleftrightarrow> (\<forall>(i, deps) \<in> set steps. set deps \<subseteq> fst ` set steps)"
  by (fastforce simp: missing_dependency_def find_None_iff)

lemma missing_dependency_Some:
  "missing_dependency steps = Some (i, d) \<Longrightarrow>
     \<exists>deps. (i, deps) \<in> set steps \<and> d \<in> set deps \<and> d \<notin> fst ` set steps"
  by (auto simp: missing_dependency_def find_Some_iff nth_eq_iff_index_eq dest!: nth_mem)

lemma depends_adjacency_dom: "fst ` depends (adjacency steps) \<subseteq> fst ` set steps"
  by (force simp: depends_def dest: adjacency_in)

lemma dfs_from_steps:
  assumes "missing_dependency steps = None" and "set order = fst ` set steps"
  shows "dfs_post (adjacency steps) (fst ` set steps) [] [] order
    (dfs_from (adjacency steps) (dag_fuel steps) order (\<lambda>_. Unvisited))"
proof (rule dfs_from_correct)
  show "set (adjacency steps i) \<subseteq> fst ` set steps" for i
    using assms(1) adjacency_in by (fastforce simp: missing_dependency_None)
  have "card (fst ` set steps) \<le> length steps"
    by (metis card_length length_map set_map)
  then show "card (fst ` set steps) < dag_fuel steps" by (simp add: dag_fuel_def)
qed (simp_all add: assms dfs_inv_def)

text \<open>
  C24. Validation always ends.  Whatever order Go's map iteration takes the ids in, it
  accepts exactly the definitions whose dependencies all name a step and whose dependency
  graph has no cycle, and a reported cycle is a walk along dependencies that returns to its
  first step.
\<close>

theorem validate_dag_correct:
  assumes order: "set order = fst ` set steps"
  shows "\<exists>r. validate_dag order steps = Some r \<and>
    (r = None \<longleftrightarrow> (\<forall>(i, deps) \<in> set steps. set deps \<subseteq> fst ` set steps) \<and>
      acyclic (depends (adjacency steps))) \<and>
    (\<forall>c. r = Some (Cycle c) \<longrightarrow> closed_walk (adjacency steps) c)"
proof (cases "missing_dependency steps")
  case None
  from dfs_from_steps [OF None order] show ?thesis
  proof (cases rule: dfs_postE)
    case (1 st ord)
    then have "acyclic (depends (adjacency steps))"
      using depends_adjacency_dom [of steps] order topological_acyclic [of "adjacency steps" ord]
      by (simp add: dfs_inv_def)
    with 1 None show ?thesis by (simp add: validate_dag_def flip: missing_dependency_None)
  next
    case (2 c)
    with None closed_walk_cyclic show ?thesis
      by (simp add: validate_dag_def flip: missing_dependency_None)
  qed
next
  case (Some p)
  then show ?thesis
    by (cases p) (simp add: validate_dag_def flip: missing_dependency_None)
qed

theorem validate_dag_correct_witness:
  "\<exists>c. validate_dag [''a'', ''b'', ''c''] [(''a'', []), (''b'', [''a'', ''c'']), (''c'', [''b''])] = Some (Some (Cycle c)) \<and>
    closed_walk (adjacency [(''a'', []), (''b'', [''a'', ''c'']), (''c'', [''b''])]) c"
proof -
  let ?s = "[(''a'', []), (''b'', [''a'', ''c'']), (''c'', [''b''])] :: dag_step list"
  have run: "validate_dag [''a'', ''b'', ''c''] ?s = Some (Some (Cycle [''b'', ''c'', ''b'']))"
    by code_simp
  have "set [''a'', ''b'', ''c''] = fst ` set ?s" by simp
  from validate_dag_correct [OF this] run show ?thesis by auto
qed

end
