(* ===== verification/Workflow_Engine.thy ===== *)
theory Workflow_Engine
  imports Workflow_Dag Gateway_Policy
begin

text \<open>
  The workflow engine of \<^verbatim>\<open>pkg/agentcontext\<close> (\<open>workflow_engine.go\<close>, \<open>workflow_executor.go\<close>,
  \<open>schema_workflow.go\<close>) for one workflow: the record of the workflow and its steps, every
  section the code runs under the engine's lock as a function on it, and the transition
  system of the goroutines that call them.  Goroutines are of three kinds: loops
  (\<open>executeWorkflow\<close>, the first started by \<open>StartWorkflow\<close> and one more by every
  \<open>ApproveStep\<close>), tasks (\<open>executeStep\<close>) and approval timers; each has a program counter,
  and an action of the system is one locked section of one of them, or an API call.

  A Go map is an association list, its order standing for the iteration order.  What a step
  body gets back from outside (the tool executor, the value of a gate condition, the joined
  outcome of parallel, subflow and map-reduce steps) is the argument \<open>reply\<close> of the action.
\<close>

section \<open>Steps and workflows\<close>

datatype workflow_status =
  WF_Running | WF_Waiting | WF_Completed | WF_Failed | WF_Cancelled | WF_RolledBack

datatype step_status =
  Step_Pending | Step_Running | Step_Completed | Step_Failed | Step_Skipped | Step_Waiting

datatype approval_status = Approval_Pending | Approval_Approved | Approval_Rejected

datatype step_type =
  Type_Tool | Type_Approval | Type_AutoVerify | Type_Gate | Type_Parallel | Type_Subflow
| Type_MapReduce | Type_Other string

type_synonym step_result = "(string \<times> json) list"

record approval_info =
  ap_Status :: approval_status
  ap_DecidedBy :: string
  ap_Comment :: string

record workflow_step =
  st_ID :: string
  st_Name :: string
  st_StepType :: step_type
  st_DependsOn :: "string list"
  st_RequiresApproval :: bool
  st_ApprovalTimeoutSeconds :: int
  st_Condition :: string
  st_MaxRetries :: int
  st_RollbackStepID :: string
  st_Status :: step_status
  st_RetryCount :: int
  st_Error :: string
  st_Result :: "step_result option"
  st_ApprovalInfo :: "approval_info option"

record workflow_definition =
  def_ID :: string
  def_Name :: string
  def_Namespace :: string
  def_Steps :: "workflow_step list"
  def_RollbackOnFailure :: bool
  def_CreatedAt :: time
  def_UpdatedAt :: time

record workflow =
  wf_Definition :: workflow_definition
  wf_Status :: workflow_status
  wf_CurrentStep :: string
  wf_StepStates :: "(string \<times> workflow_step) list"
  wf_done :: bool
  wf_Output :: "(string \<times> step_result) list option"
  wf_Context :: "(string \<times> step_result) list"
  wf_Error :: string
  wf_FailedStepID :: string
  wf_CompletedSteps :: int
  wf_FailedSteps :: int

text \<open>Steps are shared through their pointers, so an assignment to a field is an update of the map.\<close>

definition step_of :: "workflow \<Rightarrow> string \<Rightarrow> workflow_step option" where
  "step_of w i = map_of (wf_StepStates w) i"

definition put_step :: "string \<Rightarrow> workflow_step \<Rightarrow> workflow \<Rightarrow> workflow" where
  "put_step i st w = w\<lparr>wf_StepStates := AList.update i st (wf_StepStates w)\<rparr>"

definition put_context :: "string \<Rightarrow> step_result option \<Rightarrow> workflow \<Rightarrow> workflow" where
  "put_context i r w =
     (case r of None \<Rightarrow> w | Some res \<Rightarrow> w\<lparr>wf_Context := AList.update i res (wf_Context w)\<rparr>)"

section \<open>Registration and start\<close>

datatype engine_error =
  Name_Required | No_Steps | Invalid_Dag dag_error | Step_Not_Found string | Not_Waiting
| Already workflow_status

definition dag_of :: "workflow_step list \<Rightarrow> dag_step list" where
  "dag_of steps = map (\<lambda>st. (st_ID st, st_DependsOn st)) steps"

text \<open>The id given to an unnamed step, from its position; it is given after the validation.\<close>

definition fill_id :: "nat \<Rightarrow> workflow_step \<Rightarrow> workflow_step" where
  "fill_id i st =
     (if st_ID st = '''' then st\<lparr>st_ID := ''step-'' @ dec (i + 1)\<rparr> else st)\<lparr>st_Status := Step_Pending\<rparr>"

definition fill_ids :: "workflow_step list \<Rightarrow> workflow_step list" where
  "fill_ids steps = map2 fill_id [0..<length steps] steps"

type_synonym definitions = "(string \<times> workflow_definition) list"

text \<open>\<open>uid\<close> is the fresh id the code would take, \<open>order\<close> the order \<open>validateDAG\<close> ranges in.\<close>

definition definition_id :: "string \<Rightarrow> definitions \<Rightarrow> workflow_definition \<Rightarrow> string" where
  "definition_id uid defs d =
     (if def_ID d \<noteq> '''' then def_ID d
      else case find (\<lambda>(_, e). def_Name e = def_Name d \<and> def_Namespace e = def_Namespace d) defs of
        Some (i, _) \<Rightarrow> if i \<noteq> '''' then i else uid
      | None \<Rightarrow> uid)"

definition stamp :: "time \<Rightarrow> definitions \<Rightarrow> workflow_definition \<Rightarrow> workflow_definition" where
  "stamp now defs d =
     d\<lparr>def_CreatedAt := (case map_of defs (def_ID d) of Some e \<Rightarrow> def_CreatedAt e | None \<Rightarrow> now),
       def_UpdatedAt := now\<rparr>"

definition register_definition ::
  "string list \<Rightarrow> string \<Rightarrow> time \<Rightarrow> definitions \<Rightarrow> workflow_definition \<Rightarrow>
     (engine_error + definitions \<times> workflow_definition) option" where
  "register_definition order uid now defs d =
     (if def_Name d = '''' then Some (Inl Name_Required)
      else if def_Steps d = [] then Some (Inl No_Steps)
      else case validate_dag order (dag_of (def_Steps d)) of
        None \<Rightarrow> None
      | Some (Some e) \<Rightarrow> Some (Inl (Invalid_Dag e))
      | Some None \<Rightarrow>
          (let d1 = d\<lparr>def_Steps := fill_ids (def_Steps d)\<rparr>;
               d2 = stamp now defs (d1\<lparr>def_ID := definition_id uid defs d1\<rparr>)
           in Some (Inr (AList.update (def_ID d2) d2 defs, d2))))"

text \<open>\<open>StepStates[step.ID] = &stepCopy\<close> over the steps: of two with one id the later stays.\<close>

definition init_states :: "workflow_step list \<Rightarrow> (string \<times> workflow_step) list" where
  "init_states steps =
     fold (\<lambda>st m. AList.update (st_ID st) (st\<lparr>st_Status := Step_Pending\<rparr>) m) steps []"

definition start_workflow :: "workflow_definition \<Rightarrow> workflow" where
  "start_workflow d =
     \<lparr>wf_Definition = d, wf_Status = WF_Running, wf_CurrentStep = '''',
      wf_StepStates = init_states (def_Steps d), wf_done = False, wf_Output = None,
      wf_Context = [], wf_Error = '''', wf_FailedStepID = '''', wf_CompletedSteps = 0,
      wf_FailedSteps = 0\<rparr>"

section \<open>The loop's sections\<close>

definition status_is :: "workflow \<Rightarrow> step_status \<Rightarrow> string \<Rightarrow> bool" where
  "status_is w s i = (case step_of w i of None \<Rightarrow> False | Some st \<Rightarrow> st_Status st = s)"

definition ready :: "workflow \<Rightarrow> workflow_step \<Rightarrow> bool" where
  "ready w st \<longleftrightarrow>
     st_Status st = Step_Pending \<and> (\<forall>d \<in> set (st_DependsOn st). status_is w Step_Completed d)"

definition find_ready_steps :: "workflow \<Rightarrow> string list" where
  "find_ready_steps w = map fst (filter (\<lambda>(_, st). ready w st) (wf_StepStates w))"

definition skip_reason :: "string \<Rightarrow> step_result" where
  "skip_reason d =
     [(''skipped'', JBool True), (''reason'', JStr (''upstream gate '' @ d @ '' evaluated false''))]"

definition skip_one :: "string \<Rightarrow> workflow \<Rightarrow> workflow option" where
  "skip_one i w =
     (case step_of w i of
        None \<Rightarrow> None
      | Some st \<Rightarrow>
          if st_Status st \<noteq> Step_Pending then None
          else case find (status_is w Step_Skipped) (st_DependsOn st) of
            None \<Rightarrow> None
          | Some d \<Rightarrow>
              Some (put_context i (Some (skip_reason d))
                (put_step i (st\<lparr>st_Status := Step_Skipped, st_Result := Some (skip_reason d)\<rparr>) w)
                \<lparr>wf_CompletedSteps := wf_CompletedSteps w + 1\<rparr>))"

fun skip_pass :: "string list \<Rightarrow> workflow \<Rightarrow> bool \<times> workflow" where
  "skip_pass [] w = (False, w)"
| "skip_pass (i # is) w =
     (case skip_one i w of
        None \<Rightarrow> skip_pass is w
      | Some w1 \<Rightarrow> (True, snd (skip_pass is w1)))"

definition pending_count :: "workflow \<Rightarrow> nat" where
  "pending_count w = length (filter (\<lambda>(_, st). st_Status st = Step_Pending) (wf_StepStates w))"

definition all_steps_complete :: "workflow \<Rightarrow> bool" where
  "all_steps_complete w \<longleftrightarrow>
     (\<forall>(_, st) \<in> set (wf_StepStates w). st_Status st \<in> {Step_Completed, Step_Skipped})"

definition any_step_waiting :: "workflow \<Rightarrow> bool" where
  "any_step_waiting w \<longleftrightarrow> (\<exists>(_, st) \<in> set (wf_StepStates w). st_Status st = Step_Waiting)"

definition outputs :: "workflow \<Rightarrow> (string \<times> step_result) list" where
  "outputs w =
     concat (map (\<lambda>(i, st). case st_Result st of None \<Rightarrow> [] | Some r \<Rightarrow> [(i, r)]) (wf_StepStates w))"

definition complete_workflow :: "string option \<Rightarrow> workflow \<Rightarrow> workflow" where
  "complete_workflow err w =
     (case err of
        Some e \<Rightarrow> w\<lparr>wf_Status := WF_Failed, wf_Error := e\<rparr>
      | None \<Rightarrow> w\<lparr>wf_Status := WF_Completed, wf_Output := Some (outputs w)\<rparr>)\<lparr>wf_done := True\<rparr>"

definition deadlock_error :: string where
  "deadlock_error = ''workflow deadlock: no executable steps''"

text \<open>The rollback tools \<open>rollbackWorkflow\<close> calls, in order.\<close>

definition rollback_target :: "workflow \<Rightarrow> workflow_step \<Rightarrow> string list" where
  "rollback_target w d =
     (case step_of w (st_ID d) of
        None \<Rightarrow> []
      | Some st \<Rightarrow>
          if st_Status st = Step_Completed \<and> st_RollbackStepID st \<noteq> '''' then
            (case step_of w (st_RollbackStepID st) of
               None \<Rightarrow> []
             | Some rb \<Rightarrow> if st_StepType rb = Type_Tool then [st_RollbackStepID st] else [])
          else [])"

definition rollback_calls :: "workflow \<Rightarrow> string list" where
  "rollback_calls w = concat (map (rollback_target w) (rev (def_Steps (wf_Definition w))))"

section \<open>The task's sections\<close>

definition begin_step :: "string \<Rightarrow> workflow \<Rightarrow> workflow" where
  "begin_step i w =
     (case step_of w i of
        None \<Rightarrow> w
      | Some st \<Rightarrow> (put_step i (st\<lparr>st_Status := Step_Running\<rparr>) w)\<lparr>wf_CurrentStep := i\<rparr>)"

definition has_approval :: "approval_status \<Rightarrow> workflow_step \<Rightarrow> bool" where
  "has_approval a st = (case st_ApprovalInfo st of None \<Rightarrow> False | Some ap \<Rightarrow> ap_Status ap = a)"

text \<open>Whether \<open>executeStep\<close> asks for an approval instead of running the body.\<close>

definition needs_request :: "workflow_step \<Rightarrow> bool" where
  "needs_request st \<longleftrightarrow>
     st_RequiresApproval st \<and> (st_ApprovalInfo st = None \<or> has_approval Approval_Pending st) \<or>
     st_StepType st = Type_Approval \<and> \<not> has_approval Approval_Approved st"

definition request_approval :: "string \<Rightarrow> workflow \<Rightarrow> workflow" where
  "request_approval i w =
     (case step_of w i of
        None \<Rightarrow> w
      | Some st \<Rightarrow>
          (put_step i (st\<lparr>st_Status := Step_Waiting,
             st_ApprovalInfo := Some \<lparr>ap_Status = Approval_Pending, ap_DecidedBy = '''', ap_Comment = ''''\<rparr>\<rparr>) w)
          \<lparr>wf_Status := WF_Waiting\<rparr>)"

record reply =
  rp_result :: "step_result option"
  rp_error :: "string option"
  rp_condition :: bool

definition flag :: "step_result \<Rightarrow> string \<Rightarrow> bool option" where
  "flag r k = (case map_of r k of Some (JBool b) \<Rightarrow> Some b | _ \<Rightarrow> None)"

definition is_skipped_quality_gate_result :: "step_result option \<Rightarrow> bool" where
  "is_skipped_quality_gate_result r =
     (case r of None \<Rightarrow> False
      | Some m \<Rightarrow> flag m ''skipped'' = Some True \<or> flag m ''unavailable'' = Some True)"

text \<open>\<open>summary\<close> is the text \<open>summarizeQualityGateFailure\<close> makes of the result.\<close>

definition execute_auto_verify_step ::
  "(step_result \<Rightarrow> string) \<Rightarrow> reply \<Rightarrow> step_result option \<times> string option" where
  "execute_auto_verify_step summary r =
     (case rp_error r of
        Some e \<Rightarrow> (None, Some e)
      | None \<Rightarrow>
          if is_skipped_quality_gate_result (rp_result r) then (rp_result r, None)
          else case rp_result r of
            None \<Rightarrow> (None, Some ''auto_verify result missing passed boolean'')
          | Some m \<Rightarrow>
              (case flag m ''passed'' of
                 None \<Rightarrow> (None, Some ''auto_verify result missing passed boolean'')
               | Some False \<Rightarrow> (Some m, Some (''auto_verify failed: '' @ summary m))
               | Some True \<Rightarrow> (Some (AList.update ''auto_verified'' (JBool True) m), None)))"

definition execute_gate_step :: "workflow_step \<Rightarrow> reply \<Rightarrow> step_result" where
  "execute_gate_step st r =
     [(''passed'', JBool (st_Condition st = '''' \<or> rp_condition r))]"

definition approved_by :: "workflow_step \<Rightarrow> string" where
  "approved_by st = (case st_ApprovalInfo st of None \<Rightarrow> '''' | Some ap \<Rightarrow> ap_DecidedBy ap)"

definition step_body ::
  "(step_result \<Rightarrow> string) \<Rightarrow> workflow_step \<Rightarrow> reply \<Rightarrow> step_result option \<times> string option" where
  "step_body summary st r =
     (case st_StepType st of
        Type_AutoVerify \<Rightarrow> execute_auto_verify_step summary r
      | Type_Gate \<Rightarrow> (Some (execute_gate_step st r), None)
      | Type_Approval \<Rightarrow>
          (Some [(''approved'', JBool True), (''approved_by'', JStr (approved_by st))], None)
      | Type_Other t \<Rightarrow> (None, Some (''unknown step type: '' @ t))
      | _ \<Rightarrow> (rp_result r, rp_error r))"

text \<open>What \<open>executeStep\<close> does with the result, under the lock.\<close>

datatype step_end = End_Skipped | End_Retry | End_Failed string | End_Completed

definition step_end_of ::
  "workflow_step \<Rightarrow> step_result option \<Rightarrow> string option \<Rightarrow> step_end" where
  "step_end_of st result err =
     (if st_StepType st = Type_AutoVerify \<and> is_skipped_quality_gate_result result \<and> err = None
      then End_Skipped
      else case err of
        Some e \<Rightarrow> if st_RetryCount st < st_MaxRetries st then End_Retry else End_Failed e
      | None \<Rightarrow>
          if st_StepType st = Type_Gate \<and>
             (case result of None \<Rightarrow> False | Some m \<Rightarrow> flag m ''passed'' = Some False)
          then End_Skipped else End_Completed)"

definition set_result :: "step_result option \<Rightarrow> workflow_step \<Rightarrow> workflow_step" where
  "set_result r st = (case r of None \<Rightarrow> st | Some _ \<Rightarrow> st\<lparr>st_Result := r\<rparr>)"

definition finish_step :: "string \<Rightarrow> step_result option \<Rightarrow> step_end \<Rightarrow> workflow \<Rightarrow> workflow" where
  "finish_step i result fin w =
     (case step_of w i of
        None \<Rightarrow> w
      | Some st0 \<Rightarrow>
          (let st = set_result result st0 in
           case fin of
             End_Skipped \<Rightarrow>
               put_context i result (put_step i (st\<lparr>st_Status := Step_Skipped\<rparr>) w)
                 \<lparr>wf_CompletedSteps := wf_CompletedSteps w + 1\<rparr>
           | End_Retry \<Rightarrow>
               put_step i (st\<lparr>st_RetryCount := st_RetryCount st + 1, st_Status := Step_Pending, st_Error := ''''\<rparr>) w
           | End_Failed e \<Rightarrow>
               (put_step i (st\<lparr>st_Status := Step_Failed, st_Error := e\<rparr>) w)
                 \<lparr>wf_Status := WF_Failed, wf_FailedStepID := i,
                   wf_Error := ''step '' @ st_Name st @ '' failed: '' @ e,
                   wf_FailedSteps := wf_FailedSteps w + 1\<rparr>
           | End_Completed \<Rightarrow>
               put_context i result (put_step i (st\<lparr>st_Status := Step_Completed\<rparr>) w)
                 \<lparr>wf_CompletedSteps := wf_CompletedSteps w + 1\<rparr>))"

text \<open>
  The loop of \<open>propagateSkips\<close>: passes over the steps until one changes nothing; each that
  changes something leaves fewer pending steps.
\<close>

lemma step_of_put_step [simp]: "step_of (put_step i st w) j = (if i = j then Some st else step_of w j)"
  by (simp add: step_of_def put_step_def)

lemma step_of_upd [simp]:
  "step_of (w\<lparr>wf_CompletedSteps := n\<rparr>) = step_of w"
  by (simp add: step_of_def fun_eq_iff)

section \<open>API calls and the approval timer\<close>

definition decide :: "approval_status \<Rightarrow> string \<Rightarrow> string \<Rightarrow> workflow_step \<Rightarrow> workflow_step" where
  "decide a by comment st =
     st\<lparr>st_ApprovalInfo := Some \<lparr>ap_Status = a, ap_DecidedBy = by, ap_Comment = comment\<rparr>\<rparr>"

definition waiting_step :: "workflow \<Rightarrow> string \<Rightarrow> engine_error + workflow_step" where
  "waiting_step w i =
     (case step_of w i of
        None \<Rightarrow> Inl (Step_Not_Found i)
      | Some st \<Rightarrow> if st_Status st \<noteq> Step_Waiting then Inl Not_Waiting else Inr st)"

definition approve_step :: "string \<Rightarrow> string \<Rightarrow> string \<Rightarrow> workflow \<Rightarrow> engine_error + workflow" where
  "approve_step i by comment w =
     (case waiting_step w i of
        Inl e \<Rightarrow> Inl e
      | Inr st \<Rightarrow>
          Inr ((put_step i ((decide Approval_Approved by comment st)\<lparr>st_Status := Step_Pending\<rparr>) w)
            \<lparr>wf_Status := (if wf_Status w = WF_Waiting then WF_Running else wf_Status w)\<rparr>))"

definition reject_step :: "string \<Rightarrow> string \<Rightarrow> string \<Rightarrow> workflow \<Rightarrow> engine_error + workflow" where
  "reject_step i by comment w =
     (case waiting_step w i of
        Inl e \<Rightarrow> Inl e
      | Inr st \<Rightarrow>
          (let err = ''approval rejected: '' @ comment in
           Inr ((put_step i ((decide Approval_Rejected by comment st)
                   \<lparr>st_Status := Step_Failed, st_Error := err\<rparr>) w)
             \<lparr>wf_Status := WF_Failed, wf_FailedStepID := i, wf_Error := err\<rparr>)))"

definition cancel_workflow :: "string \<Rightarrow> workflow \<Rightarrow> engine_error + workflow" where
  "cancel_workflow reason w =
     (if wf_Status w \<in> {WF_Completed, WF_Cancelled} then Inl (Already (wf_Status w))
      else Inr (w\<lparr>wf_Status := WF_Cancelled, wf_Error := reason, wf_done := True\<rparr>))"

text \<open>The timer acts on the step it captured unless its approval is no longer pending.\<close>

definition approval_timeout :: "workflow_step \<Rightarrow> nat" where
  "approval_timeout st =
     (if st_ApprovalTimeoutSeconds st \<le> 0 then 3600 else nat (st_ApprovalTimeoutSeconds st))"

definition time_out :: "string \<Rightarrow> workflow \<Rightarrow> workflow option" where
  "time_out i w =
     (case step_of w i of
        None \<Rightarrow> None
      | Some st \<Rightarrow>
          if \<not> has_approval Approval_Pending st then None
          else Some ((put_step i (st\<lparr>st_Status := Step_Failed,
               st_Error := ''approval timed out after '' @ dec (approval_timeout st) @ ''s''\<rparr>) w)
            \<lparr>wf_Status := WF_Failed, wf_FailedStepID := i,
              wf_Error := ''step '' @ st_Name st @ '': approval timed out'',
              wf_FailedSteps := wf_FailedSteps w + 1\<rparr>))"

end
