(* ===== verification/Workflow_System.thy ===== *)
theory Workflow_System
  imports Workflow_Engine
begin

text \<open>
  The transition system of one workflow: \<open>propagateSkips\<close> to its fixed point, the program
  counters of loops, tasks and approval timers, and their turns.  The log is a record of
  what happened that no turn reads.
\<close>

section \<open>Propagating skips\<close>

lemma length_filter_update:
  assumes "map_of xs i = Some st" and "P (i, st)" and "\<not> P (i, st')"
  shows "length (filter P (AList.update i st' xs)) < length (filter P xs)"
  using assms by (induction xs) (auto split: if_splits)

lemma skip_one_pending:
  assumes "skip_one i w = Some w'"
  shows "pending_count w' < pending_count w"
proof -
  from assms obtain st where st: "map_of (wf_StepStates w) i = Some st" "st_Status st = Step_Pending"
    by (auto simp: skip_one_def step_of_def split: option.splits if_splits)
  then show ?thesis
    using assms length_filter_update [OF st(1), of "\<lambda>(_, st). st_Status st = Step_Pending"]
    by (auto simp: skip_one_def step_of_def pending_count_def put_step_def put_context_def
        split: option.splits if_splits)
qed

lemma skip_pass_pending:
  "pending_count (snd (skip_pass is w)) \<le> pending_count w \<and>
   (fst (skip_pass is w) \<longrightarrow> pending_count (snd (skip_pass is w)) < pending_count w)"
proof (induction "is" w rule: skip_pass.induct)
  case (2 i "is" w)
  then show ?case
    by (cases "skip_one i w") (force dest: skip_one_pending)+
qed simp

function propagate_skips :: "workflow \<Rightarrow> workflow" where
  "propagate_skips w =
     (let p = skip_pass (map fst (wf_StepStates w)) w
      in if fst p then propagate_skips (snd p) else snd p)"
  by pat_completeness auto
termination
  by (relation "measure pending_count") (use skip_pass_pending in auto)

declare propagate_skips.simps [simp del]

section \<open>Turns\<close>

datatype loop_pc =
  L_Check | L_Propagate | L_Find | L_AllDone | L_AnyWaiting | L_SetWaiting
| L_Finish "string option" | L_Wait | L_After | L_Rollback | L_RollbackRun | L_Exit

datatype task_pc = T_Start | T_Dispatch | T_Request | T_Body | T_Sleep

datatype timer = Armed string | Timer_Rollback | Timer_RollbackRun | Timer_Signal

datatype wf_event =
  Ran string | Ended string step_end | Asked string
| Decided string approval_status | TimedOut string | Cancelled | Finished "string option"
| RolledBack "string list"

record wf_system =
  sy_wf :: workflow
  sy_loops :: "loop_pc list"
  sy_tasks :: "(nat \<times> string \<times> task_pc) list"
  sy_timers :: "timer list"
  sy_log :: "wf_event list"

definition log_event :: "wf_event \<Rightarrow> wf_system \<Rightarrow> wf_system" where
  "log_event e s = s\<lparr>sy_log := sy_log s @ [e]\<rparr>"

definition goto :: "nat \<Rightarrow> loop_pc \<Rightarrow> wf_system \<Rightarrow> wf_system" where
  "goto i pc s = s\<lparr>sy_loops := (sy_loops s)[i := pc]\<rparr>"

definition set_wf :: "workflow \<Rightarrow> wf_system \<Rightarrow> wf_system" where
  "set_wf w s = s\<lparr>sy_wf := w\<rparr>"

definition set_status :: "workflow_status \<Rightarrow> wf_system \<Rightarrow> wf_system" where
  "set_status st s = set_wf ((sy_wf s)\<lparr>wf_Status := st\<rparr>) s"

text \<open>One locked section of \<open>executeWorkflow\<close> in the loop number \<open>i\<close>; \<open>wg.Wait\<close> blocks.\<close>

definition loop_at :: "nat \<Rightarrow> loop_pc \<Rightarrow> wf_system \<Rightarrow> wf_system option" where
  "loop_at i pc s =
     (let w = sy_wf s in
      case pc of
        L_Check \<Rightarrow>
          Some (goto i (if wf_Status w \<in> {WF_Cancelled, WF_Failed} then L_Exit else L_Propagate) s)
      | L_Propagate \<Rightarrow> Some (goto i L_Find (set_wf (propagate_skips w) s))
      | L_Find \<Rightarrow>
          (let ids = find_ready_steps w in
           if ids = [] then Some (goto i L_AllDone s)
           else Some ((goto i L_Wait s)\<lparr>sy_tasks := sy_tasks s @ map (\<lambda>j. (i, j, T_Start)) ids\<rparr>))
      | L_AllDone \<Rightarrow> Some (goto i (if all_steps_complete w then L_Finish None else L_AnyWaiting) s)
      | L_AnyWaiting \<Rightarrow>
          Some (goto i (if any_step_waiting w then L_SetWaiting else L_Finish (Some deadlock_error)) s)
      | L_SetWaiting \<Rightarrow> Some (goto i L_Exit (set_status WF_Waiting s))
      | L_Finish e \<Rightarrow> Some (log_event (Finished e) (goto i L_Exit (set_wf (complete_workflow e w) s)))
      | L_Wait \<Rightarrow> if \<exists>t \<in> set (sy_tasks s). fst t = i then None else Some (goto i L_After s)
      | L_After \<Rightarrow>
          Some (goto i (if wf_Status w = WF_Failed
                        then if def_RollbackOnFailure (wf_Definition w) then L_Rollback else L_Exit
                        else L_Check) s)
      | L_Rollback \<Rightarrow> Some (goto i L_RollbackRun (set_status WF_RolledBack s))
      | L_RollbackRun \<Rightarrow> Some (log_event (RolledBack (rollback_calls w)) (goto i L_Exit s))
      | L_Exit \<Rightarrow> None)"

definition loop_turn :: "nat \<Rightarrow> wf_system \<Rightarrow> wf_system option" where
  "loop_turn i s = (if i < length (sy_loops s) then loop_at i (sy_loops s ! i) s else None)"

text \<open>One section of \<open>executeStep\<close>; \<open>k\<close> is the task's place among the live ones.\<close>

definition task_goto :: "nat \<Rightarrow> task_pc \<Rightarrow> wf_system \<Rightarrow> wf_system" where
  "task_goto k pc s =
     s\<lparr>sy_tasks := (sy_tasks s)[k := (fst (sy_tasks s ! k), fst (snd (sy_tasks s ! k)), pc)]\<rparr>"

definition task_exit :: "nat \<Rightarrow> wf_system \<Rightarrow> wf_system" where
  "task_exit k s = s\<lparr>sy_tasks := take k (sy_tasks s) @ drop (Suc k) (sy_tasks s)\<rparr>"

definition commit :: "nat \<Rightarrow> string \<Rightarrow> step_result option \<Rightarrow> step_end \<Rightarrow> wf_system \<Rightarrow> wf_system" where
  "commit k i result fin s =
     (let s' = log_event (Ended i fin) (set_wf (finish_step i result fin (sy_wf s)) s)
      in if fin = End_Retry then task_goto k T_Sleep s' else task_exit k s')"

definition task_at ::
  "(step_result \<Rightarrow> string) \<Rightarrow> reply \<Rightarrow> nat \<Rightarrow> string \<Rightarrow> task_pc \<Rightarrow> wf_system \<Rightarrow> wf_system" where
  "task_at summary r k i pc s =
     (case step_of (sy_wf s) i of
        None \<Rightarrow> task_exit k s
      | Some st \<Rightarrow>
          (case pc of
             T_Start \<Rightarrow> task_goto k T_Dispatch (set_wf (begin_step i (sy_wf s)) s)
           | T_Dispatch \<Rightarrow>
               if needs_request st then task_goto k T_Request s
               else log_event (Ran i) (task_goto k T_Body s)
           | T_Request \<Rightarrow>
               log_event (Asked i)
                 ((task_exit k (set_wf (request_approval i (sy_wf s)) s))
                    \<lparr>sy_timers := sy_timers s @ [Armed i]\<rparr>)
           | T_Body \<Rightarrow>
               (let (result, err) = step_body summary st r
                in commit k i result (step_end_of st result err) s)
           | T_Sleep \<Rightarrow> task_exit k s))"

definition task_turn ::
  "(step_result \<Rightarrow> string) \<Rightarrow> reply \<Rightarrow> nat \<Rightarrow> wf_system \<Rightarrow> wf_system option" where
  "task_turn summary r k s =
     (if k < length (sy_tasks s)
      then Some (task_at summary r k (fst (snd (sy_tasks s ! k))) (snd (snd (sy_tasks s ! k))) s)
      else None)"

text \<open>The goroutine \<open>requestApproval\<close> starts: it fires, rolls back if configured, signals.\<close>

definition timer_exit :: "nat \<Rightarrow> wf_system \<Rightarrow> wf_system" where
  "timer_exit k s = s\<lparr>sy_timers := take k (sy_timers s) @ drop (Suc k) (sy_timers s)\<rparr>"

definition timer_goto :: "nat \<Rightarrow> timer \<Rightarrow> wf_system \<Rightarrow> wf_system" where
  "timer_goto k t s = s\<lparr>sy_timers := (sy_timers s)[k := t]\<rparr>"

definition timer_at :: "nat \<Rightarrow> timer \<Rightarrow> wf_system \<Rightarrow> wf_system" where
  "timer_at k t s =
     (case t of
        Armed i \<Rightarrow>
          (case time_out i (sy_wf s) of
             None \<Rightarrow> timer_exit k s
           | Some w \<Rightarrow>
               log_event (TimedOut i) (timer_goto k
                 (if def_RollbackOnFailure (wf_Definition w) then Timer_Rollback else Timer_Signal) (set_wf w s)))
      | Timer_Rollback \<Rightarrow> timer_goto k Timer_RollbackRun (set_status WF_RolledBack s)
      | Timer_RollbackRun \<Rightarrow>
          log_event (RolledBack (rollback_calls (sy_wf s))) (timer_goto k Timer_Signal s)
      | Timer_Signal \<Rightarrow> timer_exit k (set_wf ((sy_wf s)\<lparr>wf_done := True\<rparr>) s))"

definition timer_turn :: "nat \<Rightarrow> wf_system \<Rightarrow> wf_system option" where
  "timer_turn k s = (if k < length (sy_timers s) then Some (timer_at k (sy_timers s ! k) s) else None)"

text \<open>\<open>ApproveStep\<close> starts one more loop.\<close>

definition approve :: "string \<Rightarrow> string \<Rightarrow> string \<Rightarrow> wf_system \<Rightarrow> wf_system option" where
  "approve i by comment s =
     (case approve_step i by comment (sy_wf s) of
        Inl _ \<Rightarrow> None
      | Inr w \<Rightarrow> Some (log_event (Decided i Approval_Approved)
          ((set_wf w s)\<lparr>sy_loops := sy_loops s @ [L_Check]\<rparr>)))"

definition reject :: "string \<Rightarrow> string \<Rightarrow> string \<Rightarrow> wf_system \<Rightarrow> wf_system option" where
  "reject i by comment s =
     (case reject_step i by comment (sy_wf s) of
        Inl _ \<Rightarrow> None
      | Inr w \<Rightarrow> Some (log_event (Decided i Approval_Rejected) (set_wf w s)))"

definition cancel :: "string \<Rightarrow> wf_system \<Rightarrow> wf_system option" where
  "cancel reason s =
     (case cancel_workflow reason (sy_wf s) of
        Inl _ \<Rightarrow> None
      | Inr w \<Rightarrow> Some (log_event Cancelled (set_wf w s)))"

datatype wf_action =
  Do_Loop nat | Do_Task reply nat | Do_Timer nat
| Do_Approve string string string | Do_Reject string string string | Do_Cancel string

fun turn :: "(step_result \<Rightarrow> string) \<Rightarrow> wf_action \<Rightarrow> wf_system \<Rightarrow> wf_system option" where
  "turn summary (Do_Loop i) s = loop_turn i s"
| "turn summary (Do_Task r k) s = task_turn summary r k s"
| "turn summary (Do_Timer k) s = timer_turn k s"
| "turn summary (Do_Approve i by comment) s = approve i by comment s"
| "turn summary (Do_Reject i by comment) s = reject i by comment s"
| "turn summary (Do_Cancel reason) s = cancel reason s"

definition started :: "workflow_definition \<Rightarrow> wf_system" where
  "started d = \<lparr>sy_wf = start_workflow d, sy_loops = [L_Check], sy_tasks = [], sy_timers = [], sy_log = []\<rparr>"

text \<open>Runs from the start, by the list of their actions.\<close>

fun run :: "(step_result \<Rightarrow> string) \<Rightarrow> wf_action list \<Rightarrow> wf_system \<Rightarrow> wf_system option" where
  "run summary [] s = Some s"
| "run summary (a # as) s = (case turn summary a s of None \<Rightarrow> None | Some s' \<Rightarrow> run summary as s')"

end
