(* ===== verification/Workflow_Order.thy ===== *)
theory Workflow_Order
  imports Workflow_System
begin

text \<open>
  The order a workflow keeps in every interleaving of its loops, tasks, timers and API calls:
  the body of a step runs only after all its dependencies have completed and, where it asks
  for an approval, after somebody has decided.  What an operation may do to the steps is one
  relation on workflows, \<open>evolves\<close>; the invariant follows from it.
\<close>

section \<open>How operations change the steps\<close>

definition static :: "workflow_step \<Rightarrow> string list \<times> bool \<times> int" where
  "static st = (st_DependsOn st, st_RequiresApproval st \<or> st_StepType st = Type_Approval, st_MaxRetries st)"

definition shape :: "workflow \<Rightarrow> string \<Rightarrow> (string list \<times> bool \<times> int) option" where
  "shape w i = map_option static (step_of w i)"

definition decided :: "workflow_step \<Rightarrow> bool" where
  "decided st \<longleftrightarrow> has_approval Approval_Approved st \<or> has_approval Approval_Rejected st"

text \<open>Only the steps in \<open>C\<close> may complete, only those in \<open>A\<close> may become decided.\<close>

definition step_evolves :: "bool \<Rightarrow> bool \<Rightarrow> workflow_step \<Rightarrow> workflow_step \<Rightarrow> bool" where
  "step_evolves c a st st' \<longleftrightarrow>
     static st' = static st \<and>
     (st_Status st' = Step_Completed \<longrightarrow> st_Status st = Step_Completed \<or> c) \<and>
     (decided st' \<longrightarrow> decided st \<or> a)"

definition evolves :: "string set \<Rightarrow> string set \<Rightarrow> workflow \<Rightarrow> workflow \<Rightarrow> bool" where
  "evolves C A w w' \<longleftrightarrow>
     (alist_ok (wf_StepStates w) \<longrightarrow> alist_ok (wf_StepStates w')) \<and>
     (\<forall>i. rel_option (step_evolves (i \<in> C) (i \<in> A)) (step_of w i) (step_of w' i))"

lemma evolves_same [intro]: "wf_StepStates w' = wf_StepStates w \<Longrightarrow> evolves C A w w'"
  by (auto simp: evolves_def step_of_def step_evolves_def intro: option.rel_refl)

lemma evolves_trans:
  assumes "evolves C A u v" and "evolves C A v w"
  shows "evolves C A u w"
  unfolding evolves_def
proof (intro conjI allI)
  from assms show "alist_ok (wf_StepStates u) \<longrightarrow> alist_ok (wf_StepStates w)"
    by (simp add: evolves_def)
next
  fix i
  from assms have "rel_option (step_evolves (i \<in> C) (i \<in> A)) (step_of u i) (step_of v i)"
    and "rel_option (step_evolves (i \<in> C) (i \<in> A)) (step_of v i) (step_of w i)"
    by (simp_all add: evolves_def)
  then show "rel_option (step_evolves (i \<in> C) (i \<in> A)) (step_of u i) (step_of w i)"
    by (cases "step_of u i"; cases "step_of v i"; cases "step_of w i") (auto simp: step_evolves_def)
qed

lemma evolves_shape: "evolves C A w w' \<Longrightarrow> shape w' = shape w"
proof
  fix i assume "evolves C A w w'"
  then have "rel_option (step_evolves (i \<in> C) (i \<in> A)) (step_of w i) (step_of w' i)"
    by (simp add: evolves_def)
  then show "shape w' i = shape w i"
    by (cases rule: option.rel_cases) (auto simp: shape_def step_evolves_def)
qed

lemma evolvesE:
  assumes "evolves C A w w'" and "step_of w' i = Some st'"
  obtains st where "step_of w i = Some st" "step_evolves (i \<in> C) (i \<in> A) st st'"
proof -
  from assms(1) have "rel_option (step_evolves (i \<in> C) (i \<in> A)) (step_of w i) (step_of w' i)"
    by (simp add: evolves_def)
  with assms(2) that show ?thesis by (auto simp: option_rel_Some2)
qed

subsection \<open>Fields the map of steps does not depend on\<close>

lemma step_of_fields [simp]:
  "step_of (w\<lparr>wf_Status := a\<rparr>) = step_of w"
  "step_of (w\<lparr>wf_CurrentStep := b\<rparr>) = step_of w"
  "step_of (w\<lparr>wf_done := c\<rparr>) = step_of w"
  "step_of (w\<lparr>wf_Output := d\<rparr>) = step_of w"
  "step_of (w\<lparr>wf_Context := f\<rparr>) = step_of w"
  "step_of (w\<lparr>wf_Error := g\<rparr>) = step_of w"
  "step_of (w\<lparr>wf_FailedStepID := h\<rparr>) = step_of w"
  "step_of (w\<lparr>wf_FailedSteps := n\<rparr>) = step_of w"
  by (simp_all add: step_of_def fun_eq_iff)

lemma step_of_put_context [simp]: "step_of (put_context i r w) = step_of w"
  by (simp add: put_context_def split: option.split)

lemma wf_StepStates_complete_workflow [simp]: "wf_StepStates (complete_workflow e w) = wf_StepStates w"
  by (simp add: complete_workflow_def split: option.split)

lemma step_of_complete_workflow [simp]: "step_of (complete_workflow e w) = step_of w"
  by (simp add: step_of_def fun_eq_iff)

lemma wf_StepStates_put_context [simp]: "wf_StepStates (put_context i r w) = wf_StepStates w"
  by (simp add: put_context_def split: option.split)

lemma wf_StepStates_put_step [simp]:
  "wf_StepStates (put_step i st w) = AList.update i st (wf_StepStates w)"
  by (simp add: put_step_def)

text \<open>An update of one step, with any update of the other fields.\<close>

lemma evolves_oneI:
  assumes "\<And>j. j \<noteq> i \<Longrightarrow> step_of w' j = step_of w j"
    and "alist_ok (wf_StepStates w) \<longrightarrow> alist_ok (wf_StepStates w')"
    and "rel_option (step_evolves (i \<in> C) (i \<in> A)) (step_of w i) (step_of w' i)"
  shows "evolves C A w w'"
  unfolding evolves_def
proof (intro conjI allI assms(2))
  fix j
  show "rel_option (step_evolves (j \<in> C) (j \<in> A)) (step_of w j) (step_of w' j)"
    using assms by (cases "j = i") (auto simp: step_evolves_def intro: option.rel_refl)
qed

lemma set_result_fields [simp]:
  "st_DependsOn (set_result r st) = st_DependsOn st"
  "st_RequiresApproval (set_result r st) = st_RequiresApproval st"
  "st_StepType (set_result r st) = st_StepType st"
  "st_MaxRetries (set_result r st) = st_MaxRetries st"
  "st_RetryCount (set_result r st) = st_RetryCount st"
  "st_Status (set_result r st) = st_Status st"
  "st_ApprovalInfo (set_result r st) = st_ApprovalInfo st"
  by (simp_all add: set_result_def split: option.split)

lemmas step_facts = step_evolves_def static_def decided_def has_approval_def decide_def

subsection \<open>The operations\<close>

lemma evolves_begin_step: "evolves C A w (begin_step i w)"
  by (rule evolves_oneI [of i])
    (simp_all add: begin_step_def step_facts split: option.split)

lemma evolves_request_approval: "evolves C A w (request_approval i w)"
  by (rule evolves_oneI [of i])
    (simp_all add: request_approval_def step_facts split: option.split)

lemma evolves_time_out: "time_out i w = Some w' \<Longrightarrow> evolves C A w w'"
  by (rule evolves_oneI [of i])
    (auto simp: time_out_def step_facts split: option.splits if_splits)

lemma evolves_finish_step:
  "evolves (if fin = End_Completed then {i} else {}) A w (finish_step i r fin w)"
  by (rule evolves_oneI [of i]; cases "step_of w i"; cases fin)
    (simp_all add: finish_step_def Let_def step_facts)

lemma evolves_skip_one: "skip_one i w = Some w' \<Longrightarrow> evolves C A w w'"
  by (rule evolves_oneI [of i])
    (auto simp: skip_one_def step_facts split: option.splits if_splits)

lemma evolves_skip_pass: "evolves C A w (snd (skip_pass is w))"
proof (induction "is" w rule: skip_pass.induct)
  case (2 i "is" w)
  then show ?case
    by (cases "skip_one i w") (auto intro: evolves_trans evolves_skip_one)
qed auto

lemma evolves_propagate_skips: "evolves C A w (propagate_skips w)"
proof (induction w rule: propagate_skips.induct)
  case (1 w)
  show ?case
    using 1 evolves_skip_pass [of C A w "map fst (wf_StepStates w)"]
    by (subst propagate_skips.simps) (auto simp: Let_def intro: evolves_trans)
qed

lemma waiting_step_Inr: "waiting_step w i = Inr st \<longleftrightarrow> step_of w i = Some st \<and> st_Status st = Step_Waiting"
  by (auto simp: waiting_step_def split: option.split)

lemma evolves_approve_step: "approve_step i b c w = Inr w' \<Longrightarrow> evolves {} {i} w w'"
  by (rule evolves_oneI [of i])
    (auto simp: approve_step_def waiting_step_Inr step_facts split: sum.splits)

lemma evolves_reject_step: "reject_step i b c w = Inr w' \<Longrightarrow> evolves {} {i} w w'"
  by (rule evolves_oneI [of i])
    (auto simp: reject_step_def waiting_step_Inr Let_def step_facts split: sum.splits)

lemma evolves_cancel: "cancel_workflow reason w = Inr w' \<Longrightarrow> evolves C A w w'"
  by (auto simp: cancel_workflow_def split: if_splits)

section \<open>The invariant\<close>

definition deps_done :: "wf_event list \<Rightarrow> string list \<Rightarrow> bool" where
  "deps_done log deps \<longleftrightarrow> (\<forall>d \<in> set deps. Ended d End_Completed \<in> set log)"

definition was_decided :: "wf_event list \<Rightarrow> string \<Rightarrow> bool" where
  "was_decided log i \<longleftrightarrow> Decided i Approval_Approved \<in> set log \<or> Decided i Approval_Rejected \<in> set log"

text \<open>What must have happened before the body of step \<open>i\<close> runs.\<close>

definition may_run :: "(string \<Rightarrow> (string list \<times> bool \<times> int) option) \<Rightarrow> wf_event list \<Rightarrow> string \<Rightarrow> bool" where
  "may_run sh log i =
     (case sh i of None \<Rightarrow> False
      | Some (deps, gated, _) \<Rightarrow> deps_done log deps \<and> (gated \<longrightarrow> was_decided log i))"

definition log_ok :: "(string \<Rightarrow> (string list \<times> bool \<times> int) option) \<Rightarrow> wf_event list \<Rightarrow> bool" where
  "log_ok sh log \<longleftrightarrow> (\<forall>ys i zs. log = ys @ Ran i # zs \<longrightarrow> may_run sh ys i)"

lemma log_ok_Nil [simp]: "log_ok sh []"
  by (simp add: log_ok_def)

lemma log_ok_snoc [simp]:
  "log_ok sh (log @ [e]) \<longleftrightarrow> log_ok sh log \<and> (\<forall>i. e = Ran i \<longrightarrow> may_run sh log i)"
proof
  assume ok: "log_ok sh (log @ [e])"
  have "may_run sh ys i" if "log = ys @ Ran i # zs" for ys i zs
    using ok that unfolding log_ok_def by (metis append.assoc append_Cons)
  with ok show "log_ok sh log \<and> (\<forall>i. e = Ran i \<longrightarrow> may_run sh log i)"
    by (simp add: log_ok_def)
next
  assume ok: "log_ok sh log \<and> (\<forall>i. e = Ran i \<longrightarrow> may_run sh log i)"
  show "log_ok sh (log @ [e])"
    unfolding log_ok_def
  proof (intro allI impI)
    fix ys i zs assume "log @ [e] = ys @ Ran i # zs"
    with ok show "may_run sh ys i"
      by (cases zs rule: rev_cases) (auto simp: log_ok_def)
  qed
qed

definition deps_of :: "workflow \<Rightarrow> string \<Rightarrow> string list" where
  "deps_of w i = (case step_of w i of None \<Rightarrow> [] | Some st \<Rightarrow> st_DependsOn st)"

definition task_ids :: "wf_system \<Rightarrow> string set" where
  "task_ids s = (fst \<circ> snd) ` set (sy_tasks s)"

definition order_inv :: "(string \<Rightarrow> (string list \<times> bool \<times> int) option) \<Rightarrow> wf_system \<Rightarrow> bool" where
  "order_inv sh s \<longleftrightarrow>
     shape (sy_wf s) = sh \<and> alist_ok (wf_StepStates (sy_wf s)) \<and>
     (\<forall>i st. step_of (sy_wf s) i = Some st \<longrightarrow>
        (st_Status st = Step_Completed \<longrightarrow> Ended i End_Completed \<in> set (sy_log s)) \<and>
        (decided st \<longrightarrow> was_decided (sy_log s) i)) \<and>
     (\<forall>i \<in> task_ids s. deps_done (sy_log s) (deps_of (sy_wf s) i)) \<and>
     log_ok sh (sy_log s)"

lemma deps_done_mono: "deps_done log deps \<Longrightarrow> set log \<subseteq> set log' \<Longrightarrow> deps_done log' deps"
  by (auto simp: deps_done_def)

lemma deps_of_shape: "shape w' = shape w \<Longrightarrow> deps_of w' i = deps_of w i"
proof -
  assume "shape w' = shape w"
  then have "map_option static (step_of w' i) = map_option static (step_of w i)"
    by (simp add: shape_def fun_eq_iff)
  then show ?thesis
    by (cases "step_of w i"; cases "step_of w' i") (simp_all add: deps_of_def static_def)
qed

text \<open>A turn keeps the invariant if what it logs covers what it changes.\<close>

lemma order_inv_turn:
  assumes inv: "order_inv sh s"
    and ev: "evolves C A (sy_wf s) (sy_wf s')"
    and log: "sy_log s' = sy_log s @ es" "length es \<le> 1"
    and C: "\<And>i. i \<in> C \<Longrightarrow> Ended i End_Completed \<in> set es"
    and A: "\<And>i. i \<in> A \<Longrightarrow> was_decided es i"
    and ran: "\<And>i. Ran i \<in> set es \<Longrightarrow> may_run sh (sy_log s) i"
    and tasks: "\<And>i. i \<in> task_ids s' \<Longrightarrow> i \<in> task_ids s \<or> deps_done (sy_log s) (deps_of (sy_wf s) i)"
  shows "order_inv sh s'"
proof -
  have sh: "shape (sy_wf s') = shape (sy_wf s)" by (rule evolves_shape [OF ev])
  have "(st_Status st' = Step_Completed \<longrightarrow> Ended i End_Completed \<in> set (sy_log s')) \<and>
      (decided st' \<longrightarrow> was_decided (sy_log s') i)" if st': "step_of (sy_wf s') i = Some st'" for i st'
  proof -
    from ev st' obtain st where "step_of (sy_wf s) i = Some st" "step_evolves (i \<in> C) (i \<in> A) st st'"
      by (rule evolvesE)
    with inv C A log(1) show ?thesis
      by (auto simp: order_inv_def step_evolves_def was_decided_def)
  qed
  moreover have "deps_done (sy_log s') (deps_of (sy_wf s') i)" if "i \<in> task_ids s'" for i
    using tasks [OF that] inv log(1) deps_done_mono [of "sy_log s" _ "sy_log s'"]
    by (auto simp: order_inv_def deps_of_shape [OF sh])
  moreover have "log_ok sh (sy_log s')"
    using inv log ran by (cases es) (auto simp: order_inv_def)
  moreover have "alist_ok (wf_StepStates (sy_wf s'))"
    using inv ev by (simp add: order_inv_def evolves_def)
  ultimately show ?thesis
    using inv sh by (simp add: order_inv_def)
qed

text \<open>The turns that log nothing or only report.\<close>

lemma order_inv_plain:
  assumes "order_inv sh s" and "evolves {} {} (sy_wf s) (sy_wf s')"
    and "sy_log s' = sy_log s \<or> (\<exists>e. sy_log s' = sy_log s @ [e] \<and> (\<forall>i. e \<noteq> Ran i))"
    and "task_ids s' \<subseteq> task_ids s"
  shows "order_inv sh s'"
  using assms(3)
proof
  assume "sy_log s' = sy_log s"
  with assms(4) show ?thesis by (intro order_inv_turn [where es = "[]", OF assms(1,2)]) auto
next
  assume "\<exists>e. sy_log s' = sy_log s @ [e] \<and> (\<forall>i. e \<noteq> Ran i)"
  then obtain e where "sy_log s' = sy_log s @ [e]" "\<forall>i. e \<noteq> Ran i" by blast
  with assms(4) show ?thesis by (intro order_inv_turn [where es = "[e]", OF assms(1,2)]) auto
qed

subsection \<open>Components of the system after a turn\<close>

lemma wf_system_simps [simp]:
  "sy_wf (log_event e s) = sy_wf s" "sy_loops (log_event e s) = sy_loops s"
  "sy_tasks (log_event e s) = sy_tasks s" "sy_timers (log_event e s) = sy_timers s"
  "sy_log (log_event e s) = sy_log s @ [e]"
  "sy_wf (goto i pc s) = sy_wf s" "sy_loops (goto i pc s) = (sy_loops s)[i := pc]"
  "sy_tasks (goto i pc s) = sy_tasks s" "sy_timers (goto i pc s) = sy_timers s"
  "sy_log (goto i pc s) = sy_log s"
  "sy_wf (set_wf w s) = w" "sy_loops (set_wf w s) = sy_loops s"
  "sy_tasks (set_wf w s) = sy_tasks s" "sy_timers (set_wf w s) = sy_timers s"
  "sy_log (set_wf w s) = sy_log s"
  "sy_wf (set_status a s) = (sy_wf s)\<lparr>wf_Status := a\<rparr>" "sy_loops (set_status a s) = sy_loops s"
  "sy_tasks (set_status a s) = sy_tasks s" "sy_timers (set_status a s) = sy_timers s"
  "sy_log (set_status a s) = sy_log s"
  "sy_wf (task_goto k tp s) = sy_wf s" "sy_loops (task_goto k tp s) = sy_loops s"
  "sy_timers (task_goto k tp s) = sy_timers s" "sy_log (task_goto k tp s) = sy_log s"
  "sy_wf (task_exit k s) = sy_wf s" "sy_loops (task_exit k s) = sy_loops s"
  "sy_timers (task_exit k s) = sy_timers s" "sy_log (task_exit k s) = sy_log s"
  "sy_wf (timer_exit k s) = sy_wf s" "sy_loops (timer_exit k s) = sy_loops s"
  "sy_tasks (timer_exit k s) = sy_tasks s" "sy_log (timer_exit k s) = sy_log s"
  "sy_wf (timer_goto k t s) = sy_wf s" "sy_loops (timer_goto k t s) = sy_loops s"
  "sy_tasks (timer_goto k t s) = sy_tasks s" "sy_log (timer_goto k t s) = sy_log s"
  by (simp_all add: log_event_def goto_def set_wf_def set_status_def task_goto_def task_exit_def
      timer_exit_def timer_goto_def)

lemma task_ids_simps [simp]:
  "task_ids (log_event e s) = task_ids s" "task_ids (goto i pc s) = task_ids s"
  "task_ids (set_wf w s) = task_ids s" "task_ids (set_status a s) = task_ids s"
  "task_ids (timer_exit k s) = task_ids s" "task_ids (timer_goto k t s) = task_ids s"
  "task_ids (s\<lparr>sy_loops := ls\<rparr>) = task_ids s" "task_ids (s\<lparr>sy_timers := tms\<rparr>) = task_ids s"
  by (simp_all add: task_ids_def)

lemma task_ids_exit: "task_ids (task_exit k s) \<subseteq> task_ids s"
  by (auto simp: task_ids_def task_exit_def dest: in_set_takeD in_set_dropD)

lemma task_ids_goto: "k < length (sy_tasks s) \<Longrightarrow> task_ids (task_goto k tp s) \<subseteq> task_ids s"
  by (force simp: task_ids_def task_goto_def dest!: set_update_subset_insert [THEN subsetD])

subsection \<open>Every turn keeps it\<close>

lemma find_ready_deps:
  assumes "i \<in> set (find_ready_steps w)" and "alist_ok (wf_StepStates w)" and "d \<in> set (deps_of w i)"
  shows "\<exists>st. step_of w d = Some st \<and> st_Status st = Step_Completed"
proof -
  from assms(1) obtain st where "(i, st) \<in> set (wf_StepStates w)" and r: "ready w st"
    by (auto simp: find_ready_steps_def)
  with assms(2) have "step_of w i = Some st" by (simp add: step_of_def alist_ok_map_of)
  with assms(3) r show ?thesis
    by (force simp: ready_def deps_of_def status_is_def split: option.splits)
qed
lemma task_ids_spawn:
  "task_ids (s\<lparr>sy_tasks := ts @ map (\<lambda>j. (i, j, T_Start)) is\<rparr>) = (fst \<circ> snd) ` set ts \<union> set is"
  by (auto simp: task_ids_def image_iff) force+

lemma order_inv_loop_at:
  assumes inv: "order_inv sh s" and turn: "loop_at i pc s = Some s'"
  shows "order_inv sh s'"
proof (cases pc)
  case L_Find
  show ?thesis
  proof (cases "find_ready_steps (sy_wf s) = []")
    case True
    with turn L_Find have "s' = goto i L_AllDone s" by (simp add: loop_at_def)
    then show ?thesis by - (rule order_inv_plain [OF inv], auto)
  next
    case False
    define s1 where "s1 = (goto i L_Wait s)
      \<lparr>sy_tasks := sy_tasks s @ map (\<lambda>j. (i, j, T_Start)) (find_ready_steps (sy_wf s))\<rparr>"
    from turn L_Find False have s': "s' = s1" by (simp add: loop_at_def s1_def)
    have "deps_done (sy_log s) (deps_of (sy_wf s) j)" if "j \<in> set (find_ready_steps (sy_wf s))" for j
      using find_ready_deps [OF that] inv by (fastforce simp: order_inv_def deps_done_def)
    then have "\<And>j. j \<in> task_ids s1 \<Longrightarrow> j \<in> task_ids s \<or> deps_done (sy_log s) (deps_of (sy_wf s) j)"
      unfolding s1_def task_ids_spawn by (auto simp: task_ids_def)
    then show ?thesis
      unfolding s' by - (rule order_inv_turn [where es = "[]" and C = "{}" and A = "{}", OF inv],
        auto simp: s1_def)
  qed
next
  case L_Propagate
  with turn have "s' = goto i L_Find (set_wf (propagate_skips (sy_wf s)) s)" by (simp add: loop_at_def)
  then show ?thesis
    by - (rule order_inv_plain [OF inv], auto simp: evolves_propagate_skips)
next
  case L_Wait
  with turn have "s' = goto i L_After s" by (auto simp: loop_at_def split: if_splits)
  then show ?thesis by - (rule order_inv_plain [OF inv], auto)
qed (((insert turn, rule order_inv_plain [OF inv]);
      auto simp: loop_at_def Let_def split: if_splits)+)

lemma order_inv_task_at:
  assumes inv: "order_inv sh s" and k: "k < length (sy_tasks s)"
    and i: "i = fst (snd (sy_tasks s ! k))"
  shows "order_inv sh (task_at summary r k i pc s)"
proof (cases "step_of (sy_wf s) i")
  case None
  then show ?thesis
    by - (rule order_inv_plain [OF inv], auto simp: task_at_def dest: task_ids_exit [THEN subsetD])
next
  case (Some st)
  have sub: "task_ids (task_goto k tp u) \<subseteq> task_ids s" "task_ids (task_exit k u) \<subseteq> task_ids s"
    if "sy_tasks u = sy_tasks s" for tp u
    using task_ids_goto [of k u] task_ids_exit [of k u] k that by (simp_all add: task_ids_def)
  have sub': "\<And>j tp. j \<in> task_ids (task_goto k tp u) \<Longrightarrow> j \<in> task_ids s"
    "\<And>j. j \<in> task_ids (task_exit k u) \<Longrightarrow> j \<in> task_ids s" if "sy_tasks u = sy_tasks s" for u
    using sub [OF that] by blast+
  have mine: "i \<in> task_ids s" using k i by (force simp: task_ids_def)
  show ?thesis
  proof (cases pc)
    case T_Start
    with Some inv sub show ?thesis
      by - (rule order_inv_plain [OF inv], simp_all add: task_at_def evolves_begin_step)
  next
    case T_Dispatch
    show ?thesis
    proof (cases "needs_request st")
      case True
      with T_Dispatch Some inv sub show ?thesis
        by - (rule order_inv_plain [OF inv], auto simp: task_at_def)
    next
      case False
      then have "st_RequiresApproval st \<or> st_StepType st = Type_Approval \<Longrightarrow> decided st"
        by (cases "st_ApprovalInfo st"; cases "ap_Status (the (st_ApprovalInfo st))")
          (auto simp: needs_request_def decided_def has_approval_def)
      moreover have "sh i = Some (static st)"
        using inv Some by (auto simp: order_inv_def shape_def)
      moreover have "deps_done (sy_log s) (st_DependsOn st)"
        using inv Some mine by (auto simp: order_inv_def deps_of_def)
      ultimately have "may_run sh (sy_log s) i"
        using inv Some by (auto simp: may_run_def static_def order_inv_def)
      with T_Dispatch Some False sub show ?thesis
        by - (rule order_inv_turn [where es = "[Ran i]" and C = "{}" and A = "{}", OF inv],
          auto simp: task_at_def)
    qed
  next
    case T_Request
    with Some inv sub(2) [of "set_wf (request_approval i (sy_wf s)) s"] show ?thesis
      by - (rule order_inv_plain [OF inv],
        auto simp: task_at_def evolves_request_approval task_ids_def)
  next
    case T_Body
    obtain res err where body: "step_body summary st r = (res, err)" by fastforce
    let ?fin = "step_end_of st res err"
    have "task_at summary r k i pc s = commit k i res ?fin s"
      using T_Body Some body by (simp add: task_at_def)
    moreover have "order_inv sh (commit k i res ?fin s)"
      by (rule order_inv_turn [where es = "[Ended i ?fin]" and A = "{}" and
            C = "if ?fin = End_Completed then {i} else {}", OF inv])
        (use evolves_finish_step [of ?fin i "{}" "sy_wf s" res] in
          \<open>auto simp: commit_def Let_def dest!: sub' [rotated] split: if_splits\<close>)
    ultimately show ?thesis by simp
  next
    case T_Sleep
    with Some inv sub show ?thesis
      by - (rule order_inv_plain [OF inv], auto simp: task_at_def)
  qed
qed

lemma order_inv_timer_at:
  assumes inv: "order_inv sh s"
  shows "order_inv sh (timer_at k t s)"
  by - (rule order_inv_plain [OF inv],
    auto simp: timer_at_def task_ids_def intro: evolves_time_out split: timer.split option.split)

lemma order_inv_api:
  assumes inv: "order_inv sh s"
  shows "approve i b c s = Some s' \<Longrightarrow> order_inv sh s'"
    and "reject i b c s = Some s' \<Longrightarrow> order_inv sh s'"
    and "cancel reason s = Some s' \<Longrightarrow> order_inv sh s'"
proof -
  assume "approve i b c s = Some s'"
  then obtain w where "approve_step i b c (sy_wf s) = Inr w"
    and "s' = log_event (Decided i Approval_Approved) ((set_wf w s)\<lparr>sy_loops := sy_loops s @ [L_Check]\<rparr>)"
    by (auto simp: approve_def split: sum.splits)
  then show "order_inv sh s'"
    by - (rule order_inv_turn [where es = "[Decided i Approval_Approved]" and C = "{}" and A = "{i}", OF inv],
      auto simp: was_decided_def task_ids_def intro: evolves_approve_step)
next
  assume "reject i b c s = Some s'"
  then obtain w where "reject_step i b c (sy_wf s) = Inr w"
    and "s' = log_event (Decided i Approval_Rejected) (set_wf w s)"
    by (auto simp: reject_def split: sum.splits)
  then show "order_inv sh s'"
    by - (rule order_inv_turn [where es = "[Decided i Approval_Rejected]" and C = "{}" and A = "{i}", OF inv],
      auto simp: was_decided_def task_ids_def intro: evolves_reject_step)
next
  assume "cancel reason s = Some s'"
  then obtain w where "cancel_workflow reason (sy_wf s) = Inr w" and "s' = log_event Cancelled (set_wf w s)"
    by (auto simp: cancel_def split: sum.splits)
  then show "order_inv sh s'"
    by - (rule order_inv_plain [OF inv], auto simp: task_ids_def intro: evolves_cancel)
qed

lemma order_inv_step:
  assumes inv: "order_inv sh s" and turn: "turn summary a s = Some s'"
  shows "order_inv sh s'"
proof (cases a)
  case (Do_Loop i)
  with inv turn show ?thesis
    by (auto simp: loop_turn_def intro: order_inv_loop_at split: if_splits)
next
  case (Do_Task r k)
  with inv turn show ?thesis
    by (auto simp: task_turn_def intro: order_inv_task_at split: if_splits)
next
  case (Do_Timer k)
  with inv turn show ?thesis
    by (auto simp: timer_turn_def intro: order_inv_timer_at split: if_splits)
qed (use inv turn in \<open>auto intro: order_inv_api\<close>)

section \<open>Runs\<close>

lemma run_inv:
  assumes "run summary as s = Some s'" and "P s"
    and "\<And>s a s'. P s \<Longrightarrow> a \<in> set as \<Longrightarrow> turn summary a s = Some s' \<Longrightarrow> P s'"
  shows "P s'"
  using assms
proof (induction "as" arbitrary: s)
  case (Cons a "as")
  show ?case
  proof (cases "turn summary a s")
    case (Some u)
    with Cons.prems(1) have "run summary as u = Some s'" by simp
    moreover have "P u" using Cons.prems(2,3) Some by auto
    ultimately show ?thesis using Cons.prems(3) by (rule Cons.IH) auto
  qed (use Cons.prems(1) in simp)
qed simp

text \<open>The states of a definition's steps at the start.\<close>

lemma map_of_init_states:
  "map_of (init_states steps) i =
     map_option (\<lambda>st. st\<lparr>st_Status := Step_Pending\<rparr>) (map_of (map (\<lambda>st. (st_ID st, st)) (rev steps)) i)"
proof -
  have "map_of (fold (\<lambda>st m. AList.update (st_ID st) (st\<lparr>st_Status := Step_Pending\<rparr>) m) steps m) i =
      (case map_of (map (\<lambda>st. (st_ID st, st)) (rev steps)) i of
         None \<Rightarrow> map_of m i | Some st \<Rightarrow> Some (st\<lparr>st_Status := Step_Pending\<rparr>))" for m
  proof (induction steps arbitrary: m)
    case (Cons x xs)
    show ?case
      by (cases "map_of (map (\<lambda>st. (st_ID st, st)) (rev xs)) i") (simp_all add: Cons map_add_def)
  qed simp
  then show ?thesis by (simp add: init_states_def option.case_eq_if map_option_case)
qed

lemma alist_ok_init_states: "alist_ok (init_states steps)"
proof -
  have "alist_ok m \<Longrightarrow>
      alist_ok (fold (\<lambda>st m. AList.update (st_ID st) (st\<lparr>st_Status := Step_Pending\<rparr>) m) steps m)" for m
    by (induction steps arbitrary: m) auto
  then show ?thesis by (simp add: init_states_def)
qed

lemma init_stateD:
  assumes "step_of (start_workflow d) i = Some st"
  obtains st0 where "st0 \<in> set (def_Steps d)" "st_ID st0 = i" "st = st0\<lparr>st_Status := Step_Pending\<rparr>"
  using assms that
  by (auto simp: step_of_def start_workflow_def map_of_init_states dest!: map_of_SomeD)

lemma order_inv_started:
  assumes "\<forall>st \<in> set (def_Steps d). st_ApprovalInfo st = None"
  shows "order_inv (shape (start_workflow d)) (started d)"
proof -
  have "st_Status st \<noteq> Step_Completed \<and> \<not> decided st" if "step_of (start_workflow d) i = Some st" for i st
    using that assms by (elim init_stateD) (simp add: decided_def has_approval_def)
  then show ?thesis
    using alist_ok_init_states by (simp add: order_inv_def started_def task_ids_def start_workflow_def)
qed


subsection \<open>Small workflows\<close>

definition plain_step :: "string \<Rightarrow> step_type \<Rightarrow> string list \<Rightarrow> workflow_step" where
  "plain_step i t deps =
     \<lparr>st_ID = i, st_Name = i, st_StepType = t, st_DependsOn = deps, st_RequiresApproval = False,
      st_ApprovalTimeoutSeconds = 0, st_Condition = '''', st_MaxRetries = 0, st_RollbackStepID = '''',
      st_Status = Step_Pending, st_RetryCount = 0, st_Error = '''', st_Result = None,
      st_ApprovalInfo = None\<rparr>"

definition plain_definition :: "workflow_step list \<Rightarrow> workflow_definition" where
  "plain_definition steps =
     \<lparr>def_ID = ''d'', def_Name = ''demo'', def_Namespace = '''', def_Steps = steps,
      def_RollbackOnFailure = False, def_CreatedAt = 0, def_UpdatedAt = 0\<rparr>"

definition good :: reply where
  "good = \<lparr>rp_result = Some [], rp_error = None, rp_condition = True\<rparr>"

definition bad :: reply where
  "bad = \<lparr>rp_result = None, rp_error = Some ''boom'', rp_condition = False\<rparr>"

text \<open>Two independent steps, the first an approval, and one that needs both.\<close>

definition fork :: workflow_definition where
  "fork = plain_definition [plain_step ''a'' Type_Approval [], plain_step ''b'' Type_Tool [],
     plain_step ''c'' Type_Tool [''a'', ''b'']]"

text \<open>Step \<open>b\<close> starts; \<open>a\<close> is approved while it runs, by a second loop, which completes \<open>a\<close>.\<close>

definition approve_while_running :: "wf_action list" where
  "approve_while_running =
     replicate 3 (Do_Loop 0) @ replicate 5 (Do_Task good 0) @ [Do_Approve ''a'' ''me'' ''''] @
     replicate 3 (Do_Loop 1) @ replicate 3 (Do_Task good 1) @ [Do_Loop 1]"

definition log_after :: "workflow_definition \<Rightarrow> wf_action list \<Rightarrow> wf_event list option" where
  "log_after d as = map_option sy_log (run (\<lambda>_. '''') as (started d))"


text \<open>
  The second loop finds nothing ready while \<open>b\<close> still runs, and nothing waiting: it declares
  a deadlock, which fails a workflow that can complete.
\<close>

lemma approval_while_running_deadlocks:
  "map_option (\<lambda>s. (sy_log s, wf_Status (sy_wf s), map (fst \<circ> snd) (sy_tasks s)))
     (run (\<lambda>_. '''') (approve_while_running @ replicate 7 (Do_Loop 1)) (started fork)) =
   Some ([Asked ''a'', Ran ''b'', Decided ''a'' Approval_Approved, Ran ''a'',
          Ended ''a'' End_Completed, Finished (Some deadlock_error)], WF_Failed, [''b''])"
  by code_simp

text \<open>If \<open>b\<close> ends in time instead, both loops find \<open>c\<close> ready and its body runs twice.\<close>

lemma approval_runs_step_twice:
  "log_after fork (approve_while_running @ [Do_Task good 0] @ replicate 5 (Do_Loop 0) @
       replicate 4 (Do_Loop 1) @ replicate 3 (Do_Task good 0) @ replicate 3 (Do_Task good 0)) =
   Some [Asked ''a'', Ran ''b'', Decided ''a'' Approval_Approved, Ran ''a'', Ended ''a'' End_Completed,
         Ended ''b'' End_Completed, Ran ''c'', Ended ''c'' End_Completed, Ran ''c'', Ended ''c'' End_Completed]"
  by code_simp

text \<open>A cancelled workflow becomes failed when its approval times out, or a running step fails.\<close>

lemma cancel_is_overwritten:
  "map_option (\<lambda>s. (sy_log s, wf_Status (sy_wf s)))
     (run (\<lambda>_. '''') (replicate 3 (Do_Loop 0) @ replicate 5 (Do_Task good 0) @
       [Do_Cancel ''stop'', Do_Timer 0]) (started fork)) =
   Some ([Asked ''a'', Ran ''b'', Cancelled, TimedOut ''a''], WF_Failed)"
  by code_simp

text \<open>An approval the definition itself carries is taken for a decision.\<close>

lemma preset_approval_runs:
  "log_after (plain_definition [(plain_step ''a'' Type_Tool [])
       \<lparr>st_RequiresApproval := True,
        st_ApprovalInfo := Some \<lparr>ap_Status = Approval_Approved, ap_DecidedBy = '''', ap_Comment = ''''\<rparr>\<rparr>])
     (replicate 3 (Do_Loop 0) @ replicate 3 (Do_Task good 0)) =
   Some [Ran ''a'', Ended ''a'' End_Completed]"
  by code_simp

end
