(* ===== verification/Workflow_Liveness.thy ===== *)
theory Workflow_Liveness
  imports Workflow_Order
begin

text \<open>
  Workflows without approvals, which one loop runs: that the loop never declares a deadlock
  for a registered definition whose steps are named, that every run ends and how it ends, and
  that a failed step leaves the completion signal open.  Ending is shown by a measure that
  every turn of the loop or of a task decreases; it counts the attempts the steps have left.
\<close>

section \<open>Tasks and the steps they own\<close>

fun phase :: "task_pc \<Rightarrow> step_status \<Rightarrow> bool" where
  "phase T_Start st = (st = Step_Pending)"
| "phase T_Sleep st = (st = Step_Pending)"
| "phase T_Dispatch st = (st = Step_Running)"
| "phase T_Body st = (st = Step_Running)"
| "phase T_Request st = False"

definition ids_of :: "(nat \<times> string \<times> task_pc) list \<Rightarrow> string list" where
  "ids_of ts = map (fst \<circ> snd) ts"

lemma ids_of_simps [simp]:
  "ids_of [] = []" "ids_of (t # ts) = fst (snd t) # ids_of ts" "ids_of (ts @ us) = ids_of ts @ ids_of us"
  "ids_of (map (\<lambda>j. (l, j, tp)) is) = is"
  by (simp_all add: ids_of_def comp_def)

definition stat :: "workflow \<Rightarrow> string \<Rightarrow> step_status option" where
  "stat w i = map_option st_Status (step_of w i)"

definition task_ok :: "workflow \<Rightarrow> nat \<times> string \<times> task_pc \<Rightarrow> bool" where
  "task_ok w t \<longleftrightarrow>
     fst t = 0 \<and> (\<exists>x. stat w (fst (snd t)) = Some x \<and> phase (snd (snd t)) x)"

definition tasks_ok :: "workflow \<Rightarrow> (nat \<times> string \<times> task_pc) list \<Rightarrow> bool" where
  "tasks_ok w ts \<longleftrightarrow>
     distinct (ids_of ts) \<and> (\<forall>t \<in> set ts. task_ok w t) \<and>
     (\<forall>i. stat w i \<noteq> Some Step_Waiting \<and> (stat w i = Some Step_Running \<longrightarrow> i \<in> set (ids_of ts)))"

lemma in_ids_of: "t \<in> set ts \<Longrightarrow> fst (snd t) \<in> set (ids_of ts)"
  by (simp add: ids_of_def)

lemma task_ok_other: "task_ok w t \<Longrightarrow> stat w' = (stat w)(i \<mapsto> x) \<Longrightarrow> fst (snd t) \<noteq> i \<Longrightarrow> task_ok w' t"
  by (simp add: task_ok_def)

text \<open>The task of step \<open>i\<close> goes on, or ends; the state of no other step changes.\<close>

lemma tasks_ok_others:
  assumes ok: "tasks_ok w (xs @ (l, i, tp) # ys)" and st: "stat w' = (stat w)(i \<mapsto> x)"
    and t: "t \<in> set xs \<union> set ys"
  shows "task_ok w' t"
proof -
  have "fst (snd t) \<noteq> i" using ok t in_ids_of [of t xs] in_ids_of [of t ys] by (auto simp: tasks_ok_def)
  moreover have "task_ok w t" using ok t by (auto simp: tasks_ok_def)
  ultimately show ?thesis using task_ok_other st by blast
qed

lemma tasks_ok_move:
  assumes ok: "tasks_ok w (xs @ (l, i, tp) # ys)" and st: "stat w' = (stat w)(i \<mapsto> x)" and ph: "phase tp' x"
  shows "tasks_ok w' (xs @ (l, i, tp') # ys)"
proof -
  have "x \<noteq> Step_Waiting" using ph by (cases tp') auto
  then have "\<forall>j. stat w' j \<noteq> Some Step_Waiting \<and>
      (stat w' j = Some Step_Running \<longrightarrow> j \<in> set (ids_of (xs @ (l, i, tp') # ys)))"
    using ok st by (simp add: tasks_ok_def) blast
  moreover have "task_ok w' (l, i, tp')"
    using ok st ph by (simp add: tasks_ok_def task_ok_def)
  ultimately show ?thesis
    using ok tasks_ok_others [OF ok st] by (auto simp: tasks_ok_def)
qed

lemma tasks_ok_exit:
  assumes ok: "tasks_ok w (xs @ (l, i, tp) # ys)" and st: "stat w' = (stat w)(i \<mapsto> x)"
    and x: "x \<noteq> Step_Running" "x \<noteq> Step_Waiting"
  shows "tasks_ok w' (xs @ ys)"
proof -
  have "\<forall>j. stat w' j \<noteq> Some Step_Waiting \<and>
      (stat w' j = Some Step_Running \<longrightarrow> j \<in> set (ids_of (xs @ ys)))"
    using ok st x by (simp add: tasks_ok_def) blast
  then show ?thesis
    using ok tasks_ok_others [OF ok st] by (auto simp: tasks_ok_def)
qed

text \<open>The live task number \<open>k\<close>, with what moving or ending it leaves.\<close>

lemma task_split:
  assumes "k < length (sy_tasks s)"
  obtains xs l i tp ys where "sy_tasks s = xs @ (l, i, tp) # ys" "sy_tasks s ! k = (l, i, tp)"
    "\<And>u tp'. sy_tasks u = sy_tasks s \<Longrightarrow> sy_tasks (task_goto k tp' u) = xs @ (l, i, tp') # ys"
    "\<And>u. sy_tasks u = sy_tasks s \<Longrightarrow> sy_tasks (task_exit k u) = xs @ ys"
proof -
  obtain l i tp where nth: "sy_tasks s ! k = (l, i, tp)" by (cases "sy_tasks s ! k")
  let ?xs = "take k (sy_tasks s)" and ?ys = "drop (Suc k) (sy_tasks s)"
  have "sy_tasks s = ?xs @ (l, i, tp) # ?ys"
    using id_take_nth_drop [OF assms] nth by simp
  moreover have "sy_tasks (task_goto k tp' u) = ?xs @ (l, i, tp') # ?ys" if "sy_tasks u = sy_tasks s" for u tp'
    using that nth assms by (simp add: task_goto_def upd_conv_take_nth_drop)
  moreover have "sy_tasks (task_exit k u) = ?xs @ ?ys" if "sy_tasks u = sy_tasks s" for u
    using that by (simp add: task_exit_def)
  ultimately show ?thesis using nth that by blast
qed

section \<open>Operations change one step\<close>

text \<open>The status of one step becomes \<open>x\<close>, the attempts it has left are \<open>n\<close>.\<close>

definition attempts_left :: "workflow_step \<Rightarrow> nat" where
  "attempts_left st = nat (st_MaxRetries st - st_RetryCount st)"

definition left_of :: "workflow \<Rightarrow> string \<Rightarrow> nat" where
  "left_of w i = (case step_of w i of None \<Rightarrow> 0 | Some st \<Rightarrow> attempts_left st)"

definition changes :: "string \<Rightarrow> step_status \<Rightarrow> nat \<Rightarrow> workflow \<Rightarrow> workflow \<Rightarrow> bool" where
  "changes i x n w w' \<longleftrightarrow> stat w' = (stat w)(i \<mapsto> x) \<and> left_of w' = (left_of w)(i := n)"

lemma changes_put:
  assumes "step_of w' = (step_of w)(i \<mapsto> st)"
  shows "changes i (st_Status st) (attempts_left st) w w'"
  using assms by (auto simp: changes_def stat_def left_of_def)

lemma changes_begin_step:
  assumes "step_of w i = Some st"
  shows "changes i Step_Running (attempts_left st) w (begin_step i w)"
proof -
  have "step_of (begin_step i w) = (step_of w)(i \<mapsto> st\<lparr>st_Status := Step_Running\<rparr>)"
    using assms by (auto simp: begin_step_def)
  from changes_put [OF this] show ?thesis by (simp add: attempts_left_def)
qed

fun end_status :: "step_end \<Rightarrow> step_status" where
  "end_status End_Skipped = Step_Skipped"
| "end_status End_Retry = Step_Pending"
| "end_status (End_Failed e) = Step_Failed"
| "end_status End_Completed = Step_Completed"

fun end_left :: "step_end \<Rightarrow> workflow_step \<Rightarrow> nat" where
  "end_left End_Retry st = nat (st_MaxRetries st - (st_RetryCount st + 1))"
| "end_left fin st = attempts_left st"

definition ended_step :: "step_result option \<Rightarrow> step_end \<Rightarrow> workflow_step \<Rightarrow> workflow_step" where
  "ended_step r fin st0 =
     (let st = set_result r st0 in
      case fin of
        End_Skipped \<Rightarrow> st\<lparr>st_Status := Step_Skipped\<rparr>
      | End_Retry \<Rightarrow> st\<lparr>st_RetryCount := st_RetryCount st + 1, st_Status := Step_Pending, st_Error := ''''\<rparr>
      | End_Failed e \<Rightarrow> st\<lparr>st_Status := Step_Failed, st_Error := e\<rparr>
      | End_Completed \<Rightarrow> st\<lparr>st_Status := Step_Completed\<rparr>)"

lemma changes_finish_step:
  assumes "step_of w i = Some st"
  shows "changes i (end_status fin) (end_left fin st) w (finish_step i r fin w)"
proof -
  have "step_of (finish_step i r fin w) = (step_of w)(i \<mapsto> ended_step r fin st)"
    using assms by (cases fin) (auto simp: finish_step_def ended_step_def Let_def)
  moreover have "st_Status (ended_step r fin st) = end_status fin"
    and "attempts_left (ended_step r fin st) = end_left fin st"
    by (cases fin; simp add: ended_step_def Let_def attempts_left_def)+
  ultimately show ?thesis using changes_put by metis
qed

lemma put_fields [simp]:
  "wf_Status (put_context i r w) = wf_Status w" "wf_done (put_context i r w) = wf_done w"
  "wf_Definition (put_context i r w) = wf_Definition w"
  "wf_Status (put_step i st w) = wf_Status w" "wf_done (put_step i st w) = wf_done w"
  "wf_Definition (put_step i st w) = wf_Definition w"
  by (simp_all add: put_context_def put_step_def split: option.split)

lemma finish_step_fields [simp]:
  "wf_done (finish_step i r fin w) = wf_done w"
  "step_of w i = Some st \<Longrightarrow>
     wf_Status (finish_step i r fin w) = (case fin of End_Failed e \<Rightarrow> WF_Failed | _ \<Rightarrow> wf_Status w)"
  by (cases "step_of w i"; cases fin; simp add: finish_step_def Let_def)+

lemma begin_step_fields [simp]:
  "wf_done (begin_step i w) = wf_done w" "wf_Status (begin_step i w) = wf_Status w"
  by (simp_all add: begin_step_def split: option.split)

subsection \<open>Skipping\<close>

text \<open>Every step stays as it is, or was pending and is skipped.\<close>

definition skips :: "workflow \<Rightarrow> workflow \<Rightarrow> bool" where
  "skips w w' \<longleftrightarrow>
     wf_Status w' = wf_Status w \<and> wf_done w' = wf_done w \<and> left_of w' = left_of w \<and>
     (\<forall>i. stat w' i = stat w i \<or> stat w i = Some Step_Pending \<and> stat w' i = Some Step_Skipped)"

lemma skips_refl: "skips w w"
  by (simp add: skips_def)

lemma skips_trans:
  assumes "skips u v" and "skips v w"
  shows "skips u w"
proof -
  have "stat w i = stat u i \<or> stat u i = Some Step_Pending \<and> stat w i = Some Step_Skipped" for i
    using assms unfolding skips_def by (metis (no_types) option.inject step_status.distinct(7))
  with assms show ?thesis by (simp add: skips_def)
qed

lemma skip_one_Some:
  assumes "skip_one i w = Some w'"
  obtains st st' where "step_of w i = Some st" "st_Status st = Step_Pending"
    "st_Status st' = Step_Skipped" "attempts_left st' = attempts_left st"
    "step_of w' = (step_of w)(i \<mapsto> st')" "wf_Status w' = wf_Status w" "wf_done w' = wf_done w"
proof (cases "step_of w i")
  case (Some st)
  with assms obtain d where p: "st_Status st = Step_Pending"
    and w': "w' = (put_context i (Some (skip_reason d))
        (put_step i (st\<lparr>st_Status := Step_Skipped, st_Result := Some (skip_reason d)\<rparr>) w))
        \<lparr>wf_CompletedSteps := wf_CompletedSteps w + 1\<rparr>"
    by (cases "find (status_is w Step_Skipped) (st_DependsOn st)") (auto simp: skip_one_def split: if_splits)
  show ?thesis
    by (rule that [of st "st\<lparr>st_Status := Step_Skipped, st_Result := Some (skip_reason d)\<rparr>"])
      (auto simp: Some p w' attempts_left_def)
qed (use assms in \<open>simp add: skip_one_def\<close>)

lemma skips_skip_one: "skip_one i w = Some w' \<Longrightarrow> skips w w'"
  by (erule skip_one_Some) (auto simp: skips_def stat_def left_of_def)

lemma skips_skip_pass: "skips w (snd (skip_pass is w))"
proof (induction "is" w rule: skip_pass.induct)
  case (2 i "is" w)
  show ?case
  proof (cases "skip_one i w")
    case (Some w')
    then show ?thesis using skips_trans [OF skips_skip_one [OF Some]] 2(2) [OF Some] by simp
  qed (use 2(1) in simp)
qed (simp add: skips_refl)

definition skip_closed :: "workflow \<Rightarrow> bool" where
  "skip_closed w \<longleftrightarrow>
     (\<forall>i st. step_of w i = Some st \<and> st_Status st = Step_Pending \<longrightarrow>
        (\<forall>d \<in> set (st_DependsOn st). stat w d \<noteq> Some Step_Skipped))"

lemma status_is_stat: "status_is w x i \<longleftrightarrow> stat w i = Some x"
  by (simp add: status_is_def stat_def split: option.split)

lemma skip_pass_quiet:
  "\<not> fst (skip_pass is w) \<Longrightarrow> snd (skip_pass is w) = w \<and> (\<forall>i \<in> set is. skip_one i w = None)"
proof (induction "is" w rule: skip_pass.induct)
  case (2 i "is" w)
  then show ?case by (cases "skip_one i w") auto
qed simp

lemma skip_closed_quiet:
  assumes "\<not> fst (skip_pass (map fst (wf_StepStates w)) w)"
  shows "skip_closed w"
  unfolding skip_closed_def
proof (intro allI impI)
  fix i st
  assume st: "step_of w i = Some st \<and> st_Status st = Step_Pending"
  then have "(i, st) \<in> set (wf_StepStates w)" by (auto simp: step_of_def dest: map_of_SomeD)
  then have "skip_one i w = None" using skip_pass_quiet [OF assms] by force
  with st have "find (status_is w Step_Skipped) (st_DependsOn st) = None"
    by (cases "find (status_is w Step_Skipped) (st_DependsOn st)") (simp_all add: skip_one_def)
  then show "\<forall>d \<in> set (st_DependsOn st). stat w d \<noteq> Some Step_Skipped"
    by (auto simp: find_None_iff status_is_stat)
qed

lemma propagate_skips_spec: "skips w (propagate_skips w) \<and> skip_closed (propagate_skips w)"
proof (induction w rule: propagate_skips.induct)
  case (1 w)
  let ?p = "skip_pass (map fst (wf_StepStates w)) w"
  show ?case
  proof (cases "fst ?p")
    case True
    with 1 have "skips (snd ?p) (propagate_skips (snd ?p)) \<and> skip_closed (propagate_skips (snd ?p))" by simp
    moreover have "propagate_skips w = propagate_skips (snd ?p)"
      using True by (subst propagate_skips.simps) (simp add: Let_def)
    ultimately show ?thesis using skips_trans [OF skips_skip_pass [of w "map fst (wf_StepStates w)"]] by metis
  next
    case False
    then have "propagate_skips w = w"
      using skip_pass_quiet [OF False] by (subst propagate_skips.simps) (simp add: Let_def)
    with skip_closed_quiet [OF False] show ?thesis by (simp add: skips_refl)
  qed
qed

lemma tasks_ok_skips:
  assumes "tasks_ok w []" and "skips w w'"
  shows "tasks_ok w' []"
proof -
  have "stat w' i = stat w i \<or> stat w' i = Some Step_Skipped" for i
    using assms(2) by (auto simp: skips_def)
  moreover have "stat w i \<noteq> Some Step_Waiting \<and> stat w i \<noteq> Some Step_Running" for i
    using assms(1) by (simp add: tasks_ok_def)
  ultimately have "stat w' i \<noteq> Some Step_Waiting \<and> stat w' i \<noteq> Some Step_Running" for i
    by (metis option.inject step_status.distinct(15) step_status.simps(28) step_status.simps(18) step_status.simps(30))
  then show ?thesis by (simp add: tasks_ok_def)
qed

section \<open>The invariant of a workflow without approvals\<close>

type_synonym shape = "string \<Rightarrow> (string list \<times> bool \<times> int) option"

definition ungated :: "shape \<Rightarrow> bool" where
  "ungated sh \<longleftrightarrow> (\<forall>i deps g m. sh i = Some (deps, g, m) \<longrightarrow> \<not> g)"

definition dep_rel :: "shape \<Rightarrow> (string \<times> string) set" where
  "dep_rel sh = {(d, i). \<exists>deps g m. sh i = Some (deps, g, m) \<and> d \<in> set deps}"

definition dag_ok :: "shape \<Rightarrow> bool" where
  "dag_ok sh \<longleftrightarrow> wf (dep_rel sh) \<and> (\<forall>(d, i) \<in> dep_rel sh. sh d \<noteq> None)"

definition no_failed :: "workflow \<Rightarrow> bool" where
  "no_failed w \<longleftrightarrow> (\<forall>i. stat w i \<noteq> Some Step_Failed)"

lemma stat_shape: "stat w i = None \<longleftrightarrow> shape w i = None"
  by (simp add: stat_def shape_def)

lemma all_steps_complete_stat:
  assumes "alist_ok (wf_StepStates w)"
  shows "all_steps_complete w \<longleftrightarrow> (\<forall>i x. stat w i = Some x \<longrightarrow> x = Step_Completed \<or> x = Step_Skipped)"
  using assms alist_ok_map_of [of "wf_StepStates w"]
  by (fastforce simp: all_steps_complete_def stat_def step_of_def)

text \<open>
  Where nothing has failed, nothing runs, skips are propagated and nothing is ready,
  everything is done: a pending step minimal in the dependency order would be ready.
\<close>

lemma nothing_ready_all_done:
  assumes dag: "dag_ok (shape w)" and ok: "alist_ok (wf_StepStates w)" and idle: "tasks_ok w []"
    and nf: "no_failed w" and sc: "skip_closed w" and none: "find_ready_steps w = []"
  shows "all_steps_complete w"
proof -
  have done_or_pending: "x \<in> {Step_Pending, Step_Completed, Step_Skipped}" if "stat w i = Some x" for i x
  proof -
    have "x \<noteq> Step_Waiting" "x \<noteq> Step_Running" "x \<noteq> Step_Failed"
      using that idle nf by (auto simp: tasks_ok_def no_failed_def)
    then show ?thesis by (cases x) auto
  qed
  have "stat w i \<noteq> Some Step_Pending" for i
  proof
    assume "stat w i = Some Step_Pending"
    moreover have "wf (dep_rel (shape w))" using dag by (simp add: dag_ok_def)
    ultimately obtain j where j: "stat w j = Some Step_Pending"
      and min: "\<And>d. (d, j) \<in> dep_rel (shape w) \<Longrightarrow> stat w d \<noteq> Some Step_Pending"
      using wfE_min [of "dep_rel (shape w)" i "{i. stat w i = Some Step_Pending}"] by auto
    from j obtain st where st: "step_of w j = Some st" "st_Status st = Step_Pending"
      by (auto simp: stat_def)
    have "status_is w Step_Completed d" if d: "d \<in> set (st_DependsOn st)" for d
    proof -
      have rel: "(d, j) \<in> dep_rel (shape w)"
        using st d by (auto simp: dep_rel_def shape_def static_def)
      with dag have "stat w d \<noteq> None" by (auto simp: dag_ok_def stat_shape)
      then obtain x where x: "stat w d = Some x" by blast
      with done_or_pending [OF x] min [OF rel] sc st d show ?thesis
        by (auto simp: skip_closed_def status_is_stat)
    qed
    with st have "ready w st" by (simp add: ready_def)
    moreover have "(j, st) \<in> set (wf_StepStates w)"
      using st by (auto simp: step_of_def dest: map_of_SomeD)
    ultimately have "j \<in> set (find_ready_steps w)" by (force simp: find_ready_steps_def)
    with none show False by simp
  qed
  with done_or_pending show ?thesis by (fastforce simp: all_steps_complete_stat [OF ok])
qed

definition final :: "workflow_status \<Rightarrow> bool" where
  "final x \<longleftrightarrow> x \<in> {WF_Completed, WF_Failed, WF_Cancelled, WF_RolledBack}"

fun loop_fact :: "loop_pc \<Rightarrow> workflow \<Rightarrow> bool" where
  "loop_fact L_Propagate w = no_failed w"
| "loop_fact L_Find w = (no_failed w \<and> skip_closed w)"
| "loop_fact L_AllDone w = all_steps_complete w"
| "loop_fact L_AnyWaiting w = False"
| "loop_fact L_SetWaiting w = False"
| "loop_fact (L_Finish e) w = (e = None \<and> all_steps_complete w)"
| "loop_fact L_RollbackRun w = (wf_Status w \<in> {WF_RolledBack, WF_Cancelled})"
| "loop_fact L_Exit w = final (wf_Status w)"
| "loop_fact _ w = True"

definition failed_ok :: "loop_pc \<Rightarrow> workflow \<Rightarrow> bool" where
  "failed_ok pc w \<longleftrightarrow>
     no_failed w \<or> pc \<in> {L_RollbackRun, L_Exit} \<or> wf_Status w \<in> {WF_Failed, WF_Cancelled}"

text \<open>The signal without a cancellation, and what the log says of failures and of deadlocks.\<close>

definition done_ok :: "loop_pc \<Rightarrow> wf_event list \<Rightarrow> workflow \<Rightarrow> bool" where
  "done_ok pc log w \<longleftrightarrow>
     (wf_done w \<and> Cancelled \<notin> set log \<longrightarrow> all_steps_complete w \<and> pc = L_Exit)"

definition log_fact :: "wf_event list \<Rightarrow> workflow \<Rightarrow> bool" where
  "log_fact log w \<longleftrightarrow>
     (\<forall>i e. Ended i (End_Failed e) \<in> set log \<longrightarrow> stat w i = Some Step_Failed) \<and>
     (\<forall>e. Finished (Some e) \<notin> set log)"

definition live_at :: "loop_pc \<Rightarrow> wf_system \<Rightarrow> bool" where
  "live_at pc s \<longleftrightarrow>
     (sy_tasks s = [] \<or> pc = L_Wait) \<and> tasks_ok (sy_wf s) (sy_tasks s) \<and>
     loop_fact pc (sy_wf s) \<and> failed_ok pc (sy_wf s) \<and>
     done_ok pc (sy_log s) (sy_wf s) \<and> log_fact (sy_log s) (sy_wf s)"

definition live_inv :: "shape \<Rightarrow> wf_system \<Rightarrow> bool" where
  "live_inv sh s \<longleftrightarrow>
     order_inv sh s \<and> sy_timers s = [] \<and> (\<exists>pc. sy_loops s = [pc] \<and> live_at pc s)"

lemma live_invE:
  assumes "live_inv sh s"
  obtains pc where "sy_loops s = [pc]" "live_at pc s" "order_inv sh s" "sy_timers s = []"
  using assms by (auto simp: live_inv_def)

text \<open>Nothing changes but the program counter.\<close>

lemma all_steps_complete_upd [simp]:
  "all_steps_complete (w\<lparr>wf_Status := a\<rparr>) = all_steps_complete w"
  "all_steps_complete (complete_workflow e w) = all_steps_complete w"
  by (simp_all add: all_steps_complete_def)

lemma stat_upd [simp]:
  "stat (w\<lparr>wf_Status := a\<rparr>) = stat w" "stat (complete_workflow e w) = stat w"
  by (simp_all add: stat_def fun_eq_iff)

lemma tasks_ok_upd [simp]:
  "tasks_ok (w\<lparr>wf_Status := a\<rparr>) ts = tasks_ok w ts" "tasks_ok (complete_workflow e w) ts = tasks_ok w ts"
  by (simp_all add: tasks_ok_def task_ok_def)

lemma log_fact_upd [simp]:
  "log_fact log (w\<lparr>wf_Status := a\<rparr>) = log_fact log w" "log_fact log (complete_workflow e w) = log_fact log w"
  by (simp_all add: log_fact_def)

lemma complete_workflow_None [simp]: "wf_Status (complete_workflow None w) = WF_Completed"
  by (simp add: complete_workflow_def)

lemma log_fact_stat:
  assumes "log_fact log w" and "\<And>i. stat w i = Some Step_Failed \<Longrightarrow> stat w' i = Some Step_Failed"
  shows "log_fact log w'"
  using assms by (auto simp: log_fact_def)

lemma log_fact_snoc:
  "log_fact (log @ [e]) w \<longleftrightarrow> log_fact log w \<and>
     (\<forall>i x. e = Ended i (End_Failed x) \<longrightarrow> stat w i = Some Step_Failed) \<and> (\<forall>x. e \<noteq> Finished (Some x))"
  by (auto simp: log_fact_def)

subsection \<open>Turns of the loop\<close>

lemma skipsD:
  "skips w w' \<Longrightarrow> stat w' i = stat w i \<or> stat w i = Some Step_Pending \<and> stat w' i = Some Step_Skipped"
  by (simp add: skips_def)

lemma no_failed_skips: "no_failed w \<Longrightarrow> skips w w' \<Longrightarrow> no_failed w'"
  unfolding no_failed_def
proof
  fix i assume nf: "\<forall>i. stat w i \<noteq> Some Step_Failed" and "skips w w'"
  from skipsD [OF this(2), of i] nf show "stat w' i \<noteq> Some Step_Failed" by auto
qed

lemma failed_skips: "skips w w' \<Longrightarrow> stat w i = Some Step_Failed \<Longrightarrow> stat w' i = Some Step_Failed"
  using skipsD [of w w' i] by auto

lemma distinct_find_ready: "alist_ok (wf_StepStates w) \<Longrightarrow> distinct (find_ready_steps w)"
  by (auto simp: find_ready_steps_def alist_ok_def intro: distinct_map_filter)

lemma find_ready_pending:
  assumes "i \<in> set (find_ready_steps w)" and "alist_ok (wf_StepStates w)"
  shows "stat w i = Some Step_Pending"
proof -
  from assms(1) obtain st where "(i, st) \<in> set (wf_StepStates w)" "ready w st"
    by (auto simp: find_ready_steps_def)
  with assms(2) have "step_of w i = Some st" "st_Status st = Step_Pending"
    by (simp_all add: step_of_def alist_ok_map_of ready_def)
  then show ?thesis by (simp add: stat_def)
qed

lemma tasks_ok_spawn:
  assumes "tasks_ok w []" and "alist_ok (wf_StepStates w)"
  shows "tasks_ok w (map (\<lambda>j. (0, j, T_Start)) (find_ready_steps w))"
  using assms find_ready_pending [OF _ assms(2)] distinct_find_ready [OF assms(2)]
  by (auto simp: tasks_ok_def task_ok_def)

lemma live_at_goto:
  assumes live: "live_at pc s" and pc: "pc \<noteq> L_Exit" "pc \<noteq> L_RollbackRun"
    and "sy_tasks s = []" and "loop_fact pc' (sy_wf s)" and "pc' \<in> {L_RollbackRun, L_Exit} \<or> failed_ok pc' (sy_wf s)"
  shows "live_at pc' (goto 0 pc' s)"
  using assms by (auto simp: live_at_def done_ok_def failed_ok_def)

lemma live_loop:
  assumes live: "live_at pc s" and loops: "sy_loops s = [pc]" and ord: "order_inv sh s"
    and dag: "dag_ok sh" and turn: "loop_at 0 pc s = Some s'"
  shows "\<exists>pc'. sy_loops s' = [pc'] \<and> live_at pc' s'"
proof -
  let ?w = "sy_wf s"
  have ok: "alist_ok (wf_StepStates ?w)" and sh: "shape ?w = sh"
    using ord by (simp_all add: order_inv_def)
  have idle: "sy_tasks s = []" if "pc \<noteq> L_Wait" using live that by (simp add: live_at_def)
  have goto: ?thesis if "s' = goto 0 pc' s" "pc \<noteq> L_Exit" "pc \<noteq> L_RollbackRun" "sy_tasks s = []"
    "loop_fact pc' ?w" "pc' \<in> {L_RollbackRun, L_Exit} \<or> failed_ok pc' ?w" for pc'
    using live_at_goto [OF live that(2-6)] loops that(1) by simp
  show ?thesis
  proof (cases pc)
    case L_Check
    show ?thesis
    proof (cases "wf_Status ?w \<in> {WF_Cancelled, WF_Failed}")
      case True
      with L_Check turn idle show ?thesis
        by (intro goto [of L_Exit]) (auto simp: loop_at_def final_def)
    next
      case False
      with L_Check turn idle live show ?thesis
        by (intro goto [of L_Propagate]) (auto simp: loop_at_def live_at_def failed_ok_def)
    qed
  next
    case L_Propagate
    let ?w' = "propagate_skips ?w"
    have skips: "skips ?w ?w'" and closed: "skip_closed ?w'" using propagate_skips_spec by blast+
    have s': "s' = goto 0 L_Find (set_wf ?w' s)" using turn L_Propagate by (simp add: loop_at_def)
    have nf: "no_failed ?w'"
      using live L_Propagate no_failed_skips [OF _ skips] by (simp add: live_at_def)
    have "tasks_ok ?w' []"
      using live idle L_Propagate tasks_ok_skips [OF _ skips] by (simp add: live_at_def)
    moreover have "wf_done ?w' = wf_done ?w" using skips by (simp add: skips_def)
    moreover have "log_fact (sy_log s) ?w'"
      using live log_fact_stat failed_skips [OF skips] by (auto simp: live_at_def)
    ultimately show ?thesis
      using live L_Propagate idle nf closed loops
      by (simp add: s' live_at_def failed_ok_def done_ok_def)
  next
    case L_Find
    show ?thesis
    proof (cases "find_ready_steps ?w = []")
      case True
      have "all_steps_complete ?w"
        using nothing_ready_all_done [OF _ ok _ _ _ True] dag sh live idle L_Find
        by (simp add: live_at_def)
      with True L_Find turn idle live show ?thesis
        by (intro goto [of L_AllDone]) (auto simp: loop_at_def live_at_def failed_ok_def)
    next
      case False
      then have "s' = (goto 0 L_Wait s)
          \<lparr>sy_tasks := map (\<lambda>j. (0, j, T_Start)) (find_ready_steps ?w)\<rparr>"
        using turn L_Find idle by (simp add: loop_at_def)
      moreover have "tasks_ok ?w (map (\<lambda>j. (0, j, T_Start)) (find_ready_steps ?w))"
        using tasks_ok_spawn [OF _ ok] live idle L_Find by (simp add: live_at_def)
      ultimately show ?thesis
        using live loops L_Find by (simp add: live_at_def failed_ok_def done_ok_def)
    qed
  next
    case L_AllDone
    with turn idle live show ?thesis
      by (intro goto [of "L_Finish None"]) (auto simp: loop_at_def live_at_def failed_ok_def)
  next
    case (L_Finish e)
    with turn have "s' = log_event (Finished e) (goto 0 L_Exit (set_wf (complete_workflow e ?w) s))"
      by (simp add: loop_at_def)
    with live L_Finish idle loops show ?thesis
      by (simp add: live_at_def failed_ok_def done_ok_def log_fact_snoc final_def)
  next
    case L_Wait
    with turn have none: "\<not> (\<exists>t \<in> set (sy_tasks s). fst t = 0)" and s': "s' = goto 0 L_After s"
      by (auto simp: loop_at_def split: if_splits)
    have "sy_tasks s = []"
    proof (rule ccontr)
      assume "sy_tasks s \<noteq> []"
      then have t: "hd (sy_tasks s) \<in> set (sy_tasks s)" by simp
      with live have "fst (hd (sy_tasks s)) = 0" by (simp add: live_at_def tasks_ok_def task_ok_def)
      with none t show False by blast
    qed
    with L_Wait live s' show ?thesis
      by (intro goto [of L_After]) (auto simp: live_at_def failed_ok_def)
  next
    case L_After
    define next_pc where "next_pc = (if wf_Status ?w = WF_Failed
      then if def_RollbackOnFailure (wf_Definition ?w) then L_Rollback else L_Exit else L_Check)"
    from L_After turn idle live show ?thesis
      by (intro goto [of next_pc])
        (auto simp: next_pc_def loop_at_def live_at_def failed_ok_def final_def)
  next
    case L_Rollback
    with turn have "s' = goto 0 L_RollbackRun (set_status WF_RolledBack s)" by (simp add: loop_at_def)
    with live L_Rollback idle loops show ?thesis
      by (simp add: live_at_def failed_ok_def done_ok_def)
  next
    case L_RollbackRun
    with turn have "s' = log_event (RolledBack (rollback_calls ?w)) (goto 0 L_Exit s)"
      by (simp add: loop_at_def)
    with live L_RollbackRun idle loops show ?thesis
      by (auto simp: live_at_def failed_ok_def done_ok_def log_fact_snoc final_def)
  qed (use turn live in \<open>auto simp: loop_at_def live_at_def\<close>)
qed

subsection \<open>Turns of a task\<close>

lemma needs_no_request:
  assumes "ungated sh" and "shape w = sh" and "step_of w i = Some st"
  shows "\<not> needs_request st"
proof -
  have "sh i = Some (static st)" using assms(2,3) by (auto simp: shape_def)
  with assms(1) have "\<not> (st_RequiresApproval st \<or> st_StepType st = Type_Approval)"
    by (auto simp: ungated_def static_def)
  then show ?thesis by (simp add: needs_request_def)
qed

text \<open>What a task may do between its loop's launch and its end: change its own step.\<close>

lemma live_wait:
  assumes live: "live_at L_Wait s" and ts: "sy_tasks s = xs @ (l, i, tp) # ys"
    and ch: "changes i x n (sy_wf s) (sy_wf s')" and tp: "tp \<noteq> T_Request"
    and tasks: "sy_tasks s' = xs @ (l, i, tp') # ys \<and> phase tp' x \<or>
      sy_tasks s' = xs @ ys \<and> x \<noteq> Step_Running \<and> x \<noteq> Step_Waiting"
    and log: "sy_log s' = sy_log s \<or> (\<exists>e. sy_log s' = sy_log s @ [e] \<and>
      (\<forall>j x'. e = Ended j (End_Failed x') \<longrightarrow> j = i \<and> x = Step_Failed) \<and> (\<forall>x. e \<noteq> Finished (Some x)))"
    and failed: "x = Step_Failed \<longrightarrow> wf_Status (sy_wf s') = WF_Failed"
    and keep: "x \<noteq> Step_Failed \<longrightarrow> wf_Status (sy_wf s') = wf_Status (sy_wf s)"
    and dn: "wf_done (sy_wf s') = wf_done (sy_wf s)"
  shows "live_at L_Wait s'"
proof -
  have st: "stat (sy_wf s') = (stat (sy_wf s))(i \<mapsto> x)" using ch by (simp add: changes_def)
  have ok: "tasks_ok (sy_wf s) (xs @ (l, i, tp) # ys)" using live ts by (simp add: live_at_def)
  then have "stat (sy_wf s) i \<noteq> Some Step_Failed"
    by (cases tp) (auto simp: tasks_ok_def task_ok_def)
  then have kept: "stat (sy_wf s') j = Some Step_Failed" if "stat (sy_wf s) j = Some Step_Failed" for j
    using that st by auto
  have "tasks_ok (sy_wf s') (sy_tasks s')"
    using tasks tasks_ok_move [OF ok st] tasks_ok_exit [OF ok st] by auto
  moreover have "failed_ok L_Wait (sy_wf s')"
  proof (cases "x = Step_Failed")
    case False
    have "no_failed (sy_wf s')" if "no_failed (sy_wf s)"
      using that False st by (simp add: no_failed_def)
    with live False keep show ?thesis by (auto simp: live_at_def failed_ok_def)
  qed (use failed in \<open>simp add: failed_ok_def\<close>)
  moreover have "done_ok L_Wait (sy_log s') (sy_wf s')"
    using live log dn by (auto simp: live_at_def done_ok_def)
  moreover have "log_fact (sy_log s') (sy_wf s')"
  proof -
    have "log_fact (sy_log s) (sy_wf s')"
      using live kept by (auto simp: live_at_def intro: log_fact_stat)
    with log st show ?thesis by (auto simp: log_fact_snoc)
  qed
  ultimately show ?thesis by (simp add: live_at_def)
qed

lemma end_status_Failed [simp]: "end_status fin = Step_Failed \<longleftrightarrow> (\<exists>e. fin = End_Failed e)"
  by (cases fin) simp_all

lemma live_task:
  assumes live: "live_at pc s" and loops: "sy_loops s = [pc]" and ord: "order_inv sh s"
    and ung: "ungated sh" and turn: "task_turn summary r k s = Some s'"
  shows "sy_loops s' = [pc] \<and> live_at pc s' \<and> sy_timers s' = sy_timers s"
proof -
  from turn have k: "k < length (sy_tasks s)" by (simp add: task_turn_def split: if_splits)
  with live have pc: "pc = L_Wait" by (auto simp: live_at_def)
  obtain xs l i tp ys where ts: "sy_tasks s = xs @ (l, i, tp) # ys" and nth: "sy_tasks s ! k = (l, i, tp)"
    and move: "\<And>u tp'. sy_tasks u = sy_tasks s \<Longrightarrow> sy_tasks (task_goto k tp' u) = xs @ (l, i, tp') # ys"
    and exit: "\<And>u. sy_tasks u = sy_tasks s \<Longrightarrow> sy_tasks (task_exit k u) = xs @ ys"
    using k by (rule task_split) blast
  have s': "s' = task_at summary r k i tp s" using turn k nth by (simp add: task_turn_def)
  have ok: "task_ok (sy_wf s) (l, i, tp)" using live ts by (auto simp: live_at_def tasks_ok_def)
  then obtain st where st: "step_of (sy_wf s) i = Some st" and ph: "phase tp (st_Status st)"
    by (auto simp: task_ok_def stat_def)
  note wait = live_wait [OF live [unfolded pc] ts]
  have same: "changes i (st_Status st) (attempts_left st) (sy_wf s) (sy_wf s)"
    using st by (intro changes_put) auto
  show ?thesis
  proof (cases tp)
    case T_Start
    then have eq: "s' = task_goto k T_Dispatch (set_wf (begin_step i (sy_wf s)) s)"
      using s' st by (simp add: task_at_def)
    have "live_at L_Wait s'"
      by (rule wait [where tp' = T_Dispatch, of Step_Running "attempts_left st"])
        (use changes_begin_step [OF st] T_Start in \<open>simp_all add: eq move\<close>)
    with eq loops pc show ?thesis by simp
  next
    case T_Dispatch
    have "\<not> needs_request st"
      using ung ord st by (intro needs_no_request [of sh "sy_wf s"]) (auto simp: order_inv_def)
    with T_Dispatch have eq: "s' = log_event (Ran i) (task_goto k T_Body s)"
      using s' st by (simp add: task_at_def)
    have "live_at L_Wait s'"
      by (rule wait [where tp' = T_Body and x = "st_Status st" and n = "attempts_left st"])
        (use same T_Dispatch ph in \<open>simp_all add: eq move\<close>)
    with eq loops pc show ?thesis by simp
  next
    case T_Body
    obtain res err where body: "step_body summary st r = (res, err)" by fastforce
    define fin where "fin = step_end_of st res err"
    have eq: "s' = commit k i res fin s"
      using T_Body s' st body by (simp add: task_at_def fin_def)
    have w': "sy_wf s' = finish_step i res fin (sy_wf s)" and log': "sy_log s' = sy_log s @ [Ended i fin]"
      and tasks': "sy_tasks s' = (if fin = End_Retry then xs @ (l, i, T_Sleep) # ys else xs @ ys)"
      by (simp_all add: eq commit_def Let_def move exit)
    have "live_at L_Wait s'"
    proof (rule wait [where tp' = T_Sleep and x = "end_status fin" and n = "end_left fin st"])
      show "changes i (end_status fin) (end_left fin st) (sy_wf s) (sy_wf s')"
        unfolding w' by (rule changes_finish_step [OF st])
    qed (use st T_Body in \<open>cases fin; simp add: w' log' tasks'\<close>)+
    with eq loops pc show ?thesis by (simp add: commit_def Let_def)
  next
    case T_Sleep
    then have eq: "s' = task_exit k s" using s' st by (simp add: task_at_def)
    have "live_at L_Wait s'"
      by (rule wait [where tp' = T_Sleep and x = "st_Status st" and n = "attempts_left st"])
        (use same T_Sleep ph in \<open>simp_all add: eq exit\<close>)
    with eq loops pc show ?thesis by simp
  qed (use ph in simp)
qed

subsection \<open>The other actions\<close>

lemma live_cancel:
  assumes live: "live_at pc s" and c: "cancel reason s = Some s'"
  shows "sy_loops s' = sy_loops s \<and> live_at pc s' \<and> sy_timers s' = sy_timers s \<and>
    sy_tasks s' = sy_tasks s \<and> stat (sy_wf s') = stat (sy_wf s) \<and> left_of (sy_wf s') = left_of (sy_wf s)"
proof -
  have s': "s' = log_event Cancelled (set_wf ((sy_wf s)\<lparr>wf_Status := WF_Cancelled, wf_Error := reason, wf_done := True\<rparr>) s)"
    using c by (auto simp: cancel_def cancel_workflow_def split: if_splits)
  let ?w = "sy_wf s'"
  have st: "step_of ?w = step_of (sy_wf s)" by (simp add: s' step_of_def fun_eq_iff)
  then have stat: "stat ?w = stat (sy_wf s)" and left: "left_of ?w = left_of (sy_wf s)"
    by (simp_all add: stat_def left_of_def fun_eq_iff)
  have "loop_fact pc ?w"
  proof -
    have "skip_closed ?w = skip_closed (sy_wf s)" by (simp add: skip_closed_def st stat)
    moreover have "no_failed ?w = no_failed (sy_wf s)" by (simp add: no_failed_def stat)
    moreover have "all_steps_complete ?w = all_steps_complete (sy_wf s)" by (simp add: s' all_steps_complete_def)
    moreover have "wf_Status ?w = WF_Cancelled" by (simp add: s')
    ultimately show ?thesis using live by (cases pc) (auto simp: live_at_def final_def)
  qed
  with live stat left show ?thesis
    by (auto simp: live_at_def s' failed_ok_def done_ok_def log_fact_def tasks_ok_def task_ok_def)
qed

lemma no_waiting:
  assumes "live_at pc s"
  shows "waiting_step (sy_wf s) i = Inr st \<Longrightarrow> False"
proof -
  assume "waiting_step (sy_wf s) i = Inr st"
  then have "stat (sy_wf s) i = Some Step_Waiting" by (simp add: waiting_step_Inr stat_def)
  with assms show False by (simp add: live_at_def tasks_ok_def)
qed

lemma no_decisions:
  assumes "live_at pc s"
  shows "approve i b c s = None" "reject i b c s = None"
  using no_waiting [OF assms]
  by (auto simp: approve_def reject_def approve_step_def reject_step_def split: sum.split)

lemma live_inv_step:
  assumes inv: "live_inv sh s" and ung: "ungated sh" and dag: "dag_ok sh"
    and turn: "turn summary a s = Some s'"
  shows "live_inv sh s'"
proof -
  from inv obtain pc where loops: "sy_loops s = [pc]" and live: "live_at pc s"
    and ord: "order_inv sh s" and tm: "sy_timers s = []" by (rule live_invE)
  have ord': "order_inv sh s'" by (rule order_inv_step [OF ord turn])
  show ?thesis
  proof (cases a)
    case (Do_Loop i)
    with turn loops have l: "loop_at 0 pc s = Some s'"
      by (auto simp: loop_turn_def split: if_splits)
    then have "sy_timers s' = []"
      using tm by (cases pc) (auto simp: loop_at_def Let_def split: if_splits)
    with live_loop [OF live loops ord dag l] ord' show ?thesis by (simp add: live_inv_def)
  next
    case (Do_Task r k)
    with turn live_task [OF live loops ord ung] tm ord' show ?thesis by (simp add: live_inv_def)
  next
    case (Do_Timer k)
    with turn tm show ?thesis by (simp add: timer_turn_def)
  next
    case (Do_Cancel reason)
    with turn live_cancel [OF live] loops tm ord' show ?thesis by (simp add: live_inv_def)
  qed (use turn no_decisions [OF live] in simp_all)
qed

section \<open>The measure\<close>

definition uncommitted :: "(nat \<times> string \<times> task_pc) list \<Rightarrow> string \<Rightarrow> bool" where
  "uncommitted ts i \<longleftrightarrow> (\<exists>t \<in> set ts. fst (snd t) = i \<and> snd (snd t) \<noteq> T_Sleep)"

definition attempts :: "workflow \<Rightarrow> (nat \<times> string \<times> task_pc) list \<Rightarrow> string \<Rightarrow> nat" where
  "attempts w ts i =
     (if uncommitted ts i then left_of w i
      else if stat w i = Some Step_Pending then left_of w i + 1 else 0)"

fun task_weight :: "task_pc \<Rightarrow> nat" where
  "task_weight T_Start = 4" | "task_weight T_Dispatch = 3" | "task_weight T_Body = 2"
| "task_weight T_Sleep = 1" | "task_weight T_Request = 1"

fun loop_weight :: "loop_pc \<Rightarrow> nat" where
  "loop_weight L_Wait = 8" | "loop_weight L_After = 7" | "loop_weight L_Check = 6"
| "loop_weight L_Propagate = 5" | "loop_weight L_Find = 4" | "loop_weight L_AllDone = 3"
| "loop_weight L_AnyWaiting = 2" | "loop_weight L_SetWaiting = 1" | "loop_weight (L_Finish e) = 1"
| "loop_weight L_Rollback = 2" | "loop_weight L_RollbackRun = 1" | "loop_weight L_Exit = 0"

definition tasks_weight :: "(nat \<times> string \<times> task_pc) list \<Rightarrow> nat" where
  "tasks_weight ts = (\<Sum>t \<leftarrow> ts. task_weight (snd (snd t)))"

definition weight :: "string set \<Rightarrow> workflow \<Rightarrow> (nat \<times> string \<times> task_pc) list \<Rightarrow> loop_pc \<Rightarrow> nat" where
  "weight K w ts pc = 9 * sum (attempts w ts) K + tasks_weight ts + loop_weight pc"

lemma tasks_weight_simps [simp]:
  "tasks_weight [] = 0" "tasks_weight (t # ts) = task_weight (snd (snd t)) + tasks_weight ts"
  "tasks_weight (ts @ us) = tasks_weight ts + tasks_weight us"
  "tasks_weight (map (\<lambda>j. (0, j, T_Start)) is) = 4 * length is"
  by (simp_all add: tasks_weight_def comp_def sum_list_triv)

lemma uncommitted_simps [simp]:
  "uncommitted [] i = False"
  "uncommitted (t # ts) i = (fst (snd t) = i \<and> snd (snd t) \<noteq> T_Sleep \<or> uncommitted ts i)"
  "uncommitted (ts @ us) i = (uncommitted ts i \<or> uncommitted us i)"
  "uncommitted (map (\<lambda>j. (0, j, T_Start)) is) i = (i \<in> set is)"
  by (auto simp: uncommitted_def)

lemma weight_mono:
  assumes "\<And>i. i \<in> K \<Longrightarrow> attempts w' ts' i \<le> attempts w ts i"
    and "tasks_weight ts' + loop_weight pc' < tasks_weight ts + loop_weight pc"
  shows "weight K w' ts' pc' < weight K w ts pc"
  using sum_mono [of K "attempts w' ts'" "attempts w ts"] assms by (simp add: weight_def)

lemma uncommitted_ids: "uncommitted ts i \<Longrightarrow> i \<in> set (ids_of ts)"
  unfolding uncommitted_def ids_of_def by force

lemma loop_weight_decreases:
  assumes live: "live_at pc s" and loops: "sy_loops s = [pc]" and ord: "order_inv sh s"
    and dag: "dag_ok sh" and K: "finite K" "\<And>i. stat (sy_wf s) i \<noteq> None \<Longrightarrow> i \<in> K"
    and turn: "loop_at 0 pc s = Some s'" and loops': "sy_loops s' = [pc']"
  shows "weight K (sy_wf s') (sy_tasks s') pc' < weight K (sy_wf s) (sy_tasks s) pc"
proof -
  let ?w = "sy_wf s"
  have idle: "sy_tasks s = []" if "pc \<noteq> L_Wait" using live that by (simp add: live_at_def)
  have ok: "alist_ok (wf_StepStates ?w)" using ord by (simp add: order_inv_def)
  show ?thesis
  proof (cases pc)
    case L_Propagate
    then have s': "s' = goto 0 L_Find (set_wf (propagate_skips ?w) s)"
      using turn by (simp add: loop_at_def)
    have skips: "skips ?w (propagate_skips ?w)" using propagate_skips_spec by blast
    have "left_of (propagate_skips ?w) = left_of ?w" using skips by (simp add: skips_def)
    then have "attempts (propagate_skips ?w) [] i \<le> attempts ?w [] i" for i
      using skipsD [OF skips, of i] by (elim disjE) (simp_all add: attempts_def)
    then show ?thesis
      using s' loops loops' L_Propagate idle by (intro weight_mono) auto
  next
    case L_Find
    show ?thesis
    proof (cases "find_ready_steps ?w = []")
      case True
      with L_Find turn have "s' = goto 0 L_AllDone s" by (simp add: loop_at_def)
      with loops loops' L_Find show ?thesis by (intro weight_mono) auto
    next
      case False
      let ?is = "find_ready_steps ?w" and ?ts = "map (\<lambda>j. (0, j, T_Start)) (find_ready_steps ?w)"
      from L_Find turn False idle have s': "s' = (goto 0 L_Wait s)\<lparr>sy_tasks := ?ts\<rparr>"
        by (simp add: loop_at_def)
      have pend: "stat ?w i = Some Step_Pending" if "i \<in> set ?is" for i
        by (rule find_ready_pending [OF that ok])
      have sub: "set ?is \<subseteq> K" using pend K(2) by fastforce
      have "sum (attempts ?w []) K = sum (\<lambda>i. attempts ?w ?ts i + (if i \<in> set ?is then 1 else 0)) K"
        by (rule sum.cong) (auto simp: attempts_def pend)
      also have "\<dots> = sum (attempts ?w ?ts) K + card (set ?is)"
        using sub K(1) by (simp add: sum.distrib Int_absorb1 flip: sum.inter_restrict)
      also have "card (set ?is) = length ?is"
        by (rule distinct_card) (rule distinct_find_ready [OF ok])
      finally have "sum (attempts ?w []) K = sum (attempts ?w ?ts) K + length ?is" .
      moreover have "1 \<le> length ?is" using False by (cases ?is) auto
      ultimately have "weight K ?w ?ts L_Wait < weight K ?w [] L_Find"
        by (simp add: weight_def)
      with s' loops loops' idle L_Find show ?thesis by simp
    qed
  qed (use turn loops loops' in \<open>(intro weight_mono; auto simp: loop_at_def attempts_def left_of_def Let_def split: if_splits)+\<close>)
qed

text \<open>A turn of a task lowers its own weight and gives no step an attempt.\<close>

lemma attempts_other:
  assumes ok: "tasks_ok w (xs @ (l, i, tp) # ys)" and ch: "changes i x n w w'" and j: "j \<noteq> i"
    and ts: "ts' = xs @ ys \<or> ts' = xs @ (l, i, tp') # ys"
  shows "attempts w' ts' j = attempts w (xs @ (l, i, tp) # ys) j"
  using ts j ch by (auto simp: attempts_def changes_def)

lemma task_weight_decreases:
  assumes live: "live_at pc s" and loops: "sy_loops s = [pc]" and ord: "order_inv sh s"
    and ung: "ungated sh" and turn: "task_turn summary r k s = Some s'"
  shows "weight K (sy_wf s') (sy_tasks s') pc < weight K (sy_wf s) (sy_tasks s) pc"
proof -
  from turn have k: "k < length (sy_tasks s)" by (simp add: task_turn_def split: if_splits)
  obtain xs l i tp ys where ts: "sy_tasks s = xs @ (l, i, tp) # ys" and nth: "sy_tasks s ! k = (l, i, tp)"
    and move: "\<And>u tp'. sy_tasks u = sy_tasks s \<Longrightarrow> sy_tasks (task_goto k tp' u) = xs @ (l, i, tp') # ys"
    and exit: "\<And>u. sy_tasks u = sy_tasks s \<Longrightarrow> sy_tasks (task_exit k u) = xs @ ys"
    using k by (rule task_split) blast
  have s': "s' = task_at summary r k i tp s" using turn k nth by (simp add: task_turn_def)
  have ok: "tasks_ok (sy_wf s) (xs @ (l, i, tp) # ys)" using live ts by (simp add: live_at_def)
  then have fresh: "\<not> uncommitted xs i" "\<not> uncommitted ys i"
    using uncommitted_ids by (auto simp: tasks_ok_def)
  from ok obtain st where st: "step_of (sy_wf s) i = Some st" and ph: "phase tp (st_Status st)"
    by (auto simp: tasks_ok_def task_ok_def stat_def)
  have at: "stat (sy_wf s) i = Some (st_Status st)" "left_of (sy_wf s) i = attempts_left st"
    using st by (simp_all add: stat_def left_of_def)
  have less: ?thesis
    if ch: "changes i x n (sy_wf s) (sy_wf s')"
      and ts': "sy_tasks s' = xs @ ys \<or> sy_tasks s' = xs @ (l, i, tp') # ys"
      and mine: "attempts (sy_wf s') (sy_tasks s') i \<le> attempts (sy_wf s) (sy_tasks s) i"
      and tw: "tasks_weight (sy_tasks s') < tasks_weight (sy_tasks s)" for x n tp'
  proof (rule weight_mono)
    show "attempts (sy_wf s') (sy_tasks s') j \<le> attempts (sy_wf s) (sy_tasks s) j" for j
      using attempts_other [OF ok ch _ ts'] mine ts by (cases "j = i") auto
  qed (use tw in simp)
  have same: "changes i (st_Status st) (attempts_left st) (sy_wf s) (sy_wf s)"
    using st by (intro changes_put) auto
  show ?thesis
  proof (cases tp)
    case T_Start
    then have eq: "s' = task_goto k T_Dispatch (set_wf (begin_step i (sy_wf s)) s)"
      using s' st by (simp add: task_at_def)
    have ch: "changes i Step_Running (attempts_left st) (sy_wf s) (sy_wf s')"
      using changes_begin_step [OF st] by (simp add: eq)
    then show ?thesis
      by (rule less [where tp' = T_Dispatch])
        (use ch T_Start fresh at in \<open>simp_all add: eq move ts attempts_def changes_def\<close>)
  next
    case T_Dispatch
    have "\<not> needs_request st"
      using ung ord st by (intro needs_no_request [of sh "sy_wf s"]) (auto simp: order_inv_def)
    with T_Dispatch have eq: "s' = log_event (Ran i) (task_goto k T_Body s)"
      using s' st by (simp add: task_at_def)
    have "changes i (st_Status st) (attempts_left st) (sy_wf s) (sy_wf s')" using same by (simp add: eq)
    then show ?thesis
      by (rule less [where tp' = T_Body])
        (use T_Dispatch fresh at in \<open>simp_all add: eq move ts attempts_def\<close>)
  next
    case T_Body
    obtain res err where body: "step_body summary st r = (res, err)" by fastforce
    define fin where "fin = step_end_of st res err"
    have eq: "s' = commit k i res fin s"
      using T_Body s' st body by (simp add: task_at_def fin_def)
    have w': "sy_wf s' = finish_step i res fin (sy_wf s)"
      and tasks': "sy_tasks s' = (if fin = End_Retry then xs @ (l, i, T_Sleep) # ys else xs @ ys)"
      by (simp_all add: eq commit_def Let_def move exit)
    have ch: "changes i (end_status fin) (end_left fin st) (sy_wf s) (sy_wf s')"
      unfolding w' by (rule changes_finish_step [OF st])
    have "fin = End_Retry \<Longrightarrow> end_left fin st + 1 = attempts_left st"
      by (auto simp: fin_def step_end_of_def attempts_left_def split: if_splits option.splits)
    then have "attempts (sy_wf s') (sy_tasks s') i \<le> attempts (sy_wf s) (sy_tasks s) i"
      using ch fresh at T_Body ts by (cases fin) (simp_all add: tasks' attempts_def changes_def)
    then show ?thesis
      by (intro less [where tp' = T_Sleep, OF ch]) (use T_Body ts in \<open>simp_all add: tasks'\<close>)
  next
    case T_Sleep
    then have eq: "s' = task_exit k s" using s' st by (simp add: task_at_def)
    have "changes i (st_Status st) (attempts_left st) (sy_wf s) (sy_wf s')" using same by (simp add: eq)
    then show ?thesis
      by (rule less [where tp' = T_Sleep])
        (use T_Sleep fresh at in \<open>simp_all add: eq exit ts attempts_def\<close>)
  qed (use ph in simp)
qed

section \<open>Runs of a registered workflow\<close>

definition internal :: "wf_action \<Rightarrow> bool" where
  "internal a = (case a of Do_Loop _ \<Rightarrow> True | Do_Task _ _ \<Rightarrow> True | _ \<Rightarrow> False)"

definition system_weight :: "string set \<Rightarrow> wf_system \<Rightarrow> nat" where
  "system_weight K s = weight K (sy_wf s) (sy_tasks s) (hd (sy_loops s))"

lemma system_weight_step:
  assumes inv: "live_inv sh s" and ung: "ungated sh" and dag: "dag_ok sh"
    and K: "finite K" "K = {i. sh i \<noteq> None}" and turn: "turn summary a s = Some s'"
  shows "system_weight K s' + (if internal a then 1 else 0) \<le> system_weight K s"
proof -
  from inv obtain pc where loops: "sy_loops s = [pc]" and live: "live_at pc s"
    and ord: "order_inv sh s" and tm: "sy_timers s = []" by (rule live_invE)
  have dom: "stat (sy_wf s) i \<noteq> None \<Longrightarrow> i \<in> K" for i
    using ord K(2) by (simp add: stat_shape order_inv_def)
  show ?thesis
  proof (cases a)
    case (Do_Loop i)
    with turn loops have l: "loop_at 0 pc s = Some s'"
      by (auto simp: loop_turn_def split: if_splits)
    from live_loop [OF live loops ord dag l] obtain pc' where loops': "sy_loops s' = [pc']" by blast
    from loop_weight_decreases [OF live loops ord dag K(1) dom l loops'] show ?thesis
      by (simp add: system_weight_def loops loops' Do_Loop internal_def)
  next
    case (Do_Task r k)
    with turn have t: "task_turn summary r k s = Some s'" by simp
    from live_task [OF live loops ord ung t] task_weight_decreases [OF live loops ord ung t, of K]
    show ?thesis by (simp add: system_weight_def loops Do_Task internal_def)
  next
    case (Do_Timer k)
    with turn tm show ?thesis by (simp add: timer_turn_def)
  next
    case (Do_Cancel reason)
    with turn have "cancel reason s = Some s'" by simp
    from live_cancel [OF live this]
    have "attempts (sy_wf s') (sy_tasks s') = attempts (sy_wf s) (sy_tasks s)"
      and "sy_tasks s' = sy_tasks s" and "sy_loops s' = sy_loops s"
      by (auto simp: attempts_def fun_eq_iff)
    then show ?thesis by (simp add: system_weight_def weight_def Do_Cancel internal_def)
  qed (use turn no_decisions [OF live] in simp_all)
qed

end
