(* ===== verification/Workflow_Runs.thy ===== *)
theory Workflow_Runs
  imports Workflow_Liveness
begin

text \<open>
  From registration to the end of a run: what the validation of a definition gives the
  executor, and the properties of workflows without approvals.  The unnamed steps of a
  definition get their ids after the validation, so the properties ask for named steps; an
  example shows what happens to the others.
\<close>

section \<open>What registration gives\<close>

lemma fill_ids_named:
  assumes "\<forall>st \<in> set steps. st_ID st \<noteq> ''''"
  shows "fill_ids steps = map (\<lambda>st. st\<lparr>st_Status := Step_Pending\<rparr>) steps"
  using assms
  by (auto simp: fill_ids_def fill_id_def intro!: nth_equalityI)

text \<open>The definition as the engine keeps it has the steps that were validated.\<close>

lemma registered:
  assumes reg: "register_definition order uid now defs d0 = Some (Inr (defs', d))"
    and named: "\<forall>st \<in> set (def_Steps d0). st_ID st \<noteq> ''''"
  shows "validate_dag order (dag_of (def_Steps d0)) = Some None \<and>
    def_Steps d = map (\<lambda>st. st\<lparr>st_Status := Step_Pending\<rparr>) (def_Steps d0)"
proof -
  have "validate_dag order (dag_of (def_Steps d0)) = Some None \<and> def_Steps d = fill_ids (def_Steps d0)"
    using reg
    by (auto simp: register_definition_def Let_def stamp_def split: if_splits option.splits)
  with fill_ids_named [OF named] show ?thesis by simp
qed

definition ids_in_order :: "string list \<Rightarrow> workflow_definition \<Rightarrow> bool" where
  "ids_in_order order d \<longleftrightarrow> set order = st_ID ` set (def_Steps d)"

lemma dag_of_ids: "fst ` set (dag_of steps) = st_ID ` set steps"
  by (auto simp: dag_of_def image_iff)

lemma dag_of_pending: "dag_of (map (\<lambda>st. st\<lparr>st_Status := Step_Pending\<rparr>) steps) = dag_of steps"
  by (simp add: dag_of_def)

lemma shape_started:
  "shape (start_workflow d) i = map_option static (map_of (map (\<lambda>st. (st_ID st, st)) (rev (def_Steps d))) i)"
  by (cases "map_of (map (\<lambda>st. (st_ID st, st)) (rev (def_Steps d))) i")
    (simp_all add: shape_def step_of_def start_workflow_def map_of_init_states static_def)

lemma map_of_ids: "map_of (map (\<lambda>x. (k x, f x)) xs) i = map_option f (map_of (map (\<lambda>x. (k x, x)) xs) i)"
  by (induction xs) auto

lemma shape_adjacency:
  assumes "shape (start_workflow d) i = Some (deps, g, m)"
  shows "adjacency (dag_of (def_Steps d)) i = deps"
proof -
  from assms obtain st where "map_of (map (\<lambda>st. (st_ID st, st)) (rev (def_Steps d))) i = Some st"
    and "st_DependsOn st = deps"
    by (auto simp: shape_started static_def)
  then show ?thesis
    using map_of_ids [of st_ID st_DependsOn "rev (def_Steps d)" i]
    by (simp add: adjacency_def dag_of_def rev_map)
qed

lemma shape_dom: "shape (start_workflow d) i \<noteq> None \<longleftrightarrow> i \<in> st_ID ` set (def_Steps d)"
  by (simp add: shape_started map_of_eq_None_iff image_comp comp_def)

text \<open>A validated graph is well founded, and every dependency is a step.\<close>

lemma dag_ok_started:
  assumes valid: "validate_dag order (dag_of (def_Steps d)) = Some None" and order: "ids_in_order order d"
  shows "dag_ok (shape (start_workflow d))"
proof -
  let ?steps = "dag_of (def_Steps d)" and ?sh = "shape (start_workflow d)"
  have "set order = fst ` set ?steps" using order by (simp add: ids_in_order_def dag_of_ids)
  from validate_dag_correct [OF this] valid
  have closed: "\<forall>(i, deps) \<in> set ?steps. set deps \<subseteq> fst ` set ?steps"
    and acyclic: "acyclic (depends (adjacency ?steps))" by auto
  have sub: "dep_rel ?sh \<subseteq> (depends (adjacency ?steps))\<inverse>"
    by (auto simp: dep_rel_def depends_def dest: shape_adjacency)
  have into: "d' \<in> fst ` set ?steps \<and> i \<in> fst ` set ?steps" if "(i, d') \<in> depends (adjacency ?steps)" for i d'
    using that closed adjacency_in [of d' ?steps i] by (force simp: depends_def)
  then have "depends (adjacency ?steps) \<subseteq> fst ` set ?steps \<times> fst ` set ?steps" by auto
  then have "finite (depends (adjacency ?steps))" by (rule finite_subset) simp
  then have "wf ((depends (adjacency ?steps))\<inverse>)"
    using acyclic by (rule finite_acyclic_wf_converse)
  then have "wf (dep_rel ?sh)" using sub by (rule wf_subset)
  moreover have "?sh d' \<noteq> None" if "(d', i) \<in> dep_rel ?sh" for d' i
    using into [of i d'] that sub unfolding shape_dom by (auto simp: dag_of_ids)
  ultimately show ?thesis by (auto simp: dag_ok_def)
qed

section \<open>Workflows without approvals\<close>

definition without_approvals :: "workflow_definition \<Rightarrow> bool" where
  "without_approvals d \<longleftrightarrow>
     (\<forall>st \<in> set (def_Steps d). \<not> st_RequiresApproval st \<and> st_StepType st \<noteq> Type_Approval \<and>
        st_ApprovalInfo st = None)"

lemma ungated_started: "without_approvals d \<Longrightarrow> ungated (shape (start_workflow d))"
  by (auto simp: ungated_def shape_started without_approvals_def static_def dest!: map_of_SomeD)

lemma live_inv_started:
  assumes "without_approvals d"
  shows "live_inv (shape (start_workflow d)) (started d)"
proof -
  have pending: "stat (start_workflow d) i = Some x \<Longrightarrow> x = Step_Pending" for i x
    by (auto simp: stat_def elim!: init_stateD)
  then have "tasks_ok (start_workflow d) []" and "no_failed (start_workflow d)"
    by (fastforce simp: tasks_ok_def no_failed_def)+
  moreover have "order_inv (shape (start_workflow d)) (started d)"
    using assms by (intro order_inv_started) (simp add: without_approvals_def)
  moreover have "\<not> wf_done (start_workflow d)" by (simp add: start_workflow_def)
  ultimately show ?thesis
    by (simp add: live_inv_def started_def live_at_def failed_ok_def done_ok_def log_fact_def)
qed

text \<open>What the properties assume of a definition, in the terms of the engine.\<close>

definition registered_plain :: "string list \<Rightarrow> workflow_definition \<Rightarrow> bool" where
  "registered_plain order d \<longleftrightarrow>
     (\<exists>uid now defs d0 defs'.
        register_definition order uid now defs d0 = Some (Inr (defs', d)) \<and>
        ids_in_order order d0 \<and> without_approvals d0 \<and> (\<forall>st \<in> set (def_Steps d0). st_ID st \<noteq> ''''))"

lemma registered_plainD:
  assumes "registered_plain order d"
  shows "dag_ok (shape (start_workflow d)) \<and> ungated (shape (start_workflow d)) \<and>
    live_inv (shape (start_workflow d)) (started d)"
proof -
  from assms obtain uid now defs d0 defs'
    where reg: "register_definition order uid now defs d0 = Some (Inr (defs', d))"
      and order: "ids_in_order order d0" and plain: "without_approvals d0"
      and named: "\<forall>st \<in> set (def_Steps d0). st_ID st \<noteq> ''''"
    unfolding registered_plain_def by blast
  from registered [OF reg named]
  have valid: "validate_dag order (dag_of (def_Steps d0)) = Some None"
    and steps: "def_Steps d = map (\<lambda>st. st\<lparr>st_Status := Step_Pending\<rparr>) (def_Steps d0)" by blast+
  have "validate_dag order (dag_of (def_Steps d)) = Some None"
    using valid steps by (simp add: dag_of_pending)
  moreover have "ids_in_order order d" using order steps by (simp add: ids_in_order_def image_comp)
  moreover have "without_approvals d" using plain steps by (simp add: without_approvals_def)
  ultimately show ?thesis by (simp add: dag_ok_started ungated_started live_inv_started)
qed

lemma live_inv_run:
  assumes "registered_plain order d" and "run summary as (started d) = Some s"
  shows "live_inv (shape (start_workflow d)) s"
proof (rule run_inv [OF assms(2)])
  show "live_inv (shape (start_workflow d)) (started d)" using registered_plainD [OF assms(1)] by blast
next
  fix u a u'
  assume "live_inv (shape (start_workflow d)) u" "turn summary a u = Some u'"
  with registered_plainD [OF assms(1)] live_inv_step show "live_inv (shape (start_workflow d)) u'" by blast
qed

subsection \<open>Ending\<close>

text \<open>The number of turns the loop and the tasks of a started workflow can take.\<close>

definition turn_bound :: "workflow_definition \<Rightarrow> nat" where
  "turn_bound d = system_weight (st_ID ` set (def_Steps d)) (started d)"

lemma run_weight:
  assumes inv: "live_inv sh s" and ung: "ungated sh" and dag: "dag_ok sh"
    and K: "finite K" "K = {i. sh i \<noteq> None}" and run: "run summary as s = Some s'"
  shows "system_weight K s' + length (filter internal as) \<le> system_weight K s"
  using inv run
proof (induction "as" arbitrary: s)
  case (Cons a "as")
  show ?case
  proof (cases "turn summary a s")
    case (Some u)
    with Cons.prems(2) have "run summary as u = Some s'" by simp
    moreover have "live_inv sh u" by (rule live_inv_step [OF Cons.prems(1) ung dag Some])
    ultimately show ?thesis
      using Cons.IH system_weight_step [OF Cons.prems(1) ung dag K Some] by fastforce
  qed (use Cons.prems(2) in simp)
qed simp

text \<open>Neither the loop nor a task can take a turn.\<close>

definition quiescent :: "wf_system \<Rightarrow> bool" where
  "quiescent s \<longleftrightarrow> sy_tasks s = [] \<and> (\<forall>i < length (sy_loops s). loop_turn i s = None)"

lemma quiescent_final:
  assumes inv: "live_inv sh s" and q: "quiescent s"
  shows "final (wf_Status (sy_wf s)) \<and> sy_loops s = [L_Exit]"
proof -
  from inv obtain pc where loops: "sy_loops s = [pc]" and live: "live_at pc s" by (rule live_invE)
  with q have "loop_at 0 pc s = None" "sy_tasks s = []"
    by (simp_all add: quiescent_def loop_turn_def)
  then have "pc = L_Exit" by (cases pc) (simp_all add: loop_at_def Let_def split: if_splits)
  with loops live show ?thesis by (simp add: live_at_def)
qed

text \<open>
  C12. The loop of a registered workflow whose steps are named and ask for no approval never
  declares a deadlock, whatever the steps return and whenever it is cancelled.  Its loop and
  tasks take at most \<open>turn_bound\<close> turns, and where they can take none the loop has ended and
  the workflow is completed, failed, cancelled or rolled back.
\<close>

theorem workflow_ends:
  assumes reg: "registered_plain order d" and run: "run summary as (started d) = Some s"
  shows "Finished (Some deadlock_error) \<notin> set (sy_log s) \<and>
    length (filter internal as) \<le> turn_bound d \<and>
    (quiescent s \<longrightarrow> final (wf_Status (sy_wf s)) \<and> sy_loops s = [L_Exit])"
proof (intro conjI)
  note facts = registered_plainD [OF reg]
  have inv: "live_inv (shape (start_workflow d)) s" by (rule live_inv_run [OF reg run])
  then show "Finished (Some deadlock_error) \<notin> set (sy_log s)"
    by (auto simp: live_inv_def live_at_def log_fact_def)
  have "st_ID ` set (def_Steps d) = {i. shape (start_workflow d) i \<noteq> None}"
    using shape_dom by blast
  with run_weight [OF _ _ _ _ this run] facts show "length (filter internal as) \<le> turn_bound d"
    by (fastforce simp: turn_bound_def)
  show "quiescent s \<longrightarrow> final (wf_Status (sy_wf s)) \<and> sy_loops s = [L_Exit]"
    using quiescent_final [OF inv] by blast
qed

text \<open>Two steps in a row, the second of which fails at its only attempt.\<close>

definition chain0 :: workflow_definition where
  "chain0 = plain_definition [plain_step ''a'' Type_Tool [], plain_step ''b'' Type_Tool [''a'']]"

definition chain :: workflow_definition where
  "chain = stamp 0 [] chain0"

definition chain_run :: "wf_action list" where
  "chain_run = replicate 3 (Do_Loop 0) @ replicate 3 (Do_Task good 0) @ replicate 5 (Do_Loop 0) @
     replicate 3 (Do_Task bad 0) @ replicate 2 (Do_Loop 0)"

lemma registered_chain: "registered_plain [''a'', ''b''] chain"
proof -
  have "register_definition [''a'', ''b''] ''u'' 0 [] chain0 = Some (Inr ([(''d'', chain)], chain))"
    by code_simp
  moreover have "ids_in_order [''a'', ''b''] chain0 \<and> without_approvals chain0 \<and>
      (\<forall>st \<in> set (def_Steps chain0). st_ID st \<noteq> [])"
    by (simp add: ids_in_order_def without_approvals_def chain0_def plain_definition_def plain_step_def)
  ultimately show ?thesis unfolding registered_plain_def by blast
qed

lemma chain_log: "log_after chain chain_run =
    Some [Ran ''a'', Ended ''a'' End_Completed, Ran ''b'', Ended ''b'' (End_Failed ''boom'')]"
  by code_simp

theorem workflow_ends_witness:
  "\<exists>s. run (\<lambda>_. []) chain_run (started chain) = Some s \<and>
    Finished (Some deadlock_error) \<notin> set (sy_log s) \<and> length (filter internal chain_run) \<le> turn_bound chain \<and>
    (quiescent s \<longrightarrow> final (wf_Status (sy_wf s)) \<and> sy_loops s = [L_Exit])"
proof -
  from chain_log obtain s where "run (\<lambda>_. []) chain_run (started chain) = Some s"
    by (auto simp: log_after_def)
  with workflow_ends [OF registered_chain this] show ?thesis by blast
qed

subsection \<open>The completion signal\<close>



text \<open>
  Unnamed steps are validated under the empty id and named afterwards.  Here the second step
  becomes \<open>step-2\<close>, the id of the first: the definition is registered, and its graph has the
  cycle the validation was to exclude.
\<close>

definition unnamed :: workflow_definition where
  "unnamed = plain_definition [plain_step ''step-2'' Type_Tool [], plain_step [] Type_Tool [''x''],
     plain_step ''x'' Type_Tool [''step-2'']]"

lemma unnamed_steps_escape_validation:
  "\<exists>defs d. register_definition [''step-2'', [], ''x''] ''u'' 0 [] unnamed = Some (Inr (defs, d)) \<and>
     validate_dag [''step-2'', ''x''] (dag_of (def_Steps d)) = Some (Some (Cycle [''step-2'', ''x'', ''step-2'']))"
proof -
  define d where "d = stamp 0 [] (unnamed\<lparr>def_Steps := fill_ids (def_Steps unnamed)\<rparr>)"
  have "register_definition [''step-2'', [], ''x''] ''u'' 0 [] unnamed = Some (Inr ([(''d'', d)], d))"
    unfolding d_def by code_simp
  moreover have "validate_dag [''step-2'', ''x''] (dag_of (def_Steps d)) =
      Some (Some (Cycle [''step-2'', ''x'', ''step-2'']))"
    unfolding d_def by code_simp
  ultimately show ?thesis by blast
qed

end
