(* ===== verification/Workflow_Journal.thy ===== *)
theory Workflow_Journal
  imports Loom_Prelude
begin

text \<open>
  The durable step journal: the step table of \<^verbatim>\<open>pkg/mills/store/dao_workflow.go\<close> and the
  adapter \<open>DAOJournal\<close> of \<^verbatim>\<open>pkg/mills/workflow/journal_dao.go\<close>, with the interface the effect
  host uses as a locale.

  A table is the list of its rows in the order of their ids; \<open>UNIQUE(run_id, step_key)\<close> is an
  invariant.  \<open>NULL\<close> and the empty string are both the empty string, as the scanning code
  makes them.  A cost is only stored and compared; it is an integer that stands for the
  \<open>float64\<close>.  A statement that updates and then answers with an error returns both.
\<close>

section \<open>Rows\<close>

datatype db_status = Row_Pending | Row_Success | Row_Error | Row_GateFail | Row_Skipped

definition is_terminal_status :: "db_status \<Rightarrow> bool" where
  "is_terminal_status s \<longleftrightarrow> s \<noteq> Row_Pending"

record journal_row =
  jr_ID :: nat
  jr_RunID :: string
  jr_StepKey :: string
  jr_EventType :: string
  jr_CallHash :: string
  jr_IdempotencyKey :: string
  jr_Status :: db_status
  jr_SpawnID :: string
  jr_StartedAt :: "time option"
  jr_EndedAt :: "time option"
  jr_ResultBlob :: string
  jr_CostUSD :: int
  jr_CostSource :: string
  jr_EffectCount :: int

record journal_db =
  db_Rows :: "journal_row list"
  db_Runs :: "string \<Rightarrow> string option"

datatype journal_error =
  Run_ID_Required | Step_Key_Required | Event_Type_Required | Call_Hash_Required
| Hash_Mismatch string string | Terminal_Conflict "string list" | Step_Not_Found | Engine_Mismatch

definition row_at :: "string \<Rightarrow> string \<Rightarrow> journal_row \<Rightarrow> bool" where
  "row_at run key r \<longleftrightarrow> jr_RunID r = run \<and> jr_StepKey r = key"

definition get_step :: "string \<Rightarrow> string \<Rightarrow> journal_db \<Rightarrow> journal_row option" where
  "get_step run key db = find (row_at run key) (db_Rows db)"

definition list_by_run :: "string \<Rightarrow> journal_db \<Rightarrow> journal_row list" where
  "list_by_run run db = filter (\<lambda>r. jr_RunID r = run) (db_Rows db)"

definition list_pending :: "string \<Rightarrow> journal_db \<Rightarrow> journal_row list" where
  "list_pending run db = filter (\<lambda>r. jr_RunID r = run \<and> jr_Status r = Row_Pending) (db_Rows db)"

text \<open>\<open>UPDATE ... WHERE\<close>.\<close>

definition update_rows :: "(journal_row \<Rightarrow> bool) \<Rightarrow> (journal_row \<Rightarrow> journal_row) \<Rightarrow> journal_db \<Rightarrow> journal_db" where
  "update_rows P f db = db\<lparr>db_Rows := map (\<lambda>r. if P r then f r else r) (db_Rows db)\<rparr>"

definition coalesce :: "string \<Rightarrow> string \<Rightarrow> string" where
  "coalesce old new = (if old = '''' then new else old)"

definition coalesce_time :: "time option \<Rightarrow> time option \<Rightarrow> time option" where
  "coalesce_time old new = (if old = None then new else old)"

definition same_pending :: "journal_row \<Rightarrow> journal_row \<Rightarrow> bool" where
  "same_pending step r \<longleftrightarrow>
     row_at (jr_RunID step) (jr_StepKey step) r \<and> jr_CallHash r = jr_CallHash step \<and> jr_Status r = Row_Pending"

definition completed_row :: "journal_row \<Rightarrow> journal_row \<Rightarrow> journal_row" where
  "completed_row step r =
     r\<lparr>jr_EventType := jr_EventType step,
       jr_IdempotencyKey := coalesce (jr_IdempotencyKey r) (jr_IdempotencyKey step),
       jr_Status := jr_Status step,
       jr_SpawnID := coalesce (jr_SpawnID r) (jr_SpawnID step),
       jr_StartedAt := coalesce_time (jr_StartedAt r) (jr_StartedAt step),
       jr_EndedAt := jr_EndedAt step,
       jr_ResultBlob := jr_ResultBlob step,
       jr_CostUSD := jr_CostUSD step,
       jr_CostSource := coalesce (jr_CostSource r) (jr_CostSource step),
       jr_EffectCount := jr_EffectCount step\<rparr>"

definition enriched_row :: "journal_row \<Rightarrow> journal_row \<Rightarrow> journal_row" where
  "enriched_row step r =
     r\<lparr>jr_IdempotencyKey := coalesce (jr_IdempotencyKey r) (jr_IdempotencyKey step),
       jr_SpawnID := coalesce (jr_SpawnID r) (jr_SpawnID step),
       jr_StartedAt := coalesce_time (jr_StartedAt r) (jr_StartedAt step),
       jr_CostSource := coalesce (jr_CostSource r) (jr_CostSource step)\<rparr>"

definition complete_pending_step :: "journal_row \<Rightarrow> journal_db \<Rightarrow> journal_db" where
  "complete_pending_step step db = update_rows (same_pending step) (completed_row step) db"

definition enrich_pending_step :: "journal_row \<Rightarrow> journal_db \<Rightarrow> journal_db" where
  "enrich_pending_step step db = update_rows (same_pending step) (enriched_row step) db"

text \<open>The fields on which a losing terminal writer differs from the stored row.\<close>

definition terminal_conflict :: "journal_row \<Rightarrow> journal_row \<Rightarrow> string list" where
  "terminal_conflict stored step =
     (if jr_Status stored \<noteq> jr_Status step then [''status''] else []) @
     (if jr_EventType stored \<noteq> jr_EventType step then [''event_type''] else []) @
     (if jr_ResultBlob stored \<noteq> jr_ResultBlob step then [''result_blob''] else []) @
     (if jr_CostUSD stored \<noteq> jr_CostUSD step then [''cost_usd''] else []) @
     (if jr_CostSource step \<noteq> '''' \<and> jr_CostSource stored \<noteq> jr_CostSource step then [''cost_source''] else []) @
     (if jr_EffectCount stored \<noteq> jr_EffectCount step then [''effect_count''] else []) @
     (if jr_IdempotencyKey step \<noteq> '''' \<and> jr_IdempotencyKey stored \<noteq> jr_IdempotencyKey step
      then [''idempotency_key''] else []) @
     (if jr_SpawnID step \<noteq> '''' \<and> jr_SpawnID stored \<noteq> jr_SpawnID step then [''spawn_id''] else [])"

definition required :: "journal_row \<Rightarrow> journal_error option" where
  "required step =
     (if jr_RunID step = '''' then Some Run_ID_Required
      else if jr_StepKey step = '''' then Some Step_Key_Required
      else if jr_EventType step = '''' then Some Event_Type_Required
      else if jr_CallHash step = '''' then Some Call_Hash_Required else None)"

definition next_id :: "journal_db \<Rightarrow> nat" where
  "next_id db = fold (\<lambda>r m. max m (jr_ID r)) (db_Rows db) 0 + 1"

definition append_row :: "journal_row \<Rightarrow> journal_db \<Rightarrow> journal_db" where
  "append_row step db =
     (case get_step (jr_RunID step) (jr_StepKey step) db of
        None \<Rightarrow> db\<lparr>db_Rows := db_Rows db @ [step\<lparr>jr_ID := next_id db\<rparr>]\<rparr>
      | Some _ \<Rightarrow>
          if is_terminal_status (jr_Status step) then complete_pending_step step db
          else enrich_pending_step step db)"

definition append_answer :: "journal_row \<Rightarrow> journal_db \<Rightarrow> journal_error + journal_row" where
  "append_answer step db =
     (case get_step (jr_RunID step) (jr_StepKey step) db of
        None \<Rightarrow> Inl Step_Not_Found
      | Some out \<Rightarrow>
          if jr_CallHash out \<noteq> jr_CallHash step then Inl (Hash_Mismatch (jr_CallHash out) (jr_CallHash step))
          else if is_terminal_status (jr_Status step) \<and> is_terminal_status (jr_Status out) \<and>
              terminal_conflict out step \<noteq> []
          then Inl (Terminal_Conflict (terminal_conflict out step))
          else Inr out)"

definition append_step :: "journal_row \<Rightarrow> journal_db \<Rightarrow> journal_db \<times> (journal_error + journal_row)" where
  "append_step step db =
     (case required step of
        Some e \<Rightarrow> (db, Inl e)
      | None \<Rightarrow> (let db' = append_row step db in (db', append_answer step db')))"

definition quarantine_step ::
  "string \<Rightarrow> string \<Rightarrow> string \<Rightarrow> journal_db \<Rightarrow> journal_db \<times> (journal_error + journal_row)" where
  "quarantine_step run key hash db =
     (if run = '''' then (db, Inl Run_ID_Required)
      else if key = '''' then (db, Inl Step_Key_Required)
      else if hash = '''' then (db, Inl Call_Hash_Required)
      else
        (let db' = update_rows (\<lambda>r. row_at run key r \<and> jr_CallHash r = hash \<and> jr_Status r \<noteq> Row_Error)
                     (\<lambda>r. r\<lparr>jr_Status := Row_Error\<rparr>) db
         in (db',
             case get_step run key db' of
               None \<Rightarrow> Inl Step_Not_Found
             | Some r \<Rightarrow> if jr_CallHash r \<noteq> hash then Inl (Hash_Mismatch (jr_CallHash r) hash) else Inr r)))"

section \<open>The adapter\<close>

datatype run_status = Status_Pending | Status_Success | Status_Quarantined

record journal_record =
  rec_PrimName :: string
  rec_CallHash :: string
  rec_Status :: run_status
  rec_ResultBlob :: string
  rec_SpawnID :: string
  rec_CostSource :: string
  rec_CostUSD :: int

definition status_for :: "run_status \<Rightarrow> db_status" where
  "status_for s = (case s of Status_Pending \<Rightarrow> Row_Pending | Status_Success \<Rightarrow> Row_Success
     | Status_Quarantined \<Rightarrow> Row_Error)"

definition runtime_status :: "db_status \<Rightarrow> run_status" where
  "runtime_status s = (case s of Row_Pending \<Rightarrow> Status_Pending | Row_Success \<Rightarrow> Status_Success
     | _ \<Rightarrow> Status_Quarantined)"

definition event_type_for :: "string \<Rightarrow> string" where
  "event_type_for prim =
     (if prim = ''agent'' then ''spawn_requested''
      else if prim = ''gate'' then ''gate_eval''
      else if prim = ''ctx_now'' then ''ctx_now''
      else if prim = ''ctx_uuid'' then ''ctx_uuid''
      else ''tool_call'')"

definition to_record :: "journal_row \<Rightarrow> journal_record" where
  "to_record r =
     \<lparr>rec_PrimName = jr_EventType r, rec_CallHash = jr_CallHash r, rec_Status = runtime_status (jr_Status r),
      rec_ResultBlob = jr_ResultBlob r, rec_SpawnID = jr_SpawnID r, rec_CostSource = jr_CostSource r,
      rec_CostUSD = jr_CostUSD r\<rparr>"

definition journal_get :: "string \<Rightarrow> journal_db \<Rightarrow> string \<Rightarrow> journal_record option" where
  "journal_get run db key = map_option to_record (get_step run key db)"

definition imperative :: string where
  "imperative = ''imperative''"

definition ensure_run :: "string \<Rightarrow> journal_db \<Rightarrow> journal_error + journal_db" where
  "ensure_run run db =
     (if run = '''' then Inl Run_ID_Required
      else case db_Runs db run of
        None \<Rightarrow> Inr (db\<lparr>db_Runs := (db_Runs db)(run \<mapsto> imperative)\<rparr>)
      | Some e \<Rightarrow> if e \<noteq> imperative then Inl Engine_Mismatch else Inr db)"

definition step_row :: "time \<Rightarrow> string \<Rightarrow> string \<Rightarrow> journal_record \<Rightarrow> journal_row" where
  "step_row now run key r =
     \<lparr>jr_ID = 0, jr_RunID = run, jr_StepKey = key, jr_EventType = event_type_for (rec_PrimName r),
      jr_CallHash = rec_CallHash r, jr_IdempotencyKey = '''', jr_Status = status_for (rec_Status r),
      jr_SpawnID = rec_SpawnID r,
      jr_StartedAt = (if rec_Status r = Status_Pending then Some now else None),
      jr_EndedAt = (if rec_Status r = Status_Success then Some now else None),
      jr_ResultBlob = rec_ResultBlob r, jr_CostUSD = rec_CostUSD r, jr_CostSource = rec_CostSource r,
      jr_EffectCount = (if rec_Status r = Status_Success then 1 else 0)\<rparr>"

definition journal_append ::
  "time \<Rightarrow> string \<Rightarrow> string \<Rightarrow> journal_record \<Rightarrow> journal_db \<Rightarrow> journal_db \<times> journal_error option" where
  "journal_append now run key r db =
     (case ensure_run run db of
        Inl e \<Rightarrow> (db, Some e)
      | Inr db1 \<Rightarrow>
          (let (db2, answer) =
             (if rec_Status r = Status_Quarantined then quarantine_step run key (rec_CallHash r) db1
              else append_step (step_row now run key r) db1)
           in (db2, case answer of Inl e \<Rightarrow> Some e | Inr _ \<Rightarrow> None)))"

definition success_count :: "string \<Rightarrow> journal_db \<Rightarrow> nat" where
  "success_count run db = length (filter (\<lambda>r. jr_Status r = Row_Success) (list_by_run run db))"

section \<open>The interface of the effect host\<close>

text \<open>
  What the host sees of a step: its call hash, its status and its result.  A write changes
  one cell: the first write of a key creates it, a success completes a pending cell of the
  same hash, a quarantine freezes a cell of the same hash, and nothing else changes it.
\<close>

type_synonym cell = "string \<times> run_status \<times> string"

definition cell_of :: "journal_record \<Rightarrow> cell" where
  "cell_of r = (rec_CallHash r, rec_Status r, rec_ResultBlob r)"

fun write_cell :: "journal_record \<Rightarrow> cell option \<Rightarrow> cell option" where
  "write_cell r None = (if rec_Status r = Status_Quarantined then None else Some (cell_of r))"
| "write_cell r (Some (h, s, b)) =
     (if h \<noteq> rec_CallHash r then Some (h, s, b)
      else case rec_Status r of
        Status_Pending \<Rightarrow> Some (h, s, b)
      | Status_Success \<Rightarrow> if s = Status_Pending then Some (cell_of r) else Some (h, s, b)
      | Status_Quarantined \<Rightarrow> Some (h, Status_Quarantined, b))"

definition writable :: "string \<Rightarrow> journal_record \<Rightarrow> bool" where
  "writable key r \<longleftrightarrow> key \<noteq> '''' \<and> rec_CallHash r \<noteq> ''''"

text \<open>The two hashes of a mismatch, the stored one first: what \<open>quarantineHashMismatch\<close> makes of the error.\<close>

definition hash_clash :: "journal_error \<Rightarrow> (string \<times> string) option" where
  "hash_clash e = (case e of Hash_Mismatch want got \<Rightarrow> Some (want, got) | _ \<Rightarrow> None)"

text \<open>What a write that answers without an error has stored.\<close>

definition stored :: "journal_record \<Rightarrow> cell option \<Rightarrow> bool" where
  "stored r c \<longleftrightarrow>
     (case c of None \<Rightarrow> False
      | Some (h, s, b) \<Rightarrow> h = rec_CallHash r \<and>
          (rec_Status r = Status_Success \<longrightarrow> s = Status_Success \<and> b = rec_ResultBlob r))"

locale step_journal =
  fixes get :: "'j \<Rightarrow> string \<Rightarrow> journal_record option"
    and append :: "time \<Rightarrow> string \<Rightarrow> journal_record \<Rightarrow> 'j \<Rightarrow> 'j \<times> 'e option"
    and usable :: "'j \<Rightarrow> bool"
    and clash :: "'e \<Rightarrow> (string \<times> string) option"
  assumes append_usable: "usable j \<Longrightarrow> usable (fst (append now key r j))"
    and append_cell: "usable j \<Longrightarrow> writable key r \<Longrightarrow>
      map_option cell_of (get (fst (append now key r j)) key') =
      (if key' = key then write_cell r (map_option cell_of (get j key))
       else map_option cell_of (get j key'))"
    and append_refused: "usable j \<Longrightarrow> \<not> writable key r \<Longrightarrow>
      get (fst (append now key r j)) key' = get j key'"
    and append_stored: "usable j \<Longrightarrow> writable key r \<Longrightarrow> snd (append now key r j) = None \<Longrightarrow>
      stored r (map_option cell_of (get (fst (append now key r j)) key))"
    and append_clash: "usable j \<Longrightarrow> snd (append now key r j) = Some e \<Longrightarrow> clash e = Some (want, got) \<Longrightarrow>
      \<exists>s b. map_option cell_of (get (fst (append now key r j)) key) = Some (want, s, b) \<and>
        want \<noteq> rec_CallHash r"
begin

definition cells :: "'j \<Rightarrow> string \<Rightarrow> cell option" where
  "cells j key = map_option cell_of (get j key)"

lemma cells_append:
  "usable j \<Longrightarrow> writable key r \<Longrightarrow>
     cells (fst (append now key r j)) = (cells j)(key := write_cell r (cells j key))"
  by (auto simp: cells_def append_cell fun_eq_iff)

text \<open>A finished cell keeps its hash and its result for ever.\<close>

definition finished :: "'j \<Rightarrow> string \<Rightarrow> string \<Rightarrow> string \<Rightarrow> bool" where
  "finished j key h b \<longleftrightarrow> (\<exists>s. cells j key = Some (h, s, b) \<and> s \<noteq> Status_Pending)"

lemma finished_unique: "finished j key h b \<Longrightarrow> finished j key h' b' \<Longrightarrow> h' = h \<and> b' = b"
  by (auto simp: finished_def)

lemma finished_append:
  assumes "usable j" and "finished j key h b"
  shows "finished (fst (append now key' r j)) key h b"
proof (cases "writable key' r")
  case True
  then show ?thesis using assms by (auto simp: finished_def cells_append split: run_status.split)
next
  case False
  then show ?thesis using assms by (simp add: finished_def cells_def append_refused)
qed

lemma stored_success:
  assumes "usable j" and "writable key r" and "rec_Status r = Status_Success"
    and "snd (append now key r j) = None"
  shows "finished (fst (append now key r j)) key (rec_CallHash r) (rec_ResultBlob r)"
  using append_stored [OF assms(1,2,4)] assms(3)
  by (auto simp: stored_def finished_def cells_def split: option.splits)

end

section \<open>The step table provides it\<close>

lemma find_map_same:
  assumes "\<And>r. P (f r) = P r"
  shows "find P (map f rs) = map_option f (find P rs)"
  using assms by (induction rs) auto

lemma row_at_completed [simp]: "row_at run key (completed_row step r) = row_at run key r"
  by (simp add: row_at_def completed_row_def)

lemma row_at_enriched [simp]: "row_at run key (enriched_row step r) = row_at run key r"
  by (simp add: row_at_def enriched_row_def)

lemma row_at_status [simp]: "row_at run key (r\<lparr>jr_Status := s\<rparr>) = row_at run key r"
  by (simp add: row_at_def)

lemma get_step_update:
  assumes "\<And>r. row_at run key (f r) = row_at run key r"
  shows "get_step run key (update_rows P f db) =
    map_option (\<lambda>r. if P r then f r else r) (get_step run key db)"
  unfolding get_step_def update_rows_def
  by (simp add: find_map_same [of "row_at run key"] assms)

lemma get_step_Some: "get_step run key db = Some r \<Longrightarrow> row_at run key r"
  by (auto simp: get_step_def find_Some_iff)

lemma get_step_ID [simp]: "row_at run key (step\<lparr>jr_ID := n\<rparr>) = row_at run key step"
  by (simp add: row_at_def)

lemma find_append: "find P (xs @ ys) = (case find P xs of None \<Rightarrow> find P ys | Some x \<Rightarrow> Some x)"
  by (induction xs) auto

text \<open>The row of a key after an append.\<close>

lemma get_step_append_row:
  "get_step run key (append_row step db) =
     (if row_at run key step then
        (case get_step run key db of
           None \<Rightarrow> Some (step\<lparr>jr_ID := next_id db\<rparr>)
         | Some r \<Rightarrow>
             Some (if same_pending step r
               then (if is_terminal_status (jr_Status step) then completed_row step r else enriched_row step r)
               else r))
      else get_step run key db)"
proof (cases "get_step (jr_RunID step) (jr_StepKey step) db")
  case None
  then show ?thesis
    by (auto simp: append_row_def get_step_def find_append row_at_def split: option.split)
next
  case (Some r)
  have other: "\<not> same_pending step r'" if "get_step run key db = Some r'" "\<not> row_at run key step" for r'
    using get_step_Some [OF that(1)] that(2) by (auto simp: same_pending_def row_at_def)
  have mine: "run = jr_RunID step \<and> key = jr_StepKey step" if "row_at run key step"
    using that by (simp add: row_at_def)
  show ?thesis
    using Some other mine
    by (cases "get_step run key db")
      (auto simp: append_row_def complete_pending_step_def enrich_pending_step_def get_step_update)
qed

definition run_usable :: "string \<Rightarrow> journal_db \<Rightarrow> bool" where
  "run_usable run db \<longleftrightarrow> run \<noteq> '''' \<and> (db_Runs db run = None \<or> db_Runs db run = Some imperative)"

lemma ensure_run_usable:
  assumes "run_usable run db"
  obtains db1 where "ensure_run run db = Inr db1" "db_Rows db1 = db_Rows db" "run_usable run db1"
  using assms by (auto simp: ensure_run_def run_usable_def split: option.splits)

definition row_cell :: "journal_row \<Rightarrow> cell" where
  "row_cell r = (jr_CallHash r, runtime_status (jr_Status r), jr_ResultBlob r)"

lemma cell_of_to_record [simp]: "cell_of (to_record r) = row_cell r"
  by (simp add: cell_of_def to_record_def row_cell_def)

lemma row_cell_get: "map_option cell_of (journal_get run db key) = map_option row_cell (get_step run key db)"
  by (simp add: journal_get_def option.map_comp comp_def)

lemma get_step_rows: "db_Rows db' = db_Rows db \<Longrightarrow> get_step run key db' = get_step run key db"
  by (simp add: get_step_def)

lemma runtime_status_for [simp]: "runtime_status (status_for s) = s"
  by (cases s) (simp_all add: runtime_status_def status_for_def)

lemma runtime_status_pending [simp]: "runtime_status s = Status_Pending \<longleftrightarrow> s = Row_Pending"
  by (cases s) (simp_all add: runtime_status_def)

lemma runtime_status_success [simp]: "runtime_status s = Status_Success \<longleftrightarrow> s = Row_Success"
  by (cases s) (simp_all add: runtime_status_def)

lemma append_row_cell:
  assumes "rec_Status r \<noteq> Status_Quarantined"
  shows "map_option row_cell (get_step run key' (append_row (step_row now run key r) db)) =
    (if key' = key then write_cell r (map_option row_cell (get_step run key db))
     else map_option row_cell (get_step run key' db))"
proof -
  let ?step = "step_row now run key r"
  have at: "row_at run k ?step \<longleftrightarrow> k = key" for k by (auto simp: row_at_def step_row_def)
  have new: "row_cell (?step\<lparr>jr_ID := n\<rparr>) = cell_of r" for n
    by (simp add: row_cell_def step_row_def cell_of_def)
  show ?thesis
  proof (cases "key' = key")
    case True
    have mine: "same_pending ?step x \<longleftrightarrow> jr_CallHash x = rec_CallHash r \<and> jr_Status x = Row_Pending"
      if "get_step run key db = Some x" for x
      using get_step_Some [OF that] by (simp add: same_pending_def row_at_def step_row_def)
    show ?thesis
    proof (cases "get_step run key db")
      case None
      with True assms show ?thesis by (simp add: get_step_append_row at new)
    next
      case (Some x)
      have "is_terminal_status (jr_Status ?step) \<longleftrightarrow> rec_Status r = Status_Success"
        using assms by (cases "rec_Status r") (simp_all add: is_terminal_status_def step_row_def status_for_def)
      moreover have "row_cell (completed_row ?step x) = (jr_CallHash x, rec_Status r, rec_ResultBlob r)"
        "row_cell (enriched_row ?step x) = row_cell x"
        by (simp_all add: row_cell_def completed_row_def enriched_row_def step_row_def)
      ultimately show ?thesis
        using True Some mine [OF Some] assms
        by (cases "rec_Status r") (auto simp: get_step_append_row at row_cell_def cell_of_def)
    qed
  qed (simp add: get_step_append_row at)
qed

lemma required_step_row:
  "run \<noteq> [] \<Longrightarrow> writable key r \<Longrightarrow> required (step_row now run key r) = None"
  by (simp add: required_def step_row_def writable_def event_type_for_def)

lemma journal_append_cell:
  assumes use: "run_usable run db" and w: "writable key r"
  shows "map_option cell_of (journal_get run (fst (journal_append now run key r db)) key') =
    (if key' = key then write_cell r (map_option cell_of (journal_get run db key))
     else map_option cell_of (journal_get run db key'))"
proof -
  from use obtain db1 where ens: "ensure_run run db = Inr db1" and rows: "db_Rows db1 = db_Rows db"
    by (rule ensure_run_usable)
  have run: "run \<noteq> []" using use by (simp add: run_usable_def)
  show ?thesis
  proof (cases "rec_Status r = Status_Quarantined")
    case True
    define f :: "journal_row \<Rightarrow> journal_row" where "f = (\<lambda>x. x\<lparr>jr_Status := Row_Error\<rparr>)"
    define P where "P = (\<lambda>x. row_at run key x \<and> jr_CallHash x = rec_CallHash r \<and> jr_Status x \<noteq> Row_Error)"
    have "fst (journal_append now run key r db) = update_rows P f db1"
      using ens run w True
      by (simp add: journal_append_def quarantine_step_def writable_def Let_def P_def f_def split_beta)
    moreover have "get_step run key' (update_rows P f db1) =
        map_option (\<lambda>x. if P x then f x else x) (get_step run key' db)"
      using get_step_update [of run key' f P db1] by (simp add: f_def get_step_rows [OF rows])
    moreover have "row_at run key x \<longleftrightarrow> key' = key" if "get_step run key' db = Some x" for x
      using get_step_Some [OF that] by (auto simp: row_at_def)
    ultimately show ?thesis
      using True
      by (cases "get_step run key' db")
        (auto simp: row_cell_get P_def f_def row_cell_def runtime_status_def)
  next
    case False
    have "fst (journal_append now run key r db) = append_row (step_row now run key r) db1"
      using ens False required_step_row [OF run w]
      by (simp add: journal_append_def append_step_def Let_def split_beta)
    then show ?thesis
      using append_row_cell [OF False, of run key' now key db1]
      by (simp add: row_cell_get get_step_rows [OF rows])
  qed
qed

lemma append_answer_stored:
  assumes run: "row_at run key step" and "append_answer step db = Inr out"
  shows "get_step run key db = Some out \<and> jr_CallHash out = jr_CallHash step \<and>
    (is_terminal_status (jr_Status step) \<and> is_terminal_status (jr_Status out) \<longrightarrow>
      jr_Status out = jr_Status step \<and> jr_ResultBlob out = jr_ResultBlob step)"
  using assms
  by (auto simp: append_answer_def row_at_def terminal_conflict_def split: option.splits if_splits)

lemma append_row_terminal:
  assumes "row_at run key step" and "is_terminal_status (jr_Status step)"
    and "get_step run key (append_row step db) = Some out" and "jr_CallHash out = jr_CallHash step"
  shows "is_terminal_status (jr_Status out)"
  using assms
  by (auto simp: get_step_append_row same_pending_def completed_row_def is_terminal_status_def row_at_def
      dest!: get_step_Some split: option.splits if_splits)

lemma journal_append_stored:
  assumes use: "run_usable run db" and w: "writable key r"
    and ok: "snd (journal_append now run key r db) = None"
  shows "stored r (map_option cell_of (journal_get run (fst (journal_append now run key r db)) key))"
proof -
  from use obtain db1 where ens: "ensure_run run db = Inr db1" and rows: "db_Rows db1 = db_Rows db"
    by (rule ensure_run_usable)
  have run: "run \<noteq> []" using use by (simp add: run_usable_def)
  show ?thesis
  proof (cases "rec_Status r = Status_Quarantined")
    case True
    then show ?thesis
      using ens run w ok
      by (auto simp: journal_append_def quarantine_step_def writable_def Let_def split_beta row_cell_get
          stored_def row_cell_def split: option.splits if_splits)
  next
    case False
    define step where "step = step_row now run key r"
    have db: "fst (journal_append now run key r db) = append_row step db1"
      using ens False required_step_row [OF run w]
      by (simp add: journal_append_def append_step_def Let_def split_beta step_def)
    have at: "row_at run key step" by (simp add: step_def row_at_def step_row_def)
    from ok obtain out where out: "append_answer step (append_row step db1) = Inr out"
      using ens False required_step_row [OF run w]
      by (auto simp: journal_append_def append_step_def Let_def split_beta step_def split: sum.splits)
    note st = append_answer_stored [OF at out]
    have fields: "jr_CallHash step = rec_CallHash r" "jr_ResultBlob step = rec_ResultBlob r"
      "rec_Status r = Status_Success \<Longrightarrow> jr_Status step = Row_Success"
      by (simp_all add: step_def step_row_def status_for_def)
    have "jr_Status out = Row_Success \<and> jr_ResultBlob out = rec_ResultBlob r" if "rec_Status r = Status_Success"
      using st fields append_row_terminal [OF at] that by (auto simp: is_terminal_status_def)
    with st fields show ?thesis
      by (auto simp: db row_cell_get stored_def row_cell_def runtime_status_def)
  qed
qed

lemma journal_append_usable:
  "run_usable run db \<Longrightarrow> run_usable run (fst (journal_append now run key r db))"
proof -
  assume use: "run_usable run db"
  then obtain db1 where "ensure_run run db = Inr db1" "run_usable run db1"
    by (rule ensure_run_usable)
  moreover have "db_Runs (fst (quarantine_step a b c db1)) = db_Runs db1" for a b c
    by (simp add: quarantine_step_def update_rows_def Let_def)
  moreover have "db_Runs (fst (append_step st db1)) = db_Runs db1" for st
    by (simp add: append_step_def append_row_def complete_pending_step_def enrich_pending_step_def
        update_rows_def Let_def split: option.split)
  ultimately show ?thesis
    by (simp add: journal_append_def run_usable_def Let_def split_beta)
qed

lemma journal_append_refused:
  assumes use: "run_usable run db" and w: "\<not> writable key r"
  shows "journal_get run (fst (journal_append now run key r db)) key' = journal_get run db key'"
proof -
  from use obtain db1 where ens: "ensure_run run db = Inr db1" and rows: "db_Rows db1 = db_Rows db"
    by (rule ensure_run_usable)
  have "required (step_row now run key r) \<noteq> None"
    using w by (auto simp: required_def step_row_def writable_def)
  then have "fst (append_step (step_row now run key r) db1) = db1"
    by (auto simp: append_step_def)
  moreover have "fst (quarantine_step run key (rec_CallHash r) db1) = db1"
    using w by (auto simp: quarantine_step_def writable_def)
  ultimately show ?thesis
    using ens by (simp add: journal_append_def Let_def split_beta journal_get_def get_step_rows [OF rows])
qed

lemma hash_clash_eq [simp]: "hash_clash e = Some (want, got) \<longleftrightarrow> e = Hash_Mismatch want got"
  by (cases e) (auto simp: hash_clash_def)

lemma journal_append_clash:
  assumes use: "run_usable run db" and err: "snd (journal_append now run key r db) = Some e"
    and e: "hash_clash e = Some (want, got)"
  shows "\<exists>s b. map_option cell_of (journal_get run (fst (journal_append now run key r db)) key) = Some (want, s, b) \<and>
    want \<noteq> rec_CallHash r"
proof -
  from use obtain db1 where ens: "ensure_run run db = Inr db1" by (rule ensure_run_usable)
  show ?thesis
  proof (cases "rec_Status r = Status_Quarantined")
    case True
    then show ?thesis
      using ens err e
      by (auto simp: journal_append_def quarantine_step_def Let_def split_beta row_cell_get row_cell_def
          split: option.splits if_splits)
  next
    case False
    have at: "jr_RunID (step_row now run key r) = run" "jr_StepKey (step_row now run key r) = key"
      "jr_CallHash (step_row now run key r) = rec_CallHash r"
      by (simp_all add: step_row_def)
    show ?thesis
    proof (cases "required (step_row now run key r)")
      case None
      then show ?thesis
        using ens err e False at
        by (auto simp: journal_append_def append_step_def append_answer_def Let_def split_beta row_cell_get
            row_cell_def split: option.splits if_splits sum.splits)
    next
      case (Some e')
      then show ?thesis
        using ens err e False
        by (auto simp: journal_append_def append_step_def required_def split: if_splits)
    qed
  qed
qed

interpretation dao: step_journal "journal_get run" "\<lambda>now. journal_append now run" "run_usable run"
    hash_clash for run
  by unfold_locales (rule journal_append_usable journal_append_cell journal_append_refused
    journal_append_stored journal_append_clash; assumption)+

section \<open>Well-formed tables\<close>

definition row_key :: "journal_row \<Rightarrow> string \<times> string" where
  "row_key r = (jr_RunID r, jr_StepKey r)"

definition named_row :: "journal_row \<Rightarrow> bool" where
  "named_row r \<longleftrightarrow> jr_RunID r \<noteq> [] \<and> jr_StepKey r \<noteq> [] \<and> jr_EventType r \<noteq> [] \<and> jr_CallHash r \<noteq> []"

definition journal_ok :: "journal_db \<Rightarrow> bool" where
  "journal_ok db \<longleftrightarrow>
     distinct (map row_key (db_Rows db)) \<and> sorted_wrt (<) (map jr_ID (db_Rows db)) \<and>
     (\<forall>r \<in> set (db_Rows db). named_row r)"

text \<open>What may become of a row: a terminal one is only ever frozen.\<close>

definition row_evolves :: "journal_row \<Rightarrow> journal_row \<Rightarrow> bool" where
  "row_evolves r r' \<longleftrightarrow>
     jr_ID r' = jr_ID r \<and> row_key r' = row_key r \<and> jr_CallHash r' = jr_CallHash r \<and>
     (named_row r \<longrightarrow> named_row r') \<and>
     (is_terminal_status (jr_Status r) \<longrightarrow> r' = r \<or> r' = r\<lparr>jr_Status := Row_Error\<rparr>)"

definition db_evolves :: "journal_db \<Rightarrow> journal_db \<Rightarrow> bool" where
  "db_evolves db db' \<longleftrightarrow>
     (\<exists>rs new. db_Rows db' = rs @ new \<and> list_all2 row_evolves (db_Rows db) rs \<and>
        (new = [] \<or> (\<exists>r. new = [r\<lparr>jr_ID := next_id db\<rparr>] \<and> named_row r \<and>
           row_key r \<notin> row_key ` set (db_Rows db))))"

lemma row_evolves_refl: "row_evolves r r"
  by (simp add: row_evolves_def)

lemma db_evolvesI:
  assumes "db_Rows db' = rs @ new" and "list_all2 row_evolves (db_Rows db) rs"
    and "new = [] \<or> (\<exists>r. new = [r\<lparr>jr_ID := next_id db\<rparr>] \<and> named_row r \<and>
      row_key r \<notin> row_key ` set (db_Rows db))"
  shows "db_evolves db db'"
  using assms unfolding db_evolves_def by blast

lemma db_evolves_same: "db_Rows db' = db_Rows db \<Longrightarrow> db_evolves db db'"
  by (rule db_evolvesI [of _ "db_Rows db" "[]"]) (simp_all add: list_all2_same row_evolves_refl)

lemma db_evolves_update:
  assumes "\<And>r. r \<in> set (db_Rows db) \<Longrightarrow> P r \<Longrightarrow> row_evolves r (f r)"
  shows "db_evolves db (update_rows P f db)"
  by (rule db_evolvesI [of _ "map (\<lambda>r. if P r then f r else r) (db_Rows db)" "[]"])
    (use assms in \<open>auto simp: update_rows_def list_all2_map2 list_all2_same row_evolves_refl\<close>)

lemma fold_max_above:
  fixes x :: nat
  shows "x \<le> fold (\<lambda>r m. max m (f r)) rs x \<and> (\<forall>r \<in> set rs. f r \<le> fold (\<lambda>r m. max m (f r)) rs x)"
proof (induction rs arbitrary: x)
  case (Cons r rs)
  let ?m = "fold (\<lambda>r m. max m (f r)) rs (max x (f r))"
  have "max x (f r) \<le> ?m" and "\<forall>r \<in> set rs. f r \<le> ?m" using Cons.IH by blast+
  then have "x \<le> ?m" and "f r \<le> ?m" and "\<forall>r \<in> set rs. f r \<le> ?m" by linarith+
  then show ?case by simp
qed simp

lemma next_id_above: "r \<in> set (db_Rows db) \<Longrightarrow> jr_ID r < next_id db"
  using fold_max_above [of 0 jr_ID "db_Rows db"] by (simp add: next_id_def less_Suc_eq_le)

lemma row_key_ID: "row_key (r\<lparr>jr_ID := n\<rparr>) = row_key r"
  by (simp add: row_key_def)

lemma named_row_ID: "named_row (r\<lparr>jr_ID := n\<rparr>) = named_row r"
  by (simp add: named_row_def)

lemma journal_ok_evolves:
  assumes ok: "journal_ok db" and ev: "db_evolves db db'"
  shows "journal_ok db'"
proof -
  from ev obtain rs new where db': "db_Rows db' = rs @ new" and rs: "list_all2 row_evolves (db_Rows db) rs"
    and new: "new = [] \<or> (\<exists>r. new = [r\<lparr>jr_ID := next_id db\<rparr>] \<and> named_row r \<and>
      row_key r \<notin> row_key ` set (db_Rows db))" unfolding db_evolves_def by blast
  have ids: "map jr_ID rs = map jr_ID (db_Rows db)" and keys: "map row_key rs = map row_key (db_Rows db)"
    using rs by (induction rule: list_all2_induct) (simp_all add: row_evolves_def)
  have "\<forall>r \<in> set (db_Rows db). named_row r" using ok by (simp add: journal_ok_def)
  with rs have named: "\<forall>r \<in> set rs. named_row r"
    by (induction rule: list_all2_induct) (simp_all add: row_evolves_def)
  have "\<forall>r \<in> set rs. jr_ID r < next_id db"
  proof
    fix r assume "r \<in> set rs"
    then have "jr_ID r \<in> set (map jr_ID (db_Rows db))" unfolding ids [symmetric] by simp
    then show "jr_ID r < next_id db" using next_id_above by auto
  qed
  moreover have "row_key ` set rs = row_key ` set (db_Rows db)" using keys by (metis set_map)
  ultimately show ?thesis
    using ok new named db' ids keys
    by (auto simp: journal_ok_def sorted_wrt_append row_key_ID named_row_ID next_id_above)
qed

lemma db_evolves_append_row:
  assumes "required step = None"
  shows "db_evolves db (append_row step db)"
proof (cases "get_step (jr_RunID step) (jr_StepKey step) db")
  case None
  then have "row_key step \<notin> row_key ` set (db_Rows db)"
    by (auto simp: get_step_def find_None_iff row_at_def row_key_def)
  moreover have "named_row step" using assms by (simp add: required_def named_row_def split: if_splits)
  ultimately show ?thesis
    using None
    by (intro db_evolvesI [of _ "db_Rows db" "[step\<lparr>jr_ID := next_id db\<rparr>]"])
      (auto simp: append_row_def list_all2_same row_evolves_refl)
next
  case (Some r)
  have "row_evolves x (completed_row step x)" "row_evolves x (enriched_row step x)" if "same_pending step x" for x
    using that assms
    by (auto simp: row_evolves_def completed_row_def enriched_row_def same_pending_def row_key_def named_row_def
        is_terminal_status_def required_def split: if_splits)
  with Some show ?thesis
    by (auto simp: append_row_def complete_pending_step_def enrich_pending_step_def intro!: db_evolves_update)
qed

lemma db_evolves_quarantine: "db_evolves db (fst (quarantine_step run key h db))"
proof -
  have "db_evolves db (update_rows P (\<lambda>r. r\<lparr>jr_Status := Row_Error\<rparr>) db)" for P
    by (rule db_evolves_update) (simp add: row_evolves_def row_key_def named_row_def)
  then show ?thesis by (simp add: quarantine_step_def Let_def db_evolves_same)
qed

lemma db_evolves_rows: "db_Rows db1 = db_Rows db \<Longrightarrow> db_evolves db1 db' \<Longrightarrow> db_evolves db db'"
  by (auto simp: db_evolves_def next_id_def)

text \<open>
  C29. Every write through the journal keeps the table well formed: one row per run and step
  key, ids increasing in insertion order, no empty identity.  It adds at most one row, keeps
  the identity and call hash of every other, and what is terminal stays as it is unless it
  is frozen.
\<close>

theorem journal_append_wellformed:
  assumes ok: "journal_ok db"
  shows "journal_ok (fst (journal_append now run key r db)) \<and>
    db_evolves db (fst (journal_append now run key r db))"
proof -
  have "db_evolves db (fst (journal_append now run key r db))"
  proof (cases "ensure_run run db")
    case (Inl e)
    then show ?thesis by (simp add: journal_append_def db_evolves_same)
  next
    case (Inr db1)
    have rows: "db_Rows db1 = db_Rows db"
      using Inr by (auto simp: ensure_run_def split: option.splits if_splits)
    have "db_evolves db1 (fst (append_step st db1))" for st
      using db_evolves_append_row [of st db1]
      by (cases "required st") (simp_all add: append_step_def Let_def db_evolves_same)
    then have "db_evolves db1 (fst (journal_append now run key r db))"
      using Inr db_evolves_quarantine by (simp add: journal_append_def Let_def split_beta)
    then show ?thesis by (rule db_evolves_rows [OF rows])
  qed
  then show ?thesis using journal_ok_evolves [OF ok] by blast
qed

definition pending_record :: "string \<Rightarrow> string \<Rightarrow> journal_record" where
  "pending_record prim h =
     \<lparr>rec_PrimName = prim, rec_CallHash = h, rec_Status = Status_Pending, rec_ResultBlob = '''',
      rec_SpawnID = '''', rec_CostSource = '''', rec_CostUSD = 0\<rparr>"

definition empty_journal :: journal_db where
  "empty_journal = \<lparr>db_Rows = [], db_Runs = (\<lambda>_. None)\<rparr>"

theorem journal_append_wellformed_witness:
  "let db = fst (journal_append 5 ''run'' ''key'' (pending_record ''gate'' ''h'') empty_journal)
   in journal_ok db \<and> map jr_ID (db_Rows db) = [1] \<and> db_evolves empty_journal db"
proof -
  have "journal_ok empty_journal" by (simp add: journal_ok_def empty_journal_def)
  note journal_append_wellformed [OF this, of 5 "''run''" "''key''" "pending_record ''gate'' ''h''"]
  moreover have "map jr_ID (db_Rows (fst (journal_append 5 ''run'' ''key'' (pending_record ''gate'' ''h'') empty_journal))) = [1]"
    by code_simp
  ultimately show ?thesis unfolding Let_def by blast
qed

end
