(* ===== verification/Effect_Host.thy ===== *)
theory Effect_Host
  imports Workflow_Journal "HOL-Library.Sublist"
begin

text \<open>
  The durable effect host of \<^verbatim>\<open>pkg/mills/workflow\<close> (\<open>host.go\<close>, \<open>interp.go\<close>): scope stacks and step
  keys, the read-through every effect goes through, and threads that run a script, crash and
  run it again over the same journal.

  The Starlark interpreter is a parameter: a script is a function that says, from the results
  its calls have returned so far, what the thread does next.  So are the call hash (SHA-256
  over the canonical arguments) and the way a stored result reads back; the executor's
  outcome is an argument of the action.
\<close>

section \<open>Scope stacks and step keys\<close>

datatype frame_kind = Frame_Root | Frame_Loop string nat | Frame_Par string nat

record frame =
  fr_Kind :: frame_kind
  fr_dupCounts :: "string \<Rightarrow> nat"

type_synonym scope_stack = "frame list"

definition segment :: "frame_kind \<Rightarrow> string" where
  "segment k =
     (case k of
        Frame_Root \<Rightarrow> ''root''
      | Frame_Loop l i \<Rightarrow> ''loop:'' @ l @ ''#'' @ dec i
      | Frame_Par c b \<Rightarrow> ''par:'' @ c @ ''/b'' @ dec b)"

definition new_frame :: "frame_kind \<Rightarrow> frame" where
  "new_frame k = \<lparr>fr_Kind = k, fr_dupCounts = \<lambda>_. 0\<rparr>"

text \<open>The top frame is the last of the list, as in the slice.\<close>

definition new_root_stack :: scope_stack where
  "new_root_stack = [new_frame Frame_Root]"

definition push :: "frame_kind \<Rightarrow> scope_stack \<Rightarrow> scope_stack" where
  "push k st = st @ [new_frame k]"

definition pop :: "scope_stack \<Rightarrow> scope_stack" where
  "pop st = butlast st"

definition fork :: "frame_kind \<Rightarrow> scope_stack \<Rightarrow> scope_stack" where
  "fork k st = st @ [new_frame k]"

definition join_segments :: "string list \<Rightarrow> string" where
  "join_segments segs = (case segs of [] \<Rightarrow> [] | s # ss \<Rightarrow> s @ concat (map (\<lambda>t. ''/'' @ t) ss))"

definition dup_key :: "string \<Rightarrow> string \<Rightarrow> string" where
  "dup_key prim h = prim @ ''|'' @ h"

definition leaf_segment :: "string \<Rightarrow> string \<Rightarrow> nat \<Rightarrow> string" where
  "leaf_segment prim h dup = prim @ ''~'' @ take 16 h @ ''#'' @ dec dup"

definition leaf_key :: "string \<Rightarrow> string \<Rightarrow> scope_stack \<Rightarrow> string \<times> scope_stack" where
  "leaf_key prim h st =
     (let top = last st; dup = fr_dupCounts top (dup_key prim h)
      in (join_segments (map (segment \<circ> fr_Kind) st @ [leaf_segment prim h dup]),
          butlast st @ [top\<lparr>fr_dupCounts := (fr_dupCounts top)(dup_key prim h := dup + 1)\<rparr>]))"

definition host_max_fanout :: int where
  "host_max_fanout = 8"

definition host_max_iter :: int where
  "host_max_iter = 64"

definition clamp_fanout :: "int \<Rightarrow> int" where
  "clamp_fanout req = (if req > host_max_fanout then host_max_fanout else if req < 0 then 0 else req)"

definition clamp_iter :: "int \<Rightarrow> int" where
  "clamp_iter req = (if req > host_max_iter then host_max_iter else if req < 0 then 0 else req)"

text \<open>The stacks \<open>parallel\<close> gives its branches, in slice order before any of them starts.\<close>

definition branch_stacks :: "string \<Rightarrow> int \<Rightarrow> nat \<Rightarrow> scope_stack \<Rightarrow> scope_stack list" where
  "branch_stacks call_site fan_out branches st =
     (let requested = int branches;
          requested' = (if 0 \<le> fan_out \<and> fan_out < requested then fan_out else requested)
      in map (\<lambda>j. fork (Frame_Par call_site j) st) [0..<nat (clamp_fanout requested')])"

section \<open>Scripts and threads\<close>

datatype 'a op = Op_Call string 'a | Op_Loop nat | Op_EndLoop | Op_End

type_synonym 'a script = "string list \<Rightarrow> 'a op"

record 'a codec =
  co_hash :: "string \<Rightarrow> 'a \<Rightarrow> string"
  co_shown :: "string \<Rightarrow> string"

text \<open>
  A successful effect: the result as stored, as the script sees it when the effect has just
  run, and its provenance.
\<close>

record effect_result =
  ef_blob :: string
  ef_shown :: string
  ef_SpawnID :: string
  ef_CostSource :: string
  ef_CostUSD :: int

datatype host_error =
  Version_Drift | Quarantine string string string | Journal_Failed | Effect_Failed string

text \<open>
  Where a thread stands between two calls, or inside \<open>readThrough\<close>: after the lookup of a
  call that has to run, after its pending record, after its effect.
\<close>

datatype thread_pc =
  Ready
| Looked_Up string string string
| Recorded string string string
| Effected string string string effect_result
| Finished
| Stopped host_error

record 'a thread =
  th_script :: "'a script"
  th_base :: scope_stack
  th_stack :: scope_stack
  th_history :: "string list"
  th_pc :: thread_pc

datatype host_event = Effect string nat | Committed string | Crashed

record 'a host =
  ho_run :: string
  ho_version :: string
  ho_journal :: journal_db
  ho_threads :: "'a thread list"
  ho_log :: "host_event list"

definition host_interpreter_version :: string where
  "host_interpreter_version = ''starlark-go@v0.0.0-20260708150628-5395d018f003''"

definition loop_label :: string where
  "loop_label = ''drain''"

definition parallel_site :: string where
  "parallel_site = ''p0''"

definition success_record :: "string \<Rightarrow> string \<Rightarrow> effect_result \<Rightarrow> journal_record" where
  "success_record prim h e =
     \<lparr>rec_PrimName = prim, rec_CallHash = h, rec_Status = Status_Success, rec_ResultBlob = ef_blob e,
      rec_SpawnID = ef_SpawnID e, rec_CostSource = ef_CostSource e, rec_CostUSD = ef_CostUSD e\<rparr>"

definition quarantine_record :: "string \<Rightarrow> string \<Rightarrow> journal_record" where
  "quarantine_record prim h = (pending_record prim h)\<lparr>rec_Status := Status_Quarantined\<rparr>"

definition returns :: "string \<Rightarrow> 'a thread \<Rightarrow> 'a thread" where
  "returns shown t = t\<lparr>th_history := th_history t @ [shown], th_pc := Ready\<rparr>"

text \<open>What the lookup decides: \<open>readThrough\<close> up to the live path.\<close>

datatype lookup_result = Replay string | Run_Live | Freeze string | Frozen

definition look_up :: "'a codec \<Rightarrow> string \<Rightarrow> journal_record option \<Rightarrow> lookup_result" where
  "look_up c h prior =
     (case prior of
        None \<Rightarrow> Run_Live
      | Some r \<Rightarrow>
          if rec_CallHash r \<noteq> h then Freeze (rec_CallHash r)
          else case rec_Status r of
            Status_Quarantined \<Rightarrow> Frozen
          | Status_Success \<Rightarrow> Replay (co_shown c (rec_ResultBlob r))
          | Status_Pending \<Rightarrow> Run_Live)"

definition set_thread :: "nat \<Rightarrow> 'a thread \<Rightarrow> 'a host \<Rightarrow> 'a host" where
  "set_thread i t h = h\<lparr>ho_threads := (ho_threads h)[i := t]\<rparr>"

definition log_host :: "host_event \<Rightarrow> 'a host \<Rightarrow> 'a host" where
  "log_host e h = h\<lparr>ho_log := ho_log h @ [e]\<rparr>"

definition write_error :: "string \<Rightarrow> journal_error \<Rightarrow> host_error" where
  "write_error key e =
     (case hash_clash e of Some (want, got) \<Rightarrow> Quarantine key want got | None \<Rightarrow> Journal_Failed)"

definition after_write :: "string \<Rightarrow> journal_db \<times> journal_error option \<Rightarrow> thread_pc \<Rightarrow> thread_pc" where
  "after_write key w pc = (case snd w of None \<Rightarrow> pc | Some e \<Rightarrow> Stopped (write_error key e))"

definition begin_call :: "'a codec \<Rightarrow> time \<Rightarrow> nat \<Rightarrow> 'a thread \<Rightarrow> string \<Rightarrow> 'a \<Rightarrow> 'a host \<Rightarrow> 'a host" where
  "begin_call c now i t prim args h =
     (let hash = co_hash c prim args;
          (key, st) = leaf_key prim hash (th_stack t);
          t' = t\<lparr>th_stack := st\<rparr>
      in case look_up c hash (journal_get (ho_run h) (ho_journal h) key) of
           Replay shown \<Rightarrow> set_thread i (returns shown t') h
         | Frozen \<Rightarrow> set_thread i (t'\<lparr>th_pc := Stopped (Quarantine key hash hash)\<rparr>) h
         | Freeze want \<Rightarrow>
             (let w = journal_append now (ho_run h) key (quarantine_record prim want) (ho_journal h)
              in (set_thread i (t'\<lparr>th_pc := after_write key w (Stopped (Quarantine key want hash))\<rparr>) h)
                   \<lparr>ho_journal := fst w\<rparr>)
         | Run_Live \<Rightarrow> set_thread i (t'\<lparr>th_pc := Looked_Up prim key hash\<rparr>) h)"

definition ready_step :: "'a codec \<Rightarrow> time \<Rightarrow> nat \<Rightarrow> 'a thread \<Rightarrow> 'a host \<Rightarrow> 'a host" where
  "ready_step c now i t h =
     (case th_script t (th_history t) of
        Op_Call prim args \<Rightarrow>
          if ho_version h \<noteq> host_interpreter_version then set_thread i (t\<lparr>th_pc := Stopped Version_Drift\<rparr>) h
          else begin_call c now i t prim args h
      | Op_Loop n \<Rightarrow> set_thread i (returns [] (t\<lparr>th_stack := push (Frame_Loop loop_label n) (th_stack t)\<rparr>)) h
      | Op_EndLoop \<Rightarrow> set_thread i (returns [] (t\<lparr>th_stack := pop (th_stack t)\<rparr>)) h
      | Op_End \<Rightarrow> set_thread i (t\<lparr>th_pc := Finished\<rparr>) h)"

text \<open>One step of the thread number \<open>i\<close>; the outcome is what the executor answers.\<close>

definition thread_step ::
  "'a codec \<Rightarrow> time \<Rightarrow> (string + effect_result) \<Rightarrow> nat \<Rightarrow> 'a host \<Rightarrow> 'a host" where
  "thread_step c now outcome i h =
     (let t = ho_threads h ! i in
      case th_pc t of
        Ready \<Rightarrow> ready_step c now i t h
      | Looked_Up prim key hash \<Rightarrow>
          (let w = journal_append now (ho_run h) key (pending_record prim hash) (ho_journal h)
           in (set_thread i (t\<lparr>th_pc := after_write key w (Recorded prim key hash)\<rparr>) h)\<lparr>ho_journal := fst w\<rparr>)
      | Recorded prim key hash \<Rightarrow>
          log_host (Effect key (success_count (ho_run h) (ho_journal h) + 1))
            (set_thread i (t\<lparr>th_pc := (case outcome of
                Inl e \<Rightarrow> Stopped (Effect_Failed e)
              | Inr r \<Rightarrow> Effected prim key hash r)\<rparr>) h)
      | Effected prim key hash r \<Rightarrow>
          (let w = journal_append now (ho_run h) key (success_record prim hash r) (ho_journal h);
               h' = h\<lparr>ho_journal := fst w\<rparr>
           in case snd w of
                None \<Rightarrow> log_host (Committed key) (set_thread i (returns (ef_shown r) t) h')
              | Some e \<Rightarrow> set_thread i (t\<lparr>th_pc := Stopped (write_error key e)\<rparr>) h')
      | _ \<Rightarrow> h)"

text \<open>A crash loses the threads' progress and keeps the journal.\<close>

definition restart_thread :: "'a thread \<Rightarrow> 'a thread" where
  "restart_thread t = t\<lparr>th_stack := th_base t, th_history := [], th_pc := Ready\<rparr>"

definition crash :: "'a host \<Rightarrow> 'a host" where
  "crash h = log_host Crashed (h\<lparr>ho_threads := map restart_thread (ho_threads h)\<rparr>)"

datatype host_action = Step_Thread nat time "string + effect_result" | Crash

fun host_step :: "'a codec \<Rightarrow> host_action \<Rightarrow> 'a host \<Rightarrow> 'a host option" where
  "host_step c (Step_Thread i now outcome) h =
     (if i < length (ho_threads h) then Some (thread_step c now outcome i h) else None)"
| "host_step c Crash h = Some (crash h)"

fun host_run :: "'a codec \<Rightarrow> host_action list \<Rightarrow> 'a host \<Rightarrow> 'a host option" where
  "host_run c [] h = Some h"
| "host_run c (a # as) h = (case host_step c a h of None \<Rightarrow> None | Some h' \<Rightarrow> host_run c as h')"

definition new_thread :: "scope_stack \<Rightarrow> 'a script \<Rightarrow> 'a thread" where
  "new_thread base p = \<lparr>th_script = p, th_base = base, th_stack = base, th_history = [], th_pc = Ready\<rparr>"

definition new_host :: "string \<Rightarrow> string \<Rightarrow> (scope_stack \<times> 'a script) list \<Rightarrow> 'a host" where
  "new_host version run ps =
     \<lparr>ho_run = run, ho_version = version, ho_journal = empty_journal, ho_threads = map (\<lambda>(b, p). new_thread b p) ps, ho_log = []\<rparr>"

end
