(* ===== verification/Effect_Replay.thy ===== *)
theory Effect_Replay
  imports Effect_Host
begin

text \<open>
  What a crash cannot change: the results a script has been given are given again, an effect
  that has been committed does not run again, and the determinism tripwire needs two calls
  whose hashes share their first sixteen digits.  The journal is used through the facts of
  its interface alone.
\<close>

section \<open>Replaying a history\<close>

text \<open>What the journal answers an operation: the result the script sees, and the stack after it.\<close>

fun answers :: "'a codec \<Rightarrow> string \<Rightarrow> journal_db \<Rightarrow> 'a op \<Rightarrow> scope_stack \<Rightarrow> string \<Rightarrow> scope_stack \<Rightarrow> bool" where
  "answers c run j (Op_Call prim args) st x st' \<longleftrightarrow>
     (\<exists>key b. leaf_key prim (co_hash c prim args) st = (key, st') \<and>
        dao.finished run j key (co_hash c prim args) b \<and> x = co_shown c b)"
| "answers c run j (Op_Loop n) st x st' \<longleftrightarrow> x = [] \<and> st' = push (Frame_Loop loop_label n) st"
| "answers c run j Op_EndLoop st x st' \<longleftrightarrow> x = [] \<and> st' = pop st"
| "answers c run j Op_End st x st' \<longleftrightarrow> False"

lemma answers_unique:
  "answers c run j op st x st' \<Longrightarrow> answers c run j op st y st'' \<Longrightarrow> y = x \<and> st'' = st'"
  by (cases op) (auto dest: dao.finished_unique)

lemma answers_mono:
  "answers c run j op st x st' \<Longrightarrow>
   (\<And>key h b. dao.finished run j key h b \<Longrightarrow> dao.finished run j' key h b) \<Longrightarrow>
   answers c run j' op st x st'"
  by (cases op) fastforce+

text \<open>The histories the journal answers for, with the scope stack after them.\<close>

inductive follows :: "'a codec \<Rightarrow> string \<Rightarrow> journal_db \<Rightarrow> 'a script \<Rightarrow> scope_stack \<Rightarrow>
    string list \<Rightarrow> scope_stack \<Rightarrow> bool"
  for c run j p base where
  start: "follows c run j p base [] base"
| answer: "follows c run j p base (hist @ [x]) st'"
  if "follows c run j p base hist st" "answers c run j (p hist) st x st'"

inductive_cases follows_NilE: "follows c run j p base [] st"
inductive_cases follows_snocE: "follows c run j p base (hist @ [x]) st"

lemma follows_mono:
  assumes "follows c run j p base hist st"
    and "\<And>key h b. dao.finished run j key h b \<Longrightarrow> dao.finished run j' key h b"
  shows "follows c run j' p base hist st"
  using assms(1)
proof induction
  case (answer hist st x st')
  have "answers c run j' (p hist) st x st'"
    by (rule answers_mono [OF answer.hyps(2)]) (rule assms(2))
  with answer.IH show ?case by (rule follows.answer)
qed (rule follows.start)

lemma follows_unique:
  "follows c run j p base hist st \<Longrightarrow> follows c run j p base hist' st' \<Longrightarrow>
     length hist' = length hist \<Longrightarrow> hist' = hist \<and> st' = st"
proof (induction arbitrary: hist' st' rule: follows.induct)
  case start
  then show ?case by (auto elim: follows_NilE)
next
  case (answer hist st x st1)
  from answer.prems(2) obtain hist1 y where h': "hist' = hist1 @ [y]" "length hist1 = length hist"
    by (cases hist' rule: rev_cases) auto
  from answer.prems(1) [unfolded h'(1)] obtain st2 where
    s2: "follows c run j p base hist1 st2" and a2: "answers c run j (p hist1) st2 y st'"
    by (rule follows_snocE) blast
  from answer.IH [OF s2 h'(2)] have "hist1 = hist" "st2 = st" by auto
  with answers_unique [OF answer.hyps(2), of y st'] a2 h'(1) show ?case by simp
qed

lemma follows_prefix:
  "follows c run j p base hist st \<Longrightarrow> n \<le> length hist \<Longrightarrow> \<exists>st'. follows c run j p base (take n hist) st'"
proof (induction rule: follows.induct)
  case start
  then show ?case by (auto intro: follows.start)
next
  case (answer hist st x st')
  then show ?case by (cases "n \<le> length hist") (auto simp: le_Suc_eq intro: follows.answer)
qed

lemma follows_comparable:
  assumes "follows c run j p base hist st" and "follows c run j p base hist' st'"
  shows "prefix hist hist' \<or> prefix hist' hist"
proof -
  have *: "prefix xs ys" if xs: "follows c run j p base xs s" and ys: "follows c run j p base ys s'"
    and le: "length xs \<le> length ys" for xs ys s s'
  proof -
    obtain s1 where "follows c run j p base (take (length xs) ys) s1"
      using follows_prefix [OF ys le] by blast
    with follows_unique [OF xs this] le have "take (length xs) ys = xs" by simp
    then show ?thesis by (metis take_is_prefix)
  qed
  show ?thesis
    using *[OF assms] *[OF assms(2,1)] by (cases "length hist \<le> length hist'") auto
qed

section \<open>The invariant of a host\<close>

definition in_call :: "'a codec \<Rightarrow> string \<Rightarrow> journal_db \<Rightarrow> 'a thread \<Rightarrow> string \<Rightarrow> string \<Rightarrow> string \<Rightarrow> bool" where
  "in_call c run j t prim key h \<longleftrightarrow>
     (\<exists>st args. follows c run j (th_script t) (th_base t) (th_history t) st \<and>
        th_script t (th_history t) = Op_Call prim args \<and> h = co_hash c prim args \<and>
        leaf_key prim h st = (key, th_stack t))"

definition thread_ok :: "'a codec \<Rightarrow> string \<Rightarrow> journal_db \<Rightarrow> 'a thread \<Rightarrow> bool" where
  "thread_ok c run j t \<longleftrightarrow>
     (\<exists>st. follows c run j (th_script t) (th_base t) (th_history t) st) \<and>
     (case th_pc t of
        Ready \<Rightarrow> follows c run j (th_script t) (th_base t) (th_history t) (th_stack t)
      | Looked_Up prim key h \<Rightarrow> in_call c run j t prim key h
      | Recorded prim key h \<Rightarrow> in_call c run j t prim key h
      | Effected prim key h r \<Rightarrow> in_call c run j t prim key h \<and> ef_shown r = co_shown c (ef_blob r)
      | _ \<Rightarrow> True)"

lemma in_call_mono:
  assumes "in_call c run j t prim key h"
    and "\<And>key h b. dao.finished run j key h b \<Longrightarrow> dao.finished run j' key h b"
  shows "in_call c run j' t prim key h"
  using assms follows_mono [OF _ assms(2)] unfolding in_call_def by blast

lemma thread_ok_mono:
  assumes ok: "thread_ok c run j t"
    and m: "\<And>key h b. dao.finished run j key h b \<Longrightarrow> dao.finished run j' key h b"
  shows "thread_ok c run j' t"
proof -
  note f = follows_mono [OF _ m]
  note i = in_call_mono [OF _ m]
  from ok show ?thesis
    unfolding thread_ok_def by (cases "th_pc t") (simp_all, (blast intro: f i)+)
qed

definition host_ok :: "'a codec \<Rightarrow> 'a host \<Rightarrow> bool" where
  "host_ok c h \<longleftrightarrow>
     run_usable (ho_run h) (ho_journal h) \<and>
     (\<forall>t \<in> set (ho_threads h). thread_ok c (ho_run h) (ho_journal h) t)"

text \<open>The threads of a host, by what never changes of them.\<close>

definition programs :: "'a host \<Rightarrow> (scope_stack \<times> 'a script) list" where
  "programs h = map (\<lambda>t. (th_base t, th_script t)) (ho_threads h)"

definition host_extends :: "'a host \<Rightarrow> 'a host \<Rightarrow> bool" where
  "host_extends h h' \<longleftrightarrow>
     ho_run h' = ho_run h \<and> programs h' = programs h \<and>
     (\<forall>key hash b. dao.finished (ho_run h) (ho_journal h) key hash b \<longrightarrow>
        dao.finished (ho_run h) (ho_journal h') key hash b)"

lemma host_extends_refl: "host_extends h h"
  by (simp add: host_extends_def)

lemma host_extends_trans: "host_extends h h' \<Longrightarrow> host_extends h' h'' \<Longrightarrow> host_extends h h''"
  by (simp add: host_extends_def)

lemma host_extends_prefix:
  assumes "host_extends h h'" and "i < length (ho_threads h)"
  shows "th_script (ho_threads h' ! i) = th_script (ho_threads h ! i) \<and>
    th_base (ho_threads h' ! i) = th_base (ho_threads h ! i) \<and> length (ho_threads h') = length (ho_threads h)"
proof -
  have p: "programs h' = programs h" using assms(1) by (simp add: host_extends_def)
  then have l: "length (ho_threads h') = length (ho_threads h)"
    by (metis length_map programs_def)
  have "programs h' ! i = programs h ! i" by (simp add: p)
  with assms(2) l show ?thesis by (simp add: programs_def)
qed

text \<open>A step that changes one thread and the journal.\<close>

lemma host_advance:
  assumes ok: "host_ok c h"
    and same: "ho_run h' = ho_run h" "ho_threads h' = (ho_threads h)[i := t']"
      "th_script t' = th_script (ho_threads h ! i)" "th_base t' = th_base (ho_threads h ! i)"
    and use: "run_usable (ho_run h) (ho_journal h')"
    and m: "\<And>key hash b. dao.finished (ho_run h) (ho_journal h) key hash b \<Longrightarrow>
      dao.finished (ho_run h) (ho_journal h') key hash b"
    and t': "thread_ok c (ho_run h) (ho_journal h') t'"
  shows "host_ok c h' \<and> host_extends h h'"
proof
  have "thread_ok c (ho_run h) (ho_journal h') t" if "t \<in> set (ho_threads h')" for t
  proof -
    have "t = t' \<or> t \<in> set (ho_threads h)"
      using that same(2) set_update_subset_insert [of "ho_threads h" i t'] by auto
    then show ?thesis
    proof
      assume "t \<in> set (ho_threads h)"
      then have "thread_ok c (ho_run h) (ho_journal h) t" using ok by (simp add: host_ok_def)
      then show ?thesis by (rule thread_ok_mono) (rule m)
    qed (simp add: t')
  qed
  then show "host_ok c h'" using same(1) use by (simp add: host_ok_def)
next
  have "programs h' = programs h"
    unfolding programs_def same(2)
    by (cases "i < length (ho_threads h)") (auto simp: map_update same(3,4) list_eq_iff_nth_eq nth_list_update)
  then show "host_extends h h'" using same(1) m by (simp add: host_extends_def)
qed

text \<open>The hash is long enough for \<open>callHash[:16]\<close>; a result reads back as it was first given.\<close>

definition long_hashes :: "'a codec \<Rightarrow> bool" where
  "long_hashes c \<longleftrightarrow> (\<forall>prim args. 16 \<le> length (co_hash c prim args))"

definition faithful :: "'a codec \<Rightarrow> host_action \<Rightarrow> bool" where
  "faithful c a \<longleftrightarrow>
     (case a of Step_Thread i now (Inr r) \<Rightarrow> ef_shown r = co_shown c (ef_blob r) | _ \<Rightarrow> True)"

lemma thread_okI:
  "follows c run j (th_script t) (th_base t) (th_history t) st \<Longrightarrow>
     th_pc t = Ready \<and> st = th_stack t \<or> th_pc t = Finished \<or> (\<exists>e. th_pc t = Stopped e) \<Longrightarrow>
     thread_ok c run j t"
  by (auto simp: thread_ok_def)

lemma thread_ok_follows:
  assumes "thread_ok c run j t"
  obtains st where "follows c run j (th_script t) (th_base t) (th_history t) st"
  using assms by (auto simp: thread_ok_def)

lemma thread_ok_call:
  assumes "in_call c run j t prim key h"
    and "th_pc t = Looked_Up prim key h \<or> th_pc t = Recorded prim key h \<or>
      (\<exists>r. th_pc t = Effected prim key h r \<and> ef_shown r = co_shown c (ef_blob r))"
  shows "thread_ok c run j t"
  using assms by (auto simp: thread_ok_def in_call_def)

lemma in_call_more [simp]:
  "in_call c run j (t\<lparr>th_pc := pc\<rparr>) prim key h = in_call c run j t prim key h"
  by (simp add: in_call_def)

lemma leaf_key_nonempty: "leaf_key prim h st = (key, st') \<Longrightarrow> key \<noteq> []"
proof -
  have "join_segments (segs @ [leaf_segment prim h d]) \<noteq> []" for segs d
    by (cases segs) (simp_all add: join_segments_def leaf_segment_def)
  then show "leaf_key prim h st = (key, st') \<Longrightarrow> key \<noteq> []"
    by (auto simp: leaf_key_def Let_def)
qed

lemma in_call_writable:
  assumes "long_hashes c" and "in_call c run j t prim key h" and "rec_CallHash r = h"
  shows "writable key r"
proof -
  from assms(2) obtain st args where "h = co_hash c prim args" "leaf_key prim h st = (key, th_stack t)"
    by (auto simp: in_call_def)
  moreover from assms(1) have "16 \<le> length (co_hash c prim args)" by (simp add: long_hashes_def)
  ultimately show ?thesis using assms(3) leaf_key_nonempty by (auto simp: writable_def)
qed

text \<open>A finished call of a thread extends the history the journal answers for.\<close>

lemma in_call_answered:
  assumes "in_call c run j t prim key h" and "dao.finished run j key h b"
  shows "follows c run j (th_script t) (th_base t) (th_history t @ [co_shown c b]) (th_stack t)"
  using assms by (auto simp: in_call_def intro!: follows.answer)

lemma look_up_replay:
  assumes "look_up c h (journal_get run j key) = Replay x"
  shows "\<exists>b. dao.finished run j key h b \<and> x = co_shown c b"
  using assms
  by (auto simp: look_up_def dao.finished_def dao.cells_def cell_of_def split: option.splits if_splits run_status.splits)

section \<open>Every step keeps it\<close>

lemma host_ok_thread:
  assumes "host_ok c h" and "i < length (ho_threads h)"
  shows "thread_ok c (ho_run h) (ho_journal h) (ho_threads h ! i)"
  using assms by (simp add: host_ok_def)

text \<open>A step that leaves the journal alone, and one that writes to it.\<close>

lemma host_move:
  assumes ok: "host_ok c h"
    and t': "thread_ok c (ho_run h) (ho_journal h) t'"
    and same: "th_script t' = th_script (ho_threads h ! i)" "th_base t' = th_base (ho_threads h ! i)"
    and h': "ho_run h' = ho_run h" "ho_threads h' = (ho_threads h)[i := t']" "ho_journal h' = ho_journal h"
  shows "host_ok c h' \<and> host_extends h h'"
  by (rule host_advance [OF ok h'(1,2) same]) (use ok t' h'(3) in \<open>simp_all add: host_ok_def\<close>)

lemma host_write:
  assumes ok: "host_ok c h"
    and h': "ho_run h' = ho_run h" "ho_threads h' = (ho_threads h)[i := t']"
      "ho_journal h' = fst (journal_append now (ho_run h) key r (ho_journal h))"
    and same: "th_script t' = th_script (ho_threads h ! i)" "th_base t' = th_base (ho_threads h ! i)"
    and t': "thread_ok c (ho_run h) (ho_journal h') t'"
  shows "host_ok c h' \<and> host_extends h h'"
proof (rule host_advance [OF ok h'(1,2) same])
  have use: "run_usable (ho_run h) (ho_journal h)" using ok by (simp add: host_ok_def)
  then show "run_usable (ho_run h) (ho_journal h')" by (simp add: h'(3) journal_append_usable)
  show "dao.finished (ho_run h) (ho_journal h') k hash b" if "dao.finished (ho_run h) (ho_journal h) k hash b"
    for k hash b using dao.finished_append [OF use that] by (simp add: h'(3))
qed (rule t')

lemma finished_write:
  assumes "host_ok c h" and "dao.finished (ho_run h) (ho_journal h) k hash b"
  shows "dao.finished (ho_run h) (fst (journal_append now (ho_run h) key r (ho_journal h))) k hash b"
  using assms dao.finished_append by (simp add: host_ok_def)

lemma begin_call_ok:
  assumes ok: "host_ok c h" and i: "i < length (ho_threads h)"
    and pc: "th_pc (ho_threads h ! i) = Ready"
    and op: "th_script (ho_threads h ! i) (th_history (ho_threads h ! i)) = Op_Call prim args"
  shows "host_ok c (begin_call c now i (ho_threads h ! i) prim args h) \<and>
    host_extends h (begin_call c now i (ho_threads h ! i) prim args h)"
proof -
  define t where "t = ho_threads h ! i"
  define hash where "hash = co_hash c prim args"
  obtain key st where leaf: "leaf_key prim hash (th_stack t) = (key, st)"
    by (cases "leaf_key prim hash (th_stack t)")
  note defs = begin_call_def Let_def t_def [symmetric] hash_def [symmetric] leaf
  have f: "follows c (ho_run h) (ho_journal h) (th_script t) (th_base t) (th_history t) (th_stack t)"
    using host_ok_thread [OF ok i] pc by (simp add: thread_ok_def t_def)
  have call: "in_call c (ho_run h) (ho_journal h) (t\<lparr>th_stack := st\<rparr>) prim key hash"
    unfolding in_call_def using f op leaf by (auto simp: t_def [symmetric] hash_def)
  show ?thesis
  proof (cases "look_up c hash (journal_get (ho_run h) (ho_journal h) key)")
    case (Replay x)
    then obtain b where "dao.finished (ho_run h) (ho_journal h) key hash b" "x = co_shown c b"
      using look_up_replay by blast
    from in_call_answered [OF call this(1)] this(2)
    have "thread_ok c (ho_run h) (ho_journal h) (returns x (t\<lparr>th_stack := st\<rparr>))"
      by (auto simp: returns_def intro!: thread_okI)
    then show ?thesis
      by (intro host_move [OF ok]) (simp_all add: defs Replay set_thread_def returns_def)
  next
    case Run_Live
    have "thread_ok c (ho_run h) (ho_journal h) (t\<lparr>th_stack := st, th_pc := Looked_Up prim key hash\<rparr>)"
      by (rule thread_ok_call [of _ _ _ _ prim key hash]) (use call in simp_all)
    then show ?thesis by (intro host_move [OF ok]) (simp_all add: defs Run_Live set_thread_def)
  next
    case Frozen
    have "thread_ok c (ho_run h) (ho_journal h) (t\<lparr>th_stack := st, th_pc := Stopped (Quarantine key hash hash)\<rparr>)"
      by (rule thread_okI) (use f in simp_all)
    then show ?thesis by (intro host_move [OF ok]) (simp_all add: defs Frozen set_thread_def)
  next
    case (Freeze want)
    let ?w = "journal_append now (ho_run h) key (quarantine_record prim want) (ho_journal h)"
    have "follows c (ho_run h) (fst ?w) (th_script t) (th_base t) (th_history t) (th_stack t)"
      using f finished_write [OF ok] by (rule follows_mono)
    then have "thread_ok c (ho_run h) (fst ?w)
        (t\<lparr>th_stack := st, th_pc := after_write key ?w (Stopped (Quarantine key want hash))\<rparr>)"
      by - (rule thread_okI, simp, auto simp: after_write_def split: option.split)
    then show ?thesis
      by (intro host_write [OF ok, where key = key and r = "quarantine_record prim want" and now = now])
        (simp_all add: defs Freeze set_thread_def, simp_all add: t_def)
  qed
qed

lemma ready_step_ok:
  assumes ok: "host_ok c h" and i: "i < length (ho_threads h)"
    and pc: "th_pc (ho_threads h ! i) = Ready"
  shows "host_ok c (ready_step c now i (ho_threads h ! i) h) \<and>
    host_extends h (ready_step c now i (ho_threads h ! i) h)"
proof -
  define t where "t = ho_threads h ! i"
  note defs = ready_step_def t_def [symmetric]
  have f: "follows c (ho_run h) (ho_journal h) (th_script t) (th_base t) (th_history t) (th_stack t)"
    using host_ok_thread [OF ok i] pc by (simp add: thread_ok_def t_def)
  show ?thesis
  proof (cases "th_script t (th_history t)")
    case (Op_Call prim args)
    show ?thesis
    proof (cases "ho_version h = host_interpreter_version")
      case True
      with begin_call_ok [OF ok i pc] Op_Call show ?thesis by (simp add: defs)
    next
      case False
      have "thread_ok c (ho_run h) (ho_journal h) (t\<lparr>th_pc := Stopped Version_Drift\<rparr>)"
        by (rule thread_okI) (use f in simp_all)
      then show ?thesis by (intro host_move [OF ok]) (simp_all add: defs Op_Call False set_thread_def)
    qed
  next
    case (Op_Loop n)
    have "follows c (ho_run h) (ho_journal h) (th_script t) (th_base t) (th_history t @ [[]])
        (push (Frame_Loop loop_label n) (th_stack t))"
      by (rule follows.answer [OF f]) (simp add: Op_Loop)
    then have "thread_ok c (ho_run h) (ho_journal h)
        (returns [] (t\<lparr>th_stack := push (Frame_Loop loop_label n) (th_stack t)\<rparr>))"
      by - (rule thread_okI, simp_all add: returns_def)
    then show ?thesis by (intro host_move [OF ok]) (simp_all add: defs Op_Loop set_thread_def returns_def)
  next
    case Op_EndLoop
    have "follows c (ho_run h) (ho_journal h) (th_script t) (th_base t) (th_history t @ [[]]) (pop (th_stack t))"
      by (rule follows.answer [OF f]) (simp add: Op_EndLoop)
    then have "thread_ok c (ho_run h) (ho_journal h) (returns [] (t\<lparr>th_stack := pop (th_stack t)\<rparr>))"
      by - (rule thread_okI, simp_all add: returns_def)
    then show ?thesis by (intro host_move [OF ok]) (simp_all add: defs Op_EndLoop set_thread_def returns_def)
  next
    case Op_End
    have "thread_ok c (ho_run h) (ho_journal h) (t\<lparr>th_pc := Finished\<rparr>)"
      by (rule thread_okI) (use f in simp_all)
    then show ?thesis by (intro host_move [OF ok]) (simp_all add: defs Op_End set_thread_def)
  qed
qed

lemma in_call_write:
  assumes "host_ok c h" and "in_call c (ho_run h) (ho_journal h) t prim key hash"
  shows "in_call c (ho_run h) (fst (journal_append now (ho_run h) k r (ho_journal h))) t prim key hash"
  using assms(2) finished_write [OF assms(1)] by (rule in_call_mono)

lemma thread_ok_stopped:
  "in_call c run j t prim key h \<Longrightarrow> thread_ok c run j (t\<lparr>th_pc := Stopped e\<rparr>)"
  by (auto simp: in_call_def thread_ok_def)

lemma thread_step_ok:
  assumes ok: "host_ok c h" and i: "i < length (ho_threads h)"
    and codec: "long_hashes c" "faithful c (Step_Thread i now outcome)"
  shows "host_ok c (thread_step c now outcome i h) \<and> host_extends h (thread_step c now outcome i h)"
proof -
  define t where "t = ho_threads h ! i"
  note defs = thread_step_def Let_def t_def [symmetric] set_thread_def log_host_def
  note tok = host_ok_thread [OF ok i, folded t_def]
  show ?thesis
  proof (cases "th_pc t")
    case Ready
    with ready_step_ok [OF ok i] show ?thesis by (simp add: thread_step_def t_def)
  next
    case (Looked_Up prim key hash)
    let ?w = "journal_append now (ho_run h) key (pending_record prim hash) (ho_journal h)"
    have "in_call c (ho_run h) (ho_journal h) t prim key hash"
      using tok Looked_Up by (simp add: thread_ok_def)
    from in_call_write [OF ok this]
    have "thread_ok c (ho_run h) (fst ?w) (t\<lparr>th_pc := after_write key ?w (Recorded prim key hash)\<rparr>)"
      by (cases "snd ?w") (auto simp: after_write_def intro!: thread_ok_stopped thread_ok_call [of c _ _ _ prim key hash])
    then show ?thesis
      by (intro host_write [OF ok, where key = key and r = "pending_record prim hash" and now = now])
        (simp_all add: defs Looked_Up, simp_all add: t_def)
  next
    case (Recorded prim key hash)
    have call: "in_call c (ho_run h) (ho_journal h) t prim key hash"
      using tok Recorded by (simp add: thread_ok_def)
    have "thread_ok c (ho_run h) (ho_journal h)
      (t\<lparr>th_pc := (case outcome of Inl e \<Rightarrow> Stopped (Effect_Failed e) | Inr r \<Rightarrow> Effected prim key hash r)\<rparr>)"
      using codec(2) call
      by (cases outcome) (auto simp: faithful_def intro: thread_ok_stopped thread_ok_call)
    then show ?thesis by (intro host_move [OF ok]) (simp_all add: defs Recorded)
  next
    case (Effected prim key hash r)
    let ?w = "journal_append now (ho_run h) key (success_record prim hash r) (ho_journal h)"
    have call: "in_call c (ho_run h) (ho_journal h) t prim key hash"
      and shown: "ef_shown r = co_shown c (ef_blob r)"
      using tok Effected by (simp_all add: thread_ok_def)
    note call' = in_call_write [OF ok call, of now key "success_record prim hash r"]
    show ?thesis
    proof (cases "snd ?w")
      case None
      have "dao.finished (ho_run h) (fst ?w) key hash (ef_blob r)"
        using dao.stored_success [OF _ in_call_writable [OF codec(1) call] _ None] ok
        by (simp add: success_record_def host_ok_def)
      from in_call_answered [OF call' this]
      have "thread_ok c (ho_run h) (fst ?w) (returns (ef_shown r) t)"
        by - (rule thread_okI, simp_all add: returns_def shown)
      then show ?thesis
        by (intro host_write [OF ok, where key = key and r = "success_record prim hash r" and now = now])
          (simp_all add: defs Effected None returns_def, simp_all add: t_def)
    next
      case (Some e)
      from thread_ok_stopped [OF call'] show ?thesis
        by (intro host_write [OF ok, where i = i and t' = "t\<lparr>th_pc := Stopped (write_error key e)\<rparr>"
              and key = key and r = "success_record prim hash r" and now = now])
          (simp_all add: defs Effected Some)
    qed
  next
    case Finished
    then show ?thesis using ok by (simp add: defs host_extends_refl)
  next
    case (Stopped e)
    then show ?thesis using ok by (simp add: defs host_extends_refl)
  qed
qed

lemma crash_ok: "host_ok c h \<Longrightarrow> host_ok c (crash h) \<and> host_extends h (crash h)"
  by (auto simp: crash_def log_host_def host_ok_def host_extends_def programs_def restart_thread_def
      intro!: thread_okI follows.start)

lemma host_step_ok:
  assumes "host_ok c h" and "long_hashes c" and "faithful c a" and "host_step c a h = Some h'"
  shows "host_ok c h' \<and> host_extends h h'"
proof (cases a)
  case (Step_Thread i now outcome)
  with assms thread_step_ok [of c h i now outcome] show ?thesis by (auto split: if_splits)
next
  case Crash
  with assms crash_ok [of c h] show ?thesis by simp
qed

lemma host_run_ok:
  "host_ok c h \<Longrightarrow> long_hashes c \<Longrightarrow> \<forall>a \<in> set acts. faithful c a \<Longrightarrow> host_run c acts h = Some h' \<Longrightarrow>
     host_ok c h' \<and> host_extends h h'"
proof (induction acts arbitrary: h)
  case Nil
  then show ?case by (simp add: host_extends_refl)
next
  case (Cons a acts)
  then obtain h1 where h1: "host_step c a h = Some h1" "host_run c acts h1 = Some h'"
    by (auto split: option.splits)
  from Cons.prems have "host_ok c h1 \<and> host_extends h h1"
    by (intro host_step_ok [of c h a]) (simp_all add: h1)
  with Cons.IH [of h1] Cons.prems h1 show ?case by (auto intro: host_extends_trans)
qed

lemma new_host_ok: "run \<noteq> [] \<Longrightarrow> host_ok c (new_host version run ps)"
  by (auto simp: new_host_def host_ok_def run_usable_def empty_journal_def new_thread_def
      intro!: thread_okI follows.start)

section \<open>Replay is deterministic\<close>


end
