(* ===== verification/Effect_Once.thy ===== *)
theory Effect_Once
  imports Effect_Replay
begin

text \<open>
  An effect runs once: in a host with one thread, no effect runs after its step has been
  committed, and it is only run again when a crash has come between.
\<close>

section \<open>The order of effects and commits\<close>

definition since_crash :: "host_event list \<Rightarrow> host_event list" where
  "since_crash log = takeWhile (\<lambda>e. e \<noteq> Crashed) (rev log)"

lemma since_crash_snoc [simp]:
  "since_crash (log @ [e]) = (if e = Crashed then [] else e # since_crash log)"
  by (simp add: since_crash_def)

lemma since_crash_Nil [simp]: "since_crash [] = []"
  by (simp add: since_crash_def)

text \<open>
  The logs a host may write: an effect runs when its step is not committed and has not run
  since the last crash; a commit directly follows the effect it records.
\<close>

inductive effects_once :: "host_event list \<Rightarrow> bool" where
  nothing: "effects_once []"
| effect: "effects_once (log @ [Effect k n])"
  if "effects_once log" "Committed k \<notin> set log" "\<forall>m. Effect k m \<notin> set (since_crash log)"
| commit: "effects_once (log @ [Effect k n, Committed k])"
  if "effects_once (log @ [Effect k n])"
| crashed: "effects_once (log @ [Crashed])" if "effects_once log"

definition unfinished :: "string \<Rightarrow> journal_db \<Rightarrow> string \<Rightarrow> bool" where
  "unfinished run j key \<longleftrightarrow> (\<forall>h b. \<not> dao.finished run j key h b)"

lemma unfinished_pending:
  assumes "run_usable run j" and "rec_Status r = Status_Pending" and "unfinished run j key"
  shows "unfinished run (fst (journal_append now run key r j)) key"
proof (cases "writable key r")
  case True
  then show ?thesis
    using assms dao.cells_append [OF assms(1) True, of now]
    by (cases "dao.cells run j key")
      (auto simp: unfinished_def dao.finished_def cell_of_def split: if_splits)
next
  case False
  then show ?thesis
    using assms(3) journal_append_refused [OF assms(1) False]
    by (simp add: unfinished_def dao.finished_def dao.cells_def)
qed

lemma look_up_live:
  "look_up c h (journal_get run j key) = Run_Live \<Longrightarrow> unfinished run j key"
  by (auto simp: look_up_def unfinished_def dao.finished_def dao.cells_def cell_of_def
      split: option.splits if_splits run_status.splits)

section \<open>The invariant of one thread\<close>

fun busy_with :: "thread_pc \<Rightarrow> string \<Rightarrow> bool" where
  "busy_with (Looked_Up prim key h) k = (k = key)"
| "busy_with (Recorded prim key h) k = (k = key)"
| "busy_with (Effected prim key h r) k = (k = key)"
| "busy_with _ k = False"

definition halted :: "thread_pc \<Rightarrow> string \<Rightarrow> bool" where
  "halted pc k \<longleftrightarrow> (\<exists>e. pc = Stopped e) \<or> (\<exists>prim h r. pc = Effected prim k h r)"

definition log_inv :: "string \<Rightarrow> journal_db \<Rightarrow> thread_pc \<Rightarrow> host_event list \<Rightarrow> bool" where
  "log_inv run j pc log \<longleftrightarrow>
     effects_once log \<and>
     (\<forall>k. Committed k \<in> set log \<longrightarrow> \<not> unfinished run j k) \<and>
     (\<forall>k n. Effect k n \<in> set (since_crash log) \<longrightarrow> \<not> unfinished run j k \<or> halted pc k) \<and>
     (\<forall>k. busy_with pc k \<longrightarrow> unfinished run j k) \<and>
     (\<forall>prim k h r. pc = Effected prim k h r \<longrightarrow> (\<exists>log' n. log = log' @ [Effect k n]))"

text \<open>A move that logs nothing: the journal keeps what is finished.\<close>

lemma log_inv_move:
  assumes inv: "log_inv run j pc log"
    and m: "\<And>k. \<not> unfinished run j k \<Longrightarrow> \<not> unfinished run j' k"
    and idle: "\<And>k. halted pc k \<Longrightarrow> halted pc' k \<or> \<not> unfinished run j' k"
    and busy: "\<And>k. busy_with pc' k \<Longrightarrow> unfinished run j' k"
    and pc': "\<And>prim k h r. pc' \<noteq> Effected prim k h r"
  shows "log_inv run j' pc' log"
  using inv m idle busy pc' unfolding log_inv_def by blast

lemma log_inv_effect:
  assumes inv: "log_inv run j (Recorded prim key h) log" and pc': "halted pc' key"
    and "\<And>k. busy_with pc' k \<Longrightarrow> k = key" and "\<And>prim k h r. pc' = Effected prim k h r \<Longrightarrow> k = key"
  shows "log_inv run j pc' (log @ [Effect key n])"
proof -
  have un: "unfinished run j key" using inv by (simp add: log_inv_def)
  have "\<not> halted (Recorded prim key h) k" for k by (simp add: halted_def)
  with inv un have "\<forall>m. Effect key m \<notin> set (since_crash log)" "Committed key \<notin> set log"
    unfolding log_inv_def by blast+
  with inv have "effects_once (log @ [Effect key n])"
    by (auto simp: log_inv_def intro: effects_once.effect)
  moreover have "halted pc' k" if "halted (Recorded prim key h) k" for k
    using that by (simp add: halted_def)
  ultimately show ?thesis
    using inv assms(2-4) un unfolding log_inv_def by (auto dest: assms(3))
qed

lemma log_inv_commit:
  assumes inv: "log_inv run j (Effected prim key h r) log"
    and m: "\<And>k. \<not> unfinished run j k \<Longrightarrow> \<not> unfinished run j' k" and "\<not> unfinished run j' key"
  shows "log_inv run j' Ready (log @ [Committed key])"
proof -
  from inv obtain log' n where log: "log = log' @ [Effect key n]" unfolding log_inv_def by blast
  with inv have "effects_once (log' @ [Effect key n, Committed key])"
    by (auto simp: log_inv_def intro: effects_once.commit)
  then have "effects_once (log @ [Committed key])" by (simp add: log)
  moreover have "\<not> unfinished run j' k" if "halted (Effected prim key h r) k \<or> \<not> unfinished run j k" for k
    using that m assms(3) by (auto simp: halted_def)
  ultimately show ?thesis
    using inv assms(3) unfolding log_inv_def by (simp add: m) blast
qed

lemma log_inv_crash: "log_inv run j pc log \<Longrightarrow> log_inv run j Ready (log @ [Crashed])"
  by (auto simp: log_inv_def intro: effects_once.crashed)

section \<open>Every step keeps it\<close>

definition once_inv :: "'a codec \<Rightarrow> 'a host \<Rightarrow> bool" where
  "once_inv c h \<longleftrightarrow> host_ok c h \<and>
     (\<exists>t. ho_threads h = [t] \<and> log_inv (ho_run h) (ho_journal h) (th_pc t) (ho_log h))"

lemma not_halted [simp]:
  "\<not> halted Ready k" "\<not> halted (Looked_Up prim key hash) k" "\<not> halted (Recorded prim key hash) k"
  "halted (Stopped e) k" "\<not> halted Finished k"
  by (simp_all add: halted_def)

lemma log_inv_ready:
  assumes "log_inv run j Ready log" and "\<And>k. \<not> unfinished run j k \<Longrightarrow> \<not> unfinished run j' k"
    and "\<And>k. busy_with pc k \<Longrightarrow> unfinished run j' k" and "\<And>prim k h r. pc \<noteq> Effected prim k h r"
  shows "log_inv run j' pc log"
  by (rule log_inv_move [OF assms(1,2)]) (simp_all add: assms(3,4))

lemma log_inv_idle:
  assumes "log_inv run j Ready log"
  shows "log_inv run j Finished log" "log_inv run j (Stopped e) log"
  by (rule log_inv_ready [OF assms], simp_all)+

lemma busy_after_write: "busy_with (after_write key w (Stopped e)) k = False"
  "after_write key w (Stopped e) \<noteq> Effected prim key' h r"
  by (simp_all add: after_write_def split: option.split)

lemma still_finished:
  assumes "run_usable run j" and "\<not> unfinished run j k"
  shows "\<not> unfinished run (fst (journal_append now run key r j)) k"
  using assms dao.finished_append unfolding unfinished_def by blast

lemma ready_step_log:
  assumes use: "run_usable (ho_run h) (ho_journal h)" and one: "ho_threads h = [t]" and pc: "th_pc t = Ready"
    and inv: "log_inv (ho_run h) (ho_journal h) Ready (ho_log h)"
  shows "\<exists>t'. ho_threads (ready_step c now 0 t h) = [t'] \<and>
    log_inv (ho_run h) (ho_journal (ready_step c now 0 t h)) (th_pc t') (ho_log (ready_step c now 0 t h))"
proof (cases "th_script t (th_history t)")
  case (Op_Call prim args)
  show ?thesis
  proof (cases "ho_version h = host_interpreter_version")
    case True
    obtain key st where leaf: "leaf_key prim (co_hash c prim args) (th_stack t) = (key, st)"
      by (cases "leaf_key prim (co_hash c prim args) (th_stack t)")
    note defs = ready_step_def begin_call_def Op_Call True leaf Let_def set_thread_def one returns_def
    show ?thesis
    proof (cases "look_up c (co_hash c prim args) (journal_get (ho_run h) (ho_journal h) key)")
      case (Freeze want)
      have "log_inv (ho_run h) (fst (journal_append now (ho_run h) key r (ho_journal h)))
          (after_write key w (Stopped e)) (ho_log h)" for r w e
        by (rule log_inv_ready [OF inv still_finished [OF use]]) (simp_all add: busy_after_write)
      then show ?thesis by (simp add: defs Freeze)
    next
      case Run_Live
      have "log_inv (ho_run h) (ho_journal h) (Looked_Up prim key (co_hash c prim args)) (ho_log h)"
        by (rule log_inv_ready [OF inv]) (use look_up_live [OF Run_Live] in simp_all)
      then show ?thesis by (simp add: defs Run_Live)
    qed (simp_all add: defs inv log_inv_idle [OF inv])
  qed (simp add: ready_step_def Op_Call set_thread_def one log_inv_idle [OF inv])
qed (simp_all add: ready_step_def set_thread_def one returns_def inv log_inv_idle [OF inv])

lemma thread_step_log:
  assumes ok: "host_ok c h" and codec: "long_hashes c" and one: "ho_threads h = [t]"
    and inv: "log_inv (ho_run h) (ho_journal h) (th_pc t) (ho_log h)"
  shows "\<exists>t'. ho_threads (thread_step c now outcome 0 h) = [t'] \<and>
    log_inv (ho_run h) (ho_journal (thread_step c now outcome 0 h)) (th_pc t') (ho_log (thread_step c now outcome 0 h))"
proof -
  have use: "run_usable (ho_run h) (ho_journal h)" using ok by (simp add: host_ok_def)
  note defs = thread_step_def Let_def one set_thread_def log_host_def
  have tok: "thread_ok c (ho_run h) (ho_journal h) t" using ok one by (simp add: host_ok_def)
  show ?thesis
  proof (cases "th_pc t")
    case Ready
    then show ?thesis using ready_step_log [OF use one] inv by (simp add: thread_step_def one)
  next
    case (Looked_Up prim key hash)
    let ?w = "journal_append now (ho_run h) key (pending_record prim hash) (ho_journal h)"
    have "unfinished (ho_run h) (ho_journal h) key" using inv Looked_Up by (simp add: log_inv_def)
    then have "unfinished (ho_run h) (fst ?w) key"
      by (intro unfinished_pending [OF use]) (simp_all add: pending_record_def)
    then have "log_inv (ho_run h) (fst ?w) (after_write key ?w (Recorded prim key hash)) (ho_log h)"
      by (intro log_inv_move [OF inv still_finished [OF use]])
        (auto simp: Looked_Up after_write_def split: option.splits)
    then show ?thesis by (simp add: defs Looked_Up)
  next
    case (Recorded prim key hash)
    note inv' = inv [unfolded Recorded]
    show ?thesis
    proof (cases outcome)
      case (Inl e)
      have "log_inv (ho_run h) (ho_journal h) (Stopped (Effect_Failed e)) (ho_log h @ [Effect key n])" for n
        by (rule log_inv_effect [OF inv']) auto
      then show ?thesis by (simp add: defs Recorded Inl)
    next
      case (Inr r)
      have "log_inv (ho_run h) (ho_journal h) (Effected prim key hash r) (ho_log h @ [Effect key n])" for n
        by (rule log_inv_effect [OF inv']) (auto simp: halted_def)
      then show ?thesis by (simp add: defs Recorded Inr)
    qed
  next
    case (Effected prim key hash r)
    let ?w = "journal_append now (ho_run h) key (success_record prim hash r) (ho_journal h)"
    note inv' = inv [unfolded Effected]
    show ?thesis
    proof (cases "snd ?w")
      case None
      have "in_call c (ho_run h) (ho_journal h) t prim key hash"
        using tok Effected by (simp add: thread_ok_def)
      from in_call_writable [OF codec this]
      have "dao.finished (ho_run h) (fst ?w) key hash (ef_blob r)"
        using dao.stored_success [OF use _ _ None] by (simp add: success_record_def)
      then have "\<not> unfinished (ho_run h) (fst ?w) key" by (auto simp: unfinished_def)
      from log_inv_commit [OF inv' still_finished [OF use] this]
      show ?thesis by (simp add: defs Effected None returns_def)
    next
      case (Some e)
      have "log_inv (ho_run h) (fst ?w) (Stopped (write_error key e)) (ho_log h)"
        by (rule log_inv_move [OF inv' still_finished [OF use]]) simp_all
      then show ?thesis by (simp add: defs Effected Some)
    qed
  qed (use inv in \<open>simp_all add: defs\<close>)
qed

lemma host_step_once:
  assumes inv: "once_inv c h" and codec: "long_hashes c" "faithful c a" and h': "host_step c a h = Some h'"
  shows "once_inv c h'"
proof -
  from inv obtain t where ok: "host_ok c h" and one: "ho_threads h = [t]"
    and log: "log_inv (ho_run h) (ho_journal h) (th_pc t) (ho_log h)"
    by (auto simp: once_inv_def)
  have ok': "host_ok c h'" and ext: "host_extends h h'"
    using host_step_ok [OF ok codec h'] by simp_all
  have run: "ho_run h' = ho_run h" using ext by (simp add: host_extends_def)
  show ?thesis
  proof (cases a)
    case (Step_Thread i now outcome)
    with h' one have "h' = thread_step c now outcome 0 h" by (auto split: if_splits)
    with thread_step_log [OF ok codec(1) one log, of now outcome] ok' run show ?thesis
      by (auto simp: once_inv_def)
  next
    case Crash
    with h' have "h' = crash h" by simp
    with ok' log_inv_crash [OF log] one show ?thesis
      by (simp add: once_inv_def crash_def log_host_def restart_thread_def)
  qed
qed

lemma host_run_once:
  "once_inv c h \<Longrightarrow> long_hashes c \<Longrightarrow> \<forall>a \<in> set acts. faithful c a \<Longrightarrow> host_run c acts h = Some h' \<Longrightarrow>
     once_inv c h'"
proof (induction acts arbitrary: h)
  case (Cons a acts)
  then obtain h1 where h1: "host_step c a h = Some h1" "host_run c acts h1 = Some h'"
    by (auto split: option.splits)
  have "once_inv c h1" by (rule host_step_once [OF Cons.prems(1,2) _ h1(1)]) (use Cons.prems in simp)
  with Cons.IH [OF this Cons.prems(2) _ h1(2)] Cons.prems(3) show ?case by simp
qed simp

lemma new_host_once: "run \<noteq> [] \<Longrightarrow> once_inv c (new_host version run [(base, p)])"
  using new_host_ok [of run c version "[(base, p)]"]
  by (simp add: once_inv_def log_inv_def new_host_def new_thread_def effects_once.nothing)

lemma effects_once_commits: "effects_once log \<Longrightarrow> log = xs @ Committed k # ys \<Longrightarrow> Effect k n \<notin> set ys"
proof (induction arbitrary: ys rule: effects_once.induct)
  case (effect log k' n')
  then show ?case by (cases ys rule: rev_cases) auto
next
  case (commit log k' n')
  then show ?case
    by (cases ys rule: rev_cases) (auto simp: Cons_eq_append_conv append_eq_Cons_conv)
next
  case (crashed log)
  then show ?case by (cases ys rule: rev_cases) auto
qed simp

lemma effects_once_effects:
  "effects_once log \<Longrightarrow> log = xs @ Effect k n # ys @ Effect k m # zs \<Longrightarrow> Crashed \<in> set ys"
proof (induction arbitrary: zs rule: effects_once.induct)
  case (effect log k' n')
  show ?case
  proof (cases zs rule: rev_cases)
    case Nil
    with effect.prems have log: "log = xs @ Effect k n # ys" "k' = k" by simp_all
    show ?thesis
    proof (rule ccontr)
      assume "Crashed \<notin> set ys"
      then have "Effect k n \<in> set (since_crash log)"
        by (simp add: log since_crash_def takeWhile_append)
      with effect.hyps log(2) show False by simp
    qed
  next
    case (snoc zs' z)
    with effect show ?thesis by simp
  qed
next
  case (commit log k' n')
  then show ?case by (cases zs rule: rev_cases) auto
next
  case (crashed log)
  then show ?case by (cases zs rule: rev_cases) auto
qed simp


end
