(* ===== verification/Effect_Drift.thy ===== *)
theory Effect_Drift
  imports Effect_Once
begin

text \<open>
  A script that changes under a recorded run.  The step key carries the first sixteen digits
  of the call hash, so a call whose arguments changed looks up another key: the determinism
  tripwire compares hashes that can differ only where two calls share those digits.  The
  theory also holds the concrete runs the other theories' properties are applied to.
\<close>

section \<open>Keys determine the start of the hash\<close>

lemma dec_no_hash: "CHR ''#'' \<notin> set (dec n)"
  using dec_digits [of "CHR ''#''" n] by auto

definition key_of :: "(string \<times> 'a) set \<Rightarrow> 'a codec \<Rightarrow> string \<Rightarrow> string \<Rightarrow> bool" where
  "key_of calls c key h \<longleftrightarrow>
     (\<exists>(prim, args) \<in> calls. h = co_hash c prim args) \<and>
     (\<exists>pre d. key = pre @ take 16 h @ ''#'' @ dec d)"

lemma leaf_key_form: "leaf_key prim h st = (key, st') \<Longrightarrow> \<exists>pre d. key = pre @ take 16 h @ ''#'' @ dec d"
proof -
  have "\<exists>pre. join_segments (segs @ [leaf_segment prim h d]) = pre @ take 16 h @ ''#'' @ dec d" for segs d
    by (cases segs) (simp_all add: join_segments_def leaf_segment_def)
  then show "leaf_key prim h st = (key, st') \<Longrightarrow> \<exists>pre d. key = pre @ take 16 h @ ''#'' @ dec d"
    unfolding leaf_key_def Let_def by (metis fst_conv)
qed

lemma last_separator:
  assumes "xs @ c # ys = xs' @ c # ys'" and "c \<notin> set ys" and "c \<notin> set ys'"
  shows "xs = xs'"
proof -
  have *: "dropWhile (\<lambda>x. x \<noteq> c) (rev (us @ c # vs)) = c # rev us" if "c \<notin> set vs" for us vs
    using that by (simp add: dropWhile_append3) (metis dropWhile_append3 set_rev)
  have "c # rev xs = c # rev xs'"
    using * [OF assms(2), of xs] * [OF assms(3), of xs'] assms(1) by simp
  then show ?thesis by simp
qed

lemma key_of_prefix:
  assumes "key_of calls c key h" and "key_of calls c key h'" and "16 \<le> length h" and "16 \<le> length h'"
  shows "take 16 h = take 16 h'"
proof -
  from assms(1) obtain pre d where k: "key = pre @ take 16 h @ ''#'' @ dec d"
    by (auto simp: key_of_def)
  from assms(2) obtain pre' d' where k': "key = pre' @ take 16 h' @ ''#'' @ dec d'"
    by (auto simp: key_of_def)
  have "pre @ take 16 h = pre' @ take 16 h'"
    by (rule last_separator [of _ "CHR ''#''" "dec d" _ "dec d'"]) (use k k' dec_no_hash in simp_all)
  with assms(3,4) show ?thesis by simp
qed

section \<open>The tripwire\<close>

definition calls_of :: "'a script list \<Rightarrow> (string \<times> 'a) set" where
  "calls_of ps = {(prim, args). \<exists>p \<in> set ps. \<exists>hist. p hist = Op_Call prim args}"

definition unambiguous :: "'a codec \<Rightarrow> (string \<times> 'a) set \<Rightarrow> bool" where
  "unambiguous c calls \<longleftrightarrow>
     (\<forall>(prim, args) \<in> calls. \<forall>(prim', args') \<in> calls.
        take 16 (co_hash c prim args) = take 16 (co_hash c prim' args') \<longrightarrow>
        co_hash c prim args = co_hash c prim' args')"

lemma unambiguousD:
  "unambiguous c calls \<Longrightarrow> (prim, args) \<in> calls \<Longrightarrow> (prim', args') \<in> calls \<Longrightarrow>
     take 16 (co_hash c prim args) = take 16 (co_hash c prim' args') \<Longrightarrow>
     co_hash c prim args = co_hash c prim' args'"
  unfolding unambiguous_def by fast

text \<open>The run continued by other scripts, over the same journal.\<close>

definition redeploy :: "(scope_stack \<times> 'a script) list \<Rightarrow> 'a host \<Rightarrow> 'a host" where
  "redeploy ps h = h\<lparr>ho_threads := map (\<lambda>(b, p). new_thread b p) ps\<rparr>"

fun pc_keyed :: "(string \<times> 'a) set \<Rightarrow> 'a codec \<Rightarrow> thread_pc \<Rightarrow> bool" where
  "pc_keyed calls c (Looked_Up prim key h) = key_of calls c key h"
| "pc_keyed calls c (Recorded prim key h) = key_of calls c key h"
| "pc_keyed calls c (Effected prim key h r) = key_of calls c key h"
| "pc_keyed calls c (Stopped (Quarantine key want got)) = False"
| "pc_keyed calls c _ = True"

definition journal_keyed :: "(string \<times> 'a) set \<Rightarrow> 'a codec \<Rightarrow> string \<Rightarrow> journal_db \<Rightarrow> bool" where
  "journal_keyed calls c run j \<longleftrightarrow> run_usable run j \<and>
     (\<forall>key h s b. dao.cells run j key = Some (h, s, b) \<longrightarrow> key_of calls c key h \<and> s \<noteq> Status_Quarantined)"

definition host_keyed :: "(string \<times> 'a) set \<Rightarrow> 'a codec \<Rightarrow> 'a host \<Rightarrow> bool" where
  "host_keyed calls c h \<longleftrightarrow>
     journal_keyed calls c (ho_run h) (ho_journal h) \<and>
     (\<forall>t \<in> set (ho_threads h). calls_of [th_script t] \<subseteq> calls \<and> pc_keyed calls c (th_pc t))"

lemma journal_keyed_append:
  assumes j: "journal_keyed calls c run j" and r: "rec_Status r \<noteq> Status_Quarantined"
    and key: "key_of calls c key (rec_CallHash r)"
  shows "journal_keyed calls c run (fst (journal_append now run key r j))"
proof -
  have use: "run_usable run j" using j by (simp add: journal_keyed_def)
  show ?thesis
  proof (cases "writable key r")
    case True
    have "key_of calls c key h \<and> s \<noteq> Status_Quarantined"
      if "write_cell r (dao.cells run j key) = Some (h, s, b)" for h s b
    proof (cases "dao.cells run j key")
      case None
      then show ?thesis using that r key by (simp add: cell_of_def)
    next
      case (Some cell)
      obtain h1 s1 b1 where cell: "cell = (h1, s1, b1)" by (cases cell)
      have "key_of calls c key h1 \<and> s1 \<noteq> Status_Quarantined"
        using j Some cell unfolding journal_keyed_def by blast
      then show ?thesis
        using that Some cell r by (auto simp: cell_of_def split: if_splits run_status.splits)
    qed
    then show ?thesis
      using j by (auto simp: journal_keyed_def dao.cells_append [OF use True] journal_append_usable)
  next
    case False
    then show ?thesis
      using j use by (simp add: journal_keyed_def journal_append_usable dao.cells_def journal_append_refused)
  qed
qed

lemma key_of_unique:
  assumes un: "unambiguous c calls" and lh: "long_hashes c"
    and key: "key_of calls c key h" "key_of calls c key h'"
  shows "h' = h"
proof -
  have "take 16 h = take 16 h'"
    by (rule key_of_prefix [OF key]) (use lh key in \<open>auto simp: key_of_def long_hashes_def\<close>)
  moreover obtain prim args prim' args' where "(prim, args) \<in> calls" "h = co_hash c prim args"
    "(prim', args') \<in> calls" "h' = co_hash c prim' args'"
    using key unfolding key_of_def by blast
  ultimately show ?thesis using unambiguousD [OF un] by simp
qed

text \<open>No write of a keyed call clashes with a stored hash.\<close>

lemma pc_keyed_after:
  assumes j: "journal_keyed calls c run j" and un: "unambiguous c calls" and lh: "long_hashes c"
    and r: "rec_Status r \<noteq> Status_Quarantined" and key: "key_of calls c key (rec_CallHash r)"
    and pc: "pc_keyed calls c pc"
  shows "pc_keyed calls c (after_write key (journal_append now run key r j) pc)"
proof (cases "snd (journal_append now run key r j)")
  case (Some e)
  have "hash_clash e \<noteq> Some (want, got)" for want got
  proof
    assume "hash_clash e = Some (want, got)"
    from dao.append_clash [OF _ Some this] j obtain s b where
      "dao.cells run (fst (journal_append now run key r j)) key = Some (want, s, b)" "want \<noteq> rec_CallHash r"
      by (auto simp: journal_keyed_def dao.cells_def)
    with journal_keyed_append [OF j r key, of now] key_of_unique [OF un lh key]
    show False unfolding journal_keyed_def by blast
  qed
  then have "write_error key e = Journal_Failed"
    by (cases "hash_clash e") (auto simp: write_error_def)
  with Some show ?thesis by (simp add: after_write_def)
qed (simp add: after_write_def pc)

lemma host_keyed_advance:
  assumes h: "host_keyed calls c h"
    and h': "ho_run h' = ho_run h" "ho_threads h' = (ho_threads h)[i := t']"
    and j: "journal_keyed calls c (ho_run h) (ho_journal h')"
    and t': "calls_of [th_script t'] \<subseteq> calls" "pc_keyed calls c (th_pc t')"
  shows "host_keyed calls c h'"
proof -
  have "calls_of [th_script t] \<subseteq> calls \<and> pc_keyed calls c (th_pc t)" if "t \<in> set (ho_threads h')" for t
    using that h t' set_update_subset_insert [of "ho_threads h" i t'] unfolding h'(2) host_keyed_def by blast
  with j h'(1) show ?thesis by (simp add: host_keyed_def)
qed

lemma look_up_keyed:
  assumes j: "journal_keyed calls c run j" and un: "unambiguous c calls" and lh: "long_hashes c"
    and key: "key_of calls c key h"
  shows "look_up c h (journal_get run j key) = Run_Live \<or> (\<exists>x. look_up c h (journal_get run j key) = Replay x)"
proof (cases "journal_get run j key")
  case None
  then show ?thesis by (simp add: look_up_def)
next
  case (Some r)
  then have "dao.cells run j key = Some (rec_CallHash r, rec_Status r, rec_ResultBlob r)"
    by (simp add: dao.cells_def cell_of_def)
  with j have r: "key_of calls c key (rec_CallHash r)" "rec_Status r \<noteq> Status_Quarantined"
    by (auto simp: journal_keyed_def)
  have "rec_CallHash r = h" by (rule key_of_unique [OF un lh key r(1)])
  with r(2) Some show ?thesis by (cases "rec_Status r") (simp_all add: look_up_def)
qed

lemma ready_step_keyed:
  assumes h: "host_keyed calls c h" and un: "unambiguous c calls" and lh: "long_hashes c"
    and i: "i < length (ho_threads h)"
  shows "host_keyed calls c (ready_step c now i (ho_threads h ! i) h)"
proof -
  define t where "t = ho_threads h ! i"
  have t: "calls_of [th_script t] \<subseteq> calls" and j: "journal_keyed calls c (ho_run h) (ho_journal h)"
    using h i by (auto simp: host_keyed_def t_def)
  have move: "host_keyed calls c h'"
    if "ho_run h' = ho_run h" "ho_journal h' = ho_journal h" "ho_threads h' = (ho_threads h)[i := t']"
      "th_script t' = th_script t" "pc_keyed calls c (th_pc t')" for h' t'
    by (rule host_keyed_advance [OF h that(1,3)]) (use that t j in simp_all)
  note defs = ready_step_def t_def [symmetric] set_thread_def returns_def
  show ?thesis
  proof (cases "th_script t (th_history t)")
    case (Op_Call prim args)
    show ?thesis
    proof (cases "ho_version h = host_interpreter_version")
      case True
      obtain key st where leaf: "leaf_key prim (co_hash c prim args) (th_stack t) = (key, st)"
        by (cases "leaf_key prim (co_hash c prim args) (th_stack t)")
      have "(prim, args) \<in> calls" using t Op_Call unfolding calls_of_def by auto
      with leaf_key_form [OF leaf] have key: "key_of calls c key (co_hash c prim args)"
        by (auto simp: key_of_def)
      from look_up_keyed [OF j un lh key] show ?thesis
      proof
        assume live: "look_up c (co_hash c prim args) (journal_get (ho_run h) (ho_journal h) key) = Run_Live"
        show ?thesis
          by (rule move [of _ "t\<lparr>th_stack := st, th_pc := Looked_Up prim key (co_hash c prim args)\<rparr>"])
            (simp_all add: defs begin_call_def Op_Call True leaf live Let_def key)
      next
        assume "\<exists>x. look_up c (co_hash c prim args) (journal_get (ho_run h) (ho_journal h) key) = Replay x"
        then obtain x where rep: "look_up c (co_hash c prim args) (journal_get (ho_run h) (ho_journal h) key) = Replay x"
          by blast
        show ?thesis
          by (rule move [of _ "returns x (t\<lparr>th_stack := st\<rparr>)"])
            (simp_all add: defs begin_call_def Op_Call True leaf rep Let_def)
      qed
    next
      case False
      show ?thesis
        by (rule move [of _ "t\<lparr>th_pc := Stopped Version_Drift\<rparr>"]) (simp_all add: defs Op_Call False)
    qed
  next
    case (Op_Loop n)
    show ?thesis
      by (rule move [of _ "returns [] (t\<lparr>th_stack := push (Frame_Loop loop_label n) (th_stack t)\<rparr>)"])
        (simp_all add: defs Op_Loop)
  next
    case Op_EndLoop
    show ?thesis
      by (rule move [of _ "returns [] (t\<lparr>th_stack := pop (th_stack t)\<rparr>)"]) (simp_all add: defs Op_EndLoop)
  next
    case Op_End
    show ?thesis by (rule move [of _ "t\<lparr>th_pc := Finished\<rparr>"]) (simp_all add: defs Op_End)
  qed
qed

lemma thread_step_keyed:
  assumes h: "host_keyed calls c h" and un: "unambiguous c calls" and lh: "long_hashes c"
    and i: "i < length (ho_threads h)"
  shows "host_keyed calls c (thread_step c now outcome i h)"
proof -
  define t where "t = ho_threads h ! i"
  have t: "calls_of [th_script t] \<subseteq> calls" "pc_keyed calls c (th_pc t)"
    and j: "journal_keyed calls c (ho_run h) (ho_journal h)"
    using h i by (auto simp: host_keyed_def t_def)
  note defs = thread_step_def Let_def t_def [symmetric] set_thread_def log_host_def returns_def
  show ?thesis
  proof (cases "th_pc t")
    case Ready
    with ready_step_keyed [OF h un lh i] show ?thesis by (simp add: thread_step_def t_def)
  next
    case (Looked_Up prim key hash)
    let ?w = "journal_append now (ho_run h) key (pending_record prim hash) (ho_journal h)"
    have "journal_keyed calls c (ho_run h) (fst ?w)"
      by (rule journal_keyed_append [OF j]) (use t(2) Looked_Up in \<open>simp_all add: pending_record_def\<close>)
    moreover have "pc_keyed calls c (after_write key ?w (Recorded prim key hash))"
      by (rule pc_keyed_after [OF j un lh]) (use t(2) Looked_Up in \<open>simp_all add: pending_record_def\<close>)
    ultimately show ?thesis
      by (intro host_keyed_advance [OF h, where t' = "t\<lparr>th_pc := after_write key ?w (Recorded prim key hash)\<rparr>"])
        (use t in \<open>simp_all add: defs Looked_Up\<close>)
  next
    case (Recorded prim key hash)
    let ?pc = "case outcome of Inl e \<Rightarrow> Stopped (Effect_Failed e) | Inr r \<Rightarrow> Effected prim key hash r"
    have "pc_keyed calls c ?pc" using t(2) Recorded by (cases outcome) simp_all
    then show ?thesis
      by (intro host_keyed_advance [OF h, where t' = "t\<lparr>th_pc := ?pc\<rparr>"])
        (use t j in \<open>simp_all add: defs Recorded\<close>)
  next
    case (Effected prim key hash r)
    let ?w = "journal_append now (ho_run h) key (success_record prim hash r) (ho_journal h)"
    have w: "journal_keyed calls c (ho_run h) (fst ?w)"
      by (rule journal_keyed_append [OF j]) (use t(2) Effected in \<open>simp_all add: success_record_def\<close>)
    show ?thesis
    proof (cases "snd ?w")
      case None
      show ?thesis
        by (rule host_keyed_advance [OF h, where t' = "returns (ef_shown r) t"])
          (use t w in \<open>simp_all add: defs Effected None\<close>)
    next
      case (Some e)
      have "pc_keyed calls c (after_write key ?w Ready)"
        by (rule pc_keyed_after [OF j un lh]) (use t(2) Effected in \<open>simp_all add: success_record_def\<close>)
      then show ?thesis
        by (intro host_keyed_advance [OF h, where t' = "t\<lparr>th_pc := Stopped (write_error key e)\<rparr>"])
          (use t w in \<open>simp_all add: defs Effected Some after_write_def\<close>)
    qed
  qed (use h in \<open>simp_all add: defs\<close>)
qed

lemma host_run_keyed:
  "host_keyed calls c h \<Longrightarrow> unambiguous c calls \<Longrightarrow> long_hashes c \<Longrightarrow> host_run c acts h = Some h' \<Longrightarrow>
     host_keyed calls c h'"
proof (induction acts arbitrary: h)
  case (Cons a acts)
  then obtain h1 where h1: "host_step c a h = Some h1" "host_run c acts h1 = Some h'"
    by (auto split: option.splits)
  have "host_keyed calls c h1"
  proof (cases a)
    case (Step_Thread i now outcome)
    with h1 Cons.prems show ?thesis by (auto split: if_splits intro: thread_step_keyed)
  next
    case Crash
    with h1 have "h1 = crash h" by simp
    with Cons.prems(1) show ?thesis
      by (simp add: host_keyed_def crash_def log_host_def restart_thread_def)
  qed
  with Cons.IH [OF this Cons.prems(2,3) h1(2)] show ?case by simp
qed simp

lemma new_threads_keyed:
  "calls_of (map snd ps) \<subseteq> calls \<Longrightarrow> \<forall>t \<in> set (map (\<lambda>(b, p). new_thread b p) ps).
     calls_of [th_script t] \<subseteq> calls \<and> pc_keyed calls c (th_pc t)"
proof -
  assume all: "calls_of (map snd ps) \<subseteq> calls"
  have "calls_of [p] \<subseteq> calls" if "(b, p) \<in> set ps" for b p
    using that all unfolding calls_of_def by force
  then show ?thesis by (fastforce simp: new_thread_def)
qed

lemma new_host_keyed:
  "run \<noteq> [] \<Longrightarrow> calls_of (map snd ps) \<subseteq> calls \<Longrightarrow> host_keyed calls c (new_host version run ps)"
  using new_threads_keyed [of ps calls c]
  by (simp add: host_keyed_def new_host_def journal_keyed_def run_usable_def empty_journal_def
      dao.cells_def journal_get_def get_step_def)

lemma calls_of_append: "calls_of (ps @ ps') = calls_of ps \<union> calls_of ps'"
  by (auto simp: calls_of_def)

text \<open>
  C33. The tripwire never fires for changed arguments.  However a run goes, and whatever
  scripts take it over after it, no thread stops with a quarantine, unless two calls of the
  scripts have different hashes that share their first sixteen digits: a call with other
  arguments looks up another key, finds nothing and runs.
\<close>

theorem tripwire_never_fires:
  assumes run: "run \<noteq> []" and lh: "long_hashes c" and un: "unambiguous c (calls_of (map snd (ps @ ps')))"
    and h: "host_run c acts (new_host version run ps) = Some h"
    and h': "host_run c acts' (redeploy ps' h) = Some h'" and t: "t \<in> set (ho_threads h')"
  shows "th_pc t \<noteq> Stopped (Quarantine key want got)"
proof -
  let ?calls = "calls_of (map snd (ps @ ps'))"
  have "host_keyed ?calls c (new_host version run ps)"
    by (rule new_host_keyed [OF run]) (simp add: calls_of_append)
  from host_run_keyed [OF this un lh h] have "host_keyed ?calls c h" .
  then have "host_keyed ?calls c (redeploy ps' h)"
    using new_threads_keyed [of ps' ?calls c] by (simp add: host_keyed_def redeploy_def calls_of_append)
  from host_run_keyed [OF this un lh h'] have "pc_keyed ?calls c (th_pc t)"
    using t by (simp add: host_keyed_def)
  then show ?thesis by auto
qed

section \<open>Concrete runs\<close>

text \<open>A hash that keeps its argument, and results that read back as they are.\<close>

definition plain_codec :: "string codec" where
  "plain_codec = \<lparr>co_hash = \<lambda>prim args. args @ replicate 16 CHR ''.'' @ prim, co_shown = \<lambda>b. b\<rparr>"

definition reply :: "string \<Rightarrow> effect_result" where
  "reply b = \<lparr>ef_blob = b, ef_shown = b, ef_SpawnID = '''', ef_CostSource = '''', ef_CostUSD = 0\<rparr>"

definition ask :: "string \<Rightarrow> string script" where
  "ask q = (\<lambda>hist. if hist = [] then Op_Call ''agent'' q else Op_End)"

definition steps :: "string list \<Rightarrow> host_action list" where
  "steps replies = concat (map (\<lambda>b. replicate 4 (Step_Thread 0 7 (Inr (reply b)))) replies)"

lemma plain_codec_long: "long_hashes plain_codec"
  by (simp add: long_hashes_def plain_codec_def)

lemma steps_faithful: "\<forall>a \<in> set (steps bs). faithful plain_codec a"
  by (auto simp: steps_def faithful_def plain_codec_def reply_def split: if_splits)

text \<open>The result survives a crash: the second executor's answer is never asked for.\<close>

definition asking :: "string script \<Rightarrow> string host" where
  "asking p = new_host host_interpreter_version ''run'' [(new_root_stack, p)]"

lemma run_named: "''run'' \<noteq> []"
  by simp

lemma answer_survives_crash:
  "case host_run plain_codec (steps [''yes'']) (asking (ask ''q'')) of
     None \<Rightarrow> False
   | Some h \<Rightarrow>
       (case host_run plain_codec (Crash # steps [''no'']) h of
          None \<Rightarrow> False
        | Some h' \<Rightarrow> map th_history (ho_threads h) = [[''yes'']] \<and> map th_history (ho_threads h') = [[''yes'']] \<and>
            map th_pc (ho_threads h') = [Finished])"
  by code_simp


text \<open>The effect is lost in a crash before its commit, runs again, and not once more.\<close>

definition key_q :: string where
  "key_q = ''root/agent~q...............#0''"

definition lossy :: "host_action list" where
  "lossy = take 3 (steps [''lost'']) @ Crash # steps [''yes''] @ Crash # steps [''no'']"

lemma lossy_log:
  "case host_run plain_codec lossy (asking (ask ''q'')) of
     None \<Rightarrow> False
   | Some h \<Rightarrow> ho_log h = [Effect key_q 1, Crashed, Effect key_q 1, Committed key_q, Crashed]"
  by code_simp


text \<open>A script whose argument was edited: the old answer is not used, and nothing is quarantined.\<close>

definition key_r :: string where
  "key_r = ''root/agent~r...............#0''"

lemma edited_log:
  "case host_run plain_codec (steps [''yes'']) (asking (ask ''q'')) of
     None \<Rightarrow> False
   | Some h \<Rightarrow>
       (case host_run plain_codec (steps [''no'']) (redeploy [(new_root_stack, ask ''r'')] h) of
          None \<Rightarrow> False
        | Some h' \<Rightarrow> map th_history (ho_threads h') = [[''no'']] \<and>
            ho_log h' = [Effect key_q 1, Committed key_q, Effect key_r 2, Committed key_r])"
  by code_simp

lemma ask_unambiguous: "unambiguous plain_codec (calls_of (map snd ([(new_root_stack, ask ''q'')] @ [(new_root_stack, ask ''r'')])))"
  by (auto simp: unambiguous_def calls_of_def ask_def plain_codec_def split: if_splits)

theorem tripwire_never_fires_witness:
  "\<exists>h h'. host_run plain_codec (steps [''yes'']) (asking (ask ''q'')) = Some h \<and>
     host_run plain_codec (steps [''no'']) (redeploy [(new_root_stack, ask ''r'')] h) = Some h' \<and>
     ho_log h' = [Effect key_q 1, Committed key_q, Effect key_r 2, Committed key_r] \<and>
     (\<forall>want got. th_pc (ho_threads h' ! 0) \<noteq> Stopped (Quarantine key_q want got))"
proof -
  from edited_log obtain h h' where
    h: "host_run plain_codec (steps [''yes'']) (asking (ask ''q'')) = Some h"
    and h': "host_run plain_codec (steps [''no'']) (redeploy [(new_root_stack, ask ''r'')] h) = Some h'"
    and hist: "map th_history (ho_threads h') = [[''no'']]"
    and log: "ho_log h' = [Effect key_q 1, Committed key_q, Effect key_r 2, Committed key_r]"
    by (auto split: option.splits)
  have "ho_threads h' ! 0 \<in> set (ho_threads h')" using hist by (cases "ho_threads h'") simp_all
  from tripwire_never_fires [OF run_named plain_codec_long ask_unambiguous h [unfolded asking_def] h' this]
  show ?thesis using h h' log by blast
qed

text \<open>
  Two loops of one script share their scope, as every loop has the label \<open>drain\<close>: the same call
  in the second loop is answered from the first, and its effect does not run.
\<close>

definition two_loops :: "string script" where
  "two_loops = (\<lambda>hist.
     let n = length hist in
     if n = 0 \<or> n = 3 then Op_Loop 0
     else if n = 1 \<or> n = 4 then Op_Call ''agent'' ''review''
     else if n = 2 \<or> n = 5 then Op_EndLoop else Op_End)"

lemma second_loop_is_not_run:
  "case host_run plain_codec (steps [''one'', ''two'', ''three'', ''four'']) (asking two_loops) of
     None \<Rightarrow> False
   | Some h \<Rightarrow> map th_history (ho_threads h) = [[[], ''one'', [], [], ''one'', []]] \<and>
       map th_pc (ho_threads h) = [Finished] \<and>
       ho_log h = [Effect ''root/loop:drain#0/agent~review..........#0'' 1,
         Committed ''root/loop:drain#0/agent~review..........#0'']"
  by code_simp

end
