(* ===== verification/Scope_Overlap.thy ===== *)
theory Scope_Overlap
  imports Loom_Prelude "HOL-Library.Char_ord" "HOL-Library.List_Lexorder"
begin

text \<open>
  Backlog items and the comparison of their file scopes: \<^verbatim>\<open>pkg/mills/store/scope_overlap.go\<close>
  and the item types of \<^verbatim>\<open>types.go\<close>.  Two items are kept apart when one declares a file the
  other declares, or a glob below whose fixed directory the other works.

  \<open>filepath.Clean\<close> and \<open>filepath.Dir\<close> are those of a Unix system; a Go set of strings is the
  list of its elements in the order of insertion, read in sorted order where the code sorts.
\<close>

section \<open>Paths\<close>

fun split_at :: "char \<Rightarrow> string \<Rightarrow> string list" where
  "split_at c [] = [[]]"
| "split_at c (x # xs) =
     (if x = c then [] # split_at c xs
      else case split_at c xs of [] \<Rightarrow> [[x]] | s # ss \<Rightarrow> (x # s) # ss)"

definition join_path :: "string list \<Rightarrow> string" where
  "join_path segs = (case segs of [] \<Rightarrow> [] | s # ss \<Rightarrow> s @ concat (map (\<lambda>t. ''/'' @ t) ss))"

text \<open>\<open>Clean\<close>: the elements kept so far are in reverse.\<close>

fun clean_segments :: "bool \<Rightarrow> string list \<Rightarrow> string list \<Rightarrow> string list" where
  "clean_segments rooted acc [] = rev acc"
| "clean_segments rooted acc (s # ss) =
     (if s = '''' \<or> s = ''.'' then clean_segments rooted acc ss
      else if s = ''..'' then
        (case acc of
           [] \<Rightarrow> clean_segments rooted (if rooted then [] else [s]) ss
         | a # acc' \<Rightarrow> if a = ''..'' then clean_segments rooted (s # acc) ss
             else clean_segments rooted acc' ss)
      else clean_segments rooted (s # acc) ss)"

definition clean :: "string \<Rightarrow> string" where
  "clean path =
     (let rooted = has_prefix path ''/'';
          out = join_path (clean_segments rooted [] (split_at (CHR ''/'') path))
      in if rooted then ''/'' @ out else if out = '''' then ''.'' else out)"

definition dir_of :: "string \<Rightarrow> string" where
  "dir_of path = clean (rev (dropWhile (\<lambda>c. c \<noteq> CHR ''/'') (rev path)))"

definition has_meta :: "string \<Rightarrow> bool" where
  "has_meta s = list_ex (\<lambda>c. c \<in> set ''*?['') s"

section \<open>Items\<close>

record slice =
  sl_Name :: string
  sl_Files :: "string list"
  sl_Tests :: "string list"

datatype backlog_state =
  Backlog_Queued | Backlog_Running | Backlog_Merged | Backlog_Escalated | Backlog_Paused | Backlog_Retired

record backlog_item =
  bi_ID :: string
  bi_State :: backlog_state
  bi_ClaimVersion :: int
  bi_Revision :: int
  bi_Priority :: string
  bi_RequireHumanReview :: bool
  bi_Slices :: "slice list"
  bi_Dependencies :: "string list"
  bi_TargetProject :: string
  bi_CreatedAt :: time
  bi_UpdatedAt :: time

definition trim_slashes :: "string \<Rightarrow> string" where
  "trim_slashes s = rev (dropWhile (\<lambda>c. c = CHR ''/'') (rev (dropWhile (\<lambda>c. c = CHR ''/'') s)))"

definition repo_base :: "string \<Rightarrow> string" where
  "repo_base project = to_lower (last (split_at (CHR ''/'') (trim_slashes (trim_space project))))"

definition same_repo :: "string \<Rightarrow> string \<Rightarrow> bool" where
  "same_repo a b \<longleftrightarrow> repo_base a \<noteq> '''' \<and> repo_base a = repo_base b"

definition target_or_home :: "string \<Rightarrow> string \<Rightarrow> string" where
  "target_or_home home project = (let p = trim_space project in if p = '''' then home else p)"

definition same_backlog_target :: "backlog_item \<Rightarrow> backlog_item \<Rightarrow> string \<Rightarrow> bool" where
  "same_backlog_target a b home =
     (let left = target_or_home home (bi_TargetProject a); right = target_or_home home (bi_TargetProject b)
      in if left = '''' \<and> right = '''' then True else same_repo left right)"

section \<open>Scopes\<close>

record backlog_scope =
  sc_files :: "string list"
  sc_dirs :: "string list"
  sc_globDirs :: "string list"
  sc_literalDirs :: "string list"

definition empty_scope :: backlog_scope where
  "empty_scope = \<lparr>sc_files = [], sc_dirs = [], sc_globDirs = [], sc_literalDirs = []\<rparr>"

definition changelog_dir :: string where
  "changelog_dir = ''changelog.d''"

definition scope_glob_static_dir :: "string \<Rightarrow> string" where
  "scope_glob_static_dir pattern =
     (let static = takeWhile (\<lambda>s. \<not> has_meta s) (split_at (CHR ''/'') pattern)
      in if static = [] then ''''
         else (let dir = clean (join_path static) in if dir = ''.'' \<or> dir = ''/'' then '''' else dir))"

definition scope_add :: "string \<Rightarrow> backlog_scope \<Rightarrow> backlog_scope" where
  "scope_add raw s =
     (let path = trim_space raw in
      if path = '''' then s
      else if has_meta path then
        (let dir = scope_glob_static_dir path in
         if dir \<noteq> '''' \<and> dir \<noteq> changelog_dir
         then s\<lparr>sc_globDirs := List.insert dir (sc_globDirs s), sc_dirs := List.insert dir (sc_dirs s)\<rparr>
         else s)
      else
        (let cleaned = clean path in
         if cleaned = changelog_dir then s
         else
           (let s1 = s\<lparr>sc_files := List.insert cleaned (sc_files s)\<rparr>; dir = dir_of cleaned in
            if dir \<noteq> ''.'' \<and> dir \<noteq> ''/'' \<and> dir \<noteq> changelog_dir
            then s1\<lparr>sc_dirs := List.insert dir (sc_dirs s1),
                    sc_literalDirs := List.insert dir (sc_literalDirs s1)\<rparr>
            else s1)))"

definition is_path_like :: "string \<Rightarrow> bool" where
  "is_path_like s \<longleftrightarrow> s \<noteq> '''' \<and> \<not> list_ex is_space s \<and> \<not> list_ex (\<lambda>c. c \<in> set ''&|;<>()`'') s"

definition slice_paths :: "slice \<Rightarrow> string list" where
  "slice_paths sl = sl_Files sl @ filter is_path_like (sl_Tests sl)"

definition scope_for_backlog :: "backlog_item \<Rightarrow> backlog_scope" where
  "scope_for_backlog item = fold scope_add (concat (map slice_paths (bi_Slices item))) empty_scope"

definition scope_empty :: "backlog_scope \<Rightarrow> bool" where
  "scope_empty s \<longleftrightarrow> sc_files s = [] \<and> sc_dirs s = []"

definition sorted_keys :: "string list \<Rightarrow> string list" where
  "sorted_keys xs = sort (remdups xs)"

definition dirs_touch :: "string \<Rightarrow> string \<Rightarrow> bool" where
  "dirs_touch glob dir \<longleftrightarrow> glob = dir \<or> has_prefix dir (glob @ ''/'') \<or> has_prefix glob (dir @ ''/'')"

definition touching_pair :: "string list \<Rightarrow> string list \<Rightarrow> (string \<times> string) option" where
  "touching_pair globs dirs =
     find (\<lambda>(g, d). dirs_touch g d) (List.product (sorted_keys globs) (sorted_keys dirs))"

text \<open>The witness of an overlap; \<open>None\<close> is no overlap.\<close>

definition admission_overlaps :: "backlog_scope \<Rightarrow> backlog_scope \<Rightarrow> string option" where
  "admission_overlaps s t =
     (case find (\<lambda>p. p \<in> set (sc_files t)) (sorted_keys (sc_files s)) of
        Some p \<Rightarrow> Some p
      | None \<Rightarrow>
          (case touching_pair (sc_globDirs s) (sc_globDirs t) of
             Some (g, d) \<Rightarrow> Some (if length d < length g then d else g)
           | None \<Rightarrow>
               (case touching_pair (sc_globDirs s) (sc_literalDirs t) of
                  Some (g, d) \<Rightarrow> Some g
                | None \<Rightarrow> map_option fst (touching_pair (sc_globDirs t) (sc_literalDirs s)))))"

definition backlog_scopes_overlap :: "backlog_item \<Rightarrow> backlog_item \<Rightarrow> string \<Rightarrow> string option" where
  "backlog_scopes_overlap a b home =
     (if \<not> same_backlog_target a b home then None
      else
        (let s = scope_for_backlog a; t = scope_for_backlog b
         in if scope_empty s \<or> scope_empty t then None else admission_overlaps s t))"

section \<open>What overlaps\<close>

lemma dirs_touch_sym: "dirs_touch a b = dirs_touch b a"
  by (auto simp: dirs_touch_def)

lemma set_sorted_keys [simp]: "set (sorted_keys xs) = set xs"
  by (simp add: sorted_keys_def)

lemma touching_pair_None:
  "touching_pair gs ds = None \<longleftrightarrow> (\<forall>g \<in> set gs. \<forall>d \<in> set ds. \<not> dirs_touch g d)"
  by (auto simp: touching_pair_def find_None_iff)

text \<open>The scopes keep apart what has a file in common or a glob that reaches into the other.\<close>

definition scopes_meet :: "backlog_scope \<Rightarrow> backlog_scope \<Rightarrow> bool" where
  "scopes_meet s t \<longleftrightarrow>
     set (sc_files s) \<inter> set (sc_files t) \<noteq> {} \<or>
     (\<exists>g \<in> set (sc_globDirs s). \<exists>d \<in> set (sc_globDirs t) \<union> set (sc_literalDirs t). dirs_touch g d) \<or>
     (\<exists>g \<in> set (sc_globDirs t). \<exists>d \<in> set (sc_literalDirs s). dirs_touch g d)"

lemma admission_overlaps_iff: "admission_overlaps s t \<noteq> None \<longleftrightarrow> scopes_meet s t"
proof -
  have "find (\<lambda>p. p \<in> set (sc_files t)) (sorted_keys (sc_files s)) = None \<longleftrightarrow>
      set (sc_files s) \<inter> set (sc_files t) = {}"
    by (auto simp: find_None_iff)
  then show ?thesis
    unfolding admission_overlaps_def scopes_meet_def
    using touching_pair_None [of "sc_globDirs s" "sc_globDirs t"]
      touching_pair_None [of "sc_globDirs s" "sc_literalDirs t"]
      touching_pair_None [of "sc_globDirs t" "sc_literalDirs s"]
    by (auto split: option.splits)
qed

lemma scopes_meet_sym: "scopes_meet s t = scopes_meet t s"
  unfolding scopes_meet_def using dirs_touch_sym by blast

lemma same_backlog_target_sym: "same_backlog_target a b home = same_backlog_target b a home"
  by (auto simp: same_backlog_target_def Let_def same_repo_def)

definition items_meet :: "string \<Rightarrow> backlog_item \<Rightarrow> backlog_item \<Rightarrow> bool" where
  "items_meet home a b \<longleftrightarrow> backlog_scopes_overlap a b home \<noteq> None"

lemma items_meet_iff:
  "items_meet home a b \<longleftrightarrow> same_backlog_target a b home \<and>
     \<not> scope_empty (scope_for_backlog a) \<and> \<not> scope_empty (scope_for_backlog b) \<and>
     scopes_meet (scope_for_backlog a) (scope_for_backlog b)"
  using admission_overlaps_iff by (auto simp: items_meet_def backlog_scopes_overlap_def Let_def)

lemma items_meet_sym: "items_meet home a b = items_meet home b a"
  using same_backlog_target_sym scopes_meet_sym by (auto simp: items_meet_iff)

end
