(* ===== verification/Start_Store.thy ===== *)
theory Start_Store
  imports Scope_Overlap
begin

text \<open>
  The tables of the Mills store that a pipeline start touches, and the statements the code runs
  on them: backlog items, pipeline runs, budget reservations, workflow rows, the transition
  ledger, the dispatch outbox and the scope reservations (\<^verbatim>\<open>pkg/mills/store\<close>, migrations 001,
  002, 004, 011, 019).

  A table is the list of its rows in the order of insertion, with its uniqueness constraints
  checked on insertion; a nullable TEXT column is a string, empty for \<open>NULL\<close>.  Money is an
  integer amount of a unit small enough.  SQLite runs one writer at a time, so a transaction is
  a function; one that fails returns no state.
\<close>

section \<open>Rows\<close>

datatype pipeline_state =
  Run_Queued | Run_Planning | Run_Slicing | Run_Implementing | Run_Testing | Run_Reviewing | Run_MR
| Run_CI | Run_Merging | Run_Done | Run_Escalated | Run_PreflightFailed | Run_Paused

definition is_pipeline_terminal_state :: "pipeline_state \<Rightarrow> bool" where
  "is_pipeline_terminal_state s \<longleftrightarrow> s \<in> {Run_Done, Run_Escalated, Run_PreflightFailed, Run_Paused}"

record pipeline_run =
  pr_ID :: string
  pr_BacklogID :: string
  pr_AggregateVersion :: int
  pr_Revision :: int
  pr_Template :: string
  pr_State :: pipeline_state
  pr_CurrentStage :: string
  pr_Attempts :: int
  pr_WorktreePath :: string
  pr_MRIID :: "int option"
  pr_StartedAt :: time
  pr_EndedAt :: "time option"
  pr_CostUSD :: int
  pr_SubscriptionCostUSD :: int
  pr_ParentSessionID :: string
  pr_ParentRunID :: "string option"
  pr_Depth :: int
  pr_EscalationClass :: string
  pr_FailureClass :: string
  pr_ExternalDependencyID :: string
  pr_ExternalDependency :: string
  pr_EscalationRetryable :: "bool option"
  pr_RetryExhausted :: "bool option"
  pr_FailureSignature :: string
  pr_VaccineRef :: string

datatype workflow_run_state =
  Flow_Running | Flow_Paused | Flow_Done | Flow_Escalated | Flow_Error | Flow_Quarantined

datatype workflow_run_engine = Engine_DAG | Engine_Imperative

record workflow_run =
  wr_ID :: string
  wr_BacklogID :: string
  wr_Engine :: workflow_run_engine
  wr_Template :: string
  wr_TemplateVersion :: string
  wr_InterpreterVersion :: string
  wr_AggregateVersion :: int
  wr_State :: workflow_run_state
  wr_PausedAt :: "time option"
  wr_ResumedAt :: "time option"
  wr_StartedAt :: "time option"
  wr_EndedAt :: "time option"
  wr_CostUSD :: int
  wr_ParentSessionID :: string

record reservation =
  rv_ID :: nat
  rv_RunID :: string
  rv_BacklogID :: string
  rv_ReservedUSD :: int
  rv_Active :: bool
  rv_CreatedAt :: time
  rv_ReleasedAt :: "time option"

datatype transition_kind = Pipeline_Start | Dispatch_Dead_Letter

record ledger_row =
  lr_BacklogID :: string
  lr_AggregateVersion :: int
  lr_RunID :: string
  lr_Kind :: transition_kind
  lr_From :: backlog_state
  lr_To :: backlog_state
  lr_OccurredAt :: time

datatype dispatch_status = Dispatch_Pending | Dispatch_Delivered | Dispatch_Dead

record pending_dispatch =
  pd_ID :: nat
  pd_RunID :: string
  pd_BacklogID :: string
  pd_AggregateVersion :: int
  pd_Status :: dispatch_status
  pd_Attempts :: int
  pd_LastError :: string
  pd_NextAttemptAt :: time
  pd_LeaseToken :: string
  pd_LeaseExpiresAt :: "time option"
  pd_CreatedAt :: time
  pd_UpdatedAt :: time
  pd_DeliveredAt :: "time option"
  pd_DeadLetteredAt :: "time option"

record scope_fairness =
  sf_BacklogID :: string
  sf_FirstDeferredAt :: time
  sf_DeferralCount :: int
  sf_ReservedAt :: "time option"

record mills_db =
  db_backlog :: "backlog_item list"
  db_runs :: "pipeline_run list"
  db_reservations :: "reservation list"
  db_workflows :: "workflow_run list"
  db_ledger :: "ledger_row list"
  db_dispatches :: "pending_dispatch list"
  db_fairness :: "scope_fairness list"

datatype cap_reason = Over_Run_USD | Over_Day_USD | Over_Day_Runs | Over_Concurrent

datatype store_error =
  Invalid string
| Row_Not_Found
| Claim_Conflict
| Scope_Conflict string string
| Reservation_Conflict string string
| Budget_Exceeded "cap_reason list"
| Constraint string
| Stale_Write
| Dispatch_Conflict

type_synonym 'a tx = "store_error + 'a \<times> mills_db"

definition max_int64 :: int where
  "max_int64 = 2 ^ 63 - 1"

definition day :: duration where
  "day = 24 * 60 * minute"

section \<open>Statements\<close>

definition backlog_get :: "string \<Rightarrow> mills_db \<Rightarrow> backlog_item option" where
  "backlog_get i db = find (\<lambda>b. bi_ID b = i) (db_backlog db)"

definition get_run :: "string \<Rightarrow> mills_db \<Rightarrow> pipeline_run option" where
  "get_run i db = find (\<lambda>r. pr_ID r = i) (db_runs db)"

definition get_dispatch :: "nat \<Rightarrow> mills_db \<Rightarrow> pending_dispatch option" where
  "get_dispatch i db = find (\<lambda>d. pd_ID d = i) (db_dispatches db)"

definition map_where :: "('a \<Rightarrow> bool) \<Rightarrow> ('a \<Rightarrow> 'a) \<Rightarrow> 'a list \<Rightarrow> 'a list" where
  "map_where P f xs = map (\<lambda>x. if P x then f x else x) xs"

definition update_backlog :: "(backlog_item \<Rightarrow> bool) \<Rightarrow> (backlog_item \<Rightarrow> backlog_item) \<Rightarrow> mills_db \<Rightarrow> mills_db" where
  "update_backlog P f db = db\<lparr>db_backlog := map_where P f (db_backlog db)\<rparr>"

definition update_runs :: "(pipeline_run \<Rightarrow> bool) \<Rightarrow> (pipeline_run \<Rightarrow> pipeline_run) \<Rightarrow> mills_db \<Rightarrow> mills_db" where
  "update_runs P f db = db\<lparr>db_runs := map_where P f (db_runs db)\<rparr>"

definition update_workflows :: "(workflow_run \<Rightarrow> bool) \<Rightarrow> (workflow_run \<Rightarrow> workflow_run) \<Rightarrow> mills_db \<Rightarrow> mills_db" where
  "update_workflows P f db = db\<lparr>db_workflows := map_where P f (db_workflows db)\<rparr>"

definition update_dispatches ::
  "(pending_dispatch \<Rightarrow> bool) \<Rightarrow> (pending_dispatch \<Rightarrow> pending_dispatch) \<Rightarrow> mills_db \<Rightarrow> mills_db" where
  "update_dispatches P f db = db\<lparr>db_dispatches := map_where P f (db_dispatches db)\<rparr>"

text \<open>Release of a run's active reservation, at a terminal transition or explicitly.\<close>

definition release_reservation :: "string \<Rightarrow> time \<Rightarrow> mills_db \<Rightarrow> mills_db" where
  "release_reservation run now db =
     db\<lparr>db_reservations := map_where (\<lambda>r. rv_RunID r = run \<and> rv_Active r)
          (\<lambda>r. r\<lparr>rv_Active := False, rv_ReleasedAt := Some now\<rparr>) (db_reservations db)\<rparr>"

definition clear_fairness :: "string \<Rightarrow> mills_db \<Rightarrow> mills_db" where
  "clear_fairness i db = db\<lparr>db_fairness := filter (\<lambda>s. sf_BacklogID s \<noteq> i) (db_fairness db)\<rparr>"

text \<open>Insertions, refused where a primary key or a UNIQUE constraint would break.\<close>

definition insert_run :: "pipeline_run \<Rightarrow> mills_db \<Rightarrow> store_error + mills_db" where
  "insert_run r db =
     (if list_ex (\<lambda>x. pr_ID x = pr_ID r) (db_runs db) then Inl (Constraint ''pipeline_runs.id'')
      else if list_ex (\<lambda>x. pr_BacklogID x = pr_BacklogID r \<and> pr_Attempts x = pr_Attempts r) (db_runs db)
      then Inl (Constraint ''pipeline_runs.backlog_id, attempts'')
      else if backlog_get (pr_BacklogID r) db = None then Inl (Constraint ''backlog_items.id'')
      else if (case pr_ParentRunID r of None \<Rightarrow> False | Some p \<Rightarrow> get_run p db = None)
      then Inl (Constraint ''pipeline_runs.parent_run_id'')
      else Inr (db\<lparr>db_runs := db_runs db @ [r]\<rparr>))"

definition insert_reservation :: "reservation \<Rightarrow> mills_db \<Rightarrow> store_error + mills_db" where
  "insert_reservation r db =
     (if list_ex (\<lambda>x. rv_RunID x = rv_RunID r) (db_reservations db)
      then Inl (Constraint ''pipeline_budget_reservations.run_id'')
      else Inr (db\<lparr>db_reservations := db_reservations db @ [r\<lparr>rv_ID := length (db_reservations db) + 1\<rparr>]\<rparr>))"

definition insert_workflow :: "workflow_run \<Rightarrow> mills_db \<Rightarrow> store_error + mills_db" where
  "insert_workflow w db =
     (if list_ex (\<lambda>x. wr_ID x = wr_ID w) (db_workflows db) then Inl (Constraint ''workflow_runs.id'')
      else Inr (db\<lparr>db_workflows := db_workflows db @ [w]\<rparr>))"

definition insert_ledger :: "ledger_row \<Rightarrow> mills_db \<Rightarrow> store_error + mills_db" where
  "insert_ledger l db =
     (if list_ex (\<lambda>x. lr_BacklogID x = lr_BacklogID l \<and> lr_AggregateVersion x = lr_AggregateVersion l)
           (db_ledger db)
      then Inl (Constraint ''pipeline_transitions.backlog_id, aggregate_version'')
      else Inr (db\<lparr>db_ledger := db_ledger db @ [l]\<rparr>))"

definition insert_dispatch :: "pending_dispatch \<Rightarrow> mills_db \<Rightarrow> store_error + mills_db" where
  "insert_dispatch d db =
     (if list_ex (\<lambda>x. pd_RunID x = pd_RunID d) (db_dispatches db)
      then Inl (Constraint ''pending_dispatches.run_id'')
      else Inr (db\<lparr>db_dispatches := db_dispatches db @ [d\<lparr>pd_ID := length (db_dispatches db) + 1\<rparr>]\<rparr>))"

definition bind_db :: "store_error + 'a \<Rightarrow> ('a \<Rightarrow> store_error + 'b) \<Rightarrow> store_error + 'b" where
  "bind_db x f = (case x of Inl e \<Rightarrow> Inl e | Inr a \<Rightarrow> f a)"

lemma bind_db_simps [simp]: "bind_db (Inl e) f = Inl e" "bind_db (Inr a) f = f a"
  by (simp_all add: bind_db_def)

lemma bind_db_Inr: "bind_db x f = Inr b \<longleftrightarrow> (\<exists>a. x = Inr a \<and> f a = Inr b)"
  by (cases x) auto

section \<open>Which runs are active\<close>

definition is_active :: "pipeline_run \<Rightarrow> bool" where
  "is_active r \<longleftrightarrow> \<not> is_pipeline_terminal_state (pr_State r)"

definition active_runs :: "mills_db \<Rightarrow> pipeline_run list" where
  "active_runs db = filter is_active (db_runs db)"

definition count_active :: "mills_db \<Rightarrow> int" where
  "count_active db = int (length (active_runs db))"

definition list_queued_subruns :: "mills_db \<Rightarrow> pipeline_run list" where
  "list_queued_subruns db =
     sort_key pr_StartedAt
       (filter (\<lambda>r. pr_State r = Run_Queued \<and> pr_ParentRunID r \<noteq> None \<and> pr_Attempts r = 0) (db_runs db))"

text \<open>A queued root run is in flight only once it was delivered, for the running aggregate.\<close>

definition recoverable :: "mills_db \<Rightarrow> pipeline_run \<Rightarrow> bool" where
  "recoverable db r \<longleftrightarrow>
     pr_ParentRunID r = None \<and> 0 < pr_Attempts r \<and>
     list_ex (\<lambda>d. pd_RunID d = pr_ID r \<and> pd_Status d = Dispatch_Delivered) (db_dispatches db) \<and>
     list_ex (\<lambda>b. bi_ID b = pr_BacklogID r \<and> bi_State b = Backlog_Running \<and>
        bi_ClaimVersion b = pr_AggregateVersion r) (db_backlog db)"

definition list_in_flight :: "mills_db \<Rightarrow> pipeline_run list" where
  "list_in_flight db =
     sort_key pr_StartedAt
       (filter (\<lambda>r. is_active r \<and> (pr_State r \<noteq> Run_Queued \<or> recoverable db r)) (db_runs db))"

end
