(* ===== verification/Start_Claim.thy ===== *)
theory Start_Claim
  imports Start_Store "HOL-Library.Product_Lexorder"
begin

text \<open>
  The transactional start of a pipeline: \<open>ClaimPipelineStart\<close> of
  \<^verbatim>\<open>pkg/mills/store/dao_pipeline_start.go\<close> with its scope, reservation and budget checks.

  The generated run id (a UUID behind a prefix) and the reservation policy are arguments of the
  request; the fault hook of the tests is absent.
\<close>

section \<open>Requests\<close>

record start_limits =
  li_MaxUSDPerRun :: int
  li_MaxUSDPerDay :: int
  li_MaxRunsPerDay :: int
  li_MaxConcurrentRuns :: int

record start_request =
  rq_BacklogID :: string
  rq_ExpectedClaimVersion :: int
  rq_ExpectedRevision :: int
  rq_SerializeOverlappingScopes :: bool
  rq_EnforceScopeReservations :: bool
  rq_ReservationPolicy :: "(backlog_item \<Rightarrow> bool \<times> int) option"
  rq_Undeployed :: "string \<rightharpoonup> int"
  rq_HomeProject :: string
  rq_Template :: string
  rq_EstimateUSD :: int
  rq_Limits :: start_limits
  rq_RunID :: string
  rq_FreshID :: string
  rq_ParentSessionID :: string
  rq_Now :: time

definition trim_request :: "start_request \<Rightarrow> start_request" where
  "trim_request rq =
     rq\<lparr>rq_BacklogID := trim_space (rq_BacklogID rq), rq_Template := trim_space (rq_Template rq),
        rq_ParentSessionID := trim_space (rq_ParentSessionID rq), rq_RunID := trim_space (rq_RunID rq),
        rq_HomeProject := trim_space (rq_HomeProject rq)\<rparr>"

definition validate_request :: "start_request \<Rightarrow> store_error option" where
  "validate_request rq =
     (if rq_BacklogID rq = '''' then Some (Invalid ''backlog id required'')
      else if rq_ExpectedClaimVersion rq < 0 then Some (Invalid ''expected claim version must be >= 0'')
      else if rq_ExpectedClaimVersion rq = max_int64 then Some (Invalid ''expected claim version cannot be MaxInt64'')
      else if rq_ExpectedRevision rq < 0 then Some (Invalid ''expected revision must be >= 0'')
      else if rq_ExpectedRevision rq = max_int64 then Some (Invalid ''expected revision cannot be MaxInt64'')
      else if rq_Template rq = '''' then Some (Invalid ''template required'')
      else if rq_EstimateUSD rq < 0 then Some (Invalid ''estimate USD must be finite and >= 0'')
      else if li_MaxUSDPerRun (rq_Limits rq) < 0 \<or> li_MaxUSDPerDay (rq_Limits rq) < 0 \<or>
         li_MaxRunsPerDay (rq_Limits rq) < 0 \<or> li_MaxConcurrentRuns (rq_Limits rq) < 0
      then Some (Invalid ''limits must be finite and >= 0'')
      else None)"

section \<open>Scopes and reservations\<close>

definition running_others :: "string \<Rightarrow> mills_db \<Rightarrow> backlog_item list" where
  "running_others i db =
     sort_key bi_ID (filter (\<lambda>b. bi_State b = Backlog_Running \<and> bi_ID b \<noteq> i) (db_backlog db))"

definition find_scope_conflict :: "backlog_item \<Rightarrow> string \<Rightarrow> mills_db \<Rightarrow> store_error option" where
  "find_scope_conflict item home db =
     (case find (\<lambda>other. backlog_scopes_overlap item other home \<noteq> None) (running_others (bi_ID item) db) of
        None \<Rightarrow> None
      | Some other \<Rightarrow> Some (Scope_Conflict (bi_ID other) (the (backlog_scopes_overlap item other home))))"

definition scope_reservation_precedes :: "backlog_item \<Rightarrow> time \<Rightarrow> backlog_item \<Rightarrow> time \<Rightarrow> bool" where
  "scope_reservation_precedes a at b bt =
     (if bi_Priority a \<noteq> bi_Priority b then bi_Priority a < bi_Priority b
      else if at \<noteq> bt then at < bt
      else if bi_CreatedAt a \<noteq> bi_CreatedAt b then bi_CreatedAt a < bi_CreatedAt b
      else bi_ID a < bi_ID b)"

definition reserved_at :: "mills_db \<Rightarrow> string \<Rightarrow> time option" where
  "reserved_at db i =
     (case find (\<lambda>s. sf_BacklogID s = i) (db_fairness db) of None \<Rightarrow> None | Some s \<Rightarrow> sf_ReservedAt s)"

type_synonym reserver = "backlog_item \<times> time"

definition reserver_key :: "reserver \<Rightarrow> string \<times> time \<times> time \<times> string" where
  "reserver_key r = (bi_Priority (fst r), snd r, bi_CreatedAt (fst r), bi_ID (fst r))"

text \<open>The queued items with a reservation, other than the contender, in the order of precedence.\<close>

definition reservers :: "string \<Rightarrow> mills_db \<Rightarrow> reserver list" where
  "reservers i db =
     sort_key reserver_key
       (List.map_filter
          (\<lambda>b. if bi_State b = Backlog_Queued \<and> bi_ID b \<noteq> i
               then map_option (Pair b) (reserved_at db (bi_ID b)) else None)
          (db_backlog db))"

definition reservation_blocked_by_active :: "backlog_item \<Rightarrow> string \<Rightarrow> string \<Rightarrow> mills_db \<Rightarrow> bool" where
  "reservation_blocked_by_active reserver contender home db =
     list_ex (\<lambda>active. backlog_scopes_overlap reserver active home \<noteq> None) (running_others contender db)"

definition reservation_dependencies_met :: "backlog_item \<Rightarrow> (string \<rightharpoonup> int) \<Rightarrow> mills_db \<Rightarrow> bool" where
  "reservation_dependencies_met item undeployed db =
     list_all (\<lambda>i. case backlog_get i db of
         None \<Rightarrow> False
       | Some b \<Rightarrow> bi_State b = Backlog_Merged \<and> undeployed i \<noteq> Some (bi_Revision b)) (bi_Dependencies item)"

definition is_budgeted :: "pipeline_run \<Rightarrow> bool" where
  "is_budgeted r \<longleftrightarrow>
     \<not> (pr_State r = Run_Escalated \<and>
        ((pr_CostUSD r = 0 \<and> pr_EscalationClass r = ''transient_quota'') \<or> pr_EscalationClass r = ''config''))"

definition reservation_repo_runs :: "backlog_item \<Rightarrow> string \<Rightarrow> time \<Rightarrow> mills_db \<Rightarrow> int" where
  "reservation_repo_runs item home since db =
     (let target = target_or_home (trim_space home) (bi_TargetProject item) in
      if target = '''' then 0
      else int (length (filter
        (\<lambda>r. since \<le> pr_StartedAt r \<and> is_budgeted r \<and>
           (case backlog_get (pr_BacklogID r) db of
              None \<Rightarrow> False
            | Some b \<Rightarrow> same_repo (target_or_home (trim_space home) (bi_TargetProject b)) target))
        (db_runs db))))"

definition reservation_capped :: "start_request \<Rightarrow> mills_db \<Rightarrow> backlog_item \<Rightarrow> bool" where
  "reservation_capped rq db other =
     (case rq_ReservationPolicy rq of
        None \<Rightarrow> False
      | Some policy \<Rightarrow>
          (let (held, cap) = policy other in
           held \<or> (0 < cap \<and>
             cap \<le> reservation_repo_runs other (rq_HomeProject rq) (rq_Now rq div day * day) db)))"

definition reservation_blocks :: "start_request \<Rightarrow> mills_db \<Rightarrow> backlog_item \<Rightarrow> reserver \<Rightarrow> bool" where
  "reservation_blocks rq db item r =
     (let (other, at) = r in
      \<not> (case reserved_at db (bi_ID item) of
           None \<Rightarrow> False | Some mine \<Rightarrow> scope_reservation_precedes item mine other at) \<and>
      \<not> (bi_Priority item < bi_Priority other \<or> bi_RequireHumanReview other) \<and>
      backlog_scopes_overlap item other (rq_HomeProject rq) \<noteq> None \<and>
      \<not> reservation_blocked_by_active other (bi_ID item) (rq_HomeProject rq) db \<and>
      reservation_dependencies_met other (rq_Undeployed rq) db \<and>
      \<not> reservation_capped rq db other)"

definition find_reservation_conflict :: "start_request \<Rightarrow> mills_db \<Rightarrow> backlog_item \<Rightarrow> store_error option" where
  "find_reservation_conflict rq db item =
     (case find (reservation_blocks rq db item) (reservers (bi_ID item) db) of
        None \<Rightarrow> None
      | Some (other, _) \<Rightarrow>
          Some (Reservation_Conflict (bi_ID other)
            (the (backlog_scopes_overlap item other (rq_HomeProject rq)))))"

section \<open>Budget\<close>

record budget_snapshot =
  bs_spentUSD :: int
  bs_reservedUSD :: int
  bs_runs :: int
  bs_activeRuns :: int

definition metered :: "pipeline_run \<Rightarrow> int" where
  "metered r = pr_CostUSD r - pr_SubscriptionCostUSD r"

text \<open>What a reservation still holds beyond the cost of its run, of either engine.\<close>

definition unspent :: "mills_db \<Rightarrow> reservation \<Rightarrow> int" where
  "unspent db r =
     max 0 (rv_ReservedUSD r -
       (case get_run (rv_RunID r) db of
          Some run \<Rightarrow> metered run
        | None \<Rightarrow>
            (case find (\<lambda>w. wr_ID w = rv_RunID r \<and> wr_Engine w = Engine_Imperative) (db_workflows db) of
               Some w \<Rightarrow> wr_CostUSD w | None \<Rightarrow> 0)))"

definition read_budget_snapshot :: "time \<Rightarrow> start_limits \<Rightarrow> mills_db \<Rightarrow> budget_snapshot" where
  "read_budget_snapshot since lim db =
     \<lparr>bs_spentUSD = (if 0 < li_MaxUSDPerDay lim
        then sum_list (map metered (filter (\<lambda>r. since \<le> pr_StartedAt r) (db_runs db))) else 0),
      bs_reservedUSD = (if 0 < li_MaxUSDPerDay lim
        then sum_list (map (unspent db)
               (filter (\<lambda>r. rv_Active r \<and> since \<le> rv_CreatedAt r) (db_reservations db))) else 0),
      bs_runs = (if 0 < li_MaxRunsPerDay lim
        then int (length (filter (\<lambda>r. since \<le> pr_StartedAt r \<and> is_budgeted r) (db_runs db))) else 0),
      bs_activeRuns = (if 0 < li_MaxConcurrentRuns lim then count_active db else 0)\<rparr>"

definition evaluate_budget :: "start_request \<Rightarrow> budget_snapshot \<Rightarrow> cap_reason list" where
  "evaluate_budget rq snap =
     (let lim = rq_Limits rq in
      (if 0 < li_MaxUSDPerRun lim \<and> li_MaxUSDPerRun lim < rq_EstimateUSD rq then [Over_Run_USD] else []) @
      (if 0 < li_MaxUSDPerDay lim \<and> li_MaxUSDPerDay lim < bs_spentUSD snap + bs_reservedUSD snap + rq_EstimateUSD rq
       then [Over_Day_USD] else []) @
      (if 0 < li_MaxRunsPerDay lim \<and> li_MaxRunsPerDay lim \<le> bs_runs snap then [Over_Day_Runs] else []) @
      (if 0 < li_MaxConcurrentRuns lim \<and> li_MaxConcurrentRuns lim \<le> bs_activeRuns snap
       then [Over_Concurrent] else []))"

section \<open>The claim\<close>

record start_result =
  re_Backlog :: backlog_item
  re_Run :: pipeline_run
  re_WorkflowRun :: workflow_run
  re_Reservation :: reservation
  re_Dispatch :: pending_dispatch

definition claim_cas :: "start_request \<Rightarrow> mills_db \<Rightarrow> store_error + backlog_item \<times> mills_db" where
  "claim_cas rq db =
     (let P = (\<lambda>b. bi_ID b = rq_BacklogID rq \<and> bi_State b = Backlog_Queued \<and>
                 bi_ClaimVersion b = rq_ExpectedClaimVersion rq \<and> bi_Revision b = rq_ExpectedRevision rq)
      in if \<not> list_ex P (db_backlog db) then Inl Claim_Conflict
         else
           (let db1 = update_backlog P
                  (\<lambda>b. b\<lparr>bi_State := Backlog_Running, bi_ClaimVersion := bi_ClaimVersion b + 1,
                         bi_Revision := bi_Revision b + 1, bi_UpdatedAt := rq_Now rq\<rparr>) db
            in case backlog_get (rq_BacklogID rq) db1 of
                 None \<Rightarrow> Inl Row_Not_Found
               | Some item \<Rightarrow> Inr (item, db1)))"

definition next_attempt :: "string \<Rightarrow> mills_db \<Rightarrow> int" where
  "next_attempt i db =
     (case map pr_Attempts (filter (\<lambda>r. pr_BacklogID r = i) (db_runs db)) of
        [] \<Rightarrow> 1
      | a # as \<Rightarrow> fold max as a + 1)"

definition start_run :: "start_request \<Rightarrow> string \<Rightarrow> int \<Rightarrow> int \<Rightarrow> pipeline_run" where
  "start_run rq run version attempt =
     \<lparr>pr_ID = run, pr_BacklogID = rq_BacklogID rq, pr_AggregateVersion = version, pr_Revision = 1,
      pr_Template = rq_Template rq, pr_State = Run_Queued, pr_CurrentStage = '''', pr_Attempts = attempt,
      pr_WorktreePath = '''', pr_MRIID = None, pr_StartedAt = rq_Now rq, pr_EndedAt = None, pr_CostUSD = 0,
      pr_SubscriptionCostUSD = 0, pr_ParentSessionID = rq_ParentSessionID rq, pr_ParentRunID = None,
      pr_Depth = 0, pr_EscalationClass = '''', pr_FailureClass = '''', pr_ExternalDependencyID = '''',
      pr_ExternalDependency = '''', pr_EscalationRetryable = None, pr_RetryExhausted = None,
      pr_FailureSignature = '''', pr_VaccineRef = ''''\<rparr>"

definition start_reservation :: "start_request \<Rightarrow> string \<Rightarrow> reservation" where
  "start_reservation rq run =
     \<lparr>rv_ID = 0, rv_RunID = run, rv_BacklogID = rq_BacklogID rq, rv_ReservedUSD = rq_EstimateUSD rq,
      rv_Active = True, rv_CreatedAt = rq_Now rq, rv_ReleasedAt = None\<rparr>"

definition start_workflow_row :: "start_request \<Rightarrow> string \<Rightarrow> int \<Rightarrow> workflow_run" where
  "start_workflow_row rq run version =
     \<lparr>wr_ID = run, wr_BacklogID = rq_BacklogID rq, wr_Engine = Engine_DAG, wr_Template = rq_Template rq,
      wr_TemplateVersion = ''v1'', wr_InterpreterVersion = ''pipeline-runner/v1'', wr_AggregateVersion = version,
      wr_State = Flow_Running, wr_PausedAt = None, wr_ResumedAt = None, wr_StartedAt = Some (rq_Now rq),
      wr_EndedAt = None, wr_CostUSD = 0, wr_ParentSessionID = rq_ParentSessionID rq\<rparr>"

definition start_ledger_row :: "start_request \<Rightarrow> string \<Rightarrow> int \<Rightarrow> ledger_row" where
  "start_ledger_row rq run version =
     \<lparr>lr_BacklogID = rq_BacklogID rq, lr_AggregateVersion = version, lr_RunID = run, lr_Kind = Pipeline_Start,
      lr_From = Backlog_Queued, lr_To = Backlog_Running, lr_OccurredAt = rq_Now rq\<rparr>"

definition start_dispatch :: "start_request \<Rightarrow> string \<Rightarrow> int \<Rightarrow> pending_dispatch" where
  "start_dispatch rq run version =
     \<lparr>pd_ID = 0, pd_RunID = run, pd_BacklogID = rq_BacklogID rq, pd_AggregateVersion = version,
      pd_Status = Dispatch_Pending, pd_Attempts = 0, pd_LastError = '''', pd_NextAttemptAt = rq_Now rq,
      pd_LeaseToken = '''', pd_LeaseExpiresAt = None, pd_CreatedAt = rq_Now rq, pd_UpdatedAt = rq_Now rq,
      pd_DeliveredAt = None, pd_DeadLetteredAt = None\<rparr>"

text \<open>Admission: the checks after the compare and swap.\<close>

definition admit :: "start_request \<Rightarrow> backlog_item \<Rightarrow> mills_db \<Rightarrow> store_error option" where
  "admit rq item db =
     (case (if rq_SerializeOverlappingScopes rq then find_scope_conflict item (rq_HomeProject rq) db else None) of
        Some e \<Rightarrow> Some e
      | None \<Rightarrow>
          (case (if rq_SerializeOverlappingScopes rq \<and> rq_EnforceScopeReservations rq
                 then find_reservation_conflict rq db item else None) of
             Some e \<Rightarrow> Some e
           | None \<Rightarrow>
               (case evaluate_budget rq (read_budget_snapshot (rq_Now rq - day) (rq_Limits rq) db) of
                  [] \<Rightarrow> None
                | reasons \<Rightarrow> Some (Budget_Exceeded reasons))))"

definition run_id_of :: "start_request \<Rightarrow> string" where
  "run_id_of rq =
     (if rq_RunID rq = '''' then ''PIPE-'' @ rq_BacklogID rq @ ''-'' @ rq_FreshID rq else rq_RunID rq)"

text \<open>The rows of an admitted start.\<close>

definition materialize :: "start_request \<Rightarrow> backlog_item \<Rightarrow> mills_db \<Rightarrow> start_result tx" where
  "materialize rq item db =
     (let run = run_id_of rq; version = bi_ClaimVersion item;
          r = start_run rq run version (next_attempt (rq_BacklogID rq) db);
          rv = (start_reservation rq run)\<lparr>rv_ID := length (db_reservations db) + 1\<rparr>;
          w = start_workflow_row rq run version;
          d = (start_dispatch rq run version)\<lparr>pd_ID := length (db_dispatches db) + 1\<rparr>
      in bind_db (insert_run r db) (\<lambda>db1.
         bind_db (insert_reservation rv db1) (\<lambda>db2.
         bind_db (insert_workflow w db2) (\<lambda>db3.
         bind_db (insert_ledger (start_ledger_row rq run version) db3) (\<lambda>db4.
         bind_db (insert_dispatch d db4) (\<lambda>db5.
           Inr (\<lparr>re_Backlog = item, re_Run = r, re_WorkflowRun = w, re_Reservation = rv, re_Dispatch = d\<rparr>,
                clear_fairness (rq_BacklogID rq) db5)))))))"

definition claim_tx :: "start_request \<Rightarrow> mills_db \<Rightarrow> start_result tx" where
  "claim_tx rq db =
     bind_db (claim_cas rq db) (\<lambda>(item, db1).
       case admit rq item db1 of Some e \<Rightarrow> Inl e | None \<Rightarrow> materialize rq item db1)"

text \<open>A reservation that stands before the transaction refuses the claim before anything is written.\<close>

definition early_conflict :: "start_request \<Rightarrow> mills_db \<Rightarrow> store_error option" where
  "early_conflict rq db =
     (if rq_SerializeOverlappingScopes rq \<and> rq_EnforceScopeReservations rq then
        (case backlog_get (rq_BacklogID rq) db of
           None \<Rightarrow> None
         | Some item \<Rightarrow>
             if bi_State item = Backlog_Queued then find_reservation_conflict rq db item else None)
      else None)"

definition claim_pipeline_start :: "start_request \<Rightarrow> mills_db \<Rightarrow> start_result tx" where
  "claim_pipeline_start rq0 db =
     (let rq = trim_request rq0 in
      case validate_request rq of
        Some e \<Rightarrow> Inl e
      | None \<Rightarrow>
          (case early_conflict rq db of
             Some e \<Rightarrow> Inl e
           | None \<Rightarrow> claim_tx rq db))"

end
