(* ===== verification/Start_Runs.thy ===== *)
theory Start_Runs
  imports Start_Store
begin

text \<open>
  The life of a pipeline run and of its backlog item after the start: \<open>PutRun\<close>, pause, resume
  and subrun creation of \<^verbatim>\<open>pkg/mills/store/dao_pipeline.go\<close>, \<open>TransitionState\<close> and the scope
  deferrals of \<^verbatim>\<open>dao_backlog.go\<close>, and the recursion guard of
  \<^verbatim>\<open>pkg/mills/pipeline/recursion.go\<close>.  The clock is an argument.
\<close>

definition zero_time :: time where
  "zero_time = - 62135596800 * second"

section \<open>Writing an item\<close>

text \<open>The insertion of an item gives it claim version 0 and revision 1; an update is fenced by the revision.\<close>

definition put_backlog :: "time \<Rightarrow> backlog_item \<Rightarrow> mills_db \<Rightarrow> backlog_item tx" where
  "put_backlog now b0 db =
     (if bi_ID b0 = '''' then Inl (Invalid ''item.ID required'')
      else if bi_Revision b0 < 0 \<or> bi_ClaimVersion b0 < 0 then Inl (Invalid ''versions must be >= 0'')
      else if bi_Revision b0 = max_int64 \<or> bi_ClaimVersion b0 = max_int64
      then Inl (Invalid ''versions must be < max int64'')
      else
        (let b = b0\<lparr>bi_CreatedAt := (if bi_CreatedAt b0 = zero_time then now else bi_CreatedAt b0),
                     bi_UpdatedAt := now\<rparr>
         in case backlog_get (bi_ID b) db of
              None \<Rightarrow>
                (let new = b\<lparr>bi_ClaimVersion := 0, bi_Revision := 1\<rparr>
                 in Inr (new, db\<lparr>db_backlog := db_backlog db @ [new]\<rparr>))
            | Some old \<Rightarrow>
                if bi_Revision old \<noteq> bi_Revision b then Inl Stale_Write
                else
                  (let new = b\<lparr>bi_ClaimVersion := bi_ClaimVersion old, bi_Revision := bi_Revision old + 1,
                               bi_CreatedAt := bi_CreatedAt old\<rparr>
                   in Inr (new, update_backlog (\<lambda>x. bi_ID x = bi_ID b) (\<lambda>_. new) db))))"

section \<open>Backlog transitions\<close>

text \<open>An update of the expected aggregate; a row already at the target is a success.\<close>

definition transition_backlog ::
  "string \<Rightarrow> int \<Rightarrow> backlog_state \<Rightarrow> backlog_state \<Rightarrow> time \<Rightarrow> mills_db \<Rightarrow> backlog_item tx" where
  "transition_backlog i version from_state to_state now db =
     (if i = '''' then Inl (Invalid ''id required'')
      else if version < 0 then Inl (Invalid ''expected claim version must be >= 0'')
      else
        (let P = (\<lambda>b. bi_ID b = i \<and> bi_ClaimVersion b = version \<and> bi_State b = from_state \<and>
                    bi_State b \<noteq> to_state \<and> bi_Revision b < max_int64);
             db1 = update_backlog P
               (\<lambda>b. b\<lparr>bi_State := to_state, bi_Revision := bi_Revision b + 1, bi_UpdatedAt := now\<rparr>) db
         in case backlog_get i db of
              None \<Rightarrow> Inl Row_Not_Found
            | Some b \<Rightarrow>
                if P b then
                  (case backlog_get i db1 of None \<Rightarrow> Inl Row_Not_Found | Some b1 \<Rightarrow> Inr (b1, db1))
                else if bi_ClaimVersion b = version \<and> bi_State b = to_state then Inr (b, db)
                else Inl Stale_Write))"

definition transition_state ::
  "string \<Rightarrow> int \<Rightarrow> backlog_state \<Rightarrow> backlog_state \<Rightarrow> time \<Rightarrow> mills_db \<Rightarrow> backlog_item tx" where
  "transition_state i version from_state to_state now db =
     bind_db (transition_backlog i version from_state to_state now db) (\<lambda>(b, db1).
       let changed = (case backlog_get i db of None \<Rightarrow> False
             | Some b0 \<Rightarrow> bi_State b0 = from_state \<and> from_state \<noteq> to_state \<and> bi_Revision b0 < max_int64)
       in Inr (b, if changed \<and> to_state \<noteq> Backlog_Queued \<and> to_state \<noteq> Backlog_Running
                  then clear_fairness i db1 else db1))"

section \<open>Scope deferrals\<close>

definition record_scope_deferral ::
  "string \<Rightarrow> time \<Rightarrow> int \<Rightarrow> duration \<Rightarrow> mills_db \<Rightarrow> (scope_fairness \<times> bool) tx" where
  "record_scope_deferral i now count_threshold age_threshold db =
     (if backlog_get i db = None then Inl (Constraint ''backlog_items.id'')
      else
        (let fs = (if list_ex (\<lambda>s. sf_BacklogID s = i) (db_fairness db)
                   then map_where (\<lambda>s. sf_BacklogID s = i)
                     (\<lambda>s. s\<lparr>sf_DeferralCount := sf_DeferralCount s + 1\<rparr>) (db_fairness db)
                   else db_fairness db @
                     [\<lparr>sf_BacklogID = i, sf_FirstDeferredAt = now, sf_DeferralCount = 1, sf_ReservedAt = None\<rparr>])
         in case find (\<lambda>s. sf_BacklogID s = i) fs of
              None \<Rightarrow> Inl Row_Not_Found
            | Some s \<Rightarrow>
                if sf_ReservedAt s = None \<and>
                   (count_threshold \<le> sf_DeferralCount s \<or> age_threshold \<le> now - sf_FirstDeferredAt s)
                then Inr ((s\<lparr>sf_ReservedAt := Some now\<rparr>, True),
                       db\<lparr>db_fairness := map_where (\<lambda>s. sf_BacklogID s = i)
                            (\<lambda>s. s\<lparr>sf_ReservedAt := Some now\<rparr>) fs\<rparr>)
                else Inr ((s, False), db\<lparr>db_fairness := fs\<rparr>)))"

section \<open>Writing a run\<close>

definition validate_run :: "pipeline_run \<Rightarrow> store_error option" where
  "validate_run r =
     (if pr_ID r = '''' then Some (Invalid ''run.ID required'')
      else if pr_BacklogID r = '''' then Some (Invalid ''run.BacklogID required'')
      else if pr_Depth r < 0 then Some (Invalid ''run.Depth must be >= 0'')
      else if pr_AggregateVersion r < 0 then Some (Invalid ''run.AggregateVersion must be >= 0'')
      else if pr_Revision r < 0 then Some (Invalid ''run.Revision must be >= 0'')
      else if pr_Revision r = max_int64 then Some (Invalid ''run.Revision must be < max int64'')
      else if pr_CostUSD r < 0 then Some (Invalid ''run.CostUSD must be finite and >= 0'')
      else None)"

definition may_overwrite :: "pipeline_run \<Rightarrow> pipeline_run \<Rightarrow> bool" where
  "may_overwrite old r \<longleftrightarrow>
     pr_AggregateVersion r = pr_AggregateVersion old \<and> pr_Revision old = pr_Revision r \<and>
     (\<not> is_pipeline_terminal_state (pr_State old) \<or> pr_State r = pr_State old \<or>
      pr_State old = Run_Escalated \<and> pr_State r = Run_PreflightFailed)"

definition merged_row :: "pipeline_run \<Rightarrow> pipeline_run \<Rightarrow> pipeline_run" where
  "merged_row old r =
     r\<lparr>pr_Revision := pr_Revision old + 1, pr_StartedAt := pr_StartedAt old,
       pr_EndedAt := (if is_pipeline_terminal_state (pr_State old) \<and> pr_EndedAt old \<noteq> None
                      then pr_EndedAt old else pr_EndedAt r),
       pr_FailureSignature := (if pr_FailureSignature r \<noteq> '''' then pr_FailureSignature r
                               else pr_FailureSignature old),
       pr_VaccineRef := (if pr_VaccineRef old \<noteq> '''' then pr_VaccineRef old else pr_VaccineRef r)\<rparr>"

definition put_pipeline_run :: "time \<Rightarrow> pipeline_run \<Rightarrow> mills_db \<Rightarrow> pipeline_run tx" where
  "put_pipeline_run now r0 db =
     (case validate_run r0 of
        Some e \<Rightarrow> Inl e
      | None \<Rightarrow>
          (let r = (if pr_StartedAt r0 = zero_time then r0\<lparr>pr_StartedAt := now\<rparr> else r0) in
           case get_run (pr_ID r) db of
             None \<Rightarrow>
               (let new = r\<lparr>pr_Revision := 1\<rparr>
                in bind_db (insert_run new db) (\<lambda>db1. Inr (new, db1)))
           | Some old \<Rightarrow>
               if \<not> may_overwrite old r then Inl Stale_Write
               else if list_ex (\<lambda>x. pr_ID x \<noteq> pr_ID r \<and> pr_BacklogID x = pr_BacklogID r \<and>
                      pr_Attempts x = pr_Attempts r) (db_runs db)
               then Inl (Constraint ''pipeline_runs.backlog_id, attempts'')
               else if backlog_get (pr_BacklogID r) db = None then Inl (Constraint ''backlog_items.id'')
               else if (case pr_ParentRunID r of None \<Rightarrow> False | Some p \<Rightarrow> get_run p db = None)
               then Inl (Constraint ''pipeline_runs.parent_run_id'')
               else
                 (let new = merged_row old r
                  in Inr (new, update_runs (\<lambda>x. pr_ID x = pr_ID r) (\<lambda>_. new) db))))"

definition workflow_state_of :: "pipeline_state \<Rightarrow> workflow_run_state" where
  "workflow_state_of s =
     (case s of Run_Done \<Rightarrow> Flow_Done | Run_Escalated \<Rightarrow> Flow_Escalated | Run_Paused \<Rightarrow> Flow_Paused
      | _ \<Rightarrow> Flow_Error)"

definition put_terminal_run_tx :: "time \<Rightarrow> pipeline_run \<Rightarrow> mills_db \<Rightarrow> pipeline_run tx" where
  "put_terminal_run_tx now r0 db =
     (let r = (if pr_State r0 \<noteq> Run_Paused \<and> pr_EndedAt r0 = None then r0\<lparr>pr_EndedAt := Some now\<rparr> else r0) in
      bind_db (put_pipeline_run now r db) (\<lambda>(new, db1).
        let at = (case pr_EndedAt new of None \<Rightarrow> now | Some t \<Rightarrow> t);
            db2 = release_reservation (pr_ID new) at db1;
            P = (\<lambda>w. wr_ID w = pr_ID new \<and> wr_Engine w = Engine_DAG);
            s = workflow_state_of (pr_State new)
        in Inr (new,
             if pr_State new = Run_Paused
             then update_workflows P
               (\<lambda>w. w\<lparr>wr_State := s, wr_PausedAt := Some at, wr_CostUSD := pr_CostUSD new\<rparr>) db2
             else update_workflows P
               (\<lambda>w. w\<lparr>wr_State := s, wr_EndedAt := Some at, wr_CostUSD := pr_CostUSD new\<rparr>) db2)))"

definition put_run :: "time \<Rightarrow> pipeline_run \<Rightarrow> mills_db \<Rightarrow> pipeline_run tx" where
  "put_run now r db =
     (if is_pipeline_terminal_state (pr_State r) then put_terminal_run_tx now r db
      else put_pipeline_run now r db)"

section \<open>Pause and resume\<close>

definition pause_run_with_backlog ::
  "time \<Rightarrow> pipeline_run \<Rightarrow> backlog_state \<Rightarrow> mills_db \<Rightarrow> pipeline_run tx" where
  "pause_run_with_backlog now r from_state db =
     (if pr_ID r = '''' then Inl (Invalid ''run.ID required'')
      else
        bind_db (put_terminal_run_tx now (r\<lparr>pr_State := Run_Paused, pr_EndedAt := Some now\<rparr>) db) (\<lambda>(new, db1).
        bind_db (transition_backlog (pr_BacklogID r) (pr_AggregateVersion r) from_state Backlog_Paused now db1)
          (\<lambda>(b, db2). Inr (new, db2))))"

definition resume_paused_run_with_backlog ::
  "time \<Rightarrow> pipeline_run \<Rightarrow> backlog_state option \<Rightarrow> mills_db \<Rightarrow> pipeline_run tx" where
  "resume_paused_run_with_backlog now r from_state db =
     (if pr_ID r = '''' then Inl (Invalid ''run.ID required'')
      else
        (let P = (\<lambda>x. pr_ID x = pr_ID r \<and> pr_AggregateVersion x = pr_AggregateVersion r \<and>
                    pr_Revision x = pr_Revision r \<and> pr_State x = Run_Paused);
             db1 = update_runs P
               (\<lambda>x. x\<lparr>pr_State := Run_Queued, pr_EndedAt := None, pr_Revision := pr_Revision x + 1\<rparr>) db
         in if \<not> list_ex P (db_runs db) then Inl Stale_Write
            else
              bind_db
                (case from_state of
                   None \<Rightarrow> Inr db1
                 | Some s \<Rightarrow>
                     bind_db (transition_backlog (pr_BacklogID r) (pr_AggregateVersion r) s Backlog_Queued now db1)
                       (\<lambda>(b, db2). Inr db2))
                (\<lambda>db2.
                  Inr (r\<lparr>pr_State := Run_Queued, pr_EndedAt := None, pr_Revision := pr_Revision r + 1\<rparr>,
                    update_workflows (\<lambda>w. wr_ID w = pr_ID r \<and> wr_Engine w = Engine_DAG)
                      (\<lambda>w. w\<lparr>wr_State := Flow_Running, wr_PausedAt := None, wr_ResumedAt := Some now,
                             wr_EndedAt := None\<rparr>) db2))))"

section \<open>Escalation metadata\<close>

text \<open>The classification of an escalation; an empty string or no flag leaves the column as it is.\<close>

record escalation_metadata =
  em_EscalationClass :: string
  em_FailureClass :: string
  em_ExternalDependencyID :: string
  em_ExternalDependency :: string
  em_Retryable :: "bool option"
  em_RetryExhausted :: "bool option"
  em_FailureSignature :: string

definition no_metadata :: escalation_metadata where
  "no_metadata = \<lparr>em_EscalationClass = '''', em_FailureClass = '''', em_ExternalDependencyID = '''',
     em_ExternalDependency = '''', em_Retryable = None, em_RetryExhausted = None, em_FailureSignature = ''''\<rparr>"

definition kept_text :: "string \<Rightarrow> string \<Rightarrow> string" where
  "kept_text new old = (if new = '''' then old else new)"

definition kept_flag :: "bool option \<Rightarrow> bool option \<Rightarrow> bool option" where
  "kept_flag new old = (if new = None then old else new)"

definition stamped :: "escalation_metadata \<Rightarrow> pipeline_run \<Rightarrow> pipeline_run" where
  "stamped md r =
     r\<lparr>pr_EscalationClass := kept_text (em_EscalationClass md) (pr_EscalationClass r),
       pr_FailureClass := kept_text (em_FailureClass md) (pr_FailureClass r),
       pr_ExternalDependencyID := kept_text (em_ExternalDependencyID md) (pr_ExternalDependencyID r),
       pr_ExternalDependency := kept_text (em_ExternalDependency md) (pr_ExternalDependency r),
       pr_EscalationRetryable := kept_flag (em_Retryable md) (pr_EscalationRetryable r),
       pr_RetryExhausted := kept_flag (em_RetryExhausted md) (pr_RetryExhausted r),
       pr_FailureSignature := kept_text (em_FailureSignature md) (pr_FailureSignature r)\<rparr>"

definition set_escalation_metadata :: "string \<Rightarrow> escalation_metadata \<Rightarrow> mills_db \<Rightarrow> unit tx" where
  "set_escalation_metadata i md db =
     (if i = '''' then Inl (Invalid ''run id required'')
      else if md = no_metadata then Inr ((), db)
      else if \<not> list_ex (\<lambda>r. pr_ID r = i) (db_runs db) then Inl Row_Not_Found
      else Inr ((), update_runs (\<lambda>r. pr_ID r = i) (stamped md) db))"

section \<open>Subruns\<close>

definition create_subrun :: "time \<Rightarrow> pipeline_run \<Rightarrow> mills_db \<Rightarrow> pipeline_run tx" where
  "create_subrun now r0 db =
     (case validate_run r0 of
        Some e \<Rightarrow> Inl e
      | None \<Rightarrow>
          (case pr_ParentRunID r0 of
             None \<Rightarrow> Inl (Invalid ''subrun.ParentRunID required'')
           | Some p \<Rightarrow>
               if p = '''' then Inl (Invalid ''subrun.ParentRunID required'')
               else if pr_Depth r0 \<le> 0 then Inl (Invalid ''subrun.Depth must be > 0'')
               else if get_run p db = None then Inl (Invalid ''subrun parent does not exist'')
               else
                 (let r = (if pr_StartedAt r0 = zero_time then r0\<lparr>pr_StartedAt := now\<rparr> else r0);
                      new = r\<lparr>pr_Revision := 1, pr_MRIID := None, pr_EndedAt := None,
                              pr_EscalationRetryable := None, pr_RetryExhausted := None\<rparr>
                  in bind_db (insert_run new db) (\<lambda>db1. Inr (r\<lparr>pr_Revision := 1\<rparr>, db1)))))"

datatype guard_error =
  Recursion_Disabled | Parent_Not_Found | Depth_Exceeded | Budget_Subrun_Too_Large | Cycle_Detected
| SliceSpec_Too_Large | Missing_Fields | Policy_Unavailable | Guard_Store store_error

record subrun_request =
  sr_ParentRunID :: string
  sr_BacklogID :: string
  sr_Template :: string
  sr_EstimateUSD :: int
  sr_SliceSpec :: string

text \<open>A budget share is a number of hundredths.\<close>

record recursion_policy =
  rp_Enabled :: bool
  rp_MaxDepth :: int
  rp_SubrunMaxBudgetShare :: int
  rp_MaxUSDPerRun :: int

definition max_slice_spec_bytes :: nat where
  "max_slice_spec_bytes = 32 * 1024"

definition max_depth_of :: "recursion_policy \<Rightarrow> int" where
  "max_depth_of p = (if rp_MaxDepth p \<le> 0 then 2 else rp_MaxDepth p)"

definition share_of :: "recursion_policy \<Rightarrow> int" where
  "share_of p = (if rp_SubrunMaxBudgetShare p \<le> 0 then 50 else rp_SubrunMaxBudgetShare p)"

text \<open>The walk up the ancestors, at most \<open>hops\<close> of them.\<close>

fun detect_cycle :: "nat \<Rightarrow> pipeline_run \<Rightarrow> string \<Rightarrow> mills_db \<Rightarrow> bool" where
  "detect_cycle 0 cur wanted db = False"
| "detect_cycle (Suc hops) cur wanted db =
     (if pr_BacklogID cur = wanted then True
      else case pr_ParentRunID cur of
        None \<Rightarrow> False
      | Some p \<Rightarrow>
          if p = '''' then False
          else case get_run p db of None \<Rightarrow> False | Some next \<Rightarrow> detect_cycle hops next wanted db)"

definition check_request_fields :: "subrun_request \<Rightarrow> guard_error option" where
  "check_request_fields rq =
     (if trim_space (sr_ParentRunID rq) = '''' \<or> trim_space (sr_BacklogID rq) = '''' \<or>
         trim_space (sr_Template rq) = '''' \<or> sr_EstimateUSD rq < 0 then Some Missing_Fields
      else if max_slice_spec_bytes < length (sr_SliceSpec rq) then Some SliceSpec_Too_Large
      else None)"

definition guard_subrun :: "recursion_policy option \<Rightarrow> subrun_request \<Rightarrow> mills_db \<Rightarrow> guard_error + pipeline_run \<times> backlog_item" where
  "guard_subrun policy rq db =
     (case check_request_fields rq of
        Some e \<Rightarrow> Inl e
      | None \<Rightarrow>
          (case policy of
             None \<Rightarrow> Inl Policy_Unavailable
           | Some p \<Rightarrow>
               if \<not> rp_Enabled p then Inl Recursion_Disabled
               else case get_run (sr_ParentRunID rq) db of
                 None \<Rightarrow> Inl Parent_Not_Found
               | Some parent \<Rightarrow>
                   if max_depth_of p < pr_Depth parent + 1 then Inl Depth_Exceeded
                   else if 0 < rp_MaxUSDPerRun p \<and>
                     rp_MaxUSDPerRun p * share_of p < 100 * sr_EstimateUSD rq
                   then Inl Budget_Subrun_Too_Large
                   else if detect_cycle (nat (max_depth_of p) + 1) parent (sr_BacklogID rq) db
                   then Inl Cycle_Detected
                   else case backlog_get (sr_BacklogID rq) db of
                     None \<Rightarrow> Inl (Guard_Store Row_Not_Found)
                   | Some target \<Rightarrow> Inr (parent, target)))"

definition subrun_row :: "time \<Rightarrow> string \<Rightarrow> subrun_request \<Rightarrow> pipeline_run \<Rightarrow> backlog_item \<Rightarrow> pipeline_run" where
  "subrun_row now new_id rq parent target =
     \<lparr>pr_ID = new_id, pr_BacklogID = sr_BacklogID rq, pr_AggregateVersion = bi_ClaimVersion target,
      pr_Revision = 0, pr_Template = sr_Template rq, pr_State = Run_Queued, pr_CurrentStage = '''',
      pr_Attempts = 0, pr_WorktreePath = '''', pr_MRIID = None, pr_StartedAt = now, pr_EndedAt = None,
      pr_CostUSD = 0, pr_SubscriptionCostUSD = 0, pr_ParentSessionID = pr_ParentSessionID parent,
      pr_ParentRunID = Some (pr_ID parent), pr_Depth = pr_Depth parent + 1, pr_EscalationClass = '''',
      pr_FailureClass = '''', pr_ExternalDependencyID = '''', pr_ExternalDependency = '''',
      pr_EscalationRetryable = None, pr_RetryExhausted = None, pr_FailureSignature = '''', pr_VaccineRef = ''''\<rparr>"

text \<open>The claim after the insertion is a transaction of its own: its failure leaves the run.\<close>

definition subrun_create ::
  "recursion_policy option \<Rightarrow> time \<Rightarrow> string \<Rightarrow> subrun_request \<Rightarrow> mills_db \<Rightarrow> mills_db \<times> guard_error option" where
  "subrun_create policy now new_id rq db =
     (case guard_subrun policy rq db of
        Inl e \<Rightarrow> (db, Some e)
      | Inr (parent, target) \<Rightarrow>
          (case create_subrun now (subrun_row now new_id rq parent target) db of
             Inl e \<Rightarrow> (db, Some (Guard_Store e))
           | Inr (r, db1) \<Rightarrow>
               (case transition_state (bi_ID target) (bi_ClaimVersion target) (bi_State target)
                       Backlog_Running now db1 of
                  Inl e \<Rightarrow> (db1, Some (Guard_Store e))
                | Inr (b, db2) \<Rightarrow> (db2, None))))"

end
