(* ===== verification/Start_Dispatch.thy ===== *)
theory Start_Dispatch
  imports Start_Store
begin

text \<open>
  The dispatch outbox of \<^verbatim>\<open>pkg/mills/store/dao_pipeline_start.go\<close>: leases, acknowledgement, bounded
  exponential backoff and the dead letter that gives a start up.  The random part of a lease
  token is an argument.
\<close>

section \<open>Leases\<close>

definition ready_dispatch :: "time \<Rightarrow> pending_dispatch \<Rightarrow> bool" where
  "ready_dispatch now d \<longleftrightarrow>
     pd_Status d = Dispatch_Pending \<and> pd_NextAttemptAt d \<le> now \<and>
     (pd_LeaseToken d = '''' \<or> (case pd_LeaseExpiresAt d of None \<Rightarrow> True | Some t \<Rightarrow> t \<le> now))"

definition lease :: "string \<Rightarrow> time \<Rightarrow> duration \<Rightarrow> pending_dispatch \<Rightarrow> pending_dispatch" where
  "lease prefix now len d =
     d\<lparr>pd_LeaseToken := prefix @ ''-'' @ dec (pd_ID d), pd_LeaseExpiresAt := Some (now + len),
       pd_Attempts := pd_Attempts d + 1, pd_UpdatedAt := now\<rparr>"

definition normalize_lease :: "duration \<Rightarrow> duration" where
  "normalize_lease len = (if len \<le> 0 then minute else len)"

definition claim_pending_dispatch ::
  "string \<Rightarrow> nat \<Rightarrow> time \<Rightarrow> duration \<Rightarrow> mills_db \<Rightarrow> pending_dispatch tx" where
  "claim_pending_dispatch prefix i now len db =
     (if i = 0 then Inl (Invalid ''id must be positive'')
      else
        (let P = (\<lambda>d. pd_ID d = i \<and> ready_dispatch now d);
             db1 = update_dispatches P (lease prefix now (normalize_lease len)) db
         in if \<not> list_ex P (db_dispatches db) then Inl Dispatch_Conflict
            else case get_dispatch i db1 of None \<Rightarrow> Inl Dispatch_Conflict | Some d \<Rightarrow> Inr (d, db1)))"

definition clamp_limit :: "int \<Rightarrow> nat" where
  "clamp_limit n = nat (if n \<le> 0 then 100 else if 1000 < n then 1000 else n)"

text \<open>\<open>ORDER BY attempts, next_attempt_at, id\<close>.\<close>

definition ready_ids :: "nat \<Rightarrow> time \<Rightarrow> mills_db \<Rightarrow> nat list" where
  "ready_ids limit now db =
     map pd_ID (take limit
       (sort_key pd_Attempts (sort_key pd_NextAttemptAt (sort_key pd_ID
          (filter (ready_dispatch now) (db_dispatches db))))))"

definition claim_pending_dispatches ::
  "string \<Rightarrow> int \<Rightarrow> time \<Rightarrow> duration \<Rightarrow> mills_db \<Rightarrow> pending_dispatch list \<times> mills_db" where
  "claim_pending_dispatches prefix limit now len db =
     (let ids = ready_ids (clamp_limit limit) now db;
          P = (\<lambda>d. pd_ID d \<in> set ids \<and> ready_dispatch now d);
          f = lease prefix now (normalize_lease len)
      in (map f (filter P (db_dispatches db)), update_dispatches P f db))"

definition list_pending_dispatches :: "int \<Rightarrow> mills_db \<Rightarrow> pending_dispatch list" where
  "list_pending_dispatches limit db =
     take (clamp_limit limit)
       (sort_key pd_Attempts (sort_key pd_NextAttemptAt (sort_key pd_ID
          (filter (\<lambda>d. pd_Status d = Dispatch_Pending) (db_dispatches db)))))"

section \<open>Acknowledgement\<close>

definition held_by :: "nat \<Rightarrow> string \<Rightarrow> pending_dispatch \<Rightarrow> bool" where
  "held_by i token d \<longleftrightarrow> pd_ID d = i \<and> pd_Status d = Dispatch_Pending \<and> pd_LeaseToken d = token"

definition mark_dispatch_delivered :: "nat \<Rightarrow> string \<Rightarrow> time \<Rightarrow> mills_db \<Rightarrow> store_error + mills_db" where
  "mark_dispatch_delivered i raw now db =
     (let token = trim_space raw in
      if i = 0 \<or> token = '''' then Inl (Invalid ''id and claim token required'')
      else if list_ex (held_by i token) (db_dispatches db)
      then Inr (update_dispatches (held_by i token)
        (\<lambda>d. d\<lparr>pd_Status := Dispatch_Delivered, pd_LastError := '''', pd_LeaseToken := '''',
               pd_LeaseExpiresAt := None, pd_UpdatedAt := now, pd_DeliveredAt := Some now\<rparr>) db)
      else case get_dispatch i db of
        None \<Rightarrow> Inl Row_Not_Found
      | Some d \<Rightarrow> if pd_Status d = Dispatch_Delivered then Inr db else Inl Dispatch_Conflict)"

section \<open>Failure\<close>

record retry_policy =
  rt_BaseDelay :: duration
  rt_MaxDelay :: duration
  rt_MaxAttempts :: int

definition normalize_retry_policy :: "retry_policy \<Rightarrow> retry_policy" where
  "normalize_retry_policy p =
     (let base = (if rt_BaseDelay p \<le> 0 then second else rt_BaseDelay p);
          most = (if rt_MaxDelay p \<le> 0 then 5 * minute else rt_MaxDelay p)
      in \<lparr>rt_BaseDelay = base, rt_MaxDelay = (if most < base then base else most),
          rt_MaxAttempts = (if rt_MaxAttempts p \<le> 0 then 8 else rt_MaxAttempts p)\<rparr>)"

text \<open>The loop of \<open>dispatchRetryDelay\<close>; \<open>left\<close> is the number of turns its counter allows.\<close>

fun retry_loop :: "duration \<Rightarrow> nat \<Rightarrow> duration \<Rightarrow> duration" where
  "retry_loop most 0 delay = delay"
| "retry_loop most (Suc left) delay =
     (if \<not> delay < most then delay
      else if most div 2 < delay then most
      else retry_loop most left (wrap64 (delay * 2)))"

definition dispatch_retry_delay :: "retry_policy \<Rightarrow> int \<Rightarrow> duration" where
  "dispatch_retry_delay p attempts =
     (let delay = retry_loop (rt_MaxDelay p) (nat (attempts - 1)) (rt_BaseDelay p)
      in if rt_MaxDelay p < delay then rt_MaxDelay p else delay)"

definition dead_row :: "string \<Rightarrow> time \<Rightarrow> pending_dispatch \<Rightarrow> pending_dispatch" where
  "dead_row message now d =
     d\<lparr>pd_Status := Dispatch_Dead, pd_LastError := message, pd_LeaseToken := '''', pd_LeaseExpiresAt := None,
       pd_UpdatedAt := now, pd_DeadLetteredAt := Some now\<rparr>"

definition give_up_run :: "time \<Rightarrow> pipeline_run \<Rightarrow> pipeline_run" where
  "give_up_run now r =
     r\<lparr>pr_State := Run_Escalated, pr_CurrentStage := ''dispatch'', pr_EndedAt := Some now,
       pr_EscalationClass := ''config'', pr_FailureClass := ''configuration'',
       pr_EscalationRetryable := Some False, pr_Revision := pr_Revision r + 1\<rparr>"

text \<open>The backlog item goes with its run, and the ledger records it, unless a newer aggregate has it.\<close>

definition give_up_backlog :: "pending_dispatch \<Rightarrow> backlog_item \<Rightarrow> time \<Rightarrow> mills_db \<Rightarrow> store_error + mills_db" where
  "give_up_backlog d b now db =
     (if bi_State b = Backlog_Running \<and> bi_ClaimVersion b = pd_AggregateVersion d
      then insert_ledger
        \<lparr>lr_BacklogID = pd_BacklogID d, lr_AggregateVersion = bi_ClaimVersion b + 1, lr_RunID = pd_RunID d,
         lr_Kind = Dispatch_Dead_Letter, lr_From = Backlog_Running, lr_To = Backlog_Escalated, lr_OccurredAt = now\<rparr>
        (update_backlog (\<lambda>x. bi_ID x = pd_BacklogID d \<and> bi_State x = Backlog_Running \<and>
             bi_ClaimVersion x = pd_AggregateVersion d)
           (\<lambda>x. x\<lparr>bi_State := Backlog_Escalated, bi_ClaimVersion := bi_ClaimVersion x + 1,
                  bi_Revision := bi_Revision x + 1, bi_UpdatedAt := now\<rparr>) db)
      else Inr db)"

text \<open>\<open>None\<close>: the run has left the queue and the intent is not given up.\<close>

definition dead_letter_queued_dispatch ::
  "pending_dispatch \<Rightarrow> string \<Rightarrow> string \<Rightarrow> time \<Rightarrow> mills_db \<Rightarrow> store_error + mills_db option" where
  "dead_letter_queued_dispatch d token message now db =
     (case get_run (pd_RunID d) db of
        None \<Rightarrow> Inl Row_Not_Found
      | Some r \<Rightarrow>
          if pr_BacklogID r \<noteq> pd_BacklogID d then Inl Row_Not_Found
          else case backlog_get (pd_BacklogID d) db of
            None \<Rightarrow> Inl Row_Not_Found
          | Some b \<Rightarrow>
              if pr_State r \<noteq> Run_Queued then Inr None
              else if \<not> pr_Revision r < max_int64 then Inl Stale_Write
              else
                bind_db (give_up_backlog d b now
                  (update_runs (\<lambda>x. pr_ID x = pd_RunID d \<and> pr_State x = Run_Queued) (give_up_run now) db))
                (\<lambda>db1.
                  Inr (Some
                    (update_dispatches (held_by (pd_ID d) token) (dead_row message now)
                      (update_workflows (\<lambda>w. wr_ID w = pd_RunID d \<and> wr_Engine w = Engine_DAG)
                        (\<lambda>w. w\<lparr>wr_State := Flow_Escalated, wr_EndedAt := Some now\<rparr>)
                        (release_reservation (pd_RunID d) now db1))))))"

record failure_result =
  fl_Attempts :: int
  fl_DeadLettered :: bool
  fl_NextAttemptAt :: "time option"

definition reschedule ::
  "pending_dispatch \<Rightarrow> string \<Rightarrow> string \<Rightarrow> time \<Rightarrow> retry_policy \<Rightarrow> mills_db \<Rightarrow> failure_result tx" where
  "reschedule d token message now p db =
     (let next = now + dispatch_retry_delay p (pd_Attempts d)
      in Inr (\<lparr>fl_Attempts = pd_Attempts d, fl_DeadLettered = False, fl_NextAttemptAt = Some next\<rparr>,
           update_dispatches (held_by (pd_ID d) token)
             (\<lambda>d. d\<lparr>pd_LastError := message, pd_NextAttemptAt := next, pd_LeaseToken := '''',
                    pd_LeaseExpiresAt := None, pd_UpdatedAt := now\<rparr>) db))"

definition mark_dispatch_failed ::
  "nat \<Rightarrow> string \<Rightarrow> string \<Rightarrow> time \<Rightarrow> retry_policy \<Rightarrow> mills_db \<Rightarrow> failure_result tx" where
  "mark_dispatch_failed i raw raw_message now p0 db =
     (let token = trim_space raw; message = trim_space raw_message; p = normalize_retry_policy p0 in
      if i = 0 \<or> token = '''' then Inl (Invalid ''id and claim token required'')
      else case find (held_by i token) (db_dispatches db) of
        None \<Rightarrow> Inl Dispatch_Conflict
      | Some d \<Rightarrow>
          if rt_MaxAttempts p \<le> pd_Attempts d then
            (case dead_letter_queued_dispatch d token message now db of
               Inl e \<Rightarrow> Inl e
             | Inr (Some db1) \<Rightarrow>
                 Inr (\<lparr>fl_Attempts = pd_Attempts d, fl_DeadLettered = True, fl_NextAttemptAt = None\<rparr>, db1)
             | Inr None \<Rightarrow> reschedule d token message now p db)
          else reschedule d token message now p db)"

end
