(* ===== verification/Start_System.thy ===== *)
theory Start_System
  imports Start_Claim Start_Runs Start_Dispatch
begin

text \<open>
  The store as a system: every operation of the start path as one step, what each step may do
  to an item, a run, a reservation, the ledger and an intent, and the invariant they keep.
\<close>

section \<open>Operations\<close>

datatype start_op =
  Put_Item time backlog_item
| Claim start_request
| Transition string int backlog_state backlog_state time
| Defer string time int duration
| Reset_Fairness string
| Put_Run time pipeline_run
| Pause time pipeline_run backlog_state
| Resume time pipeline_run "backlog_state option"
| Subrun "recursion_policy option" time string subrun_request
| Lease_One string nat time duration
| Lease_Batch string int time duration
| Deliver nat string time
| Fail nat string string time retry_policy
| Release string time
| Stamp string escalation_metadata

definition after :: "mills_db \<Rightarrow> 'a tx \<Rightarrow> mills_db" where
  "after db r = (case r of Inl _ \<Rightarrow> db | Inr (_, db') \<Rightarrow> db')"

fun apply_op :: "start_op \<Rightarrow> mills_db \<Rightarrow> mills_db" where
  "apply_op (Put_Item now b) db = after db (put_backlog now b db)"
| "apply_op (Claim rq) db = after db (claim_pipeline_start rq db)"
| "apply_op (Transition i v a b now) db = after db (transition_state i v a b now db)"
| "apply_op (Defer i now n age) db = after db (record_scope_deferral i now n age db)"
| "apply_op (Reset_Fairness i) db = clear_fairness i db"
| "apply_op (Put_Run now r) db = after db (put_run now r db)"
| "apply_op (Pause now r s) db = after db (pause_run_with_backlog now r s db)"
| "apply_op (Resume now r s) db = after db (resume_paused_run_with_backlog now r s db)"
| "apply_op (Subrun p now i rq) db = fst (subrun_create p now i rq db)"
| "apply_op (Lease_One pre i now len) db = after db (claim_pending_dispatch pre i now len db)"
| "apply_op (Lease_Batch pre n now len) db = snd (claim_pending_dispatches pre n now len db)"
| "apply_op (Deliver i tok now) db = (case mark_dispatch_delivered i tok now db of Inl _ \<Rightarrow> db | Inr db' \<Rightarrow> db')"
| "apply_op (Fail i tok msg now p) db = after db (mark_dispatch_failed i tok msg now p db)"
| "apply_op (Release run now) db = release_reservation run now db"
| "apply_op (Stamp i md) db = after db (set_escalation_metadata i md db)"

fun apply_ops :: "start_op list \<Rightarrow> mills_db \<Rightarrow> mills_db" where
  "apply_ops [] db = db"
| "apply_ops (op # ops) db = apply_ops ops (apply_op op db)"

definition empty_db :: mills_db where
  "empty_db = \<lparr>db_backlog = [], db_runs = [], db_reservations = [], db_workflows = [], db_ledger = [],
               db_dispatches = [], db_fairness = []\<rparr>"

text \<open>A sequence each of whose operations satisfies a condition on the state it meets.\<close>

fun guarded :: "(mills_db \<Rightarrow> start_op \<Rightarrow> bool) \<Rightarrow> start_op list \<Rightarrow> mills_db \<Rightarrow> bool" where
  "guarded G [] db = True"
| "guarded G (op # ops) db = (G db op \<and> guarded G ops (apply_op op db))"

lemma guarded_invariant:
  assumes step: "\<And>db op. I db \<Longrightarrow> G db op \<Longrightarrow> I (apply_op op db)"
  shows "I db \<Longrightarrow> guarded G ops db \<Longrightarrow> I (apply_ops ops db)"
  by (induction ops arbitrary: db) (auto intro: step)

lemma apply_ops_invariant:
  assumes step: "\<And>db op. I db \<Longrightarrow> I (apply_op op db)"
  shows "I db \<Longrightarrow> I (apply_ops ops db)"
  by (induction ops arbitrary: db) (auto intro: step)

section \<open>Tables\<close>

lemma map_where_key:
  assumes "\<And>x. P x \<Longrightarrow> k (f x) = k x"
  shows "map k (map_where P f xs) = map k xs"
  using assms by (simp add: map_where_def)

lemma length_map_where [simp]: "length (map_where P f xs) = length xs"
  by (simp add: map_where_def)

lemma in_map_where: "y \<in> set (map_where P f xs) \<longleftrightarrow> (\<exists>x \<in> set xs. y = (if P x then f x else x))"
  by (auto simp: map_where_def)

lemma db_fields_update [simp]:
  "db_runs (update_backlog P f db) = db_runs db"
  "db_reservations (update_backlog P f db) = db_reservations db"
  "db_workflows (update_backlog P f db) = db_workflows db"
  "db_ledger (update_backlog P f db) = db_ledger db"
  "db_dispatches (update_backlog P f db) = db_dispatches db"
  "db_fairness (update_backlog P f db) = db_fairness db"
  "db_backlog (update_backlog P f db) = map_where P f (db_backlog db)"
  by (simp_all add: update_backlog_def)

lemma db_fields_update_runs [simp]:
  "db_backlog (update_runs P1 f1 db) = db_backlog db"
  "db_reservations (update_runs P1 f1 db) = db_reservations db"
  "db_workflows (update_runs P1 f1 db) = db_workflows db"
  "db_ledger (update_runs P1 f1 db) = db_ledger db"
  "db_dispatches (update_runs P1 f1 db) = db_dispatches db"
  "db_fairness (update_runs P1 f1 db) = db_fairness db"
  "db_runs (update_runs P1 f1 db) = map_where P1 f1 (db_runs db)"
  by (simp_all add: update_runs_def)

lemma db_fields_update_workflows [simp]:
  "db_backlog (update_workflows P2 f2 db) = db_backlog db"
  "db_runs (update_workflows P2 f2 db) = db_runs db"
  "db_reservations (update_workflows P2 f2 db) = db_reservations db"
  "db_ledger (update_workflows P2 f2 db) = db_ledger db"
  "db_dispatches (update_workflows P2 f2 db) = db_dispatches db"
  "db_fairness (update_workflows P2 f2 db) = db_fairness db"
  by (simp_all add: update_workflows_def)

lemma db_fields_update_dispatches [simp]:
  "db_backlog (update_dispatches P3 f3 db) = db_backlog db"
  "db_runs (update_dispatches P3 f3 db) = db_runs db"
  "db_reservations (update_dispatches P3 f3 db) = db_reservations db"
  "db_workflows (update_dispatches P3 f3 db) = db_workflows db"
  "db_ledger (update_dispatches P3 f3 db) = db_ledger db"
  "db_fairness (update_dispatches P3 f3 db) = db_fairness db"
  "db_dispatches (update_dispatches P3 f3 db) = map_where P3 f3 (db_dispatches db)"
  by (simp_all add: update_dispatches_def)

lemma db_fields_release [simp]:
  "db_backlog (release_reservation r t db) = db_backlog db"
  "db_runs (release_reservation r t db) = db_runs db"
  "db_workflows (release_reservation r t db) = db_workflows db"
  "db_ledger (release_reservation r t db) = db_ledger db"
  "db_dispatches (release_reservation r t db) = db_dispatches db"
  "db_fairness (release_reservation r t db) = db_fairness db"
  by (simp_all add: release_reservation_def)

lemma db_fields_fairness [simp]:
  "db_backlog (clear_fairness i db) = db_backlog db"
  "db_runs (clear_fairness i db) = db_runs db"
  "db_reservations (clear_fairness i db) = db_reservations db"
  "db_workflows (clear_fairness i db) = db_workflows db"
  "db_ledger (clear_fairness i db) = db_ledger db"
  "db_dispatches (clear_fairness i db) = db_dispatches db"
  by (simp_all add: clear_fairness_def)

lemma find_by_key_Some:
  "distinct (map k xs) \<Longrightarrow> x \<in> set xs \<Longrightarrow> find (\<lambda>y. k y = k x) xs = Some x"
  by (induction xs) (auto simp: image_iff)

lemma find_Some_in: "find P xs = Some x \<Longrightarrow> x \<in> set xs \<and> P x"
  by (auto simp: find_Some_iff)

lemma backlog_get_Some: "backlog_get i db = Some b \<Longrightarrow> b \<in> set (db_backlog db) \<and> bi_ID b = i"
  unfolding backlog_get_def by (rule find_Some_in)

lemma get_run_Some: "get_run i db = Some r \<Longrightarrow> r \<in> set (db_runs db) \<and> pr_ID r = i"
  unfolding get_run_def by (rule find_Some_in)

lemma get_dispatch_Some: "get_dispatch i db = Some d \<Longrightarrow> d \<in> set (db_dispatches db) \<and> pd_ID d = i"
  unfolding get_dispatch_def by (rule find_Some_in)

lemma insert_run_Inr:
  "insert_run r db = Inr db' \<Longrightarrow> db' = db\<lparr>db_runs := db_runs db @ [r]\<rparr> \<and> pr_ID r \<notin> pr_ID ` set (db_runs db)"
  by (auto simp: insert_run_def list_ex_iff split: if_splits)

lemma insert_reservation_Inr:
  "insert_reservation r db = Inr db' \<Longrightarrow>
     db' = db\<lparr>db_reservations := db_reservations db @ [r\<lparr>rv_ID := length (db_reservations db) + 1\<rparr>]\<rparr> \<and>
     rv_RunID r \<notin> rv_RunID ` set (db_reservations db)"
  by (auto simp: insert_reservation_def list_ex_iff split: if_splits)

lemma insert_workflow_Inr:
  "insert_workflow w db = Inr db' \<Longrightarrow>
     db' = db\<lparr>db_workflows := db_workflows db @ [w]\<rparr> \<and> wr_ID w \<notin> wr_ID ` set (db_workflows db)"
  by (auto simp: insert_workflow_def list_ex_iff split: if_splits)

definition ledger_key :: "ledger_row \<Rightarrow> string \<times> int" where
  "ledger_key l = (lr_BacklogID l, lr_AggregateVersion l)"

lemma insert_ledger_Inr:
  "insert_ledger l db = Inr db' \<Longrightarrow>
     db' = db\<lparr>db_ledger := db_ledger db @ [l]\<rparr> \<and> ledger_key l \<notin> ledger_key ` set (db_ledger db)"
  by (auto simp: insert_ledger_def ledger_key_def list_ex_iff split: if_splits)

lemma insert_dispatch_Inr:
  "insert_dispatch d db = Inr db' \<Longrightarrow>
     db' = db\<lparr>db_dispatches := db_dispatches db @ [d\<lparr>pd_ID := length (db_dispatches db) + 1\<rparr>]\<rparr> \<and>
     pd_RunID d \<notin> pd_RunID ` set (db_dispatches db)"
  by (auto simp: insert_dispatch_def list_ex_iff split: if_splits)

end
