(* ===== verification/Start_Steps.thy ===== *)
theory Start_Steps
  imports Start_System
begin

text \<open>
  What a step of the store may change: every table only grows, by rows with new keys, and its
  old rows change in the ways listed here.  Shown once for each statement and each operation,
  it gives the invariant of the store and the finality of terminal runs.
\<close>

section \<open>Growing tables\<close>

definition grows :: "('a \<Rightarrow> 'a \<Rightarrow> bool) \<Rightarrow> ('a \<Rightarrow> 'k) \<Rightarrow> 'a list \<Rightarrow> 'a list \<Rightarrow> bool" where
  "grows R k xs ys \<longleftrightarrow>
     (\<exists>zs new. ys = zs @ new \<and> list_all2 R xs zs \<and> distinct (map k new) \<and> k ` set new \<inter> k ` set xs = {})"

lemma grows_refl: "(\<And>x. R x x) \<Longrightarrow> grows R k xs xs"
  unfolding grows_def by (rule exI [of _ xs], rule exI [of _ "[]"]) (simp add: list.rel_refl)

lemma grows_map_where:
  assumes "\<And>x. R x x" and "\<And>x. x \<in> set xs \<Longrightarrow> P x \<Longrightarrow> R x (f x)"
  shows "grows R k xs (map_where P f xs)"
proof -
  have "list_all2 R xs (map_where P f xs)"
    using assms by (auto simp: map_where_def list_all2_conv_all_nth)
  then show ?thesis unfolding grows_def by (intro exI [of _ "map_where P f xs"] exI [of _ "[]"]) simp
qed

lemma grows_append: "(\<And>x. R x x) \<Longrightarrow> k x \<notin> k ` set xs \<Longrightarrow> grows R k xs (xs @ [x])"
  unfolding grows_def by (rule exI [of _ xs], rule exI [of _ "[x]"]) (auto simp: list.rel_refl)

lemma list_all2_keys:
  assumes "list_all2 R xs ys" and "\<And>x y. R x y \<Longrightarrow> k y = k x"
  shows "map k ys = map k xs"
  using assms by (induction rule: list_all2_induct) auto

lemma grows_trans:
  assumes xy: "grows R k xs ys" and yz: "grows R k ys zs"
    and trans: "\<And>x y z. R x y \<Longrightarrow> R y z \<Longrightarrow> R x z" and key: "\<And>x y. R x y \<Longrightarrow> k y = k x"
  shows "grows R k xs zs"
proof -
  from xy obtain xs' new where ys: "ys = xs' @ new" and r1: "list_all2 R xs xs'"
    and d1: "distinct (map k new)" "k ` set new \<inter> k ` set xs = {}"
    unfolding grows_def by blast
  from yz obtain ys' new' where zs: "zs = ys' @ new'" and r2: "list_all2 R ys ys'"
    and d2: "distinct (map k new')" "k ` set new' \<inter> k ` set ys = {}"
    unfolding grows_def by blast
  from r2 obtain as bs where ys': "ys' = as @ bs" and r3: "list_all2 R xs' as" and r4: "list_all2 R new bs"
    unfolding ys by (auto simp: list_all2_append1)
  have kb: "map k bs = map k new" by (rule list_all2_keys [OF r4 key])
  have kx: "map k xs' = map k xs" by (rule list_all2_keys [OF r1 key])
  have "list_all2 R xs as" using r1 r3 trans by (rule list_all2_trans [rotated 1])
  moreover have "distinct (map k (bs @ new'))"
    using d1 d2 kb unfolding ys map_append distinct_append set_map [symmetric] by (auto simp: image_Un)
  moreover have "k ` set (bs @ new') \<inter> k ` set xs = {}"
  proof -
    have "k ` set bs = k ` set new" "k ` set xs' = k ` set xs"
      using kb kx by (metis set_map)+
    then show ?thesis using d1(2) d2(2) unfolding ys by (auto simp: image_Un)
  qed
  ultimately show ?thesis unfolding grows_def zs ys' by (intro exI [of _ as] exI [of _ "bs @ new'"]) simp
qed

lemma grows_distinct:
  assumes "grows R k xs ys" and "\<And>x y. R x y \<Longrightarrow> k y = k x" and "distinct (map k xs)"
  shows "distinct (map k ys)"
proof -
  from assms(1) obtain zs new where ys: "ys = zs @ new" and r: "list_all2 R xs zs"
    and d: "distinct (map k new)" "k ` set new \<inter> k ` set xs = {}"
    unfolding grows_def by blast
  have "map k zs = map k xs" by (rule list_all2_keys [OF r assms(2)])
  then show ?thesis using d assms(3) unfolding ys map_append distinct_append by (simp add: Int_commute)
qed

text \<open>An old row is still there, changed as allowed; a row is an old one or has a new key.\<close>

lemma grows_old:
  assumes "grows R k xs ys" and "x \<in> set xs"
  obtains y where "y \<in> set ys" "R x y"
proof -
  from assms(1) obtain zs new where ys: "ys = zs @ new" and r: "list_all2 R xs zs" unfolding grows_def by blast
  from assms(2) obtain n where "n < length xs" "x = xs ! n" by (auto simp: in_set_conv_nth)
  with r have "zs ! n \<in> set zs" "R x (zs ! n)" by (auto simp: list_all2_conv_all_nth)
  then show thesis using that ys by auto
qed

lemma grows_new:
  assumes "grows R k xs ys" and "y \<in> set ys"
  shows "(\<exists>x \<in> set xs. R x y) \<or> k y \<notin> k ` set xs"
proof -
  from assms(1) obtain zs new where ys: "ys = zs @ new" and r: "list_all2 R xs zs"
    and d: "k ` set new \<inter> k ` set xs = {}" unfolding grows_def by blast
  show ?thesis
  proof (cases "y \<in> set new")
    case True
    with d show ?thesis by blast
  next
    case False
    with assms(2) ys obtain n where "n < length zs" "y = zs ! n" by (auto simp: in_set_conv_nth)
    with r have "xs ! n \<in> set xs" "R (xs ! n) y" by (auto simp: list_all2_conv_all_nth)
    then show ?thesis by blast
  qed
qed

section \<open>What a row may become\<close>

definition item_step :: "backlog_item \<Rightarrow> backlog_item \<Rightarrow> bool" where
  "item_step b b' \<longleftrightarrow> bi_ID b' = bi_ID b \<and> bi_ClaimVersion b \<le> bi_ClaimVersion b'"

definition state_step :: "bool \<Rightarrow> pipeline_state \<Rightarrow> pipeline_state \<Rightarrow> bool" where
  "state_step resumed s s' \<longleftrightarrow>
     (is_pipeline_terminal_state s \<longrightarrow>
        s' = s \<or> s = Run_Escalated \<and> s' = Run_PreflightFailed \<or> resumed \<and> s = Run_Paused)"

definition run_step :: "bool \<Rightarrow> pipeline_run \<Rightarrow> pipeline_run \<Rightarrow> bool" where
  "run_step resumed r r' \<longleftrightarrow> pr_ID r' = pr_ID r \<and> state_step resumed (pr_State r) (pr_State r')"

definition reservation_step :: "reservation \<Rightarrow> reservation \<Rightarrow> bool" where
  "reservation_step v v' \<longleftrightarrow> rv_RunID v' = rv_RunID v \<and> (rv_Active v' \<longrightarrow> rv_Active v)"

definition ledger_ok :: "mills_db \<Rightarrow> bool" where
  "ledger_ok db \<longleftrightarrow>
     (\<forall>l \<in> set (db_ledger db). \<exists>b \<in> set (db_backlog db).
        bi_ID b = lr_BacklogID l \<and> lr_AggregateVersion l \<le> bi_ClaimVersion b)"

text \<open>No terminal run holds an active reservation.\<close>

definition settled :: "mills_db \<Rightarrow> bool" where
  "settled db \<longleftrightarrow>
     (\<forall>r \<in> set (db_runs db). is_pipeline_terminal_state (pr_State r) \<longrightarrow>
        (\<forall>v \<in> set (db_reservations db). rv_RunID v = pr_ID r \<longrightarrow> \<not> rv_Active v))"

definition db_step :: "bool \<Rightarrow> mills_db \<Rightarrow> mills_db \<Rightarrow> bool" where
  "db_step resumed db db' \<longleftrightarrow>
     grows item_step bi_ID (db_backlog db) (db_backlog db') \<and>
     grows (run_step resumed) pr_ID (db_runs db) (db_runs db') \<and>
     grows reservation_step rv_RunID (db_reservations db) (db_reservations db') \<and>
     grows (=) ledger_key (db_ledger db) (db_ledger db') \<and>
     (ledger_ok db \<longrightarrow> ledger_ok db') \<and> (settled db \<longrightarrow> settled db')"

lemma state_step_refl [simp]: "state_step res s s"
  by (simp add: state_step_def)

lemma row_steps_refl [simp]: "item_step b b" "run_step res r r" "reservation_step v v"
  by (simp_all add: item_step_def run_step_def reservation_step_def)

lemma state_step_trans: "state_step res s t \<Longrightarrow> state_step res t u \<Longrightarrow> state_step res s u"
  by (auto simp: state_step_def is_pipeline_terminal_state_def)

lemma db_step_refl: "db_step res db db"
  by (simp add: db_step_def grows_refl)

lemma db_step_trans:
  assumes "db_step res db db1" and "db_step res db1 db2"
  shows "db_step res db db2"
proof -
  have items: "grows item_step bi_ID (db_backlog db) (db_backlog db2)"
    by (rule grows_trans [of _ _ _ "db_backlog db1"]) (use assms in \<open>auto simp: db_step_def item_step_def\<close>)
  have runs: "grows (run_step res) pr_ID (db_runs db) (db_runs db2)"
    by (rule grows_trans [of _ _ _ "db_runs db1"])
      (use assms in \<open>auto simp: db_step_def run_step_def intro: state_step_trans\<close>)
  have res: "grows reservation_step rv_RunID (db_reservations db) (db_reservations db2)"
    by (rule grows_trans [of _ _ _ "db_reservations db1"])
      (use assms in \<open>auto simp: db_step_def reservation_step_def\<close>)
  have led: "grows (=) ledger_key (db_ledger db) (db_ledger db2)"
    by (rule grows_trans [of _ _ _ "db_ledger db1"]) (use assms in \<open>auto simp: db_step_def\<close>)
  show ?thesis using assms items runs res led by (simp add: db_step_def)
qed

text \<open>A step that leaves these tables alone.\<close>

lemma db_step_other:
  assumes "db_backlog db' = db_backlog db" "db_runs db' = db_runs db"
    "db_reservations db' = db_reservations db" "db_ledger db' = db_ledger db"
  shows "db_step res db db'"
  using assms by (simp add: db_step_def grows_refl ledger_ok_def settled_def)

section \<open>Statements\<close>

lemma step_update_backlog:
  assumes "\<And>b. b \<in> set (db_backlog db) \<Longrightarrow> P b \<Longrightarrow> item_step b (f b)"
  shows "db_step res db (update_backlog P f db)"
proof -
  have g: "grows item_step bi_ID (db_backlog db) (map_where P f (db_backlog db))"
    by (rule grows_map_where) (use assms in simp_all)
  have "ledger_ok (update_backlog P f db)" if ok: "ledger_ok db"
    unfolding ledger_ok_def
  proof
    fix l assume "l \<in> set (db_ledger (update_backlog P f db))"
    with ok obtain b where b: "b \<in> set (db_backlog db)" "bi_ID b = lr_BacklogID l"
      "lr_AggregateVersion l \<le> bi_ClaimVersion b" by (auto simp: ledger_ok_def)
    from grows_old [OF g b(1)] obtain b' where "b' \<in> set (map_where P f (db_backlog db))" "item_step b b'" .
    with b show "\<exists>b \<in> set (db_backlog (update_backlog P f db)).
        bi_ID b = lr_BacklogID l \<and> lr_AggregateVersion l \<le> bi_ClaimVersion b"
      by (auto simp: item_step_def intro!: bexI [of _ b'])
  qed
  with g show ?thesis by (simp add: db_step_def grows_refl settled_def)
qed

text \<open>An update of runs that ends none of them.\<close>

lemma step_update_runs:
  assumes "\<And>r. r \<in> set (db_runs db) \<Longrightarrow> P r \<Longrightarrow> run_step res r (f r) \<and>
      (is_pipeline_terminal_state (pr_State (f r)) \<longrightarrow> is_pipeline_terminal_state (pr_State r))"
  shows "db_step res db (update_runs P f db)"
proof -
  have "grows (run_step res) pr_ID (db_runs db) (map_where P f (db_runs db))"
    by (rule grows_map_where) (use assms in simp_all)
  moreover have "settled (update_runs P f db)" if ok: "settled db"
  proof -
    have "\<exists>r0 \<in> set (db_runs db). pr_ID r0 = pr_ID r \<and>
        (is_pipeline_terminal_state (pr_State r) \<longrightarrow> is_pipeline_terminal_state (pr_State r0))"
      if "r \<in> set (map_where P f (db_runs db))" for r
      using that assms by (force simp: in_map_where run_step_def split: if_splits)
    with ok show ?thesis unfolding settled_def by simp metis
  qed
  ultimately show ?thesis by (simp add: db_step_def grows_refl ledger_ok_def)
qed

lemma in_release:
  assumes "v \<in> set (db_reservations (release_reservation run t db))"
  shows "(\<exists>v0 \<in> set (db_reservations db). rv_RunID v0 = rv_RunID v \<and> (rv_Active v \<longrightarrow> rv_Active v0)) \<and>
     (rv_RunID v = run \<longrightarrow> \<not> rv_Active v)"
proof -
  define P :: "reservation \<Rightarrow> bool" where "P = (\<lambda>r. rv_RunID r = run \<and> rv_Active r)"
  from assms obtain v0 where v0: "v0 \<in> set (db_reservations db)"
    and v: "v = (if P v0 then v0\<lparr>rv_Active := False, rv_ReleasedAt := Some t\<rparr> else v0)"
    by (auto simp: release_reservation_def in_map_where P_def)
  have "rv_RunID v = rv_RunID v0" "rv_Active v \<longleftrightarrow> \<not> P v0 \<and> rv_Active v0" by (simp_all add: v)
  with v0 show ?thesis unfolding P_def by (intro conjI bexI [of _ v0]) auto
qed

lemma grows_release:
  "grows reservation_step rv_RunID (db_reservations db) (db_reservations (release_reservation run t db))"
  unfolding release_reservation_def by (simp add: grows_map_where reservation_step_def)

text \<open>A run written together with the release of its reservation.\<close>

lemma step_finish:
  assumes runs: "grows (run_step res) pr_ID (db_runs db) (db_runs db1)"
    and same: "db_backlog db1 = db_backlog db" "db_reservations db1 = db_reservations db" "db_ledger db1 = db_ledger db"
    and others: "\<And>r. r \<in> set (db_runs db1) \<Longrightarrow> pr_ID r \<noteq> run \<Longrightarrow> r \<in> set (db_runs db)"
  shows "db_step res db (release_reservation run t db1)"
proof -
  have "settled (release_reservation run t db1)" if ok: "settled db"
    unfolding settled_def
  proof (intro ballI impI)
    fix r v assume r: "r \<in> set (db_runs (release_reservation run t db1))" "is_pipeline_terminal_state (pr_State r)"
      and v: "v \<in> set (db_reservations (release_reservation run t db1))" "rv_RunID v = pr_ID r"
    from in_release [OF v(1)] same(2) obtain v0 where v0: "v0 \<in> set (db_reservations db)" "rv_RunID v0 = rv_RunID v"
      "rv_Active v \<longrightarrow> rv_Active v0" "rv_RunID v = run \<longrightarrow> \<not> rv_Active v" by auto
    show "\<not> rv_Active v"
    proof (cases "pr_ID r = run")
      case True
      with v0 v show ?thesis by simp
    next
      case False
      with others r have "r \<in> set (db_runs db)" by simp
      with ok r(2) v0 v(2) show ?thesis unfolding settled_def by metis
    qed
  qed
  moreover have "grows reservation_step rv_RunID (db_reservations db) (db_reservations (release_reservation run t db1))"
    using grows_release [of db1 run t] same(2) by simp
  ultimately show ?thesis using runs same by (simp add: db_step_def grows_refl ledger_ok_def)
qed

lemma step_release: "db_step res db (release_reservation run t db)"
  by (rule step_finish) (simp_all add: grows_refl)

lemma step_insert_run:
  assumes ins: "insert_run r db = Inr db'" and "\<not> is_pipeline_terminal_state (pr_State r)"
  shows "db_step res db db'"
  using insert_run_Inr [OF ins] assms(2)
  by (auto simp: db_step_def grows_refl ledger_ok_def settled_def intro!: grows_append)

lemma step_insert_ledger:
  assumes ins: "insert_ledger l db = Inr db'"
    and b: "b \<in> set (db_backlog db)" "bi_ID b = lr_BacklogID l" "lr_AggregateVersion l \<le> bi_ClaimVersion b"
  shows "db_step res db db'"
  using insert_ledger_Inr [OF ins] b
  by (auto simp: db_step_def grows_refl ledger_ok_def settled_def intro!: grows_append)

lemma step_insert_workflow: "insert_workflow w db = Inr db' \<Longrightarrow> db_step res db db'"
  by (drule insert_workflow_Inr) (auto intro!: db_step_other)

lemma step_insert_dispatch: "insert_dispatch d db = Inr db' \<Longrightarrow> db_step res db db'"
  by (drule insert_dispatch_Inr) (auto intro!: db_step_other)

text \<open>A new run with its reservation.\<close>

lemma step_insert_reserved:
  assumes r: "insert_run r db = Inr db1" and v: "insert_reservation v db1 = Inr db2"
    and run: "rv_RunID v = pr_ID r" and "\<not> is_pipeline_terminal_state (pr_State r)"
  shows "db_step res db db2"
proof -
  note ir = insert_run_Inr [OF r] and iv = insert_reservation_Inr [OF v]
  have "settled db2" if ok: "settled db"
    using ok ir iv run assms(4) unfolding settled_def by auto
  with ir iv show ?thesis
    by (auto simp: db_step_def grows_refl ledger_ok_def intro!: grows_append)
qed

section \<open>Operations\<close>

definition db_ok :: "mills_db \<Rightarrow> bool" where
  "db_ok db \<longleftrightarrow>
     distinct (map bi_ID (db_backlog db)) \<and> distinct (map pr_ID (db_runs db)) \<and>
     distinct (map rv_RunID (db_reservations db)) \<and> distinct (map ledger_key (db_ledger db)) \<and>
     ledger_ok db \<and> settled db"

lemma db_ok_step:
  assumes ok: "db_ok db" and st: "db_step res db db'"
  shows "db_ok db'"
proof -
  have "distinct (map bi_ID (db_backlog db'))"
    by (rule grows_distinct [of item_step _ "db_backlog db"]) (use ok st in \<open>auto simp: db_ok_def db_step_def item_step_def\<close>)
  moreover have "distinct (map pr_ID (db_runs db'))"
    by (rule grows_distinct [of "run_step res" _ "db_runs db"]) (use ok st in \<open>auto simp: db_ok_def db_step_def run_step_def\<close>)
  moreover have "distinct (map rv_RunID (db_reservations db'))"
    by (rule grows_distinct [of reservation_step _ "db_reservations db"])
      (use ok st in \<open>auto simp: db_ok_def db_step_def reservation_step_def\<close>)
  moreover have "distinct (map ledger_key (db_ledger db'))"
    by (rule grows_distinct [of "(=)" _ "db_ledger db"]) (use ok st in \<open>auto simp: db_ok_def db_step_def\<close>)
  ultimately show ?thesis using ok st by (simp add: db_ok_def db_step_def)
qed

lemma db_step_fairness: "db_step res db (clear_fairness i db)"
  by (rule db_step_other) simp_all

lemma unique_run: "db_ok db \<Longrightarrow> get_run i db = Some old \<Longrightarrow> r \<in> set (db_runs db) \<Longrightarrow> pr_ID r = i \<Longrightarrow> r = old"
  using find_by_key_Some [of pr_ID "db_runs db" r] by (simp add: db_ok_def get_run_def)

lemma unique_item:
  "db_ok db \<Longrightarrow> backlog_get i db = Some old \<Longrightarrow> b \<in> set (db_backlog db) \<Longrightarrow> bi_ID b = i \<Longrightarrow> b = old"
  using find_by_key_Some [of bi_ID "db_backlog db" b] by (simp add: db_ok_def backlog_get_def)

lemma step_put_backlog:
  assumes ok: "db_ok db"
  shows "db_step res db (after db (put_backlog now b db))"
proof (cases "put_backlog now b db")
  case (Inr p)
  obtain new db1 where p: "p = (new, db1)" by (cases p)
  show ?thesis
  proof (cases "backlog_get (bi_ID b) db")
    case None
    then have fresh: "bi_ID b \<notin> bi_ID ` set (db_backlog db)"
      by (auto simp: backlog_get_def find_None_iff)
    from Inr None p have "db1 = db\<lparr>db_backlog := db_backlog db @ [new]\<rparr>" "bi_ID new = bi_ID b"
      by (auto simp: put_backlog_def Let_def split: if_splits)
    then have db1: "db1 = db\<lparr>db_backlog := db_backlog db @ [new]\<rparr>" and id: "bi_ID new = bi_ID b" by simp_all
    have "grows item_step bi_ID (db_backlog db) (db_backlog db @ [new])"
      by (rule grows_append) (use fresh id in simp_all)
    then have "db_step res db db1"
      by (auto simp: db1 db_step_def grows_refl ledger_ok_def settled_def)
    then show ?thesis by (simp add: after_def Inr p)
  next
    case (Some old)
    from Inr Some p have db1: "db1 = update_backlog (\<lambda>x. bi_ID x = bi_ID b) (\<lambda>_. new) db"
      and new: "bi_ID new = bi_ID b" "bi_ClaimVersion new = bi_ClaimVersion old"
      by (auto simp: put_backlog_def Let_def split: if_splits)
    have "db_step res db db1"
      unfolding db1 by (rule step_update_backlog) (use unique_item [OF ok Some] new in \<open>auto simp: item_step_def\<close>)
    then show ?thesis by (simp add: after_def Inr p)
  qed
qed (simp add: after_def db_step_refl)

lemma step_transition_backlog:
  assumes "transition_backlog i v s t now db = Inr (b, db')"
  shows "db_step res db db'"
proof -
  have "db_step res db (update_backlog
      (\<lambda>b. bi_ID b = i \<and> bi_ClaimVersion b = v \<and> bi_State b = s \<and> bi_State b \<noteq> t \<and> bi_Revision b < max_int64)
      (\<lambda>b. b\<lparr>bi_State := t, bi_Revision := bi_Revision b + 1, bi_UpdatedAt := now\<rparr>) db)"
    by (rule step_update_backlog) (simp add: item_step_def)
  with assms show ?thesis
    by (auto simp: transition_backlog_def Let_def db_step_refl split: if_splits option.splits)
qed

lemma transition_backlog_runs: "transition_backlog i v s t now db = Inr (b, db') \<Longrightarrow> db_runs db' = db_runs db"
  by (auto simp: transition_backlog_def Let_def split: if_splits option.splits)

lemma step_transition_state: "db_step res db (after db (transition_state i v s t now db))"
proof (cases "transition_backlog i v s t now db")
  case (Inr p)
  obtain b db1 where p: "p = (b, db1)" by (cases p)
  have "db_step res db db1" by (rule step_transition_backlog) (use Inr p in simp)
  moreover have "db_step res db1 (clear_fairness i db1)" by (rule db_step_fairness)
  ultimately have "db_step res db db1" "db_step res db (clear_fairness i db1)"
    by (auto intro: db_step_trans)
  then show ?thesis by (simp add: transition_state_def Inr p after_def Let_def)
qed (simp add: transition_state_def after_def db_step_refl)

lemma claim_cas_Inr:
  assumes "claim_cas rq db = Inr (item, db1)"
  shows "db_step res db db1" and "item \<in> set (db_backlog db1)" and "bi_ID item = rq_BacklogID rq"
proof -
  define P :: "backlog_item \<Rightarrow> bool" where "P = (\<lambda>b. bi_ID b = rq_BacklogID rq \<and> bi_State b = Backlog_Queued \<and>
      bi_ClaimVersion b = rq_ExpectedClaimVersion rq \<and> bi_Revision b = rq_ExpectedRevision rq)"
  from assms have db1: "db1 = update_backlog P (\<lambda>b. b\<lparr>bi_State := Backlog_Running, bi_ClaimVersion := bi_ClaimVersion b + 1,
      bi_Revision := bi_Revision b + 1, bi_UpdatedAt := rq_Now rq\<rparr>) db"
    and get: "backlog_get (rq_BacklogID rq) db1 = Some item"
    by (auto simp: claim_cas_def Let_def P_def split: if_splits option.splits)
  show "db_step res db db1" unfolding db1 by (rule step_update_backlog) (simp add: item_step_def)
  show "item \<in> set (db_backlog db1)" "bi_ID item = rq_BacklogID rq" using backlog_get_Some [OF get] by simp_all
qed

lemma start_run_fields [simp]:
  "pr_ID (start_run rq run v n) = run" "pr_State (start_run rq run v n) = Run_Queued"
  "rv_RunID (start_reservation rq run) = run" "lr_BacklogID (start_ledger_row rq run v) = rq_BacklogID rq"
  "lr_AggregateVersion (start_ledger_row rq run v) = v" "rv_Active (start_reservation rq run)"
  by (simp_all add: start_run_def start_reservation_def start_ledger_row_def)

lemma not_terminal_queued [simp]: "\<not> is_pipeline_terminal_state Run_Queued"
  by (simp add: is_pipeline_terminal_state_def)

lemma step_materialize:
  assumes m: "materialize rq item db = Inr (out, db')"
    and item: "item \<in> set (db_backlog db)" "bi_ID item = rq_BacklogID rq"
  shows "db_step res db db'"
proof -
  define run where "run = run_id_of rq"
  define v where "v = bi_ClaimVersion item"
  from m obtain db1 db2 db3 db4 db5 where
    i: "insert_run (start_run rq run v (next_attempt (rq_BacklogID rq) db)) db = Inr db1"
      "insert_reservation ((start_reservation rq run)\<lparr>rv_ID := length (db_reservations db) + 1\<rparr>) db1 = Inr db2"
      "insert_workflow (start_workflow_row rq run v) db2 = Inr db3"
      "insert_ledger (start_ledger_row rq run v) db3 = Inr db4"
      "insert_dispatch ((start_dispatch rq run v)\<lparr>pd_ID := length (db_dispatches db) + 1\<rparr>) db4 = Inr db5"
    and db': "db' = clear_fairness (rq_BacklogID rq) db5"
    by (auto simp: materialize_def Let_def bind_db_Inr run_def v_def)
  have "db_backlog db3 = db_backlog db"
    using insert_run_Inr [OF i(1)] insert_reservation_Inr [OF i(2)] insert_workflow_Inr [OF i(3)] by auto
  then have "db_step res db3 db4"
    by (intro step_insert_ledger [OF i(4), of item]) (use item in \<open>simp_all add: v_def\<close>)
  moreover have "db_step res db db2" by (rule step_insert_reserved [OF i(1,2)]) simp_all
  moreover note step_insert_workflow [OF i(3), of res] step_insert_dispatch [OF i(5), of res]
    db_step_fairness [of res db5 "rq_BacklogID rq"]
  ultimately show ?thesis unfolding db' by (blast intro: db_step_trans)
qed

lemma step_claim: "db_step res db (after db (claim_pipeline_start rq0 db))"
proof (cases "claim_pipeline_start rq0 db")
  case (Inr p)
  obtain out db' where p: "p = (out, db')" by (cases p)
  define rq where "rq = trim_request rq0"
  from Inr p have "claim_tx rq db = Inr (out, db')"
    by (auto simp: claim_pipeline_start_def Let_def rq_def split: option.splits)
  then obtain item db1 where c: "claim_cas rq db = Inr (item, db1)" and m: "materialize rq item db1 = Inr (out, db')"
    by (auto simp: claim_tx_def bind_db_Inr split: option.splits)
  from db_step_trans [OF claim_cas_Inr(1) [OF c] step_materialize [OF m claim_cas_Inr(2,3) [OF c]]]
  show ?thesis by (simp add: after_def Inr p)
qed (simp add: after_def db_step_refl)

lemma step_defer: "db_step res db (after db (record_scope_deferral i now n age db))"
proof (cases "record_scope_deferral i now n age db")
  case (Inr p)
  obtain out db' where p: "p = (out, db')" by (cases p)
  with Inr obtain fs where "db' = db\<lparr>db_fairness := fs\<rparr>"
    by (auto simp: record_scope_deferral_def Let_def split: if_splits option.splits)
  then show ?thesis by (auto simp: after_def Inr p intro!: db_step_other)
qed (simp add: after_def db_step_refl)

text \<open>What writing a run does to the table of runs.\<close>

lemma put_pipeline_run_Inr:
  assumes ok: "db_ok db" and put: "put_pipeline_run now r db = Inr (new, db1)"
  shows "grows (run_step res) pr_ID (db_runs db) (db_runs db1)" and "pr_ID new = pr_ID r"
    and "pr_State new = pr_State r"
    and "db_backlog db1 = db_backlog db" "db_reservations db1 = db_reservations db" "db_ledger db1 = db_ledger db"
    and "\<And>x. x \<in> set (db_runs db1) \<Longrightarrow> pr_ID x \<noteq> pr_ID r \<Longrightarrow> x \<in> set (db_runs db)"
    and "\<not> is_pipeline_terminal_state (pr_State r) \<Longrightarrow> db_step res db db1"
proof -
  define r1 where "r1 = (if pr_StartedAt r = zero_time then r\<lparr>pr_StartedAt := now\<rparr> else r)"
  have r1: "pr_ID r1 = pr_ID r" "pr_State r1 = pr_State r" by (simp_all add: r1_def)
  have all: "grows (run_step res) pr_ID (db_runs db) (db_runs db1) \<and> pr_ID new = pr_ID r \<and>
    pr_State new = pr_State r \<and> db_backlog db1 = db_backlog db \<and> db_reservations db1 = db_reservations db \<and>
    db_ledger db1 = db_ledger db \<and> (\<forall>x \<in> set (db_runs db1). pr_ID x \<noteq> pr_ID r \<longrightarrow> x \<in> set (db_runs db)) \<and>
    (\<not> is_pipeline_terminal_state (pr_State r) \<longrightarrow> db_step res db db1)"
  proof (cases "get_run (pr_ID r) db")
    case None
    from put None have new: "new = r1\<lparr>pr_Revision := 1\<rparr>" and ins: "insert_run new db = Inr db1"
      by (auto simp: put_pipeline_run_def Let_def r1_def [symmetric] r1 bind_db_Inr split: option.splits)
    show ?thesis
      using insert_run_Inr [OF ins] step_insert_run [OF ins] new r1
      by (auto intro!: grows_append)
  next
    case (Some old)
    from put Some have may: "may_overwrite old r1" and new: "new = merged_row old r1"
      and db1: "db1 = update_runs (\<lambda>x. pr_ID x = pr_ID r) (\<lambda>_. new) db"
      by (auto simp: put_pipeline_run_def Let_def r1_def [symmetric] r1 split: option.splits if_splits)
    have fields: "pr_ID new = pr_ID r" "pr_State new = pr_State r" by (simp_all add: new merged_row_def r1)
    have st: "run_step res old new"
      using may get_run_Some [OF Some] fields
      by (auto simp: may_overwrite_def run_step_def state_step_def r1)
    have each: "run_step res x new" if "x \<in> set (db_runs db)" "pr_ID x = pr_ID r" for x
      using unique_run [OF ok Some that] st by simp
    have "grows (run_step res) pr_ID (db_runs db) (db_runs db1)"
      unfolding db1 by (simp add: grows_map_where each)
    moreover have "db_step res db db1" if "\<not> is_pipeline_terminal_state (pr_State r)"
      unfolding db1 by (rule step_update_runs) (use each that fields in simp_all)
    ultimately show ?thesis using fields by (auto simp: db1 in_map_where)
  qed
  from all show "grows (run_step res) pr_ID (db_runs db) (db_runs db1)" "pr_ID new = pr_ID r"
    "pr_State new = pr_State r" "db_backlog db1 = db_backlog db" "db_reservations db1 = db_reservations db"
    "db_ledger db1 = db_ledger db" "\<And>x. x \<in> set (db_runs db1) \<Longrightarrow> pr_ID x \<noteq> pr_ID r \<Longrightarrow> x \<in> set (db_runs db)"
    "\<not> is_pipeline_terminal_state (pr_State r) \<Longrightarrow> db_step res db db1"
    by blast+
qed

lemma step_put_terminal:
  assumes ok: "db_ok db" and put: "put_terminal_run_tx now r db = Inr (new, db')"
  shows "db_step res db db'"
proof -
  define r1 where "r1 = (if pr_State r \<noteq> Run_Paused \<and> pr_EndedAt r = None then r\<lparr>pr_EndedAt := Some now\<rparr> else r)"
  from put obtain db1 at f P where p: "put_pipeline_run now r1 db = Inr (new, db1)"
    and db': "db' = update_workflows P f (release_reservation (pr_ID new) at db1)"
    by (auto simp: put_terminal_run_tx_def Let_def r1_def [symmetric] bind_db_Inr split: if_splits)
  note facts = put_pipeline_run_Inr [OF ok p]
  have "db_step res db (release_reservation (pr_ID new) at db1)"
    by (rule step_finish) (use facts in \<open>auto simp: facts(2)\<close>)
  moreover have "db_step res (release_reservation (pr_ID new) at db1) db'"
    unfolding db' by (rule db_step_other) simp_all
  ultimately show ?thesis by (rule db_step_trans)
qed

lemma step_put_run:
  assumes ok: "db_ok db"
  shows "db_step res db (after db (put_run now r db))"
proof (cases "put_run now r db")
  case (Inr p)
  obtain new db' where p: "p = (new, db')" by (cases p)
  have "db_step res db db'"
    using Inr p step_put_terminal [OF ok] put_pipeline_run_Inr(8) [OF ok]
    by (cases "is_pipeline_terminal_state (pr_State r)") (auto simp: put_run_def)
  then show ?thesis by (simp add: after_def Inr p)
qed (simp add: after_def db_step_refl)

lemma step_pause:
  assumes ok: "db_ok db"
  shows "db_step res db (after db (pause_run_with_backlog now r s db))"
proof (cases "pause_run_with_backlog now r s db")
  case (Inr p)
  obtain new db' where p: "p = (new, db')" by (cases p)
  from Inr p obtain db1 b where
    put: "put_terminal_run_tx now (r\<lparr>pr_State := Run_Paused, pr_EndedAt := Some now\<rparr>) db = Inr (new, db1)"
    and tr: "transition_backlog (pr_BacklogID r) (pr_AggregateVersion r) s Backlog_Paused now db1 = Inr (b, db')"
    by (auto simp: pause_run_with_backlog_def bind_db_Inr split: if_splits)
  from db_step_trans [OF step_put_terminal [OF ok put] step_transition_backlog [OF tr]]
  show ?thesis by (simp add: after_def Inr p)
qed (simp add: after_def db_step_refl)

text \<open>What a resume that succeeds has done.\<close>

lemma resume_Inr:
  assumes "resume_paused_run_with_backlog now r s db = Inr (new, db')"
  shows "\<exists>db2.
    list_ex (\<lambda>x. pr_ID x = pr_ID r \<and> pr_AggregateVersion x = pr_AggregateVersion r \<and>
      pr_Revision x = pr_Revision r \<and> pr_State x = Run_Paused) (db_runs db) \<and>
    (let db1 = update_runs (\<lambda>x. pr_ID x = pr_ID r \<and> pr_AggregateVersion x = pr_AggregateVersion r \<and>
        pr_Revision x = pr_Revision r \<and> pr_State x = Run_Paused)
        (\<lambda>x. x\<lparr>pr_State := Run_Queued, pr_EndedAt := None, pr_Revision := pr_Revision x + 1\<rparr>) db
     in (s = None \<and> db2 = db1) \<or> (\<exists>t b. s = Some t \<and>
          transition_backlog (pr_BacklogID r) (pr_AggregateVersion r) t Backlog_Queued now db1 = Inr (b, db2))) \<and>
    db' = update_workflows (\<lambda>w. wr_ID w = pr_ID r \<and> wr_Engine w = Engine_DAG)
      (\<lambda>w. w\<lparr>wr_State := Flow_Running, wr_PausedAt := None, wr_ResumedAt := Some now, wr_EndedAt := None\<rparr>) db2"
  using assms unfolding resume_paused_run_with_backlog_def Let_def
  by (cases s) (auto simp: bind_db_Inr split: if_splits)

lemma step_resume: "db_step True db (after db (resume_paused_run_with_backlog now r s db))"
proof (cases "resume_paused_run_with_backlog now r s db")
  case (Inr p)
  obtain new db' where p: "p = (new, db')" by (cases p)
  define P :: "pipeline_run \<Rightarrow> bool" where "P = (\<lambda>x. pr_ID x = pr_ID r \<and> pr_AggregateVersion x = pr_AggregateVersion r \<and>
      pr_Revision x = pr_Revision r \<and> pr_State x = Run_Paused)"
  define f :: "pipeline_run \<Rightarrow> pipeline_run" where
    "f = (\<lambda>x. x\<lparr>pr_State := Run_Queued, pr_EndedAt := None, pr_Revision := pr_Revision x + 1\<rparr>)"
  from resume_Inr [OF Inr [unfolded p], unfolded Let_def, folded P_def f_def] obtain db2 Q g where
    2: "(s = None \<and> db2 = update_runs P f db) \<or> (\<exists>t b. s = Some t \<and> transition_backlog (pr_BacklogID r)
      (pr_AggregateVersion r) t Backlog_Queued now (update_runs P f db) = Inr (b, db2))"
    and db': "db' = update_workflows Q g db2" by blast
  have "db_step True db (update_runs P f db)"
    by (rule step_update_runs) (simp add: run_step_def state_step_def P_def f_def)
  moreover have "db_step True (update_runs P f db) db2"
    using 2 step_transition_backlog by (auto simp: db_step_refl)
  moreover have "db_step True db2 db'" unfolding db' by (rule db_step_other) simp_all
  ultimately show ?thesis by (auto simp: after_def Inr p intro: db_step_trans)
qed (simp add: after_def db_step_refl)

lemma subrun_row_queued [simp]: "pr_State (subrun_row now i rq parent target) = Run_Queued"
  by (simp add: subrun_row_def)

lemma step_create_subrun:
  assumes "create_subrun now r db = Inr (new, db')" and "pr_State r = Run_Queued"
  shows "db_step res db db'"
proof -
  from assms(1) obtain r1 where "insert_run r1 db = Inr db'" "pr_State r1 = pr_State r"
    by (auto simp: create_subrun_def Let_def bind_db_Inr split: option.splits if_splits)
  then show ?thesis using assms(2) by (auto intro: step_insert_run)
qed

lemma step_subrun: "db_step res db (fst (subrun_create p now i rq db))"
proof (cases "guard_subrun p rq db")
  case (Inr q)
  obtain parent target where q: "q = (parent, target)" by (cases q)
  show ?thesis
  proof (cases "create_subrun now (subrun_row now i rq parent target) db")
    case (Inr x)
    obtain r db1 where x: "x = (r, db1)" by (cases x)
    have 1: "db_step res db db1"
      by (rule step_create_subrun [OF _ subrun_row_queued]) (use Inr x in simp)
    have 2: "db_step res db1 (after db1 (transition_state (bi_ID target) (bi_ClaimVersion target) (bi_State target)
        Backlog_Running now db1))" by (rule step_transition_state)
    from 1 db_step_trans [OF 1 2] show ?thesis
      by (auto simp: subrun_create_def \<open>guard_subrun p rq db = Inr q\<close> q Inr x after_def split: sum.splits)
  qed (simp add: subrun_create_def Inr q db_step_refl)
qed (simp add: subrun_create_def db_step_refl)

text \<open>Giving a start up.\<close>

lemma step_give_up_backlog:
  assumes g: "give_up_backlog d b now db = Inr db'" and b: "backlog_get (pd_BacklogID d) db = Some b"
  shows "db_step res db db'"
proof (cases "bi_State b = Backlog_Running \<and> bi_ClaimVersion b = pd_AggregateVersion d")
  case True
  define P :: "backlog_item \<Rightarrow> bool" where "P = (\<lambda>x. bi_ID x = pd_BacklogID d \<and> bi_State x = Backlog_Running \<and>
    bi_ClaimVersion x = pd_AggregateVersion d)"
  define f where "f = (\<lambda>x::backlog_item. x\<lparr>bi_State := Backlog_Escalated, bi_ClaimVersion := bi_ClaimVersion x + 1,
    bi_Revision := bi_Revision x + 1, bi_UpdatedAt := now\<rparr>)"
  define l where "l = \<lparr>lr_BacklogID = pd_BacklogID d, lr_AggregateVersion = bi_ClaimVersion b + 1, lr_RunID = pd_RunID d,
    lr_Kind = Dispatch_Dead_Letter, lr_From = Backlog_Running, lr_To = Backlog_Escalated, lr_OccurredAt = now\<rparr>"
  from g True have ins: "insert_ledger l (update_backlog P f db) = Inr db'"
    by (simp add: give_up_backlog_def l_def P_def f_def)
  have step: "db_step res db (update_backlog P f db)"
    by (rule step_update_backlog) (simp add: item_step_def f_def)
  have in_db: "b \<in> set (db_backlog db)" "bi_ID b = pd_BacklogID d" using backlog_get_Some [OF b] by simp_all
  then have "P b" using True by (simp add: P_def)
  have "db_step res (update_backlog P f db) db'"
  proof (rule step_insert_ledger [OF ins])
    show "f b \<in> set (db_backlog (update_backlog P f db))"
      using in_db \<open>P b\<close> by (auto simp: in_map_where intro!: bexI [of _ b])
    show "bi_ID (f b) = lr_BacklogID l" "lr_AggregateVersion l \<le> bi_ClaimVersion (f b)"
      using in_db by (simp_all add: f_def l_def)
  qed
  with step show ?thesis by (rule db_step_trans)
qed (use g in \<open>auto simp: give_up_backlog_def db_step_refl split: if_splits\<close>)

lemma give_up_backlog_release:
  "give_up_backlog d b now db = Inr db1 \<Longrightarrow>
   give_up_backlog d b now (release_reservation run t db) = Inr (release_reservation run t db1)"
  by (auto simp: give_up_backlog_def insert_ledger_def release_reservation_def update_backlog_def split: if_splits)

lemma dead_letter_Some:
  assumes "dead_letter_queued_dispatch d token message now db = Inr (Some db')"
  obtains r b db1 where "get_run (pd_RunID d) db = Some r" "pr_BacklogID r = pd_BacklogID d" "pr_State r = Run_Queued"
    "pr_Revision r < max_int64" "backlog_get (pd_BacklogID d) db = Some b"
    "give_up_backlog d b now
       (update_runs (\<lambda>x. pr_ID x = pd_RunID d \<and> pr_State x = Run_Queued) (give_up_run now) db) = Inr db1"
    "db' = update_dispatches (held_by (pd_ID d) token) (dead_row message now)
       (update_workflows (\<lambda>w. wr_ID w = pd_RunID d \<and> wr_Engine w = Engine_DAG)
         (\<lambda>w. w\<lparr>wr_State := Flow_Escalated, wr_EndedAt := Some now\<rparr>) (release_reservation (pd_RunID d) now db1))"
  using assms by (auto simp: dead_letter_queued_dispatch_def bind_db_Inr split: option.splits if_splits)

lemma step_dead_letter:
  assumes "dead_letter_queued_dispatch d token message now db = Inr (Some db')"
  shows "db_step res db db'"
  using assms
proof (rule dead_letter_Some)
  fix r b db1
  define db0 where "db0 = update_runs (\<lambda>x. pr_ID x = pd_RunID d \<and> pr_State x = Run_Queued) (give_up_run now) db"
  assume b: "backlog_get (pd_BacklogID d) db = Some b"
    and g: "give_up_backlog d b now
       (update_runs (\<lambda>x. pr_ID x = pd_RunID d \<and> pr_State x = Run_Queued) (give_up_run now) db) = Inr db1"
    and db': "db' = update_dispatches (held_by (pd_ID d) token) (dead_row message now)
       (update_workflows (\<lambda>w. wr_ID w = pd_RunID d \<and> wr_Engine w = Engine_DAG)
         (\<lambda>w. w\<lparr>wr_State := Flow_Escalated, wr_EndedAt := Some now\<rparr>) (release_reservation (pd_RunID d) now db1))"
  have 1: "db_step res db (release_reservation (pd_RunID d) now db0)"
  proof (rule step_finish)
    show "grows (run_step res) pr_ID (db_runs db) (db_runs db0)"
      unfolding db0_def db_fields_update_runs
      by (rule grows_map_where) (simp_all add: run_step_def state_step_def give_up_run_def)
  qed (auto simp: db0_def in_map_where give_up_run_def split: if_splits)
  have 2: "db_step res (release_reservation (pd_RunID d) now db0) (release_reservation (pd_RunID d) now db1)"
    by (rule step_give_up_backlog [OF give_up_backlog_release [OF g [folded db0_def]]])
      (use b in \<open>simp add: backlog_get_def db0_def\<close>)
  have 3: "db_step res (release_reservation (pd_RunID d) now db1) db'"
    unfolding db' by (rule db_step_other) simp_all
  show "db_step res db db'" by (rule db_step_trans [OF db_step_trans [OF 1 2] 3])
qed

text \<open>The outbox alone.\<close>

lemma step_update_dispatches: "db_step res db (update_dispatches P f db)"
  by (rule db_step_other) simp_all

lemma step_fail: "db_step res db (after db (mark_dispatch_failed i tok msg now p db))"
  by (auto simp: mark_dispatch_failed_def reschedule_def after_def Let_def db_step_refl step_update_dispatches
      step_dead_letter split: sum.splits option.splits if_splits)

lemma step_lease: "db_step res db (after db (claim_pending_dispatch pre i now len db))"
  by (auto simp: claim_pending_dispatch_def after_def Let_def db_step_refl step_update_dispatches
      split: option.splits if_splits)

section \<open>The invariant\<close>

lemma stamped_same [simp]:
  "pr_ID (stamped md r) = pr_ID r" "pr_State (stamped md r) = pr_State r"
  "pr_BacklogID (stamped md r) = pr_BacklogID r"
  by (simp_all add: stamped_def)

lemma step_stamp: "db_step res db (after db (set_escalation_metadata i md db))"
proof -
  have "db_step res db (update_runs (\<lambda>r. pr_ID r = i) (stamped md) db)"
    by (rule step_update_runs) (simp add: run_step_def)
  then show ?thesis by (simp add: set_escalation_metadata_def after_def db_step_refl)
qed

definition is_resume :: "start_op \<Rightarrow> bool" where
  "is_resume op = (case op of Resume _ _ _ \<Rightarrow> True | _ \<Rightarrow> False)"

lemma step_op:
  assumes ok: "db_ok db"
  shows "db_step (is_resume op) db (apply_op op db)"
proof (cases op)
  case (Deliver i tok now)
  then show ?thesis
    by (auto simp: mark_dispatch_delivered_def Let_def db_step_refl step_update_dispatches split: option.splits if_splits)
next
  case (Lease_Batch pre n now len)
  then show ?thesis by (simp add: claim_pending_dispatches_def Let_def step_update_dispatches)
qed (simp_all add: is_resume_def step_put_backlog [OF ok] step_claim step_transition_state step_defer
    db_step_fairness step_put_run [OF ok] step_pause [OF ok] step_resume step_subrun step_lease step_fail step_release step_stamp)

lemma empty_db_ok: "db_ok empty_db"
  by (simp add: db_ok_def empty_db_def ledger_ok_def settled_def)

lemma db_ok_ops: "db_ok db \<Longrightarrow> db_ok (apply_ops ops db)"
  by (rule apply_ops_invariant [where I = db_ok]) (auto intro: db_ok_step step_op)

lemma db_step_mono: "db_step False db db' \<Longrightarrow> db_step res db db'"
proof -
  have "grows (run_step res) pr_ID xs ys" if "grows (run_step False) pr_ID xs ys" for xs ys
  proof -
    have "list_all2 (run_step res) as bs" if "list_all2 (run_step False) as bs" for as bs
      using that by (rule list_all2_mono) (auto simp: run_step_def state_step_def)
    with that show ?thesis unfolding grows_def by blast
  qed
  then show "db_step False db db' \<Longrightarrow> db_step res db db'" by (simp add: db_step_def)
qed

lemma steps_any: "db_ok db \<Longrightarrow> db_step True db (apply_ops ops db)"
proof (induction ops arbitrary: db)
  case (Cons op ops)
  have "db_step True db (apply_op op db)"
    using step_op [OF Cons.prems, of op] db_step_mono by (cases "is_resume op") auto
  moreover have "db_step True (apply_op op db) (apply_ops ops (apply_op op db))"
    using Cons by (auto intro: db_ok_step [OF _ step_op])
  ultimately show ?case by (auto intro: db_step_trans)
qed (simp add: db_step_refl)

lemma steps_ops:
  "db_ok db \<Longrightarrow> list_all (\<lambda>op. \<not> is_resume op) ops \<Longrightarrow> db_step False db (apply_ops ops db)"
proof (induction ops arbitrary: db)
  case (Cons op ops)
  have "db_step False db (apply_op op db)" using step_op [OF Cons.prems(1), of op] Cons.prems(2) by simp
  moreover have "db_step False (apply_op op db) (apply_ops ops (apply_op op db))"
    using Cons by (auto intro: db_ok_step [OF _ step_op])
  ultimately show ?case by (auto intro: db_step_trans)
qed (simp add: db_step_refl)

end
