(* ===== verification/Start_Safety.thy ===== *)
theory Start_Safety
  imports Start_Steps
begin

text \<open>
  What holds of every history of the store: a start is claimed once, an ended run stays ended and
  holds no budget, the ledger has one row for each aggregate version, and what a claim that
  succeeds has checked and written.
\<close>

section \<open>Every history\<close>

definition reachable_db :: "start_op list \<Rightarrow> mills_db" where
  "reachable_db ops = apply_ops ops empty_db"

lemma reachable_ok: "db_ok (reachable_db ops)"
  unfolding reachable_db_def by (rule db_ok_ops [OF empty_db_ok])

lemma apply_ops_append: "apply_ops (xs @ ys) db = apply_ops ys (apply_ops xs db)"
  by (induction xs arbitrary: db) simp_all

text \<open>
  C15. After any sequence of store operations the rows of a table have distinct keys, the
  transition ledger holds at most one row for each aggregate version of an item and none for a
  version the item has not reached, and a run that is in a terminal state holds no active
  budget reservation.
\<close>

theorem start_store_invariant:
  "distinct (map bi_ID (db_backlog (reachable_db ops))) \<and>
   distinct (map pr_ID (db_runs (reachable_db ops))) \<and>
   distinct (map rv_RunID (db_reservations (reachable_db ops))) \<and>
   distinct (map ledger_key (db_ledger (reachable_db ops))) \<and>
   list_all (\<lambda>l. list_ex (\<lambda>b. bi_ID b = lr_BacklogID l \<and> lr_AggregateVersion l \<le> bi_ClaimVersion b)
       (db_backlog (reachable_db ops))) (db_ledger (reachable_db ops)) \<and>
   filter (\<lambda>v. rv_Active v \<and> list_ex (\<lambda>r. pr_ID r = rv_RunID v \<and> is_pipeline_terminal_state (pr_State r))
       (db_runs (reachable_db ops))) (db_reservations (reachable_db ops)) = []"
proof -
  have ok: "db_ok (reachable_db ops)" by (rule reachable_ok)
  have "\<not> (rv_Active v \<and> list_ex (\<lambda>r. pr_ID r = rv_RunID v \<and> is_pipeline_terminal_state (pr_State r))
      (db_runs (reachable_db ops)))" if "v \<in> set (db_reservations (reachable_db ops))" for v
    using ok that unfolding db_ok_def settled_def list_ex_iff by metis
  with ok show ?thesis
    unfolding db_ok_def ledger_ok_def by (simp add: list_all_iff list_ex_iff filter_empty_conv)
qed

section \<open>Claims\<close>

lemma claim_Inr:
  assumes "claim_pipeline_start rq0 db = Inr (out, db')"
  obtains db1 where "validate_request (trim_request rq0) = None"
    "early_conflict (trim_request rq0) db = None"
    "claim_cas (trim_request rq0) db = Inr (re_Backlog out, db1)"
    "admit (trim_request rq0) (re_Backlog out) db1 = None"
    "materialize (trim_request rq0) (re_Backlog out) db1 = Inr (out, db')"
proof -
  from assms obtain item db1 where 1: "validate_request (trim_request rq0) = None"
    "early_conflict (trim_request rq0) db = None" "claim_cas (trim_request rq0) db = Inr (item, db1)"
    "admit (trim_request rq0) item db1 = None" "materialize (trim_request rq0) item db1 = Inr (out, db')"
    by (auto simp: claim_pipeline_start_def claim_tx_def Let_def bind_db_Inr split: option.splits)
  from 1(5) have "re_Backlog out = item" by (auto simp: materialize_def Let_def bind_db_Inr)
  with 1 that show thesis by blast
qed

text \<open>The compare and swap has found the item queued at the expected versions.\<close>

lemma claim_cas_item:
  assumes "claim_cas rq db = Inr (item, db1)"
  obtains b where "b \<in> set (db_backlog db)" "bi_ID b = rq_BacklogID rq" "bi_State b = Backlog_Queued"
    "bi_ClaimVersion b = rq_ExpectedClaimVersion rq" "bi_Revision b = rq_ExpectedRevision rq"
  using assms by (auto simp: claim_cas_def Let_def list_ex_iff split: if_splits)

lemma claim_cas_unique:
  assumes ok: "db_ok db" and cas: "claim_cas rq db = Inr (item, db1)"
  obtains b where "backlog_get (rq_BacklogID rq) db = Some b" "bi_State b = Backlog_Queued"
    "bi_ClaimVersion b = rq_ExpectedClaimVersion rq" "bi_Revision b = rq_ExpectedRevision rq"
    "item = b\<lparr>bi_State := Backlog_Running, bi_ClaimVersion := bi_ClaimVersion b + 1,
       bi_Revision := bi_Revision b + 1, bi_UpdatedAt := rq_Now rq\<rparr>"
    "db1 = update_backlog (\<lambda>x. x = b) (\<lambda>_. item) db"
proof -
  define P :: "backlog_item \<Rightarrow> bool" where "P = (\<lambda>b. bi_ID b = rq_BacklogID rq \<and> bi_State b = Backlog_Queued \<and>
      bi_ClaimVersion b = rq_ExpectedClaimVersion rq \<and> bi_Revision b = rq_ExpectedRevision rq)"
  define f where "f = (\<lambda>b::backlog_item. b\<lparr>bi_State := Backlog_Running, bi_ClaimVersion := bi_ClaimVersion b + 1,
      bi_Revision := bi_Revision b + 1, bi_UpdatedAt := rq_Now rq\<rparr>)"
  from cas obtain b where b: "b \<in> set (db_backlog db)" "P b" and db1: "db1 = update_backlog P f db"
    and get: "backlog_get (rq_BacklogID rq) db1 = Some item"
    by (auto simp: claim_cas_def Let_def P_def f_def list_ex_iff split: if_splits option.splits)
  have dist: "distinct (map bi_ID (db_backlog db))" using ok by (simp add: db_ok_def)
  have find: "backlog_get (rq_BacklogID rq) db = Some b"
    using find_by_key_Some [OF dist b(1)] b(2) by (simp add: backlog_get_def P_def)
  have only: "P x \<longleftrightarrow> x = b" if "x \<in> set (db_backlog db)" for x
    using unique_item [OF ok find that] b(2) by (auto simp: P_def)
  have "f b \<in> set (db_backlog db1)" using b by (auto simp: db1 in_map_where intro!: bexI [of _ b])
  moreover have "distinct (map bi_ID (db_backlog db1))"
    unfolding db1 db_fields_update using dist by (subst map_where_key) (simp_all add: f_def)
  ultimately have "backlog_get (bi_ID (f b)) db1 = Some (f b)"
    unfolding backlog_get_def by (rule find_by_key_Some [rotated])
  with get b(2) have item: "item = f b" by (simp add: f_def P_def)
  have "map_where P f (db_backlog db) = map_where (\<lambda>x. x = b) (\<lambda>_. item) (db_backlog db)"
    unfolding map_where_def by (rule map_cong) (use only item in auto)
  with db1 have "db1 = update_backlog (\<lambda>x. x = b) (\<lambda>_. item) db" by (simp add: update_backlog_def)
  with find b(2) item that show thesis by (simp add: P_def f_def)
qed

lemma claim_refused:
  assumes "\<And>b. b \<in> set (db_backlog db) \<Longrightarrow> bi_ID b = trim_space (rq_BacklogID rq) \<Longrightarrow>
      rq_ExpectedClaimVersion rq < bi_ClaimVersion b"
  shows "\<exists>e. claim_pipeline_start rq db = Inl e"
proof (cases "claim_pipeline_start rq db")
  case (Inr p)
  obtain out db' where "p = (out, db')" by (cases p)
  with Inr obtain db1 where "claim_cas (trim_request rq) db = Inr (re_Backlog out, db1)"
    using claim_Inr by metis
  then obtain b where "b \<in> set (db_backlog db)" "bi_ID b = rq_BacklogID (trim_request rq)"
    "bi_ClaimVersion b = rq_ExpectedClaimVersion (trim_request rq)" by (rule claim_cas_item)
  with assms [of b] show ?thesis by (simp add: trim_request_def)
qed simp

text \<open>
  C7. A start is claimed at most once: when a claim succeeds on a store any history has reached,
  every later claim of the same item at the same (or an older) claim version is refused, whatever
  operations of other writers come in between, a resume included.
\<close>

theorem start_claimed_once:
  assumes won: "claim_pipeline_start rq (reachable_db before) = Inr (out, db)"
    and same: "trim_space (rq_BacklogID rq') = trim_space (rq_BacklogID rq)"
      "rq_ExpectedClaimVersion rq' \<le> rq_ExpectedClaimVersion rq"
  shows "\<exists>e. claim_pipeline_start rq' (apply_ops ops db) = Inl e"
proof (rule claim_refused)
  let ?rq = "trim_request rq"
  fix b assume b: "b \<in> set (db_backlog (apply_ops ops db))" "bi_ID b = trim_space (rq_BacklogID rq')"
  have id: "rq_BacklogID ?rq = trim_space (rq_BacklogID rq)" by (simp add: trim_request_def)
  have at: "db = apply_op (Claim rq) (reachable_db before)" using won by (simp add: after_def)
  have ok: "db_ok db" unfolding at by (rule db_ok_step [OF reachable_ok step_op [OF reachable_ok]])
  from won obtain db1 where cas: "claim_cas ?rq (reachable_db before) = Inr (re_Backlog out, db1)"
    and m: "materialize ?rq (re_Backlog out) db1 = Inr (out, db)" by (rule claim_Inr)
  from cas obtain old where item: "re_Backlog out = old\<lparr>bi_State := Backlog_Running,
      bi_ClaimVersion := bi_ClaimVersion old + 1, bi_Revision := bi_Revision old + 1, bi_UpdatedAt := rq_Now ?rq\<rparr>"
    and v: "bi_ClaimVersion old = rq_ExpectedClaimVersion ?rq"
    by (rule claim_cas_unique [OF reachable_ok])
  have version: "bi_ClaimVersion (re_Backlog out) = rq_ExpectedClaimVersion rq + 1"
    unfolding item using v by (simp add: trim_request_def)
  note cas' = claim_cas_Inr(2,3) [OF cas]
  have "db_step True db1 db" by (rule step_materialize [OF m cas'])
  from db_step_trans [OF this steps_any [OF ok]]
  have g: "grows item_step bi_ID (db_backlog db1) (db_backlog (apply_ops ops db))"
    by (simp add: db_step_def)
  from grows_old [OF g cas'(1)] obtain b' where b': "b' \<in> set (db_backlog (apply_ops ops db))"
    "item_step (re_Backlog out) b'" .
  have "db_ok (apply_ops ops db)" by (rule db_ok_ops [OF ok])
  then have "distinct (map bi_ID (db_backlog (apply_ops ops db)))" by (simp add: db_ok_def)
  moreover have "bi_ID b = bi_ID b'" using b b' cas'(2) id same(1) by (simp add: item_step_def)
  ultimately have "b = b'" using b(1) b'(1) by (auto simp: distinct_map dest: inj_onD)
  with b'(2) version same(2) show "rq_ExpectedClaimVersion rq' < bi_ClaimVersion b"
    by (simp add: item_step_def)
qed

section \<open>What a claim has checked and written\<close>

lemma overlap_claimed [simp]:
  "backlog_scopes_overlap (b\<lparr>bi_State := s, bi_ClaimVersion := v, bi_Revision := n, bi_UpdatedAt := t\<rparr>) x home =
   backlog_scopes_overlap b x home"
  "items_meet home (b\<lparr>bi_State := s, bi_ClaimVersion := v, bi_Revision := n, bi_UpdatedAt := t\<rparr>) x = items_meet home b x"
  by (simp_all add: items_meet_def backlog_scopes_overlap_def same_backlog_target_def scope_for_backlog_def)

lemma find_scope_conflict_None:
  "find_scope_conflict item home db = None \<longleftrightarrow>
   (\<forall>x \<in> set (db_backlog db). bi_State x = Backlog_Running \<and> bi_ID x \<noteq> bi_ID item \<longrightarrow> \<not> items_meet home item x)"
proof -
  have "find_scope_conflict item home db = None \<longleftrightarrow>
      find (\<lambda>other. items_meet home item other) (running_others (bi_ID item) db) = None"
    by (auto simp: find_scope_conflict_def items_meet_def split: option.splits)
  then show ?thesis by (auto simp: running_others_def find_None_iff)
qed

lemma evaluate_budget_Nil:
  "evaluate_budget rq snap = [] \<longleftrightarrow>
     (0 < li_MaxUSDPerRun (rq_Limits rq) \<longrightarrow> rq_EstimateUSD rq \<le> li_MaxUSDPerRun (rq_Limits rq)) \<and>
     (0 < li_MaxUSDPerDay (rq_Limits rq) \<longrightarrow>
        bs_spentUSD snap + bs_reservedUSD snap + rq_EstimateUSD rq \<le> li_MaxUSDPerDay (rq_Limits rq)) \<and>
     (0 < li_MaxRunsPerDay (rq_Limits rq) \<longrightarrow> bs_runs snap < li_MaxRunsPerDay (rq_Limits rq)) \<and>
     (0 < li_MaxConcurrentRuns (rq_Limits rq) \<longrightarrow> bs_activeRuns snap < li_MaxConcurrentRuns (rq_Limits rq))"
  by (auto simp: evaluate_budget_def Let_def)

lemma unspent_backlog: "unspent (update_backlog P f db) v = unspent db v"
  by (simp add: unspent_def get_run_def split: option.split)

lemma snapshot_backlog: "read_budget_snapshot t lim (update_backlog P f db) = read_budget_snapshot t lim db"
  by (simp add: read_budget_snapshot_def unspent_backlog [abs_def] count_active_def active_runs_def)

lemma admit_None:
  assumes "admit rq item db = None"
  shows "rq_SerializeOverlappingScopes rq \<Longrightarrow> find_scope_conflict item (rq_HomeProject rq) db = None"
    and "rq_SerializeOverlappingScopes rq \<Longrightarrow> rq_EnforceScopeReservations rq \<Longrightarrow>
      find_reservation_conflict rq db item = None"
    and "evaluate_budget rq (read_budget_snapshot (rq_Now rq - day) (rq_Limits rq) db) = []"
  using assms by (auto simp: admit_def split: option.splits list.splits if_splits)

lemma materialize_Inr:
  assumes "materialize rq item db = Inr (out, db')"
  shows "db' = clear_fairness (rq_BacklogID rq) (db\<lparr>db_runs := db_runs db @ [re_Run out],
      db_reservations := db_reservations db @ [re_Reservation out],
      db_workflows := db_workflows db @ [re_WorkflowRun out],
      db_ledger := db_ledger db @ [start_ledger_row rq (pr_ID (re_Run out)) (bi_ClaimVersion item)],
      db_dispatches := db_dispatches db @ [re_Dispatch out]\<rparr>)"
    and "re_Run out = start_run rq (run_id_of rq) (bi_ClaimVersion item) (next_attempt (rq_BacklogID rq) db)"
    and "re_Reservation out = (start_reservation rq (run_id_of rq))\<lparr>rv_ID := length (db_reservations db) + 1\<rparr>"
    and "re_WorkflowRun out = start_workflow_row rq (run_id_of rq) (bi_ClaimVersion item)"
    and "re_Dispatch out = (start_dispatch rq (run_id_of rq) (bi_ClaimVersion item))\<lparr>pd_ID := length (db_dispatches db) + 1\<rparr>"
    and "re_Backlog out = item"
proof -
  from assms obtain db1 db2 db3 db4 db5 where
    r: "re_Run out = start_run rq (run_id_of rq) (bi_ClaimVersion item) (next_attempt (rq_BacklogID rq) db)"
      "re_Reservation out = (start_reservation rq (run_id_of rq))\<lparr>rv_ID := length (db_reservations db) + 1\<rparr>"
      "re_WorkflowRun out = start_workflow_row rq (run_id_of rq) (bi_ClaimVersion item)"
      "re_Dispatch out = (start_dispatch rq (run_id_of rq) (bi_ClaimVersion item))\<lparr>pd_ID := length (db_dispatches db) + 1\<rparr>"
      "re_Backlog out = item" and
    i: "insert_run (re_Run out) db = Inr db1" "insert_reservation (re_Reservation out) db1 = Inr db2"
      "insert_workflow (re_WorkflowRun out) db2 = Inr db3"
      "insert_ledger (start_ledger_row rq (run_id_of rq) (bi_ClaimVersion item)) db3 = Inr db4"
      "insert_dispatch (re_Dispatch out) db4 = Inr db5" and
    db': "db' = clear_fairness (rq_BacklogID rq) db5"
    by (auto simp: materialize_def Let_def bind_db_Inr)
  note eqs = insert_run_Inr [OF i(1)] insert_reservation_Inr [OF i(2)] insert_workflow_Inr [OF i(3)]
    insert_ledger_Inr [OF i(4)] insert_dispatch_Inr [OF i(5)]
  show "db' = clear_fairness (rq_BacklogID rq) (db\<lparr>db_runs := db_runs db @ [re_Run out],
      db_reservations := db_reservations db @ [re_Reservation out],
      db_workflows := db_workflows db @ [re_WorkflowRun out],
      db_ledger := db_ledger db @ [start_ledger_row rq (pr_ID (re_Run out)) (bi_ClaimVersion item)],
      db_dispatches := db_dispatches db @ [re_Dispatch out]\<rparr>)"
    unfolding db' using eqs r by simp
qed (use assms in \<open>auto simp: materialize_def Let_def bind_db_Inr\<close>)

text \<open>What an admitted start has found in the store and written to it, as the contract of a claim.\<close>

definition admitted_start :: "start_request \<Rightarrow> mills_db \<Rightarrow> backlog_item \<Rightarrow> start_result \<Rightarrow> mills_db \<Rightarrow> bool" where
  "admitted_start rq db b out db' \<longleftrightarrow>
     backlog_get (rq_BacklogID rq) db = Some b \<and> bi_State b = Backlog_Queued \<and>
     bi_ClaimVersion b = rq_ExpectedClaimVersion rq \<and> bi_Revision b = rq_ExpectedRevision rq \<and>
     (rq_SerializeOverlappingScopes rq \<longrightarrow>
        filter (\<lambda>x. bi_State x = Backlog_Running \<and> items_meet (rq_HomeProject rq) b x) (db_backlog db) = []) \<and>
     evaluate_budget rq (read_budget_snapshot (rq_Now rq - day) (rq_Limits rq) db) = [] \<and>
     re_Backlog out = b\<lparr>bi_State := Backlog_Running, bi_ClaimVersion := bi_ClaimVersion b + 1,
       bi_Revision := bi_Revision b + 1, bi_UpdatedAt := rq_Now rq\<rparr> \<and>
     db_backlog db' = map (\<lambda>x. if x = b then re_Backlog out else x) (db_backlog db) \<and>
     db_runs db' = db_runs db @ [re_Run out] \<and> pr_State (re_Run out) = Run_Queued \<and>
     pr_AggregateVersion (re_Run out) = bi_ClaimVersion b + 1 \<and>
     db_reservations db' = db_reservations db @ [re_Reservation out] \<and> rv_Active (re_Reservation out) \<and>
     rv_RunID (re_Reservation out) = pr_ID (re_Run out) \<and> rv_ReservedUSD (re_Reservation out) = rq_EstimateUSD rq \<and>
     map ledger_key (db_ledger db') = map ledger_key (db_ledger db) @ [(bi_ID b, bi_ClaimVersion b + 1)] \<and>
     db_dispatches db' = db_dispatches db @ [re_Dispatch out] \<and> pd_Status (re_Dispatch out) = Dispatch_Pending \<and>
     pd_RunID (re_Dispatch out) = pr_ID (re_Run out)"

lemma claim_admitted:
  assumes ok: "db_ok db" and won: "claim_pipeline_start rq0 db = Inr (out, db')"
  defines "rq \<equiv> trim_request rq0"
  shows "\<exists>b. admitted_start rq db b out db'"
proof -
  from won obtain db1 where cas: "claim_cas rq db = Inr (re_Backlog out, db1)"
    and adm: "admit rq (re_Backlog out) db1 = None"
    and m: "materialize rq (re_Backlog out) db1 = Inr (out, db')"
    unfolding rq_def by (rule claim_Inr)
  from claim_cas_unique [OF ok cas] obtain b where b: "backlog_get (rq_BacklogID rq) db = Some b"
    "bi_State b = Backlog_Queued" "bi_ClaimVersion b = rq_ExpectedClaimVersion rq" "bi_Revision b = rq_ExpectedRevision rq"
    and item: "re_Backlog out = b\<lparr>bi_State := Backlog_Running, bi_ClaimVersion := bi_ClaimVersion b + 1,
       bi_Revision := bi_Revision b + 1, bi_UpdatedAt := rq_Now rq\<rparr>"
    and db1: "db1 = update_backlog (\<lambda>x. x = b) (\<lambda>_. re_Backlog out) db" .
  note bid = backlog_get_Some [OF b(1)]
  have apart: "filter (\<lambda>x. bi_State x = Backlog_Running \<and> items_meet (rq_HomeProject rq) b x) (db_backlog db) = []"
    if "rq_SerializeOverlappingScopes rq"
  proof -
    have none: "find_scope_conflict (re_Backlog out) (rq_HomeProject rq) db1 = None"
      using admit_None(1) [OF adm] that by simp
    have "\<not> items_meet (rq_HomeProject rq) b x" if x: "x \<in> set (db_backlog db)" "bi_State x = Backlog_Running" for x
    proof -
      from x(2) b(2) have "x \<noteq> b" by auto
      then have "bi_ID x \<noteq> bi_ID b" using unique_item [OF ok b(1) x(1)] bid by auto
      moreover have "x \<in> set (db_backlog db1)" using x(1) \<open>x \<noteq> b\<close> by (auto simp: db1 in_map_where)
      ultimately show ?thesis using none x(2) unfolding find_scope_conflict_None by (simp add: item)
    qed
    then show ?thesis by (simp add: filter_empty_conv)
  qed
  have budget: "evaluate_budget rq (read_budget_snapshot (rq_Now rq - day) (rq_Limits rq) db) = []"
    using admit_None(3) [OF adm] unfolding db1 snapshot_backlog .
  note rows = materialize_Inr [OF m]
  have v: "bi_ClaimVersion (re_Backlog out) = bi_ClaimVersion b + 1" by (simp add: item)
  have key: "ledger_key (start_ledger_row rq (pr_ID (re_Run out)) (bi_ClaimVersion b + 1)) = (bi_ID b, bi_ClaimVersion b + 1)"
    using bid by (simp add: ledger_key_def)
  have tables: "db_backlog db' = map (\<lambda>x. if x = b then re_Backlog out else x) (db_backlog db)"
    "db_runs db' = db_runs db @ [re_Run out]" "db_reservations db' = db_reservations db @ [re_Reservation out]"
    "map ledger_key (db_ledger db') = map ledger_key (db_ledger db) @ [(bi_ID b, bi_ClaimVersion b + 1)]"
    "db_dispatches db' = db_dispatches db @ [re_Dispatch out]"
    using key by (simp_all add: rows(1) db1 v map_where_def)
  have fields: "pr_State (re_Run out) = Run_Queued" "pr_AggregateVersion (re_Run out) = bi_ClaimVersion b + 1"
    "rv_Active (re_Reservation out)" "rv_RunID (re_Reservation out) = pr_ID (re_Run out)"
    "rv_ReservedUSD (re_Reservation out) = rq_EstimateUSD rq" "pd_Status (re_Dispatch out) = Dispatch_Pending"
    "pd_RunID (re_Dispatch out) = pr_ID (re_Run out)"
    by (simp_all add: rows(2,3,5) v start_run_def start_reservation_def start_dispatch_def)
  show ?thesis
    unfolding admitted_start_def by (rule exI [of _ b]) (use b item apart budget tables fields in auto)
qed


section \<open>Ended runs\<close>

lemma ended_run_kept:
  assumes ended: "get_run i (reachable_db before) = Some r" "is_pipeline_terminal_state (pr_State r)"
    and ops: "list_all (\<lambda>op. \<not> is_resume op) ops"
  shows "\<exists>r'. get_run i (reachable_db (before @ ops)) = Some r' \<and>
    (pr_State r' = pr_State r \<or> pr_State r = Run_Escalated \<and> pr_State r' = Run_PreflightFailed) \<and>
    filter (\<lambda>v. rv_RunID v = i \<and> rv_Active v) (db_reservations (reachable_db (before @ ops))) = []"
proof -
  let ?db = "reachable_db before" and ?db' = "reachable_db (before @ ops)"
  have ok': "db_ok ?db'" by (rule reachable_ok)
  note r = get_run_Some [OF ended(1)]
  have "db_step False ?db ?db'"
    using steps_ops [OF reachable_ok ops, of before] by (simp add: reachable_db_def apply_ops_append)
  then have "grows (run_step False) pr_ID (db_runs ?db) (db_runs ?db')" by (simp add: db_step_def)
  from grows_old [OF this] r obtain r' where r': "r' \<in> set (db_runs ?db')" "run_step False r r'" by blast
  have st: "pr_State r' = pr_State r \<or> pr_State r = Run_Escalated \<and> pr_State r' = Run_PreflightFailed"
    and id: "pr_ID r' = i" using r'(2) ended(2) r by (auto simp: run_step_def state_step_def)
  then have fin: "is_pipeline_terminal_state (pr_State r')"
    using ended(2) by (auto simp: is_pipeline_terminal_state_def)
  have "distinct (map pr_ID (db_runs ?db'))" using ok' by (simp add: db_ok_def)
  from find_by_key_Some [OF this r'(1)] id have "get_run i ?db' = Some r'" by (simp add: get_run_def)
  moreover have "filter (\<lambda>v. rv_RunID v = i \<and> rv_Active v) (db_reservations ?db') = []"
    using ok' fin r'(1) unfolding db_ok_def settled_def filter_empty_conv id [symmetric] by blast
  ultimately show ?thesis using st by blast
qed

text \<open>
  C16. A run that has ended stays ended: over any operations but a resume, a run found in a
  terminal state is found again under its id, in the same state or, from escalated, as a
  preflight failure, and it never again holds an active budget reservation.
\<close>

theorem ended_run_stays:
  assumes ended: "get_run i (reachable_db before) = Some r" "is_pipeline_terminal_state (pr_State r)"
    and ops: "list_all (\<lambda>op. \<not> is_resume op) ops"
  shows "\<exists>r'. get_run i (reachable_db (before @ ops)) = Some r' \<and>
    (pr_State r' = pr_State r \<or> pr_State r = Run_Escalated \<and> pr_State r' = Run_PreflightFailed) \<and>
    filter (\<lambda>v. rv_RunID v = i \<and> rv_Active v) (db_reservations (reachable_db (before @ ops))) = []"
  by (rule ended_run_kept [OF assms])

end
