(* ===== verification/Start_Limits.thy ===== *)
theory Start_Limits
  imports Start_Safety
begin

text \<open>
  What admission keeps over a history: running items of disjoint scopes and a bound on the active
  runs, as long as only claims start runs.
\<close>

section \<open>Scopes of running items\<close>

definition apart :: "string \<Rightarrow> mills_db \<Rightarrow> bool" where
  "apart home db \<longleftrightarrow>
     (\<forall>a \<in> set (db_backlog db). \<forall>b \<in> set (db_backlog db).
        bi_State a = Backlog_Running \<and> bi_State b = Backlog_Running \<and> bi_ID a \<noteq> bi_ID b \<longrightarrow> \<not> items_meet home a b)"

text \<open>The operations that leave it to claims, with serialised scopes, to set an item running.\<close>

definition starts_by_claim :: "string \<Rightarrow> mills_db \<Rightarrow> start_op \<Rightarrow> bool" where
  "starts_by_claim home db op =
     (case op of
        Put_Item now b \<Rightarrow> bi_State b \<noteq> Backlog_Running
      | Claim rq \<Rightarrow> rq_SerializeOverlappingScopes rq \<and> trim_space (rq_HomeProject rq) = home
      | Transition i v a b now \<Rightarrow> b \<noteq> Backlog_Running
      | Subrun p now i rq \<Rightarrow> False
      | _ \<Rightarrow> True)"

text \<open>An item running after the step was the same item, running, before it.\<close>

definition no_new_running :: "mills_db \<Rightarrow> mills_db \<Rightarrow> bool" where
  "no_new_running db db' \<longleftrightarrow> {b \<in> set (db_backlog db'). bi_State b = Backlog_Running} \<subseteq> set (db_backlog db)"

lemma apart_no_new: "no_new_running db db' \<Longrightarrow> apart home db \<Longrightarrow> apart home db'"
  unfolding no_new_running_def apart_def by blast

lemma no_new_running_refl: "db_backlog db' = db_backlog db \<Longrightarrow> no_new_running db db'"
  by (auto simp: no_new_running_def)

lemma no_new_running_trans: "no_new_running db db1 \<Longrightarrow> no_new_running db1 db2 \<Longrightarrow> no_new_running db db2"
  unfolding no_new_running_def by blast

lemma no_new_update:
  "(\<And>b. P b \<Longrightarrow> bi_State (f b) \<noteq> Backlog_Running) \<Longrightarrow> no_new_running db (update_backlog P f db)"
  by (auto simp: no_new_running_def in_map_where split: if_splits)

lemma no_new_transition:
  assumes "transition_backlog i v s t now db = Inr (b, db')" and "t \<noteq> Backlog_Running"
  shows "no_new_running db db'"
proof -
  have "no_new_running db (update_backlog
      (\<lambda>b. bi_ID b = i \<and> bi_ClaimVersion b = v \<and> bi_State b = s \<and> bi_State b \<noteq> t \<and> bi_Revision b < max_int64)
      (\<lambda>b. b\<lparr>bi_State := t, bi_Revision := bi_Revision b + 1, bi_UpdatedAt := now\<rparr>) db)"
    by (rule no_new_update) (simp add: assms(2))
  with assms(1) show ?thesis
    by (auto simp: transition_backlog_def Let_def no_new_running_refl split: if_splits option.splits)
qed

lemma no_new_put_item:
  assumes "bi_State b \<noteq> Backlog_Running"
  shows "no_new_running db (after db (put_backlog now b db))"
proof (cases "put_backlog now b db")
  case (Inr p)
  obtain new db1 where p: "p = (new, db1)" by (cases p)
  have "no_new_running db db1"
  proof (cases "backlog_get (bi_ID b) db")
    case None
    with Inr p have "bi_State new = bi_State b \<and> db1 = db\<lparr>db_backlog := db_backlog db @ [new]\<rparr>"
      by (auto simp: put_backlog_def Let_def split: if_splits)
    with assms show ?thesis by (auto simp: no_new_running_def)
  next
    case (Some old)
    with Inr p have "bi_State new = bi_State b \<and> db1 = update_backlog (\<lambda>x. bi_ID x = bi_ID b) (\<lambda>_. new) db"
      by (auto simp: put_backlog_def Let_def split: if_splits)
    with assms no_new_update show ?thesis by simp
  qed
  then show ?thesis by (simp add: after_def Inr p)
qed (simp add: after_def no_new_running_refl)

lemma put_pipeline_run_backlog:
  assumes "put_pipeline_run now r db = Inr (new, db')"
  shows "db_backlog db' = db_backlog db"
  using assms insert_run_Inr by (fastforce simp: put_pipeline_run_def Let_def bind_db_Inr split: option.splits if_splits)

lemma put_terminal_backlog:
  assumes "put_terminal_run_tx now r db = Inr (new, db')"
  shows "db_backlog db' = db_backlog db"
  using assms put_pipeline_run_backlog by (auto simp: put_terminal_run_tx_def Let_def bind_db_Inr split: if_splits)

lemma no_new_put_run: "no_new_running db (after db (put_run now r db))"
  using put_pipeline_run_backlog put_terminal_backlog
  by (auto simp: put_run_def after_def no_new_running_refl split: sum.splits if_splits)

lemma no_new_pause: "no_new_running db (after db (pause_run_with_backlog now r s db))"
proof (cases "pause_run_with_backlog now r s db")
  case (Inr p)
  obtain new db' where p: "p = (new, db')" by (cases p)
  from Inr p obtain db1 b where
    put: "put_terminal_run_tx now (r\<lparr>pr_State := Run_Paused, pr_EndedAt := Some now\<rparr>) db = Inr (new, db1)"
    and tr: "transition_backlog (pr_BacklogID r) (pr_AggregateVersion r) s Backlog_Paused now db1 = Inr (b, db')"
    by (auto simp: pause_run_with_backlog_def bind_db_Inr split: if_splits)
  have "no_new_running db1 db'" by (rule no_new_transition [OF tr]) simp
  then show ?thesis using put_terminal_backlog [OF put] by (simp add: after_def Inr p no_new_running_def)
qed (simp add: after_def no_new_running_refl)

lemma no_new_resume: "no_new_running db (after db (resume_paused_run_with_backlog now r s db))"
proof (cases "resume_paused_run_with_backlog now r s db")
  case (Inr p)
  obtain new db' where p: "p = (new, db')" by (cases p)
  from resume_Inr [OF Inr [unfolded p], unfolded Let_def] obtain db2 P f Q g where
    2: "(s = None \<and> db2 = update_runs P f db) \<or> (\<exists>t b. s = Some t \<and> transition_backlog (pr_BacklogID r)
      (pr_AggregateVersion r) t Backlog_Queued now (update_runs P f db) = Inr (b, db2))"
    and db': "db' = update_workflows Q g db2" by blast
  have "no_new_running (update_runs P f db) db2" using 2 no_new_transition by (auto simp: no_new_running_refl)
  then show ?thesis by (simp add: after_def Inr p db' no_new_running_def)
qed (simp add: after_def no_new_running_refl)

lemma no_new_give_up:
  "give_up_backlog d b now db = Inr db' \<Longrightarrow> no_new_running db db'"
  by (auto simp: give_up_backlog_def no_new_running_refl no_new_running_def in_map_where
      dest!: insert_ledger_Inr split: if_splits)

lemma no_new_dead_letter:
  assumes "dead_letter_queued_dispatch d token message now db = Inr (Some db')"
  shows "no_new_running db db'"
  using assms by (rule dead_letter_Some) (auto dest!: no_new_give_up simp: no_new_running_def)

lemma no_new_fail: "no_new_running db (after db (mark_dispatch_failed i tok msg now p db))"
  by (auto simp: mark_dispatch_failed_def reschedule_def after_def Let_def no_new_running_refl no_new_dead_letter
      split: sum.splits option.splits if_splits)

lemma no_new_transition_state:
  assumes "t \<noteq> Backlog_Running"
  shows "no_new_running db (after db (transition_state i v s t now db))"
proof (cases "transition_backlog i v s t now db")
  case (Inr p)
  obtain b db1 where p: "p = (b, db1)" by (cases p)
  have "no_new_running db db1" by (rule no_new_transition [OF Inr [unfolded p] assms])
  then show ?thesis by (simp add: transition_state_def Inr p after_def Let_def no_new_running_def)
qed (simp add: transition_state_def after_def no_new_running_refl)

lemma no_new_defer: "no_new_running db (after db (record_scope_deferral i now n age db))"
  by (auto simp: record_scope_deferral_def after_def Let_def no_new_running_refl split: sum.splits option.splits if_splits)

lemma stamp_backlog: "db_backlog (after db (set_escalation_metadata i md db)) = db_backlog db"
  by (simp add: set_escalation_metadata_def after_def)

lemma no_new_stamp: "no_new_running db (after db (set_escalation_metadata i md db))"
  by (simp add: no_new_running_refl stamp_backlog)

lemma no_new_op:
  assumes g: "starts_by_claim home db op" and "\<And>rq. op \<noteq> Claim rq"
  shows "no_new_running db (apply_op op db)"
proof (cases op)
  case (Deliver i tok now)
  then show ?thesis
    by (auto simp: mark_dispatch_delivered_def Let_def no_new_running_refl split: option.splits if_splits)
next
  case (Lease_One pre i now len)
  then show ?thesis
    by (auto simp: claim_pending_dispatch_def after_def Let_def no_new_running_refl split: option.splits if_splits)
qed (use assms in \<open>simp_all add: starts_by_claim_def no_new_put_item no_new_transition_state no_new_defer no_new_put_run
    no_new_pause no_new_resume no_new_fail no_new_stamp claim_pending_dispatches_def Let_def no_new_running_refl\<close>)

lemma apart_claim:
  assumes ok: "db_ok db" and ap: "apart home db"
    and won: "claim_pipeline_start rq db = Inr (out, db')"
    and ser: "rq_SerializeOverlappingScopes rq" and home: "trim_space (rq_HomeProject rq) = home"
  shows "apart home db'"
proof -
  define rq' where "rq' = trim_request rq"
  have h: "rq_HomeProject rq' = home" "rq_SerializeOverlappingScopes rq'"
    using ser home by (simp_all add: rq'_def trim_request_def)
  from claim_admitted [OF ok won] obtain b where "admitted_start rq' db b out db'" by (auto simp: rq'_def)
  then have none: "filter (\<lambda>x. bi_State x = Backlog_Running \<and> items_meet home b x) (db_backlog db) = []"
    and new: "re_Backlog out = b\<lparr>bi_State := Backlog_Running, bi_ClaimVersion := bi_ClaimVersion b + 1,
      bi_Revision := bi_Revision b + 1, bi_UpdatedAt := rq_Now rq'\<rparr>"
    and tab: "db_backlog db' = map (\<lambda>x. if x = b then re_Backlog out else x) (db_backlog db)"
    using h unfolding admitted_start_def by simp_all
  have meet: "items_meet home (re_Backlog out) x = items_meet home b x" "items_meet home x (re_Backlog out) = items_meet home b x"
    for x using items_meet_sym [of home x] by (simp_all add: new)
  have old: "x \<in> set (db_backlog db) \<Longrightarrow> bi_State x = Backlog_Running \<Longrightarrow> \<not> items_meet home b x" for x
    using none by (auto simp: filter_empty_conv)
  have cases: "x = re_Backlog out \<or> x \<in> set (db_backlog db)" if "x \<in> set (db_backlog db')" for x
    using that by (auto simp: tab)
  show ?thesis
    unfolding apart_def
  proof (intro ballI impI)
    fix x y assume x: "x \<in> set (db_backlog db')" and y: "y \<in> set (db_backlog db')"
      and r: "bi_State x = Backlog_Running \<and> bi_State y = Backlog_Running \<and> bi_ID x \<noteq> bi_ID y"
    show "\<not> items_meet home x y"
      using cases [OF x] cases [OF y] r old meet ap unfolding apart_def by metis
  qed
qed

lemma apart_step:
  assumes ok: "db_ok db" and ap: "apart home db" and g: "starts_by_claim home db op"
  shows "apart home (apply_op op db)"
proof (cases "\<exists>rq. op = Claim rq")
  case True
  then obtain rq where op: "op = Claim rq" by blast
  with g apart_claim [OF ok ap] ap show ?thesis
    by (auto simp: starts_by_claim_def after_def split: sum.split)
next
  case False
  have "no_new_running db (apply_op op db)"
    using False g no_new_op by blast
  then show ?thesis using ap by (rule apart_no_new)
qed


section \<open>Active runs\<close>

text \<open>The operations under which only claims, each with a cap of at most \<open>n\<close>, add active runs.\<close>

definition capped :: "int \<Rightarrow> mills_db \<Rightarrow> start_op \<Rightarrow> bool" where
  "capped n db op =
     (case op of
        Claim rq \<Rightarrow> 0 < li_MaxConcurrentRuns (rq_Limits rq) \<and> li_MaxConcurrentRuns (rq_Limits rq) \<le> n
      | Put_Run now r \<Rightarrow> is_pipeline_terminal_state (pr_State r) \<or>
          list_ex (\<lambda>x. pr_ID x = pr_ID r \<and> is_active x) (db_runs db)
      | Resume now r s \<Rightarrow> False
      | Subrun p now i rq \<Rightarrow> False
      | _ \<Rightarrow> True)"

lemma count_active_runs: "db_runs db' = db_runs db \<Longrightarrow> count_active db' = count_active db"
  by (simp add: count_active_def active_runs_def)

lemma length_filter_map_where:
  "(\<And>x. x \<in> set xs \<Longrightarrow> P x \<Longrightarrow> Q (f x) \<Longrightarrow> Q x) \<Longrightarrow> length (filter Q (map_where P f xs)) \<le> length (filter Q xs)"
  by (induction xs) (auto simp: map_where_def intro: le_SucI)

lemma count_active_update:
  "(\<And>x. x \<in> set (db_runs db) \<Longrightarrow> P x \<Longrightarrow> is_active (f x) \<Longrightarrow> is_active x) \<Longrightarrow>
   count_active (update_runs P f db) \<le> count_active db"
  by (simp add: count_active_def active_runs_def length_filter_map_where)

lemma put_pipeline_run_count:
  assumes ok: "db_ok db" and put: "put_pipeline_run now r db = Inr (new, db1)"
    and adm: "is_pipeline_terminal_state (pr_State r) \<or> list_ex (\<lambda>x. pr_ID x = pr_ID r \<and> is_active x) (db_runs db)"
  shows "count_active db1 \<le> count_active db"
proof -
  define r1 where "r1 = (if pr_StartedAt r = zero_time then r\<lparr>pr_StartedAt := now\<rparr> else r)"
  have r1: "pr_ID r1 = pr_ID r" "pr_State r1 = pr_State r" by (simp_all add: r1_def)
  show ?thesis
  proof (cases "get_run (pr_ID r) db")
    case None
    then have "\<not> list_ex (\<lambda>x. pr_ID x = pr_ID r \<and> is_active x) (db_runs db)"
      by (auto simp: get_run_def find_None_iff list_ex_iff)
    with adm have ended: "is_pipeline_terminal_state (pr_State r)" by blast
    from put None have new: "new = r1\<lparr>pr_Revision := 1\<rparr>" and ins: "insert_run new db = Inr db1"
      by (auto simp: put_pipeline_run_def Let_def r1_def [symmetric] r1 bind_db_Inr split: option.splits)
    have "\<not> is_active new" using ended by (simp add: new r1 is_active_def)
    with insert_run_Inr [OF ins] show ?thesis by (simp add: count_active_def active_runs_def)
  next
    case (Some old)
    from put Some have db1: "db1 = update_runs (\<lambda>x. pr_ID x = pr_ID r) (\<lambda>_. new) db" and st: "pr_State new = pr_State r"
      by (auto simp: put_pipeline_run_def Let_def r1_def [symmetric] r1 merged_row_def split: option.splits if_splits)
    show ?thesis
      unfolding db1
    proof (rule count_active_update)
      fix x assume x: "x \<in> set (db_runs db)" "pr_ID x = pr_ID r" "is_active new"
      with adm st obtain y where "y \<in> set (db_runs db)" "pr_ID y = pr_ID r" "is_active y"
        by (auto simp: is_active_def list_ex_iff)
      with unique_run [OF ok Some] x(1,2) show "is_active x" by metis
    qed
  qed
qed

lemma put_terminal_count:
  assumes ok: "db_ok db" and put: "put_terminal_run_tx now r db = Inr (new, db')" "is_pipeline_terminal_state (pr_State r)"
  shows "count_active db' \<le> count_active db"
proof -
  define r1 where "r1 = (if pr_State r \<noteq> Run_Paused \<and> pr_EndedAt r = None then r\<lparr>pr_EndedAt := Some now\<rparr> else r)"
  from put obtain db1 at f P where p: "put_pipeline_run now r1 db = Inr (new, db1)"
    and db': "db' = update_workflows P f (release_reservation (pr_ID new) at db1)"
    by (auto simp: put_terminal_run_tx_def Let_def r1_def [symmetric] bind_db_Inr split: if_splits)
  have "count_active db1 \<le> count_active db"
    by (rule put_pipeline_run_count [OF ok p]) (use put(2) in \<open>simp add: r1_def\<close>)
  then show ?thesis by (simp add: db' count_active_def active_runs_def)
qed

lemma transition_state_runs: "db_runs (after db (transition_state i v s t now db)) = db_runs db"
  by (auto simp: transition_state_def after_def bind_db_def Let_def dest: transition_backlog_runs split: sum.split)

lemma dead_letter_count:
  assumes "dead_letter_queued_dispatch d token message now db = Inr (Some db')"
  shows "count_active db' \<le> count_active db"
  using assms
proof (rule dead_letter_Some)
  fix r b db1 P f Q g R h
  assume g: "give_up_backlog d b now
       (update_runs (\<lambda>x. pr_ID x = pd_RunID d \<and> pr_State x = Run_Queued) (give_up_run now) db) = Inr db1"
    and db': "db' = update_dispatches (held_by (pd_ID d) token) (dead_row message now)
       (update_workflows (\<lambda>w. wr_ID w = pd_RunID d \<and> wr_Engine w = Engine_DAG)
         (\<lambda>w. w\<lparr>wr_State := Flow_Escalated, wr_EndedAt := Some now\<rparr>) (release_reservation (pd_RunID d) now db1))"
  have "db_runs db1 = db_runs (update_runs (\<lambda>x. pr_ID x = pd_RunID d \<and> pr_State x = Run_Queued) (give_up_run now) db)"
    using g by (auto simp: give_up_backlog_def dest!: insert_ledger_Inr split: if_splits)
  then have "count_active db' = count_active (update_runs (\<lambda>x. pr_ID x = pd_RunID d \<and> pr_State x = Run_Queued) (give_up_run now) db)"
    by (simp add: db' count_active_def active_runs_def)
  also have "\<dots> \<le> count_active db"
    by (rule count_active_update) (simp add: is_active_def)
  finally show "count_active db' \<le> count_active db" .
qed

lemma fail_count: "count_active (after db (mark_dispatch_failed i tok msg now p db)) \<le> count_active db"
  by (auto simp: mark_dispatch_failed_def reschedule_def after_def Let_def dead_letter_count
      count_active_runs [of "update_dispatches P f db" db for P f]
      split: sum.splits option.splits if_splits)

lemma put_run_count:
  assumes "db_ok db" and "capped n db (Put_Run now r)"
  shows "count_active (after db (put_run now r db)) \<le> count_active db"
  using assms put_terminal_count put_pipeline_run_count
  by (fastforce simp: put_run_def after_def capped_def split: sum.splits if_splits)

lemma pause_count:
  assumes "db_ok db"
  shows "count_active (after db (pause_run_with_backlog now r s db)) \<le> count_active db"
proof (cases "pause_run_with_backlog now r s db")
  case (Inr p)
  obtain new db' where p: "p = (new, db')" by (cases p)
  from Inr p obtain db1 b where
    put: "put_terminal_run_tx now (r\<lparr>pr_State := Run_Paused, pr_EndedAt := Some now\<rparr>) db = Inr (new, db1)"
    and tr: "transition_backlog (pr_BacklogID r) (pr_AggregateVersion r) s Backlog_Paused now db1 = Inr (b, db')"
    by (auto simp: pause_run_with_backlog_def bind_db_Inr split: if_splits)
  have "count_active db1 \<le> count_active db"
    by (rule put_terminal_count [OF assms put]) (simp add: is_pipeline_terminal_state_def)
  with count_active_runs [OF transition_backlog_runs [OF tr]] show ?thesis by (simp add: after_def Inr p)
qed (simp add: after_def)

lemma claim_count:
  assumes ok: "db_ok db" and cap: "capped n db (Claim rq)" and le: "count_active db \<le> n"
  shows "count_active (after db (claim_pipeline_start rq db)) \<le> n"
proof (cases "claim_pipeline_start rq db")
  case (Inr p)
  obtain out db' where p: "p = (out, db')" by (cases p)
  from claim_admitted [OF ok] Inr p obtain b where "admitted_start (trim_request rq) db b out db'" by blast
  then have "evaluate_budget (trim_request rq)
      (read_budget_snapshot (rq_Now (trim_request rq) - day) (rq_Limits (trim_request rq)) db) = []"
    and runs: "db_runs db' = db_runs db @ [re_Run out]" unfolding admitted_start_def by blast+
  then have "bs_activeRuns (read_budget_snapshot (rq_Now (trim_request rq) - day) (rq_Limits (trim_request rq)) db) < n"
    using cap unfolding evaluate_budget_Nil by (auto simp: capped_def trim_request_def)
  then have "count_active db < n"
    using cap by (simp add: read_budget_snapshot_def capped_def trim_request_def)
  with runs show ?thesis by (simp add: after_def Inr p count_active_def active_runs_def)
qed (use le in \<open>simp add: after_def\<close>)

lemma put_item_runs: "db_runs (after db (put_backlog now b db)) = db_runs db"
  by (auto simp: put_backlog_def after_def Let_def split: sum.splits option.splits if_splits)

lemma defer_runs: "db_runs (after db (record_scope_deferral i now n age db)) = db_runs db"
  by (auto simp: record_scope_deferral_def after_def Let_def split: sum.splits option.splits if_splits)

lemma lease_runs: "db_runs (after db (claim_pending_dispatch pre i now len db)) = db_runs db"
  by (auto simp: claim_pending_dispatch_def after_def Let_def split: sum.splits option.splits if_splits)

lemma count_stamp: "count_active (after db (set_escalation_metadata i md db)) = count_active db"
proof -
  have "length (filter is_active (map_where P (stamped md) rs)) = length (filter is_active rs)" for P rs
    by (induction rs) (simp_all add: map_where_def is_active_def)
  then show ?thesis by (simp add: set_escalation_metadata_def after_def count_active_def active_runs_def)
qed

lemma count_step:
  assumes ok: "db_ok db" and g: "capped n db op" and le: "count_active db \<le> n"
  shows "count_active (apply_op op db) \<le> n"
proof (cases op)
  case (Claim rq)
  with claim_count [OF ok _ le] g show ?thesis by simp
next
  case (Put_Run now r)
  with put_run_count [OF ok] g le show ?thesis by fastforce
next
  case (Pause now r s)
  with pause_count [OF ok, of now r s] le show ?thesis by simp
next
  case (Fail i tok msg now p)
  with fail_count [of db i tok msg now p] le show ?thesis by simp
next
  case (Deliver i tok now)
  with le show ?thesis
    by (auto simp: mark_dispatch_delivered_def Let_def count_active_def active_runs_def split: option.splits if_splits)
qed (use g le in \<open>simp_all add: capped_def claim_pending_dispatches_def Let_def count_active_def active_runs_def
    put_item_runs transition_state_runs defer_runs lease_runs count_stamp [unfolded count_active_def active_runs_def]\<close>)

text \<open>
  C22. The concurrency cap holds over a history: as long as every claim carries a cap of at most
  \<open>n\<close> and runs become active by a claim only, at most \<open>n\<close> runs are ever active at a time.
\<close>

theorem active_runs_capped:
  assumes "guarded (capped n) ops empty_db" and "0 \<le> n"
  shows "count_active (reachable_db ops) \<le> n"
proof -
  have "db_ok (apply_ops ops empty_db) \<and> count_active (apply_ops ops empty_db) \<le> n"
  proof (rule guarded_invariant [where I = "\<lambda>db. db_ok db \<and> count_active db \<le> n" and G = "capped n"])
    show "db_ok empty_db \<and> count_active empty_db \<le> n"
      using empty_db_ok assms(2) by (simp add: count_active_def active_runs_def empty_db_def)
  qed (use assms(1) in \<open>auto intro: count_step db_ok_step [OF _ step_op]\<close>)
  then show ?thesis by (simp add: reachable_db_def)
qed

end
