(* ===== verification/Start_Outbox.thy ===== *)
theory Start_Outbox
  imports Start_Safety
begin

text \<open>
  The outbox over a history: an intent changes only under its lease, a closed one never, and the
  backoff of its retries in closed form; and what a resume does to a run that was delivered.
\<close>

section \<open>Intents\<close>

definition numbered :: "mills_db \<Rightarrow> bool" where
  "numbered db \<longleftrightarrow> map pd_ID (db_dispatches db) = [1..<length (db_dispatches db) + 1]"

definition leased :: "pending_dispatch \<Rightarrow> time \<Rightarrow> bool" where
  "leased d now \<longleftrightarrow> pd_LeaseToken d \<noteq> '''' \<and> (case pd_LeaseExpiresAt d of None \<Rightarrow> False | Some t \<Rightarrow> now < t)"

text \<open>
  The operations of others: no lease is taken after the expiry, and an acknowledgement of the
  intent carries another token.
\<close>

definition others_only :: "pending_dispatch \<Rightarrow> mills_db \<Rightarrow> start_op \<Rightarrow> bool" where
  "others_only d db op =
     (case op of
        Lease_One pre i now len \<Rightarrow> leased d now
      | Lease_Batch pre n now len \<Rightarrow> leased d now
      | Deliver i tok now \<Rightarrow> i \<noteq> pd_ID d \<or> trim_space tok \<noteq> pd_LeaseToken d
      | Fail i tok msg now p \<Rightarrow> i \<noteq> pd_ID d \<or> trim_space tok \<noteq> pd_LeaseToken d
      | _ \<Rightarrow> True)"

text \<open>The intent survives the step as it is; identifiers stay in sequence.\<close>

definition keeps :: "pending_dispatch \<Rightarrow> mills_db \<Rightarrow> mills_db \<Rightarrow> bool" where
  "keeps d db db' \<longleftrightarrow>
     (d \<in> set (db_dispatches db) \<longrightarrow> d \<in> set (db_dispatches db')) \<and> (numbered db \<longrightarrow> numbered db')"

lemma keeps_same: "db_dispatches db' = db_dispatches db \<Longrightarrow> keeps d db db'"
  by (simp add: keeps_def numbered_def)

lemma keeps_update:
  assumes "\<not> P d" and "\<And>x. pd_ID (f x) = pd_ID x"
  shows "keeps d db (update_dispatches P f db)"
  using assms map_where_key [of P pd_ID f] by (auto simp: keeps_def numbered_def in_map_where intro!: bexI [of _ d])

lemma keeps_append:
  assumes "db_dispatches db' = db_dispatches db @ [x]" and "pd_ID x = length (db_dispatches db) + 1"
  shows "keeps d db db'"
  using assms by (auto simp: keeps_def numbered_def)

lemma lease_ID [simp]: "pd_ID (lease pre now len x) = pd_ID x"
  by (simp add: lease_def)

lemma dead_row_ID [simp]: "pd_ID (dead_row msg now x) = pd_ID x"
  by (simp add: dead_row_def)

lemma put_item_dispatches: "db_dispatches (after db (put_backlog now b db)) = db_dispatches db"
  by (auto simp: put_backlog_def after_def Let_def split: sum.splits option.splits if_splits)

lemma put_pipeline_run_dispatches: "put_pipeline_run now r db = Inr (new, db') \<Longrightarrow> db_dispatches db' = db_dispatches db"
  using insert_run_Inr by (fastforce simp: put_pipeline_run_def Let_def bind_db_Inr split: option.splits if_splits)

lemma put_terminal_dispatches: "put_terminal_run_tx now r db = Inr (new, db') \<Longrightarrow> db_dispatches db' = db_dispatches db"
  using put_pipeline_run_dispatches by (auto simp: put_terminal_run_tx_def Let_def bind_db_Inr split: if_splits)

lemma put_run_dispatches: "db_dispatches (after db (put_run now r db)) = db_dispatches db"
  using put_pipeline_run_dispatches put_terminal_dispatches
  by (auto simp: put_run_def after_def split: sum.splits if_splits)

lemma transition_backlog_dispatches:
  "transition_backlog i v s t now db = Inr (b, db') \<Longrightarrow> db_dispatches db' = db_dispatches db"
  by (auto simp: transition_backlog_def Let_def split: if_splits option.splits)

lemma transition_state_dispatches: "db_dispatches (after db (transition_state i v s t now db)) = db_dispatches db"
  by (auto simp: transition_state_def after_def bind_db_def Let_def dest: transition_backlog_dispatches split: sum.split)

lemma pause_dispatches: "db_dispatches (after db (pause_run_with_backlog now r s db)) = db_dispatches db"
  using put_terminal_dispatches transition_backlog_dispatches
  by (fastforce simp: pause_run_with_backlog_def after_def bind_db_def split: sum.splits if_splits)

lemma resume_dispatches: "db_dispatches (after db (resume_paused_run_with_backlog now r s db)) = db_dispatches db"
proof (cases "resume_paused_run_with_backlog now r s db")
  case (Inr p)
  obtain new db' where p: "p = (new, db')" by (cases p)
  from resume_Inr [OF Inr [unfolded p], unfolded Let_def] obtain db2 P f Q g where
    2: "(s = None \<and> db2 = update_runs P f db) \<or> (\<exists>t b. s = Some t \<and> transition_backlog (pr_BacklogID r)
      (pr_AggregateVersion r) t Backlog_Queued now (update_runs P f db) = Inr (b, db2))"
    and db': "db' = update_workflows Q g db2" by blast
  from 2 have "db_dispatches db2 = db_dispatches db" using transition_backlog_dispatches by fastforce
  then show ?thesis by (simp add: after_def Inr p db')
qed (simp add: after_def)

lemma subrun_dispatches: "db_dispatches (fst (subrun_create p now i rq db)) = db_dispatches db"
proof (cases "guard_subrun p rq db")
  case (Inr q)
  obtain parent target where q: "q = (parent, target)" by (cases q)
  show ?thesis
  proof (cases "create_subrun now (subrun_row now i rq parent target) db")
    case (Inr x)
    obtain r db1 where x: "x = (r, db1)" by (cases x)
    with Inr obtain r1 where "insert_run r1 db = Inr db1"
      by (auto simp: create_subrun_def Let_def bind_db_Inr split: option.splits if_splits)
    with insert_run_Inr have "db_dispatches db1 = db_dispatches db" by fastforce
    moreover have "db_dispatches (after db1 (transition_state (bi_ID target) (bi_ClaimVersion target) (bi_State target)
        Backlog_Running now db1)) = db_dispatches db1" by (rule transition_state_dispatches)
    ultimately show ?thesis
      by (auto simp: subrun_create_def \<open>guard_subrun p rq db = Inr q\<close> q Inr x after_def split: sum.splits)
  qed (simp add: subrun_create_def Inr q)
qed (simp add: subrun_create_def)

lemma defer_dispatches: "db_dispatches (after db (record_scope_deferral i now n age db)) = db_dispatches db"
  by (auto simp: record_scope_deferral_def after_def Let_def split: sum.splits option.splits if_splits)

lemma stamp_dispatches: "db_dispatches (after db (set_escalation_metadata i md db)) = db_dispatches db"
  by (simp add: set_escalation_metadata_def after_def)

lemmas same_dispatches = put_item_dispatches put_run_dispatches transition_state_dispatches pause_dispatches
  resume_dispatches subrun_dispatches defer_dispatches stamp_dispatches

lemma keeps_claim: "keeps d db (after db (claim_pipeline_start rq db))"
proof (cases "claim_pipeline_start rq db")
  case (Inr p)
  obtain out db' where p: "p = (out, db')" by (cases p)
  from claim_Inr [OF Inr [unfolded p]] obtain db1 where cas: "claim_cas (trim_request rq) db = Inr (re_Backlog out, db1)"
    and m: "materialize (trim_request rq) (re_Backlog out) db1 = Inr (out, db')" by metis
  from cas have "db_dispatches db1 = db_dispatches db"
    by (auto simp: claim_cas_def Let_def split: if_splits option.splits)
  then have "keeps d db db'"
    by (intro keeps_append [of _ _ "re_Dispatch out"]) (simp_all add: materialize_Inr(1,5) [OF m])
  then show ?thesis by (simp add: after_def Inr p)
qed (simp add: after_def keeps_same)

lemma keeps_lease:
  assumes "leased d now \<or> pd_Status d \<noteq> Dispatch_Pending"
  shows "keeps d db (after db (claim_pending_dispatch pre i now len db))"
    and "keeps d db (snd (claim_pending_dispatches pre n now len db))"
proof -
  have not: "\<not> ready_dispatch now d"
    using assms by (auto simp: leased_def ready_dispatch_def split: option.splits)
  then show "keeps d db (after db (claim_pending_dispatch pre i now len db))"
    by (auto simp: claim_pending_dispatch_def after_def Let_def keeps_same split: sum.splits option.splits if_splits
        intro!: keeps_update)
  from not show "keeps d db (snd (claim_pending_dispatches pre n now len db))"
    by (auto simp: claim_pending_dispatches_def Let_def intro!: keeps_update)
qed

lemma keeps_fail:
  assumes "\<not> held_by i (trim_space tok) d"
  shows "keeps d db (after db (mark_dispatch_failed i tok msg now p db))"
proof (cases "mark_dispatch_failed i tok msg now p db")
  case (Inr q)
  obtain res db' where q: "q = (res, db')" by (cases q)
  from Inr q obtain e where e: "find (held_by i (trim_space tok)) (db_dispatches db) = Some e"
    by (auto simp: mark_dispatch_failed_def Let_def split: option.splits if_splits)
  then have id: "pd_ID e = i" by (auto dest: find_Some_in simp: held_by_def)
  have "keeps d db db'" if "reschedule e (trim_space tok) (trim_space msg) now pol db = Inr (res, db')" for pol
    using that assms id by (auto simp: reschedule_def Let_def intro!: keeps_update)
  moreover have "keeps d db db'"
    if "dead_letter_queued_dispatch e (trim_space tok) (trim_space msg) now db = Inr (Some db')"
    using that
  proof (rule dead_letter_Some)
    fix r b db1
    assume g: "give_up_backlog e b now
         (update_runs (\<lambda>x. pr_ID x = pd_RunID e \<and> pr_State x = Run_Queued) (give_up_run now) db) = Inr db1"
      and db': "db' = update_dispatches (held_by (pd_ID e) (trim_space tok)) (dead_row (trim_space msg) now)
         (update_workflows (\<lambda>w. wr_ID w = pd_RunID e \<and> wr_Engine w = Engine_DAG)
           (\<lambda>w. w\<lparr>wr_State := Flow_Escalated, wr_EndedAt := Some now\<rparr>) (release_reservation (pd_RunID e) now db1))"
    have "db_dispatches db1 = db_dispatches db"
      using g by (auto simp: give_up_backlog_def dest!: insert_ledger_Inr split: if_splits)
    then have "keeps d db db' = keeps d db1 db'" by (simp add: keeps_def numbered_def)
    also have "\<dots>" using assms id
      by (auto simp: db' keeps_def numbered_def in_map_where map_where_key intro!: bexI [of _ d])
    finally show "keeps d db db'" .
  qed
  ultimately have "keeps d db db'"
    using Inr e unfolding q
    by (auto simp: mark_dispatch_failed_def Let_def split: option.splits if_splits sum.splits)
  then show ?thesis by (simp add: after_def Inr q)
qed (simp add: after_def keeps_same)

lemma keeps_op:
  assumes "others_only d db op \<or> pd_Status d \<noteq> Dispatch_Pending"
  shows "keeps d db (apply_op op db)"
proof (cases op)
  case (Fail i tok msg now p)
  then have "\<not> held_by i (trim_space tok) d" using assms by (auto simp: others_only_def held_by_def)
  with Fail keeps_fail show ?thesis by simp
next
  case (Deliver i tok now)
  then have "\<not> held_by i (trim_space tok) d" using assms by (auto simp: others_only_def held_by_def)
  with Deliver show ?thesis
    by (auto simp: mark_dispatch_delivered_def Let_def keeps_same split: option.splits if_splits intro!: keeps_update)
next
  case (Lease_One pre i now len)
  with assms keeps_lease show ?thesis by (auto simp: others_only_def)
next
  case (Lease_Batch pre n now len)
  with assms keeps_lease show ?thesis by (auto simp: others_only_def)
qed (simp_all add: keeps_claim keeps_same same_dispatches)

lemma guarded_True: "(\<And>db op. G db op) \<Longrightarrow> guarded G ops db"
  by (induction ops arbitrary: db) simp_all

lemma numbered_distinct: "numbered db \<Longrightarrow> distinct (map pd_ID (db_dispatches db))"
  by (simp add: numbered_def)

lemma keeps_ops:
  assumes "guarded (\<lambda>db op. others_only d db op \<or> pd_Status d \<noteq> Dispatch_Pending) ops db"
  shows "keeps d db (apply_ops ops db)"
  using assms
proof (induction ops arbitrary: db)
  case (Cons op ops)
  then have "keeps d db (apply_op op db)" "keeps d (apply_op op db) (apply_ops ops (apply_op op db))"
    by (simp_all add: keeps_op)
  then show ?case by (simp add: keeps_def)
qed (simp add: keeps_def)

lemma numbered_ops: "numbered db \<Longrightarrow> numbered (apply_ops ops db)"
proof (induction ops arbitrary: db)
  case (Cons op ops)
  have "keeps (undefined\<lparr>pd_Status := Dispatch_Dead\<rparr>) db (apply_op op db)" by (rule keeps_op) simp
  with Cons show ?case by (simp add: keeps_def)
qed simp

lemma reachable_numbered: "numbered (reachable_db ops)"
  unfolding reachable_db_def by (rule numbered_ops) (simp add: numbered_def empty_db_def)

lemma get_dispatch_kept:
  assumes "get_dispatch i (reachable_db before) = Some d" and "keeps d (reachable_db before) (apply_ops ops (reachable_db before))"
  shows "get_dispatch i (reachable_db (before @ ops)) = Some d"
proof -
  note d = get_dispatch_Some [OF assms(1)]
  have "d \<in> set (db_dispatches (reachable_db (before @ ops)))"
    using assms(2) d by (simp add: keeps_def reachable_db_def apply_ops_append)
  from find_by_key_Some [OF numbered_distinct [OF reachable_numbered] this] d
  show ?thesis by (simp add: get_dispatch_def)
qed

text \<open>
  A dispatch intent that was delivered or dead-lettered is final: no sequence of operations,
  with whatever tokens and times, changes its row again.
\<close>

theorem closed_intent_final:
  assumes "get_dispatch i (reachable_db before) = Some d" and "pd_Status d \<noteq> Dispatch_Pending"
  shows "get_dispatch i (reachable_db (before @ ops)) = Some d"
proof (rule get_dispatch_kept [OF assms(1) keeps_ops])
  show "guarded (\<lambda>db op. others_only d db op \<or> pd_Status d \<noteq> Dispatch_Pending) ops (reachable_db before)"
    using assms(2) by (simp add: guarded_True)
qed

text \<open>
  C30. A lease is exclusive until it expires: while nobody takes leases after its expiry and no
  acknowledgement of the intent carries its token, the intent keeps its token, its attempt count
  and its state through any operations, and an acknowledgement or a failure report under another
  token is refused as a conflict.
\<close>

theorem lease_exclusive:
  assumes d: "get_dispatch i (reachable_db before) = Some d" "pd_Status d = Dispatch_Pending"
    and others: "guarded (others_only d) ops (reachable_db before)"
    and i: "i \<noteq> 0" and tok: "trim_space tok \<noteq> pd_LeaseToken d" "trim_space tok \<noteq> ''''"
  shows "get_dispatch i (reachable_db (before @ ops)) = Some d \<and>
    mark_dispatch_delivered i tok now (reachable_db (before @ ops)) = Inl Dispatch_Conflict \<and>
    mark_dispatch_failed i tok msg now p (reachable_db (before @ ops)) = Inl Dispatch_Conflict"
proof -
  have "guarded (\<lambda>db op. others_only d db op \<or> pd_Status d \<noteq> Dispatch_Pending) ops (reachable_db before)"
    using others by (simp add: d(2))
  from get_dispatch_kept [OF d(1) keeps_ops [OF this]]
  have kept: "get_dispatch i (reachable_db (before @ ops)) = Some d" .
  have free: "\<not> held_by i (trim_space tok) x" if x: "x \<in> set (db_dispatches (reachable_db (before @ ops)))" for x
  proof
    assume h: "held_by i (trim_space tok) x"
    from find_by_key_Some [OF numbered_distinct [OF reachable_numbered] x] h kept have "x = d"
      by (simp add: held_by_def get_dispatch_def)
    with h tok(1) show False by (simp add: held_by_def)
  qed
  then have "\<not> list_ex (held_by i (trim_space tok)) (db_dispatches (reachable_db (before @ ops)))"
    "find (held_by i (trim_space tok)) (db_dispatches (reachable_db (before @ ops))) = None"
    by (auto simp: list_ex_iff find_None_iff)
  with kept d(2) i tok(2) show ?thesis
    by (simp add: mark_dispatch_delivered_def mark_dispatch_failed_def Let_def)
qed

section \<open>Backoff\<close>

lemma retry_loop_min:
  assumes "most < 2 ^ 63" and "0 < delay" "delay \<le> most"
  shows "retry_loop most left delay = min most (delay * 2 ^ left)"
  using assms(2,3)
proof (induction left arbitrary: delay)
  case (Suc left)
  show ?case
  proof (cases "delay < most \<and> \<not> most div 2 < delay")
    case True
    then have le: "delay * 2 \<le> most" by presburger
    then have "wrap64 (delay * 2) = delay * 2" using assms(1) Suc.prems by (simp add: wrap64_id)
    with True Suc.IH [of "delay * 2"] le Suc.prems show ?thesis by (simp add: mult.assoc)
  next
    case False
    then have "delay = most \<or> most < delay * 2" using Suc.prems by linarith
    moreover have "(1::int) \<le> 2 ^ left" by simp
    then have "delay * 2 \<le> delay * 2 ^ Suc left" using Suc.prems(1) by simp
    ultimately have "most \<le> delay * 2 ^ Suc left" using Suc.prems(1) by linarith
    with False Suc.prems show ?thesis by auto
  qed
qed simp

text \<open>
  The delay before attempt \<open>n + 1\<close> is the base doubled \<open>n - 1\<close> times and cut at the maximum,
  for every retry policy of 64-bit durations: the doubling never wraps around, whatever the
  number of attempts, and the delay is never less than the base nor more than the maximum.
\<close>

theorem retry_delay_closed_form:
  assumes "rt_BaseDelay p < 2 ^ 63" "rt_MaxDelay p < 2 ^ 63" and "1 \<le> attempts"
  defines "q \<equiv> normalize_retry_policy p"
  shows "dispatch_retry_delay q attempts = min (rt_MaxDelay q) (rt_BaseDelay q * 2 ^ nat (attempts - 1)) \<and>
    rt_BaseDelay q \<le> dispatch_retry_delay q attempts \<and> dispatch_retry_delay q attempts \<le> rt_MaxDelay q"
proof -
  have q: "0 < rt_BaseDelay q" "rt_BaseDelay q \<le> rt_MaxDelay q" "rt_MaxDelay q < 2 ^ 63"
    using assms(1,2) by (auto simp: q_def normalize_retry_policy_def Let_def second_def minute_def)
  have form: "dispatch_retry_delay q attempts = min (rt_MaxDelay q) (rt_BaseDelay q * 2 ^ nat (attempts - 1))"
    using retry_loop_min [OF q(3,1,2)] by (simp add: dispatch_retry_delay_def)
  have "rt_BaseDelay q * 1 \<le> rt_BaseDelay q * 2 ^ nat (attempts - 1)"
    by (rule mult_left_mono) (use q in simp_all)
  with form q show ?thesis by simp
qed

section \<open>A resumed run\<close>

lemma find_map_where:
  assumes "\<And>x. k (f x) = k x"
  shows "find (\<lambda>x. k x = i) (map_where P f xs) = map_option (\<lambda>x. if P x then f x else x) (find (\<lambda>x. k x = i) xs)"
  by (induction xs) (auto simp: map_where_def assms)

lemma length_filter_map_one:
  assumes "distinct xs" and "r \<in> set xs" and "\<And>x. x \<in> set xs \<Longrightarrow> P x \<longleftrightarrow> x = r" and "Q (f r)" "\<not> Q r"
  shows "length (filter Q (map_where P f xs)) = length (filter Q xs) + 1"
proof -
  obtain ys zs where xs: "xs = ys @ r # zs" using assms(2) by (auto dest: split_list)
  then have out: "r \<notin> set ys" "r \<notin> set zs" using assms(1) by auto
  have no: "\<not> P x" if "x \<in> set ys \<union> set zs" for x
  proof -
    have "x \<in> set xs" "x \<noteq> r" using that out by (auto simp: xs)
    then show ?thesis using assms(3) by blast
  qed
  have "map (\<lambda>x. if P x then f x else x) ys = ys" "map (\<lambda>x. if P x then f x else x) zs = zs"
    by (rule map_idI, simp add: no)+
  moreover have "P r" using assms(2,3) by blast
  ultimately have "map_where P f xs = ys @ f r # zs" by (simp add: xs map_where_def)
  then show ?thesis using assms(4,5) by (simp add: xs)
qed

lemma transition_backlog_at:
  assumes "transition_backlog i v s t now db = Inr (b, db')"
  shows "bi_State b = t" and "backlog_get i db' = Some b"
proof -
  define P :: "backlog_item \<Rightarrow> bool" where "P = (\<lambda>b. bi_ID b = i \<and> bi_ClaimVersion b = v \<and> bi_State b = s \<and>
      bi_State b \<noteq> t \<and> bi_Revision b < max_int64)"
  define f where "f = (\<lambda>b::backlog_item. b\<lparr>bi_State := t, bi_Revision := bi_Revision b + 1, bi_UpdatedAt := now\<rparr>)"
  have "bi_ID (f x) = bi_ID x" for x by (simp add: f_def)
  then have get: "backlog_get i (update_backlog P f db) = map_option (\<lambda>x. if P x then f x else x) (backlog_get i db)"
    unfolding backlog_get_def db_fields_update by (rule find_map_where)
  from assms have "(case backlog_get i db of None \<Rightarrow> False
      | Some b0 \<Rightarrow> (P b0 \<and> db' = update_backlog P f db \<and> backlog_get i db' = Some b) \<or>
          (bi_State b0 = t \<and> b = b0 \<and> db' = db))"
    unfolding transition_backlog_def Let_def P_def f_def by (auto split: option.splits if_splits)
  with get show "bi_State b = t" "backlog_get i db' = Some b"
    by (auto simp: f_def split: option.splits)
qed

lemma resumed:
  assumes ok: "resume_paused_run_with_backlog now r (Some s) db = Inr (new, db')"
    and dbok: "db_ok db" and stored: "get_run (pr_ID r) db = Some r"
  obtains b where "db_ok db'" "new = r\<lparr>pr_State := Run_Queued, pr_EndedAt := None, pr_Revision := pr_Revision r + 1\<rparr>"
    "get_run (pr_ID r) db' = Some new" "backlog_get (pr_BacklogID r) db' = Some b" "bi_State b = Backlog_Queued"
    "new \<in> set (active_runs db')" "count_active db' = count_active db + 1" "db_dispatches db' = db_dispatches db"
proof -
  define P :: "pipeline_run \<Rightarrow> bool" where "P = (\<lambda>x. pr_ID x = pr_ID r \<and> pr_AggregateVersion x = pr_AggregateVersion r \<and>
      pr_Revision x = pr_Revision r \<and> pr_State x = Run_Paused)"
  define f :: "pipeline_run \<Rightarrow> pipeline_run" where
    "f = (\<lambda>x. x\<lparr>pr_State := Run_Queued, pr_EndedAt := None, pr_Revision := pr_Revision x + 1\<rparr>)"
  define db1 where "db1 = update_runs P f db"
  have new: "new = f r" using ok by (auto simp: resume_paused_run_with_backlog_def Let_def bind_db_Inr f_def split: if_splits)
  from resume_Inr [OF ok, unfolded Let_def, folded P_def f_def] obtain b db2 Q g where
    ex: "list_ex P (db_runs db)" and
    tr: "transition_backlog (pr_BacklogID r) (pr_AggregateVersion r) s Backlog_Queued now db1 = Inr (b, db2)"
    and db': "db' = update_workflows Q g db2" unfolding db1_def by blast
  note r = get_run_Some [OF stored]
  from ex have "P r" using unique_run [OF dbok stored] by (auto simp: list_ex_iff P_def)
  have only: "P x \<longleftrightarrow> x = r" if "x \<in> set (db_runs db)" for x
    using unique_run [OF dbok stored that] \<open>P r\<close> by (auto simp: P_def)
  have runs: "db_runs db' = map_where P f (db_runs db)"
    using transition_backlog_runs [OF tr] by (simp add: db' db1_def)
  have in_runs: "new \<in> set (db_runs db')" using r \<open>P r\<close> by (auto simp: runs in_map_where new intro!: bexI [of _ r])
  have keys: "distinct (map pr_ID (db_runs db'))"
    unfolding runs using dbok by (subst map_where_key) (simp_all add: f_def db_ok_def)
  have id: "pr_ID new = pr_ID r" "pr_State new = Run_Queued" "pr_Attempts new = pr_Attempts r" "pr_BacklogID new = pr_BacklogID r"
    by (simp_all add: new f_def)
  have got: "get_run (pr_ID r) db' = Some new"
    using find_by_key_Some [OF keys in_runs] by (simp add: get_run_def id)
  have queued: "bi_State b = Backlog_Queued" and item: "backlog_get (pr_BacklogID r) db' = Some b"
    using transition_backlog_at [OF tr] by (simp_all add: db' backlog_get_def)
  have active: "new \<in> set (active_runs db')"
    using in_runs by (simp add: active_runs_def is_active_def id)
  have count: "count_active db' = count_active db + 1"
  proof -
    have "distinct (db_runs db)" using dbok by (auto simp: db_ok_def distinct_map)
    then have "length (filter is_active (map_where P f (db_runs db))) = length (filter is_active (db_runs db)) + 1"
      by (rule length_filter_map_one [OF _ r [THEN conjunct1] only])
        (use \<open>P r\<close> in \<open>simp_all add: is_active_def f_def P_def is_pipeline_terminal_state_def\<close>)
    then show ?thesis by (simp add: count_active_def active_runs_def runs)
  qed
  have "db_ok (apply_op (Resume now r (Some s)) db)" by (rule db_ok_step [OF dbok step_op [OF dbok]])
  then have dbok': "db_ok db'" using ok by (simp add: after_def)
  have disp: "db_dispatches db' = db_dispatches db"
    using transition_backlog_dispatches [OF tr] by (simp add: db' db1_def)
  show thesis by (rule that [OF dbok' new [unfolded f_def] got item queued active count disp])
qed

text \<open>
  C35. What resume does to a run whose intent was delivered: it reopens the run as queued and
  queues its item as well.  From then on the run is active, so it counts against the concurrency
  cap, but no recovery path offers it: it is not in flight (its item is not running), not a
  queued subrun, and its intent, being closed, is neither pending nor ready at any time.
\<close>

theorem resume_strands_run:
  assumes ok: "resume_paused_run_with_backlog now r (Some s) (reachable_db ops) = Inr (new, db')"
    and stored: "get_run (pr_ID r) (reachable_db ops) = Some r" "pr_Attempts r \<noteq> 0"
    and delivered: "filter (\<lambda>d. pd_RunID d = pr_ID r \<and> pd_Status d = Dispatch_Pending) (db_dispatches (reachable_db ops)) = []"
  shows "get_run (pr_ID r) db' = Some new \<and> pr_State new = Run_Queued \<and>
    map_option bi_State (backlog_get (pr_BacklogID r) db') = Some Backlog_Queued \<and>
    new \<in> set (active_runs db') \<and> count_active db' = count_active (reachable_db ops) + 1 \<and>
    new \<notin> set (list_in_flight db') \<and> new \<notin> set (list_queued_subruns db') \<and>
    filter (\<lambda>d. pd_RunID d = pr_ID new) (list_pending_dispatches limit db') = [] \<and>
    filter (\<lambda>d. pd_RunID d = pr_ID new) (fst (claim_pending_dispatches pre limit later len db')) = []"
proof -
  from resumed [OF ok reachable_ok stored(1)] obtain b where dbok: "db_ok db'"
    and new: "new = r\<lparr>pr_State := Run_Queued, pr_EndedAt := None, pr_Revision := pr_Revision r + 1\<rparr>"
    and got: "get_run (pr_ID r) db' = Some new" and item: "backlog_get (pr_BacklogID r) db' = Some b" "bi_State b = Backlog_Queued"
    and active: "new \<in> set (active_runs db')" "count_active db' = count_active (reachable_db ops) + 1"
    and disp: "db_dispatches db' = db_dispatches (reachable_db ops)" .
  have id: "pr_ID new = pr_ID r" "pr_State new = Run_Queued" "pr_Attempts new = pr_Attempts r" "pr_BacklogID new = pr_BacklogID r"
    by (simp_all add: new)
  have flight: "new \<notin> set (list_in_flight db')"
    using unique_item [OF dbok item(1)] item(2) by (auto simp: list_in_flight_def recoverable_def list_ex_iff id)
  have none: "pd_RunID x = pr_ID r \<Longrightarrow> x \<in> set (db_dispatches db') \<Longrightarrow> pd_Status x \<noteq> Dispatch_Pending" for x
    using delivered by (auto simp: disp filter_empty_conv)
  have "pd_RunID x \<noteq> pr_ID r" if "x \<in> set (list_pending_dispatches limit db')" for x
    using that none [of x] by (auto simp: list_pending_dispatches_def dest!: in_set_takeD)
  moreover have "pd_RunID x \<noteq> pr_ID r" if "x \<in> set (fst (claim_pending_dispatches pre limit later len db'))" for x
    using that none by (auto simp: claim_pending_dispatches_def Let_def ready_dispatch_def lease_def)
  ultimately show ?thesis
    using got id item active flight stored(2) by (simp add: list_queued_subruns_def filter_empty_conv)
qed

end
