(* ===== verification/Start_Fairness.thy ===== *)
theory Start_Fairness
  imports Start_Safety
begin

text \<open>
  The scope reservations never block each other for ever: of the queued items that hold one, the
  first in the order of precedence is refused by none of them, and a reservation keeps the items
  behind it waiting as long as its own start could be admitted.
\<close>

text \<open>The order of precedence is the lexicographic order of the keys.\<close>

lemma precedes_key:
  "scope_reservation_precedes a at b bt \<longleftrightarrow> reserver_key (a, at) < reserver_key (b, bt)"
  by (auto simp: scope_reservation_precedes_def reserver_key_def)

text \<open>The items that are queued and reserved, with the time of their reservation.\<close>

definition reserved_items :: "mills_db \<Rightarrow> reserver list" where
  "reserved_items db =
     List.map_filter (\<lambda>b. if bi_State b = Backlog_Queued then map_option (Pair b) (reserved_at db (bi_ID b)) else None)
       (db_backlog db)"

lemma in_map_filter: "y \<in> set (List.map_filter g xs) \<longleftrightarrow> (\<exists>x \<in> set xs. g x = Some y)"
  by (force simp: List.map_filter_def)

lemma in_reserved_items:
  "(b, t) \<in> set (reserved_items db) \<longleftrightarrow>
     b \<in> set (db_backlog db) \<and> bi_State b = Backlog_Queued \<and> reserved_at db (bi_ID b) = Some t"
  by (auto simp: reserved_items_def in_map_filter split: if_splits)

lemma in_reservers:
  "(b, t) \<in> set (reservers i db) \<longleftrightarrow> (b, t) \<in> set (reserved_items db) \<and> bi_ID b \<noteq> i"
  by (auto simp: reservers_def in_map_filter in_reserved_items split: if_splits)

lemma first_reserver:
  assumes ok: "db_ok db" and first: "(b, t) \<in> set (reserved_items db)"
    and least: "\<And>r. r \<in> set (reserved_items db) \<Longrightarrow> reserver_key (b, t) \<le> reserver_key r"
  shows "find_reservation_conflict rq db b = None"
proof -
  note b = first [unfolded in_reserved_items]
  have "\<not> reservation_blocks rq db b (c, u)" if c: "(c, u) \<in> set (reservers (bi_ID b) db)" for c u
  proof -
    from c have "(c, u) \<in> set (reserved_items db)" "bi_ID c \<noteq> bi_ID b" by (simp_all add: in_reservers)
    with least [of "(c, u)"] have "reserver_key (b, t) < reserver_key (c, u)"
      by (auto simp: reserver_key_def less_le)
    then have "scope_reservation_precedes b t c u" by (simp add: precedes_key)
    with b show ?thesis by (simp add: reservation_blocks_def)
  qed
  then have "find (reservation_blocks rq db b) (reservers (bi_ID b) db) = None"
    by (auto simp: find_None_iff)
  then show ?thesis by (simp add: find_reservation_conflict_def)
qed

text \<open>
  C31. Reservations cannot deadlock the queue: whenever some queued item holds a scope reservation,
  one of the items that hold one is refused by no reservation, whatever the policy, the budgets of
  the repositories and the deployments are; it is the least one in the order of precedence.
\<close>

theorem some_reserver_passes:
  assumes "reserved_items (reachable_db ops) \<noteq> []"
  shows "list_ex (\<lambda>(b, t). find_reservation_conflict rq (reachable_db ops) b = None \<and>
    list_all (\<lambda>(c, u). c = b \<or> scope_reservation_precedes b t c u) (reserved_items (reachable_db ops)))
    (reserved_items (reachable_db ops))"
proof -
  let ?db = "reachable_db ops"
  let ?rs = "set (reserved_items ?db)"
  have "finite (reserver_key ` ?rs)" "reserver_key ` ?rs \<noteq> {}" using assms by simp_all
  then obtain r where r: "r \<in> ?rs" "reserver_key r = Min (reserver_key ` ?rs)"
    using Min_in by (metis imageE)
  obtain b t where bt: "r = (b, t)" by (cases r)
  have least: "reserver_key (b, t) \<le> reserver_key x" if "x \<in> ?rs" for x
    using that r(2) by (simp add: bt)
  have "c = b \<or> scope_reservation_precedes b t c u" if cu: "(c, u) \<in> ?rs" for c u
  proof (cases "bi_ID c = bi_ID b")
    case True
    have "distinct (map bi_ID (db_backlog ?db))" using reachable_ok [of ops] by (simp add: db_ok_def)
    with True cu r(1) show ?thesis by (auto simp: bt in_reserved_items distinct_map dest: inj_onD)
  next
    case False
    with least [OF cu] show ?thesis by (auto simp: precedes_key reserver_key_def less_le)
  qed
  moreover have "find_reservation_conflict rq ?db b = None"
    by (rule first_reserver [OF reachable_ok]) (use r(1) least in \<open>auto simp: bt\<close>)
  ultimately show ?thesis
    using r(1) unfolding bt list_ex_iff list_all_iff by (intro bexI [of _ "(b, t)"]) auto
qed

end
