(* ===== verification/Start_Witness.thy ===== *)
theory Start_Witness
  imports Start_Limits Start_Outbox Start_Fairness
begin

text \<open>
  The properties of the start store at concrete histories: two items, their claims, and what
  follows a start.
\<close>

definition sample_item :: "string \<Rightarrow> string \<Rightarrow> backlog_item" where
  "sample_item i file =
     \<lparr>bi_ID = i, bi_State = Backlog_Queued, bi_ClaimVersion = 0, bi_Revision = 0, bi_Priority = ''P1'',
      bi_RequireHumanReview = False, bi_Slices = [\<lparr>sl_Name = ''s'', sl_Files = [file], sl_Tests = []\<rparr>],
      bi_Dependencies = [], bi_TargetProject = [], bi_CreatedAt = 1, bi_UpdatedAt = 1\<rparr>"

definition sample_request :: "string \<Rightarrow> start_request" where
  "sample_request i =
     \<lparr>rq_BacklogID = i, rq_ExpectedClaimVersion = 0, rq_ExpectedRevision = 1, rq_SerializeOverlappingScopes = True,
      rq_EnforceScopeReservations = True, rq_ReservationPolicy = None, rq_Undeployed = (\<lambda>_. None),
      rq_HomeProject = ''o/r'', rq_Template = ''t'', rq_EstimateUSD = 5,
      rq_Limits = \<lparr>li_MaxUSDPerRun = 10, li_MaxUSDPerDay = 100, li_MaxRunsPerDay = 3, li_MaxConcurrentRuns = 2\<rparr>,
      rq_RunID = [], rq_FreshID = ''1'', rq_ParentSessionID = [], rq_Now = 5\<rparr>"

text \<open>Two items with no file in common, the start of the first, its delivery, pause and end.\<close>

definition sample_items :: "start_op list" where
  "sample_items = [Put_Item 2 (sample_item ''a'' ''p/x''), Put_Item 3 (sample_item ''b'' ''q/y'')]"

definition sample_start :: "start_op list" where
  "sample_start = sample_items @ [Claim (sample_request ''a'')]"

definition sample_leased :: "start_op list" where
  "sample_leased = sample_start @ [Lease_One ''t'' 1 6 60]"

definition sample_delivered :: "start_op list" where
  "sample_delivered = sample_leased @ [Deliver 1 ''t-1'' 7]"

definition sample_run :: pipeline_run where
  "sample_run = start_run (sample_request ''a'') ''PIPE-a-1'' 1 1"

definition sample_ended :: "start_op list" where
  "sample_ended = sample_delivered @ [Put_Run 9 (sample_run\<lparr>pr_State := Run_Done\<rparr>)]"

definition sample_paused :: "start_op list" where
  "sample_paused = sample_delivered @ [Pause 9 sample_run Backlog_Running]"

lemma sample_claimed:
  "case claim_pipeline_start (sample_request ''a'') (reachable_db sample_items) of Inl _ \<Rightarrow> False | Inr (out, db) \<Rightarrow> True"
  by code_simp

theorem start_claimed_once_witness:
  "\<exists>out db e. claim_pipeline_start (sample_request ''a'') (reachable_db sample_items) = Inr (out, db) \<and>
     claim_pipeline_start (sample_request '' a'') (apply_ops [Claim (sample_request ''b''), Release ''PIPE-a-1'' 8] db) = Inl e"
proof -
  from sample_claimed obtain out db where
    won: "claim_pipeline_start (sample_request ''a'') (reachable_db sample_items) = Inr (out, db)"
    by (auto split: sum.splits)
  have "\<exists>e. claim_pipeline_start (sample_request '' a'')
      (apply_ops [Claim (sample_request ''b''), Release ''PIPE-a-1'' 8] db) = Inl e"
  proof (rule start_claimed_once [OF won])
    show "trim_space (rq_BacklogID (sample_request '' a'')) = trim_space (rq_BacklogID (sample_request ''a''))"
      by code_simp
    show "rq_ExpectedClaimVersion (sample_request '' a'') \<le> rq_ExpectedClaimVersion (sample_request ''a'')"
      by code_simp
  qed
  with won show ?thesis by blast
qed


lemma sample_ended_run:
  "case get_run ''PIPE-a-1'' (reachable_db sample_ended) of None \<Rightarrow> False | Some r \<Rightarrow> pr_State r = Run_Done"
  by code_simp

theorem ended_run_stays_witness:
  "\<exists>r'. get_run ''PIPE-a-1'' (reachable_db (sample_ended @ [Claim (sample_request ''b'')])) = Some r' \<and>
     pr_State r' = Run_Done \<and>
     filter (\<lambda>v. rv_RunID v = ''PIPE-a-1'' \<and> rv_Active v)
       (db_reservations (reachable_db (sample_ended @ [Claim (sample_request ''b'')]))) = []"
proof -
  from sample_ended_run obtain r where r: "get_run ''PIPE-a-1'' (reachable_db sample_ended) = Some r"
    and st: "pr_State r = Run_Done" by (auto split: option.splits)
  have "is_pipeline_terminal_state (pr_State r)" using st by (simp add: is_pipeline_terminal_state_def)
  moreover have "list_all (\<lambda>op. \<not> is_resume op) [Claim (sample_request ''b'')]" by (simp add: is_resume_def)
  ultimately show ?thesis using ended_run_stays [OF r, of "[Claim (sample_request ''b'')]"] st by auto
qed


theorem active_runs_capped_witness:
  "guarded (capped 2) (sample_start @ [Claim (sample_request ''b'')]) empty_db \<and>
   count_active (reachable_db (sample_start @ [Claim (sample_request ''b'')])) \<le> 2"
proof -
  have g: "guarded (capped 2) (sample_start @ [Claim (sample_request ''b'')]) empty_db" by code_simp
  with active_runs_capped [OF g] show ?thesis by simp
qed

lemma sample_delivered_intent:
  "case get_dispatch 1 (reachable_db sample_delivered) of None \<Rightarrow> False | Some d \<Rightarrow> pd_Status d = Dispatch_Delivered"
  by code_simp

theorem closed_intent_final_witness:
  "\<exists>d. get_dispatch 1 (reachable_db sample_delivered) = Some d \<and>
     get_dispatch 1 (reachable_db (sample_delivered @ [Lease_Batch ''u'' 10 99 60, Deliver 1 ''u-1'' 100])) = Some d"
proof -
  from sample_delivered_intent obtain d where d: "get_dispatch 1 (reachable_db sample_delivered) = Some d"
    and "pd_Status d = Dispatch_Delivered" by (auto split: option.splits)
  then have "pd_Status d \<noteq> Dispatch_Pending" by simp
  from closed_intent_final [OF d this] d show ?thesis by blast
qed

lemma sample_leased_intent:
  "case get_dispatch 1 (reachable_db sample_leased) of None \<Rightarrow> False
   | Some d \<Rightarrow> pd_Status d = Dispatch_Pending \<and> pd_LeaseToken d = ''t-1'' \<and> pd_LeaseExpiresAt d = Some 66"
  by code_simp

theorem lease_exclusive_witness:
  "mark_dispatch_delivered 1 ''u-1'' 21 (reachable_db (sample_leased @ [Lease_Batch ''u'' 10 20 60])) = Inl Dispatch_Conflict"
proof -
  from sample_leased_intent obtain d where d: "get_dispatch 1 (reachable_db sample_leased) = Some d"
    "pd_Status d = Dispatch_Pending" "pd_LeaseToken d = ''t-1''" "pd_LeaseExpiresAt d = Some 66"
    by (auto split: option.splits)
  have g: "guarded (others_only d) [Lease_Batch ''u'' 10 20 60] (reachable_db sample_leased)"
    using d by (simp add: others_only_def leased_def)
  have t: "trim_space ''u-1'' = ''u-1''" by code_simp
  have "trim_space ''u-1'' \<noteq> pd_LeaseToken d" "trim_space ''u-1'' \<noteq> ''''" using d(3) by (simp_all add: t)
  from lease_exclusive [OF d(1,2) g _ this] show ?thesis by simp
qed

theorem retry_delay_closed_form_witness:
  "dispatch_retry_delay (normalize_retry_policy \<lparr>rt_BaseDelay = 3, rt_MaxDelay = 2 ^ 62, rt_MaxAttempts = 8\<rparr>) 70 = 2 ^ 62 \<and>
   dispatch_retry_delay (normalize_retry_policy \<lparr>rt_BaseDelay = 3, rt_MaxDelay = 2 ^ 62, rt_MaxAttempts = 8\<rparr>) 4 = 24"
  using retry_delay_closed_form [of "\<lparr>rt_BaseDelay = 3, rt_MaxDelay = 2 ^ 62, rt_MaxAttempts = 8\<rparr>" 70]
    retry_delay_closed_form [of "\<lparr>rt_BaseDelay = 3, rt_MaxDelay = 2 ^ 62, rt_MaxAttempts = 8\<rparr>" 4]
  by (simp add: normalize_retry_policy_def)

lemma sample_paused_run:
  "case get_run ''PIPE-a-1'' (reachable_db sample_paused) of None \<Rightarrow> False
   | Some r \<Rightarrow> pr_ID r = ''PIPE-a-1'' \<and> pr_Attempts r = 1 \<and>
       filter (\<lambda>d. pd_RunID d = pr_ID r \<and> pd_Status d = Dispatch_Pending) (db_dispatches (reachable_db sample_paused)) = [] \<and>
       (case resume_paused_run_with_backlog 12 r (Some Backlog_Paused) (reachable_db sample_paused) of
          Inl _ \<Rightarrow> False | Inr _ \<Rightarrow> True)"
  by code_simp

theorem resume_strands_run_witness:
  "\<exists>r new db. resume_paused_run_with_backlog 12 r (Some Backlog_Paused) (reachable_db sample_paused) = Inr (new, db) \<and>
     new \<in> set (active_runs db) \<and> new \<notin> set (list_in_flight db) \<and> new \<notin> set (list_queued_subruns db)"
proof -
  from sample_paused_run obtain r new db where r: "get_run ''PIPE-a-1'' (reachable_db sample_paused) = Some r"
      "pr_ID r = ''PIPE-a-1''" "pr_Attempts r = 1"
    and d: "filter (\<lambda>d. pd_RunID d = pr_ID r \<and> pd_Status d = Dispatch_Pending) (db_dispatches (reachable_db sample_paused)) = []"
    and resumed: "resume_paused_run_with_backlog 12 r (Some Backlog_Paused) (reachable_db sample_paused) = Inr (new, db)"
    by (auto split: option.splits sum.splits)
  have "get_run (pr_ID r) (reachable_db sample_paused) = Some r" "pr_Attempts r \<noteq> 0" using r by simp_all
  from resume_strands_run [OF resumed this d] resumed show ?thesis by blast
qed

theorem some_reserver_passes_witness:
  "reserved_items (reachable_db (sample_items @ [Defer ''b'' 4 1 60])) \<noteq> [] \<and>
   list_ex (\<lambda>(b, t). find_reservation_conflict (sample_request ''a'') (reachable_db (sample_items @ [Defer ''b'' 4 1 60])) b = None \<and>
     list_all (\<lambda>(c, u). c = b \<or> scope_reservation_precedes b t c u)
       (reserved_items (reachable_db (sample_items @ [Defer ''b'' 4 1 60]))))
     (reserved_items (reachable_db (sample_items @ [Defer ''b'' 4 1 60])))"
proof -
  have "reserved_items (reachable_db (sample_items @ [Defer ''b'' 4 1 60])) \<noteq> []" by code_simp
  from this some_reserver_passes [OF this] show ?thesis by blast
qed

end
