(* ===== verification/Runner_Stages.thy ===== *)
theory Runner_Stages
  imports Start_Safety
begin

text \<open>
  The vocabulary of the stage runner (\<^verbatim>\<open>pkg/mills/pipeline/runner.go\<close>, \<open>error_class.go\<close>): the stages
  of the pipeline, the classes of errors with their backoffs, what a worker returns, and the
  tables of stage results and gate outcomes with the questions the runner asks of them.
\<close>

section \<open>Stages\<close>

datatype stage_kind = Kind_LLM | Kind_Agent_Spawn | Kind_Shell | Kind_Auto_Gate

record stage =
  stg_ID :: string
  stg_Type :: stage_kind
  stg_State :: pipeline_state
  stg_Gates :: "string list"
  stg_RetryFrom :: string

definition worker_stage :: "string \<Rightarrow> stage_kind \<Rightarrow> pipeline_state \<Rightarrow> stage" where
  "worker_stage i k s = \<lparr>stg_ID = i, stg_Type = k, stg_State = s, stg_Gates = [], stg_RetryFrom = ''''\<rparr>"

definition gate_stage :: "string \<Rightarrow> pipeline_state \<Rightarrow> string \<Rightarrow> string list \<Rightarrow> stage" where
  "gate_stage i s from_stage gs =
     \<lparr>stg_ID = i, stg_Type = Kind_Auto_Gate, stg_State = s, stg_Gates = gs, stg_RetryFrom = from_stage\<rparr>"

definition default_stages :: "stage list" where
  "default_stages =
     [worker_stage ''plan_slice'' Kind_LLM Run_Planning,
      worker_stage ''research'' Kind_LLM Run_Planning,
      worker_stage ''implement'' Kind_Agent_Spawn Run_Implementing,
      gate_stage ''post_implement_gate'' Run_Implementing ''implement''
        [''nonempty_diff'', ''branch_pushed'', ''diff_size'', ''scope'', ''fabricated_slice'', ''path_policy'',
         ''secret_scan'', ''commit_format'', ''docs_guardrail''],
      worker_stage ''tests'' Kind_Shell Run_Testing,
      gate_stage ''post_tests_gate'' Run_Testing ''implement'' [''tests_verdict''],
      worker_stage ''pr_self_review'' Kind_Agent_Spawn Run_Reviewing,
      gate_stage ''post_review_gate'' Run_Reviewing ''pr_self_review''
        [''tested_head'', ''spec_conformance'', ''pr_self_review''],
      worker_stage ''mr'' Kind_Shell Run_MR,
      gate_stage ''post_mr_gate'' Run_MR ''mr'' [],
      worker_stage ''ci_watch'' Kind_Shell Run_CI,
      gate_stage ''post_ci_gate'' Run_CI ''implement'' [],
      worker_stage ''merge'' Kind_Shell Run_Merging,
      gate_stage ''post_merge_gate'' Run_Merging ''merge'' [],
      worker_stage ''cleanup'' Kind_Shell Run_Merging]"

fun index_of :: "stage list \<Rightarrow> string \<Rightarrow> nat option" where
  "index_of [] i = None"
| "index_of (s # ss) i = (if stg_ID s = i then Some 0 else map_option Suc (index_of ss i))"

text \<open>\<open>None\<close> is the error of a current stage that is not in the DAG.\<close>

definition resume_index :: "stage list \<Rightarrow> pipeline_run \<Rightarrow> nat option" where
  "resume_index ss run = (if pr_CurrentStage run = '''' then Some 0 else index_of ss (pr_CurrentStage run))"

definition without_gate :: "string \<Rightarrow> stage \<Rightarrow> stage" where
  "without_gate g s = s\<lparr>stg_Gates := filter (\<lambda>x. x \<noteq> g) (stg_Gates s)\<rparr>"

definition contains_gate :: "stage \<Rightarrow> string \<Rightarrow> bool" where
  "contains_gate s g = list_ex (\<lambda>x. x = g) (stg_Gates s)"

section \<open>Error classes and backoff\<close>

datatype error_class =
  Class_Substrate | Class_Transient | Class_Transient_Quota | Class_Infra | Class_Code | Class_Config

fun class_text :: "error_class \<Rightarrow> string" where
  "class_text Class_Substrate = ''substrate''"
| "class_text Class_Transient = ''transient''"
| "class_text Class_Transient_Quota = ''transient_quota''"
| "class_text Class_Infra = ''infra''"
| "class_text Class_Code = ''code''"
| "class_text Class_Config = ''config''"

definition is_free_retry :: "error_class \<Rightarrow> bool" where
  "is_free_retry c \<longleftrightarrow> c = Class_Transient \<or> c = Class_Transient_Quota"

definition is_terminal_class :: "error_class \<Rightarrow> bool" where
  "is_terminal_class c \<longleftrightarrow> c = Class_Config"

definition is_transient_escalation_class :: "error_class \<Rightarrow> bool" where
  "is_transient_escalation_class c \<longleftrightarrow> c = Class_Transient \<or> c = Class_Transient_Quota"

definition is_free_gate_rejudge_class :: "error_class \<Rightarrow> bool" where
  "is_free_gate_rejudge_class c \<longleftrightarrow> is_free_retry c \<or> c = Class_Infra"

datatype failure_class =
  Failure_Transient | Failure_Transient_Quota | Failure_Infrastructure | Failure_Configuration | Failure_Code

fun failure_class_of :: "error_class \<Rightarrow> failure_class" where
  "failure_class_of Class_Transient = Failure_Transient"
| "failure_class_of Class_Transient_Quota = Failure_Transient_Quota"
| "failure_class_of Class_Infra = Failure_Infrastructure"
| "failure_class_of Class_Substrate = Failure_Infrastructure"
| "failure_class_of Class_Config = Failure_Configuration"
| "failure_class_of Class_Code = Failure_Code"

definition failure_retryable :: "failure_class \<Rightarrow> bool" where
  "failure_retryable f \<longleftrightarrow>
     f = Failure_Transient \<or> f = Failure_Transient_Quota \<or> f = Failure_Infrastructure \<or> f = Failure_Code"

text \<open>\<open>2 ^ (attempt - 1)\<close> units, the exponent and then the delay capped.\<close>

definition capped_backoff :: "nat \<Rightarrow> duration \<Rightarrow> duration \<Rightarrow> int \<Rightarrow> duration" where
  "capped_backoff max_shift unit limit attempt =
     (let a = (if attempt < 1 then 1 else attempt);
          shift = (if int max_shift < a - 1 then max_shift else nat (a - 1));
          d = 2 ^ shift * unit
      in if limit < d then limit else d)"

definition quota_backoff :: "int \<Rightarrow> duration" where
  "quota_backoff = capped_backoff 5 second (32 * second)"

definition saturation_backoff :: "int \<Rightarrow> duration" where
  "saturation_backoff = capped_backoff 3 minute (5 * minute)"

definition auth_outage_backoff :: "int \<Rightarrow> duration" where
  "auth_outage_backoff = capped_backoff 2 minute (4 * minute)"

definition identity_conflict_backoff :: "int \<Rightarrow> duration" where
  "identity_conflict_backoff = capped_backoff 1 (30 * second) (60 * second)"

definition devbox_quota_backoff :: "int \<Rightarrow> duration" where
  "devbox_quota_backoff = saturation_backoff"

definition devbox_quota_refusal_text :: "string \<Rightarrow> bool" where
  "devbox_quota_refusal_text msg =
     (let l = to_lower msg in
      contains l ''exceeded quota'' \<and>
      (contains l ''exceeded quota: devbox-quota'' \<or>
       contains l ''pods \"devbox-'' \<and> contains l ''is forbidden''))"

definition hub_unavailable :: "string \<Rightarrow> bool" where
  "hub_unavailable s =
     (let l = to_lower s in
      list_ex (contains l) [''mcp_hub_session'', ''mcphub'', ''mcp hub'', ''mcp-hub'', ''hub session''] \<and>
      list_ex (contains l) [''unavailable'', ''connection refused'', ''connection reset'', ''transport closed'',
        ''broken pipe''])"

definition spawn_saturated :: "string \<Rightarrow> bool" where
  "spawn_saturated msg = contains (to_lower msg) ''concurrent spawns''"

datatype spawn_reason = Reason_Auth_Missing | Reason_Identity_Conflict | Reason_Other string

definition retry_backoff :: "error_class \<Rightarrow> spawn_reason option \<Rightarrow> string \<Rightarrow> int \<Rightarrow> duration" where
  "retry_backoff cls reason msg attempt =
     (if cls = Class_Substrate then quota_backoff attempt * 10
      else if reason = Some Reason_Auth_Missing then auth_outage_backoff attempt
      else if reason = Some Reason_Identity_Conflict then identity_conflict_backoff attempt
      else if devbox_quota_refusal_text msg then devbox_quota_backoff attempt
      else if cls \<noteq> Class_Transient_Quota then 0
      else if spawn_saturated msg then saturation_backoff attempt
      else quota_backoff attempt)"

text \<open>
  The streak of identical failures of a stage; \<open>sig\<close> is the normalised evidence, the normaliser
  an argument.
\<close>

definition consecutive_failure ::
  "(string \<Rightarrow> string) \<Rightarrow> (string \<Rightarrow> string option) \<Rightarrow> string \<Rightarrow> error_class \<Rightarrow> string \<Rightarrow>
   (string \<Rightarrow> string option) \<times> bool" where
  "consecutive_failure tokens streaks st cls evidence =
     (let sig = tokens evidence in
      if is_free_retry cls \<or> cls = Class_Substrate \<or> sig = '''' \<or> devbox_quota_refusal_text evidence
      then (streaks(st := None), False)
      else (let key = class_text cls @ '':'' @ sig in (streaks(st \<mapsto> key), streaks st = Some key)))"

section \<open>Worker output\<close>

datatype artifact =
  A_Bool bool | A_Text string | A_Num int | A_List "artifact list" | A_Map "(string \<times> artifact) list"

type_synonym artifacts = "string \<Rightarrow> artifact option"

record stage_output =
  so_CostUSD :: int
  so_SpawnID :: string
  so_LogTail :: string
  so_Artifacts :: "artifacts option"
  so_FilesChanged :: "string list"
  so_LinesAdded :: int
  so_LinesRemoved :: int
  so_DiffPatch :: string
  so_CommitMessages :: "string list"
  so_MRIID :: int
  so_WorktreePath :: string
  so_MergedSHA :: string
  so_Model :: string
  so_Backend :: string
  so_Billing :: string

definition no_output :: stage_output where
  "no_output = \<lparr>so_CostUSD = 0, so_SpawnID = '''', so_LogTail = '''', so_Artifacts = None, so_FilesChanged = [],
     so_LinesAdded = 0, so_LinesRemoved = 0, so_DiffPatch = '''', so_CommitMessages = [], so_MRIID = 0,
     so_WorktreePath = '''', so_MergedSHA = '''', so_Model = '''', so_Backend = '''', so_Billing = ''''\<rparr>"

definition artifact_of :: "stage_output \<Rightarrow> string \<Rightarrow> artifact option" where
  "artifact_of out k = (case so_Artifacts out of None \<Rightarrow> None | Some m \<Rightarrow> m k)"

definition set_artifact :: "string \<Rightarrow> artifact \<Rightarrow> stage_output \<Rightarrow> stage_output" where
  "set_artifact k v out =
     out\<lparr>so_Artifacts := Some ((case so_Artifacts out of None \<Rightarrow> Map.empty | Some m \<Rightarrow> m)(k \<mapsto> v))\<rparr>"

fun text_of :: "artifact option \<Rightarrow> string" where
  "text_of (Some (A_Text s)) = s"
| "text_of _ = ''''"

fun num_of :: "artifact option \<Rightarrow> int" where
  "num_of (Some (A_Num n)) = n"
| "num_of _ = 0"

fun map_of_artifact :: "artifact option \<Rightarrow> artifacts" where
  "map_of_artifact (Some (A_Map kvs)) = map_of kvs"
| "map_of_artifact _ = Map.empty"

fun texts_of :: "artifact option \<Rightarrow> string list" where
  "texts_of (Some (A_List xs)) = List.map_filter (\<lambda>x. case x of A_Text s \<Rightarrow> Some s | _ \<Rightarrow> None) xs"
| "texts_of _ = []"

definition has_diff_evidence :: "stage_output \<Rightarrow> bool" where
  "has_diff_evidence out \<longleftrightarrow> so_FilesChanged out \<noteq> [] \<or> so_DiffPatch out \<noteq> ''''"

definition carry_forward_diff :: "stage_output \<Rightarrow> stage_output \<Rightarrow> stage_output \<times> bool" where
  "carry_forward_diff old new =
     (if has_diff_evidence new \<or> \<not> has_diff_evidence old then (new, False)
      else (new\<lparr>so_FilesChanged := so_FilesChanged old, so_LinesAdded := so_LinesAdded old,
              so_LinesRemoved := so_LinesRemoved old, so_DiffPatch := so_DiffPatch old,
              so_CommitMessages := so_CommitMessages old\<rparr>, True))"

definition has_terminal_spawn_status :: "stage_output \<Rightarrow> bool" where
  "has_terminal_spawn_status out \<longleftrightarrow>
     text_of (artifact_of out ''status'') \<in> {''completed'', ''failed'', ''stopped''}"

text \<open>The map a stage result keeps of an output.\<close>

definition merge_artifacts :: "string \<Rightarrow> stage_output \<Rightarrow> artifacts" where
  "merge_artifacts stage_id out =
     (let put = (\<lambda>c k v m. if c then m(k \<mapsto> v) else m);
          m0 = (case so_Artifacts out of None \<Rightarrow> Map.empty | Some m \<Rightarrow> m);
          m1 = put (so_FilesChanged out \<noteq> []) ''files_changed'' (A_List (map A_Text (so_FilesChanged out))) m0;
          m2 = put (so_LinesAdded out \<noteq> 0) ''lines_added'' (A_Num (so_LinesAdded out)) m1;
          m3 = put (so_LinesRemoved out \<noteq> 0) ''lines_removed'' (A_Num (so_LinesRemoved out)) m2;
          m4 = put (so_DiffPatch out \<noteq> '''') ''diff_patch'' (A_Text (so_DiffPatch out)) m3;
          m5 = put (so_CommitMessages out \<noteq> []) ''commit_messages''
                 (A_List (map A_Text (so_CommitMessages out))) m4;
          m6 = put (so_MRIID out \<noteq> 0) ''mr_iid'' (A_Num (so_MRIID out)) m5;
          m7 = put (so_MergedSHA out \<noteq> '''') ''merged_sha'' (A_Text (so_MergedSHA out)) m6;
          m8 = put (so_WorktreePath out \<noteq> '''') ''worktree_path'' (A_Text (so_WorktreePath out)) m7
      in m8(''stage_id'' \<mapsto> A_Text stage_id))"

section \<open>Stage results\<close>

datatype stage_outcome = Outcome_Success | Outcome_Gate_Fail | Outcome_Error

record stage_row =
  sg_ID :: nat
  sg_RunID :: string
  sg_Stage :: string
  sg_Attempt :: int
  sg_StartedAt :: time
  sg_EndedAt :: "time option"
  sg_Outcome :: "stage_outcome option"
  sg_SpawnID :: string
  sg_CostUSD :: int
  sg_Model :: string
  sg_Backend :: string
  sg_Billing :: string
  sg_Artifacts :: artifacts
  sg_LogTail :: string

definition new_row :: "string \<Rightarrow> string \<Rightarrow> int \<Rightarrow> time \<Rightarrow> stage_row" where
  "new_row run st attempt started =
     \<lparr>sg_ID = 0, sg_RunID = run, sg_Stage = st, sg_Attempt = attempt, sg_StartedAt = started, sg_EndedAt = None,
      sg_Outcome = None, sg_SpawnID = '''', sg_CostUSD = 0, sg_Model = '''', sg_Backend = '''', sg_Billing = '''',
      sg_Artifacts = Map.empty, sg_LogTail = ''''\<rparr>"

datatype stage_error = Stage_Invalid | Stage_Spawn_Conflict

definition same_attempt :: "stage_row \<Rightarrow> stage_row \<Rightarrow> bool" where
  "same_attempt a b \<longleftrightarrow> sg_RunID a = sg_RunID b \<and> sg_Stage a = sg_Stage b \<and> sg_Attempt a = sg_Attempt b"

text \<open>\<open>ON CONFLICT DO UPDATE\<close>: the start time of the old row stays, and what the new one leaves empty.\<close>

definition merged_stage :: "stage_row \<Rightarrow> stage_row \<Rightarrow> stage_row" where
  "merged_stage new old =
     old\<lparr>sg_EndedAt := sg_EndedAt new, sg_Outcome := sg_Outcome new,
       sg_SpawnID := kept_text (sg_SpawnID new) (sg_SpawnID old), sg_CostUSD := sg_CostUSD new,
       sg_Model := kept_text (sg_Model new) (sg_Model old),
       sg_Backend := kept_text (sg_Backend new) (sg_Backend old),
       sg_Billing := kept_text (sg_Billing new) (sg_Billing old),
       sg_Artifacts := sg_Artifacts new, sg_LogTail := sg_LogTail new\<rparr>"

definition put_stage :: "time \<Rightarrow> stage_row \<Rightarrow> stage_row list \<Rightarrow> stage_error + stage_row list" where
  "put_stage now r0 rows =
     (if sg_RunID r0 = '''' \<or> sg_Stage r0 = '''' then Inl Stage_Invalid
      else
        (let r = (if sg_StartedAt r0 = zero_time then r0\<lparr>sg_StartedAt := now\<rparr> else r0) in
         if sg_SpawnID r \<noteq> '''' \<and>
            list_ex (\<lambda>x. same_attempt r x \<and> sg_Outcome x = None \<and> sg_SpawnID x \<noteq> '''' \<and>
              sg_SpawnID x \<noteq> sg_SpawnID r) rows
         then Inl Stage_Spawn_Conflict
         else if list_ex (same_attempt r) rows then Inr (map_where (same_attempt r) (merged_stage r) rows)
         else Inr (rows @ [r\<lparr>sg_ID := length rows + 1\<rparr>])))"

definition list_stages :: "string \<Rightarrow> stage_row list \<Rightarrow> stage_row list" where
  "list_stages run rows = sort_key sg_StartedAt (filter (\<lambda>r. sg_RunID r = run) rows)"

definition seed_attempts :: "stage_row list \<Rightarrow> string \<Rightarrow> int" where
  "seed_attempts rows st = fold (\<lambda>r a. if sg_Stage r = st \<and> a < sg_Attempt r then sg_Attempt r else a) rows 0"

text \<open>The output a successful row gives back; the commit messages and the worktree are not read.\<close>

definition output_of_row :: "stage_row \<Rightarrow> stage_output" where
  "output_of_row r =
     (let m = sg_Artifacts r in
      no_output\<lparr>so_CostUSD := sg_CostUSD r, so_SpawnID := sg_SpawnID r, so_LogTail := sg_LogTail r,
        so_Artifacts := Some m, so_FilesChanged := texts_of (m ''files_changed''),
        so_DiffPatch := text_of (m ''diff_patch''), so_LinesAdded := num_of (m ''lines_added''),
        so_LinesRemoved := num_of (m ''lines_removed''), so_MRIID := num_of (m ''mr_iid'')\<rparr>)"

definition ci_watch_state_key :: string where
  "ci_watch_state_key = ''__ci_watch_state''"

definition load_row :: "stage_row \<Rightarrow> (string \<Rightarrow> stage_output option) \<Rightarrow> string \<Rightarrow> stage_output option" where
  "load_row r out0 =
     (let out1 = (if sg_Stage r = ''ci_watch'' \<and> num_of (sg_Artifacts r ''ci_watch_pipeline_id'') \<noteq> 0
                  then out0(ci_watch_state_key \<mapsto> no_output\<lparr>so_Artifacts := Some (sg_Artifacts r)\<rparr>) else out0) in
      if sg_Outcome r \<noteq> Some Outcome_Success then out1
      else
        (let out2 = (if sg_Stage r = ''mr'' then out1(ci_watch_state_key := None) else out1);
             so = output_of_row r
         in out2(sg_Stage r \<mapsto>
              (case out2 (sg_Stage r) of None \<Rightarrow> so | Some old \<Rightarrow> fst (carry_forward_diff old so)))))"

definition load_prior_outputs :: "string \<Rightarrow> stage_row list \<Rightarrow> string \<Rightarrow> stage_output option" where
  "load_prior_outputs run rows = fold load_row (list_stages run rows) Map.empty"

definition pending_stage :: "string \<Rightarrow> string \<Rightarrow> stage_row list \<Rightarrow> stage_row option" where
  "pending_stage run st rows =
     (if run = '''' \<or> st = '''' then None
      else find (\<lambda>r. sg_Stage r = st \<and> sg_Outcome r = None \<and> sg_SpawnID r \<noteq> '''') (rev (list_stages run rows)))"

definition poll_timeout_text :: string where
  "poll_timeout_text = ''spawn: poll deadline exceeded''"

definition poll_timeout_attempt :: "string \<Rightarrow> string \<Rightarrow> string \<Rightarrow> stage_row list \<Rightarrow> stage_row option" where
  "poll_timeout_attempt run st spawn rows =
     (if run = '''' \<or> st = '''' \<or> spawn = '''' then None
      else find (\<lambda>r. sg_Stage r = st \<and> sg_SpawnID r = spawn \<and> sg_Outcome r = Some Outcome_Error \<and>
             contains (sg_LogTail r) poll_timeout_text) (rev (list_stages run rows)))"

definition pending_poll_failures :: "stage_row option \<Rightarrow> int" where
  "pending_poll_failures p = (case p of None \<Rightarrow> 0 | Some r \<Rightarrow> num_of (sg_Artifacts r ''spawn_poll_timeouts''))"

definition create_attempted :: "string \<Rightarrow> stage_row list \<Rightarrow> bool" where
  "create_attempted run rows =
     list_ex (\<lambda>r. sg_Stage r = ''merge'' \<and>
       sg_Artifacts r ''merge_recovery_pipeline_create_attempted'' = Some (A_Bool True)) (list_stages run rows)"

text \<open>The jobs a first rescue has recorded, if there was one.\<close>

definition rescue_attempted :: "string \<Rightarrow> stage_row list \<Rightarrow> artifact option" where
  "rescue_attempted run rows =
     map_option (\<lambda>r. case sg_Artifacts r ''ci_watch_flake_rescue_first_jobs'' of None \<Rightarrow> A_List [] | Some j \<Rightarrow> j)
       (find (\<lambda>r. sg_Stage r = ''ci_watch'' \<and>
          sg_Artifacts r ''ci_watch_flake_rescue_attempted'' = Some (A_Bool True)) (list_stages run rows))"

definition attributed_cost :: "string \<Rightarrow> stage_output \<Rightarrow> bool \<Rightarrow> stage_row list \<Rightarrow> int" where
  "attributed_cost run out failed rows =
     (if failed \<or> so_SpawnID out = '''' then so_CostUSD out
      else max 0 (so_CostUSD out -
        sum_list (map sg_CostUSD (filter (\<lambda>r. sg_SpawnID r = so_SpawnID out) (list_stages run rows)))))"

definition billing_for_backend :: "string \<Rightarrow> string" where
  "billing_for_backend backend =
     (let b = to_lower (trim_space backend) in
      if b = ''spawn'' then ''subscription''
      else if b = ''flexinfer'' \<or> b = ''local'' then ''local''
      else if b = '''' then '''' else ''api'')"

section \<open>Gate outcomes\<close>

datatype gate_outcome_kind = Gate_Pass | Gate_Fail | Gate_Skip

record gate_row =
  gr_RunID :: string
  gr_AfterStage :: string
  gr_GateName :: string
  gr_Outcome :: gate_outcome_kind
  gr_Reasons :: "string list"
  gr_JudgedBy :: string
  gr_EvaluatedAt :: time

text \<open>A gate row without its run or name is refused; the runner only logs that.\<close>

definition put_gate :: "time \<Rightarrow> gate_row \<Rightarrow> gate_row list \<Rightarrow> gate_row list" where
  "put_gate now g rows =
     (if gr_RunID g = '''' \<or> gr_GateName g = '''' then rows
      else rows @ [if gr_EvaluatedAt g = zero_time then g\<lparr>gr_EvaluatedAt := now\<rparr> else g])"

definition list_gates :: "string \<Rightarrow> gate_row list \<Rightarrow> gate_row list" where
  "list_gates run rows = sort_key gr_EvaluatedAt (filter (\<lambda>g. gr_RunID g = run) rows)"

record gate_outcome =
  go_Pass :: bool
  go_Reasons :: "string list"
  go_JudgedBy :: string
  go_Terminal :: bool
  go_Skip :: bool

definition judged_by_unparseable :: string where
  "judged_by_unparseable = ''flexinfer:unparseable''"

text \<open>The detail is cut at 500 bytes and marked with an ellipsis (three bytes).\<close>

definition cut :: "nat \<Rightarrow> string \<Rightarrow> string" where
  "cut n s = (if length s \<le> n then s else take n s @ [CHR 0xE2, CHR 0x80, CHR 0xA6])"

fun join_text :: "string \<Rightarrow> string list \<Rightarrow> string" where
  "join_text sep [] = ''''"
| "join_text sep [s] = s"
| "join_text sep (s # t # ts) = s @ sep @ join_text sep (t # ts)"

definition named_reasons :: "string \<Rightarrow> string list \<Rightarrow> string" where
  "named_reasons n reasons = n @ (if reasons = [] then '''' else '': '' @ join_text '', '' reasons)"

definition summarize_gate_failures :: "(string \<times> gate_outcome) list \<Rightarrow> string" where
  "summarize_gate_failures outcomes =
     cut 500 (join_text ''; ''
       (map (\<lambda>(n, o'). named_reasons n (go_Reasons o')) (filter (\<lambda>(n, o'). \<not> go_Pass o') outcomes)))"

text \<open>The reasons of the failed gates, 4 KiB of them.\<close>

fun append_bounded :: "nat \<Rightarrow> string list \<Rightarrow> string list" where
  "append_bounded n [] = []"
| "append_bounded n (r # rs) = (if n = 0 then [] else take n r # append_bounded (n - length r) rs)"

definition append_bounded_findings :: "string list \<Rightarrow> string list \<Rightarrow> string list" where
  "append_bounded_findings old reasons = old @ append_bounded (4096 - sum_list (map length old)) reasons"

definition bounded_gate_findings :: "(string \<times> gate_outcome) list \<Rightarrow> string list" where
  "bounded_gate_findings failed = append_bounded 4096 (concat (map (\<lambda>(n, o'). go_Reasons o') failed))"

record retry_context =
  rx_Attempt :: int
  rx_GateStage :: string
  rx_FirstFailure :: string
  rx_LastFailure :: string
  rx_Findings :: "string list"
  rx_ExpectedHeadSHA :: string

definition seed_context ::
  "stage list \<Rightarrow> gate_row \<Rightarrow> (string \<Rightarrow> retry_context option) \<Rightarrow> string \<Rightarrow> retry_context option" where
  "seed_context ss g ctxs =
     (case find (\<lambda>s. stg_ID s = gr_AfterStage g \<and> stg_Type s = Kind_Auto_Gate \<and> stg_RetryFrom s \<noteq> '''') ss of
        None \<Rightarrow> ctxs
      | Some s \<Rightarrow>
          if gr_Outcome g \<noteq> Gate_Fail \<or> gr_GateName g = ''tested_head'' then ctxs
          else
            (let detail = cut 500 (named_reasons (gr_GateName g) (gr_Reasons g));
                 rc = (case ctxs (stg_RetryFrom s) of
                         Some rc \<Rightarrow> rc
                       | None \<Rightarrow> \<lparr>rx_Attempt = 0, rx_GateStage = gr_AfterStage g, rx_FirstFailure = detail,
                                  rx_LastFailure = '''', rx_Findings = [], rx_ExpectedHeadSHA = ''''\<rparr>);
                 rc1 = rc\<lparr>rx_LastFailure := detail\<rparr>
             in ctxs(stg_RetryFrom s \<mapsto>
                  (if gr_AfterStage g = ''post_tests_gate''
                   then rc1\<lparr>rx_Findings := append_bounded_findings (rx_Findings rc1) (gr_Reasons g)\<rparr>
                   else rc1))))"

definition seed_retry_contexts :: "stage list \<Rightarrow> string \<Rightarrow> gate_row list \<Rightarrow> string \<Rightarrow> retry_context option" where
  "seed_retry_contexts ss run rows = fold (seed_context ss) (list_gates run rows) Map.empty"

text \<open>Whether the last verdict on the tested head is a failure.\<close>

definition retest_ordered_in_ledger :: "string \<Rightarrow> gate_row list \<Rightarrow> bool" where
  "retest_ordered_in_ledger run rows =
     (case filter (\<lambda>g. gr_GateName g = ''tested_head'') (rev (list_gates run rows)) of
        [] \<Rightarrow> False
      | g # _ \<Rightarrow> gr_Outcome g = Gate_Fail)"

end
