(* ===== verification/Runner_Ends.thy ===== *)
theory Runner_Ends
  imports Runner_Stages
begin

text \<open>
  How a drive of a run ends (\<^verbatim>\<open>pkg/mills/pipeline/runner.go\<close>): done, escalated, or put back into the
  queue by an automatic retry, with the writes each of these makes to the run and to the backlog
  item.  The text of a reason is a value of \<open>escalation_reason\<close>; what the incident catalogue, the
  quota needle and the fingerprints say of it are functions of the configuration.  The write of
  an outcome score, the events, metrics and hooks, none of which is read back, are left out.
\<close>

section \<open>Configuration\<close>

datatype escalation_reason =
  Reason_Health_Gates
| Reason_Autonomy string
| Reason_Degraded string
| Reason_Baseline_Fails string
| Reason_No_Tests_Stage string
| Reason_Retests_Exhausted string nat
| Reason_Gate_Incident string
| Reason_Gate_Errored string
| Reason_Gate_Transport string nat
| Reason_Gate_Ungradeable string nat
| Reason_Gate_Terminal string
| Reason_No_RetryFrom string
| Reason_Gate_Exhausted string string int "string option"
| Reason_Scope_Exhausted string string int "string option"
| Reason_Repeated string string
| Reason_Implement_Preflight
| Reason_Head_Moved string int
| Reason_Stage_Incident string
| Reason_Git_Clone string
| Reason_No_Head_SHA string
| Reason_No_Pipeline string
| Reason_Ref_Collision string
| Reason_Stage_Config string
| Reason_CI_Runner string
| Reason_CI_Terminal string
| Reason_Baseline_Red string
| Reason_CI_Stalled string
| Reason_Hub_Outage string int
| Reason_Total_Cap string int
| Reason_Budget_Cap string int
| Reason_Resume_Blocked

record runner_config =
  rc_Stages :: "stage list"
  rc_MaxAttempts :: int
  rc_TransientRetryCap :: int
  rc_AutoRetryCap :: int
  rc_MaxHeadTransitions :: int
  rc_Gates :: "string list option"
  rc_Tokens :: "string \<Rightarrow> string"
  rc_Incident :: "escalation_reason \<Rightarrow> (string \<times> string) option"
  rc_QuotaReason :: "escalation_reason \<Rightarrow> bool"
  rc_Fingerprint :: "error_class \<Rightarrow> escalation_reason \<Rightarrow> string"

definition max_attempts :: "runner_config \<Rightarrow> int" where
  "max_attempts cfg = (if rc_MaxAttempts cfg \<le> 0 then 3 else rc_MaxAttempts cfg)"

definition transient_retry_cap :: "runner_config \<Rightarrow> int" where
  "transient_retry_cap cfg = (if rc_TransientRetryCap cfg \<le> 0 then 5 else rc_TransientRetryCap cfg)"

section \<open>The run a drive holds\<close>

text \<open>The run and the item are the drive's own copies; the database is shared with other writers.\<close>

record held =
  hd_Run :: pipeline_run
  hd_Item :: "backlog_item option"
  hd_DB :: mills_db

definition set_run :: "(pipeline_run \<Rightarrow> pipeline_run) \<Rightarrow> 'a held_scheme \<Rightarrow> 'a held_scheme" where
  "set_run f h = h\<lparr>hd_Run := f (hd_Run h)\<rparr>"

text \<open>\<open>PutRun\<close> gives the copy its new revision and its times.\<close>

definition persist_run :: "time \<Rightarrow> 'a held_scheme \<Rightarrow> store_error option \<times> 'a held_scheme" where
  "persist_run now h =
     (case put_run now (hd_Run h) (hd_DB h) of
        Inl e \<Rightarrow> (Some e, h)
      | Inr (new, db) \<Rightarrow>
          (None, set_run (\<lambda>r. r\<lparr>pr_Revision := pr_Revision new, pr_StartedAt := pr_StartedAt new,
                              pr_EndedAt := pr_EndedAt new\<rparr>) (h\<lparr>hd_DB := db\<rparr>)))"

definition others :: "start_op list \<Rightarrow> 'a held_scheme \<Rightarrow> 'a held_scheme" where
  "others ops h = h\<lparr>hd_DB := apply_ops ops (hd_DB h)\<rparr>"

definition run_terminated :: "'a held_scheme \<Rightarrow> bool" where
  "run_terminated h =
     (pr_ID (hd_Run h) \<noteq> '''' \<and>
      (case get_run (pr_ID (hd_Run h)) (hd_DB h) of
         None \<Rightarrow> False | Some r \<Rightarrow> is_pipeline_terminal_state (pr_State r)))"

text \<open>\<open>None\<close>: the parent is not found.\<close>

definition run_owns_backlog_state :: "'a held_scheme \<Rightarrow> bool option" where
  "run_owns_backlog_state h =
     (case pr_ParentRunID (hd_Run h) of
        None \<Rightarrow> Some True
      | Some p \<Rightarrow>
          if p = '''' then Some True
          else map_option (\<lambda>parent. pr_BacklogID parent \<noteq> pr_BacklogID (hd_Run h)) (get_run p (hd_DB h)))"

definition count_escalated_runs :: "string \<Rightarrow> mills_db \<Rightarrow> int" where
  "count_escalated_runs i db =
     int (length (filter (\<lambda>r. pr_BacklogID r = i \<and> pr_State r = Run_Escalated) (db_runs db)))"

text \<open>The item follows its run by a compare and swap on the claim version of the run.\<close>

definition transition_item :: "backlog_state \<Rightarrow> time \<Rightarrow> 'a held_scheme \<Rightarrow> store_error option \<times> 'a held_scheme" where
  "transition_item to_state now h =
     (case hd_Item h of
        None \<Rightarrow> (None, h)
      | Some it \<Rightarrow>
          (case transition_state (bi_ID it) (pr_AggregateVersion (hd_Run h)) (bi_State it) to_state now (hd_DB h) of
             Inl e \<Rightarrow> (Some e, h)
           | Inr (current, db) \<Rightarrow> (None, h\<lparr>hd_Item := Some current, hd_DB := db\<rparr>)))"

section \<open>Escalation\<close>

fun failure_text :: "failure_class \<Rightarrow> string" where
  "failure_text Failure_Transient = ''transient''"
| "failure_text Failure_Transient_Quota = ''transient_quota''"
| "failure_text Failure_Infrastructure = ''infrastructure''"
| "failure_text Failure_Configuration = ''configuration''"
| "failure_text Failure_Code = ''code''"

definition metadata_from_evidence :: "runner_config \<Rightarrow> error_class \<Rightarrow> escalation_reason \<Rightarrow> escalation_metadata" where
  "metadata_from_evidence cfg cls reason =
     (let dep = (case rc_Incident cfg reason of
                   Some d \<Rightarrow> d
                 | None \<Rightarrow> if rc_QuotaReason cfg reason then (''devbox_quota'', ''devbox_quota'') else ('''', ''''));
          f = failure_class_of cls
      in no_metadata\<lparr>em_EscalationClass := class_text cls, em_FailureClass := failure_text f,
           em_Retryable := Some (failure_retryable f), em_ExternalDependencyID := fst dep,
           em_ExternalDependency := snd dep, em_FailureSignature := rc_Fingerprint cfg cls reason\<rparr>)"

definition route_external_dependency :: "string \<Rightarrow> string \<Rightarrow> escalation_metadata \<Rightarrow> escalation_metadata" where
  "route_external_dependency i dependency md =
     (if trim_space i = '''' then md
      else
        (let md1 = (if i = ''devbox_baseline'' \<or> i = ''devbox_quota''
                    then md\<lparr>em_EscalationClass := class_text Class_Infra,
                           em_FailureClass := failure_text Failure_Infrastructure, em_Retryable := Some True\<rparr>
                    else md\<lparr>em_EscalationClass := ''external_dependency''\<rparr>)
         in md1\<lparr>em_ExternalDependencyID := i, em_ExternalDependency := dependency\<rparr>))"

definition apply_metadata :: "escalation_metadata \<Rightarrow> pipeline_run \<Rightarrow> pipeline_run" where
  "apply_metadata md r =
     r\<lparr>pr_EscalationClass := kept_text (em_EscalationClass md) (pr_EscalationClass r),
       pr_FailureClass := kept_text (em_FailureClass md) (pr_FailureClass r),
       pr_ExternalDependencyID := kept_text (em_ExternalDependencyID md) (pr_ExternalDependencyID r),
       pr_ExternalDependency := kept_text (em_ExternalDependency md) (pr_ExternalDependency r),
       pr_EscalationRetryable := kept_flag (em_Retryable md) (pr_EscalationRetryable r)\<rparr>"

text \<open>A failed stamp is logged only.\<close>

definition stamp :: "escalation_metadata \<Rightarrow> 'a held_scheme \<Rightarrow> 'a held_scheme" where
  "stamp md h = h\<lparr>hd_DB := after (hd_DB h) (set_escalation_metadata (pr_ID (hd_Run h)) md (hd_DB h))\<rparr>"

definition stamp_escalation_metadata ::
  "runner_config \<Rightarrow> error_class \<Rightarrow> escalation_reason \<Rightarrow> 'a held_scheme \<Rightarrow> 'a held_scheme" where
  "stamp_escalation_metadata cfg cls reason h =
     (if pr_ID (hd_Run h) = '''' then h
      else
        (let tagged = pr_ExternalDependencyID (hd_Run h);
             md0 = metadata_from_evidence cfg cls reason;
             h1 = stamp md0 h
         in if tagged = '''' then set_run (apply_metadata md0) h1
            else
              (let md1 = route_external_dependency tagged (pr_ExternalDependency (hd_Run h)) md0
               in set_run (apply_metadata md1) (stamp md1 h1))))"

definition end_run :: "pipeline_state \<Rightarrow> time \<Rightarrow> 'a held_scheme \<Rightarrow> store_error option \<times> 'a held_scheme" where
  "end_run s now h = persist_run now (set_run (\<lambda>r. r\<lparr>pr_State := s, pr_EndedAt := Some now\<rparr>) h)"

text \<open>True: the escalation has become a retry, the run is escalated and its item queued again.\<close>

definition maybe_auto_retry ::
  "runner_config \<Rightarrow> time \<Rightarrow> error_class \<Rightarrow> escalation_reason \<Rightarrow> 'a held_scheme \<Rightarrow> bool \<times> 'a held_scheme" where
  "maybe_auto_retry cfg now cls reason h =
     (case hd_Item h of
        None \<Rightarrow> (False, h)
      | Some it \<Rightarrow>
          if \<not> is_transient_escalation_class cls then (False, h)
          else if run_owns_backlog_state h \<noteq> Some True then (False, h)
          else if rc_AutoRetryCap cfg \<le> 0 then (False, h)
          else if rc_AutoRetryCap cfg \<le> count_escalated_runs (bi_ID it) (hd_DB h) then (False, h)
          else
            (case end_run Run_Escalated now h of
               (Some e, h1) \<Rightarrow> (False, h1)
             | (None, h1) \<Rightarrow>
                 (True, snd (transition_item Backlog_Queued now (stamp_escalation_metadata cfg cls reason h1)))))"

definition transient_retry_budget_exhausted :: "runner_config \<Rightarrow> 'a held_scheme \<Rightarrow> bool" where
  "transient_retry_budget_exhausted cfg h =
     (case hd_Item h of
        None \<Rightarrow> False
      | Some it \<Rightarrow>
          rc_AutoRetryCap cfg \<le> 0 \<or> rc_AutoRetryCap cfg \<le> count_escalated_runs (bi_ID it) (hd_DB h))"

definition settle_item :: "backlog_state \<Rightarrow> time \<Rightarrow> 'a held_scheme \<Rightarrow> store_error option \<times> 'a held_scheme" where
  "settle_item s now h =
     (case run_owns_backlog_state h of
        None \<Rightarrow> (Some Row_Not_Found, h)
      | Some owns \<Rightarrow> if owns then transition_item s now h else (None, h))"

definition escalate ::
  "runner_config \<Rightarrow> time \<Rightarrow> error_class \<Rightarrow> escalation_reason \<Rightarrow> 'a held_scheme \<Rightarrow> store_error option \<times> 'a held_scheme" where
  "escalate cfg now cls reason h0 =
     (let h = (if is_transient_escalation_class cls \<and> transient_retry_budget_exhausted cfg h0
               then set_run (\<lambda>r. r\<lparr>pr_RetryExhausted := Some True\<rparr>) h0 else h0)
      in case end_run Run_Escalated now h of
           (Some e, h1) \<Rightarrow> (Some e, h1)
         | (None, h1) \<Rightarrow>
             (let h2 = stamp_escalation_metadata cfg cls reason h1;
                  h3 = (if pr_RetryExhausted (hd_Run h2) \<noteq> None
                        then stamp (no_metadata\<lparr>em_RetryExhausted := pr_RetryExhausted (hd_Run h2)\<rparr>) h2 else h2)
              in settle_item Backlog_Escalated now h3))"

definition escalate_with_item_policy ::
  "bool \<Rightarrow> runner_config \<Rightarrow> time \<Rightarrow> error_class \<Rightarrow> escalation_reason \<Rightarrow> 'a held_scheme \<Rightarrow>
   store_error option \<times> 'a held_scheme" where
  "escalate_with_item_policy allow cfg now cls reason h =
     (if allow then
        (case maybe_auto_retry cfg now cls reason h of
           (True, h1) \<Rightarrow> (None, h1)
         | (False, h1) \<Rightarrow> escalate cfg now cls reason h1)
      else escalate cfg now cls reason h)"

definition escalate_with_item ::
  "runner_config \<Rightarrow> time \<Rightarrow> error_class \<Rightarrow> escalation_reason \<Rightarrow> 'a held_scheme \<Rightarrow> store_error option \<times> 'a held_scheme" where
  "escalate_with_item = escalate_with_item_policy True"

text \<open>The checks fail on the bare target branch too: a hold, never an automatic retry.\<close>

definition escalate_devbox_baseline ::
  "runner_config \<Rightarrow> time \<Rightarrow> string \<Rightarrow> 'a held_scheme \<Rightarrow> store_error option \<times> 'a held_scheme" where
  "escalate_devbox_baseline cfg now st h =
     escalate_with_item_policy False cfg now Class_Infra (Reason_Baseline_Fails st)
       (set_run (\<lambda>r. r\<lparr>pr_ExternalDependencyID := ''devbox_baseline'',
                     pr_ExternalDependency := ''devbox_baseline''\<rparr>) h)"

definition escalate_ci_watch_stall ::
  "runner_config \<Rightarrow> time \<Rightarrow> string \<Rightarrow> string \<Rightarrow> 'a held_scheme \<Rightarrow> store_error option \<times> 'a held_scheme" where
  "escalate_ci_watch_stall cfg now st url h =
     (case escalate_with_item cfg now Class_Infra (Reason_CI_Stalled st) h of
        (Some e, h1) \<Rightarrow> (Some e, h1)
      | (None, h1) \<Rightarrow>
          (None, stamp (no_metadata\<lparr>em_EscalationClass := class_text Class_Infra,
             em_FailureClass := failure_text Failure_Infrastructure, em_ExternalDependencyID := url,
             em_ExternalDependency := ''gitlab_ci'', em_Retryable := Some True\<rparr>) h1))"

definition escalate_ci_watch_baseline_red ::
  "runner_config \<Rightarrow> time \<Rightarrow> string \<Rightarrow> 'a held_scheme \<Rightarrow> store_error option \<times> 'a held_scheme" where
  "escalate_ci_watch_baseline_red cfg now st h =
     (let h0 = set_run (\<lambda>r. r\<lparr>pr_ExternalDependencyID := ''gitlab_ci_baseline_red'',
                 pr_ExternalDependency := ''gitlab_ci_baseline_red'',
                 pr_FailureClass := failure_text Failure_Transient, pr_EscalationRetryable := Some True\<rparr>) h
      in case escalate_with_item_policy False cfg now Class_Transient (Reason_Baseline_Red st) h0 of
           (Some e, h1) \<Rightarrow> (Some e, h1)
         | (None, h1) \<Rightarrow>
             (let md = no_metadata\<lparr>em_EscalationClass := ''external_dependency_incident'',
                    em_FailureClass := failure_text Failure_Transient,
                    em_ExternalDependencyID := pr_ExternalDependencyID (hd_Run h1),
                    em_ExternalDependency := pr_ExternalDependency (hd_Run h1), em_Retryable := Some True\<rparr>
              in (None, set_run (apply_metadata md) (stamp md h1))))"

section \<open>Success\<close>

definition mark_done :: "time \<Rightarrow> 'a held_scheme \<Rightarrow> store_error option \<times> 'a held_scheme" where
  "mark_done now h =
     (case end_run Run_Done now (set_run (\<lambda>r. r\<lparr>pr_CurrentStage := ''''\<rparr>) h) of
        (Some e, h1) \<Rightarrow> (Some e, h1)
      | (None, h1) \<Rightarrow> settle_item Backlog_Merged now h1)"

end
