(* ===== verification/Runner_Drive.thy ===== *)
theory Runner_Drive
  imports Runner_Ends Head_Ledger
begin

text \<open>
  The loop of the stage runner, \<open>Drive\<close> in \<^verbatim>\<open>pkg/mills/pipeline/runner.go\<close>, one turn of the loop at
  a time.  The state of a drive is the run and the item it holds, its local maps, and the tables
  of stage results, gate outcomes and head movements; a turn is given what the outside does in
  it: the writes of others to the shared database, the verdicts of the gates, the report of the
  worker.  An error value is a \<open>failure\<close>: its text and what the classifier and the tests for
  known errors say of it.  Between two statements of one handler nobody else writes, except
  before the terminal checks, while a worker is running and while a stalled one is stopped.
\<close>

section \<open>What the outside does\<close>

record head_mismatch =
  hm_Project :: string
  hm_MRIID :: int
  hm_SourceBranch :: string
  hm_TargetBranch :: string
  hm_ReviewedSHA :: string
  hm_ObservedSHA :: string

record failure =
  fl_Text :: string
  fl_Class :: error_class
  fl_Incident :: bool
  fl_SpawnReason :: "spawn_reason option"
  fl_GitClone :: "error_class option"
  fl_HeadMoved :: "head_mismatch option"
  fl_SpawnConflict :: bool
  fl_SpawnPollTimeout :: bool
  fl_BaselineFails :: bool
  fl_NoHeadSHA :: bool
  fl_NoPipeline :: bool
  fl_RefCollision :: bool
  fl_CITerminal :: bool
  fl_BaselineRed :: bool
  fl_Stalled :: "string option"
  fl_CIPollTimeout :: bool

text \<open>An error no test knows.\<close>

definition plain_failure :: "string \<Rightarrow> error_class \<Rightarrow> failure" where
  "plain_failure msg cls =
     \<lparr>fl_Text = msg, fl_Class = cls, fl_Incident = False, fl_SpawnReason = None, fl_GitClone = None,
      fl_HeadMoved = None, fl_SpawnConflict = False, fl_SpawnPollTimeout = False, fl_BaselineFails = False,
      fl_NoHeadSHA = False, fl_NoPipeline = False, fl_RefCollision = False, fl_CITerminal = False,
      fl_BaselineRed = False, fl_Stalled = None, fl_CIPollTimeout = False\<rparr>"

record failed_check =
  fc_Name :: string
  fc_ExitCode :: int
  fc_Output :: string

record gate_input =
  gi_RunID :: string
  gi_Item :: "backlog_item option"
  gi_FilesChanged :: "string list"
  gi_LinesAdded :: int
  gi_LinesRemoved :: int
  gi_DiffPatch :: string
  gi_CommitMessages :: "string list"
  gi_GitCaptureStatus :: string
  gi_GitCaptureReason :: string
  gi_TestsPassed :: bool
  gi_TestsVerdict :: "(bool \<times> failed_check list) option"
  gi_TestedSHA :: string
  gi_ReviewHeadSHA :: string
  gi_ProjectBootstrapped :: bool

datatype autonomy_verdict =
  Autonomy_Allowed | Autonomy_Blocked error_class | Autonomy_Stopped | Autonomy_Cancelled

text \<open>The verdict of the amendment rules on the files outside the scope of the item.\<close>

datatype amendment = No_Violations | Refused | Admitted "slice list"

text \<open>What a worker calls back while it runs.\<close>

datatype recorder_call =
  Spawn_Accepted string | Flake_Rescued artifact | Create_Attempted | Sandboxes_Cleaned "string list"

datatype readiness = Ready | Hub_Down | Not_Ready error_class

record report =
  dp_Ready :: readiness
  dp_Calls :: "recorder_call list"
  dp_During :: "start_op list"
  dp_Cancelled :: bool
  dp_CancelledLate :: bool
  dp_Output :: stage_output
  dp_Failure :: "failure option"
  dp_Stopped :: bool
  dp_StopDuring :: "start_op list"
  dp_StopCancelled :: bool

record turn =
  tn_Now :: time
  tn_Before :: "start_op list"
  tn_Cancelled :: bool
  tn_Autonomy :: autonomy_verdict
  tn_Degraded :: bool
  tn_Checked :: "start_op list"
  tn_Gate :: "string \<Rightarrow> gate_input \<Rightarrow> failure + gate_outcome"
  tn_Bootstrapped :: bool
  tn_Amend :: "backlog_item \<Rightarrow> amendment"
  tn_RescueMR :: int
  tn_Preflight :: bool
  tn_Report :: report
  tn_WaitCancelled :: bool
  tn_StoreClass :: error_class
  tn_Hydrate :: "slice list"

section \<open>The state of a drive\<close>

text \<open>What the drive did, in order: the stage a worker ran, or a stage that was passed, by its index.\<close>

datatype drive_event =
  Dispatched nat int
| Passed nat "(string \<times> gate_outcome) list" bool

record drive = held +
  dr_Index :: nat
  dr_Start :: nat
  dr_Resuming :: bool
  dr_Attempts :: "string \<Rightarrow> int"
  dr_Effective :: "string \<Rightarrow> int"
  dr_Streaks :: "string \<Rightarrow> string option"
  dr_RetryCtxs :: "string \<Rightarrow> retry_context option"
  dr_Unparseable :: "string \<Rightarrow> nat"
  dr_Transport :: "string \<Rightarrow> nat"
  dr_Evaluated :: bool
  dr_RetestPending :: bool
  dr_Ordered :: nat
  dr_Prior :: "string \<Rightarrow> stage_output option"
  dr_Stages :: "stage_row list"
  dr_Gates :: "gate_row list"
  dr_Heads :: head_ledger
  dr_Log :: "drive_event list"

datatype ending =
  End_Done | End_Escalated error_class escalation_reason | End_Elsewhere | End_Pending | End_Conflict
| End_Rewound | End_Cancelled | End_Error

datatype turn_result = Next drive | Stop ending drive

definition closing :: "error_class \<Rightarrow> escalation_reason \<Rightarrow> store_error option \<times> drive \<Rightarrow> turn_result" where
  "closing cls reason p =
     (case p of (None, d) \<Rightarrow> Stop (End_Escalated cls reason) d | (Some e, d) \<Rightarrow> Stop End_Error d)"

definition log_event :: "drive_event \<Rightarrow> drive \<Rightarrow> drive" where
  "log_event e d = d\<lparr>dr_Log := dr_Log d @ [e]\<rparr>"

definition advance :: "(string \<times> gate_outcome) list \<Rightarrow> bool \<Rightarrow> drive \<Rightarrow> turn_result" where
  "advance outcomes amended d =
     Next ((log_event (Passed (dr_Index d) outcomes amended) d)\<lparr>dr_Index := dr_Index d + 1\<rparr>)"

definition prior_artifact :: "drive \<Rightarrow> string \<Rightarrow> string \<Rightarrow> artifact option" where
  "prior_artifact d st k = (case dr_Prior d st of None \<Rightarrow> None | Some out \<Rightarrow> artifact_of out k)"

section \<open>Gates\<close>

definition pick :: "artifacts \<Rightarrow> (artifact \<Rightarrow> 'a option) \<Rightarrow> string \<Rightarrow> string \<Rightarrow> 'a \<Rightarrow> 'a" where
  "pick m f k1 k2 other =
     (case Option.bind (m k1) f of
        Some v \<Rightarrow> v
      | None \<Rightarrow> (case Option.bind (m k2) f of Some v \<Rightarrow> v | None \<Rightarrow> other))"

definition decode_failed_checks :: "artifact option \<Rightarrow> failed_check list" where
  "decode_failed_checks raw =
     (case raw of
        Some (A_List xs) \<Rightarrow>
          List.map_filter
            (\<lambda>x. case x of
               A_Map kvs \<Rightarrow>
                 (let m = map_of kvs;
                      text = (\<lambda>a. case a of A_Text s \<Rightarrow> Some s | _ \<Rightarrow> None);
                      flag = (\<lambda>a. case a of A_Bool b \<Rightarrow> Some b | _ \<Rightarrow> None);
                      num = (\<lambda>a. case a of A_Num n \<Rightarrow> Some n | _ \<Rightarrow> None)
                  in if pick m flag ''passed'' ''Passed'' False then None
                     else Some \<lparr>fc_Name = pick m text ''name'' ''Name'' '''',
                                fc_ExitCode = pick m num ''exit_code'' ''ExitCode'' 0,
                                fc_Output = pick m text ''output'' ''Output'' ''''\<rparr>)
             | _ \<Rightarrow> None) xs
      | _ \<Rightarrow> [])"

definition gate_input_for :: "turn \<Rightarrow> drive \<Rightarrow> gate_input" where
  "gate_input_for t d =
     (let impl = (case dr_Prior d ''implement'' of None \<Rightarrow> no_output | Some o' \<Rightarrow> o');
          capture = map_of_artifact (artifact_of impl ''git_capture'');
          passed = (case prior_artifact d ''tests'' ''passed'' of Some (A_Bool b) \<Rightarrow> Some b | _ \<Rightarrow> None)
      in \<lparr>gi_RunID = pr_ID (hd_Run d), gi_Item = hd_Item d, gi_FilesChanged = so_FilesChanged impl,
          gi_LinesAdded = so_LinesAdded impl, gi_LinesRemoved = so_LinesRemoved impl,
          gi_DiffPatch = so_DiffPatch impl, gi_CommitMessages = so_CommitMessages impl,
          gi_GitCaptureStatus = text_of (capture ''status''), gi_GitCaptureReason = text_of (capture ''reason''),
          gi_TestsPassed = (dr_Prior d ''tests'' \<noteq> None \<and> passed \<noteq> Some False),
          gi_TestsVerdict = map_option (\<lambda>b. (b, decode_failed_checks (prior_artifact d ''tests'' ''checks''))) passed,
          gi_TestedSHA = text_of (prior_artifact d ''tests'' ''tested_sha''),
          gi_ReviewHeadSHA =
            text_of (map_of_artifact (prior_artifact d ''pr_self_review'' ''pushed_commits'') ''head_sha''),
          gi_ProjectBootstrapped = tn_Bootstrapped t\<rparr>)"

text \<open>An unknown gate fails; an error ends the evaluation.\<close>

fun evaluate_all ::
  "(string \<Rightarrow> gate_input \<Rightarrow> failure + gate_outcome) \<Rightarrow> string list \<Rightarrow> gate_input \<Rightarrow> string list \<Rightarrow>
   failure + (string \<times> gate_outcome) list" where
  "evaluate_all ev known inp [] = Inr []"
| "evaluate_all ev known inp (n # ns) =
     (if n \<notin> set known then
        (case evaluate_all ev known inp ns of
           Inl f \<Rightarrow> Inl f
         | Inr os \<Rightarrow>
             Inr ((n, \<lparr>go_Pass = False, go_Reasons = [''gates: unknown gate''], go_JudgedBy = ''go'',
                      go_Terminal = False, go_Skip = False\<rparr>) # os))
      else
        (case ev n inp of
           Inl f \<Rightarrow> Inl f
         | Inr o' \<Rightarrow>
             (case evaluate_all ev known inp ns of Inl f \<Rightarrow> Inl f | Inr os \<Rightarrow> Inr ((n, o') # os))))"

record gate_verdict =
  gv_Pass :: bool
  gv_FailDetail :: string
  gv_Terminal :: bool
  gv_Unparseable :: bool
  gv_Outcomes :: "(string \<times> gate_outcome) list"
  gv_Input :: gate_input

definition failed_outcomes :: "gate_verdict \<Rightarrow> (string \<times> gate_outcome) list" where
  "failed_outcomes v = filter (\<lambda>(n, o'). \<not> go_Pass o') (gv_Outcomes v)"

definition scope_only_failure :: "gate_verdict \<Rightarrow> bool" where
  "scope_only_failure v \<longleftrightarrow> map fst (failed_outcomes v) = [''scope'']"

definition gate_row_of :: "string \<Rightarrow> string \<Rightarrow> time \<Rightarrow> string \<times> gate_outcome \<Rightarrow> gate_row" where
  "gate_row_of run st now = (\<lambda>(n, o').
     \<lparr>gr_RunID = run, gr_AfterStage = st, gr_GateName = n,
      gr_Outcome = (if go_Skip o' then Gate_Skip else if go_Pass o' then Gate_Pass else Gate_Fail),
      gr_Reasons = go_Reasons o', gr_JudgedBy = go_JudgedBy o', gr_EvaluatedAt = now\<rparr>)"

definition run_gate :: "runner_config \<Rightarrow> turn \<Rightarrow> stage \<Rightarrow> drive \<Rightarrow> (failure + gate_verdict) \<times> drive" where
  "run_gate cfg t st d =
     (let inp = gate_input_for t d;
          pass = \<lparr>gv_Pass = True, gv_FailDetail = '''', gv_Terminal = False, gv_Unparseable = False,
                  gv_Outcomes = [], gv_Input = inp\<rparr>
      in case rc_Gates cfg of
           None \<Rightarrow> (Inr pass, d)
         | Some known \<Rightarrow>
             (let to_run = filter (\<lambda>g. g \<in> set known) (stg_Gates st) in
              if to_run = [] then (Inr pass, d)
              else
                (case evaluate_all (tn_Gate t) known inp to_run of
                   Inl f \<Rightarrow> (Inl f, d)
                 | Inr os \<Rightarrow>
                     (let failed = filter (\<lambda>(n, o'). \<not> go_Pass o') os in
                      (Inr \<lparr>gv_Pass = (failed = []), gv_FailDetail = summarize_gate_failures os,
                            gv_Terminal = list_ex (\<lambda>(n, o'). go_Terminal o') failed,
                            gv_Unparseable = (failed \<noteq> [] \<and>
                              list_all (\<lambda>(n, o'). go_JudgedBy o' = judged_by_unparseable) failed),
                            gv_Outcomes = os, gv_Input = inp\<rparr>,
                       d\<lparr>dr_Gates := fold (put_gate (tn_Now t))
                           (map (gate_row_of (pr_ID (hd_Run d)) (stg_ID st) (tn_Now t)) os) (dr_Gates d)\<rparr>)))))"

text \<open>An error of a gate is never the fault of the diff.\<close>

definition classify_gate_error :: "failure \<Rightarrow> error_class" where
  "classify_gate_error f =
     (if fl_Incident f then Class_Config
      else if fl_Class f = Class_Code then Class_Infra else fl_Class f)"

definition max_judge_retries :: nat where
  "max_judge_retries = 2"

definition handle_gate_error :: "runner_config \<Rightarrow> turn \<Rightarrow> stage \<Rightarrow> failure \<Rightarrow> drive \<Rightarrow> turn_result" where
  "handle_gate_error cfg t st f d =
     (let cls = classify_gate_error f; i = stg_ID st; n = dr_Transport d i + 1 in
      if fl_Incident f
      then closing cls (Reason_Gate_Incident i) (escalate_with_item cfg (tn_Now t) cls (Reason_Gate_Incident i) d)
      else if \<not> is_free_gate_rejudge_class cls
      then closing cls (Reason_Gate_Errored i) (escalate_with_item cfg (tn_Now t) cls (Reason_Gate_Errored i) d)
      else if max_judge_retries < n
      then closing cls (Reason_Gate_Transport i max_judge_retries)
             (escalate_with_item cfg (tn_Now t) cls (Reason_Gate_Transport i max_judge_retries) d)
      else
        (let d1 = d\<lparr>dr_Transport := (dr_Transport d)(i := n)\<rparr> in
         if 0 < retry_backoff cls (fl_SpawnReason f) (fl_Text f) (int n) \<and> tn_WaitCancelled t
         then Stop End_Cancelled d1 else Next d1))"

section \<open>Scope amendment\<close>

text \<open>One evaluation, and one more on the fresh row when the write has lost its compare and swap.\<close>

fun apply_scope_amendment :: "nat \<Rightarrow> turn \<Rightarrow> backlog_item \<Rightarrow> mills_db \<Rightarrow> amendment \<times> bool \<times> backlog_item \<times> mills_db" where
  "apply_scope_amendment 0 t it db = (No_Violations, False, it, db)"
| "apply_scope_amendment (Suc n) t it db =
     (case tn_Amend t it of
        Admitted slices \<Rightarrow>
          (case put_backlog (tn_Now t) (it\<lparr>bi_Slices := slices\<rparr>) db of
             Inr (new, db1) \<Rightarrow> (Admitted slices, True, new, db1)
           | Inl e \<Rightarrow>
               if e \<noteq> Stale_Write then (Admitted slices, False, it, db)
               else (case backlog_get (bi_ID it) db of
                       None \<Rightarrow> (Admitted slices, False, it, db)
                     | Some fresh \<Rightarrow>
                         if n = 0 then (Admitted slices, False, fresh, db)
                         else apply_scope_amendment n t fresh db))
      | v \<Rightarrow> (v, False, it, db))"

text \<open>Whether the gate is passed on the widened scope, and what the rules said.\<close>

definition maybe_amend_scope :: "turn \<Rightarrow> stage \<Rightarrow> drive \<Rightarrow> bool \<times> amendment \<times> drive" where
  "maybe_amend_scope t st d =
     (case hd_Item d of
        None \<Rightarrow> (False, No_Violations, d)
      | Some it \<Rightarrow>
          if tn_Amend t it = No_Violations then (False, No_Violations, d)
          else
            (case apply_scope_amendment 2 t it (hd_DB d) of
               (v, applied, it1, db1) \<Rightarrow>
                 (let d1 = d\<lparr>hd_Item := Some it1, hd_DB := db1\<rparr> in
                  if \<not> applied then (False, v, d1)
                  else (True, v,
                    d1\<lparr>dr_Gates := put_gate (tn_Now t)
                         \<lparr>gr_RunID = pr_ID (hd_Run d1), gr_AfterStage = stg_ID st, gr_GateName = ''scope'',
                          gr_Outcome = Gate_Pass, gr_Reasons = [], gr_JudgedBy = ''go'',
                          gr_EvaluatedAt = tn_Now t\<rparr> (dr_Gates d1)\<rparr>))))"

text \<open>The evidence of a refused scope: a row for the gate stage, and the draft request that holds the diff.\<close>

definition record_scope_refusal :: "turn \<Rightarrow> stage \<Rightarrow> amendment \<Rightarrow> drive \<Rightarrow> drive" where
  "record_scope_refusal t st v d =
     (let row = (new_row (pr_ID (hd_Run d)) (stg_ID st) 1 (tn_Now t))
            \<lparr>sg_EndedAt := Some (tn_Now t), sg_Outcome := Some Outcome_Gate_Fail,
             sg_Artifacts := [''stage_id'' \<mapsto> A_Text (stg_ID st), ''scope_violations'' \<mapsto> A_Map []]\<rparr>;
          d1 = (if v = No_Violations then d
                else (case put_stage (tn_Now t) row (dr_Stages d) of
                        Inl e \<Rightarrow> d | Inr rows \<Rightarrow> d\<lparr>dr_Stages := rows\<rparr>))
      in if hd_Item d1 \<noteq> None \<and> 0 < tn_RescueMR t
         then set_run (\<lambda>r. r\<lparr>pr_MRIID := Some (tn_RescueMR t)\<rparr>) d1 else d1)"

section \<open>A failed gate\<close>

definition max_scope_retry_attempts :: int where
  "max_scope_retry_attempts = 2"

definition retry_context_for :: "stage \<Rightarrow> gate_verdict \<Rightarrow> drive \<Rightarrow> retry_context" where
  "retry_context_for st v d =
     (let rc = (case dr_RetryCtxs d (stg_RetryFrom st) of
                  Some rc \<Rightarrow> rc
                | None \<Rightarrow> \<lparr>rx_Attempt = 0, rx_GateStage = stg_ID st, rx_FirstFailure = gv_FailDetail v,
                           rx_LastFailure = '''', rx_Findings = [], rx_ExpectedHeadSHA = ''''\<rparr>);
          rc1 = rc\<lparr>rx_LastFailure := gv_FailDetail v\<rparr>
      in if stg_ID st = ''post_tests_gate''
         then rc1\<lparr>rx_Findings := bounded_gate_findings (failed_outcomes v)\<rparr> else rc1)"

text \<open>Back to the stage the gate names, unless that stage has used up its attempts.\<close>

definition rewind :: "runner_config \<Rightarrow> turn \<Rightarrow> stage \<Rightarrow> gate_verdict \<Rightarrow> amendment option \<Rightarrow> drive \<Rightarrow> turn_result" where
  "rewind cfg t st v scope d =
     (case (if stg_RetryFrom st = '''' then None else index_of (rc_Stages cfg) (stg_RetryFrom st)) of
        None \<Rightarrow> closing Class_Config (Reason_No_RetryFrom (stg_ID st))
                 (escalate_with_item cfg (tn_Now t) Class_Config (Reason_No_RetryFrom (stg_ID st)) d)
      | Some back \<Rightarrow>
          (let rc = retry_context_for st v d;
               d1 = d\<lparr>dr_RetryCtxs := (dr_RetryCtxs d)(stg_RetryFrom st \<mapsto> rc)\<rparr>;
               cap = (if scope \<noteq> None \<and> max_scope_retry_attempts < max_attempts cfg
                      then max_scope_retry_attempts else max_attempts cfg);
               first = (if rx_FirstFailure rc \<noteq> '''' \<and> rx_FirstFailure rc \<noteq> gv_FailDetail v
                        then Some (rx_FirstFailure rc) else None)
           in if cap < dr_Attempts d1 (stg_RetryFrom st) + 1 then
                (case scope of
                   None \<Rightarrow>
                     (let reason = Reason_Gate_Exhausted (stg_ID st) (stg_RetryFrom st) cap first in
                      closing Class_Code reason (escalate_with_item cfg (tn_Now t) Class_Code reason d1))
                 | Some decision \<Rightarrow>
                     (let reason = Reason_Scope_Exhausted (stg_ID st) (stg_RetryFrom st) cap first in
                      closing Class_Config reason
                        (escalate_with_item cfg (tn_Now t) Class_Config reason
                          (record_scope_refusal t st decision d1))))
              else Next (d1\<lparr>dr_Index := back\<rparr>)))"

text \<open>A failure neither ungradeable nor terminal: amend the scope, stop on a repetition, or rewind.\<close>

definition failed_gate :: "runner_config \<Rightarrow> turn \<Rightarrow> stage \<Rightarrow> gate_verdict \<Rightarrow> (string \<times> gate_outcome) list \<Rightarrow> drive \<Rightarrow> turn_result" where
  "failed_gate cfg t st v ahead d =
     (let scope_only = (scope_only_failure v \<and> stg_ID st = ''post_implement_gate'');
          (amended, decision, d1) = (if scope_only then maybe_amend_scope t st d else (False, No_Violations, d))
      in if amended then advance (ahead @ gv_Outcomes v) True d1
         else
           (let (streaks, repeated) =
                  (if stg_ID st = ''post_tests_gate''
                   then consecutive_failure (rc_Tokens cfg) (dr_Streaks d1) ''tests'' Class_Code (gv_FailDetail v)
                   else (dr_Streaks d1, False));
                d2 = d1\<lparr>dr_Streaks := streaks\<rparr>;
                reason = Reason_Repeated ''tests'' (gv_FailDetail v)
            in if repeated
               then closing Class_Code reason (escalate_with_item cfg (tn_Now t) Class_Code reason d2)
               else rewind cfg t st v (if scope_only then Some decision else None) d2))"

text \<open>\<open>ahead\<close> are the outcomes of gates of this stage evaluated ahead of the others.\<close>

definition judge :: "runner_config \<Rightarrow> turn \<Rightarrow> stage \<Rightarrow> (string \<times> gate_outcome) list \<Rightarrow> drive \<Rightarrow> turn_result" where
  "judge cfg t st ahead d =
     (case run_gate cfg t st d of
        (Inl f, d1) \<Rightarrow> handle_gate_error cfg t st f d1
      | (Inr v, d1) \<Rightarrow>
          if gv_Pass v then
            advance (ahead @ gv_Outcomes v) False
              (if stg_ID st = ''post_tests_gate'' then d1\<lparr>dr_Streaks := (dr_Streaks d1)(''tests'' := None)\<rparr> else d1)
          else if gv_Unparseable v then
            (let i = stg_ID st; n = dr_Unparseable d1 i + 1 in
             if n \<le> max_judge_retries then Next (d1\<lparr>dr_Unparseable := (dr_Unparseable d1)(i := n)\<rparr>)
             else
               (let reason = Reason_Gate_Ungradeable i max_judge_retries in
                closing Class_Config reason (escalate_with_item cfg (tn_Now t) Class_Config reason d1)))
          else if gv_Terminal v then
            closing Class_Config (Reason_Gate_Terminal (stg_ID st))
              (escalate_with_item cfg (tn_Now t) Class_Config (Reason_Gate_Terminal (stg_ID st)) d1)
          else failed_gate cfg t st v ahead d1)"

section \<open>The head the review left behind\<close>

definition max_review_head_retests :: nat where
  "max_review_head_retests = 2"

datatype head_decision =
  Head_Proceed "(string \<times> gate_outcome) list" drive | Head_Retest nat drive | Head_Stop ending drive

definition head_closing :: "error_class \<Rightarrow> escalation_reason \<Rightarrow> store_error option \<times> drive \<Rightarrow> head_decision" where
  "head_closing cls reason p =
     (case p of (None, d) \<Rightarrow> Head_Stop (End_Escalated cls reason) d | (Some e, d) \<Rightarrow> Head_Stop End_Error d)"

definition review_head_retest :: "runner_config \<Rightarrow> turn \<Rightarrow> stage \<Rightarrow> drive \<Rightarrow> head_decision" where
  "review_head_retest cfg t st d =
     (if (case rc_Gates cfg of None \<Rightarrow> True | Some known \<Rightarrow> ''tested_head'' \<notin> set known) \<or>
         \<not> contains_gate st ''tested_head'' then Head_Proceed [] d
      else
        (case run_gate cfg t (st\<lparr>stg_Gates := [''tested_head'']\<rparr>) d of
           (Inl f, d1) \<Rightarrow> Head_Stop End_Error d1
         | (Inr v, d0) \<Rightarrow>
             (let d1 = d0\<lparr>dr_Evaluated := True\<rparr> in
              if (case map_of (gv_Outcomes v) ''tested_head'' of None \<Rightarrow> True | Some o' \<Rightarrow> go_Pass o')
              then Head_Proceed (gv_Outcomes v) (d1\<lparr>dr_RetestPending := False\<rparr>)
              else
                (case index_of (rc_Stages cfg) ''tests'' of
                   None \<Rightarrow>
                     head_closing Class_Config (Reason_No_Tests_Stage (stg_ID st))
                       (escalate_with_item cfg (tn_Now t) Class_Config (Reason_No_Tests_Stage (stg_ID st)) d1)
                 | Some tests \<Rightarrow>
                     if max_review_head_retests \<le> dr_Ordered d1 then
                       (let reason = Reason_Retests_Exhausted (stg_ID st) (dr_Ordered d1) in
                        head_closing Class_Infra reason (escalate_with_item cfg (tn_Now t) Class_Infra reason d1))
                     else
                       Head_Retest tests
                         (d1\<lparr>dr_Ordered := dr_Ordered d1 + 1, dr_RetestPending := True,
                            dr_RetryCtxs := (dr_RetryCtxs d1)(''tests'' \<mapsto>
                              \<lparr>rx_Attempt = 0, rx_GateStage = stg_ID st, rx_FirstFailure = gv_FailDetail v,
                               rx_LastFailure = gv_FailDetail v, rx_Findings = [],
                               rx_ExpectedHeadSHA = gi_ReviewHeadSHA (gv_Input v)\<rparr>)\<rparr>)))))"

definition resolved_sha :: "artifact option \<Rightarrow> string" where
  "resolved_sha v = (let s = to_lower (trim_space (text_of v)) in if s = ''unresolved'' then '''' else s)"

definition review_head_covered_by_tests :: "drive \<Rightarrow> bool" where
  "review_head_covered_by_tests d =
     (let tested = resolved_sha (prior_artifact d ''tests'' ''tested_sha'');
          head = resolved_sha (map_of_artifact (prior_artifact d ''pr_self_review'' ''pushed_commits'') ''head_sha'')
      in tested \<noteq> '''' \<and> head \<noteq> '''' \<and> tested = head)"

definition review_done :: "drive \<Rightarrow> bool" where
  "review_done d =
     (if dr_Evaluated d then dr_RetestPending d
      else pr_ID (hd_Run d) \<noteq> '''' \<and> retest_ordered_in_ledger (pr_ID (hd_Run d)) (dr_Gates d) \<and>
           review_head_covered_by_tests d)"

definition gate_visit :: "runner_config \<Rightarrow> turn \<Rightarrow> stage \<Rightarrow> drive \<Rightarrow> turn_result" where
  "gate_visit cfg t st d =
     (if stg_ID st = ''post_tests_gate'' \<and>
         prior_artifact d ''tests'' ''baseline_verdict'' = Some (A_Text ''environment'')
      then closing Class_Infra (Reason_Baseline_Fails ''tests'') (escalate_devbox_baseline cfg (tn_Now t) ''tests'' d)
      else if stg_ID st = ''post_review_gate'' then
        (case review_head_retest cfg t st d of
           Head_Stop e d1 \<Rightarrow> Stop e d1
         | Head_Retest tests d1 \<Rightarrow> Next (d1\<lparr>dr_Index := tests\<rparr>)
         | Head_Proceed ahead d1 \<Rightarrow> judge cfg t (without_gate ''tested_head'' st) ahead d1)
      else judge cfg t st [] d)"

section \<open>One worker stage\<close>

datatype stage_end =
  Stage_Done | Stage_Failed failure | Stage_Deduped failure int | Stage_Parked | Stage_Terminated | Stage_Cancelled

definition newline :: string where
  "newline = [CHR 0x0A]"

definition failure_log_tail :: "string \<Rightarrow> string \<Rightarrow> string \<Rightarrow> int \<Rightarrow> string \<Rightarrow> string" where
  "failure_log_tail existing err st attempt spawn =
     (let tail = trim_space existing; e = trim_space err;
          tail1 = (if tail = '''' then e
                   else if e \<noteq> '''' \<and> \<not> contains tail e then tail @ newline @ ''error: '' @ cut 2000 e
                   else tail);
          tail2 = (if tail1 = '''' then ''no error text returned by worker'' else tail1);
          prefix = ''stage='' @ st @ '' attempt='' @ dec (nat attempt) @
                   (if spawn \<noteq> '''' then '' spawn='' @ spawn else '''')
      in if contains tail2 prefix then tail2 else prefix @ '': '' @ tail2)"

definition put_row :: "time \<Rightarrow> stage_row \<Rightarrow> drive \<Rightarrow> stage_error option \<times> drive" where
  "put_row now r d =
     (case put_stage now r (dr_Stages d) of Inl e \<Rightarrow> (Some e, d) | Inr rows \<Rightarrow> (None, d\<lparr>dr_Stages := rows\<rparr>))"

text \<open>A refused write of the runner itself is an error like any other.\<close>

definition store_failure :: "turn \<Rightarrow> failure" where
  "store_failure t = plain_failure ''store write failed'' (tn_StoreClass t)"

definition put_failure :: "turn \<Rightarrow> stage_error \<Rightarrow> failure" where
  "put_failure t e = (store_failure t)\<lparr>fl_SpawnConflict := (e = Stage_Spawn_Conflict)\<rparr>"

text \<open>The rows a worker has recorded of the attempt it works on; a refused write goes back to the worker.\<close>

definition call_row :: "string \<Rightarrow> string \<Rightarrow> int \<Rightarrow> time \<Rightarrow> recorder_call \<Rightarrow> stage_row" where
  "call_row run st attempt started c =
     (let r = new_row run st attempt started in
      case c of
        Spawn_Accepted s \<Rightarrow> r\<lparr>sg_SpawnID := s, sg_Artifacts := [''stage_id'' \<mapsto> A_Text st]\<rparr>
      | Flake_Rescued jobs \<Rightarrow>
          r\<lparr>sg_Artifacts := [''stage_id'' \<mapsto> A_Text st, ''ci_watch_flake_rescue_attempted'' \<mapsto> A_Bool True,
                             ''ci_watch_flake_rescue_first_jobs'' \<mapsto> jobs]\<rparr>
      | Create_Attempted \<Rightarrow>
          r\<lparr>sg_Artifacts := [''stage_id'' \<mapsto> A_Text st,
                             ''merge_recovery_pipeline_create_attempted'' \<mapsto> A_Bool True]\<rparr>
      | Sandboxes_Cleaned evidence \<Rightarrow>
          r\<lparr>sg_Artifacts := [''resume_sandbox_cleanup'' \<mapsto> A_List (map A_Text evidence)]\<rparr>)"

definition record_call :: "time \<Rightarrow> string \<Rightarrow> int \<Rightarrow> time \<Rightarrow> recorder_call \<Rightarrow> drive \<Rightarrow> drive" where
  "record_call now st attempt started c d =
     (if c = Spawn_Accepted '''' then d
      else snd (put_row now (call_row (pr_ID (hd_Run d)) st attempt started c) d))"

definition accepted_spawn :: "string \<Rightarrow> recorder_call list \<Rightarrow> string" where
  "accepted_spawn start calls =
     fold (\<lambda>c s. case c of Spawn_Accepted x \<Rightarrow> if x = '''' then s else x | _ \<Rightarrow> s) calls start"

definition rescued_jobs :: "artifact option \<Rightarrow> recorder_call list \<Rightarrow> artifact option" where
  "rescued_jobs start calls = fold (\<lambda>c j. case c of Flake_Rescued x \<Rightarrow> Some x | _ \<Rightarrow> j) calls start"

text \<open>Which recorders a stage is given; that of the sandboxes only for the stage a resumed drive starts with.\<close>

definition allowed_call :: "drive \<Rightarrow> stage \<Rightarrow> recorder_call \<Rightarrow> bool" where
  "allowed_call d st c =
     (case c of Spawn_Accepted s \<Rightarrow> True
      | Flake_Rescued j \<Rightarrow> stg_ID st = ''ci_watch''
      | Create_Attempted \<Rightarrow> stg_ID st = ''merge''
      | Sandboxes_Cleaned e \<Rightarrow> stg_ID st = ''tests'' \<and> dr_Resuming d \<and> dr_Index d = dr_Start d)"

definition spawn_parked_row ::
  "string \<Rightarrow> stage \<Rightarrow> int \<Rightarrow> time \<Rightarrow> stage_output \<Rightarrow> string \<Rightarrow> int \<Rightarrow> stage_row" where
  "spawn_parked_row run st attempt started out err failures =
     (let a0 = [''stage_id'' \<mapsto> A_Text (stg_ID st)];
          a1 = (if artifact_of out ''spawn_stop_pending'' = Some (A_Bool True)
                then a0(''spawn_stop_pending'' \<mapsto> A_Bool True) else a0);
          a2 = (if 0 < failures then a1(''spawn_poll_timeouts'' \<mapsto> A_Num failures) else a1)
      in (new_row run (stg_ID st) attempt started)
           \<lparr>sg_SpawnID := so_SpawnID out, sg_Model := so_Model out, sg_Backend := so_Backend out,
            sg_Billing := so_Billing out, sg_Artifacts := a2,
            sg_LogTail := failure_log_tail (so_LogTail out) err (stg_ID st) attempt (so_SpawnID out)\<rparr>)"

definition park_pending_spawn ::
  "turn \<Rightarrow> stage \<Rightarrow> int \<Rightarrow> time \<Rightarrow> stage_output \<Rightarrow> string \<Rightarrow> int \<Rightarrow> drive \<Rightarrow> stage_end \<times> drive" where
  "park_pending_spawn t st attempt started out err failures d =
     (case put_row (tn_Now t) (spawn_parked_row (pr_ID (hd_Run d)) st attempt started out err failures) d of
        (Some e, d1) \<Rightarrow> (Stage_Failed (put_failure t e), d1)
      | (None, d1) \<Rightarrow> (Stage_Parked, d1))"

definition max_consecutive_spawn_poll_failures :: int where
  "max_consecutive_spawn_poll_failures = 2"

text \<open>Start of a stage: the head of the run, and for a synchronous stage the row of the attempt.\<close>

definition begin_stage :: "turn \<Rightarrow> stage \<Rightarrow> int \<Rightarrow> bool \<Rightarrow> drive \<Rightarrow> failure option \<times> drive" where
  "begin_stage t st attempt resumed d =
     (case persist_run (tn_Now t) (set_run (\<lambda>r. r\<lparr>pr_CurrentStage := stg_ID st, pr_State := stg_State st\<rparr>) d) of
        (Some e, d1) \<Rightarrow> (Some (store_failure t), d1)
      | (None, d1) \<Rightarrow>
          if \<not> resumed \<and> stg_Type st \<noteq> Kind_LLM \<and> stg_Type st \<noteq> Kind_Agent_Spawn
          then (case put_row (tn_Now t) (new_row (pr_ID (hd_Run d1)) (stg_ID st) attempt (tn_Now t)) d1 of
                  (e, d2) \<Rightarrow> (map_option (put_failure t) e, d2))
          else (None, d1))"

text \<open>After a restart the hub must be ready before the worker is asked.\<close>

definition dispatch_work ::
  "runner_config \<Rightarrow> turn \<Rightarrow> stage \<Rightarrow> int \<Rightarrow> time \<Rightarrow> drive \<Rightarrow> (stage_output \<times> failure option) \<times> drive" where
  "dispatch_work cfg t st attempt started d =
     (let rp = tn_Report t in
      case (if dr_Resuming d then dp_Ready rp else Ready) of
        Hub_Down \<Rightarrow>
          ((no_output, Some (plain_failure ''MCP hub unavailable after operator rollout'' Class_Substrate)), d)
      | Not_Ready cls \<Rightarrow>
          (case escalate_with_item_policy False cfg (tn_Now t) cls Reason_Resume_Blocked d of
             (None, d1) \<Rightarrow> ((no_output, Some (plain_failure ''pipeline: run terminated out-of-band'' Class_Code)), d1)
           | (Some e, d1) \<Rightarrow> ((no_output, Some (store_failure t)), d1))
      | Ready \<Rightarrow>
          ((dp_Output rp, dp_Failure rp),
           others (dp_During rp)
             (fold (record_call (tn_Now t) (stg_ID st) attempt started) (filter (allowed_call d st) (dp_Calls rp))
               (log_event (Dispatched (dr_Index d) attempt) d))))"

text \<open>The stop of a stalled spawn is resumed without asking the worker.\<close>

definition stop_intended :: "stage_row option \<Rightarrow> bool" where
  "stop_intended pending =
     (case pending of None \<Rightarrow> False | Some p \<Rightarrow> sg_Artifacts p ''spawn_stop_pending'' = Some (A_Bool True))"

definition asks_worker :: "turn \<Rightarrow> stage_row option \<Rightarrow> drive \<Rightarrow> bool" where
  "asks_worker t pending d \<longleftrightarrow> \<not> stop_intended pending \<and> (dr_Resuming d \<longrightarrow> dp_Ready (tn_Report t) = Ready)"

definition do_work :: "runner_config \<Rightarrow> turn \<Rightarrow> stage \<Rightarrow> int \<Rightarrow> time \<Rightarrow> stage_row option \<Rightarrow> drive \<Rightarrow>
    (stage_output \<times> failure option) \<times> drive" where
  "do_work cfg t st attempt started pending d =
     (if stop_intended pending then
        (case pending of
           None \<Rightarrow> ((no_output, None), d)
         | Some p \<Rightarrow>
             ((no_output\<lparr>so_SpawnID := sg_SpawnID p, so_Model := sg_Model p, so_Backend := sg_Backend p,
                 so_Billing := sg_Billing p, so_LogTail := sg_LogTail p\<rparr>,
               Some ((plain_failure (''resume stalled spawn stop: '' @ poll_timeout_text) Class_Transient)
                       \<lparr>fl_SpawnPollTimeout := True\<rparr>)), d))
      else dispatch_work cfg t st attempt started d)"

text \<open>The flags a row must keep, and the spawn the worker was accepted by.\<close>

definition complete_output :: "turn \<Rightarrow> stage \<Rightarrow> stage_row option \<Rightarrow> drive \<Rightarrow> stage_output \<Rightarrow> stage_output" where
  "complete_output t st pending d0 out =
     (let calls = (if asks_worker t pending d0 then filter (allowed_call d0 st) (dp_Calls (tn_Report t)) else []);
          spawn = accepted_spawn (case pending of None \<Rightarrow> '''' | Some p \<Rightarrow> sg_SpawnID p) calls;
          jobs = (if stg_ID st = ''ci_watch''
                  then rescued_jobs (rescue_attempted (pr_ID (hd_Run d0)) (dr_Stages d0)) calls else None);
          created = (stg_ID st = ''merge'' \<and>
                     (create_attempted (pr_ID (hd_Run d0)) (dr_Stages d0) \<or> Create_Attempted \<in> set calls));
          out1 = (case jobs of
                    None \<Rightarrow> out
                  | Some j \<Rightarrow> set_artifact ''ci_watch_flake_rescue_first_jobs'' j
                               (set_artifact ''ci_watch_flake_rescue_attempted'' (A_Bool True) out));
          out2 = (if created then set_artifact ''merge_recovery_pipeline_create_attempted'' (A_Bool True) out1 else out1)
      in if so_SpawnID out2 = '''' then out2\<lparr>so_SpawnID := spawn\<rparr> else out2)"

text \<open>
  The result of the attempt becomes durable; a terminal status of a spawn whose polling had timed
  out is folded into the row of that attempt.
\<close>

definition result_row :: "turn \<Rightarrow> string \<Rightarrow> stage \<Rightarrow> int \<Rightarrow> time \<Rightarrow> stage_output \<Rightarrow> failure option \<Rightarrow> int \<Rightarrow> string \<Rightarrow> stage_row" where
  "result_row t run st attempt started out derr cost billing =
     (new_row run (stg_ID st) attempt started)
       \<lparr>sg_EndedAt := Some (tn_Now t),
        sg_Outcome := Some (if derr = None then Outcome_Success else Outcome_Error),
        sg_SpawnID := so_SpawnID out, sg_CostUSD := cost, sg_Model := so_Model out,
        sg_Backend := so_Backend out, sg_Billing := billing, sg_Artifacts := merge_artifacts (stg_ID st) out,
        sg_LogTail := (case derr of None \<Rightarrow> so_LogTail out
          | Some f \<Rightarrow> failure_log_tail (so_LogTail out) (fl_Text f) (stg_ID st) attempt (so_SpawnID out))\<rparr>"

definition earlier_attempt :: "stage \<Rightarrow> stage_output \<Rightarrow> failure option \<Rightarrow> drive \<Rightarrow> stage_row option" where
  "earlier_attempt st out derr d =
     (case derr of
        None \<Rightarrow> None
      | Some f \<Rightarrow>
          if so_SpawnID out \<noteq> '''' \<and> has_terminal_spawn_status out \<and> \<not> fl_SpawnPollTimeout f
          then poll_timeout_attempt (pr_ID (hd_Run d)) (stg_ID st) (so_SpawnID out) (dr_Stages d) else None)"

definition roll_up :: "stage_output \<Rightarrow> int \<Rightarrow> string \<Rightarrow> pipeline_run \<Rightarrow> pipeline_run" where
  "roll_up out cost billing r =
     r\<lparr>pr_CostUSD := pr_CostUSD r + cost,
       pr_SubscriptionCostUSD := pr_SubscriptionCostUSD r + (if billing = ''subscription'' then cost else 0),
       pr_MRIID := (if so_MRIID out \<noteq> 0 then Some (so_MRIID out) else pr_MRIID r),
       pr_WorktreePath := kept_text (so_WorktreePath out) (pr_WorktreePath r)\<rparr>"

definition record_result ::
  "turn \<Rightarrow> stage \<Rightarrow> int \<Rightarrow> time \<Rightarrow> stage_output \<Rightarrow> failure option \<Rightarrow> drive \<Rightarrow> stage_end \<times> drive" where
  "record_result t st attempt0 started0 out derr d =
     (let earlier = earlier_attempt st out derr d;
          attempt = (case earlier of None \<Rightarrow> attempt0 | Some r \<Rightarrow> sg_Attempt r);
          started = (case earlier of None \<Rightarrow> started0 | Some r \<Rightarrow> sg_StartedAt r);
          cost = attributed_cost (pr_ID (hd_Run d)) out (derr \<noteq> None) (dr_Stages d);
          billing = (if so_Billing out = '''' then billing_for_backend (so_Backend out) else so_Billing out)
      in case put_row (tn_Now t) (result_row t (pr_ID (hd_Run d)) st attempt started out derr cost billing) d of
           (Some e, d1) \<Rightarrow> (Stage_Failed (put_failure t e), d1)
         | (None, d1) \<Rightarrow>
             (case derr of
                Some f \<Rightarrow> (if earlier = None then Stage_Failed f else Stage_Deduped f attempt, d1)
              | None \<Rightarrow>
                  (case persist_run (tn_Now t) (set_run (roll_up out cost billing) d1) of
                     (Some e, d2) \<Rightarrow> (Stage_Failed (store_failure t), d2)
                   | (None, d2) \<Rightarrow> (Stage_Done, d2))))"

text \<open>
  A spawn whose polling failed is parked; at the second failure in a row it is stopped, and only
  a confirmed stop turns the attempt into an error.
\<close>

definition stop_stalled ::
  "turn \<Rightarrow> stage \<Rightarrow> int \<Rightarrow> time \<Rightarrow> int \<Rightarrow> stage_output \<Rightarrow> failure \<Rightarrow> drive \<Rightarrow> (stage_end \<times> stage_output) \<times> drive" where
  "stop_stalled t st attempt started failures out f d =
     (let out1 = set_artifact ''spawn_stop_pending'' (A_Bool True) out in
      case park_pending_spawn t st attempt started out1 (fl_Text f) failures d of
        (e, d1) \<Rightarrow>
          if e \<noteq> Stage_Parked then ((e, out1), d1)
          else
            (let d2 = others (dp_StopDuring (tn_Report t)) d1 in
             if dp_StopCancelled (tn_Report t) then ((Stage_Cancelled, out1), d2)
             else if run_terminated d2 then ((Stage_Terminated, out1), d2)
             else if \<not> dp_Stopped (tn_Report t)
             then (case park_pending_spawn t st attempt started out1
                          (fl_Text f @ newline @ ''confirm stalled spawn stopped'') failures d2 of
                     (e2, d3) \<Rightarrow> ((e2, out1), d3))
             else
               (let out2 = set_artifact ''spawn_stop_confirmed'' (A_Bool True)
                      (set_artifact ''spawn_stop_pending'' (A_Bool False) out1) in
                case record_result t st attempt started out2 (Some f) d2 of (e2, d3) \<Rightarrow> ((e2, out2), d3))))"

definition settle_stage ::
  "turn \<Rightarrow> stage \<Rightarrow> int \<Rightarrow> time \<Rightarrow> stage_row option \<Rightarrow> stage_output \<Rightarrow> failure option \<Rightarrow> drive \<Rightarrow>
   (stage_end \<times> stage_output) \<times> drive" where
  "settle_stage t st attempt started pending out derr d =
     (case (if so_SpawnID out \<noteq> '''' \<and> \<not> has_terminal_spawn_status out then derr else None) of
        None \<Rightarrow> (case record_result t st attempt started out derr d of (e, d1) \<Rightarrow> ((e, out), d1))
      | Some f \<Rightarrow>
          (let failures = pending_poll_failures pending + 1 in
           if failures < max_consecutive_spawn_poll_failures
           then (case park_pending_spawn t st attempt started out (fl_Text f) failures d of (e, d1) \<Rightarrow> ((e, out), d1))
           else stop_stalled t st attempt started failures out f d))"

definition run_stage ::
  "runner_config \<Rightarrow> turn \<Rightarrow> stage \<Rightarrow> int \<Rightarrow> stage_row option \<Rightarrow> drive \<Rightarrow> (stage_end \<times> stage_output) \<times> drive" where
  "run_stage cfg t st attempt pending d =
     (let started = (case pending of None \<Rightarrow> tn_Now t | Some p \<Rightarrow> sg_StartedAt p) in
      case begin_stage t st attempt (pending \<noteq> None) d of
        (Some f, d1) \<Rightarrow> ((Stage_Failed f, no_output), d1)
      | (None, d1) \<Rightarrow>
          (case do_work cfg t st attempt started pending d1 of
             ((out0, derr), d2) \<Rightarrow>
               (let out = complete_output t st pending d1 out0 in
                if dp_Cancelled (tn_Report t) then ((Stage_Cancelled, out), d2)
                else if run_terminated d2 then ((Stage_Terminated, out), d2)
                else settle_stage t st attempt started pending out derr d2)))"

section \<open>A visit to a worker stage\<close>

text \<open>The preflight of the implement stage: a refusal ends the run as \<open>preflight_failed\<close>.\<close>

definition fail_preflight :: "runner_config \<Rightarrow> turn \<Rightarrow> drive \<Rightarrow> turn_result" where
  "fail_preflight cfg t d =
     (case escalate_with_item cfg (tn_Now t) Class_Config Reason_Implement_Preflight
             (set_run (\<lambda>r. r\<lparr>pr_CurrentStage := ''preflight_failed''\<rparr>) d) of
        (Some e, d1) \<Rightarrow> Stop End_Error d1
      | (None, d1) \<Rightarrow>
          (case persist_run (tn_Now t) (set_run (\<lambda>r. r\<lparr>pr_State := Run_PreflightFailed\<rparr>) d1) of
             (Some e, d2) \<Rightarrow> Stop End_Error d2
           | (None, d2) \<Rightarrow> Stop (End_Escalated Class_Config Reason_Implement_Preflight) d2))"

text \<open>The ledger row of a head that moved under the merge, one for each movement.\<close>

definition open_movement :: "turn \<Rightarrow> head_mismatch \<Rightarrow> pipeline_run \<Rightarrow> head_transition" where
  "open_movement t m run =
     \<lparr>ht_id = 0, ht_run = pr_ID run, ht_seq = 0, ht_project = hm_Project m, ht_mr_iid = hm_MRIID m,
      ht_source_branch = hm_SourceBranch m, ht_target_branch = hm_TargetBranch m,
      ht_reviewed_sha = hm_ReviewedSHA m, ht_target_head_sha = '''', ht_successor_sha = hm_ObservedSHA m,
      ht_trigger = External_Movement, ht_state = Ambiguous, ht_provenance = '''',
      ht_requested_at = Some (tn_Now t), ht_observed_at = None, ht_settled_at = None\<rparr>"

definition settle_movement :: "turn \<Rightarrow> head_mismatch \<Rightarrow> head_transition \<Rightarrow> settle_request" where
  "settle_movement t m r =
     \<lparr>sr_run = ht_run r, sr_seq = ht_seq r, sr_state = Ambiguous, sr_successor = hm_ObservedSHA m,
      sr_provenance = '''', sr_observed_at = None, sr_settled_at = Some (tn_Now t)\<rparr>"

text \<open>False: the ledger has refused.\<close>

definition record_movement :: "turn \<Rightarrow> head_mismatch \<Rightarrow> drive \<Rightarrow> bool \<times> drive" where
  "record_movement t m d =
     (case unsettled_transition (pr_ID (hd_Run d)) (dr_Heads d) of
        Some r \<Rightarrow>
          (case settle_transition (tn_Now t) (settle_movement t m r) (dr_Heads d) of
             ((row, e), l) \<Rightarrow> (e = None \<or> e = Some Already_Settled, d\<lparr>dr_Heads := l\<rparr>))
      | None \<Rightarrow>
          (case open_transition (tn_Now t) (open_movement t m (hd_Run d)) (dr_Heads d) of
             (Inl e, l) \<Rightarrow> (False, d\<lparr>dr_Heads := l\<rparr>) | (Inr row, l) \<Rightarrow> (True, d\<lparr>dr_Heads := l\<rparr>)))"

text \<open>The run goes back to its first gate for the next drive, within its budget of movements.\<close>

definition record_external_head_movement ::
  "runner_config \<Rightarrow> turn \<Rightarrow> stage \<Rightarrow> head_mismatch \<Rightarrow> drive \<Rightarrow> turn_result" where
  "record_external_head_movement cfg t st m d =
     (case record_movement t m d of
        (False, d1) \<Rightarrow> Stop End_Error d1
      | (True, d1) \<Rightarrow>
          (let settled = count_settled (pr_ID (hd_Run d1)) (dr_Heads d1);
               budget = (if rc_MaxHeadTransitions cfg \<le> 0 then 1 else rc_MaxHeadTransitions cfg);
               reason = Reason_Head_Moved (stg_ID st) settled
           in if budget < settled
              then closing Class_Config reason (escalate_with_item cfg (tn_Now t) Class_Config reason d1)
              else
                (case persist_run (tn_Now t) (set_run (\<lambda>r. r\<lparr>pr_CurrentStage := ''post_implement_gate'',
                         pr_State := Run_Implementing\<rparr>) d1) of
                   (Some e, d2) \<Rightarrow> Stop End_Error d2 | (None, d2) \<Rightarrow> Stop End_Rewound d2)))"

text \<open>The class a failure is handled by: an incident is configuration, a lost hub after a restart substrate.\<close>

definition handled_class :: "drive \<Rightarrow> failure \<Rightarrow> error_class" where
  "handled_class d f =
     (if fl_Incident f then Class_Config
      else if dr_Resuming d \<and> hub_unavailable (fl_Text f) then Class_Substrate else fl_Class f)"

definition count_failure :: "error_class \<Rightarrow> string \<Rightarrow> drive \<Rightarrow> drive" where
  "count_failure cls i d =
     (if is_free_retry cls then d else d\<lparr>dr_Effective := (dr_Effective d)(i := dr_Effective d i + 1)\<rparr>)"

text \<open>Failures that no retry can mend, and how each of them ends the drive.\<close>

definition hopeless :: "runner_config \<Rightarrow> turn \<Rightarrow> stage \<Rightarrow> failure \<Rightarrow> error_class \<Rightarrow> drive \<Rightarrow> turn_result option" where
  "hopeless cfg t st f cls d =
     (let i = stg_ID st; stop = (\<lambda>c r. Some (closing c r (escalate_with_item cfg (tn_Now t) c r d))) in
      if fl_Incident f then stop cls (Reason_Stage_Incident i)
      else if (case fl_GitClone f of None \<Rightarrow> False | Some c \<Rightarrow> is_terminal_class c)
      then stop (case fl_GitClone f of None \<Rightarrow> cls | Some c \<Rightarrow> c) (Reason_Git_Clone i)
      else if fl_NoHeadSHA f then stop cls (Reason_No_Head_SHA i)
      else if fl_NoPipeline f then stop cls (Reason_No_Pipeline i)
      else if fl_RefCollision f then stop Class_Config (Reason_Ref_Collision i)
      else if is_terminal_class cls then stop cls (Reason_Stage_Config i)
      else if fl_CITerminal f
      then stop cls (if cls = Class_Transient then Reason_CI_Runner i else Reason_CI_Terminal i)
      else if fl_BaselineRed f
      then Some (closing Class_Transient (Reason_Baseline_Red i) (escalate_ci_watch_baseline_red cfg (tn_Now t) i d))
      else (case fl_Stalled f of
              Some url \<Rightarrow>
                Some (closing Class_Infra (Reason_CI_Stalled i) (escalate_ci_watch_stall cfg (tn_Now t) i url d))
            | None \<Rightarrow> None))"

definition retry_class :: "runner_config \<Rightarrow> error_class \<Rightarrow> string \<Rightarrow> drive \<Rightarrow> string" where
  "retry_class cfg cls i d =
     (if cls = Class_Substrate \<and> max_attempts cfg \<le> dr_Attempts d i \<or>
         max_attempts cfg + transient_retry_cap cfg \<le> dr_Attempts d i \<or> max_attempts cfg \<le> dr_Effective d i
      then ''exhausted''
      else if is_free_retry cls then ''transient''
      else if cls = Class_Infra \<or> cls = Class_Substrate then ''substrate'' else ''real'')"

text \<open>The row of the attempt learns its class; a missing row is an error of the drive.\<close>

definition persist_attempt_classification :: "turn \<Rightarrow> string \<Rightarrow> int \<Rightarrow> string \<Rightarrow> int \<Rightarrow> drive \<Rightarrow> bool \<times> drive" where
  "persist_attempt_classification t i attempt cls effective d =
     (case find (\<lambda>r. sg_Stage r = i \<and> sg_Attempt r = attempt) (list_stages (pr_ID (hd_Run d)) (dr_Stages d)) of
        None \<Rightarrow> (False, d)
      | Some r \<Rightarrow>
          (case put_row (tn_Now t)
                  (r\<lparr>sg_Artifacts := (sg_Artifacts r)(''retry_class'' \<mapsto> A_Text cls,
                     ''effective_attempts'' \<mapsto> A_Num effective)\<rparr>) d of
             (e, d1) \<Rightarrow> (e = None, d1)))"

text \<open>The caps, in the order of the code; below them the stage is tried again.\<close>

definition retry_stage :: "runner_config \<Rightarrow> turn \<Rightarrow> stage \<Rightarrow> failure \<Rightarrow> error_class \<Rightarrow> drive \<Rightarrow> turn_result" where
  "retry_stage cfg t st f cls d0 =
     (let i = stg_ID st; a = dr_Attempts d0 i; total = max_attempts cfg + transient_retry_cap cfg;
          stop = (\<lambda>allow r d. closing cls r (escalate_with_item_policy allow cfg (tn_Now t) cls r d))
      in case persist_attempt_classification t i a (retry_class cfg cls i d0) (dr_Effective d0 i) d0 of
           (False, d1) \<Rightarrow> Stop End_Error d1
         | (True, d1) \<Rightarrow>
             if cls = Class_Substrate \<and> max_attempts cfg \<le> a then stop False (Reason_Hub_Outage i a) d1
             else
               (case consecutive_failure (rc_Tokens cfg) (dr_Streaks d1) i cls (fl_Text f) of
                  (streaks, repeated) \<Rightarrow>
                    (let d2 = d1\<lparr>dr_Streaks := streaks\<rparr> in
                     if repeated then stop True (Reason_Repeated i (fl_Text f)) d2
                     else if \<not> (i = ''ci_watch'' \<and> fl_CIPollTimeout f) \<and> total \<le> a
                     then stop True (Reason_Total_Cap i a) d2
                     else if max_attempts cfg \<le> dr_Effective d2 i
                     then stop True (Reason_Budget_Cap i (dr_Effective d2 i)) d2
                     else if 0 < retry_backoff cls (fl_SpawnReason f) (fl_Text f) a \<and> tn_WaitCancelled t
                     then Stop End_Cancelled d2 else Next d2)))"

definition failed_stage :: "runner_config \<Rightarrow> turn \<Rightarrow> stage \<Rightarrow> failure \<Rightarrow> int option \<Rightarrow> stage_output \<Rightarrow> drive \<Rightarrow> turn_result" where
  "failed_stage cfg t st f deduped out d0 =
     (let i = stg_ID st;
          d1 = (if i = ''ci_watch'' \<and> so_Artifacts out \<noteq> None
                then d0\<lparr>dr_Prior := (dr_Prior d0)(ci_watch_state_key \<mapsto> no_output\<lparr>so_Artifacts := so_Artifacts out\<rparr>)\<rparr>
                else d0)
      in if fl_SpawnConflict f then Stop End_Conflict d1
         else
           (let d2 = (case deduped of None \<Rightarrow> d1 | Some a \<Rightarrow> d1\<lparr>dr_Attempts := (dr_Attempts d1)(i := a)\<rparr>) in
            if fl_BaselineFails f
            then closing Class_Infra (Reason_Baseline_Fails i) (escalate_devbox_baseline cfg (tn_Now t) i d2)
            else (case fl_HeadMoved f of
                    Some m \<Rightarrow> record_external_head_movement cfg t st m d2
                  | None \<Rightarrow>
                      (let cls = handled_class d2 f; d3 = count_failure cls i d2 in
                       case hopeless cfg t st f cls d3 of
                         Some r \<Rightarrow> r
                       | None \<Rightarrow> retry_stage cfg t st f cls d3))))"

text \<open>The slices a plan has given, for an item that came without files.\<close>

definition hydrate_slice_scope :: "turn \<Rightarrow> drive \<Rightarrow> drive" where
  "hydrate_slice_scope t d =
     (case hd_Item d of
        None \<Rightarrow> d
      | Some it \<Rightarrow>
          if tn_Hydrate t = [] \<or> list_ex (\<lambda>s. sl_Files s \<noteq> []) (bi_Slices it) then d
          else
            (let it1 = it\<lparr>bi_Slices := tn_Hydrate t\<rparr>; d1 = d\<lparr>hd_Item := Some it1\<rparr> in
             case backlog_get (bi_ID it) (hd_DB d) of
               None \<Rightarrow> d1
             | Some fresh \<Rightarrow>
                 (case put_backlog (tn_Now t) (fresh\<lparr>bi_Slices := tn_Hydrate t\<rparr>) (hd_DB d) of
                    Inl e \<Rightarrow> d1
                  | Inr (new, db) \<Rightarrow>
                      d1\<lparr>hd_Item := Some (it1\<lparr>bi_Revision := bi_Revision new,
                                             bi_ClaimVersion := bi_ClaimVersion new\<rparr>), hd_DB := db\<rparr>)))"

definition finished_stage :: "turn \<Rightarrow> stage \<Rightarrow> stage_output \<Rightarrow> drive \<Rightarrow> turn_result" where
  "finished_stage t st out0 d0 =
     (let i = stg_ID st;
          d1 = (if i = ''tests'' then d0 else d0\<lparr>dr_Streaks := (dr_Streaks d0)(i := None)\<rparr>);
          out = (case dr_Prior d1 i of None \<Rightarrow> out0 | Some old \<Rightarrow> fst (carry_forward_diff old out0));
          d2 = (if i = ''mr'' then d1\<lparr>dr_Prior := (dr_Prior d1)(ci_watch_state_key := None)\<rparr> else d1);
          d3 = d2\<lparr>dr_Prior := (dr_Prior d2)(i \<mapsto> out)\<rparr>;
          d4 = (if i = ''tests'' then d3\<lparr>dr_RetryCtxs := (dr_RetryCtxs d3)(i := None)\<rparr> else d3);
          d5 = (if i = ''plan_slice'' then hydrate_slice_scope t d4 else d4)
      in advance [] False d5)"

text \<open>The attempt the stage runs as: a pending one goes on, another is one more.\<close>

definition run_attempt :: "runner_config \<Rightarrow> turn \<Rightarrow> stage \<Rightarrow> int \<Rightarrow> stage_row option \<Rightarrow> drive \<Rightarrow> turn_result" where
  "run_attempt cfg t st attempt pending d0 =
     (let i = stg_ID st;
          d1 = d0\<lparr>dr_Attempts := (dr_Attempts d0)(i := attempt),
                  dr_RetryCtxs := (case dr_RetryCtxs d0 i of
                     None \<Rightarrow> dr_RetryCtxs d0
                   | Some rc \<Rightarrow> (dr_RetryCtxs d0)(i \<mapsto> rc\<lparr>rx_Attempt := attempt\<rparr>))\<rparr>
      in case run_stage cfg t st attempt pending d1 of
           ((e, out), d2) \<Rightarrow>
             if e = Stage_Cancelled \<or> dp_CancelledLate (tn_Report t) then Stop End_Cancelled d2
             else (case e of
                     Stage_Done \<Rightarrow> finished_stage t st out d2
                   | Stage_Parked \<Rightarrow> Stop End_Pending d2
                   | Stage_Terminated \<Rightarrow> Stop End_Elsewhere d2
                   | Stage_Failed f \<Rightarrow> failed_stage cfg t st f None out d2
                   | Stage_Deduped f a \<Rightarrow> failed_stage cfg t st f (Some a) out d2
                   | Stage_Cancelled \<Rightarrow> Stop End_Cancelled d2))"

definition stage_visit :: "runner_config \<Rightarrow> turn \<Rightarrow> stage \<Rightarrow> drive \<Rightarrow> turn_result" where
  "stage_visit cfg t st d0 =
     (let i = stg_ID st in
      if i = ''pr_self_review'' \<and> review_done d0
      then advance [] False (d0\<lparr>dr_Evaluated := True, dr_RetestPending := False\<rparr>)
      else
        (let d1 = (if i = ''implement'' then d0\<lparr>dr_RetestPending := False\<rparr> else d0);
             pending = (if i = ''tests'' then None else pending_stage (pr_ID (hd_Run d1)) i (dr_Stages d1))
         in case pending of
              Some p \<Rightarrow> run_attempt cfg t st (sg_Attempt p) (Some p) d1
            | None \<Rightarrow>
                if i = ''implement'' \<and> \<not> tn_Preflight t then fail_preflight cfg t d1
                else run_attempt cfg t st (dr_Attempts d1 i + 1) None d1))"

section \<open>The loop\<close>

text \<open>One turn.  The stage after the last one is the end of the run.\<close>

definition drive_turn :: "runner_config \<Rightarrow> turn \<Rightarrow> drive \<Rightarrow> turn_result" where
  "drive_turn cfg t d0 =
     (let d = others (tn_Before t) d0; now = tn_Now t in
      if length (rc_Stages cfg) \<le> dr_Index d
      then (case mark_done now d of (None, d1) \<Rightarrow> Stop End_Done d1 | (Some e, d1) \<Rightarrow> Stop End_Error d1)
      else
        (let st = rc_Stages cfg ! dr_Index d in
         if tn_Cancelled t then Stop End_Cancelled d
         else if run_terminated d then Stop End_Elsewhere d
         else (case tn_Autonomy t of
                 Autonomy_Stopped \<Rightarrow> Stop End_Elsewhere d
               | Autonomy_Cancelled \<Rightarrow> Stop End_Cancelled d
               | Autonomy_Blocked cls \<Rightarrow>
                   closing cls (Reason_Autonomy (stg_ID st)) (escalate_with_item cfg now cls (Reason_Autonomy (stg_ID st)) d)
               | Autonomy_Allowed \<Rightarrow>
                   if \<not> tn_Degraded t
                   then closing Class_Config (Reason_Degraded (stg_ID st))
                          (escalate_with_item cfg now Class_Config (Reason_Degraded (stg_ID st)) d)
                   else
                     (let d1 = others (tn_Checked t) d in
                      if stg_Type st = Kind_Auto_Gate then gate_visit cfg t st d1 else stage_visit cfg t st d1))))"

text \<open>\<open>None\<close>: the drive is still running after these turns.\<close>

fun drive_loop :: "runner_config \<Rightarrow> turn list \<Rightarrow> drive \<Rightarrow> ending option \<times> drive" where
  "drive_loop cfg [] d = (None, d)"
| "drive_loop cfg (t # ts) d = (case drive_turn cfg t d of Next d1 \<Rightarrow> drive_loop cfg ts d1 | Stop e d1 \<Rightarrow> (Some e, d1))"

datatype health = Health_Allowed | Health_Blocked error_class

text \<open>What comes before the loop: the terminal check, the health gates, and the local state from the tables.\<close>

definition start_drive ::
  "runner_config \<Rightarrow> time \<Rightarrow> health \<Rightarrow> pipeline_run \<Rightarrow> backlog_item option \<Rightarrow> mills_db \<Rightarrow> stage_row list \<Rightarrow>
   gate_row list \<Rightarrow> head_ledger \<Rightarrow> turn_result" where
  "start_drive cfg now h run item db stages gates heads =
     (let d = \<lparr>hd_Run = run, hd_Item = item, hd_DB = db, dr_Index = 0, dr_Start = 0, dr_Resuming = (pr_CurrentStage run \<noteq> ''''),
               dr_Attempts = seed_attempts (list_stages (pr_ID run) stages), dr_Effective = (\<lambda>_. 0),
               dr_Streaks = Map.empty,
               dr_RetryCtxs = seed_retry_contexts (rc_Stages cfg) (pr_ID run) gates,
               dr_Unparseable = (\<lambda>_. 0), dr_Transport = (\<lambda>_. 0), dr_Evaluated = False,
               dr_RetestPending = False, dr_Ordered = 0, dr_Prior = load_prior_outputs (pr_ID run) stages,
               dr_Stages = stages, dr_Gates = gates, dr_Heads = heads, dr_Log = []\<rparr>
      in if run_terminated d then Stop End_Elsewhere d
         else (case h of
                 Health_Blocked cls \<Rightarrow>
                   closing cls Reason_Health_Gates (escalate_with_item cfg now cls Reason_Health_Gates d)
               | Health_Allowed \<Rightarrow>
                   (case resume_index (rc_Stages cfg) run of
                      None \<Rightarrow> Stop End_Error d | Some i \<Rightarrow> Next (d\<lparr>dr_Index := i, dr_Start := i\<rparr>))))"

end
