(* ===== verification/Runner_Path.thy ===== *)
theory Runner_Path
  imports Runner_Drive
begin

text \<open>
  The path a drive takes through the stages, abstracted from what the stages do: its index, its
  counters and the log of what was dispatched and passed.  The abstract runner is a step relation
  \<open>moves\<close>, one rule for each way the loop goes on; every turn of the loop that does not stop is
  one of its moves.
\<close>

section \<open>What a turn leaves alone\<close>

text \<open>The parts of a drive that are its own are what the record of the held run is extended by.\<close>

lemma more_eq:
  assumes "held.more d' = held.more (d :: drive)"
  shows "dr_Index d' = dr_Index d" "dr_Start d' = dr_Start d" "dr_Resuming d' = dr_Resuming d" "dr_Attempts d' = dr_Attempts d"
    "dr_Effective d' = dr_Effective d" "dr_Streaks d' = dr_Streaks d" "dr_RetryCtxs d' = dr_RetryCtxs d"
    "dr_Unparseable d' = dr_Unparseable d" "dr_Transport d' = dr_Transport d"
    "dr_Evaluated d' = dr_Evaluated d" "dr_RetestPending d' = dr_RetestPending d" "dr_Ordered d' = dr_Ordered d"
    "dr_Prior d' = dr_Prior d" "dr_Stages d' = dr_Stages d" "dr_Gates d' = dr_Gates d"
    "dr_Heads d' = dr_Heads d" "dr_Log d' = dr_Log d"
  using assms by (cases d; cases d'; simp)+

lemma more_simps [simp]:
  "held.more (set_run f h) = held.more h"
  "held.more (others ops h) = held.more h"
  "held.more (stamp md h) = held.more h"
  by (simp_all add: set_run_def others_def stamp_def)

lemma more_persist [simp]: "held.more (snd (persist_run now h)) = held.more h"
  by (simp add: persist_run_def split: sum.split prod.split)

lemma more_transition [simp]: "held.more (snd (transition_item s now h)) = held.more h"
  by (simp add: transition_item_def split: sum.split prod.split option.split)

lemma more_stamp_escalation [simp]: "held.more (stamp_escalation_metadata cfg cls r h) = held.more h"
  by (simp add: stamp_escalation_metadata_def Let_def)

lemma more_end_run [simp]: "held.more (snd (end_run s now h)) = held.more h"
  by (simp add: end_run_def)

lemma more_settle [simp]: "held.more (snd (settle_item s now h)) = held.more h"
  by (simp add: settle_item_def split: option.split)

lemma more_end_run': "end_run s now h = (e, h') \<Longrightarrow> held.more h' = held.more h"
  using more_end_run [of s now h] by simp

lemma more_auto_retry [simp]: "held.more (snd (maybe_auto_retry cfg now cls r h)) = held.more h"
  by (auto simp: maybe_auto_retry_def dest: more_end_run' split: option.split prod.split)

lemma more_escalate [simp]: "held.more (snd (escalate cfg now cls r h)) = held.more h"
  by (auto simp: escalate_def Let_def dest!: more_end_run' split: option.split prod.split)

lemma more_auto_retry': "maybe_auto_retry cfg now cls r h = (b, h') \<Longrightarrow> held.more h' = held.more h"
  using more_auto_retry [of cfg now cls r h] by (simp del: more_auto_retry)

lemma more_escalate_policy [simp]: "held.more (snd (escalate_with_item_policy b cfg now cls r h)) = held.more h"
  by (auto simp: escalate_with_item_policy_def dest: more_auto_retry' split: bool.split prod.split)

lemma more_escalate_policy':
  "escalate_with_item_policy b cfg now cls r h = (e, h') \<Longrightarrow> held.more h' = held.more h"
  using more_escalate_policy [of b cfg now cls r h] by (simp del: more_escalate_policy)

lemma more_escalate_item [simp]: "held.more (snd (escalate_with_item cfg now cls r h)) = held.more h"
  by (simp add: escalate_with_item_def)

lemma more_baseline [simp]: "held.more (snd (escalate_devbox_baseline cfg now st h)) = held.more h"
  by (simp add: escalate_devbox_baseline_def)

lemma more_stall [simp]: "held.more (snd (escalate_ci_watch_stall cfg now st url h)) = held.more h"
  by (auto simp: escalate_ci_watch_stall_def escalate_with_item_def dest: more_escalate_policy' split: option.split prod.split)

lemma more_red [simp]: "held.more (snd (escalate_ci_watch_baseline_red cfg now st h)) = held.more h"
  by (auto simp: escalate_ci_watch_baseline_red_def Let_def dest!: more_escalate_policy' split: option.split prod.split)

lemma more_done [simp]: "held.more (snd (mark_done now h)) = held.more h"
  by (auto simp: mark_done_def dest!: more_end_run' split: option.split prod.split)

text \<open>A drive that is closed keeps its path.\<close>

fun result_of :: "turn_result \<Rightarrow> drive" where
  "result_of (Next d) = d"
| "result_of (Stop e d) = d"

lemma closing_result [simp]: "result_of (closing c r p) = snd p"
  by (simp add: closing_def split: prod.split option.split)

lemma closing_stops [simp]: "closing c r p \<noteq> Next d"
  by (simp add: closing_def split: prod.split option.split)

section \<open>The abstract runner\<close>

record path =
  pa_Index :: nat
  pa_Log :: "drive_event list"
  pa_Attempts :: "string \<Rightarrow> int"
  pa_Unparseable :: "string \<Rightarrow> nat"
  pa_Transport :: "string \<Rightarrow> nat"
  pa_Evaluated :: bool
  pa_RetestPending :: bool
  pa_Ordered :: nat

definition path_of :: "drive \<Rightarrow> path" where
  "path_of d = \<lparr>pa_Index = dr_Index d, pa_Log = dr_Log d, pa_Attempts = dr_Attempts d,
     pa_Unparseable = dr_Unparseable d, pa_Transport = dr_Transport d, pa_Evaluated = dr_Evaluated d,
     pa_RetestPending = dr_RetestPending d, pa_Ordered = dr_Ordered d\<rparr>"

lemma path_of_sel [simp]:
  "pa_Index (path_of d) = dr_Index d" "pa_Log (path_of d) = dr_Log d" "pa_Attempts (path_of d) = dr_Attempts d"
  "pa_Unparseable (path_of d) = dr_Unparseable d" "pa_Transport (path_of d) = dr_Transport d"
  "pa_Evaluated (path_of d) = dr_Evaluated d" "pa_RetestPending (path_of d) = dr_RetestPending d"
  "pa_Ordered (path_of d) = dr_Ordered d"
  by (simp_all add: path_of_def)

text \<open>Every registered gate of the stage has passed, or only the scope gate failed and the scope was widened.\<close>

definition registered :: "runner_config \<Rightarrow> string \<Rightarrow> bool" where
  "registered cfg g \<longleftrightarrow> (case rc_Gates cfg of None \<Rightarrow> False | Some known \<Rightarrow> g \<in> set known)"

definition judged :: "runner_config \<Rightarrow> stage \<Rightarrow> (string \<times> gate_outcome) list \<Rightarrow> bool \<Rightarrow> bool" where
  "judged cfg st os amended \<longleftrightarrow>
     (\<forall>g \<in> set (stg_Gates st). registered cfg g \<longrightarrow>
        (\<exists>o'. (g, o') \<in> set os \<and> (go_Pass o' \<or> amended \<and> g = ''scope''))) \<and>
     (amended \<longrightarrow> stg_ID st = ''post_implement_gate'')"

definition gate_at :: "runner_config \<Rightarrow> path \<Rightarrow> stage \<Rightarrow> bool" where
  "gate_at cfg p st \<longleftrightarrow> pa_Index p < length (rc_Stages cfg) \<and> rc_Stages cfg ! pa_Index p = st \<and>
     stg_Type st = Kind_Auto_Gate"

definition worker_at :: "runner_config \<Rightarrow> path \<Rightarrow> stage \<Rightarrow> bool" where
  "worker_at cfg p st \<longleftrightarrow> pa_Index p < length (rc_Stages cfg) \<and> rc_Stages cfg ! pa_Index p = st \<and>
     stg_Type st \<noteq> Kind_Auto_Gate"

text \<open>The check of the reviewed head is made, and a re-test may be settled by it.\<close>

definition head_checked :: "path \<Rightarrow> path \<Rightarrow> bool" where
  "head_checked p q \<longleftrightarrow>
     q = p\<lparr>pa_Evaluated := pa_Evaluated q, pa_RetestPending := pa_RetestPending q\<rparr> \<and>
     (pa_Evaluated p \<longrightarrow> pa_Evaluated q) \<and> (pa_RetestPending q \<longrightarrow> pa_RetestPending p)"

definition total_attempts :: "runner_config \<Rightarrow> int" where
  "total_attempts cfg = max_attempts cfg + transient_retry_cap cfg"

text \<open>\<open>fresh\<close>: attempts are counted one by one; \<open>reattach\<close>: a watch of the CI goes on beyond the caps.\<close>

inductive moves :: "runner_config \<Rightarrow> bool \<Rightarrow> bool \<Rightarrow> path \<Rightarrow> path \<Rightarrow> bool"
  for cfg :: runner_config and fresh :: bool and reattach :: bool where
  gate_passed: "gate_at cfg p st \<Longrightarrow> judged cfg st os amended \<Longrightarrow> head_checked p q \<Longrightarrow>
    moves cfg fresh reattach p
      (q\<lparr>pa_Index := pa_Index p + 1, pa_Log := pa_Log p @ [Passed (pa_Index p) os amended]\<rparr>)"
| ungradeable: "gate_at cfg p st \<Longrightarrow> pa_Unparseable p (stg_ID st) < max_judge_retries \<Longrightarrow> head_checked p q \<Longrightarrow>
    moves cfg fresh reattach p
      (q\<lparr>pa_Unparseable := (pa_Unparseable p)(stg_ID st := pa_Unparseable p (stg_ID st) + 1)\<rparr>)"
| gate_errored: "gate_at cfg p st \<Longrightarrow> pa_Transport p (stg_ID st) < max_judge_retries \<Longrightarrow> head_checked p q \<Longrightarrow>
    moves cfg fresh reattach p
      (q\<lparr>pa_Transport := (pa_Transport p)(stg_ID st := pa_Transport p (stg_ID st) + 1)\<rparr>)"
| rewound: "gate_at cfg p st \<Longrightarrow> stg_RetryFrom st \<noteq> '''' \<Longrightarrow>
    index_of (rc_Stages cfg) (stg_RetryFrom st) = Some back \<Longrightarrow>
    pa_Attempts p (stg_RetryFrom st) < max_attempts cfg \<Longrightarrow> head_checked p q \<Longrightarrow>
    moves cfg fresh reattach p (q\<lparr>pa_Index := back\<rparr>)"
| retested: "gate_at cfg p st \<Longrightarrow> stg_ID st = ''post_review_gate'' \<Longrightarrow>
    index_of (rc_Stages cfg) ''tests'' = Some back \<Longrightarrow> pa_Ordered p < max_review_head_retests \<Longrightarrow>
    moves cfg fresh reattach p
      (p\<lparr>pa_Index := back, pa_Ordered := pa_Ordered p + 1, pa_Evaluated := True, pa_RetestPending := True\<rparr>)"
| skipped: "worker_at cfg p st \<Longrightarrow> pa_Evaluated p \<longrightarrow> pa_RetestPending p \<Longrightarrow>
    moves cfg fresh reattach p
      (p\<lparr>pa_Index := pa_Index p + 1, pa_Log := pa_Log p @ [Passed (pa_Index p) [] False],
         pa_Evaluated := True, pa_RetestPending := False\<rparr>)"
| worked: "worker_at cfg p st \<Longrightarrow> head_checked p q \<Longrightarrow> ds \<in> {[], [Dispatched (pa_Index p) a]} \<Longrightarrow>
    fresh \<longrightarrow> a = pa_Attempts p (stg_ID st) + 1 \<Longrightarrow>
    moves cfg fresh reattach p
      (q\<lparr>pa_Index := pa_Index p + 1, pa_Log := pa_Log p @ ds @ [Passed (pa_Index p) [] False],
         pa_Attempts := (pa_Attempts p)(stg_ID st := a)\<rparr>)"
| retried: "worker_at cfg p st \<Longrightarrow> head_checked p q \<Longrightarrow> ds \<in> {[], [Dispatched (pa_Index p) a]} \<Longrightarrow>
    fresh \<longrightarrow> b = pa_Attempts p (stg_ID st) + 1 \<Longrightarrow> reattach \<or> b < total_attempts cfg \<Longrightarrow>
    moves cfg fresh reattach p
      (q\<lparr>pa_Log := pa_Log p @ ds, pa_Attempts := (pa_Attempts p)(stg_ID st := b)\<rparr>)"

section \<open>What the parts of a turn leave alone\<close>

lemma path_more: "held.more d' = held.more (d :: drive) \<Longrightarrow> path_of d' = path_of d"
  by (simp add: path_of_def more_eq [of d' d])

lemma run_gate_frame:
  "run_gate cfg t st d = (v, d') \<Longrightarrow> path_of d' = path_of d \<and> dr_Stages d' = dr_Stages d \<and> hd_Run d' = hd_Run d"
  by (auto simp: run_gate_def path_of_def Let_def split: option.splits if_splits sum.splits)

lemma maybe_amend_frame:
  "maybe_amend_scope t st d = (b, v, d') \<Longrightarrow>
   path_of d' = path_of d \<and> dr_Stages d' = dr_Stages d \<and> hd_Run d' = hd_Run d"
  by (auto simp: maybe_amend_scope_def path_of_def Let_def split: option.splits if_splits prod.splits)

lemma advance_result:
  "advance os am d = Next (d\<lparr>dr_Log := dr_Log d @ [Passed (dr_Index d) os am], dr_Index := dr_Index d + 1\<rparr>)"
  by (simp add: advance_def log_event_def)

lemma path_advance: "advance os am d = Next d' \<Longrightarrow>
    path_of d' = (path_of d)\<lparr>pa_Index := dr_Index d + 1, pa_Log := dr_Log d @ [Passed (dr_Index d) os am]\<rparr>"
  by (auto simp: advance_result path_of_def)

lemma path_put_row [simp]: "path_of (snd (put_row now r d)) = path_of d"
  by (simp add: put_row_def path_of_def split: sum.split)

lemma path_put_row': "put_row now r d = (e, d') \<Longrightarrow> path_of d' = path_of d"
  using path_put_row [of now r d] by (simp del: path_put_row)

lemma path_set_run [simp]: "path_of (set_run f d) = path_of d"
  by (rule path_more) simp

lemma path_others [simp]: "path_of (others ops d) = path_of d"
  by (rule path_more) simp

lemma path_persist [simp]: "path_of (snd (persist_run now d)) = path_of d"
  by (rule path_more) simp

lemma path_persist': "persist_run now d = (e, d') \<Longrightarrow> path_of d' = path_of d"
  using path_persist [of now d] by (simp del: path_persist)

lemma path_record_call [simp]: "path_of (record_call now st a started c d) = path_of d"
  by (simp add: record_call_def)

lemma path_record_calls [simp]: "path_of (fold (record_call now st a started) cs d) = path_of d"
  by (induction cs arbitrary: d) simp_all

lemma path_log_event [simp]: "path_of (log_event e d) = (path_of d)\<lparr>pa_Log := dr_Log d @ [e]\<rparr>"
  by (simp add: log_event_def path_of_def)

lemma path_begin: "begin_stage t st a resumed d = (e, d') \<Longrightarrow> path_of d' = path_of d"
  by (auto simp: begin_stage_def dest!: path_put_row' path_persist' split: prod.splits option.splits if_splits)

lemma path_escalate_policy: "escalate_with_item_policy b cfg now cls r d = (e, d') \<Longrightarrow> path_of d' = path_of d"
  by (rule path_more) (rule more_escalate_policy')

text \<open>A worker is asked once at most.\<close>

definition logged :: "drive \<Rightarrow> int \<Rightarrow> path \<Rightarrow> bool" where
  "logged d a p \<longleftrightarrow> (\<exists>ds \<in> {[], [Dispatched (dr_Index d) a]}. p = (path_of d)\<lparr>pa_Log := dr_Log d @ ds\<rparr>)"

lemma logged_refl: "p = path_of d \<Longrightarrow> logged d a p"
  by (auto simp: logged_def path_of_def)

lemma logged_cong: "path_of d1 = path_of d \<Longrightarrow> logged d1 a p \<Longrightarrow> logged d a p"
  by (metis logged_def path_of_sel(1) path_of_sel(2))

lemma logged_once: "p = (path_of d)\<lparr>pa_Log := dr_Log d @ [Dispatched (dr_Index d) a]\<rparr> \<Longrightarrow> logged d a p"
  by (simp add: logged_def)

lemma path_dispatch: "dispatch_work cfg t st a started d = (r, d') \<Longrightarrow> logged d a (path_of d')"
  by (auto simp: dispatch_work_def Let_def intro: logged_refl logged_once
      dest!: path_escalate_policy split: readiness.splits if_splits prod.splits option.splits)

lemma path_do_work: "do_work cfg t st a started pending d = (r, d') \<Longrightarrow> logged d a (path_of d')"
  by (auto simp: do_work_def intro: logged_refl dest: path_dispatch split: if_splits option.splits)

lemma path_park: "park_pending_spawn t st a started out err n d = (e, d') \<Longrightarrow> path_of d' = path_of d"
  by (auto simp: park_pending_spawn_def dest!: path_put_row' split: prod.splits option.splits)

lemma path_record_result: "record_result t st a started out derr d = (e, d') \<Longrightarrow> path_of d' = path_of d"
  by (auto simp: record_result_def Let_def dest!: path_put_row' path_persist'
      split: prod.splits option.splits if_splits)

lemma path_stop_stalled: "stop_stalled t st a started n out f d = (r, d') \<Longrightarrow> path_of d' = path_of d"
  by (auto simp: stop_stalled_def Let_def dest!: path_park path_record_result split: prod.splits if_splits)

lemma path_settle: "settle_stage t st a started pending out derr d = (r, d') \<Longrightarrow> path_of d' = path_of d"
  by (auto simp: settle_stage_def Let_def dest!: path_park path_record_result path_stop_stalled
      split: prod.splits option.splits if_splits)

lemma path_run_stage:
  assumes "run_stage cfg t st a pending d = (r, d')"
  shows "logged d a (path_of d')"
proof -
  obtain e d1 where b: "begin_stage t st a (pending \<noteq> None) d = (e, d1)" by fastforce
  have p1: "path_of d1 = path_of d" using b by (rule path_begin)
  show ?thesis
  proof (cases e)
    case (Some f)
    then show ?thesis using assms b p1 by (auto simp: run_stage_def Let_def intro: logged_refl)
  next
    case None
    obtain out derr d2 where w: "do_work cfg t st a (case pending of None \<Rightarrow> tn_Now t | Some p \<Rightarrow> sg_StartedAt p)
        pending d1 = ((out, derr), d2)" by (metis prod.exhaust)
    have "path_of d' = path_of d2"
      using assms b None w by (auto simp: run_stage_def Let_def dest!: path_settle split: if_splits)
    then show ?thesis using logged_cong [OF p1] path_do_work [OF w] by simp
  qed
qed

section \<open>A failed stage\<close>

lemma path_ends [simp]:
  "path_of (snd (escalate_with_item_policy b cfg now cls r d)) = path_of d"
  "path_of (snd (escalate_with_item cfg now cls r d)) = path_of d"
  "path_of (snd (escalate_devbox_baseline cfg now st d)) = path_of d"
  "path_of (snd (escalate_ci_watch_stall cfg now st url d)) = path_of d"
  "path_of (snd (escalate_ci_watch_baseline_red cfg now st d)) = path_of d"
  "path_of (snd (mark_done now d)) = path_of d"
  by (rule path_more, simp)+

lemma path_classified: "persist_attempt_classification t i a c n d = (ok, d') \<Longrightarrow> path_of d' = path_of d"
  by (auto simp: persist_attempt_classification_def dest!: path_put_row' split: option.splits prod.splits)

lemma path_streaks [simp]:
  "path_of (d\<lparr>dr_Streaks := x\<rparr>) = path_of d" "path_of (d\<lparr>dr_Effective := y\<rparr>) = path_of d"
  "path_of (d\<lparr>dr_Prior := z\<rparr>) = path_of d" "path_of (d\<lparr>dr_RetryCtxs := w\<rparr>) = path_of d"
  "path_of (d\<lparr>dr_Heads := v\<rparr>) = path_of d" "path_of (d\<lparr>dr_Stages := u\<rparr>) = path_of d"
  "path_of (d\<lparr>dr_Gates := k\<rparr>) = path_of d" "path_of (d\<lparr>hd_Item := m\<rparr>) = path_of d"
  "path_of (d\<lparr>hd_DB := db\<rparr>) = path_of d"
  by (simp_all add: path_of_def)

lemma path_attempts [simp]: "path_of (d\<lparr>dr_Attempts := f\<rparr>) = (path_of d)\<lparr>pa_Attempts := f\<rparr>"
  by (simp add: path_of_def)

lemma path_count [simp]: "path_of (count_failure cls i d) = path_of d"
  by (simp add: count_failure_def)

lemma path_retry_stage:
  assumes "retry_stage cfg t st f cls d = r"
  shows "path_of (result_of r) = path_of d"
    and "r = Next d' \<Longrightarrow> (stg_ID st = ''ci_watch'' \<and> fl_CIPollTimeout f) \<or> dr_Attempts d (stg_ID st) < total_attempts cfg"
  using assms
  by (auto simp: retry_stage_def Let_def total_attempts_def
      dest!: path_classified split: prod.splits bool.splits if_splits)

lemma path_hopeless:
  assumes "hopeless cfg t st f cls d = Some r"
  shows "path_of (result_of r) = path_of d" "r \<noteq> Next d'"
  using assms by (auto simp: hopeless_def Let_def split: if_splits option.splits)

lemma path_movement: "record_movement t m d = (ok, d') \<Longrightarrow> path_of d' = path_of d"
  by (auto simp: record_movement_def split: option.splits prod.splits sum.splits)

lemma path_head_movement:
  assumes "record_external_head_movement cfg t st m d = r"
  shows "path_of (result_of r) = path_of d" "r \<noteq> Next d'"
  using assms by (auto simp: record_external_head_movement_def Let_def 
      dest!: path_movement path_persist' split: prod.splits bool.splits if_splits option.splits)

definition settled_attempts :: "drive \<Rightarrow> string \<Rightarrow> int option \<Rightarrow> string \<Rightarrow> int" where
  "settled_attempts d i deduped = (case deduped of None \<Rightarrow> dr_Attempts d | Some a \<Rightarrow> (dr_Attempts d)(i := a))"

definition reattached :: "stage \<Rightarrow> failure \<Rightarrow> bool" where
  "reattached st f \<longleftrightarrow> stg_ID st = ''ci_watch'' \<and> fl_CIPollTimeout f"

lemma failed_path:
  "path_of (result_of (failed_stage cfg t st f deduped out d)) =
     (path_of d)\<lparr>pa_Attempts := if fl_SpawnConflict f then dr_Attempts d else settled_attempts d (stg_ID st) deduped\<rparr>"
  by (auto simp: failed_stage_def Let_def path_retry_stage(1) [OF refl] path_head_movement(1) [OF refl]
      settled_attempts_def path_hopeless(1) split: option.split)

lemma failed_next:
  assumes next_d: "failed_stage cfg t st f deduped out d = Next d'"
  shows "\<not> fl_SpawnConflict f"
    and "reattached st f \<or> settled_attempts d (stg_ID st) deduped (stg_ID st) < total_attempts cfg"
proof -
  define d1 where "d1 = (if stg_ID st = ''ci_watch'' \<and> so_Artifacts out \<noteq> None
      then d\<lparr>dr_Prior := (dr_Prior d)(ci_watch_state_key \<mapsto> no_output\<lparr>so_Artifacts := so_Artifacts out\<rparr>)\<rparr> else d)"
  define d2 where "d2 = (case deduped of None \<Rightarrow> d1 | Some a \<Rightarrow> d1\<lparr>dr_Attempts := (dr_Attempts d1)(stg_ID st := a)\<rparr>)"
  define c where "c = handled_class d2 f"
  define d3 where "d3 = count_failure c (stg_ID st) d2"
  have eq: "failed_stage cfg t st f deduped out d = (if fl_SpawnConflict f then Stop End_Conflict d1
      else if fl_BaselineFails f then closing Class_Infra (Reason_Baseline_Fails (stg_ID st))
             (escalate_devbox_baseline cfg (tn_Now t) (stg_ID st) d2)
      else case fl_HeadMoved f of Some m \<Rightarrow> record_external_head_movement cfg t st m d2
         | None \<Rightarrow> (case hopeless cfg t st f c d3 of Some r \<Rightarrow> r | None \<Rightarrow> retry_stage cfg t st f c d3))"
    unfolding failed_stage_def Let_def d1_def d2_def c_def d3_def by (rule refl)
  show "\<not> fl_SpawnConflict f" using next_d by (auto simp: eq)
  have "retry_stage cfg t st f c d3 = Next d'"
    using next_d path_head_movement(2) [of cfg t st _ d2 _ d'] path_hopeless(2) [of cfg t st f c d3 _ d']
    by (auto simp: eq split: if_splits option.splits)
  from path_retry_stage(2) [OF this refl]
  have "reattached st f \<or> dr_Attempts d3 (stg_ID st) < total_attempts cfg" by (simp add: reattached_def)
  moreover have "dr_Attempts d3 = dr_Attempts d2" by (simp add: d3_def count_failure_def)
  moreover have "dr_Attempts d2 = settled_attempts d (stg_ID st) deduped"
    by (simp add: d2_def d1_def settled_attempts_def split: option.split)
  ultimately show "reattached st f \<or> settled_attempts d (stg_ID st) deduped (stg_ID st) < total_attempts cfg"
    by simp
qed

section \<open>A visit to a worker stage\<close>

lemma path_hydrate [simp]: "path_of (hydrate_slice_scope t d) = path_of d"
  by (auto simp: hydrate_slice_scope_def Let_def split: option.splits sum.splits prod.splits)

lemma path_finished:
  assumes "finished_stage t st out d = r"
  obtains d' where "r = Next d'"
    "path_of d' = (path_of d)\<lparr>pa_Index := dr_Index d + 1, pa_Log := dr_Log d @ [Passed (dr_Index d) [] False]\<rparr>"
proof -
  have *: "r = advance [] False e \<Longrightarrow> path_of e = path_of d \<Longrightarrow> thesis" for e
    using that by (auto simp: advance_result path_of_def)
  show thesis using assms by (auto simp: finished_stage_def Let_def elim!: * split: if_splits)
qed

text \<open>The failure that lets a watch of the CI go on comes from the worker.\<close>

fun failure_in :: "stage_end \<Rightarrow> failure option" where
  "failure_in (Stage_Failed f) = Some f"
| "failure_in (Stage_Deduped f a) = Some f"
| "failure_in _ = None"

definition polled :: "failure option \<Rightarrow> bool" where
  "polled x \<longleftrightarrow> (case x of None \<Rightarrow> False | Some f \<Rightarrow> fl_CIPollTimeout f)"

lemma polled_simps [simp]:
  "polled None = False" "polled (Some f) = fl_CIPollTimeout f"
  by (simp_all add: polled_def)

lemma polled_plain [simp]: "fl_CIPollTimeout (plain_failure msg cls) = False"
    "fl_CIPollTimeout (store_failure t) = False" "fl_CIPollTimeout (put_failure t e) = False"
  by (simp_all add: plain_failure_def store_failure_def put_failure_def)

lemma polled_park: "park_pending_spawn t st a started out err n d = (e, d') \<Longrightarrow> \<not> polled (failure_in e)"
  by (auto simp: park_pending_spawn_def split: prod.splits option.splits)

lemma polled_record: "record_result t st a started out derr d = (e, d') \<Longrightarrow> polled (failure_in e) \<Longrightarrow> polled derr"
  by (auto simp: record_result_def Let_def split: prod.splits option.splits if_splits)

lemma polled_stop: "stop_stalled t st a started n out f d = ((e, out'), d') \<Longrightarrow> polled (failure_in e) \<Longrightarrow>
    fl_CIPollTimeout f"
  by (auto simp: stop_stalled_def Let_def dest: polled_park dest!: polled_record split: prod.splits if_splits)

lemma polled_settle: "settle_stage t st a started pending out derr d = ((e, out'), d') \<Longrightarrow>
    polled (failure_in e) \<Longrightarrow> polled derr"
  by (auto simp: settle_stage_def Let_def dest: polled_park polled_record polled_stop
      split: prod.splits option.splits if_splits)

lemma polled_work: "do_work cfg t st a started pending d = ((out, derr), d') \<Longrightarrow> polled derr \<Longrightarrow>
    polled (dp_Failure (tn_Report t))"
  by (auto simp: do_work_def dispatch_work_def Let_def split: prod.splits option.splits if_splits readiness.splits)

lemma polled_begin: "begin_stage t st a b d = (e, d') \<Longrightarrow> \<not> polled e"
  by (auto simp: begin_stage_def polled_def split: prod.splits option.splits if_splits)

lemma polled_run_stage:
  assumes "run_stage cfg t st a pending d = ((e, out), d')" "polled (failure_in e)"
  shows "polled (dp_Failure (tn_Report t))"
  using assms
  by (auto simp: run_stage_def Let_def dest!: polled_settle polled_work dest: polled_begin split: prod.splits option.splits if_splits)

text \<open>How one attempt at a stage goes on: it is passed, or it has failed below the caps.\<close>

definition attempt_moves :: "runner_config \<Rightarrow> bool \<Rightarrow> bool \<Rightarrow> stage \<Rightarrow> int \<Rightarrow> drive \<Rightarrow> path \<Rightarrow> bool" where
  "attempt_moves cfg fresh reattach st a d p \<longleftrightarrow>
     (\<exists>ds \<in> {[], [Dispatched (dr_Index d) a]}.
        p = (path_of d)\<lparr>pa_Index := dr_Index d + 1, pa_Attempts := (dr_Attempts d)(stg_ID st := a),
              pa_Log := dr_Log d @ ds @ [Passed (dr_Index d) [] False]\<rparr> \<or>
        (\<exists>b. (reattach \<or> b < total_attempts cfg) \<and> (fresh \<longrightarrow> b = a) \<and>
           p = (path_of d)\<lparr>pa_Attempts := (dr_Attempts d)(stg_ID st := b), pa_Log := dr_Log d @ ds\<rparr>))"

definition reattaching :: "turn \<Rightarrow> stage \<Rightarrow> bool" where
  "reattaching t st \<longleftrightarrow> stg_ID st = ''ci_watch'' \<and> polled (dp_Failure (tn_Report t))"

definition prepared :: "stage \<Rightarrow> int \<Rightarrow> drive \<Rightarrow> drive" where
  "prepared st a d = d\<lparr>dr_Attempts := (dr_Attempts d)(stg_ID st := a),
     dr_RetryCtxs := (case dr_RetryCtxs d (stg_ID st) of None \<Rightarrow> dr_RetryCtxs d
       | Some rc \<Rightarrow> (dr_RetryCtxs d)(stg_ID st \<mapsto> rc\<lparr>rx_Attempt := a\<rparr>))\<rparr>"

text \<open>The result of a spawn whose polling had timed out belongs to an earlier attempt.\<close>

definition counted :: "runner_config \<Rightarrow> turn \<Rightarrow> stage \<Rightarrow> int \<Rightarrow> stage_row option \<Rightarrow> drive \<Rightarrow> bool" where
  "counted cfg t st a pending d =
     (case run_stage cfg t st a pending (prepared st a d) of
        ((Stage_Deduped f b, out), d') \<Rightarrow> False | _ \<Rightarrow> True)"

lemma path_prepared [simp]: "path_of (prepared st a d) = (path_of d)\<lparr>pa_Attempts := (dr_Attempts d)(stg_ID st := a)\<rparr>"
  by (simp add: prepared_def path_of_def)

lemma logged_prepared:
  "logged (prepared st a d) a (path_of d1) \<Longrightarrow>
   \<exists>ds \<in> {[], [Dispatched (dr_Index d) a]}.
     path_of d1 = (path_of d)\<lparr>pa_Attempts := (dr_Attempts d)(stg_ID st := a), pa_Log := dr_Log d @ ds\<rparr>"
  by (auto simp: logged_def prepared_def path_of_def)

lemma run_attempt_unfold:
  "run_attempt cfg t st a pending d = (case run_stage cfg t st a pending (prepared st a d) of
     ((e, out), d2) \<Rightarrow>
       if e = Stage_Cancelled \<or> dp_CancelledLate (tn_Report t) then Stop End_Cancelled d2
       else (case e of
               Stage_Done \<Rightarrow> finished_stage t st out d2
             | Stage_Parked \<Rightarrow> Stop End_Pending d2
             | Stage_Terminated \<Rightarrow> Stop End_Elsewhere d2
             | Stage_Failed f \<Rightarrow> failed_stage cfg t st f None out d2
             | Stage_Deduped f b \<Rightarrow> failed_stage cfg t st f (Some b) out d2
             | Stage_Cancelled \<Rightarrow> Stop End_Cancelled d2))"
  by (simp add: run_attempt_def prepared_def Let_def)

lemma failed_moves:
  assumes next_d: "failed_stage cfg t st f deduped out d1 = Next d'"
    and path: "path_of d1 = (path_of d)\<lparr>pa_Attempts := (dr_Attempts d)(stg_ID st := a), pa_Log := dr_Log d @ ds\<rparr>"
    and ds: "ds \<in> {[], [Dispatched (dr_Index d) a]}" and poll: "reattached st f \<Longrightarrow> reattach"
    and fresh: "fresh \<Longrightarrow> deduped = None"
  shows "attempt_moves cfg fresh reattach st a d (path_of d')"
proof -
  define b where "b = (case deduped of None \<Rightarrow> a | Some c \<Rightarrow> c)"
  have att: "dr_Attempts d1 = (dr_Attempts d)(stg_ID st := a)" and log: "dr_Log d1 = dr_Log d @ ds"
    using arg_cong [OF path, of pa_Attempts] arg_cong [OF path, of pa_Log] by simp_all
  have eff: "settled_attempts d1 (stg_ID st) deduped = (dr_Attempts d)(stg_ID st := b)"
    by (simp add: settled_attempts_def att b_def split: option.split)
  have "path_of d' = (path_of d1)\<lparr>pa_Attempts := (dr_Attempts d)(stg_ID st := b)\<rparr>"
    using failed_path [of cfg t st f deduped out d1] failed_next(1) [OF next_d] next_d eff by simp
  then have "path_of d' = (path_of d)\<lparr>pa_Attempts := (dr_Attempts d)(stg_ID st := b), pa_Log := dr_Log d @ ds\<rparr>"
    by (simp add: path)
  moreover have "reattach \<or> b < total_attempts cfg" using failed_next(2) [OF next_d] poll eff by auto
  moreover have "fresh \<longrightarrow> b = a" using fresh by (simp add: b_def)
  ultimately show ?thesis using ds unfolding attempt_moves_def by blast
qed

lemma run_attempt_next:
  assumes next_d: "run_attempt cfg t st a pending d = Next d'"
  shows "attempt_moves cfg (counted cfg t st a pending d) (reattaching t st) st a d (path_of d')"
proof -
  obtain e out d1 where r: "run_stage cfg t st a pending (prepared st a d) = ((e, out), d1)" by (metis prod.exhaust)
  obtain ds where ds: "ds \<in> {[], [Dispatched (dr_Index d) a]}" and
    path: "path_of d1 = (path_of d)\<lparr>pa_Attempts := (dr_Attempts d)(stg_ID st := a), pa_Log := dr_Log d @ ds\<rparr>"
    using logged_prepared [OF path_run_stage [OF r]] by blast
  have poll: "failure_in e = Some f \<Longrightarrow> reattached st f \<Longrightarrow> reattaching t st" for f
    using polled_run_stage [OF r] by (simp add: reattached_def reattaching_def)
  show ?thesis
  proof (cases e)
    case Stage_Done
    then have "finished_stage t st out d1 = Next d'"
      using next_d r by (auto simp: run_attempt_unfold split: if_splits)
    then obtain d2 where "Next d' = Next d2" and
      "path_of d2 = (path_of d1)\<lparr>pa_Index := dr_Index d1 + 1, pa_Log := dr_Log d1 @ [Passed (dr_Index d1) [] False]\<rparr>"
      by (rule path_finished)
    moreover have "dr_Index d1 = dr_Index d" "dr_Log d1 = dr_Log d @ ds"
      using arg_cong [OF path, of pa_Index] arg_cong [OF path, of pa_Log] by simp_all
    ultimately have "path_of d' = (path_of d)\<lparr>pa_Index := dr_Index d + 1,
        pa_Attempts := (dr_Attempts d)(stg_ID st := a), pa_Log := dr_Log d @ ds @ [Passed (dr_Index d) [] False]\<rparr>"
      by (simp add: path)
    then show ?thesis using ds unfolding attempt_moves_def by blast
  next
    case (Stage_Failed f)
    then have "failed_stage cfg t st f None out d1 = Next d'"
      using next_d r by (auto simp: run_attempt_unfold split: if_splits)
    then show ?thesis using path ds poll Stage_Failed by (auto elim!: failed_moves)
  next
    case (Stage_Deduped f b)
    then have "failed_stage cfg t st f (Some b) out d1 = Next d'"
      using next_d r by (auto simp: run_attempt_unfold split: if_splits)
    moreover have "\<not> counted cfg t st a pending d" using r Stage_Deduped by (simp add: counted_def)
    ultimately show ?thesis using path ds poll Stage_Deduped by (auto elim!: failed_moves)
  qed (use next_d r in \<open>auto simp: run_attempt_unfold split: if_splits\<close>)
qed

end
