(* ===== verification/Runner_Moves.thy ===== *)
theory Runner_Moves
  imports Runner_Path
begin

section \<open>A visit to a gate\<close>

lemma evaluate_names: "evaluate_all ev known inp ns = Inr os \<Longrightarrow> map fst os = ns"
  by (induction ns arbitrary: os) (auto split: if_splits sum.splits)

definition outcomes_for :: "runner_config \<Rightarrow> stage \<Rightarrow> (string \<times> gate_outcome) list \<Rightarrow> bool" where
  "outcomes_for cfg st os \<longleftrightarrow> (\<forall>g \<in> set (stg_Gates st). registered cfg g \<longrightarrow> g \<in> fst ` set os)"

lemma run_gate_outcomes:
  assumes "run_gate cfg t st d = (Inr v, d')"
  shows "outcomes_for cfg st (gv_Outcomes v)"
    and "gv_Pass v \<Longrightarrow> (g, o') \<in> set (gv_Outcomes v) \<Longrightarrow> go_Pass o'"
proof -
  show "outcomes_for cfg st (gv_Outcomes v)"
  proof (cases "rc_Gates cfg")
    case None
    then show ?thesis by (simp add: outcomes_for_def registered_def)
  next
    case (Some known)
    let ?run = "filter (\<lambda>g. g \<in> set known) (stg_Gates st)"
    have "?run = [] \<or> (\<exists>os inp. evaluate_all (tn_Gate t) known inp ?run = Inr os \<and> gv_Outcomes v = os)"
      using assms Some by (auto simp: run_gate_def Let_def split: if_splits sum.splits)
    then have "\<And>g. g \<in> set ?run \<Longrightarrow> g \<in> fst ` set (gv_Outcomes v)"
      by (auto dest!: evaluate_names simp del: set_filter) (metis list.set_map)
    then show ?thesis by (simp add: outcomes_for_def registered_def Some)
  qed
  show "go_Pass o'" if "gv_Pass v" "(g, o') \<in> set (gv_Outcomes v)"
    using assms that by (auto simp: run_gate_def Let_def filter_empty_conv split: if_splits sum.splits option.splits)
qed

lemma judged_all:
  assumes "outcomes_for cfg st os" "\<And>g o'. (g, o') \<in> set os \<Longrightarrow> go_Pass o'"
  shows "judged cfg st (ahead @ os) False"
  using assms unfolding judged_def outcomes_for_def by fastforce

text \<open>The scope gate alone has failed.\<close>

lemma judged_scope:
  assumes "outcomes_for cfg st (gv_Outcomes v)" "scope_only_failure v" "stg_ID st = ''post_implement_gate''"
  shows "judged cfg st (ahead @ gv_Outcomes v) True"
proof -
  have "g = ''scope'' \<or> go_Pass o'" if "(g, o') \<in> set (gv_Outcomes v)" for g o'
  proof (rule disjCI)
    assume "\<not> go_Pass o'"
    then have "(g, o') \<in> set (failed_outcomes v)" using that by (simp add: failed_outcomes_def)
    then have "fst (g, o') \<in> fst ` set (failed_outcomes v)" by (rule imageI)
    moreover have "set (map fst (failed_outcomes v)) = {''scope''}"
      using assms(2) by (simp only: scope_only_failure_def list.set)
    ultimately show "g = ''scope''" by simp
  qed
  then show ?thesis using assms(1,3) unfolding judged_def outcomes_for_def by fastforce
qed

text \<open>How a judged gate goes on.\<close>

definition gate_moves :: "runner_config \<Rightarrow> stage \<Rightarrow> (string \<times> gate_outcome) list \<Rightarrow> path \<Rightarrow> path \<Rightarrow> bool" where
  "gate_moves cfg st ahead p q \<longleftrightarrow>
     (\<exists>os amended. judged cfg st (ahead @ os) amended \<and>
        q = p\<lparr>pa_Index := pa_Index p + 1, pa_Log := pa_Log p @ [Passed (pa_Index p) (ahead @ os) amended]\<rparr>) \<or>
     (pa_Unparseable p (stg_ID st) < max_judge_retries \<and>
        q = p\<lparr>pa_Unparseable := (pa_Unparseable p)(stg_ID st := pa_Unparseable p (stg_ID st) + 1)\<rparr>) \<or>
     (pa_Transport p (stg_ID st) < max_judge_retries \<and>
        q = p\<lparr>pa_Transport := (pa_Transport p)(stg_ID st := pa_Transport p (stg_ID st) + 1)\<rparr>) \<or>
     (\<exists>k. stg_RetryFrom st \<noteq> '''' \<and> index_of (rc_Stages cfg) (stg_RetryFrom st) = Some k \<and>
        pa_Attempts p (stg_RetryFrom st) < max_attempts cfg \<and> q = p\<lparr>pa_Index := k\<rparr>)"

definition gate_result :: "runner_config \<Rightarrow> stage \<Rightarrow> (string \<times> gate_outcome) list \<Rightarrow> path \<Rightarrow> turn_result \<Rightarrow> bool" where
  "gate_result cfg st ahead p r \<longleftrightarrow>
     (case r of Next d \<Rightarrow> gate_moves cfg st ahead p (path_of d) | Stop e d \<Rightarrow> dr_Log d = pa_Log p)"

lemma gate_result_simps [simp]:
  "gate_result cfg st ahead p (Next d) = gate_moves cfg st ahead p (path_of d)"
  "gate_result cfg st ahead p (Stop e d) = (dr_Log d = pa_Log p)"
  by (simp_all add: gate_result_def)

lemma log_ends [simp]:
  "dr_Log (snd (escalate_with_item_policy b cfg now cls r d)) = dr_Log d"
  "dr_Log (snd (escalate_with_item cfg now cls r d)) = dr_Log d"
  "dr_Log (snd (escalate_devbox_baseline cfg now st d)) = dr_Log d"
  "dr_Log (snd (mark_done now d)) = dr_Log d"
  "dr_Log (record_scope_refusal t sg v d) = dr_Log d"
  by (rule more_eq, simp)+ (auto simp: record_scope_refusal_def set_run_def Let_def split: sum.split)

lemma gate_closing [simp]: "gate_result cfg st ahead p (closing c r x) \<longleftrightarrow> dr_Log (snd x) = pa_Log p"
  by (simp add: closing_def split: prod.split option.split)

lemma gate_advance:
  "judged cfg st (ahead @ os) amended \<Longrightarrow> path_of d = p \<Longrightarrow> gate_result cfg st ahead p (advance (ahead @ os) amended d)"
  by (auto simp: advance_result gate_moves_def path_of_def)

lemma path_refusal [simp]: "path_of (record_scope_refusal t st v d) = path_of d"
  by (auto simp: record_scope_refusal_def Let_def split: sum.split)

lemma gate_rewind:
  assumes p: "path_of d = p"
  shows "gate_result cfg st ahead p (rewind cfg t st v scope d)"
proof -
  have "\<not> (if scope \<noteq> None \<and> max_scope_retry_attempts < max_attempts cfg then max_scope_retry_attempts
      else max_attempts cfg) < dr_Attempts d (stg_RetryFrom st) + 1 \<Longrightarrow>
    pa_Attempts p (stg_RetryFrom st) < max_attempts cfg"
    using p by (auto split: if_splits)
  moreover have "path_of (d\<lparr>dr_RetryCtxs := x, dr_Index := k\<rparr>) = p\<lparr>pa_Index := k\<rparr>" for x k
    unfolding p [symmetric] by (simp add: path_of_def)
  ultimately show ?thesis
    using p by (auto simp: rewind_def Let_def gate_moves_def split: option.split if_splits)
qed

lemma gate_failed:
  assumes p: "path_of d = p" and ok: "outcomes_for cfg st (gv_Outcomes v)"
  shows "gate_result cfg st ahead p (failed_gate cfg t st v ahead d)"
proof (cases "scope_only_failure v \<and> stg_ID st = ''post_implement_gate''")
  case True
  obtain b w d1 where m: "maybe_amend_scope t st d = (b, w, d1)" by (metis prod.exhaust)
  have p1: "path_of d1 = p" using maybe_amend_frame [OF m] p by simp
  show ?thesis
    using True m p1 judged_scope [OF ok, of ahead]
    by (auto simp: failed_gate_def Let_def intro!: gate_advance gate_rewind)
next
  case False
  then show ?thesis
    using p by (auto simp: failed_gate_def Let_def intro!: gate_rewind split: prod.split)
qed

lemma gate_error:
  assumes "path_of d = p"
  shows "gate_result cfg st ahead p (handle_gate_error cfg t st f d)"
proof -
  have "path_of (d\<lparr>dr_Transport := u\<rparr>) = p\<lparr>pa_Transport := u\<rparr>" for u
    unfolding assms [symmetric] by (simp add: path_of_def)
  moreover have "dr_Transport d = pa_Transport p" using assms by auto
  ultimately show ?thesis
    using assms by (auto simp: handle_gate_error_def Let_def gate_moves_def)
qed

lemma gate_judge:
  assumes p: "path_of d = p"
  shows "gate_result cfg st ahead p (judge cfg t st ahead d)"
proof -
  obtain x d1 where g: "run_gate cfg t st d = (x, d1)" by fastforce
  have p1: "path_of d1 = p" using run_gate_frame [OF g] p by simp
  show ?thesis
  proof (cases x)
    case (Inl f)
    then show ?thesis using g p1 by (simp add: judge_def gate_error)
  next
    case (Inr v)
    have ok: "outcomes_for cfg st (gv_Outcomes v)"
      and all: "\<And>a o'. gv_Pass v \<Longrightarrow> (a, o') \<in> set (gv_Outcomes v) \<Longrightarrow> go_Pass o'"
      using run_gate_outcomes [OF g [unfolded Inr]] by blast+
    have pass_judged: "gv_Pass v \<Longrightarrow> judged cfg st (ahead @ gv_Outcomes v) False"
      using all by (intro judged_all [OF ok])
    have free_path: "path_of (d1\<lparr>dr_Unparseable := u\<rparr>) = p\<lparr>pa_Unparseable := u\<rparr>" for u
      unfolding p1 [symmetric] by (simp add: path_of_def)
    have log: "dr_Log d1 = pa_Log p" using p1 by auto
    consider (pass) "gv_Pass v" | (free) "\<not> gv_Pass v" "gv_Unparseable v" | (stop) "\<not> gv_Pass v" "\<not> gv_Unparseable v" "gv_Terminal v"
      | (fail) "\<not> gv_Pass v" "\<not> gv_Unparseable v" "\<not> gv_Terminal v" by blast
    then show ?thesis
    proof cases
      case pass
      then show ?thesis using pass_judged p1 g Inr by (auto simp: judge_def intro!: gate_advance)
    next
      case free
      have un: "dr_Unparseable d1 = pa_Unparseable p" using p1 by auto
      show ?thesis unfolding judge_def g Inr using free log
        by (simp add: Let_def gate_moves_def free_path un)
    next
      case stop
      then show ?thesis unfolding judge_def g Inr using log by simp
    next
      case fail
      then show ?thesis unfolding judge_def g Inr using gate_failed [OF p1 ok] by simp
    qed
  qed
qed

text \<open>The check of the reviewed head.\<close>

lemma path_head_checked:
  "path_of d1 = path_of d \<Longrightarrow> head_checked (path_of d) (path_of d1)"
  by (simp add: head_checked_def)

lemma map_of_passed:
  assumes "k \<in> fst ` set os" "case map_of os k of None \<Rightarrow> True | Some o' \<Rightarrow> go_Pass o'"
  shows "\<exists>o'. (k, o') \<in> set os \<and> go_Pass o'"
  using assms by (auto split: option.splits simp: map_of_eq_None_iff dest: map_of_SomeD)

definition head_result :: "runner_config \<Rightarrow> stage \<Rightarrow> path \<Rightarrow> head_decision \<Rightarrow> bool" where
  "head_result cfg st p h \<longleftrightarrow>
     (case h of
        Head_Proceed ahead d \<Rightarrow> head_checked p (path_of d) \<and>
          (''tested_head'' \<in> set (stg_Gates st) \<longrightarrow> registered cfg ''tested_head'' \<longrightarrow>
             (\<exists>o'. (''tested_head'', o') \<in> set ahead \<and> go_Pass o'))
      | Head_Retest k d \<Rightarrow> index_of (rc_Stages cfg) ''tests'' = Some k \<and> pa_Ordered p < max_review_head_retests \<and>
          path_of d = p\<lparr>pa_Ordered := pa_Ordered p + 1, pa_Evaluated := True, pa_RetestPending := True\<rparr>
      | Head_Stop e d \<Rightarrow> dr_Log d = pa_Log p)"

lemma head_result_simps [simp]:
  "head_result cfg st p (Head_Stop e d) = (dr_Log d = pa_Log p)"
  "head_result cfg st p (Head_Retest k d) \<longleftrightarrow>
     index_of (rc_Stages cfg) ''tests'' = Some k \<and> pa_Ordered p < max_review_head_retests \<and>
     path_of d = p\<lparr>pa_Ordered := pa_Ordered p + 1, pa_Evaluated := True, pa_RetestPending := True\<rparr>"
  by (simp_all add: head_result_def)

lemma head_closing_result [simp]: "head_result cfg st p (head_closing c r x) \<longleftrightarrow> dr_Log (snd x) = pa_Log p"
  by (simp add: head_closing_def head_result_def split: prod.split option.split)

lemma registered_iff: "registered cfg g \<longleftrightarrow> \<not> (case rc_Gates cfg of None \<Rightarrow> True | Some known \<Rightarrow> g \<notin> set known)"
  by (simp add: registered_def split: option.split)

lemma review_head_result: "head_result cfg st (path_of d) (review_head_retest cfg t st d)"
proof (cases "\<not> registered cfg ''tested_head'' \<or> \<not> contains_gate st ''tested_head''")
  case True
  then show ?thesis
    by (auto simp: review_head_retest_def registered_iff head_result_def path_head_checked contains_gate_def list_ex_iff)
next
  case False
  let ?one = "st\<lparr>stg_Gates := [''tested_head'']\<rparr>"
  obtain x d0 where g: "run_gate cfg t ?one d = (x, d0)" by fastforce
  have p0: "path_of d0 = path_of d" using run_gate_frame [OF g] by simp
  have log: "dr_Log d0 = dr_Log d" and ord: "dr_Ordered d0 = dr_Ordered d"
    using arg_cong [OF p0, of pa_Log] arg_cong [OF p0, of pa_Ordered] by simp_all
  show ?thesis
  proof (cases x)
    case (Inl f)
    then show ?thesis using False g log by (simp add: review_head_retest_def registered_iff head_result_def)
  next
    case (Inr v)
    let ?ok = "case map_of (gv_Outcomes v) ''tested_head'' of None \<Rightarrow> True | Some o' \<Rightarrow> go_Pass o'"
    have "''tested_head'' \<in> fst ` set (gv_Outcomes v)"
      using run_gate_outcomes(1) [OF g [unfolded Inr]] False by (simp add: outcomes_for_def)
    then have ok: "?ok \<Longrightarrow> \<exists>o'. (''tested_head'', o') \<in> set (gv_Outcomes v) \<and> go_Pass o'" by (rule map_of_passed)
    have settled: "head_checked (path_of d) (path_of (d0\<lparr>dr_Evaluated := True, dr_RetestPending := False\<rparr>))"
      unfolding p0 [symmetric] by (simp add: head_checked_def path_of_def)
    have again: "path_of (d0\<lparr>dr_Evaluated := True, dr_Ordered := n, dr_RetestPending := True, dr_RetryCtxs := c\<rparr>) =
        (path_of d)\<lparr>pa_Ordered := n, pa_Evaluated := True, pa_RetestPending := True\<rparr>" for n c
      unfolding p0 [symmetric] by (simp add: path_of_def)
    show ?thesis
    proof (cases ?ok)
      case True
      then show ?thesis using False g Inr ok settled
        by (simp add: review_head_retest_def registered_iff head_result_def Let_def)
    next
      case no: False
      show ?thesis
        using False g Inr no again log ord
        by (auto simp: review_head_retest_def registered_iff Let_def split: option.split)
    qed
  qed
qed

section \<open>A turn is a move of the abstract runner\<close>

lemma head_checkedD:
  assumes "head_checked p q"
  shows "pa_Index q = pa_Index p" "pa_Log q = pa_Log p" "pa_Attempts q = pa_Attempts p"
    "pa_Unparseable q = pa_Unparseable p" "pa_Transport q = pa_Transport p" "pa_Ordered q = pa_Ordered p"
proof -
  have *: "q = p\<lparr>pa_Evaluated := pa_Evaluated q, pa_RetestPending := pa_RetestPending q\<rparr>"
    using assms by (simp add: head_checked_def)
  show "pa_Index q = pa_Index p" "pa_Log q = pa_Log p" "pa_Attempts q = pa_Attempts p"
    "pa_Unparseable q = pa_Unparseable p" "pa_Transport q = pa_Transport p" "pa_Ordered q = pa_Ordered p"
    by (subst *, simp)+
qed

lemma gate_moves_move:
  assumes "gate_moves cfg st' ahead q r" "head_checked p q" "gate_at cfg p st"
    and same: "stg_ID st' = stg_ID st" "stg_RetryFrom st' = stg_RetryFrom st"
    and judged: "\<And>os am. judged cfg st' (ahead @ os) am \<Longrightarrow> judged cfg st (ahead @ os) am"
  shows "moves cfg fresh reattach p r"
  using assms(1) unfolding gate_moves_def head_checkedD [OF assms(2)] same
  by (elim disjE exE conjE)
    (auto intro: assms(2,3) judged moves.gate_passed [simplified] moves.ungradeable [simplified]
      moves.gate_errored [simplified] moves.rewound)

lemma judged_without:
  assumes "judged cfg (without_gate g st) os am"
    "g \<in> set (stg_Gates st) \<longrightarrow> registered cfg g \<longrightarrow> (\<exists>o'. (g, o') \<in> set os \<and> go_Pass o')"
  shows "judged cfg st os am"
  using assms unfolding judged_def without_gate_def by fastforce

definition turn_ok :: "runner_config \<Rightarrow> bool \<Rightarrow> bool \<Rightarrow> path \<Rightarrow> turn_result \<Rightarrow> bool" where
  "turn_ok cfg fresh reattach p r \<longleftrightarrow>
     (case r of
        Next d \<Rightarrow> moves cfg fresh reattach p (path_of d)
      | Stop e d \<Rightarrow> (\<exists>ds. dr_Log d = pa_Log p @ ds \<and> (\<forall>x \<in> set ds. \<exists>a. x = Dispatched (pa_Index p) a)))"

lemma turn_ok_stop: "dr_Log d = pa_Log p \<Longrightarrow> turn_ok cfg fresh reattach p (Stop e d)"
  by (simp add: turn_ok_def)

lemma turn_ok_closing: "dr_Log (snd x) = pa_Log p \<Longrightarrow> turn_ok cfg fresh reattach p (closing c r x)"
  by (auto simp: closing_def turn_ok_def split: prod.split option.split)

lemma turn_ok_gate:
  assumes "gate_result cfg st' ahead q r" "head_checked p q" "gate_at cfg p st"
    "stg_ID st' = stg_ID st" "stg_RetryFrom st' = stg_RetryFrom st"
    "\<And>os am. judged cfg st' (ahead @ os) am \<Longrightarrow> judged cfg st (ahead @ os) am"
  shows "turn_ok cfg fresh reattach p r"
  using assms gate_moves_move [OF _ assms(2-6)] head_checkedD(2) [OF assms(2)]
  by (cases r) (auto simp: turn_ok_def)

lemma path_index [simp]: "path_of (d\<lparr>dr_Index := k\<rparr>) = (path_of d)\<lparr>pa_Index := k\<rparr>"
  by (simp add: path_of_def)

lemma gate_visit_ok:
  assumes at: "gate_at cfg (path_of d) st"
  shows "turn_ok cfg fresh reattach (path_of d) (gate_visit cfg t st d)"
proof (cases "stg_ID st = ''post_tests_gate'' \<and>
    prior_artifact d ''tests'' ''baseline_verdict'' = Some (A_Text ''environment'')")
  case True
  then show ?thesis by (simp add: gate_visit_def turn_ok_closing)
next
  case other: False
  show ?thesis
  proof (cases "stg_ID st = ''post_review_gate''")
    case False
    then have "gate_visit cfg t st d = judge cfg t st [] d" using other by (auto simp: gate_visit_def)
    then show ?thesis
      using turn_ok_gate [OF gate_judge [OF refl] path_head_checked [OF refl] at refl refl] by simp
  next
    case True
    let ?h = "review_head_retest cfg t st d"
    have h: "head_result cfg st (path_of d) ?h" by (rule review_head_result)
    have v: "gate_visit cfg t st d = (case ?h of Head_Stop e d1 \<Rightarrow> Stop e d1
        | Head_Retest k d1 \<Rightarrow> Next (d1\<lparr>dr_Index := k\<rparr>)
        | Head_Proceed ahead d1 \<Rightarrow> judge cfg t (without_gate ''tested_head'' st) ahead d1)"
      using True by (simp add: gate_visit_def)
    show ?thesis
    proof (cases ?h)
      case (Head_Stop e d1)
      then show ?thesis using h v by (simp add: head_result_def turn_ok_stop)
    next
      case (Head_Retest k d1)
      then have k: "index_of (rc_Stages cfg) ''tests'' = Some k" "dr_Ordered d < max_review_head_retests"
        and p1: "path_of d1 = (path_of d)\<lparr>pa_Ordered := dr_Ordered d + 1, pa_Evaluated := True, pa_RetestPending := True\<rparr>"
        using h by simp_all
      have "path_of (d1\<lparr>dr_Index := k\<rparr>) = (path_of d)\<lparr>pa_Index := k, pa_Ordered := dr_Ordered d + 1,
          pa_Evaluated := True, pa_RetestPending := True\<rparr>" by (simp add: p1 path.equality)
      then show ?thesis using v Head_Retest k moves.retested [OF at True k(1)] by (simp add: turn_ok_def)
    next
      case (Head_Proceed ahead d1)
      then have hc: "head_checked (path_of d) (path_of d1)" and
        seen: "''tested_head'' \<in> set (stg_Gates st) \<longrightarrow> registered cfg ''tested_head'' \<longrightarrow>
          (\<exists>o'. (''tested_head'', o') \<in> set ahead \<and> go_Pass o')"
        using h by (simp_all add: head_result_def)
      have "judged cfg st (ahead @ os) am" if "judged cfg (without_gate ''tested_head'' st) (ahead @ os) am" for os am
        using judged_without [OF that] seen by auto
      then show ?thesis unfolding v Head_Proceed head_decision.case
        by (intro turn_ok_gate [OF gate_judge [OF refl] hc at]) (simp_all add: without_gate_def)
    qed
  qed
qed

lemma attempt_move:
  assumes m: "attempt_moves cfg fresh reattach st a d1 p" and hc: "head_checked (path_of d) (path_of d1)"
    and at: "worker_at cfg (path_of d) st" and fresh: "fresh \<Longrightarrow> a = dr_Attempts d (stg_ID st) + 1"
  shows "moves cfg fresh reattach (path_of d) p"
proof -
  have eq: "dr_Index d1 = dr_Index d" "dr_Log d1 = dr_Log d" "dr_Attempts d1 = dr_Attempts d"
    using head_checkedD [OF hc] by simp_all
  from m [unfolded attempt_moves_def eq] obtain ds where mem: "ds \<in> {[], [Dispatched (dr_Index d) a]}" and
    way: "p = (path_of d1)\<lparr>pa_Index := dr_Index d + 1, pa_Attempts := (dr_Attempts d)(stg_ID st := a),
              pa_Log := dr_Log d @ ds @ [Passed (dr_Index d) [] False]\<rparr> \<or>
     (\<exists>b. (reattach \<or> b < total_attempts cfg) \<and> (fresh \<longrightarrow> b = a) \<and>
        p = (path_of d1)\<lparr>pa_Attempts := (dr_Attempts d)(stg_ID st := b), pa_Log := dr_Log d @ ds\<rparr>)"
    by blast
  have ds: "ds \<in> {[], [Dispatched (pa_Index (path_of d)) a]}" using mem by simp
  from way show ?thesis
  proof
    assume "p = (path_of d1)\<lparr>pa_Index := dr_Index d + 1, pa_Attempts := (dr_Attempts d)(stg_ID st := a),
              pa_Log := dr_Log d @ ds @ [Passed (dr_Index d) [] False]\<rparr>"
    then have "p = (path_of d1)\<lparr>pa_Index := dr_Index d + 1, pa_Log := dr_Log d @ ds @ [Passed (dr_Index d) [] False],
        pa_Attempts := (dr_Attempts d)(stg_ID st := a)\<rparr>" by (simp add: path.equality)
    then show ?thesis using moves.worked [OF at hc ds, of fresh reattach] fresh by simp
  next
    assume "\<exists>b. (reattach \<or> b < total_attempts cfg) \<and> (fresh \<longrightarrow> b = a) \<and>
        p = (path_of d1)\<lparr>pa_Attempts := (dr_Attempts d)(stg_ID st := b), pa_Log := dr_Log d @ ds\<rparr>"
    then obtain b where "reattach \<or> b < total_attempts cfg" "fresh \<longrightarrow> b = a"
      "p = (path_of d1)\<lparr>pa_Attempts := (dr_Attempts d)(stg_ID st := b), pa_Log := dr_Log d @ ds\<rparr>" by blast
    moreover from this have "p = (path_of d1)\<lparr>pa_Log := dr_Log d @ ds, pa_Attempts := (dr_Attempts d)(stg_ID st := b)\<rparr>"
      by (simp add: path.equality)
    ultimately show ?thesis using moves.retried [OF at hc ds, of fresh b reattach] fresh by simp
  qed
qed

text \<open>What the turn counts as a new attempt.\<close>

definition visited :: "stage \<Rightarrow> drive \<Rightarrow> drive" where
  "visited st d = (if stg_ID st = ''implement'' then d\<lparr>dr_RetestPending := False\<rparr> else d)"

definition pending_of :: "stage \<Rightarrow> drive \<Rightarrow> stage_row option" where
  "pending_of st d =
     (if stg_ID st = ''tests'' then None else pending_stage (pr_ID (hd_Run d)) (stg_ID st) (dr_Stages d))"

definition fresh_attempt :: "runner_config \<Rightarrow> turn \<Rightarrow> stage \<Rightarrow> drive \<Rightarrow> bool" where
  "fresh_attempt cfg t st d \<longleftrightarrow> pending_of st (visited st d) = None \<and>
     counted cfg t st (dr_Attempts d (stg_ID st) + 1) None (visited st d)"

lemma stage_visit_unfold:
  "stage_visit cfg t st d =
     (if stg_ID st = ''pr_self_review'' \<and> review_done d
      then advance [] False (d\<lparr>dr_Evaluated := True, dr_RetestPending := False\<rparr>)
      else (case pending_of st (visited st d) of
              Some p \<Rightarrow> run_attempt cfg t st (sg_Attempt p) (Some p) (visited st d)
            | None \<Rightarrow>
                if stg_ID st = ''implement'' \<and> \<not> tn_Preflight t then fail_preflight cfg t (visited st d)
                else run_attempt cfg t st (dr_Attempts d (stg_ID st) + 1) None (visited st d)))"
  by (auto simp: stage_visit_def visited_def pending_of_def Let_def split: option.split)

lemma preflight_result: "dr_Log (result_of (fail_preflight cfg t d)) = dr_Log d" "fail_preflight cfg t d \<noteq> Next d'"
proof -
  let ?d0 = "set_run (\<lambda>r. r\<lparr>pr_CurrentStage := ''preflight_failed''\<rparr>) d"
  obtain e d1 where x: "escalate_with_item cfg (tn_Now t) Class_Config Reason_Implement_Preflight ?d0 = (e, d1)"
    by fastforce
  let ?d2 = "set_run (\<lambda>r. r\<lparr>pr_State := Run_PreflightFailed\<rparr>) d1"
  obtain e2 d3 where y: "persist_run (tn_Now t) ?d2 = (e2, d3)" by fastforce
  have "held.more d1 = held.more d"
    using more_escalate_item [of cfg "tn_Now t" Class_Config Reason_Implement_Preflight ?d0] x
    by (simp del: more_escalate_item)
  moreover from this have "held.more d3 = held.more d"
    using more_persist [of "tn_Now t" ?d2] y by (simp del: more_persist)
  ultimately have "dr_Log d1 = dr_Log d" "dr_Log d3 = dr_Log d" by (auto intro: more_eq(17))
  then show "dr_Log (result_of (fail_preflight cfg t d)) = dr_Log d" "fail_preflight cfg t d \<noteq> Next d'"
    using x y by (auto simp: fail_preflight_def split: option.split)
qed

lemma turn_ok_result:
  "(\<And>d'. r \<noteq> Next d') \<Longrightarrow> dr_Log (result_of r) = pa_Log p \<Longrightarrow> turn_ok cfg fresh reattach p r"
  by (cases r) (auto simp: turn_ok_def)

lemma run_attempt_log:
  assumes "run_attempt cfg t st a pending d = Stop e d'"
  shows "\<exists>ds. dr_Log d' = dr_Log d @ ds \<and> (\<forall>x \<in> set ds. \<exists>a. x = Dispatched (dr_Index d) a)"
proof -
  obtain x out d1 where r: "run_stage cfg t st a pending (prepared st a d) = ((x, out), d1)" by (metis prod.exhaust)
  obtain ds where ds: "ds \<in> {[], [Dispatched (dr_Index d) a]}" and
    path: "path_of d1 = (path_of d)\<lparr>pa_Attempts := (dr_Attempts d)(stg_ID st := a), pa_Log := dr_Log d @ ds\<rparr>"
    using logged_prepared [OF path_run_stage [OF r]] by blast
  have log: "dr_Log d1 = dr_Log d @ ds" using arg_cong [OF path, of pa_Log] by simp
  have failed: "dr_Log d' = dr_Log d1" if "failed_stage cfg t st f n out d1 = Stop e d'" for f n
    using failed_path [of cfg t st f n out d1, unfolded that result_of.simps, THEN arg_cong, of pa_Log] by simp
  have done': "finished_stage t st out d1 \<noteq> Stop e d'"
    by (rule path_finished [OF refl, of t st out d1]) simp
  have "dr_Log d' = dr_Log d1"
  proof (cases "x = Stage_Cancelled \<or> dp_CancelledLate (tn_Report t)")
    case True
    then show ?thesis using assms r by (auto simp: run_attempt_unfold)
  next
    case False
    then show ?thesis using assms r failed done' by (cases x) (simp_all add: run_attempt_unfold)
  qed
  then show ?thesis using log ds by auto
qed

lemma visited_path: "head_checked (path_of d) (path_of (visited st d))" "dr_Index (visited st d) = dr_Index d"
    "dr_Log (visited st d) = dr_Log d" "dr_Attempts (visited st d) = dr_Attempts d"
  by (auto simp: visited_def head_checked_def path_of_def)

lemma stage_visit_ok:
  assumes at: "worker_at cfg (path_of d) st"
  shows "turn_ok cfg (fresh_attempt cfg t st d) (reattaching t st) (path_of d) (stage_visit cfg t st d)"
proof -
  let ?ok = "turn_ok cfg (fresh_attempt cfg t st d) (reattaching t st) (path_of d)"
  have run: "?ok (run_attempt cfg t st a pending (visited st d))"
    if "fresh_attempt cfg t st d \<Longrightarrow> a = dr_Attempts d (stg_ID st) + 1 \<and> pending = None" for a pending
  proof (cases "run_attempt cfg t st a pending (visited st d)")
    case (Next d')
    have "attempt_moves cfg (fresh_attempt cfg t st d) (reattaching t st) st a (visited st d) (path_of d')"
      using run_attempt_next [OF Next] that by (auto simp: attempt_moves_def fresh_attempt_def)
    from attempt_move [OF this visited_path(1) at] show ?thesis using that Next by (simp add: turn_ok_def)
  next
    case (Stop e d')
    then show ?thesis using run_attempt_log [OF Stop] by (simp add: turn_ok_def visited_path)
  qed
  show ?thesis
  proof (cases "stg_ID st = ''pr_self_review'' \<and> review_done d")
    case True
    then have "dr_Evaluated d \<longrightarrow> dr_RetestPending d" by (auto simp: review_done_def)
    then show ?thesis
      using True moves.skipped [OF at, of "fresh_attempt cfg t st d" "reattaching t st"]
      by (simp add: stage_visit_unfold advance_result turn_ok_def path_of_def)
  next
    case not_done: False
    show ?thesis
    proof (cases "pending_of st (visited st d)")
      case (Some r)
      then show ?thesis using not_done run [of "sg_Attempt r" "Some r"]
        by (auto simp: stage_visit_unfold fresh_attempt_def)
    next
      case None
      have "?ok (fail_preflight cfg t (visited st d))"
        using preflight_result by (intro turn_ok_result) (simp_all add: visited_path)
      then show ?thesis using not_done None run [of "dr_Attempts d (stg_ID st) + 1" None]
        by (auto simp: stage_visit_unfold)
    qed
  qed
qed

definition stage_here :: "runner_config \<Rightarrow> drive \<Rightarrow> stage" where
  "stage_here cfg d = rc_Stages cfg ! dr_Index d"

definition checked :: "turn \<Rightarrow> drive \<Rightarrow> drive" where
  "checked t d = others (tn_Checked t) (others (tn_Before t) d)"

lemma path_checked [simp]: "path_of (checked t d) = path_of d"
  by (simp add: checked_def)

lemma drive_turn_ok:
  "turn_ok cfg (fresh_attempt cfg t (stage_here cfg d) (checked t d)) (reattaching t (stage_here cfg d)) (path_of d)
     (drive_turn cfg t d)"
proof -
  let ?st = "rc_Stages cfg ! dr_Index d"
  let ?ok = "turn_ok cfg (fresh_attempt cfg t (stage_here cfg d) (checked t d)) (reattaching t (stage_here cfg d)) (path_of d)"
  have [simp]: "dr_Index (others ops e) = dr_Index e" "dr_Log (others ops e) = dr_Log e" for ops and e :: drive
    by (rule more_eq, simp)+
  show ?thesis
  proof (cases "dr_Index d < length (rc_Stages cfg)")
    case False
    then show ?thesis
      by (auto simp: drive_turn_def Let_def intro!: turn_ok_stop split: prod.split option.split
          dest!: arg_cong [where f = snd])
  next
    case True
    have visit: "?ok (if stg_Type ?st = Kind_Auto_Gate then gate_visit cfg t ?st (checked t d)
        else stage_visit cfg t ?st (checked t d))"
      using gate_visit_ok [of cfg "checked t d" ?st] stage_visit_ok [of cfg "checked t d" ?st t] True
      by (simp add: gate_at_def worker_at_def stage_here_def)
    show ?thesis
      using True visit
      by (auto simp: drive_turn_def Let_def checked_def [symmetric] intro!: turn_ok_stop turn_ok_closing
          split: autonomy_verdict.split)
  qed
qed

end
