(* ===== verification/Runner_Order.thy ===== *)
theory Runner_Order
  imports Runner_Moves
begin

text \<open>
  What the abstract runner promises.  Order: a worker is only asked once every stage ahead of it
  has been passed and not gone back behind since.  Termination: a potential that every move but
  the reattachment of a CI watch decreases.
\<close>

section \<open>Order\<close>

fun event_index :: "drive_event \<Rightarrow> nat" where
  "event_index (Dispatched i a) = i"
| "event_index (Passed i os amended) = i"

text \<open>The last event at stage \<open>j\<close> or before it is that \<open>j\<close> was passed, a gate with all its outcomes.\<close>

definition stands :: "runner_config \<Rightarrow> drive_event list \<Rightarrow> nat \<Rightarrow> bool" where
  "stands cfg log j \<longleftrightarrow>
     (case find (\<lambda>e. event_index e \<le> j) (rev log) of
        Some (Passed i os amended) \<Rightarrow>
          i = j \<and> (stg_Type (rc_Stages cfg ! j) = Kind_Auto_Gate \<longrightarrow> judged cfg (rc_Stages cfg ! j) os amended)
      | _ \<Rightarrow> False)"

definition cleared :: "runner_config \<Rightarrow> nat \<Rightarrow> drive_event list \<Rightarrow> nat \<Rightarrow> bool" where
  "cleared cfg start log i \<longleftrightarrow> (\<forall>j \<in> {start..<i}. stands cfg log j)"

lemma cleared_mono: "cleared cfg start log i \<Longrightarrow> k \<le> i \<Longrightarrow> cleared cfg start log k"
  by (auto simp: cleared_def)

lemma stands_later: "j < event_index e \<Longrightarrow> stands cfg (log @ [e]) j = stands cfg log j"
  by (simp add: stands_def)

lemma cleared_dispatch: "cleared cfg start log i \<Longrightarrow> cleared cfg start (log @ [Dispatched i a]) i"
  by (simp add: cleared_def stands_later)

lemma cleared_pass:
  assumes "cleared cfg start log i"
    and "stg_Type (rc_Stages cfg ! i) = Kind_Auto_Gate \<Longrightarrow> judged cfg (rc_Stages cfg ! i) os amended"
  shows "cleared cfg start (log @ [Passed i os amended]) (i + 1)"
proof -
  have "stands cfg (log @ [Passed i os amended]) i" using assms(2) by (simp add: stands_def)
  moreover have "stands cfg (log @ [Passed i os amended]) j" if "start \<le> j" "j < i" for j
    using assms(1) that by (simp add: cleared_def stands_later)
  ultimately show ?thesis by (auto simp: cleared_def less_Suc_eq)
qed

text \<open>Every dispatch in the log was made with the way to it cleared.\<close>

definition orderly :: "runner_config \<Rightarrow> nat \<Rightarrow> drive_event list \<Rightarrow> bool" where
  "orderly cfg start log \<longleftrightarrow> (\<forall>xs i a ys. log = xs @ Dispatched i a # ys \<longrightarrow> cleared cfg start xs i)"

lemma orderly_nil [simp]: "orderly cfg start []"
  by (simp add: orderly_def)

lemma orderly_pass [simp]: "orderly cfg start (log @ [Passed i os amended]) = orderly cfg start log"
proof
  assume *: "orderly cfg start (log @ [Passed i os amended])"
  show "orderly cfg start log"
    using *[unfolded orderly_def] by (auto simp: orderly_def)
next
  assume *: "orderly cfg start log"
  have "cleared cfg start xs k" if "log @ [Passed i os amended] = xs @ Dispatched k a # ys" for xs k a ys
  proof (cases ys rule: rev_cases)
    case (snoc zs z)
    then have "log = xs @ Dispatched k a # zs" using that by (simp flip: append_assoc append_Cons)
    then show ?thesis using * by (simp add: orderly_def)
  qed (use that in simp)
  then show "orderly cfg start (log @ [Passed i os amended])" by (simp add: orderly_def)
qed

lemma orderly_dispatch:
  "cleared cfg start log i \<Longrightarrow> orderly cfg start log \<Longrightarrow> orderly cfg start (log @ [Dispatched i a])"
  by (auto simp: orderly_def append_eq_append_conv2 Cons_eq_append_conv append_eq_Cons_conv)

text \<open>The gates go back to earlier workers, and the re-test of a head to an earlier stage.\<close>

definition goes_back :: "runner_config \<Rightarrow> nat \<Rightarrow> bool" where
  "goes_back cfg i =
     (let st = rc_Stages cfg ! i in
      stg_Type st = Kind_Auto_Gate \<longrightarrow>
      (case index_of (rc_Stages cfg) (stg_RetryFrom st) of None \<Rightarrow> True
       | Some k \<Rightarrow> k < i \<and> stg_Type (rc_Stages cfg ! k) \<noteq> Kind_Auto_Gate) \<and>
      (stg_ID st = ''post_review_gate'' \<longrightarrow>
        (case index_of (rc_Stages cfg) ''tests'' of None \<Rightarrow> True | Some k \<Rightarrow> k < i)))"

definition rewinds_back :: "runner_config \<Rightarrow> bool" where
  "rewinds_back cfg = list_all (goes_back cfg) [0..<length (rc_Stages cfg)]"

lemma rewinds_backD:
  assumes "rewinds_back cfg" "gate_at cfg p st"
  shows "index_of (rc_Stages cfg) (stg_RetryFrom st) = Some k \<Longrightarrow>
      k < pa_Index p \<and> stg_Type (rc_Stages cfg ! k) \<noteq> Kind_Auto_Gate"
    and "stg_ID st = ''post_review_gate'' \<Longrightarrow> index_of (rc_Stages cfg) ''tests'' = Some k \<Longrightarrow> k < pa_Index p"
proof -
  have "goes_back cfg (pa_Index p)" using assms by (simp add: rewinds_back_def gate_at_def list_all_iff)
  then show "index_of (rc_Stages cfg) (stg_RetryFrom st) = Some k \<Longrightarrow>
      k < pa_Index p \<and> stg_Type (rc_Stages cfg ! k) \<noteq> Kind_Auto_Gate"
    and "stg_ID st = ''post_review_gate'' \<Longrightarrow> index_of (rc_Stages cfg) ''tests'' = Some k \<Longrightarrow> k < pa_Index p"
    using assms(2) by (auto simp: goes_back_def gate_at_def Let_def)
qed

definition in_order :: "runner_config \<Rightarrow> nat \<Rightarrow> path \<Rightarrow> bool" where
  "in_order cfg start p \<longleftrightarrow> cleared cfg start (pa_Log p) (pa_Index p) \<and> orderly cfg start (pa_Log p)"

lemma moves_in_order:
  assumes "moves cfg fresh reattach p q" "rewinds_back cfg" "in_order cfg start p"
  shows "in_order cfg start q"
  using assms(1)
proof cases
  case (gate_passed st os amended r)
  then show ?thesis using assms(3) cleared_pass [of cfg start "pa_Log p" "pa_Index p" os amended]
    by (simp add: in_order_def gate_at_def)
next
  case (rewound st k r)
  then show ?thesis using assms(3) rewinds_backD(1) [OF assms(2) rewound(2)] head_checkedD [OF rewound(6)]
    by (auto simp: in_order_def intro: cleared_mono)
next
  case (retested st k)
  then show ?thesis using assms(3) rewinds_backD(2) [OF assms(2) retested(2)]
    by (auto simp: in_order_def intro: cleared_mono)
next
  case (skipped st)
  then show ?thesis using assms(3) cleared_pass [of cfg start "pa_Log p" "pa_Index p"]
    by (simp add: in_order_def worker_at_def)
next
  case (worked st r ds a)
  let ?log = "pa_Log p @ ds"
  have "cleared cfg start ?log (pa_Index p) \<and> orderly cfg start ?log"
    using worked(4) assms(3) by (auto simp: in_order_def cleared_dispatch orderly_dispatch)
  then show ?thesis using worked cleared_pass [of cfg start ?log "pa_Index p"]
    by (simp add: in_order_def worker_at_def flip: append_assoc)
next
  case (retried st r ds a b)
  then show ?thesis using assms(3) head_checkedD [OF retried(3)]
    by (auto simp: in_order_def cleared_dispatch orderly_dispatch)
next
  case (ungradeable st r)
  then show ?thesis using assms(3) by (simp add: in_order_def head_checkedD [OF ungradeable(4)])
next
  case (gate_errored st r)
  then show ?thesis using assms(3) by (simp add: in_order_def head_checkedD [OF gate_errored(4)])
qed


section \<open>Termination\<close>

text \<open>The attempts a stage has left, below the budget and below the total cap.\<close>

definition attempts_left :: "runner_config \<Rightarrow> int \<Rightarrow> int" where
  "attempts_left cfg a = max 0 (max_attempts cfg - a) + max 0 (total_attempts cfg - a)"

definition work_left :: "runner_config \<Rightarrow> (string \<Rightarrow> int) \<Rightarrow> int" where
  "work_left cfg att = sum_list (map (\<lambda>s. attempts_left cfg (att (stg_ID s))) (rc_Stages cfg))"

definition judgings_left :: "runner_config \<Rightarrow> (string \<Rightarrow> nat) \<Rightarrow> int" where
  "judgings_left cfg n = sum_list (map (\<lambda>s. int (max_judge_retries - n (stg_ID s))) (rc_Stages cfg))"

text \<open>A worker that may still be tried on its budget counts as one attempt already begun.\<close>

definition begun :: "runner_config \<Rightarrow> path \<Rightarrow> int" where
  "begun cfg p =
     (if pa_Index p < length (rc_Stages cfg) \<and> stg_Type (rc_Stages cfg ! pa_Index p) \<noteq> Kind_Auto_Gate \<and>
         pa_Attempts p (stg_ID (rc_Stages cfg ! pa_Index p)) < max_attempts cfg then 1 else 0)"

definition flags_left :: "path \<Rightarrow> int" where
  "flags_left p = of_bool (pa_RetestPending p) + of_bool (\<not> pa_Evaluated p)"

definition rank :: "runner_config \<Rightarrow> path \<Rightarrow> int" where
  "rank cfg p = work_left cfg (pa_Attempts p) - begun cfg p + flags_left p"

definition potential :: "runner_config \<Rightarrow> path \<Rightarrow> int" where
  "potential cfg p =
     (let n = int (length (rc_Stages cfg)) in
      (n + 1) * rank cfg p
      + judgings_left cfg (pa_Unparseable p) + judgings_left cfg (pa_Transport p)
      + (2 * n + 2) * int (max_review_head_retests - pa_Ordered p)
      + int (length (rc_Stages cfg) - pa_Index p))"

lemma total_above: "max_attempts cfg < total_attempts cfg"
  by (simp add: total_attempts_def transient_retry_cap_def)

lemma attempts_left_nonneg [simp]: "0 \<le> attempts_left cfg a"
  by (simp add: attempts_left_def)

lemma attempts_left_step: "attempts_left cfg (a + 1) \<le>
    attempts_left cfg a - of_bool (a < max_attempts cfg) - of_bool (a < total_attempts cfg)"
  by (auto simp: attempts_left_def max_def)

lemma sum_list_one_less:
  fixes f g :: "'a \<Rightarrow> int"
  assumes "\<And>x. x \<in> set xs \<Longrightarrow> g x \<le> f x" "y \<in> set xs" "g y \<le> f y - c"
  shows "sum_list (map g xs) \<le> sum_list (map f xs) - c"
  using assms
proof (induction xs)
  case (Cons x xs)
  have le: "sum_list (map g xs) \<le> sum_list (map f xs)" using Cons.prems(1) by (intro sum_list_mono) simp
  show ?case
  proof (cases "y \<in> set xs")
    case True
    then have "sum_list (map g xs) \<le> sum_list (map f xs) - c" using Cons by simp
    then show ?thesis using Cons.prems(1) [of x] by simp
  next
    case False
    then show ?thesis using Cons.prems(2,3) le by simp
  qed
qed simp

lemma work_left_nonneg: "0 \<le> work_left cfg att"
  unfolding work_left_def by (rule sum_list_nonneg) auto

lemma work_left_step:
  assumes "st \<in> set (rc_Stages cfg)"
  shows "work_left cfg (att(stg_ID st := att (stg_ID st) + 1)) \<le>
    work_left cfg att - of_bool (att (stg_ID st) < max_attempts cfg) - of_bool (att (stg_ID st) < total_attempts cfg)"
proof -
  have "attempts_left cfg (a + 1) \<le> attempts_left cfg a" for a
    using attempts_left_step [of cfg a] by (simp add: of_bool_def split: if_splits)
  then show ?thesis
    unfolding work_left_def diff_diff_eq
    by (intro sum_list_one_less [OF _ assms]) (use attempts_left_step [of cfg "att (stg_ID st)"] in auto)
qed

lemma judgings_left_step:
  assumes "st \<in> set (rc_Stages cfg)" "n (stg_ID st) < max_judge_retries"
  shows "judgings_left cfg (n(stg_ID st := n (stg_ID st) + 1)) \<le> judgings_left cfg n - 1"
  unfolding judgings_left_def by (rule sum_list_one_less [OF _ assms(1)]) (use assms(2) in auto)

lemma judgings_left_nonneg: "0 \<le> judgings_left cfg n"
  unfolding judgings_left_def by (rule sum_list_nonneg) auto

lemma begun_bounds: "0 \<le> begun cfg p" "begun cfg p \<le> 1"
  by (simp_all add: begun_def)

lemma begun_work: "begun cfg p \<le> work_left cfg (pa_Attempts p)"
proof (cases "begun cfg p = 0")
  case False
  let ?s = "rc_Stages cfg ! pa_Index p"
  have at: "?s \<in> set (rc_Stages cfg)" "pa_Attempts p (stg_ID ?s) < max_attempts cfg"
    using False by (auto simp: begun_def split: if_splits)
  have "0 \<le> work_left cfg ((pa_Attempts p)(stg_ID ?s := pa_Attempts p (stg_ID ?s) + 1))" by (rule work_left_nonneg)
  also have "\<dots> \<le> work_left cfg (pa_Attempts p) - 1" 
    using work_left_step [OF at(1), of "pa_Attempts p"] at(2) by (simp add: of_bool_def split: if_splits)
  finally show ?thesis using begun_bounds [of cfg p] by simp
qed (simp add: work_left_nonneg)

lemma potential_nonneg: "0 \<le> potential cfg p"
  using begun_work [of cfg p] by (simp add: potential_def Let_def rank_def flags_left_def judgings_left_nonneg)

text \<open>A worker tried once more: its attempt is spent, and so is the one already begun.\<close>

lemma work_spent:
  assumes at: "worker_at cfg p st" and b: "b = pa_Attempts p (stg_ID st) + 1"
    and q: "pa_Attempts q = (pa_Attempts p)(stg_ID st := b)"
  shows "work_left cfg (pa_Attempts q) - begun cfg q \<le> work_left cfg (pa_Attempts p) - begun cfg p"
    and "b \<le> total_attempts cfg \<Longrightarrow>
      work_left cfg (pa_Attempts q) - begun cfg q < work_left cfg (pa_Attempts p) - begun cfg p"
proof -
  let ?a = "pa_Attempts p (stg_ID st)"
  have st: "st \<in> set (rc_Stages cfg)" using at by (auto simp: worker_at_def)
  have p: "begun cfg p = of_bool (?a < max_attempts cfg)" using at by (simp add: begun_def worker_at_def)
  have w: "work_left cfg (pa_Attempts q) \<le> work_left cfg (pa_Attempts p)
      - of_bool (?a < max_attempts cfg) - of_bool (?a < total_attempts cfg)"
    using work_left_step [OF st, of "pa_Attempts p"] by (simp add: q b)
  note bounds = begun_bounds [of cfg q] total_above [of cfg]
  show "work_left cfg (pa_Attempts q) - begun cfg q \<le> work_left cfg (pa_Attempts p) - begun cfg p"
    using w bounds by (simp add: p of_bool_def split: if_splits)
  show "work_left cfg (pa_Attempts q) - begun cfg q < work_left cfg (pa_Attempts p) - begun cfg p"
    if "b \<le> total_attempts cfg"
    using w bounds that b by (simp add: p of_bool_def split: if_splits)
qed

lemma index_left: "i \<le> j \<Longrightarrow> int (n - j) \<le> int (n - i)" "i < j \<Longrightarrow> i < n \<Longrightarrow> int (n - j) < int (n - i)"
  by simp_all

lemma potential_drop:
  assumes r: "rank cfg q \<le> rank cfg p"
    and u: "judgings_left cfg (pa_Unparseable q) \<le> judgings_left cfg (pa_Unparseable p)"
    and t: "judgings_left cfg (pa_Transport q) \<le> judgings_left cfg (pa_Transport p)"
    and o: "pa_Ordered q = pa_Ordered p" and i: "pa_Index p \<le> pa_Index q"
  shows "potential cfg q \<le> potential cfg p"
    and "pa_Index p < pa_Index q \<Longrightarrow> pa_Index p < length (rc_Stages cfg) \<Longrightarrow> potential cfg q < potential cfg p"
    and "rank cfg q < rank cfg p \<Longrightarrow> potential cfg q < potential cfg p"
    and "judgings_left cfg (pa_Unparseable q) < judgings_left cfg (pa_Unparseable p) \<Longrightarrow> potential cfg q < potential cfg p"
    and "judgings_left cfg (pa_Transport q) < judgings_left cfg (pa_Transport p) \<Longrightarrow> potential cfg q < potential cfg p"
proof -
  define n where "n = int (length (rc_Stages cfg))"
  have scaled: "(n + 1) * rank cfg q \<le> (n + 1) * rank cfg p" using r by (intro mult_left_mono) (auto simp: n_def)
  note parts = potential_def Let_def n_def [symmetric] o
  note le = scaled u t index_left(1) [OF i, of "length (rc_Stages cfg)"]
  show "potential cfg q \<le> potential cfg p" unfolding parts using le by linarith
  show "potential cfg q < potential cfg p" if "pa_Index p < pa_Index q" "pa_Index p < length (rc_Stages cfg)"
    unfolding parts using le index_left(2) [OF that] by linarith
  show "potential cfg q < potential cfg p" if "rank cfg q < rank cfg p"
  proof -
    have "(n + 1) * rank cfg q < (n + 1) * rank cfg p"
      using that by (intro mult_strict_left_mono) (auto simp: n_def)
    then show ?thesis unfolding parts using le by linarith
  qed
  show "potential cfg q < potential cfg p"
    if "judgings_left cfg (pa_Unparseable q) < judgings_left cfg (pa_Unparseable p)"
    unfolding parts using le that by linarith
  show "potential cfg q < potential cfg p"
    if "judgings_left cfg (pa_Transport q) < judgings_left cfg (pa_Transport p)"
    unfolding parts using le that by linarith
qed

text \<open>Going back costs at most as many indices as there are stages.\<close>

lemma potential_rewind:
  assumes "rank cfg q \<le> rank cfg p - 1" "pa_Unparseable q = pa_Unparseable p" "pa_Transport q = pa_Transport p"
    "pa_Ordered q = pa_Ordered p"
  shows "potential cfg q < potential cfg p"
proof -
  define n where "n = int (length (rc_Stages cfg))"
  have "(n + 1) * rank cfg q \<le> (n + 1) * (rank cfg p - 1)" using assms(1) by (intro mult_left_mono) (auto simp: n_def)
  then have scaled: "(n + 1) * rank cfg q \<le> (n + 1) * rank cfg p - n - 1" by (simp add: right_diff_distrib)
  have i: "int (length (rc_Stages cfg) - pa_Index q) \<le> n" "0 \<le> int (length (rc_Stages cfg) - pa_Index p)"
    by (simp_all add: n_def)
  show ?thesis unfolding potential_def Let_def n_def [symmetric] assms(2-4) using scaled i by linarith
qed

lemma potential_retest:
  assumes "rank cfg q \<le> rank cfg p + 1" "pa_Unparseable q = pa_Unparseable p" "pa_Transport q = pa_Transport p"
    "pa_Ordered q = pa_Ordered p + 1" "pa_Ordered p < max_review_head_retests"
  shows "potential cfg q < potential cfg p"
proof -
  define n where "n = int (length (rc_Stages cfg))"
  have "(n + 1) * rank cfg q \<le> (n + 1) * (rank cfg p + 1)" using assms(1) by (intro mult_left_mono) (auto simp: n_def)
  then have scaled: "(n + 1) * rank cfg q \<le> (n + 1) * rank cfg p + n + 1" by (simp add: distrib_left)
  have i: "int (length (rc_Stages cfg) - pa_Index q) \<le> n" "0 \<le> int (length (rc_Stages cfg) - pa_Index p)"
    by (simp_all add: n_def)
  have "int (max_review_head_retests - pa_Ordered q) = int (max_review_head_retests - pa_Ordered p) - 1"
    using assms(4,5) by simp
  then have "(2 * n + 2) * int (max_review_head_retests - pa_Ordered q) =
      (2 * n + 2) * int (max_review_head_retests - pa_Ordered p) - 2 * n - 2" by (simp add: right_diff_distrib)
  then show ?thesis unfolding potential_def Let_def n_def [symmetric] assms(2,3) using scaled i by linarith
qed

lemma flags_checked: "head_checked p q \<Longrightarrow> flags_left q \<le> flags_left p"
  unfolding head_checked_def flags_left_def by (auto simp: of_bool_def)

lemma flags_bounds: "0 \<le> flags_left p" "flags_left p \<le> 2"
  by (simp_all add: flags_left_def of_bool_def)

lemma gate_not_begun: "gate_at cfg p st \<Longrightarrow> begun cfg p = 0"
  by (auto simp: gate_at_def begun_def)

lemma begun_cong: "pa_Index q = pa_Index p \<Longrightarrow> pa_Attempts q = pa_Attempts p \<Longrightarrow> begun cfg q = begun cfg p"
  by (simp add: begun_def)

lemma index_of_Some: "index_of ss i = Some k \<Longrightarrow> k < length ss \<and> stg_ID (ss ! k) = i"
  by (induction ss arbitrary: k) (auto split: if_splits)

text \<open>Every move that counts its attempts and reattaches nothing decreases the potential.\<close>

lemma rank_falls: "work_left cfg (pa_Attempts q) - begun cfg q \<le> work_left cfg (pa_Attempts p) - begun cfg p \<Longrightarrow>
    flags_left q \<le> flags_left p \<Longrightarrow> rank cfg q \<le> rank cfg p"
  by (simp add: rank_def)

lemma gate_pass_drops:
  assumes at: "gate_at cfg p st" and hc: "head_checked p r"
    and q: "q = r\<lparr>pa_Index := pa_Index p + 1, pa_Log := log\<rparr>"
  shows "potential cfg q < potential cfg p"
proof -
  note same = head_checkedD [OF hc]
  have "flags_left q = flags_left r" by (simp add: q flags_left_def)
  then have r: "rank cfg q \<le> rank cfg p"
    using flags_checked [OF hc] begun_bounds [of cfg q] by (intro rank_falls) (simp_all add: gate_not_begun [OF at] q same)
  show ?thesis using at by (intro potential_drop(2) [OF r]) (simp_all add: q same gate_at_def)
qed

lemma rejudge_drops:
  assumes at: "gate_at cfg p st" and hc: "head_checked p r"
    and n: "n (stg_ID st) < max_judge_retries" and n': "n' = n(stg_ID st := n (stg_ID st) + 1)"
    and q: "n = pa_Unparseable p \<and> q = r\<lparr>pa_Unparseable := n'\<rparr> \<or> n = pa_Transport p \<and> q = r\<lparr>pa_Transport := n'\<rparr>"
  shows "potential cfg q < potential cfg p"
proof -
  note same = head_checkedD [OF hc]
  have st: "st \<in> set (rc_Stages cfg)" using at by (auto simp: gate_at_def)
  have less: "judgings_left cfg n' < judgings_left cfg n"
    using judgings_left_step [of st cfg n] st n by (simp add: n')
  have "flags_left q = flags_left r" "pa_Index q = pa_Index p" "pa_Attempts q = pa_Attempts p"
    "pa_Ordered q = pa_Ordered p" using q by (auto simp: flags_left_def same)
  then have r: "rank cfg q \<le> rank cfg p" and i: "pa_Index p \<le> pa_Index q" and o: "pa_Ordered q = pa_Ordered p"
    using flags_checked [OF hc] begun_cong [of q p cfg] by (auto simp: rank_def)
  from q show ?thesis
  proof (elim disjE conjE)
    assume "n = pa_Unparseable p" "q = r\<lparr>pa_Unparseable := n'\<rparr>"
    then show ?thesis using less by (intro potential_drop(4) [OF r _ _ o i]) (simp_all add: same)
  next
    assume "n = pa_Transport p" "q = r\<lparr>pa_Transport := n'\<rparr>"
    then show ?thesis using less by (intro potential_drop(5) [OF r _ _ o i]) (simp_all add: same)
  qed
qed

lemma rewind_drops:
  assumes ok: "rewinds_back cfg" and at: "gate_at cfg p st" and hc: "head_checked p r"
    and k: "index_of (rc_Stages cfg) (stg_RetryFrom st) = Some k"
    and a: "pa_Attempts p (stg_RetryFrom st) < max_attempts cfg" and q: "q = r\<lparr>pa_Index := k\<rparr>"
  shows "potential cfg q < potential cfg p"
proof -
  note same = head_checkedD [OF hc]
  have "begun cfg q = 1"
    using rewinds_backD(1) [OF ok at k] index_of_Some [OF k] a by (simp add: begun_def q same)
  moreover have "flags_left q = flags_left r" by (simp add: q flags_left_def)
  ultimately have "rank cfg q \<le> rank cfg p - 1"
    using flags_checked [OF hc] by (simp add: rank_def gate_not_begun [OF at]) (simp add: q same)
  then show ?thesis by (rule potential_rewind) (simp_all add: q same)
qed

lemma work_drops:
  assumes at: "worker_at cfg p st" and hc: "head_checked p r" and b: "b = pa_Attempts p (stg_ID st) + 1"
    and q: "pa_Attempts q = (pa_Attempts p)(stg_ID st := b)" "flags_left q = flags_left r"
      "pa_Unparseable q = pa_Unparseable p" "pa_Transport q = pa_Transport p" "pa_Ordered q = pa_Ordered p"
      "pa_Index p \<le> pa_Index q"
  shows "potential cfg q \<le> potential cfg p"
    and "pa_Index p < pa_Index q \<or> b \<le> total_attempts cfg \<Longrightarrow> potential cfg q < potential cfg p"
proof -
  have r: "rank cfg q \<le> rank cfg p"
    using work_spent(1) [OF at b q(1)] flags_checked [OF hc] q(2) by (intro rank_falls) simp_all
  have u: "judgings_left cfg (pa_Unparseable q) \<le> judgings_left cfg (pa_Unparseable p)"
    "judgings_left cfg (pa_Transport q) \<le> judgings_left cfg (pa_Transport p)" using q by simp_all
  note drop = potential_drop [OF r u q(5,6)]
  show "potential cfg q \<le> potential cfg p" by (rule drop(1))
  show "potential cfg q < potential cfg p" if "pa_Index p < pa_Index q \<or> b \<le> total_attempts cfg"
    using that
  proof
    assume "b \<le> total_attempts cfg"
    then show ?thesis using work_spent(2) [OF at b q(1)] flags_checked [OF hc] q(2)
      by (intro drop(3)) (simp add: rank_def)
  qed (use at in \<open>intro drop(2), simp_all add: worker_at_def\<close>)
qed

lemma skip_drops:
  assumes at: "worker_at cfg p st" and s: "pa_Evaluated p \<longrightarrow> pa_RetestPending p"
    and q: "q = p\<lparr>pa_Index := pa_Index p + 1, pa_Log := log, pa_Evaluated := True, pa_RetestPending := False\<rparr>"
  shows "potential cfg q < potential cfg p"
proof -
  have "flags_left q = 0" "1 \<le> flags_left p" using s by (auto simp: q flags_left_def)
  then have r: "rank cfg q \<le> rank cfg p"
    using begun_bounds [of cfg p] begun_bounds [of cfg q] by (simp add: rank_def) (simp add: q)
  show ?thesis using at by (intro potential_drop(2) [OF r]) (simp_all add: q worker_at_def)
qed

lemma retest_drops:
  assumes at: "gate_at cfg p st" and o: "pa_Ordered p < max_review_head_retests"
    and q: "q = p\<lparr>pa_Index := k, pa_Ordered := pa_Ordered p + 1, pa_Evaluated := True, pa_RetestPending := True\<rparr>"
  shows "potential cfg q < potential cfg p"
proof -
  have "flags_left q \<le> flags_left p + 1" by (simp add: q flags_left_def)
  then have "rank cfg q \<le> rank cfg p + 1"
    using begun_bounds [of cfg q] by (simp add: rank_def gate_not_begun [OF at]) (simp add: q)
  then show ?thesis by (rule potential_retest) (simp_all add: q o)
qed

lemma moves_drop:
  assumes "moves cfg True reattach p q" "rewinds_back cfg"
  shows "potential cfg q \<le> potential cfg p \<and> (\<not> reattach \<longrightarrow> potential cfg q < potential cfg p)"
  using assms(1)
proof cases
  case (gate_passed st os amended r)
  then show ?thesis using gate_pass_drops by fastforce
next
  case (ungradeable st r)
  then show ?thesis using rejudge_drops [of cfg p st r "pa_Unparseable p" _ q] by fastforce
next
  case (gate_errored st r)
  then show ?thesis using rejudge_drops [of cfg p st r "pa_Transport p" _ q] by fastforce
next
  case (rewound st k r)
  then show ?thesis using rewind_drops [OF assms(2)] by fastforce
next
  case (retested st k)
  then show ?thesis using retest_drops by fastforce
next
  case (skipped st)
  then show ?thesis using skip_drops by fastforce
next
  case (worked st r ds a)
  note same = head_checkedD [OF worked(3)]
  show ?thesis using work_drops(2) [OF worked(2,3), of a q] worked(5) by (auto simp: worked(1) same flags_left_def)
next
  case (retried st r ds a b)
  note same = head_checkedD [OF retried(3)]
  show ?thesis using work_drops [OF retried(2,3), of b q] retried(5,6) by (auto simp: retried(1) same flags_left_def)
qed

end
