(* ===== verification/Runner_Rows.thy ===== *)
theory Runner_Rows
  imports Runner_Order
begin

section \<open>The run a drive works on\<close>

abbreviation run_id :: "'a held_scheme \<Rightarrow> string" where
  "run_id h \<equiv> pr_ID (hd_Run h)"

lemma id_set_run: "(\<And>r. pr_ID (f r) = pr_ID r) \<Longrightarrow> run_id (set_run f h) = run_id h"
  by (simp add: set_run_def)

lemma id_simps [simp]: "run_id (others ops h) = run_id h" "run_id (stamp md h) = run_id h"
  by (simp_all add: others_def stamp_def)

lemma id_persist: "persist_run now h = (e, h') \<Longrightarrow> run_id h' = run_id h"
  by (auto simp: persist_run_def set_run_def split: sum.splits prod.splits)

lemma id_transition: "transition_item s now h = (e, h') \<Longrightarrow> run_id h' = run_id h"
  by (auto simp: transition_item_def split: sum.splits prod.splits option.splits)

lemma id_end_run: "end_run s now h = (e, h') \<Longrightarrow> run_id h' = run_id h"
  by (auto simp: end_run_def id_set_run dest!: id_persist)

lemma id_apply_metadata [simp]: "pr_ID (apply_metadata md r) = pr_ID r"
  by (simp add: apply_metadata_def)

lemma id_stamp [simp]: "run_id (stamp_escalation_metadata cfg cls r h) = run_id h"
  by (simp add: stamp_escalation_metadata_def Let_def id_set_run)

lemma id_settle: "settle_item s now h = (e, h') \<Longrightarrow> run_id h' = run_id h"
  by (auto simp: settle_item_def dest: id_transition split: option.splits if_splits)

lemma id_transition_snd [simp]: "run_id (snd (transition_item s now h)) = run_id h"
  by (rule id_transition [OF prod.collapse [symmetric]])

lemma id_auto_retry: "maybe_auto_retry cfg now cls r h = (b, h') \<Longrightarrow> run_id h' = run_id h"
  by (auto simp: maybe_auto_retry_def dest!: id_end_run split: option.splits prod.splits if_splits)

lemma id_escalate: "escalate cfg now cls r h = (e, h') \<Longrightarrow> run_id h' = run_id h"
  by (auto simp: escalate_def Let_def id_set_run dest!: id_end_run id_settle split: option.splits prod.splits if_splits)

lemma id_policy: "escalate_with_item_policy b cfg now cls r h = (e, h') \<Longrightarrow> run_id h' = run_id h"
  by (auto simp: escalate_with_item_policy_def dest!: id_auto_retry id_escalate split: bool.splits prod.splits if_splits)

section \<open>The table of attempts\<close>

definition row_key :: "stage_row \<Rightarrow> string \<times> string \<times> int" where
  "row_key r = (sg_RunID r, sg_Stage r, sg_Attempt r)"

lemma same_attempt_key: "same_attempt a b \<longleftrightarrow> row_key a = row_key b"
  by (simp add: same_attempt_def row_key_def)

lemma merged_stage_sel [simp]:
  "row_key (merged_stage new old) = row_key old" "sg_Outcome (merged_stage new old) = sg_Outcome new"
  "sg_SpawnID (merged_stage new old) = kept_text (sg_SpawnID new) (sg_SpawnID old)"
  by (simp_all add: merged_stage_def row_key_def)

lemma row_key_update [simp]:
  "row_key (r\<lparr>sg_ID := n\<rparr>) = row_key r" "row_key (r\<lparr>sg_StartedAt := s\<rparr>) = row_key r"
  "row_key (r\<lparr>sg_Artifacts := m\<rparr>) = row_key r"
  by (simp_all add: row_key_def)

lemma map_where_keys: "map row_key (map_where p (merged_stage r) rows) = map row_key rows"
  by (simp add: map_where_def)

text \<open>A write touches the rows of its own attempt only.\<close>

lemma put_stage_cases:
  assumes "put_stage now r rows = Inr rows'"
  obtains s where "row_key s = row_key r" "sg_Outcome s = sg_Outcome r" "sg_SpawnID s = sg_SpawnID r"
    "rows' = map_where (same_attempt s) (merged_stage s) rows \<or>
     rows' = rows @ [s] \<and> row_key r \<notin> row_key ` set rows"
proof -
  define s where "s = (if sg_StartedAt r = zero_time then r\<lparr>sg_StartedAt := now\<rparr> else r)"
  have s: "row_key s = row_key r" "sg_Outcome s = sg_Outcome r" "sg_SpawnID s = sg_SpawnID r"
    by (simp_all add: s_def)
  have "rows' = (if list_ex (same_attempt s) rows then map_where (same_attempt s) (merged_stage s) rows
      else rows @ [s\<lparr>sg_ID := length rows + 1\<rparr>])"
    using assms unfolding put_stage_def Let_def s_def [symmetric] by (simp split: if_splits)
  then show thesis
    using that [of s] that [of "s\<lparr>sg_ID := length rows + 1\<rparr>"] s
    by (auto simp: list_ex_iff same_attempt_key split: if_splits)
qed

lemma put_stage_rows:
  assumes "put_stage now r rows = Inr rows'" "x \<in> set rows'"
  shows "(x \<in> set rows \<and> row_key x \<noteq> row_key r) \<or>
    (row_key x = row_key r \<and> sg_Outcome x = sg_Outcome r \<and>
      (sg_SpawnID x = sg_SpawnID r \<or>
        sg_SpawnID r = '''' \<and> (\<exists>y \<in> set rows. row_key y = row_key r \<and> sg_SpawnID x = sg_SpawnID y)))"
proof -
  obtain s where s: "row_key s = row_key r" "sg_Outcome s = sg_Outcome r" "sg_SpawnID s = sg_SpawnID r"
    and "rows' = map_where (same_attempt s) (merged_stage s) rows \<or>
     rows' = rows @ [s] \<and> row_key r \<notin> row_key ` set rows"
    using put_stage_cases [OF assms(1)] by metis
  then show ?thesis
  proof (elim disjE conjE)
    assume "rows' = map_where (same_attempt s) (merged_stage s) rows"
    then obtain y where y: "y \<in> set rows" "x = (if row_key s = row_key y then merged_stage s y else y)"
      using assms(2) by (auto simp: map_where_def same_attempt_key)
    show ?thesis
    proof (cases "row_key s = row_key y")
      case True
      then have "x = merged_stage s y" using y by simp
      then show ?thesis using True y(1) s by (auto simp: kept_text_def)
    qed (use y s in auto)
  next
    assume "rows' = rows @ [s]" "row_key r \<notin> row_key ` set rows"
    then show ?thesis using assms(2) s by (auto simp: image_iff)
  qed
qed

lemma put_stage_unique:
  assumes "put_stage now r rows = Inr rows'" "distinct (map row_key rows)"
  shows "distinct (map row_key rows')"
proof -
  obtain s where s: "row_key s = row_key r"
    and "rows' = map_where (same_attempt s) (merged_stage s) rows \<or>
     rows' = rows @ [s] \<and> row_key r \<notin> row_key ` set rows"
    using put_stage_cases [OF assms(1)] by metis
  then show ?thesis
  proof (elim disjE conjE)
    assume "rows' = map_where (same_attempt s) (merged_stage s) rows"
    then show ?thesis using assms(2) by (simp only: map_where_keys)
  qed (use assms(2) s in auto)
qed

lemma put_stage_error: "put_stage now r rows = Inl Stage_Invalid \<Longrightarrow> sg_RunID r = '''' \<or> sg_Stage r = ''''"
  by (auto simp: put_stage_def Let_def split: if_splits)

text \<open>No attempt of the run is pending, and its spawns are among those seen.\<close>

definition row_settled :: "string set \<Rightarrow> stage_row \<Rightarrow> bool" where
  "row_settled seen r \<longleftrightarrow> sg_SpawnID r = '''' \<or> sg_Outcome r \<noteq> None \<and> sg_SpawnID r \<in> seen"

definition rows_settled :: "string \<Rightarrow> string set \<Rightarrow> stage_row list \<Rightarrow> bool" where
  "rows_settled run seen rows \<longleftrightarrow> distinct (map row_key rows) \<and>
     (\<forall>r \<in> set rows. sg_RunID r = run \<longrightarrow> row_settled seen r)"

text \<open>While a worker works on an attempt, that attempt alone may be open.\<close>

definition rows_open :: "string \<Rightarrow> string set \<Rightarrow> string set \<Rightarrow> string \<Rightarrow> int \<Rightarrow> stage_row list \<Rightarrow> bool" where
  "rows_open run seen new st a rows \<longleftrightarrow> distinct (map row_key rows) \<and>
     (\<forall>r \<in> set rows. sg_RunID r = run \<longrightarrow> row_settled seen r \<or>
        row_key r = (run, st, a) \<and> sg_Outcome r = None \<and> sg_SpawnID r \<in> seen \<union> new)"

lemma settled_open: "rows_settled run seen rows \<Longrightarrow> rows_open run seen new st a rows"
  by (simp add: rows_settled_def rows_open_def)

lemma open_put:
  assumes "rows_open run seen new st a rows" "put_stage now r rows = Inr rows'"
    "row_key r = (run, st, a)" "sg_Outcome r = None" "sg_SpawnID r \<in> insert '''' new"
  shows "rows_open run seen new st a rows'"
  unfolding rows_open_def
proof (intro conjI ballI impI)
  show "distinct (map row_key rows')" using assms(1) put_stage_unique [OF assms(2)] by (simp add: rows_open_def)
next
  fix x assume x: "x \<in> set rows'" "sg_RunID x = run"
  show "row_settled seen x \<or> row_key x = (run, st, a) \<and> sg_Outcome x = None \<and> sg_SpawnID x \<in> seen \<union> new"
    using put_stage_rows [OF assms(2) x(1)] assms(1,3-5) x(2)
    by (auto simp: rows_open_def row_settled_def row_key_def)
qed

lemma close_put:
  assumes "rows_open run seen new st a rows" "put_stage now r rows = Inr rows'"
    "row_key r = (run, st, a)" "sg_Outcome r \<noteq> None" "sg_SpawnID r \<in> insert '''' new"
  shows "rows_settled run (seen \<union> new) rows'"
  unfolding rows_settled_def
proof (intro conjI ballI impI)
  show "distinct (map row_key rows')" using assms(1) put_stage_unique [OF assms(2)] by (simp add: rows_open_def)
next
  fix x assume x: "x \<in> set rows'" "sg_RunID x = run"
  show "row_settled (seen \<union> new) x"
    using put_stage_rows [OF assms(2) x(1)] assms(1,3-5) x(2)
    by (auto simp: rows_open_def row_settled_def row_key_def)
qed

section \<open>An attempt closes what it has opened\<close>

text \<open>The spawns a report names, each once.\<close>

definition report_spawns :: "report \<Rightarrow> string list" where
  "report_spawns rp =
     remdups (filter (\<lambda>s. s \<noteq> '''')
       (so_SpawnID (dp_Output rp) # List.map_filter (\<lambda>c. case c of Spawn_Accepted s \<Rightarrow> Some s | _ \<Rightarrow> None) (dp_Calls rp)))"

definition open_drive :: "string \<Rightarrow> string set \<Rightarrow> string set \<Rightarrow> stage \<Rightarrow> int \<Rightarrow> drive \<Rightarrow> bool" where
  "open_drive run seen new st a d \<longleftrightarrow> run_id d = run \<and> rows_open run seen new (stg_ID st) a (dr_Stages d)"

definition settled_drive :: "string \<Rightarrow> string set \<Rightarrow> drive \<Rightarrow> bool" where
  "settled_drive run seen d \<longleftrightarrow> run_id d = run \<and> rows_settled run seen (dr_Stages d)"

lemma put_row_cases:
  assumes "put_row now r d = (e, d')"
  shows "hd_Run d' = hd_Run d"
    and "e = None \<Longrightarrow> put_stage now r (dr_Stages d) = Inr (dr_Stages d')"
    and "e \<noteq> None \<Longrightarrow> d' = d \<and> put_stage now r (dr_Stages d) = Inl (the e)"
  using assms by (auto simp: put_row_def split: sum.splits)

lemma stages_frame [simp]:
  "dr_Stages (others ops d) = dr_Stages (d :: drive)" "dr_Stages (set_run f d) = dr_Stages (d :: drive)"
  by (rule more_eq, simp)+

lemma stages_persist: "persist_run now d = (e, d') \<Longrightarrow> dr_Stages d' = dr_Stages (d :: drive)"
  using more_persist [of now d] by (intro more_eq) (simp del: more_persist)

lemma stages_policy: "escalate_with_item_policy b cfg now cls r d = (e, d') \<Longrightarrow> dr_Stages d' = dr_Stages (d :: drive)"
  by (rule more_eq) (rule more_escalate_policy')

lemma open_put_row:
  assumes "open_drive run seen new st a d" "put_row now r d = (e, d')"
    "row_key r = (run, stg_ID st, a)" "sg_Outcome r = None" "sg_SpawnID r \<in> insert '''' new"
  shows "open_drive run seen new st a d'"
proof (cases e)
  case None
  then show ?thesis using assms put_row_cases [OF assms(2)] open_put [OF _ _ assms(3-5)] by (auto simp: open_drive_def)
next
  case (Some x)
  then show ?thesis using assms put_row_cases [OF assms(2)] by simp
qed

lemma row_key_new [simp]: "row_key (new_row run st a s) = (run, st, a)" "sg_Outcome (new_row run st a s) = None"
    "sg_SpawnID (new_row run st a s) = ''''"
  by (simp_all add: row_key_def new_row_def)

lemma call_row_facts:
  "row_key (call_row run st a s c) = (run, st, a)" "sg_Outcome (call_row run st a s c) = None"
  "sg_SpawnID (call_row run st a s c) = (case c of Spawn_Accepted x \<Rightarrow> x | _ \<Rightarrow> '''')"
  by (cases c; simp add: call_row_def row_key_def new_row_def Let_def)+

lemma open_record_call:
  assumes "open_drive run seen new st a d" "\<And>s. c = Spawn_Accepted s \<Longrightarrow> s \<in> insert '''' new"
  shows "open_drive run seen new st a (record_call now (stg_ID st) a started c d)"
proof (cases "c = Spawn_Accepted ''''")
  case False
  have "run_id d = run" using assms(1) by (simp add: open_drive_def)
  then show ?thesis
    using False open_put_row [OF assms(1) prod.collapse [symmetric]] assms(2)
    by (simp add: record_call_def call_row_facts split: recorder_call.split)
qed (use assms in \<open>simp add: record_call_def\<close>)

lemma open_record_calls:
  assumes "open_drive run seen new st a d" "\<And>s. Spawn_Accepted s \<in> set cs \<Longrightarrow> s \<in> insert '''' new"
  shows "open_drive run seen new st a (fold (record_call now (stg_ID st) a started) cs d)"
  using assms
proof (induction cs arbitrary: d)
  case (Cons c cs)
  have "open_drive run seen new st a (record_call now (stg_ID st) a started c d)"
    using Cons.prems by (intro open_record_call) auto
  then show ?case using Cons by simp
qed simp

lemma open_others: "open_drive run seen new st a d \<Longrightarrow> open_drive run seen new st a (others ops d)"
  by (simp add: open_drive_def)

lemma open_log: "open_drive run seen new st a d \<Longrightarrow> open_drive run seen new st a (log_event e d)"
  by (simp add: open_drive_def log_event_def)

lemma accepted_in_report: "Spawn_Accepted s \<in> set (dp_Calls rp) \<Longrightarrow> s \<in> insert '''' (set (report_spawns rp))"
  by (cases "s = []")
    (auto simp: report_spawns_def List.map_filter_def intro!: image_eqI [of _ _ "Spawn_Accepted s"])

lemma open_begin:
  assumes "settled_drive run seen d" "begin_stage t st a False d = (e, d')"
  shows "e = None \<Longrightarrow> open_drive run seen new st a d'" "e \<noteq> None \<Longrightarrow> settled_drive run seen d'"
proof -
  obtain e1 d1 where p: "persist_run (tn_Now t) (set_run (\<lambda>r. r\<lparr>pr_CurrentStage := stg_ID st, pr_State := stg_State st\<rparr>) d) = (e1, d1)"
    by fastforce
  have d1: "settled_drive run seen d1"
    using assms(1) id_persist [OF p] stages_persist [OF p] by (simp add: settled_drive_def id_set_run)
  then have o1: "open_drive run seen new st a d1" by (simp add: settled_drive_def open_drive_def settled_open)
  obtain e2 d2 where q: "put_row (tn_Now t) (new_row (run_id d1) (stg_ID st) a (tn_Now t)) d1 = (e2, d2)" by fastforce
  have r: "run_id d1 = run" using d1 by (simp add: settled_drive_def)
  have "open_drive run seen new st a d2" using open_put_row [OF o1 q] r by simp
  moreover have "e2 \<noteq> None \<Longrightarrow> d2 = d1" using put_row_cases(3) [OF q] by simp
  ultimately show "e = None \<Longrightarrow> open_drive run seen new st a d'" "e \<noteq> None \<Longrightarrow> settled_drive run seen d'"
    using assms(2) p q d1 o1 by (auto simp: begin_stage_def split: option.splits if_splits)
qed

lemma open_work:
  assumes "open_drive run seen (set (report_spawns (tn_Report t))) st a d"
    "do_work cfg t st a started None d = ((out, derr), d')"
  shows "open_drive run seen (set (report_spawns (tn_Report t))) st a d'"
    and "out = no_output \<or> out = dp_Output (tn_Report t)"
proof -
  have w: "dispatch_work cfg t st a started d = ((out, derr), d')"
    using assms(2) by (simp add: do_work_def stop_intended_def)
  have pol: "open_drive run seen new st a e" if "escalate_with_item_policy b cfg now cls r d = (x, e)"
    "open_drive run seen new st a d" for b now cls r x e new
    using that id_policy [OF that(1)] stages_policy [OF that(1)] by (simp add: open_drive_def)
  show "open_drive run seen (set (report_spawns (tn_Report t))) st a d'"
    using w assms(1)
    by (auto simp: dispatch_work_def Let_def intro!: open_others open_record_calls open_log dest: pol
        dest!: accepted_in_report split: readiness.splits prod.splits option.splits if_splits)
  show "out = no_output \<or> out = dp_Output (tn_Report t)"
    using w by (auto simp: dispatch_work_def Let_def split: readiness.splits prod.splits option.splits if_splits)
qed

lemma accepted_spawn_in:
  "accepted_spawn s cs \<in> insert s {x. Spawn_Accepted x \<in> set cs}"
  unfolding accepted_spawn_def
  by (induction cs arbitrary: s) (auto split: recorder_call.split)

lemma spawn_set_artifact: "so_SpawnID (set_artifact k v out) = so_SpawnID out"
  by (simp add: set_artifact_def)

lemma output_spawn:
  assumes "out0 = no_output \<or> out0 = dp_Output (tn_Report t)"
  shows "so_SpawnID (complete_output t st None d out0) \<in> insert '''' (set (report_spawns (tn_Report t)))"
proof -
  have own: "so_SpawnID out0 \<in> insert '''' (set (report_spawns (tn_Report t)))"
    using assms by (auto simp: no_output_def report_spawns_def)
  define cs where "cs = (if asks_worker t None d then filter (allowed_call d st) (dp_Calls (tn_Report t)) else [])"
  have "set cs \<subseteq> set (dp_Calls (tn_Report t))" by (auto simp: cs_def)
  then have acc: "accepted_spawn [] cs \<in> insert [] (set (report_spawns (tn_Report t)))"
    using accepted_spawn_in [of "[]" cs] accepted_in_report by blast
  have "so_SpawnID (complete_output t st None d out0) = (if so_SpawnID out0 = [] then accepted_spawn [] cs else so_SpawnID out0)"
    by (simp add: complete_output_def Let_def cs_def [symmetric] spawn_set_artifact split: option.split)
  then show ?thesis using own acc by auto
qed

text \<open>What is left to say of an attempt that did not end the drive.\<close>

definition attempt_closed :: "string \<Rightarrow> string set \<Rightarrow> stage_end \<Rightarrow> stage \<Rightarrow> drive \<Rightarrow> bool" where
  "attempt_closed run seen e st d \<longleftrightarrow> run_id d = run \<and> (\<forall>f a. e \<noteq> Stage_Deduped f a) \<and>
     (e = Stage_Done \<longrightarrow> rows_settled run seen (dr_Stages d)) \<and>
     (\<forall>f. e = Stage_Failed f \<longrightarrow> \<not> fl_SpawnConflict f \<longrightarrow> run \<noteq> '''' \<longrightarrow> stg_ID st \<noteq> '''' \<longrightarrow>
        rows_settled run seen (dr_Stages d))"

lemma refused_put:
  assumes "put_row now r d = (Some x, d')" "sg_RunID r = run" "sg_Stage r = stg_ID st"
  shows "run \<noteq> '''' \<Longrightarrow> stg_ID st \<noteq> '''' \<Longrightarrow> fl_SpawnConflict (put_failure t x)"
  using put_row_cases(3) [OF assms(1)] assms(2,3) put_stage_error [of now r "dr_Stages d"]
  by (cases x) (auto simp: put_failure_def)

lemma result_row_facts:
  "row_key (result_row t run st a s out derr cost billing) = (run, stg_ID st, a)"
  "sg_Outcome (result_row t run st a s out derr cost billing) \<noteq> None"
  "sg_SpawnID (result_row t run st a s out derr cost billing) = so_SpawnID out"
  "sg_RunID (result_row t run st a s out derr cost billing) = run"
  "sg_Stage (result_row t run st a s out derr cost billing) = stg_ID st"
  by (simp_all add: result_row_def row_key_def new_row_def)

lemma not_earlier:
  assumes o: "open_drive run seen new st a d" and sp: "so_SpawnID out \<in> insert '''' new" and dis: "new \<inter> seen = {}"
  shows "earlier_attempt st out derr d = None"
proof (rule ccontr)
  assume "earlier_attempt st out derr d \<noteq> None"
  then obtain r where "poll_timeout_attempt run (stg_ID st) (so_SpawnID out) (dr_Stages d) = Some r" "so_SpawnID out \<noteq> ''''"
    using o by (auto simp: earlier_attempt_def open_drive_def split: option.splits if_splits)
  then have "r \<in> set (dr_Stages d)" "sg_RunID r = run" "sg_SpawnID r = so_SpawnID out" "sg_Outcome r \<noteq> None" "so_SpawnID out \<noteq> ''''"
    by (auto simp: poll_timeout_attempt_def list_stages_def dest!: find_Some_in split: if_splits)
  then show False using o sp dis unfolding open_drive_def rows_open_def row_settled_def by fastforce
qed

lemma closed_record:
  assumes o: "open_drive run seen new st a d" and sp: "so_SpawnID out \<in> insert '''' new" and dis: "new \<inter> seen = {}"
    and r: "record_result t st a started out derr d = (e, d')"
  shows "attempt_closed run (seen \<union> new) e st d'"
proof -
  have run: "run_id d = run" and rows: "rows_open run seen new (stg_ID st) a (dr_Stages d)"
    using o by (simp_all add: open_drive_def)
  define row where "row = result_row t run st a started out derr
      (attributed_cost run out (derr \<noteq> None) (dr_Stages d))
      (if so_Billing out = '''' then billing_for_backend (so_Backend out) else so_Billing out)"
  obtain x d1 where p: "put_row (tn_Now t) row d = (x, d1)" by fastforce
  have rec: "record_result t st a started out derr d = (case put_row (tn_Now t) row d of
         (Some y, e1) \<Rightarrow> (Stage_Failed (put_failure t y), e1)
       | (None, e1) \<Rightarrow> (case derr of
            Some f \<Rightarrow> (Stage_Failed f, e1)
          | None \<Rightarrow> (case persist_run (tn_Now t) (set_run (roll_up out (attributed_cost run out (derr \<noteq> None) (dr_Stages d))
                (if so_Billing out = '''' then billing_for_backend (so_Backend out) else so_Billing out)) e1) of
              (Some y, e2) \<Rightarrow> (Stage_Failed (store_failure t), e2) | (None, e2) \<Rightarrow> (Stage_Done, e2))))"
    unfolding record_result_def Let_def not_earlier [OF o sp dis] row_def run option.case by (simp only: simp_thms if_True)
  have id1: "run_id d1 = run" using put_row_cases(1) [OF p] run by simp
  show ?thesis
  proof (cases x)
    case (Some y)
    have "run \<noteq> '''' \<Longrightarrow> stg_ID st \<noteq> '''' \<Longrightarrow> fl_SpawnConflict (put_failure t y)"
      using refused_put [OF p [unfolded Some], of run st t] by (simp add: row_def result_row_facts)
    then show ?thesis using r rec p Some id1 by (auto simp: attempt_closed_def)
  next
    case None
    have closed: "rows_settled run (seen \<union> new) (dr_Stages d1)"
      by (rule close_put [OF rows put_row_cases(2) [OF p None]]) (use sp in \<open>simp_all add: row_def result_row_facts\<close>)
    then show ?thesis
      using r rec p None id1
      by (auto simp: attempt_closed_def id_set_run roll_up_def split: option.splits prod.splits
          dest: id_persist stages_persist)
  qed
qed

lemma closed_settle:
  assumes o: "open_drive run seen new st a d" and sp: "so_SpawnID out \<in> insert '''' new" and dis: "new \<inter> seen = {}"
    and r: "settle_stage t st a started None out derr d = ((e, out'), d')"
  shows "attempt_closed run (seen \<union> new) e st d'"
proof (cases "if so_SpawnID out \<noteq> '''' \<and> \<not> has_terminal_spawn_status out then derr else None")
  case None
  then show ?thesis using r closed_record [OF o sp dis] by (auto simp: settle_stage_def split: prod.splits)
next
  case (Some f)
  have run: "run_id d = run" using o by (simp add: open_drive_def)
  let ?row = "spawn_parked_row run st a started out (fl_Text f) 1"
  obtain x d1 where p: "put_row (tn_Now t) ?row d = (x, d1)" by fastforce
  have key: "sg_RunID ?row = run" "sg_Stage ?row = stg_ID st" by (simp_all add: spawn_parked_row_def Let_def new_row_def)
  have "settle_stage t st a started None out derr d =
      (case park_pending_spawn t st a started out (fl_Text f) 1 d of (e, d1) \<Rightarrow> ((e, out), d1))"
    unfolding settle_stage_def Some by (simp add: Let_def pending_poll_failures_def max_consecutive_spawn_poll_failures_def)
  then have "(e, d') = (case x of Some y \<Rightarrow> (Stage_Failed (put_failure t y), d1) | None \<Rightarrow> (Stage_Parked, d1))"
    using r p run by (simp add: park_pending_spawn_def split: prod.splits option.splits)
  then show ?thesis
    using put_row_cases(1) [OF p] run refused_put [of "tn_Now t" ?row d _ d1 run st t] p key
    by (cases x) (auto simp: attempt_closed_def)
qed

lemma closed_run_stage:
  assumes s: "settled_drive run seen d" and dis: "set (report_spawns (tn_Report t)) \<inter> seen = {}"
    and r: "run_stage cfg t st a None d = ((e, out), d')"
  shows "attempt_closed run (seen \<union> set (report_spawns (tn_Report t))) e st d'"
proof -
  let ?new = "set (report_spawns (tn_Report t))"
  obtain x d1 where b: "begin_stage t st a False d = (x, d1)" by fastforce
  show ?thesis
  proof (cases x)
    case (Some f)
    have "settled_drive run seen d1" using open_begin(2) [OF s b] Some by simp
    then have "run_id d1 = run" "rows_settled run (seen \<union> ?new) (dr_Stages d1)"
      by (auto simp: settled_drive_def rows_settled_def row_settled_def)
    then show ?thesis using r b Some by (auto simp: run_stage_def attempt_closed_def)
  next
    case None
    have o1: "open_drive run seen ?new st a d1" using open_begin(1) [OF s b] None by simp
    obtain out0 derr d2 where w: "do_work cfg t st a (tn_Now t) None d1 = ((out0, derr), d2)" by (metis prod.exhaust)
    have o2: "open_drive run seen ?new st a d2" using open_work(1) [OF o1 w] .
    have sp: "so_SpawnID (complete_output t st None d1 out0) \<in> insert '''' ?new"
      by (rule output_spawn) (rule open_work(2) [OF o1 w])
    have "((e, out), d') = (if dp_Cancelled (tn_Report t) then ((Stage_Cancelled, complete_output t st None d1 out0), d2)
        else if run_terminated d2 then ((Stage_Terminated, complete_output t st None d1 out0), d2)
        else settle_stage t st a (tn_Now t) None (complete_output t st None d1 out0) derr d2)"
      using r b None w by (simp add: run_stage_def Let_def)
    then show ?thesis
      using closed_settle [OF o2 sp dis, of t "tn_Now t" derr e out d'] o2
      by (auto simp: attempt_closed_def open_drive_def split: if_splits)
  qed
qed

text \<open>A stage is only tried again after its attempt was classified, which needs a run and a stage.\<close>

lemma classified_put:
  assumes "persist_attempt_classification t i a c n d = (True, d')"
  obtains r where "r \<in> set (dr_Stages d)" "sg_RunID r = run_id d" "sg_Stage r = i" "sg_Attempt r = a" "hd_Run d' = hd_Run d"
    "put_stage (tn_Now t) (r\<lparr>sg_Artifacts := (sg_Artifacts r)(''retry_class'' \<mapsto> A_Text c, ''effective_attempts'' \<mapsto> A_Num n)\<rparr>)
       (dr_Stages d) = Inr (dr_Stages d')"
proof -
  obtain r where f: "find (\<lambda>r. sg_Stage r = i \<and> sg_Attempt r = a) (list_stages (run_id d) (dr_Stages d)) = Some r"
    and p: "put_row (tn_Now t) (r\<lparr>sg_Artifacts := (sg_Artifacts r)(''retry_class'' \<mapsto> A_Text c, ''effective_attempts'' \<mapsto> A_Num n)\<rparr>) d = (None, d')"
    using assms by (auto simp: persist_attempt_classification_def split: option.splits prod.splits)
  from find_Some_in [OF f] have "r \<in> set (dr_Stages d)" "sg_RunID r = run_id d" "sg_Stage r = i" "sg_Attempt r = a"
    by (simp_all add: list_stages_def)
  then show thesis using that put_row_cases(1,2) [OF p] by simp
qed

lemma retry_next:
  assumes "retry_stage cfg t st f cls d = Next d'"
  obtains c n d1 where "persist_attempt_classification t (stg_ID st) (dr_Attempts d (stg_ID st)) c n d = (True, d1)"
    "dr_Stages d' = dr_Stages d1" "hd_Run d' = hd_Run d1"
  using assms that by (auto simp: retry_stage_def Let_def split: prod.splits bool.splits if_splits)

lemma classified_settled:
  assumes "persist_attempt_classification t i a c n d = (True, d')" "rows_settled run seen (dr_Stages d)" "run_id d = run"
  shows "rows_settled run seen (dr_Stages d')"
proof -
  obtain r where r: "r \<in> set (dr_Stages d)" "sg_RunID r = run_id d" and
    put: "put_stage (tn_Now t) (r\<lparr>sg_Artifacts := (sg_Artifacts r)(''retry_class'' \<mapsto> A_Text c, ''effective_attempts'' \<mapsto> A_Num n)\<rparr>)
       (dr_Stages d) = Inr (dr_Stages d')"
    using classified_put [OF assms(1)] by metis
  have uniq: "y = r" if "y \<in> set (dr_Stages d)" "row_key y = row_key r" for y
    using assms(2) that r(1) by (auto simp: rows_settled_def distinct_map dest: inj_onD)
  show ?thesis
    unfolding rows_settled_def
  proof (intro conjI ballI impI)
    show "distinct (map row_key (dr_Stages d'))"
      using put_stage_unique [OF put] assms(2) by (simp add: rows_settled_def)
  next
    fix x assume x: "x \<in> set (dr_Stages d')" "sg_RunID x = run"
    have settled: "row_settled seen r" using assms(2,3) r by (simp add: rows_settled_def)
    have "x \<in> set (dr_Stages d) \<or> sg_Outcome x = sg_Outcome r \<and> sg_SpawnID x = sg_SpawnID r"
      using put_stage_rows [OF put x(1)] uniq by auto
    then show "row_settled seen x"
    proof
      assume "x \<in> set (dr_Stages d)"
      then show ?thesis using assms(2) x(2) by (simp add: rows_settled_def)
    qed (use settled in \<open>simp add: row_settled_def\<close>)
  qed
qed

lemma failed_settled:
  assumes next_d: "failed_stage cfg t st f None out d = Next d'" and c: "attempt_closed run seen (Stage_Failed f) st d"
  shows "settled_drive run seen d'"
proof -
  define d1 where "d1 = (if stg_ID st = ''ci_watch'' \<and> so_Artifacts out \<noteq> None
      then d\<lparr>dr_Prior := (dr_Prior d)(ci_watch_state_key \<mapsto> no_output\<lparr>so_Artifacts := so_Artifacts out\<rparr>)\<rparr> else d)"
  define k where "k = handled_class d1 f"
  define d3 where "d3 = count_failure k (stg_ID st) d1"
  have same: "dr_Stages d3 = dr_Stages d" "hd_Run d3 = hd_Run d"
    by (auto simp: d3_def d1_def count_failure_def)
  have eq: "failed_stage cfg t st f None out d = (if fl_SpawnConflict f then Stop End_Conflict d1
      else if fl_BaselineFails f then closing Class_Infra (Reason_Baseline_Fails (stg_ID st))
             (escalate_devbox_baseline cfg (tn_Now t) (stg_ID st) d1)
      else case fl_HeadMoved f of Some m \<Rightarrow> record_external_head_movement cfg t st m d1
         | None \<Rightarrow> (case hopeless cfg t st f k d3 of Some r \<Rightarrow> r | None \<Rightarrow> retry_stage cfg t st f k d3))"
    unfolding failed_stage_def Let_def d1_def k_def d3_def option.case by (rule refl)
  have rs: "retry_stage cfg t st f k d3 = Next d'" and nc: "\<not> fl_SpawnConflict f"
    using next_d path_head_movement(2) [of cfg t st _ d1 _ d'] path_hopeless(2) [of cfg t st f k d3 _ d']
    by (auto simp: eq split: if_splits option.splits)
  obtain z n d4 where p: "persist_attempt_classification t (stg_ID st) (dr_Attempts d3 (stg_ID st)) z n d3 = (True, d4)"
    and d': "dr_Stages d' = dr_Stages d4" "hd_Run d' = hd_Run d4" by (rule retry_next [OF rs])
  have id: "run_id d3 = run" using c same by (simp add: attempt_closed_def)
  obtain r where "sg_RunID r = run" "sg_Stage r = stg_ID st" and d4: "hd_Run d4 = hd_Run d3"
    and put: "put_stage (tn_Now t) (r\<lparr>sg_Artifacts := (sg_Artifacts r)(''retry_class'' \<mapsto> A_Text z, ''effective_attempts'' \<mapsto> A_Num n)\<rparr>)
       (dr_Stages d3) = Inr (dr_Stages d4)"
    using classified_put [OF p] id by metis
  then have "run \<noteq> ''''" "stg_ID st \<noteq> ''''" by (auto simp: put_stage_def split: if_splits)
  then have "rows_settled run seen (dr_Stages d3)" using c nc same by (simp add: attempt_closed_def)
  from classified_settled [OF p this id] show ?thesis using d' d4 id by (simp add: settled_drive_def)
qed

section \<open>A turn keeps the table settled\<close>

lemma finished_rows:
  assumes "finished_stage t st out d = Next d'"
  shows "dr_Stages d' = dr_Stages d \<and> hd_Run d' = hd_Run d"
proof -
  have h: "dr_Stages (hydrate_slice_scope t x) = dr_Stages x \<and> hd_Run (hydrate_slice_scope t x) = hd_Run x" for x
    by (auto simp: hydrate_slice_scope_def Let_def split: option.split sum.split)
  show ?thesis using assms h by (auto simp: finished_stage_def Let_def advance_result split: if_splits)
qed

lemma gate_rows:
  assumes "gate_visit cfg t st d = Next d'"
  shows "dr_Stages d' = dr_Stages d \<and> hd_Run d' = hd_Run d"
proof -
  have adv: "advance os am x = Next d' \<Longrightarrow> dr_Stages d' = dr_Stages x \<and> hd_Run d' = hd_Run x" for os am x
    by (auto simp: advance_result)
  have rew: "rewind cfg t s v sc x = Next d' \<Longrightarrow> dr_Stages d' = dr_Stages x \<and> hd_Run d' = hd_Run x" for s v sc x
    by (auto simp: rewind_def Let_def split: option.splits if_splits)
  have err: "handle_gate_error cfg t s f x = Next d' \<Longrightarrow> dr_Stages d' = dr_Stages x \<and> hd_Run d' = hd_Run x" for s f x
    by (auto simp: handle_gate_error_def Let_def split: if_splits)
  have failed: "failed_gate cfg t s v ahead x = Next d' \<Longrightarrow> dr_Stages d' = dr_Stages x \<and> hd_Run d' = hd_Run x" for s v ahead x
    by (auto simp: failed_gate_def Let_def dest!: adv rew maybe_amend_frame split: if_splits prod.splits)
  have judge: "judge cfg t s ahead x = Next d' \<Longrightarrow> dr_Stages d' = dr_Stages x \<and> hd_Run d' = hd_Run x" for s ahead x
    by (auto simp: judge_def Let_def dest!: adv err failed run_gate_frame split: if_splits prod.splits sum.splits)
  have head: "(case review_head_retest cfg t st d of Head_Proceed a x \<Rightarrow> dr_Stages x = dr_Stages d \<and> hd_Run x = hd_Run d
      | Head_Retest k x \<Rightarrow> dr_Stages x = dr_Stages d \<and> hd_Run x = hd_Run d | _ \<Rightarrow> True)"
    by (auto simp: review_head_retest_def Let_def head_closing_def dest!: run_gate_frame
        split: prod.split sum.split option.split if_splits head_decision.split)
  show ?thesis
    using assms head by (auto simp: gate_visit_def dest!: judge split: if_splits head_decision.splits)
qed

lemma pending_none: "settled_drive run seen d \<Longrightarrow> pending_of st (visited st d) = None"
  by (force simp: pending_of_def visited_def pending_stage_def settled_drive_def rows_settled_def row_settled_def
      list_stages_def find_None_iff)

lemma settled_prepared: "settled_drive run seen (prepared st a d) = settled_drive run seen d"
  by (simp add: settled_drive_def prepared_def)

lemma settled_visited: "settled_drive run seen (visited st d) = settled_drive run seen d"
  by (simp add: settled_drive_def visited_def)

lemma settled_checked: "settled_drive run seen (checked t d) = settled_drive run seen d"
  by (simp add: settled_drive_def checked_def)

lemma settled_mono: "settled_drive run seen d \<Longrightarrow> seen \<subseteq> seen' \<Longrightarrow> settled_drive run seen' d"
  by (auto simp: settled_drive_def rows_settled_def row_settled_def)

lemma attempt_settled:
  assumes s: "settled_drive run seen d" and dis: "set (report_spawns (tn_Report t)) \<inter> seen = {}"
  shows "counted cfg t st a None d"
    and "run_attempt cfg t st a None d = Next d' \<Longrightarrow> settled_drive run (seen \<union> set (report_spawns (tn_Report t))) d'"
proof -
  obtain e out d1 where r: "run_stage cfg t st a None (prepared st a d) = ((e, out), d1)" by (metis prod.exhaust)
  have "settled_drive run seen (prepared st a d)" using s by (simp add: settled_prepared)
  from closed_run_stage [OF this dis r]
  have c: "attempt_closed run (seen \<union> set (report_spawns (tn_Report t))) e st d1" .
  then show "counted cfg t st a None d" using r by (cases e) (auto simp: counted_def attempt_closed_def)
  show "settled_drive run (seen \<union> set (report_spawns (tn_Report t))) d'" if n: "run_attempt cfg t st a None d = Next d'"
  proof (cases e)
    case Stage_Done
    then have "finished_stage t st out d1 = Next d'" using n r by (auto simp: run_attempt_unfold split: if_splits)
    from finished_rows [OF this] show ?thesis using c Stage_Done by (simp add: attempt_closed_def settled_drive_def)
  next
    case (Stage_Failed f)
    then have "failed_stage cfg t st f None out d1 = Next d'" using n r by (auto simp: run_attempt_unfold split: if_splits)
    from failed_settled [OF this c [unfolded Stage_Failed]] show ?thesis .
  next
    case (Stage_Deduped f b)
    then show ?thesis using c by (simp add: attempt_closed_def)
  qed (use n r in \<open>auto simp: run_attempt_unfold split: if_splits\<close>)
qed

lemma visit_settled:
  assumes s: "settled_drive run seen d" and dis: "set (report_spawns (tn_Report t)) \<inter> seen = {}"
  shows "fresh_attempt cfg t st d"
    and "stage_visit cfg t st d = Next d' \<Longrightarrow> settled_drive run (seen \<union> set (report_spawns (tn_Report t))) d'"
proof -
  have v: "settled_drive run seen (visited st d)" using s by (simp add: settled_visited)
  show "fresh_attempt cfg t st d"
    using attempt_settled(1) [OF v dis] pending_none [OF s] by (simp add: fresh_attempt_def)
  show "settled_drive run (seen \<union> set (report_spawns (tn_Report t))) d'" if n: "stage_visit cfg t st d = Next d'"
  proof (cases "stg_ID st = ''pr_self_review'' \<and> review_done d")
    case True
    then have "d' = d\<lparr>dr_Evaluated := True, dr_RetestPending := False,
        dr_Log := dr_Log d @ [Passed (dr_Index d) [] False], dr_Index := dr_Index d + 1\<rparr>"
      using n by (simp add: stage_visit_unfold advance_result)
    then have "settled_drive run seen d'" using s by (simp add: settled_drive_def)
    then show ?thesis by (rule settled_mono) simp
  next
    case False
    then have "run_attempt cfg t st (dr_Attempts d (stg_ID st) + 1) None (visited st d) = Next d'"
      using n pending_none [OF s, of st] preflight_result(2) [of cfg t "visited st d" d']
      by (auto simp: stage_visit_unfold split: if_splits)
    then show ?thesis by (rule attempt_settled(2) [OF v dis])
  qed
qed

lemma turn_settled:
  assumes s: "settled_drive run seen d" and dis: "set (report_spawns (tn_Report t)) \<inter> seen = {}"
    and n: "drive_turn cfg t d = Next d'"
  shows "settled_drive run (seen \<union> set (report_spawns (tn_Report t))) d'"
proof -
  let ?st = "rc_Stages cfg ! dr_Index d"
  have i: "dr_Index (others ops d) = dr_Index d" for ops by (rule more_eq) simp
  have "(if stg_Type ?st = Kind_Auto_Gate then gate_visit cfg t ?st (checked t d)
      else stage_visit cfg t ?st (checked t d)) = Next d'"
    using n by (auto simp: drive_turn_def Let_def i checked_def split: if_splits autonomy_verdict.splits prod.splits option.splits)
  moreover have c: "settled_drive run seen (checked t d)" using s by (simp add: settled_checked)
  ultimately show ?thesis
    using visit_settled(2) [OF c dis, of cfg ?st d'] gate_rows [of cfg t ?st "checked t d" d'] c
    by (auto simp: settled_drive_def rows_settled_def row_settled_def split: if_splits)
qed

end
