(* ===== verification/Runner_Loop.thy ===== *)
theory Runner_Loop
  imports Runner_Rows
begin

text \<open>
  The theorems on whole drives: the order of the stages, the end of every drive, and that a
  finished drive has passed all its stages.
\<close>

section \<open>Only the end of the stages is success\<close>

lemma closing_not_done [simp]: "closing c r p \<noteq> Stop End_Done d"
  by (simp add: closing_def split: prod.split option.split)

lemma gate_not_done: "gate_visit cfg t st d \<noteq> Stop End_Done d'"
proof -
  have rew: "rewind cfg t s v sc x \<noteq> Stop End_Done d'" for s v sc x
    by (auto simp: rewind_def Let_def split: option.splits if_splits)
  have err: "handle_gate_error cfg t s f x \<noteq> Stop End_Done d'" for s f x
    by (auto simp: handle_gate_error_def Let_def split: if_splits)
  have failed: "failed_gate cfg t s v ahead x \<noteq> Stop End_Done d'" for s v ahead x
    by (auto simp: failed_gate_def Let_def rew advance_result split: if_splits prod.splits)
  have judge: "judge cfg t s ahead x \<noteq> Stop End_Done d'" for s ahead x
    by (auto simp: judge_def Let_def err failed advance_result split: if_splits prod.splits sum.splits)
  have head: "review_head_retest cfg t st d \<noteq> Head_Stop End_Done d'"
    by (auto simp: review_head_retest_def Let_def head_closing_def split: prod.split sum.split option.split)
  show ?thesis using head by (auto simp: gate_visit_def judge split: if_splits head_decision.splits)
qed

lemma failed_not_done: "failed_stage cfg t st f deduped out d \<noteq> Stop End_Done d'"
proof -
  have mv: "record_external_head_movement cfg t st m x \<noteq> Stop End_Done d'" for m x
    by (auto simp: record_external_head_movement_def Let_def split: prod.split bool.split option.split)
  have ho: "hopeless cfg t st f c x \<noteq> Some (Stop End_Done d')" for c x
    by (auto simp: hopeless_def Let_def split: option.split)
  have re: "retry_stage cfg t st f c x \<noteq> Stop End_Done d'" for c x
    by (auto simp: retry_stage_def Let_def split: prod.split bool.split)
  show ?thesis using ho by (auto simp: failed_stage_def Let_def mv re split: option.split)
qed

lemma stage_not_done: "stage_visit cfg t st d \<noteq> Stop End_Done d'"
proof -
  have fin: "finished_stage t st out x \<noteq> Stop End_Done d'" for out x by (rule path_finished [OF refl, of t st out x]) simp
  have run: "run_attempt cfg t st a p x \<noteq> Stop End_Done d'" for a p x
    by (auto simp: run_attempt_unfold fin failed_not_done split: prod.split stage_end.split)
  have pre: "fail_preflight cfg t x \<noteq> Stop End_Done d'" for x
    by (auto simp: fail_preflight_def split: prod.split option.split)
  show ?thesis by (auto simp: stage_visit_unfold run pre advance_result split: option.split)
qed

lemma done_at_end:
  assumes "drive_turn cfg t d = Stop End_Done d'"
  shows "length (rc_Stages cfg) \<le> dr_Index d \<and> dr_Log d' = dr_Log d"
proof -
  have i: "dr_Index (others ops d) = dr_Index d" "dr_Log (others ops d) = dr_Log d" for ops
    by (rule more_eq, simp)+
  have "length (rc_Stages cfg) \<le> dr_Index d"
    using assms by (auto simp: drive_turn_def Let_def i gate_not_done stage_not_done
        split: if_splits autonomy_verdict.splits)
  then show ?thesis
    using assms log_ends(4) [of "tn_Now t" "others (tn_Before t) d"]
    by (auto simp: drive_turn_def Let_def i simp del: log_ends split: prod.splits option.splits)
qed

section \<open>Whole drives\<close>

lemma orderly_dispatches:
  assumes "cleared cfg s log i" "orderly cfg s log" "\<forall>x \<in> set ds. \<exists>a. x = Dispatched i a"
  shows "orderly cfg s (log @ ds) \<and> cleared cfg s (log @ ds) i"
  using assms(3)
proof (induction ds rule: rev_induct)
  case (snoc x ds)
  then obtain a where "x = Dispatched i a" by auto
  then show ?case using snoc by (auto simp: orderly_dispatch cleared_dispatch simp flip: append_assoc)
qed (use assms in simp)

lemma loop_in_order:
  assumes "drive_loop cfg ts d = (e, d')" "rewinds_back cfg" "in_order cfg s (path_of d)"
  shows "orderly cfg s (dr_Log d') \<and> (e = Some End_Done \<longrightarrow> cleared cfg s (dr_Log d') (length (rc_Stages cfg)))"
  using assms(1,3)
proof (induction ts arbitrary: d)
  case (Cons t ts)
  note ok = drive_turn_ok [of cfg t d]
  show ?case
  proof (cases "drive_turn cfg t d")
    case (Next d1)
    then have "in_order cfg s (path_of d1)"
      using ok moves_in_order [OF _ assms(2) Cons.prems(2)] by (auto simp: turn_ok_def)
    then show ?thesis using Cons.IH [of d1] Cons.prems(1) Next by simp
  next
    case (Stop x d1)
    then obtain ds where ds: "dr_Log d1 = dr_Log d @ ds" "\<forall>x \<in> set ds. \<exists>a. x = Dispatched (dr_Index d) a"
      using ok by (auto simp: turn_ok_def)
    have o: "cleared cfg s (dr_Log d) (dr_Index d)" "orderly cfg s (dr_Log d)" using Cons.prems(2) by (simp_all add: in_order_def)
    have "x = End_Done \<Longrightarrow> cleared cfg s (dr_Log d1) (length (rc_Stages cfg))"
      using done_at_end [of cfg t d d1] Stop o(1) by (auto intro: cleared_mono)
    then show ?thesis using Cons.prems(1) Stop orderly_dispatches [OF o ds(2)] ds(1) by auto
  qed
qed (simp add: in_order_def)

text \<open>A turn whose worker reports the time-out of a CI poll, after which the watch may go on.\<close>

definition poll_timed_out :: "turn \<Rightarrow> bool" where
  "poll_timed_out t = polled (dp_Failure (tn_Report t))"

definition turn_spawns :: "turn \<Rightarrow> string list" where
  "turn_spawns t = report_spawns (tn_Report t)"

definition timeouts :: "turn list \<Rightarrow> nat" where
  "timeouts ts = length (filter poll_timed_out ts)"

lemma loop_ends:
  assumes "rewinds_back cfg" "settled_drive run seen d" "distinct (concat (map turn_spawns ts))"
    "set (concat (map turn_spawns ts)) \<inter> seen = {}" "potential cfg (path_of d) + int (timeouts ts) < int (length ts)"
  shows "\<exists>e d'. drive_loop cfg ts d = (Some e, d')"
  using assms(2-)
proof (induction ts arbitrary: d seen)
  case Nil
  then show ?case using potential_nonneg [of cfg "path_of d"] by (simp add: timeouts_def)
next
  case (Cons t ts)
  have dis: "set (report_spawns (tn_Report t)) \<inter> seen = {}" using Cons.prems(3) by (auto simp: turn_spawns_def)
  show ?case
  proof (cases "drive_turn cfg t d")
    case (Next d1)
    let ?st = "stage_here cfg d"
    have "fresh_attempt cfg t ?st (checked t d)"
      by (rule visit_settled(1) [OF _ dis]) (use Cons.prems(1) in \<open>simp add: settled_checked\<close>)
    then have "moves cfg True (reattaching t ?st) (path_of d) (path_of d1)"
      using drive_turn_ok [of cfg t d] Next by (simp add: turn_ok_def)
    from moves_drop [OF this assms(1)]
    have pot: "potential cfg (path_of d1) \<le> potential cfg (path_of d)"
      "\<not> poll_timed_out t \<Longrightarrow> potential cfg (path_of d1) < potential cfg (path_of d)"
      by (auto simp: reattaching_def poll_timed_out_def)
    have "potential cfg (path_of d1) + int (timeouts ts) < int (length ts)"
      using pot Cons.prems(4) by (cases "poll_timed_out t") (auto simp: timeouts_def)
    moreover have "settled_drive run (seen \<union> set (turn_spawns t)) d1"
      using turn_settled [OF Cons.prems(1) dis Next] by (simp add: turn_spawns_def)
    moreover have "set (concat (map turn_spawns ts)) \<inter> (seen \<union> set (turn_spawns t)) = {}" "distinct (concat (map turn_spawns ts))"
      using Cons.prems(2,3) by auto
    ultimately show ?thesis using Cons.IH [of "seen \<union> set (turn_spawns t)" d1] Next by simp
  qed simp
qed

section \<open>From the start\<close>

definition drive_bound :: "runner_config \<Rightarrow> int" where
  "drive_bound cfg =
     (let n = int (length (rc_Stages cfg)) in
      (n + 1) * (n * (max_attempts cfg + total_attempts cfg) + 1) + 4 * n + 2 * (2 * n + 2) + n)"

lemma seed_nonneg: "0 \<le> seed_attempts rows st"
proof -
  have "0 \<le> a \<Longrightarrow> 0 \<le> fold (\<lambda>r a. if sg_Stage r = st \<and> a < sg_Attempt r then sg_Attempt r else a) rows a" for a
    by (induction rows arbitrary: a) auto
  then show ?thesis by (simp add: seed_attempts_def)
qed

lemma sum_list_bound: "(\<And>x. x \<in> set xs \<Longrightarrow> f x \<le> (c :: int)) \<Longrightarrow> sum_list (map f xs) \<le> int (length xs) * c"
proof (induction xs)
  case (Cons x xs)
  have "f x \<le> c" "sum_list (map f xs) \<le> int (length xs) * c" using Cons by auto
  then show ?case by (simp add: algebra_simps)
qed simp

lemma started:
  assumes "start_drive cfg now h run item db stages gates heads = Next d"
  shows "dr_Log d = []" "dr_Stages d = stages" "hd_Run d = run" "dr_Attempts d = seed_attempts (list_stages (pr_ID run) stages)"
    "dr_Unparseable d = (\<lambda>_. 0)" "dr_Transport d = (\<lambda>_. 0)" "\<not> dr_Evaluated d" "\<not> dr_RetestPending d" "dr_Ordered d = 0"
    "dr_Prior d = load_prior_outputs (pr_ID run) stages"
  using assms by (auto simp: start_drive_def Let_def split: if_splits health.splits option.splits)

lemma start_potential:
  assumes "start_drive cfg now h run item db stages gates heads = Next d"
  shows "potential cfg (path_of d) \<le> drive_bound cfg"
proof -
  note s = started [OF assms]
  define n where "n = int (length (rc_Stages cfg))"
  have pos: "0 < max_attempts cfg" "0 < total_attempts cfg"
    using total_above [of cfg] by (simp_all add: max_attempts_def split: if_splits)
  have "attempts_left cfg (dr_Attempts d i) \<le> max_attempts cfg + total_attempts cfg" for i
    using pos seed_nonneg by (simp add: attempts_left_def s max_def)
  then have "work_left cfg (dr_Attempts d) \<le> n * (max_attempts cfg + total_attempts cfg)"
    unfolding work_left_def n_def by (intro sum_list_bound) auto
  then have "rank cfg (path_of d) \<le> n * (max_attempts cfg + total_attempts cfg) + 1"
    using begun_bounds [of cfg "path_of d"] s by (simp add: rank_def flags_left_def)
  then have "(n + 1) * rank cfg (path_of d) \<le> (n + 1) * (n * (max_attempts cfg + total_attempts cfg) + 1)"
    by (intro mult_left_mono) (auto simp: n_def)
  moreover have "judgings_left cfg (\<lambda>_. 0) \<le> n * 2"
    unfolding judgings_left_def n_def by (intro sum_list_bound) (simp add: max_judge_retries_def)
  moreover have "int (length (rc_Stages cfg) - dr_Index d) \<le> n" by (simp add: n_def)
  moreover have "potential cfg (path_of d) = (n + 1) * rank cfg (path_of d) + 2 * judgings_left cfg (\<lambda>_. 0)
      + 2 * (2 * n + 2) + int (length (rc_Stages cfg) - dr_Index d)"
    by (simp add: potential_def Let_def n_def [symmetric] s max_review_head_retests_def)
  moreover have "drive_bound cfg = (n + 1) * (n * (max_attempts cfg + total_attempts cfg) + 1) + 4 * n + 2 * (2 * n + 2) + n"
    by (simp add: drive_bound_def Let_def n_def)
  ultimately show ?thesis by linarith
qed

section \<open>Properties\<close>

text \<open>
  C20. Every turn of the loop that goes on is a move of the abstract runner: the index, the
  attempts, the free re-judgings, the re-tests and the log change as one of its rules says.
\<close>

theorem turn_is_move:
  assumes "drive_turn cfg t d = Next d'"
  shows "moves cfg (fresh_attempt cfg t (stage_here cfg d) (checked t d)) (reattaching t (stage_here cfg d))
    (path_of d) (path_of d')"
  using drive_turn_ok [of cfg t d] assms by (simp add: turn_ok_def)

text \<open>
  C2. A worker is only asked once the way to its stage is cleared: of every stage between the one
  the drive has started with and this one, the last thing that happened at it or ahead of it is
  that it was passed, a gate with every registered check passed (the scope check may be amended);
  and a drive that ends as done has passed all its stages so.
\<close>

theorem stages_in_order:
  assumes "rewinds_back cfg" "start_drive cfg now h run item db stages gates heads = Next d0"
    "drive_loop cfg ts d0 = (e, d)"
  shows "(\<forall>xs i a ys. dr_Log d = xs @ Dispatched i a # ys \<longrightarrow> cleared cfg (dr_Index d0) xs i) \<and>
    (e = Some End_Done \<longrightarrow> cleared cfg (dr_Index d0) (dr_Log d) (length (rc_Stages cfg)))"
proof -
  have "in_order cfg (dr_Index d0) (path_of d0)" by (simp add: in_order_def cleared_def started(1) [OF assms(2)])
  from loop_in_order [OF assms(3,1) this] show ?thesis by (simp add: orderly_def)
qed


end
