(* ===== verification/Runner_Store.thy ===== *)
theory Runner_Store
  imports Runner_Loop Start_Limits
begin

text \<open>
  A drive and the store.  Whatever the runner writes to the shared database is a sequence of the
  operations of the start store, none of them a resume, interleaved with those of the others: so
  what the store promises over such sequences holds across a drive.
\<close>

section \<open>What a drive writes\<close>

definition no_resume :: "start_op list \<Rightarrow> bool" where
  "no_resume = list_all (\<lambda>op. \<not> is_resume op)"

definition writes :: "mills_db \<Rightarrow> mills_db \<Rightarrow> bool" where
  "writes db db' \<longleftrightarrow> (\<exists>ops. no_resume ops \<and> db' = apply_ops ops db)"

lemma writes_refl [simp, intro]: "writes db db"
  by (auto simp: writes_def no_resume_def intro: exI [of _ "[]"])

lemma writes_trans: "writes a b \<Longrightarrow> writes b c \<Longrightarrow> writes a c"
  by (auto simp: writes_def no_resume_def apply_ops_append intro: exI [of _ "xs @ ys" for xs ys])

lemma writes_op: "\<not> is_resume op \<Longrightarrow> writes db (apply_op op db)"
  by (auto simp: writes_def no_resume_def intro: exI [of _ "[op]"])

lemma writes_others: "no_resume ops \<Longrightarrow> writes (hd_DB h) (hd_DB (others ops h))"
  by (auto simp: others_def writes_def)

lemma writes_set_run [simp]: "hd_DB (set_run f h) = hd_DB h"
  by (simp add: set_run_def)

lemma writes_stamp: "writes (hd_DB h) (hd_DB (stamp md h))"
  using writes_op [of "Stamp (pr_ID (hd_Run h)) md" "hd_DB h"] by (simp add: stamp_def is_resume_def)

lemma writes_persist: "writes (hd_DB h) (hd_DB (snd (persist_run now h)))"
  using writes_op [of "Put_Run now (hd_Run h)" "hd_DB h"]
  by (auto simp: persist_run_def is_resume_def after_def split: sum.split prod.split)

lemma writes_transition: "writes (hd_DB h) (hd_DB (snd (transition_item s now h)))"
proof (cases "hd_Item h")
  case (Some it)
  then show ?thesis
    using writes_op [of "Transition (bi_ID it) (pr_AggregateVersion (hd_Run h)) (bi_State it) s now" "hd_DB h"]
    by (auto simp: transition_item_def is_resume_def after_def split: sum.split prod.split)
qed (simp add: transition_item_def)

lemma writes_put_item:
  assumes "put_backlog now it db = Inr (new, db')"
  shows "writes db db'"
  using writes_op [of "Put_Item now it" db] assms by (simp add: is_resume_def after_def)

lemma writes_end_run: "writes (hd_DB h) (hd_DB (snd (end_run s now h)))"
  using writes_persist [of "set_run (\<lambda>r. r\<lparr>pr_State := s, pr_EndedAt := Some now\<rparr>) h" now] by (simp add: end_run_def)

lemma writes_metadata: "writes (hd_DB h) (hd_DB (stamp_escalation_metadata cfg cls r h))"
  by (auto simp: stamp_escalation_metadata_def Let_def intro: writes_stamp writes_trans [OF writes_stamp])

lemma writes_settle: "writes (hd_DB h) (hd_DB (snd (settle_item s now h)))"
  by (simp add: settle_item_def writes_transition split: option.split)

text \<open>The same as destruction rules on the result.\<close>

lemma writes_result:
  "persist_run now h = (e, h') \<Longrightarrow> writes (hd_DB h) (hd_DB h')"
  "transition_item s now h = (e, h') \<Longrightarrow> writes (hd_DB h) (hd_DB h')"
  "end_run ps now h = (e, h') \<Longrightarrow> writes (hd_DB h) (hd_DB h')"
  "settle_item s now h = (e, h') \<Longrightarrow> writes (hd_DB h) (hd_DB h')"
  using writes_persist [of h now] writes_transition [of h s now] writes_end_run [of h ps now] writes_settle [of h s now]
  by simp_all

lemma writes_after:
  assumes "writes db (hd_DB h)"
  shows "writes db (hd_DB (stamp md h))" "writes db (hd_DB (stamp_escalation_metadata cfg cls r h))"
    "writes db (hd_DB (snd (transition_item s now h)))" "writes db (hd_DB (snd (settle_item s now h)))"
  using writes_trans [OF assms] writes_stamp writes_metadata writes_transition writes_settle by blast+

lemma writes_auto_retry: "maybe_auto_retry cfg now cls r h = (b, h') \<Longrightarrow> writes (hd_DB h) (hd_DB h')"
  by (auto simp: maybe_auto_retry_def split: option.splits prod.splits if_splits
      dest!: writes_result(3) intro: writes_after)

lemma writes_escalate: "writes (hd_DB h) (hd_DB (snd (escalate cfg now cls r h)))"
proof -
  let ?h = "if is_transient_escalation_class cls \<and> transient_retry_budget_exhausted cfg h
      then set_run (\<lambda>r. r\<lparr>pr_RetryExhausted := Some True\<rparr>) h else h"
  obtain e h1 where p: "end_run Run_Escalated now ?h = (e, h1)" by fastforce
  have h1: "writes (hd_DB h) (hd_DB h1)" using writes_result(3) [OF p] by (simp split: if_splits)
  show ?thesis unfolding escalate_def Let_def p
    by (auto intro!: writes_after h1 split: option.split)
qed

lemma writes_policy: "escalate_with_item_policy b cfg now cls r h = (e, h') \<Longrightarrow> writes (hd_DB h) (hd_DB h')"
proof -
  have esc: "escalate cfg now cls r x = (e, h') \<Longrightarrow> writes (hd_DB x) (hd_DB h')" for x
    using writes_escalate [of x cfg now cls r] by simp
  show "escalate_with_item_policy b cfg now cls r h = (e, h') \<Longrightarrow> writes (hd_DB h) (hd_DB h')"
    by (auto simp: escalate_with_item_policy_def dest!: writes_auto_retry esc intro: writes_trans
        split: if_splits prod.splits bool.splits)
qed

lemma writes_policy_snd: "writes (hd_DB h) (hd_DB (snd (escalate_with_item_policy b cfg now cls r h)))"
  by (rule writes_policy [OF prod.collapse [symmetric]])

lemma writes_ends:
  "writes (hd_DB h) (hd_DB (snd (escalate_with_item cfg now cls r h)))"
  "writes (hd_DB h) (hd_DB (snd (escalate_devbox_baseline cfg now st h)))"
  "writes (hd_DB h) (hd_DB (snd (mark_done now h)))"
proof -
  show "writes (hd_DB h) (hd_DB (snd (escalate_with_item cfg now cls r h)))"
    by (simp add: escalate_with_item_def writes_policy_snd)
  show "writes (hd_DB h) (hd_DB (snd (escalate_devbox_baseline cfg now st h)))"
    using writes_policy_snd [of "set_run (\<lambda>r. r\<lparr>pr_ExternalDependencyID := ''devbox_baseline'',
        pr_ExternalDependency := ''devbox_baseline''\<rparr>) h"] by (simp add: escalate_devbox_baseline_def)
  obtain e h1 where p: "end_run Run_Done now (set_run (\<lambda>r. r\<lparr>pr_CurrentStage := ''''\<rparr>) h) = (e, h1)" by fastforce
  then have "writes (hd_DB h) (hd_DB h1)" using writes_result(3) [OF p] by simp
  then show "writes (hd_DB h) (hd_DB (snd (mark_done now h)))"
    using p writes_settle [of h1 Backlog_Merged now] by (auto simp: mark_done_def intro: writes_trans split: option.split)
qed

lemma writes_stall: "writes (hd_DB h) (hd_DB (snd (escalate_ci_watch_stall cfg now st url h)))"
  by (auto simp: escalate_ci_watch_stall_def escalate_with_item_def dest!: writes_policy
      intro: writes_trans writes_stamp split: option.split prod.split)

lemma writes_red: "writes (hd_DB h) (hd_DB (snd (escalate_ci_watch_baseline_red cfg now st h)))"
proof -
  let ?h0 = "set_run (\<lambda>r. r\<lparr>pr_ExternalDependencyID := ''gitlab_ci_baseline_red'',
      pr_ExternalDependency := ''gitlab_ci_baseline_red'',
      pr_FailureClass := failure_text Failure_Transient, pr_EscalationRetryable := Some True\<rparr>) h"
  obtain e h1 where p: "escalate_with_item_policy False cfg now Class_Transient (Reason_Baseline_Red st) ?h0 = (e, h1)"
    by fastforce
  have "writes (hd_DB h) (hd_DB h1)" using writes_policy [OF p] by simp
  then show ?thesis
    using p by (auto simp: escalate_ci_watch_baseline_red_def Let_def intro: writes_trans writes_stamp split: option.split)
qed

section \<open>What a turn writes\<close>

text \<open>The operations of the others that meet a turn.\<close>

definition turn_ops :: "turn \<Rightarrow> start_op list" where
  "turn_ops t = tn_Before t @ tn_Checked t @ dp_During (tn_Report t) @ dp_StopDuring (tn_Report t)"

lemma turn_opsD:
  assumes "no_resume (turn_ops t)"
  shows "no_resume (tn_Before t)" "no_resume (tn_Checked t)" "no_resume (dp_During (tn_Report t))"
    "no_resume (dp_StopDuring (tn_Report t))"
  using assms by (simp_all add: turn_ops_def no_resume_def)

definition wrote :: "drive \<Rightarrow> turn_result \<Rightarrow> bool" where
  "wrote d r \<longleftrightarrow> writes (hd_DB d) (hd_DB (result_of r))"

lemma wrote_simps [simp]:
  "wrote d (Next d') = writes (hd_DB d) (hd_DB d')" "wrote d (Stop e d') = writes (hd_DB d) (hd_DB d')"
  "wrote d (closing c r p) = writes (hd_DB d) (hd_DB (snd p))"
  by (simp_all add: wrote_def)

lemma wrote_advance [simp]: "wrote d (advance os am d') = writes (hd_DB d) (hd_DB d')"
  by (simp add: advance_result)

lemma same_db [simp]:
  "hd_DB (snd (put_row now r d)) = hd_DB d"
  "hd_DB (record_call now st a s c d) = hd_DB d"
  "hd_DB (log_event e d) = hd_DB d"
  "hd_DB (count_failure cls i d) = hd_DB d"
  "hd_DB (record_scope_refusal t sg v d) = hd_DB d"
  by (auto simp: put_row_def record_call_def log_event_def count_failure_def record_scope_refusal_def Let_def split: sum.split)

lemma same_db_calls [simp]: "hd_DB (fold (record_call now st a s) cs d) = hd_DB d"
  by (induction cs arbitrary: d) simp_all

lemma same_db': "put_row now r d = (e, d') \<Longrightarrow> hd_DB d' = hd_DB d"
  "run_gate cfg t sg d = (v, d') \<Longrightarrow> hd_DB d' = hd_DB d"
  "record_movement t m d = (ok, d') \<Longrightarrow> hd_DB d' = hd_DB d"
  "persist_attempt_classification t i a c n d = (ok, d') \<Longrightarrow> hd_DB d' = hd_DB d"
  by (auto simp: put_row_def run_gate_def Let_def record_movement_def persist_attempt_classification_def
      split: sum.splits option.splits if_splits prod.splits)

lemma writes_amendment: "apply_scope_amendment n t it db = (v, ok, it', db') \<Longrightarrow> writes db db'"
  by (induction n t it db rule: apply_scope_amendment.induct)
    (auto split: amendment.splits sum.splits option.splits if_splits prod.splits dest: writes_put_item)

lemma writes_amend: "maybe_amend_scope t st d = (b, v, d') \<Longrightarrow> writes (hd_DB d) (hd_DB d')"
  by (auto simp: maybe_amend_scope_def Let_def split: option.splits if_splits prod.splits dest!: writes_amendment)

lemma wrote_gate: "wrote d (gate_visit cfg t st d)"
proof -
  have esc: "writes (hd_DB d) (hd_DB x) \<Longrightarrow> writes (hd_DB d) (hd_DB (snd (escalate_with_item cfg now c r x)))" for x now c r
    by (rule writes_trans [OF _ writes_ends(1)])
  have rew: "writes (hd_DB d) (hd_DB x) \<Longrightarrow> wrote d (rewind cfg t s v sc x)" for s v sc x
    by (auto simp: rewind_def Let_def intro!: esc split: option.split)
  have err: "writes (hd_DB d) (hd_DB x) \<Longrightarrow> wrote d (handle_gate_error cfg t s f x)" for s f x
    by (auto simp: handle_gate_error_def Let_def intro!: esc)
  have failed: "writes (hd_DB d) (hd_DB x) \<Longrightarrow> wrote d (failed_gate cfg t s v ahead x)" for s v ahead x
    by (auto simp: failed_gate_def Let_def intro!: esc rew dest!: writes_amend intro: writes_trans split: prod.split)
  have judge: "writes (hd_DB d) (hd_DB x) \<Longrightarrow> wrote d (judge cfg t s ahead x)" for s ahead x
    by (auto simp: judge_def Let_def intro!: esc err failed dest!: same_db'(2) split: prod.split sum.split)
  have head: "(case review_head_retest cfg t st d of Head_Proceed a x \<Rightarrow> writes (hd_DB d) (hd_DB x)
      | Head_Retest k x \<Rightarrow> writes (hd_DB d) (hd_DB x) | Head_Stop e x \<Rightarrow> writes (hd_DB d) (hd_DB x))"
  proof -
    have hc: "(case head_closing c r p of Head_Stop e x \<Rightarrow> writes (hd_DB d) (hd_DB x) | _ \<Rightarrow> False)
        = writes (hd_DB d) (hd_DB (snd p))" for c r p
      by (simp add: head_closing_def split: prod.split option.split)
    have "(case head_closing c r p of Head_Proceed a x \<Rightarrow> writes (hd_DB d) (hd_DB x)
      | Head_Retest k x \<Rightarrow> writes (hd_DB d) (hd_DB x) | Head_Stop e x \<Rightarrow> writes (hd_DB d) (hd_DB x))
        = writes (hd_DB d) (hd_DB (snd p))" for c r p
      by (simp add: head_closing_def split: prod.split option.split)
    then show ?thesis
      by (auto simp: review_head_retest_def Let_def intro!: esc dest!: same_db'(2) split: prod.split sum.split option.split)
  qed
  show ?thesis
    using head by (auto simp: gate_visit_def intro!: judge writes_ends(2) split: head_decision.splits)
qed

lemma writes_begin: "begin_stage t st a b d = (e, d') \<Longrightarrow> writes (hd_DB d) (hd_DB d')"
  by (auto simp: begin_stage_def dest!: writes_result(1) same_db'(1) split: prod.splits option.splits if_splits)

lemma writes_work:
  assumes "no_resume (turn_ops t)" "do_work cfg t st a s pending d = (r, d')"
  shows "writes (hd_DB d) (hd_DB d')"
proof -
  have oth: "writes (hd_DB d) (hd_DB x) \<Longrightarrow> writes (hd_DB d) (hd_DB (others (dp_During (tn_Report t)) x))" for x
    by (rule writes_trans [OF _ writes_others [OF turn_opsD(3) [OF assms(1)]]])
  show ?thesis
    using assms(2) by (auto simp: do_work_def dispatch_work_def Let_def intro!: oth dest!: writes_policy
        split: if_splits option.splits readiness.splits prod.splits)
qed

lemma writes_record_result: "record_result t st a s out derr d = (e, d') \<Longrightarrow> writes (hd_DB d) (hd_DB d')"
  by (auto simp: record_result_def Let_def dest!: same_db'(1) writes_result(1) split: prod.splits option.splits if_splits)

lemma same_db_park: "park_pending_spawn t st a s out err n d = (e, d') \<Longrightarrow> hd_DB d' = hd_DB d"
  by (auto simp: park_pending_spawn_def dest!: same_db'(1) split: prod.splits option.splits)

lemma writes_stop_stalled:
  assumes "no_resume (turn_ops t)" "stop_stalled t st a s n out f d = (r, d')"
  shows "writes (hd_DB d) (hd_DB d')"
proof -
  have oth: "writes (hd_DB x) (hd_DB (others (dp_StopDuring (tn_Report t)) x))" for x :: drive
    by (rule writes_others [OF turn_opsD(4) [OF assms(1)]])
  have rec: "record_result t st a s out derr (others (dp_StopDuring (tn_Report t)) x) = (e, y) \<Longrightarrow> writes (hd_DB x) (hd_DB y)"
    for out derr x e y by (rule writes_trans [OF oth writes_record_result])
  have park: "park_pending_spawn t st a s out err n (others (dp_StopDuring (tn_Report t)) x) = (e, y) \<Longrightarrow> writes (hd_DB x) (hd_DB y)"
    for out err x e y using same_db_park [of t st a s out err n _ e y] oth [of x] by simp
  obtain e d1 where p: "park_pending_spawn t st a s (set_artifact ''spawn_stop_pending'' (A_Bool True) out) (fl_Text f) n d = (e, d1)"
    by fastforce
  have "hd_DB d1 = hd_DB d" by (rule same_db_park [OF p])
  then show ?thesis
    using assms(2) p oth [of d1] by (auto simp: stop_stalled_def Let_def dest!: rec park split: if_splits prod.splits)
qed

lemma writes_run_stage:
  assumes "no_resume (turn_ops t)" "run_stage cfg t st a pending d = (r, d')"
  shows "writes (hd_DB d) (hd_DB d')"
proof -
  have settle: "settle_stage t st a s pending out derr x = (r', y) \<Longrightarrow> writes (hd_DB x) (hd_DB y)" for s out derr x r' y
    by (auto simp: settle_stage_def Let_def dest!: writes_record_result same_db_park writes_stop_stalled [OF assms(1)]
        split: prod.splits option.splits if_splits)
  obtain e d1 where b: "begin_stage t st a (pending \<noteq> None) d = (e, d1)" by fastforce
  note w1 = writes_begin [OF b]
  show ?thesis
  proof (cases e)
    case (Some f)
    then show ?thesis using assms(2) b w1 by (simp add: run_stage_def Let_def)
  next
    case None
    let ?s = "case pending of None \<Rightarrow> tn_Now t | Some p \<Rightarrow> sg_StartedAt p"
    obtain out derr d2 where w: "do_work cfg t st a ?s pending d1 = ((out, derr), d2)" by (metis prod.exhaust)
    note w2 = writes_trans [OF w1 writes_work [OF assms(1) w]]
    show ?thesis using assms(2) b None w w2
      by (auto simp: run_stage_def Let_def split: if_splits dest!: settle intro: writes_trans)
  qed
qed

lemma wrote_failed: "wrote d (failed_stage cfg t st f deduped out d)"
proof -
  have mv: "hd_DB x = hd_DB d \<Longrightarrow> wrote d (record_external_head_movement cfg t st m x)" for m x
    by (auto simp: record_external_head_movement_def Let_def dest!: same_db'(3) writes_result(1)
        intro!: writes_trans [OF _ writes_ends(1)] split: prod.split bool.split option.split)
  have ho: "hopeless cfg t st f c x = Some r \<Longrightarrow> hd_DB x = hd_DB d \<Longrightarrow> wrote d r" for c x r
    using writes_ends(1) [of x] writes_red [of x] writes_stall [of x]
    by (auto simp: hopeless_def Let_def split: if_splits option.splits)
  have re: "hd_DB x = hd_DB d \<Longrightarrow> wrote d (retry_stage cfg t st f c x)" for c x
    by (auto simp: retry_stage_def Let_def dest!: same_db'(4)
        intro!: writes_trans [OF _ writes_policy_snd] split: prod.split bool.split)
  have ba: "hd_DB x = hd_DB d \<Longrightarrow> writes (hd_DB d) (hd_DB (snd (escalate_devbox_baseline cfg (tn_Now t) i x)))" for i x
    using writes_ends(2) [of x] by simp
  have q: "hd_DB (d\<lparr>dr_Prior := p\<rparr>) = hd_DB d" "hd_DB (d\<lparr>dr_Prior := p, dr_Attempts := a\<rparr>) = hd_DB d"
    "hd_DB (d\<lparr>dr_Attempts := a\<rparr>) = hd_DB d" for p a by simp_all
  show ?thesis
    by (auto simp: failed_stage_def Let_def intro!: mv re ba dest!: ho split: option.split)
qed

lemma wrote_stage:
  assumes "no_resume (turn_ops t)"
  shows "wrote d (stage_visit cfg t st d)"
proof -
  have hyd: "writes (hd_DB x) (hd_DB (hydrate_slice_scope t x))" for x
    by (auto simp: hydrate_slice_scope_def Let_def dest: writes_put_item split: option.split sum.split)
  have fin: "wrote x (finished_stage t st out x)" for out x
    using hyd by (auto simp: finished_stage_def Let_def intro: writes_trans [OF _ hyd])
  have run: "wrote x (run_attempt cfg t st a p x)" for a p x
  proof -
    obtain e out x1 where r: "run_stage cfg t st a p (prepared st a x) = ((e, out), x1)" by (metis prod.exhaust)
    have w: "writes (hd_DB x) (hd_DB x1)" using writes_run_stage [OF assms r] by (simp add: prepared_def)
    have tr: "wrote x1 r \<Longrightarrow> wrote x r" for r using w by (auto simp: wrote_def intro: writes_trans)
    show ?thesis using w by (auto simp: run_attempt_unfold r intro!: tr fin wrote_failed split: stage_end.split)
  qed
  have pre: "wrote x (fail_preflight cfg t x)" for x
  proof -
    let ?x0 = "set_run (\<lambda>r. r\<lparr>pr_CurrentStage := ''preflight_failed''\<rparr>) x"
    obtain e x1 where p: "escalate_with_item cfg (tn_Now t) Class_Config Reason_Implement_Preflight ?x0 = (e, x1)" by fastforce
    have w: "writes (hd_DB x) (hd_DB x1)" using writes_policy [OF p [unfolded escalate_with_item_def]] by simp
    have "writes (hd_DB x1) (hd_DB y)" if "persist_run (tn_Now t) (set_run f x1) = (e', y)" for f e' y
      using writes_result(1) [OF that] by simp
    then show ?thesis using p w by (auto simp: fail_preflight_def intro: writes_trans split: option.split prod.split)
  qed
  have v: "hd_DB (visited st d) = hd_DB d" by (simp add: visited_def)
  have run': "wrote d (run_attempt cfg t st a p (visited st d))" for a p using run [of "visited st d" a p] v by (simp add: wrote_def)
  have pre': "wrote d (fail_preflight cfg t (visited st d))" using pre [of "visited st d"] v by (simp add: wrote_def)
  show ?thesis by (auto simp: stage_visit_unfold intro!: run' pre' split: option.split)
qed

lemma wrote_turn:
  assumes "no_resume (turn_ops t)"
  shows "wrote d (drive_turn cfg t d)"
proof -
  have b: "writes (hd_DB d) (hd_DB (others (tn_Before t) d))" by (rule writes_others [OF turn_opsD(1) [OF assms]])
  have c: "writes (hd_DB d) (hd_DB (others (tn_Checked t) (others (tn_Before t) d)))"
    by (rule writes_trans [OF b writes_others [OF turn_opsD(2) [OF assms]]])
  have tr: "wrote x r \<Longrightarrow> writes (hd_DB d) (hd_DB x) \<Longrightarrow> wrote d r" for x r by (auto simp: wrote_def intro: writes_trans)
  have done': "mark_done now (others (tn_Before t) d) = (e, d') \<Longrightarrow> writes (hd_DB d) (hd_DB d')" for now e d'
    using writes_trans [OF b writes_ends(3) [of _ now]] by simp
  show ?thesis
    by (auto simp: drive_turn_def Let_def b intro!: tr [OF wrote_gate c] tr [OF wrote_stage [OF assms] c]
        writes_trans [OF b writes_ends(1)] dest!: done' split: prod.split option.split autonomy_verdict.split)
qed

lemma wrote_loop:
  "drive_loop cfg ts d = (e, d') \<Longrightarrow> list_all (\<lambda>t. no_resume (turn_ops t)) ts \<Longrightarrow> writes (hd_DB d) (hd_DB d')"
proof (induction ts arbitrary: d)
  case (Cons t ts)
  have w: "wrote d (drive_turn cfg t d)" using wrote_turn Cons.prems(2) by simp
  show ?case using Cons w by (cases "drive_turn cfg t d") (auto intro: writes_trans)
qed simp

section \<open>Ended runs and drives\<close>

definition quiet :: "turn list \<Rightarrow> bool" where
  "quiet ts = list_all (\<lambda>t. no_resume (turn_ops t)) ts"

text \<open>A run in its last state, or in a later one of the same end, without a reservation.\<close>

definition still_ended :: "string \<Rightarrow> pipeline_run \<Rightarrow> mills_db \<Rightarrow> bool" where
  "still_ended i r db =
     (case get_run i db of
        None \<Rightarrow> False
      | Some r' \<Rightarrow> (pr_State r' = pr_State r \<or> pr_State r = Run_Escalated \<and> pr_State r' = Run_PreflightFailed) \<and>
          filter (\<lambda>v. rv_RunID v = i \<and> rv_Active v) (db_reservations db) = [])"

lemma start_db: "start_drive cfg now h run item db stages gates heads = Next d \<Longrightarrow> hd_DB d = db"
  by (auto simp: start_drive_def Let_def split: if_splits health.splits option.splits)

lemma started_quiet:
  assumes "start_drive cfg now h run item (reachable_db past) stages gates heads = Next d0"
    "drive_loop cfg ts d0 = (e, d)" "quiet ts"
  shows "\<exists>ops. no_resume ops \<and> hd_DB d = reachable_db (past @ ops)"
  using wrote_loop [OF assms(2)] assms(3) start_db [OF assms(1)]
  by (auto simp: quiet_def writes_def reachable_db_def apply_ops_append)

lemma ended_through:
  assumes db: "db = reachable_db past" and r: "get_run i db = Some r" "is_pipeline_terminal_state (pr_State r)"
    and w: "writes db db'"
  shows "still_ended i r db'"
proof -
  obtain ops where "no_resume ops" "db' = reachable_db (past @ ops)"
    using w by (auto simp: writes_def db reachable_db_def apply_ops_append)
  then show ?thesis
    using ended_run_kept [OF r [unfolded db], of ops] by (auto simp: no_resume_def still_ended_def)
qed

section \<open>A slice leaves the item of its parent alone\<close>

lemma find_other: "(\<And>x. x \<in> set xs \<Longrightarrow> P x \<Longrightarrow> pr_ID (f x) = pr_ID x \<and> pr_ID x \<noteq> p) \<Longrightarrow>
    find (\<lambda>r. pr_ID r = p) (map_where P f xs) = find (\<lambda>r. pr_ID r = p) xs"
  by (induction xs) (auto simp: map_where_def)

lemma find_appended: "pr_ID new \<noteq> p \<Longrightarrow> find (\<lambda>r. pr_ID r = p) (xs @ [new]) = find (\<lambda>r. pr_ID r = p) xs"
  by (induction xs) auto

lemma put_pipeline_run_other:
  assumes put: "put_pipeline_run now r db = Inr (new, db')" and p: "p \<noteq> pr_ID r"
  shows "get_run p db' = get_run p db"
proof -
  define r1 where "r1 = (if pr_StartedAt r = zero_time then r\<lparr>pr_StartedAt := now\<rparr> else r)"
  have r1: "pr_ID r1 = pr_ID r" by (simp add: r1_def)
  show ?thesis
  proof (cases "get_run (pr_ID r) db")
    case None
    then obtain db1 where "insert_run (r1\<lparr>pr_Revision := 1\<rparr>) db = Inr db1" "db' = db1"
      using put by (auto simp: put_pipeline_run_def Let_def r1_def [symmetric] r1 bind_db_Inr split: option.splits)
    then show ?thesis using insert_run_Inr p r1 find_appended [of "r1\<lparr>pr_Revision := 1\<rparr>" p]
      by (fastforce simp: get_run_def)
  next
    case (Some old)
    then have "db' = update_runs (\<lambda>x. pr_ID x = pr_ID r) (\<lambda>_. merged_row old r1) db"
      using put by (auto simp: put_pipeline_run_def Let_def r1_def [symmetric] r1 split: option.splits if_splits)
    moreover have "pr_ID (merged_row old r1) = pr_ID r" by (simp add: merged_row_def r1)
    ultimately show ?thesis using p by (auto simp: get_run_def update_runs_def intro!: find_other)
  qed
qed

lemma put_run_other:
  assumes "put_run now r db = Inr (new, db')" "p \<noteq> pr_ID r"
  shows "get_run p db' = get_run p db" "db_backlog db' = db_backlog db"
proof -
  have [simp]: "get_run p (release_reservation i t x) = get_run p x" "get_run p (update_workflows P f x) = get_run p x"
    for i t P f x by (simp_all add: get_run_def release_reservation_def update_workflows_def)
  have ended: "put_terminal_run_tx now r db = Inr (new, db') \<Longrightarrow> get_run p db' = get_run p db"
    using assms(2) put_pipeline_run_other by (fastforce simp: put_terminal_run_tx_def Let_def bind_db_Inr split: if_splits)
  show "get_run p db' = get_run p db"
    using assms ended put_pipeline_run_other by (auto simp: put_run_def split: if_splits)
  show "db_backlog db' = db_backlog db"
    using assms put_terminal_backlog put_pipeline_run_backlog by (auto simp: put_run_def split: if_splits)
qed

text \<open>A child of a run that works on the same item.\<close>

definition slice_child :: "'a held_scheme \<Rightarrow> bool" where
  "slice_child h \<longleftrightarrow>
     (case pr_ParentRunID (hd_Run h) of
        None \<Rightarrow> False
      | Some p \<Rightarrow> p \<noteq> '''' \<and> p \<noteq> pr_ID (hd_Run h) \<and>
          map_option pr_BacklogID (get_run p (hd_DB h)) = Some (pr_BacklogID (hd_Run h)))"

definition items_kept :: "'a held_scheme \<Rightarrow> 'b held_scheme \<Rightarrow> bool" where
  "items_kept h h' \<longleftrightarrow> slice_child h' \<and> db_backlog (hd_DB h') = db_backlog (hd_DB h)"

lemma slice_owns: "slice_child h \<Longrightarrow> run_owns_backlog_state h = Some False"
  by (auto simp: slice_child_def run_owns_backlog_state_def split: option.splits)

lemma slice_set_run:
  "(\<And>r. pr_ID (f r) = pr_ID r \<and> pr_ParentRunID (f r) = pr_ParentRunID r \<and> pr_BacklogID (f r) = pr_BacklogID r) \<Longrightarrow>
   items_kept h h' \<Longrightarrow> items_kept h (set_run f h')"
  by (auto simp: items_kept_def slice_child_def set_run_def split: option.splits)

lemma slice_persist:
  assumes k: "items_kept h h1" and p: "persist_run now h1 = (e, h2)"
  shows "items_kept h h2"
proof (cases "put_run now (hd_Run h1) (hd_DB h1)")
  case (Inl x)
  then show ?thesis using k p by (simp add: persist_run_def)
next
  case (Inr a)
  obtain new db where put: "put_run now (hd_Run h1) (hd_DB h1) = Inr (new, db)" using Inr by (cases a) auto
  have "get_run q db = get_run q (hd_DB h1)" "db_backlog db = db_backlog (hd_DB h1)" if "q \<noteq> pr_ID (hd_Run h1)" for q
    using put_run_other [OF put that] by simp_all
  then show ?thesis using k p put
    by (auto simp: items_kept_def slice_child_def persist_run_def set_run_def split: option.splits)
qed

lemma slice_stamp: "items_kept h h1 \<Longrightarrow> items_kept h (stamp md h1)"
proof -
  assume k: "items_kept h h1"
  let ?db = "after (hd_DB h1) (set_escalation_metadata (pr_ID (hd_Run h1)) md (hd_DB h1))"
  have "get_run q ?db = get_run q (hd_DB h1)" if "q \<noteq> pr_ID (hd_Run h1)" for q
    using that by (auto simp: set_escalation_metadata_def after_def get_run_def update_runs_def stamped_def intro!: find_other)
  moreover have "db_backlog ?db = db_backlog (hd_DB h1)"
    by (simp add: set_escalation_metadata_def after_def update_runs_def)
  ultimately show ?thesis using k by (auto simp: items_kept_def slice_child_def stamp_def split: option.splits)
qed

lemma slice_metadata: "items_kept h h1 \<Longrightarrow> items_kept h (stamp_escalation_metadata cfg cls r h1)"
  by (auto simp: stamp_escalation_metadata_def Let_def apply_metadata_def intro!: slice_set_run slice_stamp)

lemma slice_end_run: "items_kept h h1 \<Longrightarrow> end_run s now h1 = (e, h2) \<Longrightarrow> items_kept h h2"
  unfolding end_run_def by (rule slice_persist [OF slice_set_run]) auto

lemma slice_settle: "items_kept h h1 \<Longrightarrow> items_kept h (snd (settle_item s now h1))"
  using slice_owns [of h1] by (simp add: items_kept_def settle_item_def)

lemma slice_escalate:
  assumes k: "items_kept h h1"
  shows "items_kept h (snd (escalate cfg now cls r h1))"
proof -
  let ?h = "if is_transient_escalation_class cls \<and> transient_retry_budget_exhausted cfg h1
      then set_run (\<lambda>r. r\<lparr>pr_RetryExhausted := Some True\<rparr>) h1 else h1"
  have k0: "items_kept h ?h" using k by (simp add: slice_set_run)
  obtain e h2 where p: "end_run Run_Escalated now ?h = (e, h2)" by fastforce
  note k2 = slice_end_run [OF k0 p]
  show ?thesis unfolding escalate_def Let_def p
    by (auto intro!: slice_settle slice_stamp slice_metadata k2 split: option.split)
qed

lemma slice_policy: "items_kept h h1 \<Longrightarrow> items_kept h (snd (escalate_with_item_policy b cfg now cls r h1))"
proof -
  assume k: "items_kept h h1"
  have "maybe_auto_retry cfg now cls r h1 = (False, h1)"
    using k slice_owns [of h1] by (auto simp: maybe_auto_retry_def items_kept_def split: option.split)
  then show ?thesis using slice_escalate [OF k] by (simp add: escalate_with_item_policy_def)
qed

lemma slice_policy': "items_kept h h1 \<Longrightarrow> escalate_with_item_policy b cfg now cls r h1 = (e, h2) \<Longrightarrow> items_kept h h2"
  using slice_policy [of h h1 b cfg now cls r] by simp

lemma slice_stall: "items_kept h h1 \<Longrightarrow> items_kept h (snd (escalate_ci_watch_stall cfg now st url h1))"
  by (auto simp: escalate_ci_watch_stall_def escalate_with_item_def dest: slice_policy' intro!: slice_stamp
      split: option.split prod.split)

lemma slice_baseline: "items_kept h h1 \<Longrightarrow> items_kept h (snd (escalate_devbox_baseline cfg now st h1))"
  unfolding escalate_devbox_baseline_def by (intro slice_policy slice_set_run) auto

lemma slice_red:
  assumes k: "items_kept h h1"
  shows "items_kept h (snd (escalate_ci_watch_baseline_red cfg now st h1))"
proof -
  let ?h0 = "set_run (\<lambda>r. r\<lparr>pr_ExternalDependencyID := ''gitlab_ci_baseline_red'',
      pr_ExternalDependency := ''gitlab_ci_baseline_red'',
      pr_FailureClass := failure_text Failure_Transient, pr_EscalationRetryable := Some True\<rparr>) h1"
  have k0: "items_kept h ?h0" using k by (intro slice_set_run) auto
  obtain e h2 where p: "escalate_with_item_policy False cfg now Class_Transient (Reason_Baseline_Red st) ?h0 = (e, h2)"
    by fastforce
  note k2 = slice_policy' [OF k0 p]
  show ?thesis unfolding escalate_ci_watch_baseline_red_def Let_def p
    by (auto intro!: slice_set_run slice_stamp k2 simp: apply_metadata_def split: option.split)
qed

lemma slice_done:
  assumes k: "items_kept h h1"
  shows "items_kept h (snd (mark_done now h1))"
proof -
  obtain e h2 where p: "end_run Run_Done now (set_run (\<lambda>r. r\<lparr>pr_CurrentStage := ''''\<rparr>) h1) = (e, h2)" by fastforce
  have "items_kept h (set_run (\<lambda>r. r\<lparr>pr_CurrentStage := ''''\<rparr>) h1)" using k by (intro slice_set_run) auto
  note k2 = slice_end_run [OF this p]
  show ?thesis using p k2 by (auto simp: mark_done_def intro: slice_settle split: option.split)
qed

section \<open>Properties\<close>

text \<open>
  C17. What the start store promises holds across a drive: whatever workers, gates and others do
  (but resume a run), a run found ended while the drive goes on is still ended when it is over.
\<close>

theorem ended_runs_survive_drive:
  assumes "start_drive cfg now h run item (reachable_db past) stages gates heads = Next d0"
    "drive_loop cfg ts d0 = (None, d1)" "quiet (ts @ us)" "get_run i (hd_DB d1) = Some r"
    "is_pipeline_terminal_state (pr_State r)" "drive_loop cfg us d1 = (e, d2)"
  shows "still_ended i r (hd_DB d2)"
proof -
  have q: "quiet ts" "quiet us" using assms(3) by (simp_all add: quiet_def)
  obtain ops where "hd_DB d1 = reachable_db (past @ ops)" using started_quiet [OF assms(1,2) q(1)] by blast
  moreover have "writes (hd_DB d1) (hd_DB d2)" using wrote_loop [OF assms(6)] q(2) by (simp add: quiet_def)
  ultimately show ?thesis using ended_through assms(4,5) by blast
qed

text \<open>
  C18. A run ended by others stops its drive: at the next turn the drive is over, and nothing is
  written to the store that the others have not written.
\<close>

theorem ended_run_stops_drive:
  assumes "start_drive cfg now h run item (reachable_db past) stages gates heads = Next d0"
    "drive_loop cfg ts d0 = (None, d1)" "quiet (ts @ t # us)" "dr_Index d1 < length (rc_Stages cfg)"
    "get_run (pr_ID (hd_Run d1)) (hd_DB d1) = Some r" "is_pipeline_terminal_state (pr_State r)" "pr_ID (hd_Run d1) \<noteq> ''''"
  shows "\<exists>e \<in> {End_Elsewhere, End_Cancelled}. drive_loop cfg (t # us) d1 = (Some e, others (tn_Before t) d1)"
proof -
  have q: "quiet ts" "no_resume (tn_Before t)"
    using assms(3) turn_opsD(1) [of t] by (simp_all add: quiet_def)
  obtain ops where "hd_DB d1 = reachable_db (past @ ops)" using started_quiet [OF assms(1,2) q(1)] by blast
  from ended_through [OF this assms(5,6) writes_others [OF q(2)]]
  have "run_terminated (others (tn_Before t) d1)"
    using assms(6,7) by (auto simp: still_ended_def run_terminated_def others_def is_pipeline_terminal_state_def
        split: option.splits)
  moreover have "dr_Index (others (tn_Before t) d1) = dr_Index d1" by (rule more_eq) simp
  ultimately show ?thesis using assms(4) by (auto simp: drive_turn_def Let_def)
qed

text \<open>
  C19. A run whose parent works on the same backlog item leaves the items alone however it ends:
  by success, by any escalation, with or without an automatic retry.
\<close>

theorem slice_child_leaves_item:
  assumes "slice_child h"
  shows "db_backlog (hd_DB (snd (mark_done now h))) = db_backlog (hd_DB h) \<and>
    db_backlog (hd_DB (snd (escalate_with_item_policy allow cfg now cls reason h))) = db_backlog (hd_DB h) \<and>
    db_backlog (hd_DB (snd (escalate_devbox_baseline cfg now st h))) = db_backlog (hd_DB h) \<and>
    db_backlog (hd_DB (snd (escalate_ci_watch_stall cfg now st url h))) = db_backlog (hd_DB h) \<and>
    db_backlog (hd_DB (snd (escalate_ci_watch_baseline_red cfg now st h))) = db_backlog (hd_DB h)"
proof -
  have k: "items_kept h h" using assms by (simp add: items_kept_def)
  show ?thesis
    using slice_done [OF k] slice_policy [OF k] slice_baseline [OF k] slice_stall [OF k] slice_red [OF k]
    by (simp add: items_kept_def)
qed

end
