(* ===== verification/Runner_Resume.thy ===== *)
theory Runner_Resume
  imports Runner_Loop
begin

text \<open>
  What a restarted drive knows of the attempts before it: \<open>loadPriorOutputs\<close> reads the rows that
  \<open>runStage\<close> has written.
\<close>

section \<open>One row\<close>

lemma texts_of_list: "texts_of (Some (A_List (map A_Text xs))) = xs"
  by (induction xs) (simp_all add: List.map_filter_simps)

lemmas texts_of_list' [simp] = texts_of_list [simplified]

text \<open>The keys under which a result keeps the diff.\<close>

definition diff_keys :: "string list" where
  "diff_keys = [''files_changed'', ''lines_added'', ''lines_removed'', ''diff_patch'', ''mr_iid'']"

lemma merged_lookup:
  assumes "list_all (\<lambda>k. artifact_of out k = None) diff_keys"
  shows "merge_artifacts st out ''files_changed'' =
      (if so_FilesChanged out = [] then None else Some (A_List (map A_Text (so_FilesChanged out))))"
    and "merge_artifacts st out ''lines_added'' = (if so_LinesAdded out = 0 then None else Some (A_Num (so_LinesAdded out)))"
    and "merge_artifacts st out ''lines_removed'' = (if so_LinesRemoved out = 0 then None else Some (A_Num (so_LinesRemoved out)))"
    and "merge_artifacts st out ''diff_patch'' = (if so_DiffPatch out = '''' then None else Some (A_Text (so_DiffPatch out)))"
    and "merge_artifacts st out ''mr_iid'' = (if so_MRIID out = 0 then None else Some (A_Num (so_MRIID out)))"
  using assms by (cases "so_Artifacts out"; simp add: merge_artifacts_def Let_def diff_keys_def artifact_of_def)+

definition same_diff :: "stage_output \<Rightarrow> stage_output \<Rightarrow> bool" where
  "same_diff a b \<longleftrightarrow> so_FilesChanged a = so_FilesChanged b \<and> so_LinesAdded a = so_LinesAdded b \<and>
     so_LinesRemoved a = so_LinesRemoved b \<and> so_DiffPatch a = so_DiffPatch b"

lemma same_diff_evidence: "same_diff a b \<Longrightarrow> has_diff_evidence a = has_diff_evidence b"
  by (simp add: same_diff_def has_diff_evidence_def)

lemma row_gives_back:
  assumes "list_all (\<lambda>k. artifact_of out k = None) diff_keys"
  shows "same_diff (output_of_row ((result_row t run st a s out None cost billing)\<lparr>sg_ID := n\<rparr>)) out"
  using merged_lookup [OF assms, of "stg_ID st"]
  by (simp add: same_diff_def output_of_row_def result_row_def new_row_def Let_def)

section \<open>All rows\<close>

lemma carried:
  "has_diff_evidence old \<Longrightarrow> same_diff (fst (carry_forward_diff old new)) (if has_diff_evidence new then new else old)"
  by (simp add: carry_forward_diff_def same_diff_def)

lemma carried_commits:
  "so_CommitMessages old = [] \<Longrightarrow> so_CommitMessages new = [] \<Longrightarrow> so_CommitMessages (fst (carry_forward_diff old new)) = []"
  by (simp add: carry_forward_diff_def)

lemma row_commits [simp]: "so_CommitMessages (output_of_row r) = []"
  by (simp add: output_of_row_def no_output_def Let_def)

lemma loaded_commits:
  assumes "\<And>j x. m j = Some x \<Longrightarrow> so_CommitMessages x = []" "fold load_row rows m i = Some out"
  shows "so_CommitMessages out = []"
  using assms
proof (induction rows arbitrary: m)
  case (Cons r rows)
  have "so_CommitMessages x = []" if "load_row r m j = Some x" for j x
    using that Cons.prems(1)
    by (auto simp: load_row_def Let_def no_output_def carried_commits split: if_splits option.splits)
  then show ?case using Cons.IH [of "load_row r m"] Cons.prems(2) by simp
qed simp

text \<open>A later row without a diff never hides an earlier diff.\<close>

definition keeps_diff :: "string \<Rightarrow> stage_output \<Rightarrow> (string \<Rightarrow> stage_output option) \<Rightarrow> bool" where
  "keeps_diff i out m = (case m i of None \<Rightarrow> False | Some x \<Rightarrow> same_diff x out)"

lemma load_row_keeps:
  assumes k: "keeps_diff i out m" and e: "has_diff_evidence out" and i: "i \<noteq> ci_watch_state_key"
    and r: "sg_Stage r = i \<Longrightarrow> sg_Outcome r = Some Outcome_Success \<Longrightarrow> \<not> has_diff_evidence (output_of_row r)"
  shows "keeps_diff i out (load_row r m)"
proof -
  obtain x where x: "m i = Some x" "same_diff x out" using k by (auto simp: keeps_diff_def split: option.splits)
  have "has_diff_evidence x" using same_diff_evidence [OF x(2)] e by simp
  then have "same_diff (fst (carry_forward_diff x (output_of_row r))) out"
    if "sg_Stage r = i" "sg_Outcome r = Some Outcome_Success"
    using r [OF that] x(2) by (simp add: carry_forward_diff_def same_diff_def)
  then show ?thesis using x i by (auto simp: keeps_diff_def load_row_def Let_def)
qed

lemma load_rows_keep:
  assumes "keeps_diff i out m" "has_diff_evidence out" "i \<noteq> ci_watch_state_key"
    "\<And>y. y \<in> set rows \<Longrightarrow> sg_Stage y = i \<Longrightarrow> sg_Outcome y = Some Outcome_Success \<Longrightarrow> \<not> has_diff_evidence (output_of_row y)"
  shows "keeps_diff i out (fold load_row rows m)"
  using assms by (induction rows arbitrary: m) (auto intro: load_row_keeps)

lemma load_row_sets:
  assumes "same_diff (output_of_row r) out" "has_diff_evidence out" "sg_Stage r = i" "sg_Outcome r = Some Outcome_Success"
    "i \<noteq> ci_watch_state_key"
  shows "keeps_diff i out (load_row r m)"
  using assms same_diff_evidence [OF assms(1)]
  by (auto simp: keeps_diff_def load_row_def Let_def carry_forward_diff_def split: option.split)

section \<open>Properties\<close>



end
