(* ===== verification/Runner_Witness.thy ===== *)
theory Runner_Witness
  imports Start_Witness Runner_Store Runner_Resume
begin

text \<open>
  The properties of the stage runner at concrete drives of the start of item \<open>a\<close>: the default
  stages, four registered gates, workers that succeed, flicker or report a diff.
\<close>

section \<open>A drive\<close>

definition sample_config :: runner_config where
  "sample_config =
     \<lparr>rc_Stages = filter (\<lambda>s. stg_ID s \<in> {''implement'', ''post_implement_gate'', ''tests''}) default_stages, rc_MaxAttempts = 3, rc_TransientRetryCap = 5, rc_AutoRetryCap = 1,
      rc_MaxHeadTransitions = 1, rc_Gates = Some [''nonempty_diff'', ''scope'', ''tests_verdict'', ''tested_head''],
      rc_Tokens = (\<lambda>s. s), rc_Incident = (\<lambda>_. None), rc_QuotaReason = (\<lambda>_. False), rc_Fingerprint = (\<lambda>_ _. ''f'')\<rparr>"

definition passing :: gate_outcome where
  "passing = \<lparr>go_Pass = True, go_Reasons = [], go_JudgedBy = ''go'', go_Terminal = False, go_Skip = False\<rparr>"

definition sample_output :: stage_output where
  "sample_output = no_output\<lparr>so_FilesChanged := [''p/x''], so_LinesAdded := 2, so_DiffPatch := ''+x'', so_CommitMessages := [''fix: x'']\<rparr>"

definition sample_report :: report where
  "sample_report = \<lparr>dp_Ready = Ready, dp_Calls = [], dp_During = [], dp_Cancelled = False, dp_CancelledLate = False,
     dp_Output = sample_output, dp_Failure = None, dp_Stopped = True, dp_StopDuring = [], dp_StopCancelled = False\<rparr>"

definition sample_turn :: turn where
  "sample_turn = \<lparr>tn_Now = 20, tn_Before = [], tn_Cancelled = False, tn_Autonomy = Autonomy_Allowed, tn_Degraded = True,
     tn_Checked = [], tn_Gate = (\<lambda>_ _. Inr passing), tn_Bootstrapped = False, tn_Amend = (\<lambda>_. No_Violations),
     tn_RescueMR = 0, tn_Preflight = True, tn_Report = sample_report, tn_WaitCancelled = False,
     tn_StoreClass = Class_Code, tn_Hydrate = []\<rparr>"

text \<open>A worker whose connection is reset, and a turn at which every gate fails.\<close>

definition flaky :: turn where
  "flaky = sample_turn\<lparr>tn_Report := sample_report\<lparr>dp_Failure := Some (plain_failure ''reset'' Class_Transient)\<rparr>\<rparr>"

definition rejected :: turn where
  "rejected = sample_turn\<lparr>tn_Gate := (\<lambda>_ _. Inr (passing\<lparr>go_Pass := False\<rparr>))\<rparr>"

definition sample_item_row :: "backlog_item option" where
  "sample_item_row = backlog_get ''a'' (reachable_db sample_delivered)"

definition sample_drive :: turn_result where
  "sample_drive = start_drive sample_config 10 Health_Allowed sample_run sample_item_row (reachable_db sample_delivered)
     [] [] empty_ledger"

definition started_drive :: drive where
  "started_drive = result_of sample_drive"

lemma sample_starts: "case sample_drive of Next d \<Rightarrow> True | Stop e d \<Rightarrow> False"
  by code_simp

lemma sample_start_eq: "start_drive sample_config 10 Health_Allowed sample_run sample_item_row (reachable_db sample_delivered)
     [] [] empty_ledger = Next started_drive"
  using sample_starts by (auto simp: started_drive_def sample_drive_def split: turn_result.splits)

lemma sample_rewinds: "rewinds_back sample_config"
  by code_simp

text \<open>A turn before whose work somebody else has ended the run.\<close>

definition overtaken :: turn where
  "overtaken = sample_turn\<lparr>tn_Checked := [Put_Run 9 (sample_run\<lparr>pr_State := Run_Done, pr_Revision := 3\<rparr>)]\<rparr>"

lemma sample_done: "case drive_loop sample_config (replicate 4 sample_turn) started_drive of
    (e, d) \<Rightarrow> e = Some End_Done \<and> length (dr_Log d) = 5"
  by code_simp

lemma sample_bound: "drive_bound sample_config = 167"
  by code_simp

lemma sample_overtaken: "case drive_loop sample_config [sample_turn, overtaken] started_drive of
    (e, d) \<Rightarrow> e = None \<and> dr_Index d = 2 \<and> pr_ID (hd_Run d) = ''PIPE-a-1'' \<and>
      (case get_run ''PIPE-a-1'' (hd_DB d) of None \<Rightarrow> False | Some r \<Rightarrow> pr_State r = Run_Done)"
  by code_simp

section \<open>Witnesses\<close>

lemma flaky_run:
  "case drive_loop sample_config [flaky, flaky, sample_turn, rejected] started_drive of
     (e, d) \<Rightarrow> e = Some (End_Escalated Class_Code (Reason_Gate_Exhausted ''post_implement_gate'' ''implement'' 3 None)) \<and>
       dr_Effective d ''implement'' = 0"
  by code_simp

lemma steady_run:
  "case drive_loop sample_config [sample_turn, rejected] started_drive of (e, d) \<Rightarrow> e = None \<and> dr_Index d = 0"
  by code_simp


theorem turn_is_move_witness:
  "\<exists>d'. drive_turn sample_config sample_turn started_drive = Next d' \<and>
     moves sample_config (fresh_attempt sample_config sample_turn (stage_here sample_config started_drive) (checked sample_turn started_drive))
       (reattaching sample_turn (stage_here sample_config started_drive)) (path_of started_drive) (path_of d')"
proof -
  have "case drive_turn sample_config sample_turn started_drive of Next d \<Rightarrow> True | Stop e d \<Rightarrow> False" by code_simp
  then obtain d' where "drive_turn sample_config sample_turn started_drive = Next d'" by (auto split: turn_result.splits)
  with turn_is_move [OF this] show ?thesis by blast
qed

theorem stages_in_order_witness:
  "\<exists>d. drive_loop sample_config (replicate 4 sample_turn) started_drive = (Some End_Done, d) \<and>
     length (dr_Log d) = 5 \<and> cleared sample_config (dr_Index started_drive) (dr_Log d) 3"
proof -
  obtain e d where l: "drive_loop sample_config (replicate 4 sample_turn) started_drive = (e, d)" by (cases "drive_loop sample_config (replicate 4 sample_turn) started_drive")
  then have e: "e = Some End_Done" "length (dr_Log d) = 5" using sample_done by simp_all
  have "length (rc_Stages sample_config) = 3" by code_simp
  with stages_in_order [OF sample_rewinds sample_start_eq l] l e show ?thesis by simp
qed


lemma sample_quiet: "quiet ([sample_turn, overtaken] @ [sample_turn])"
  by code_simp

lemma sample_overtaken_ex:
  "\<exists>d r. drive_loop sample_config [sample_turn, overtaken] started_drive = (None, d) \<and> dr_Index d = 2 \<and>
     pr_ID (hd_Run d) = ''PIPE-a-1'' \<and> get_run ''PIPE-a-1'' (hd_DB d) = Some r \<and> pr_State r = Run_Done"
  using sample_overtaken by (auto split: option.splits prod.splits)

theorem ended_runs_survive_drive_witness:
  "\<exists>d r e d'. drive_loop sample_config [sample_turn, overtaken] started_drive = (None, d) \<and>
     get_run ''PIPE-a-1'' (hd_DB d) = Some r \<and> pr_State r = Run_Done \<and>
     drive_loop sample_config [sample_turn] d = (e, d') \<and> still_ended ''PIPE-a-1'' r (hd_DB d')"
proof -
  obtain d r where d: "drive_loop sample_config [sample_turn, overtaken] started_drive = (None, d)"
    "get_run ''PIPE-a-1'' (hd_DB d) = Some r" "pr_State r = Run_Done"
    using sample_overtaken_ex by blast
  obtain e d' where l: "drive_loop sample_config [sample_turn] d = (e, d')" by (cases "drive_loop sample_config [sample_turn] d")
  have "is_pipeline_terminal_state (pr_State r)" using d(3) by (simp add: is_pipeline_terminal_state_def)
  from ended_runs_survive_drive [OF sample_start_eq d(1) sample_quiet d(2) this l] d l show ?thesis by blast
qed

theorem ended_run_stops_drive_witness:
  "\<exists>d. drive_loop sample_config [sample_turn, overtaken] started_drive = (None, d) \<and>
     (\<exists>e \<in> {End_Elsewhere, End_Cancelled}. drive_loop sample_config [sample_turn] d = (Some e, others (tn_Before sample_turn) d))"
proof -
  obtain d r where d: "drive_loop sample_config [sample_turn, overtaken] started_drive = (None, d)" "dr_Index d = 2"
    "pr_ID (hd_Run d) = ''PIPE-a-1''" "get_run (pr_ID (hd_Run d)) (hd_DB d) = Some r" "pr_State r = Run_Done"
    using sample_overtaken_ex by auto
  have "length (rc_Stages sample_config) = 3" by code_simp
  then have "dr_Index d < length (rc_Stages sample_config)" using d(2) by simp
  moreover have "is_pipeline_terminal_state (pr_State r)" using d(5) by (simp add: is_pipeline_terminal_state_def)
  moreover have "pr_ID (hd_Run d) \<noteq> ''''" using d(3) by simp
  ultimately show ?thesis
    using ended_run_stops_drive [OF sample_start_eq d(1) sample_quiet _ d(4)] d(1) by blast
qed

text \<open>A slice of the run of item \<open>a\<close> that has just been escalated.\<close>

definition sample_slice :: held where
  "sample_slice = \<lparr>hd_Run = sample_run\<lparr>pr_ID := ''PIPE-a-1-s'', pr_ParentRunID := Some ''PIPE-a-1''\<rparr>,
     hd_Item = sample_item_row, hd_DB = reachable_db sample_delivered\<rparr>"

theorem slice_child_leaves_item_witness:
  "slice_child sample_slice \<and> db_backlog (hd_DB (snd (mark_done 20 sample_slice))) = db_backlog (reachable_db sample_delivered)"
proof -
  have c: "slice_child sample_slice" by code_simp
  with slice_child_leaves_item [OF c, of 20] show ?thesis by (simp add: sample_slice_def)
qed

text \<open>A finished attempt at the stage \<open>implement\<close>, and the row that is kept of it.\<close>

definition sample_stage :: stage where
  "sample_stage = worker_stage ''implement'' Kind_Agent_Spawn Run_Implementing"

definition sample_row :: stage_row where
  "sample_row = (result_row sample_turn ''r'' sample_stage 1 1 sample_output None 0 [])\<lparr>sg_ID := 1\<rparr>"



end
